(* ===== verification/Prelude.thy ===== *)
theory Prelude
  imports Main "HOL-Library.Char_ord" "HOL-Library.List_Lexorder" "HOL-Library.Product_Lexorder"
begin

text \<open>
  Shared vocabulary of the development: results that may carry an HTTP error, the ASCII
  string operations of the Python code (strip, lower, int), the "first smallest element" of
  \<^verbatim>\<open>min(xs, key=f)\<close>, and generic list lemmas. Strings are byte strings; the code's
  non-ASCII text is outside what they express.
\<close>

section \<open>Proof collections\<close>

named_theorems result_simps \<open>equations of the result combinators\<close>
named_theorems gate_simps \<open>characteristic equations of the authorization gates\<close>

section \<open>Results\<close>

datatype http_error = HttpError (http_status: nat) (http_detail: string)

type_synonym 'a response = "http_error + 'a"

definition raise_http :: "nat \<Rightarrow> string \<Rightarrow> 'a response" where
  "raise_http code detail = Inl (HttpError code detail)"

definition bind_result :: "'e + 'a \<Rightarrow> ('a \<Rightarrow> 'e + 'b) \<Rightarrow> 'e + 'b" where
  "bind_result m f = (case m of Inl e \<Rightarrow> Inl e | Inr x \<Rightarrow> f x)"

lemma bind_result_simps [simp, result_simps]:
  "bind_result (Inl e) f = Inl e"
  "bind_result (Inr x) f = f x"
  by (simp_all add: bind_result_def)

lemma bind_result_Inr_iff [result_simps]:
  "bind_result m f = Inr y \<longleftrightarrow> (\<exists>x. m = Inr x \<and> f x = Inr y)"
  by (cases m) simp_all

lemma raise_http_neq [simp, result_simps]: "raise_http c d \<noteq> Inr x" "Inr x \<noteq> raise_http c d"
  by (simp_all add: raise_http_def)

fun status_of :: "'a response \<Rightarrow> nat" where
  "status_of (Inl e) = http_status e"
| "status_of (Inr _) = 200"

lemma status_of_raise [simp]: "status_of (raise_http c d) = c"
  by (simp add: raise_http_def)

text \<open>What FastAPI answers when a handler raises anything else.\<close>

definition internal_error :: "'a response" where
  "internal_error = raise_http 500 ''internal error''"

section \<open>Strings\<close>

definition char_code :: "char \<Rightarrow> nat" where
  "char_code c = of_char c"

definition py_space :: "char \<Rightarrow> bool" where
  "py_space c \<longleftrightarrow> (let n = char_code c in n = 32 \<or> (9 \<le> n \<and> n \<le> 13) \<or> (28 \<le> n \<and> n \<le> 31))"

definition py_digit :: "char \<Rightarrow> bool" where
  "py_digit c \<longleftrightarrow> 48 \<le> char_code c \<and> char_code c \<le> 57"

definition digit_val :: "char \<Rightarrow> int" where
  "digit_val c = int (char_code c) - 48"

definition strip :: "string \<Rightarrow> string" where
  "strip s = rev (dropWhile py_space (rev (dropWhile py_space s)))"

definition lower_char :: "char \<Rightarrow> char" where
  "lower_char c = (if 65 \<le> char_code c \<and> char_code c \<le> 90 then char_of (char_code c + 32) else c)"

definition lower :: "string \<Rightarrow> string" where
  "lower s = map lower_char s"

definition digits_val :: "string \<Rightarrow> int" where
  "digits_val s = foldl (\<lambda>a c. 10 * a + digit_val c) 0 s"

text \<open>The digit part of a Python integer literal: digits, single underscores between digits.\<close>

fun int_body_ok :: "string \<Rightarrow> bool" where
  "int_body_ok [] = False"
| "int_body_ok [c] = py_digit c"
| "int_body_ok (c # d # cs) =
     (py_digit c \<and> (if d = CHR ''_'' then int_body_ok cs else int_body_ok (d # cs)))"

definition py_int :: "string \<Rightarrow> int option" where
  "py_int s = (let t = strip s;
                   neg = (t \<noteq> [] \<and> hd t = CHR ''-'');
                   body = (if t \<noteq> [] \<and> (hd t = CHR ''-'' \<or> hd t = CHR ''+'') then tl t else t)
               in if int_body_ok body
                  then Some ((if neg then -1 else 1) * digits_val (filter py_digit body))
                  else None)"

lemma dropWhile_none: "\<forall>c \<in> set s. \<not> P c \<Longrightarrow> dropWhile P s = s"
  by (cases s) auto

lemma strip_none: "\<forall>c \<in> set s. \<not> py_space c \<Longrightarrow> strip s = s"
  by (simp add: strip_def dropWhile_none)

lemma digits_val_nonneg_aux:
  "0 \<le> a \<Longrightarrow> list_all py_digit s \<Longrightarrow> 0 \<le> foldl (\<lambda>a c. 10 * a + digit_val c) a s"
  by (induction s arbitrary: a) (auto simp: py_digit_def digit_val_def)

lemma digits_val_nonneg: "list_all py_digit s \<Longrightarrow> 0 \<le> digits_val s"
  by (simp add: digits_val_def digits_val_nonneg_aux)

section \<open>Selection\<close>

text \<open>Python's \<^verbatim>\<open>min(x # xs, key=f)\<close>: the first element whose key is smallest.\<close>

fun min_by :: "('a \<Rightarrow> 'k::linorder) \<Rightarrow> 'a \<Rightarrow> 'a list \<Rightarrow> 'a" where
  "min_by f a [] = a"
| "min_by f a (x # xs) = (if f x < f a then min_by f x xs else min_by f a xs)"

lemma min_by_in: "min_by f a xs \<in> insert a (set xs)"
  by (induction f a xs rule: min_by.induct) auto

lemma min_by_le: "x \<in> insert a (set xs) \<Longrightarrow> f (min_by f a xs) \<le> f x"
proof (induction f a xs arbitrary: x rule: min_by.induct)
  case (1 f a)
  then show ?case by simp
next
  case (2 f a y ys)
  show ?case
  proof (cases "f y < f a")
    case True
    with 2 show ?thesis by (auto intro: order.trans[OF _ less_imp_le])
  next
    case False
    then have "f (min_by f a ys) \<le> f y" using 2(2)[of a] by (simp add: not_less order.trans)
    with False 2 show ?thesis by auto
  qed
qed

section \<open>Lists\<close>

lemma sum_list_map_filter_split:
  fixes g :: "'a \<Rightarrow> 'b::comm_monoid_add"
  shows "(\<Sum>x\<leftarrow>xs. g x) = (\<Sum>x\<leftarrow>filter P xs. g x) + (\<Sum>x\<leftarrow>filter (\<lambda>x. \<not> P x) xs. g x)"
  by (induction xs) (auto simp: ac_simps)

lemma find_append: "find P (xs @ ys) = (case find P xs of Some x \<Rightarrow> Some x | None \<Rightarrow> find P ys)"
  by (induction xs) simp_all

lemma find_map_upd:
  assumes "\<And>x. P (f x) = P x"
  shows "find P (map f xs) = map_option f (find P xs)"
  by (induction xs) (simp_all add: assms)

lemma concat_map_concat:
  "concat (map f (concat (map g ks))) = concat (map (\<lambda>k. concat (map f (g k))) ks)"
  by (induction ks) simp_all

lemma list_all2_partner: "list_all2 P xs ys \<Longrightarrow> x \<in> set xs \<Longrightarrow> \<exists>y \<in> set ys. P x y"
  by (induction rule: list_all2_induct) auto

lemma list_all2_source: "list_all2 P xs ys \<Longrightarrow> y \<in> set ys \<Longrightarrow> \<exists>x \<in> set xs. P x y"
  by (induction rule: list_all2_induct) auto

text \<open>A property kept by every step is kept by a run.\<close>

lemma foldl_invariant: "(\<And>s x. P s \<Longrightarrow> P (f s x)) \<Longrightarrow> P s \<Longrightarrow> P (foldl f s xs)"
  by (induction xs arbitrary: s) simp_all

section \<open>Sequencing\<close>

text \<open>A list comprehension whose body may raise: the first error ends it.\<close>

fun map_result :: "('a \<Rightarrow> 'e + 'b) \<Rightarrow> 'a list \<Rightarrow> 'e + 'b list" where
  "map_result f [] = Inr []"
| "map_result f (x # xs) = bind_result (f x) (\<lambda>y. bind_result (map_result f xs) (\<lambda>ys. Inr (y # ys)))"

lemma map_result_Inr_iff [result_simps]:
  "map_result f xs = Inr ys \<longleftrightarrow> list_all2 (\<lambda>x y. f x = Inr y) xs ys"
  by (induction xs arbitrary: ys) (auto simp: bind_result_Inr_iff list_all2_Cons1)

lemma map_result_error: "x \<in> set xs \<Longrightarrow> f x = Inl e \<Longrightarrow> \<exists>e'. map_result f xs = Inl e'"
proof (induction xs)
  case (Cons y ys)
  then show ?case by (cases "f y"; cases "map_result f ys") auto
qed simp

end
