(* ===== verification/Rounding.thy ===== *)
theory Rounding
  imports Prelude Complex_Main
begin

text \<open>
  Arithmetic of the standard library that the code computes money with, over the rationals:
  rounding to \<open>p\<close> significant digits in base \<open>b\<close>, ties to even. With base 10 and 28 digits
  this is the working precision of \<^verbatim>\<open>decimal\<close> that \<^verbatim>\<open>apr.py\<close> sets; with base 2 and 53
  digits it is the rounding of a double (exponent range left out: no overflow, no
  subnormals). Also ROUND_HALF_UP, \<^verbatim>\<open>Decimal.quantize\<close> and the value of
  \<^verbatim>\<open>Decimal(str(x))\<close> for a double \<open>x\<close>. The lemmas are the facts the money proofs share:
  bounds, monotonicity, exactness on representable values, and the 15 digit round trip.
\<close>

section \<open>Magnitude\<close>

fun ilog :: "nat \<Rightarrow> nat \<Rightarrow> nat" where
  "ilog b n = (if b < 2 \<or> n < b then 0 else Suc (ilog b (n div b)))"

function clog :: "nat \<Rightarrow> nat \<Rightarrow> nat" where
  "clog b n = (if b < 2 \<or> n \<le> 1 then 0 else Suc (clog b ((n + b - 1) div b)))"
  by pat_completeness auto
termination
proof (relation "measure snd")
  fix b n :: nat
  assume a: "\<not> (b < 2 \<or> n \<le> 1)"
  then have "n + b - 1 < n * b"
    by (cases n; cases b) (auto simp: algebra_simps)
  then have "(n + b - 1) div b < n"
    by (simp add: less_mult_imp_div_less)
  then show "((b, (n + b - 1) div b), b, n) \<in> measure snd" by simp
qed simp

declare ilog.simps [simp del] clog.simps [simp del]

text \<open>\<open>mag b x\<close> is the exponent of the leading digit of \<open>x > 0\<close> in base \<open>b\<close>.\<close>

definition mag :: "nat \<Rightarrow> rat \<Rightarrow> int" where
  "mag b x = (if 1 \<le> x then int (ilog b (nat \<lfloor>x\<rfloor>)) else - int (clog b (nat \<lceil>1 / x\<rceil>)))"

lemma ilog_bounds: "2 \<le> b \<Longrightarrow> 0 < n \<Longrightarrow> b ^ ilog b n \<le> n \<and> n < b ^ Suc (ilog b n)"
proof (induction b n rule: ilog.induct)
  case (1 b n)
  show ?case
  proof (cases "n < b")
    case True
    with 1 show ?thesis by (simp add: ilog.simps [of b n])
  next
    case False
    let ?k = "ilog b (n div b)"
    from False 1 have IH: "b ^ ?k \<le> n div b" "n div b < b ^ Suc ?k"
      by (auto simp: div_greater_zero_iff)
    from IH(1) have "b * b ^ ?k \<le> n"
      by (metis div_times_less_eq_dividend mult.commute mult_le_mono1 order.trans)
    moreover from IH(2) have "n < b * b ^ Suc ?k"
      by (metis False "1.prems"(1) div_less_iff_less_mult less_le_trans mult.commute pos2)
    ultimately show ?thesis using False 1 by (simp add: ilog.simps [of b n])
  qed
qed

lemma clog_bounds: "2 \<le> b \<Longrightarrow> 2 \<le> n \<Longrightarrow> n \<le> b ^ clog b n \<and> b ^ (clog b n - 1) < n \<and> 0 < clog b n"
proof (induction b n rule: clog.induct)
  case (1 b n)
  let ?m = "(n + b - 1) div b"
  let ?k = "clog b ?m"
  have unf: "clog b n = Suc ?k" using 1 by (simp add: clog.simps [of b n])
  have m1: "1 \<le> ?m" using 1 by (simp add: div_greater_zero_iff Suc_le_eq)
  have up: "n \<le> b * ?m"
  proof -
    have "n + b - 1 < b * ?m + b"
      using 1 by (metis (no_types) add.commute dividend_less_times_div less_le_trans pos2 mult.commute mult_Suc_right)
    then show ?thesis using 1 by linarith
  qed
  show ?case
  proof (cases "2 \<le> ?m")
    case True
    with 1 have IH: "?m \<le> b ^ ?k" "b ^ (?k - 1) < ?m" "0 < ?k" by auto
    from up IH(1) have "n \<le> b * b ^ ?k" by (meson le_trans mult_le_mono2)
    moreover have "b ^ ?k < n"
    proof -
      from IH(3) have "b ^ ?k = b * b ^ (?k - 1)" by (cases ?k) auto
      also from IH(2) have "\<dots> \<le> b * (?m - 1)" by (intro mult_le_mono2) linarith
      also have "\<dots> < n"
      proof -
        have "b * ?m \<le> n + b - 1" by simp
        then have "b * ?m - b < n" using "1.prems" by linarith
        then show ?thesis by (simp only: diff_mult_distrib2 mult_1_right)
      qed
      finally show ?thesis .
    qed
    ultimately show ?thesis by (simp add: unf)
  next
    case False
    with m1 have "?m = 1" by simp
    then have "?k = 0" by (simp add: clog.simps [of b "Suc 0"])
    then show ?thesis using up \<open>?m = 1\<close> 1 by (simp add: unf)
  qed
qed


lemma mag_bounds:
  assumes b: "2 \<le> b" and x: "0 < x"
  shows "of_nat b powi mag b x \<le> x \<and> x < of_nat b powi (mag b x + 1)"
proof (cases "1 \<le> x")
  case True
  let ?n = "nat \<lfloor>x\<rfloor>"
  let ?k = "ilog b ?n"
  from True have n: "0 < ?n" by linarith
  have bd: "b ^ ?k \<le> ?n" "?n < b ^ Suc ?k" using ilog_bounds [OF b n] by auto
  have "of_nat (b ^ ?k) \<le> (of_nat ?n :: rat)" using bd(1) by (simp only: of_nat_le_iff)
  also have "\<dots> \<le> x" using True by (simp add: of_nat_nat)
  finally have lo: "(of_nat b :: rat) ^ ?k \<le> x" by simp
  have "x < of_int (\<lfloor>x\<rfloor> + 1)" by linarith
  also have "\<dots> = of_nat (?n + 1)" using True by (simp add: of_nat_nat)
  also have "\<dots> \<le> of_nat (b ^ Suc ?k)" unfolding of_nat_le_iff using bd(2) by simp
  finally have hi: "x < (of_nat b :: rat) ^ Suc ?k" by simp
  have e: "mag b x = int ?k" using True by (simp add: mag_def)
  have e1: "mag b x + 1 = int (Suc ?k)" using e by simp
  show ?thesis using lo hi unfolding e1 unfolding e by (simp only: power_int_of_nat simp_thms)
next
  case False
  let ?y = "1 / x"
  let ?n = "nat \<lceil>?y\<rceil>"
  let ?k = "clog b ?n"
  from False x have y: "1 < ?y" by (simp add: field_simps)
  then have "1 < \<lceil>?y\<rceil>" by linarith
  then have n: "2 \<le> ?n" by linarith
  have bd: "?n \<le> b ^ ?k" "b ^ (?k - 1) < ?n" "0 < ?k" using clog_bounds [OF b n] by auto
  have bpos: "(0::rat) < of_nat b" using b by simp
  have "?y \<le> of_nat ?n" using y by (simp add: of_nat_nat le_of_int_ceiling)
  also have "\<dots> \<le> of_nat (b ^ ?k)" using bd(1) by (simp only: of_nat_le_iff)
  finally have "?y \<le> of_nat b ^ ?k" by simp
  then have lo: "inverse (of_nat b ^ ?k) \<le> x" using x bpos by (simp add: field_simps)
  have "int (b ^ (?k - 1)) < \<lceil>?y\<rceil>" using bd(2) by linarith
  then have "of_int (int (b ^ (?k - 1))) < ?y" by (simp only: less_ceiling_iff)
  then have "of_nat b ^ (?k - 1) < ?y" by simp
  then have hi: "x < inverse (of_nat b ^ (?k - 1))" using x bpos by (simp add: field_simps)
  have e: "mag b x = - int ?k" using False by (simp add: mag_def)
  have e1: "mag b x + 1 = - int (?k - 1)" using e bd(3) by simp
  show ?thesis using lo hi unfolding e1 unfolding e by (simp add: power_int_minus)
qed

lemma powi_lessD: "(1::rat) < a \<Longrightarrow> a powi m < a powi n \<Longrightarrow> m < n"
  by (meson less_imp_le linorder_not_le power_int_increasing)

lemma mag_unique:
  assumes b: "2 \<le> b" and lo: "of_nat b powi e \<le> x" and hi: "x < of_nat b powi (e + 1)"
  shows "mag b x = e"
proof -
  have b1: "(1::rat) < of_nat b" using b by simp
  then have x: "0 < x" using lo zero_less_power_int [of "of_nat b :: rat" e] by linarith
  note m = mag_bounds [OF b x]
  have "of_nat b powi e < (of_nat b :: rat) powi (mag b x + 1)" using lo m by linarith
  then have "e < mag b x + 1" by (rule powi_lessD [OF b1])
  moreover have "of_nat b powi mag b x < (of_nat b :: rat) powi (e + 1)" using hi m by linarith
  then have "mag b x < e + 1" by (rule powi_lessD [OF b1])
  ultimately show ?thesis by simp
qed

section \<open>Rounding to an integer\<close>

definition round_half_even :: "rat \<Rightarrow> int" where
  "round_half_even x =
     (let f = \<lfloor>x\<rfloor>; d = x - of_int f
      in if d < 1 / 2 then f else if 1 / 2 < d then f + 1 else if even f then f else f + 1)"

text \<open>ROUND_HALF_UP: ties away from zero.\<close>

definition round_half_up :: "rat \<Rightarrow> int" where
  "round_half_up x = (if 0 \<le> x then \<lfloor>x + 1 / 2\<rfloor> else - \<lfloor>- x + 1 / 2\<rfloor>)"

lemma round_half_even_near: "\<bar>of_int (round_half_even x) - x\<bar> \<le> 1 / 2"
proof -
  have "of_int \<lfloor>x\<rfloor> \<le> x" "x < of_int \<lfloor>x\<rfloor> + 1" by linarith+
  then show ?thesis by (simp only: round_half_even_def Let_def of_int_add of_int_1 split: if_split) linarith
qed

lemma round_half_even_of_int [simp]: "round_half_even (of_int k) = k"
  by (simp add: round_half_even_def)

lemma round_half_even_unique:
  assumes "\<bar>x - of_int k\<bar> < 1 / 2"
  shows "round_half_even x = k"
proof -
  have "\<bar>of_int (round_half_even x) - (of_int k :: rat)\<bar> < 1"
    using assms round_half_even_near [of x] by linarith
  then show ?thesis by linarith
qed

lemma round_half_even_mono: "x \<le> y \<Longrightarrow> round_half_even x \<le> round_half_even y"
proof (rule ccontr)
  assume le: "x \<le> y" and "\<not> round_half_even x \<le> round_half_even y"
  then have gt: "round_half_even y + 1 \<le> round_half_even x" by linarith
  have "of_int (round_half_even x) \<le> x + 1 / 2" "y - 1 / 2 \<le> of_int (round_half_even y)"
    using round_half_even_near [of x] round_half_even_near [of y] by linarith+
  moreover have "(of_int (round_half_even y) :: rat) + 1 \<le> of_int (round_half_even x)"
    using gt by linarith
  ultimately have "x = y" using le by linarith
  then show False using gt by simp
qed

lemma round_half_even_minus: "round_half_even (- x) = - round_half_even x"
proof (cases "\<exists>k. x = of_int k + 1 / 2")
  case True
  then obtain k where k: "x = of_int k + 1 / 2" by blast
  have "\<lfloor>x\<rfloor> = k" "\<lfloor>- x\<rfloor> = - k - 1" unfolding k by (auto simp: floor_eq_iff)
  then show ?thesis by (auto simp: round_half_even_def k)
next
  case False
  let ?r = "round_half_even x"
  have "\<bar>of_int ?r - x\<bar> \<noteq> 1 / 2"
  proof
    assume "\<bar>of_int ?r - x\<bar> = 1 / 2"
    then have "x = of_int ?r + 1 / 2 \<or> x = of_int (?r - 1) + 1 / 2" by (auto simp: abs_if split: if_splits)
    then show False using False by blast
  qed
  then have "\<bar>of_int ?r - x\<bar> < 1 / 2" using round_half_even_near [of x] by linarith
  then have "\<bar>- x - of_int (- ?r)\<bar> < 1 / 2" by simp
  then show ?thesis by (rule round_half_even_unique)
qed

lemma round_half_up_of_int [simp]: "round_half_up (of_int k) = k"
  by (auto simp: round_half_up_def floor_eq_iff minus_equation_iff)

lemma round_half_up_near: "\<bar>of_int (round_half_up x) - x\<bar> \<le> 1 / 2"
proof -
  have "of_int \<lfloor>x + 1 / 2\<rfloor> \<le> x + 1 / 2" "x + 1 / 2 < of_int \<lfloor>x + 1 / 2\<rfloor> + 1"
    "of_int \<lfloor>- x + 1 / 2\<rfloor> \<le> - x + 1 / 2" "- x + 1 / 2 < of_int \<lfloor>- x + 1 / 2\<rfloor> + 1"
    by linarith+
  then show ?thesis by (simp only: round_half_up_def of_int_minus split: if_split) linarith
qed

lemma round_half_up_mono: "x \<le> y \<Longrightarrow> round_half_up x \<le> round_half_up y"
proof -
  assume xy: "x \<le> y"
  consider "0 \<le> x" | "x < 0" "0 \<le> y" | "y < 0" using xy by linarith
  then show ?thesis
  proof cases
    case 1 then show ?thesis using xy by (auto simp: round_half_up_def intro: floor_mono)
  next
    case 2
    then have "0 \<le> \<lfloor>- x + 1 / 2\<rfloor>" "0 \<le> \<lfloor>y + 1 / 2\<rfloor>" by (auto simp: le_floor_iff)
    then show ?thesis using 2 by (simp only: round_half_up_def split: if_split) linarith
  next
    case 3
    then have "\<lfloor>- y + 1 / 2\<rfloor> \<le> \<lfloor>- x + 1 / 2\<rfloor>" using xy by (intro floor_mono) simp
    then show ?thesis using 3 xy by (auto simp: round_half_up_def)
  qed
qed

lemma round_half_up_minus: "round_half_up (- x) = - round_half_up x"
proof -
  have "\<lfloor>(1::rat) / 2\<rfloor> = 0" by (simp add: floor_eq_iff)
  then show ?thesis by (auto simp: round_half_up_def)
qed

section \<open>Rounding to significant digits\<close>

definition ulp :: "nat \<Rightarrow> nat \<Rightarrow> rat \<Rightarrow> rat" where
  "ulp b p x = of_nat b powi (mag b \<bar>x\<bar> - int p + 1)"

definition round_sig :: "nat \<Rightarrow> nat \<Rightarrow> rat \<Rightarrow> rat" where
  "round_sig b p x =
     (if x = 0 then 0 else of_int (round_half_even (x / ulp b p x)) * ulp b p x)"

text \<open>The values with at most \<open>p\<close> significant digits in base \<open>b\<close>.\<close>

definition sig_repr :: "nat \<Rightarrow> nat \<Rightarrow> rat \<Rightarrow> bool" where
  "sig_repr b p x \<longleftrightarrow> (\<exists>m k. x = of_int m * of_nat b powi k \<and> \<bar>m\<bar> < int b ^ p)"

lemma ulp_pos: "2 \<le> b \<Longrightarrow> 0 < ulp b p x"
  by (simp add: ulp_def)

lemma round_sig_0 [simp]: "round_sig b p 0 = 0"
  by (simp add: round_sig_def)

lemma round_sig_minus: "round_sig b p (- x) = - round_sig b p x"
  by (simp add: round_sig_def ulp_def round_half_even_minus)

lemma round_sig_err: "2 \<le> b \<Longrightarrow> \<bar>round_sig b p x - x\<bar> \<le> ulp b p x / 2"
proof (cases "x = 0")
  case False
  assume b: "2 \<le> b"
  let ?u = "ulp b p x"
  have u: "0 < ?u" using b by (rule ulp_pos)
  have "round_sig b p x - x = (of_int (round_half_even (x / ?u)) - x / ?u) * ?u"
    using False u by (simp add: round_sig_def algebra_simps)
  then have "\<bar>round_sig b p x - x\<bar> = \<bar>of_int (round_half_even (x / ?u)) - x / ?u\<bar> * ?u"
    using u by (simp add: abs_mult)
  also have "\<dots> \<le> 1 / 2 * ?u"
    using round_half_even_near [of "x / ?u"] u by (intro mult_right_mono) simp_all
  finally show ?thesis by simp
qed (simp add: ulp_def)

lemma round_sig_rel_err:
  assumes "2 \<le> b"
  shows "\<bar>round_sig b p x - x\<bar> \<le> \<bar>x\<bar> * of_nat b powi (1 - int p) / 2"
proof (cases "x = 0")
  case False
  have "of_nat b powi mag b \<bar>x\<bar> \<le> \<bar>x\<bar>" using mag_bounds [OF assms, of "\<bar>x\<bar>"] False by simp
  then have "of_nat b powi mag b \<bar>x\<bar> * of_nat b powi (1 - int p) \<le> \<bar>x\<bar> * of_nat b powi (1 - int p)"
    by (intro mult_right_mono) simp_all
  moreover have "ulp b p x = of_nat b powi mag b \<bar>x\<bar> * of_nat b powi (1 - int p)"
    using assms by (simp add: ulp_def algebra_simps flip: power_int_add)
  ultimately show ?thesis using round_sig_err [OF assms, of p x] by linarith
qed simp

lemma round_sig_exact:
  assumes b: "2 \<le> b" and x: "sig_repr b p x"
  shows "round_sig b p x = x"
proof (cases "x = 0")
  case False
  obtain m k where x_eq: "x = of_int m * of_nat b powi k" and m: "\<bar>m\<bar> < int b ^ p"
    using x by (auto simp: sig_repr_def)
  let ?B = "of_nat b :: rat"
  let ?e = "mag b \<bar>x\<bar>"
  have b1: "1 < ?B" using b by simp
  have "of_int \<bar>m\<bar> < (of_int (int b ^ p) :: rat)" using m by (simp only: of_int_less_iff)
  then have "\<bar>x\<bar> < ?B powi int p * ?B powi k"
    using b by (simp add: x_eq abs_mult)
  also have "\<dots> = ?B powi (int p + k)" using b1 by (simp add: power_int_add)
  finally have "?B powi ?e < ?B powi (int p + k)"
    using mag_bounds [OF b, of "\<bar>x\<bar>"] False by simp
  then have e: "?e < int p + k" by (rule powi_lessD [OF b1])
  define j where "j = nat (k - (?e - int p + 1))"
  have j: "k = int j + (?e - int p + 1)" using e by (simp add: j_def)
  have "?B powi k = ?B ^ j * ulp b p x"
    using b1 by (subst j) (simp add: power_int_add ulp_def)
  then have "x / ulp b p x = of_int (m * int b ^ j)"
    using ulp_pos [OF b, of p x] by (simp add: x_eq field_simps)
  moreover have "x = of_int (m * int b ^ j) * ulp b p x"
    using \<open>?B powi k = ?B ^ j * ulp b p x\<close> by (simp add: x_eq)
  ultimately show ?thesis using False by (simp only: round_sig_def round_half_even_of_int if_False)
qed simp

lemma sig_repr_power: "0 < p \<Longrightarrow> 2 \<le> b \<Longrightarrow> sig_repr b p (of_nat b powi k)"
  unfolding sig_repr_def by (rule exI [of _ 1], rule exI [of _ k]) simp

lemma sig_repr_of_int_div:
  assumes "2 \<le> b" and "\<bar>m\<bar> < int b ^ p"
  shows "sig_repr b p (of_int m / of_nat b ^ j)"
  unfolding sig_repr_def using assms
  by (intro exI [of _ m] exI [of _ "- int j"]) (simp add: power_int_minus divide_inverse)

lemma sig_repr_mono:
  assumes "p \<le> q" "2 \<le> b" "sig_repr b p x"
  shows "sig_repr b q x"
proof -
  have "int b ^ p \<le> int b ^ q" using assms by (intro power_increasing) simp_all
  moreover obtain m k where "x = of_int m * of_nat b powi k" "\<bar>m\<bar> < int b ^ p"
    using assms(3) unfolding sig_repr_def by blast
  ultimately show ?thesis unfolding sig_repr_def by (intro exI [of _ m] exI [of _ k]) simp
qed

text \<open>The scaled significand lies between \<open>b ^ (p - 1)\<close> and \<open>b ^ p\<close>.\<close>

lemma significand_bounds:
  assumes b: "2 \<le> b" and p: "0 < p" and x: "0 < x"
  shows "of_nat b ^ (p - 1) \<le> x / ulp b p x" "x / ulp b p x < of_nat b ^ p"
proof -
  let ?B = "of_nat b :: rat"
  have u: "0 < ulp b p x" using b by (rule ulp_pos)
  have lo: "?B ^ (p - 1) * ulp b p x = ?B powi mag b x"
    using b p x by (simp add: ulp_def algebra_simps flip: power_int_of_nat power_int_add)
  have hi: "?B ^ p * ulp b p x = ?B powi (mag b x + 1)"
    using b x by (simp add: ulp_def algebra_simps flip: power_int_of_nat power_int_add)
  show "?B ^ (p - 1) \<le> x / ulp b p x" "x / ulp b p x < ?B ^ p"
    using mag_bounds [OF b x] lo hi u by (simp_all add: pos_le_divide_eq pos_divide_less_eq)
qed


lemma round_sig_upper:
  assumes b: "2 \<le> b" and p: "0 < p" and x: "0 < x"
  shows "round_sig b p x \<le> of_nat b powi (mag b x + 1)"
proof -
  have "round_half_even (x / ulp b p x) \<le> round_half_even (of_int (int b ^ p))"
    using significand_bounds(2) [OF b p x] by (intro round_half_even_mono) simp
  then have "of_int (round_half_even (x / ulp b p x)) \<le> (of_nat b :: rat) ^ p"
    by (metis of_int_le_iff of_int_of_nat_eq of_int_power round_half_even_of_int)
  then have "round_sig b p x \<le> of_nat b ^ p * ulp b p x"
    using x ulp_pos [OF b, of p x] by (simp add: round_sig_def mult_right_mono)
  also have "\<dots> = of_nat b powi (mag b x + 1)"
    using b x by (simp add: ulp_def algebra_simps flip: power_int_of_nat power_int_add)
  finally show ?thesis .
qed

lemma round_sig_lower:
  assumes b: "2 \<le> b" and p: "0 < p" and x: "0 < x"
  shows "of_nat b powi mag b x \<le> round_sig b p x"
proof -
  have "round_half_even (of_int (int b ^ (p - 1))) \<le> round_half_even (x / ulp b p x)"
    using significand_bounds(1) [OF b p x] by (intro round_half_even_mono) simp
  then have "(of_nat b :: rat) ^ (p - 1) \<le> of_int (round_half_even (x / ulp b p x))"
    by (metis of_int_le_iff of_int_of_nat_eq of_int_power round_half_even_of_int)
  then have "of_nat b ^ (p - 1) * ulp b p x \<le> round_sig b p x"
    using x ulp_pos [OF b, of p x] by (simp add: round_sig_def mult_right_mono)
  moreover have "of_nat b ^ (p - 1) * ulp b p x = of_nat b powi mag b x"
    using b x p by (simp add: ulp_def algebra_simps flip: power_int_of_nat power_int_add)
  ultimately show ?thesis by simp
qed

lemma round_sig_pos:
  assumes "2 \<le> b" "0 < p" "0 < x"
  shows "0 < round_sig b p x"
proof -
  have "0 < (of_nat b :: rat) powi mag b x" using assms(1) by simp
  then show ?thesis using round_sig_lower [OF assms] by linarith
qed

lemma round_sig_mono_pos:
  assumes b: "2 \<le> b" and p: "0 < p" and x: "0 < x" and xy: "x \<le> y"
  shows "round_sig b p x \<le> round_sig b p y"
proof (cases "mag b x = mag b y")
  case True
  then have "ulp b p x = ulp b p y" using x xy by (simp add: ulp_def)
  moreover have "x / ulp b p x \<le> y / ulp b p x"
    using xy ulp_pos [OF b, of p x] by (simp add: divide_right_mono)
  ultimately show ?thesis
    using x xy ulp_pos [OF b, of p x]
    by (simp add: round_sig_def mult_right_mono round_half_even_mono)
next
  case False
  have y: "0 < y" using x xy by simp
  have b1: "(1::rat) < of_nat b" using b by simp
  have "of_nat b powi mag b x < (of_nat b :: rat) powi (mag b y + 1)"
    using mag_bounds [OF b x] mag_bounds [OF b y] xy by linarith
  then have "mag b x + 1 \<le> mag b y" using powi_lessD [OF b1] False by fastforce
  then have "(of_nat b :: rat) powi (mag b x + 1) \<le> of_nat b powi mag b y"
    using b1 by (intro power_int_increasing) simp_all
  then show ?thesis using round_sig_upper [OF b p x] round_sig_lower [OF b p y] by linarith
qed

lemma round_sig_mono:
  assumes b: "2 \<le> b" and p: "0 < p" and xy: "x \<le> y"
  shows "round_sig b p x \<le> round_sig b p y"
proof -
  consider "0 < x" | "x \<le> 0" "0 \<le> y" | "y < 0" by linarith
  then show ?thesis
  proof cases
    case 1 then show ?thesis using round_sig_mono_pos [OF b p _ xy] by simp
  next
    case 2
    have "0 \<le> round_sig b p y" using 2 round_sig_pos [OF b p, of y] by (cases "y = 0") auto
    moreover have "0 \<le> round_sig b p (- x)"
      using 2 round_sig_pos [OF b p, of "- x"] by (cases "x = 0") auto
    ultimately show ?thesis by (simp add: round_sig_minus)
  next
    case 3
    then have "round_sig b p (- y) \<le> round_sig b p (- x)"
      using xy by (intro round_sig_mono_pos [OF b p]) simp_all
    then show ?thesis by (simp add: round_sig_minus)
  qed
qed

lemma round_sig_between:
  assumes "2 \<le> b" "0 < p" "sig_repr b p l" "sig_repr b p h" "l \<le> x" "x \<le> h"
  shows "l \<le> round_sig b p x \<and> round_sig b p x \<le> h"
  using round_sig_mono [OF assms(1,2) assms(5)] round_sig_mono [OF assms(1,2) assms(6)]
    round_sig_exact [OF assms(1,3)] round_sig_exact [OF assms(1,4)] by simp

lemma round_sig_repr:
  assumes b: "2 \<le> b" and p: "0 < p"
  shows "sig_repr b p (round_sig b p x)"
proof -
  have pos: "sig_repr b p (round_sig b p x)" if x: "0 < x" for x
  proof -
    let ?r = "round_half_even (x / ulp b p x)"
    have r: "round_sig b p x = of_int ?r * ulp b p x" using x by (simp add: round_sig_def)
    have up: "?r \<le> int b ^ p"
      using round_half_even_mono [OF less_imp_le [OF significand_bounds(2) [OF b p x]]]
      by (metis of_int_of_nat_eq of_int_power round_half_even_of_int)
    have "0 < ?r" using round_sig_pos [OF b p x] ulp_pos [OF b, of p x]
      by (simp add: r zero_less_mult_iff)
    show ?thesis
    proof (cases "?r = int b ^ p")
      case True
      then have "round_sig b p x = of_nat b powi (int p) * ulp b p x" by (simp add: r)
      also have "\<dots> = of_nat b powi (mag b \<bar>x\<bar> + 1)"
        using b by (simp add: ulp_def algebra_simps flip: power_int_of_nat power_int_add)
      finally show ?thesis using sig_repr_power [OF p b] by simp
    next
      case False
      then show ?thesis using up \<open>0 < ?r\<close> unfolding sig_repr_def r ulp_def
        by (intro exI [of _ ?r] exI [of _ "mag b \<bar>x\<bar> - int p + 1"])
          (simp add: ulp_def)
    qed
  qed
  have neg: "sig_repr b p (- y)" if "sig_repr b p y" for y
    using that unfolding sig_repr_def by (metis abs_minus_cancel minus_mult_left of_int_minus)
  consider "0 < x" | "x = 0" | "0 < - x" by linarith
  then show ?thesis
  proof cases
    case 2
    then show ?thesis using b by (auto simp: sig_repr_def intro!: exI [of _ 0])
  next
    case 3
    then have "sig_repr b p (- round_sig b p (- x))" by (intro neg pos)
    then show ?thesis by (simp add: round_sig_minus)
  qed (rule pos)
qed


section \<open>The nearest value, and the 15 digit round trip\<close>

text \<open>
  A value closer to the \<open>p\<close> digit value \<open>d\<close> than half of the finest spacing next to \<open>d\<close>
  rounds to \<open>d\<close>.
\<close>

lemma sig_repr_gap:
  assumes b: "2 \<le> b" and d: "sig_repr b p d" and pos: "0 < d"
    and k: "k \<le> mag b d - int p + 1"
  shows "\<exists>n. d = of_int n * of_nat b powi k"
proof -
  let ?e = "mag b d - int p + 1"
  have "d = round_sig b p d" using round_sig_exact [OF b d] by simp
  then have "d = of_int (round_half_even (d / ulp b p d)) * of_nat b powi ?e"
    using pos by (simp add: round_sig_def ulp_def)
  also have "(of_nat b :: rat) powi ?e = of_nat b ^ nat (?e - k) * of_nat b powi k"
    using b k by (simp flip: power_int_of_nat power_int_add)
  finally have "d = of_int (round_half_even (d / ulp b p d) * int b ^ nat (?e - k)) * of_nat b powi k"
    by (simp add: mult.assoc)
  then show ?thesis by blast
qed

lemma round_sig_grid:
  assumes b: "2 \<le> b" and x: "0 < x" and m: "mag b x - int p + 1 = k"
    and d: "d = of_int n * of_nat b powi k" and near: "\<bar>x - d\<bar> < of_nat b powi k / 2"
  shows "round_sig b p x = d"
proof -
  let ?u = "(of_nat b :: rat) powi k"
  have u: "ulp b p x = ?u" "0 < ?u" using b x m by (simp_all add: ulp_def)
  have "x / ?u - of_int n = (x - d) / ?u" using u(2) b by (simp only: d diff_divide_distrib) simp
  then have "\<bar>x / ?u - of_int n\<bar> = \<bar>x - d\<bar> / ?u" using u(2) by (simp add: abs_divide)
  also have "\<dots> < 1 / 2" using near u(2) by (simp add: pos_divide_less_eq)
  finally have "round_half_even (x / ?u) = n" by (rule round_half_even_unique)
  then show ?thesis using x u(1) by (simp add: round_sig_def d)
qed

lemma round_sig_near:
  assumes b: "2 \<le> b" and p: "0 < p" and d: "sig_repr b p d" and pos: "0 < d"
    and near: "\<bar>x - d\<bar> < d * of_nat b powi (- int p) / 2"
  shows "round_sig b p x = d"
proof -
  let ?B = "of_nat b :: rat"
  let ?e = "mag b d"
  let ?k = "?e - int p + 1"
  have b1: "1 < ?B" "2 \<le> ?B" using b by auto
  have dB: "?B powi ?e \<le> d" "d < ?B powi (?e + 1)" using mag_bounds [OF b pos] by auto
  have small: "d * ?B powi (- int p) < ?B powi ?k"
  proof -
    have "d * ?B powi (- int p) < ?B powi (?e + 1) * ?B powi (- int p)"
      using dB(2) b by (intro mult_strict_right_mono) simp_all
    then show ?thesis using b by (simp add: algebra_simps flip: power_int_add)
  qed
  have u: "0 < ?B powi ?k" using b by simp
  obtain n where n: "d = of_int n * ?B powi ?k" using sig_repr_gap [OF b d pos order.refl] by blast
  have top: "d + ?B powi ?k \<le> ?B powi (?e + 1)"
  proof -
    have t: "?B powi (?e + 1) = of_int (int b ^ p) * ?B powi ?k"
      using b by (simp add: algebra_simps flip: power_int_of_nat power_int_add)
    then have "of_int n < (of_int (int b ^ p) :: rat)"
      using dB(2) u by (subst (asm) n) (simp only: t mult_less_cancel_right_pos)
    then have "n + 1 \<le> int b ^ p" by (simp only: of_int_less_iff zless_imp_add1_zle)
    then have "of_int (n + 1) * ?B powi ?k \<le> of_int (int b ^ p) * ?B powi ?k"
      using u by (intro mult_right_mono) (simp_all only: of_int_le_iff less_imp_le)
    then show ?thesis unfolding t by (subst n) (simp add: algebra_simps)
  qed
  have xhi: "x < ?B powi (?e + 1)" using near small top u by linarith
  show ?thesis
  proof (cases "?B powi ?e \<le> x")
    case True
    then have "mag b x = ?e" using xhi by (intro mag_unique [OF b])
    moreover have "0 < ?B powi ?e" using b by simp
    then have "0 < x" using True by linarith
    ultimately show ?thesis using n near small
      by (intro round_sig_grid [OF b, where k = ?k and n = n]) simp_all
  next
    case False
    have "0 < ?B powi (?e - 1)" using b by simp
    have half: "2 * ?B powi (?e - 1) \<le> ?B powi ?e"
    proof -
      have "?B powi ?e = ?B * ?B powi (?e - 1)" using b by (simp add: power_int_diff)
      then show ?thesis using b1(2) \<open>0 < ?B powi (?e - 1)\<close> by (simp add: mult_right_mono)
    qed
    have kle: "?B powi ?k \<le> ?B powi ?e" using b1 p by (intro power_int_increasing) simp_all
    have xlo: "?B powi (?e - 1) \<le> x" using near small kle half dB(1) by linarith
    have mx: "mag b x = ?e - 1" using xlo False by (intro mag_unique [OF b]) simp_all
    have x0: "0 < x" using xlo \<open>0 < ?B powi (?e - 1)\<close> by linarith
    have deq: "d = ?B powi ?e"
    proof (rule ccontr)
      assume ne: "d \<noteq> ?B powi ?e"
      have e1: "?B powi ?e = of_int (int b ^ (p - 1)) * ?B powi ?k"
        using b p by (simp add: algebra_simps flip: power_int_of_nat power_int_add)
      then have "of_int (int b ^ (p - 1)) < (of_int n :: rat)"
        using dB(1) ne u n by (metis mult_less_cancel_right_pos order.not_eq_order_implies_strict)
      then have "int b ^ (p - 1) + 1 \<le> n" by (simp only: of_int_less_iff zless_imp_add1_zle)
      then have "of_int (int b ^ (p - 1) + 1) * ?B powi ?k \<le> of_int n * ?B powi ?k"
        using u by (intro mult_right_mono) (simp_all only: of_int_le_iff less_imp_le)
      then have "of_int (int b ^ (p - 1) + 1) * ?B powi ?k \<le> d" by (simp only: n [symmetric])
      then have "?B powi ?e + ?B powi ?k \<le> d" unfolding e1 by (simp add: algebra_simps)
      then show False using near small False u by linarith
    qed
    obtain m where m: "d = of_int m * ?B powi (?k - 1)"
      using sig_repr_gap [OF b d pos, of "?k - 1"] by auto
    have "?B powi ?e * ?B powi (- int p) = ?B powi (?k - 1)"
      using b by (simp flip: power_int_add)
    then have "\<bar>x - d\<bar> < ?B powi (?k - 1) / 2" using near by (simp add: deq [symmetric])
    then show ?thesis using x0 mx m
      by (intro round_sig_grid [OF b, where k = "?k - 1" and n = m]) simp_all
  qed
qed

section \<open>Decimal and double arithmetic\<close>

text \<open>
  The working precision of the disclosure computations (\<^verbatim>\<open>apr.PRECISION\<close>) and the
  double of a Python float or a DOUBLE PRECISION column.
\<close>

definition dec28 :: "rat \<Rightarrow> rat" where
  "dec28 x = round_sig 10 28 x"

definition fl :: "rat \<Rightarrow> rat" where
  "fl x = round_sig 2 53 x"

text \<open>\<^verbatim>\<open>x.quantize(Decimal("0.01"), rounding=ROUND_HALF_UP)\<close> and its integer-cents form.\<close>

definition cents_of :: "rat \<Rightarrow> int" where
  "cents_of x = round_half_up (100 * x)"

definition quantize_cents :: "rat \<Rightarrow> rat" where
  "quantize_cents x = of_int (cents_of x) / 100"

text \<open>
  The value of \<^verbatim>\<open>Decimal(str(x))\<close>: Python prints a double with the fewest digits that read
  back as the same double.
\<close>

definition py_repr :: "rat \<Rightarrow> rat" where
  "py_repr x = (case find (\<lambda>n. fl (round_sig 10 n x) = x) [1..<18] of
                  Some n \<Rightarrow> round_sig 10 n x
                | None \<Rightarrow> round_sig 10 17 x)"

text \<open>Python's \<^verbatim>\<open>round(x, 2)\<close> of a float.\<close>

definition py_round2 :: "rat \<Rightarrow> rat" where
  "py_round2 x = fl (of_int (round_half_even (x * 100)) / 100)"

lemma fl_0 [simp]: "fl 0 = 0" and dec28_0 [simp]: "dec28 0 = 0"
  by (simp_all add: fl_def dec28_def)

lemma fl_minus: "fl (- x) = - fl x"
  by (simp add: fl_def round_sig_minus)

lemma fl_mono: "x \<le> y \<Longrightarrow> fl x \<le> fl y"
  by (simp add: fl_def round_sig_mono)

lemma dec28_mono: "x \<le> y \<Longrightarrow> dec28 x \<le> dec28 y"
  by (simp add: dec28_def round_sig_mono)

lemma fl_idem [simp]: "fl (fl x) = fl x"
  unfolding fl_def by (intro round_sig_exact round_sig_repr) simp_all

lemma dec28_idem [simp]: "dec28 (dec28 x) = dec28 x"
  unfolding dec28_def by (intro round_sig_exact round_sig_repr) simp_all

lemma fl_exact_int: "\<bar>n\<bar> < 2 ^ 53 \<Longrightarrow> fl (of_int n) = of_int n"
  unfolding fl_def by (rule round_sig_exact)
    (use sig_repr_of_int_div [of 2 n 53 0] in simp_all)

lemma dec28_exact: "\<bar>n\<bar> < 10 ^ 28 \<Longrightarrow> dec28 (of_int n / 10 ^ j) = of_int n / 10 ^ j"
  unfolding dec28_def by (rule round_sig_exact)
    (use sig_repr_of_int_div [of 10 n 28 j] in simp_all)

lemma dec28_cents: "\<bar>n\<bar> < 10 ^ 28 \<Longrightarrow> dec28 (of_int n / 100) = of_int n / 100"
  using dec28_exact [of n 2] by simp

lemma dec28_nonneg: "0 \<le> x \<Longrightarrow> 0 \<le> dec28 x"
  using dec28_mono [of 0 x] by simp

lemma dec28_pos: "0 < x \<Longrightarrow> 0 < dec28 x"
  unfolding dec28_def by (rule round_sig_pos) simp_all

lemma cents_of_int [simp]: "cents_of (of_int n / 100) = n"
  by (simp add: cents_of_def)

lemma quantize_cents_exact [simp]: "quantize_cents (of_int n / 100) = of_int n / 100"
  by (simp add: quantize_cents_def)

lemma quantize_cents_near: "\<bar>quantize_cents x - x\<bar> \<le> 1 / 200"
proof -
  have "quantize_cents x - x = (of_int (round_half_up (100 * x)) - 100 * x) / 100"
    by (simp add: quantize_cents_def cents_of_def field_simps)
  then have "\<bar>quantize_cents x - x\<bar> = \<bar>of_int (round_half_up (100 * x)) - 100 * x\<bar> / 100"
    by (simp only: abs_divide abs_numeral)
  also have "\<dots> \<le> (1 / 2) / 100"
    using round_half_up_near [of "100 * x"] by (intro divide_right_mono) simp_all
  finally show ?thesis by simp
qed

lemma cents_of_mono: "x \<le> y \<Longrightarrow> cents_of x \<le> cents_of y"
  by (simp add: cents_of_def round_half_up_mono)

lemma fl_near: "\<bar>fl x - x\<bar> \<le> \<bar>x\<bar> / 2 ^ 53"
proof -
  have "(2::rat) powi (1 - 53) / 2 = 1 / 2 ^ 53" by (simp add: power_int_minus)
  then show ?thesis using round_sig_rel_err [of 2 53 x] by (simp add: fl_def field_simps)
qed

text \<open>A decimal of at most 15 significant digits survives the trip through a double.\<close>

lemma fl_round_trip_15:
  assumes d: "sig_repr 10 15 d"
  shows "round_sig 10 15 (fl d) = d"
proof -
  have c: "inverse (2 ^ 53) < (of_nat 10 :: rat) powi (- int 15) / 2"
    by (simp add: power_int_def power_one_over)
  have pos: "round_sig 10 15 (fl d) = d" if d: "sig_repr 10 15 d" and p: "0 < d" for d
  proof (rule round_sig_near [OF _ _ d p])
    have "\<bar>fl d - d\<bar> \<le> d / 2 ^ 53" using fl_near [of d] p by simp
    also have "\<dots> < d * (of_nat 10 powi (- int 15) / 2)"
      unfolding divide_inverse [of d] using p c by (intro mult_strict_left_mono)
    finally show "\<bar>fl d - d\<bar> < d * of_nat 10 powi (- int 15) / 2" by simp
  qed simp_all
  consider "0 < d" | "d = 0" | "0 < - d" by linarith
  then show ?thesis
  proof cases
    case 3
    obtain m k where "d = of_int m * of_nat 10 powi k" "\<bar>m\<bar> < int 10 ^ 15"
      using d by (auto simp: sig_repr_def)
    then have "sig_repr 10 15 (- d)"
      unfolding sig_repr_def by (intro exI [of _ "- m"] exI [of _ k]) simp
    then have "round_sig 10 15 (fl (- d)) = - d" using 3 by (rule pos)
    then show ?thesis by (simp add: fl_minus round_sig_minus)
  qed (use pos d in simp_all)
qed

lemma py_repr_round_trip:
  assumes d: "sig_repr 10 15 d"
  shows "py_repr (fl d) = d"
proof -
  let ?P = "\<lambda>n. fl (round_sig 10 n (fl d)) = fl d"
  have ex: "?P 15" using fl_round_trip_15 [OF d] by simp
  have "\<exists>n. find ?P [1..<18] = Some n \<and> n \<le> 15 \<and> 1 \<le> n \<and> ?P n"
  proof -
    have "find ?P ([1..<15] @ [15..<18]) \<noteq> None"
      using ex by (subst find_None_iff) fastforce
    moreover have "[1..<15] @ [15..<18] = [1..<18::nat]" by (simp add: upt_rec)
    ultimately obtain n where n: "find ?P [1..<18] = Some n" by auto
    then obtain i where i: "i < length [1..<18]" "n = [1..<18] ! i" "?P n"
      "\<forall>j<i. \<not> ?P ([1..<18] ! j)" by (auto simp: find_Some_iff)
    have "i \<le> 14"
    proof (rule ccontr)
      assume "\<not> i \<le> 14"
      then have "\<not> ?P ([1..<18] ! 14)" using i(4) by (meson linorder_not_le)
      moreover have "[1..<18] ! 14 = (15::nat)" by (subst nth_upt) simp_all
      ultimately show False using ex by (simp only: not_True_eq_False)
    qed
    moreover have "n = 1 + i" using i(1,2) by (simp only: length_upt nth_upt)
    ultimately show ?thesis using n i(3) by (intro exI [of _ n] conjI) simp_all
  qed
  then obtain n where n: "find ?P [1..<18] = Some n" "n \<le> 15" "1 \<le> n" "?P n" by blast
  let ?d = "round_sig 10 n (fl d)"
  have "sig_repr 10 15 ?d"
    using n(2,3) round_sig_repr [of 10 n "fl d"] sig_repr_mono [of n 15 10] by simp
  then have "?d = round_sig 10 15 (fl ?d)" by (simp add: fl_round_trip_15)
  also have "\<dots> = d" using n(4) fl_round_trip_15 [OF d] by simp
  finally show ?thesis using n(1) by (simp add: py_repr_def)
qed

end
