(* ===== verification/Balance.thy ===== *)
theory Balance
  imports Rounding
begin

text \<open>
  Balances and payment application: \<^verbatim>\<open>servicing-service/app/balance.py\<close> and
  \<^verbatim>\<open>delinquency.py\<close>, over the tables they share with the two charge paths. Each SQL
  statement is one atomic function of the tables; money columns of type DOUBLE PRECISION hold
  doubles, rounded by \<open>fl\<close>, and \<^verbatim>\<open>amount_minor\<close> is an integer number of cents.
\<close>

section \<open>The shared tables\<close>

record payment_row =
  p_id :: int
  p_loan_id :: "int option"
  p_pan :: "string option"
  p_amount :: rat
  p_amount_minor :: "int option"
  p_method :: "string option"
  p_status :: string
  p_key :: "string option"
  p_expires_at :: "int option"
  p_fingerprint :: "string option"

record balance_row =
  balance :: rat
  past_due :: "rat option"

record application_row =
  a_loan_id :: int
  a_payment_id :: int
  a_amount_minor :: int

text \<open>
  \<open>next_id\<close> is the payments sequence, \<open>clock\<close> the statement's \<^verbatim>\<open>now()\<close> in seconds, and
  \<open>loan_ids\<close> the ids the foreign key of \<^verbatim>\<open>payments.loan_id\<close> accepts.
\<close>

record lss_db =
  loan_ids :: "int list"
  payments :: "payment_row list"
  balances :: "int \<rightharpoonup> balance_row"
  applied :: "application_row list"
  next_id :: int
  clock :: int

definition payment_by_id :: "lss_db \<Rightarrow> int \<Rightarrow> payment_row option" where
  "payment_by_id db pid = find (\<lambda>p. p_id p = pid) (payments db)"

definition application_of :: "lss_db \<Rightarrow> int \<Rightarrow> application_row option" where
  "application_of db pid = find (\<lambda>a. a_payment_id a = pid) (applied db)"

section \<open>balance.py\<close>

definition get_balance :: "int \<Rightarrow> lss_db \<Rightarrow> rat" where
  "get_balance loan_id db = (case balances db loan_id of Some b \<Rightarrow> balance b | None \<Rightarrow> 0)"

definition get_past_due :: "int \<Rightarrow> lss_db \<Rightarrow> rat option" where
  "get_past_due loan_id db = (case balances db loan_id of Some b \<Rightarrow> past_due b | None \<Rightarrow> Some 0)"

definition crediting_statuses :: "string list" where
  "crediting_statuses = [''captured'', ''settled'']"

text \<open>
  The CTE \<^verbatim>\<open>eligible\<close> of \<^verbatim>\<open>_APPLY_SQL\<close>: the amount of the payments row, when the row is
  this loan's, has an amount, was captured, and the loan has a balances row.
\<close>

definition eligible_amount :: "int \<Rightarrow> int \<Rightarrow> lss_db \<Rightarrow> int option" where
  "eligible_amount loan_id pid db =
     (case payment_by_id db pid of
        None \<Rightarrow> None
      | Some p \<Rightarrow>
          if p_loan_id p = Some loan_id \<and> p_status p \<in> set crediting_statuses \<and>
             balances db loan_id \<noteq> None
          then p_amount_minor p else None)"

definition credit :: "int \<Rightarrow> rat \<Rightarrow> rat" where
  "credit amount_minor bal = fl (bal - fl (of_int amount_minor / 100))"

text \<open>
  \<^verbatim>\<open>_APPLY_SQL\<close>: the application row and the balance movement in one statement, nothing when
  the payment already has an application row. The result is the row it returns.
\<close>

definition apply_sql :: "int \<Rightarrow> int \<Rightarrow> lss_db \<Rightarrow> rat option \<times> lss_db" where
  "apply_sql loan_id pid db =
     (case (eligible_amount loan_id pid db, application_of db pid, balances db loan_id) of
        (Some amt, None, Some b) \<Rightarrow>
          (let b' = b\<lparr>balance := credit amt (balance b)\<rparr>
           in (Some (balance b'),
               db\<lparr>balances := (balances db)(loan_id \<mapsto> b'),
                  applied := applied db @
                    [\<lparr>a_loan_id = loan_id, a_payment_id = pid, a_amount_minor = amt\<rparr>]\<rparr>))
      | _ \<Rightarrow> (None, db))"

datatype refusal = Not_applicable | Applied_to_another_loan

definition apply_payment ::
  "int \<Rightarrow> int \<Rightarrow> lss_db \<Rightarrow> (refusal + (rat \<times> bool)) \<times> lss_db" where
  "apply_payment loan_id pid db =
     (case apply_sql loan_id pid db of
        (Some new_balance, db') \<Rightarrow> (Inr (new_balance, True), db')
      | (None, db') \<Rightarrow>
          (case application_of db' pid of
             None \<Rightarrow> (Inl Not_applicable, db')
           | Some prior \<Rightarrow>
               if a_loan_id prior \<noteq> loan_id then (Inl Applied_to_another_loan, db')
               else (Inr (get_balance loan_id db', False), db')))"

text \<open>\<open>Inl\<close> carries the current balance of the \<^verbatim>\<open>BalanceChanged\<close> refusal.\<close>

definition adjust_balance :: "int \<Rightarrow> rat \<Rightarrow> rat \<Rightarrow> lss_db \<Rightarrow> (rat + rat) \<times> lss_db" where
  "adjust_balance loan_id new_value expected_balance db =
     (case balances db loan_id of
        Some b \<Rightarrow>
          if balance b = expected_balance
          then (Inr new_value,
                db\<lparr>balances := (balances db)(loan_id \<mapsto> b\<lparr>balance := new_value\<rparr>)\<rparr>)
          else (Inl (get_balance loan_id db), db)
      | None \<Rightarrow> (Inl (get_balance loan_id db), db))"

definition waive_fee :: "int \<Rightarrow> rat \<Rightarrow> lss_db \<Rightarrow> rat option \<times> lss_db" where
  "waive_fee loan_id amount db =
     (case balances db loan_id of
        Some b \<Rightarrow>
          (let pd = map_option (\<lambda>x. fl (x - amount)) (past_due b)
           in (pd, db\<lparr>balances := (balances db)(loan_id \<mapsto> b\<lparr>past_due := pd\<rparr>)\<rparr>))
      | None \<Rightarrow> (Some (- amount), db))"

section \<open>delinquency.py\<close>

definition late_fee_flat :: rat where
  "late_fee_flat = 35"

text \<open>
  \<^verbatim>\<open>assess_late_fee\<close> is two statements. \<open>others\<close> is what other sessions commit between its
  read and its write (the identity when none does). \<open>None\<close> is the TypeError of a NULL
  \<^verbatim>\<open>past_due\<close>.
\<close>

definition assess_late_fee :: "(lss_db \<Rightarrow> lss_db) \<Rightarrow> int \<Rightarrow> lss_db \<Rightarrow> rat option \<times> lss_db" where
  "assess_late_fee others loan_id db =
     (case get_past_due loan_id db of
        None \<Rightarrow> (None, others db)
      | Some pd \<Rightarrow>
          (let new_past_due = fl (pd + late_fee_flat); db1 = others db
           in (Some new_past_due,
               case balances db1 loan_id of
                 None \<Rightarrow> db1
               | Some b \<Rightarrow> db1\<lparr>balances :=
                   (balances db1)(loan_id \<mapsto> b\<lparr>past_due := Some new_past_due\<rparr>)\<rparr>)))"

section \<open>Well-formedness\<close>

text \<open>
  Primary keys and the UNIQUE constraint of \<^verbatim>\<open>payment_applications.payment_id\<close>, the foreign
  key of that table, and the agreement of an application with the payment it names.
\<close>

definition application_ok :: "lss_db \<Rightarrow> application_row \<Rightarrow> bool" where
  "application_ok db a \<longleftrightarrow>
     (\<exists>p. payment_by_id db (a_payment_id a) = Some p \<and> p_loan_id p = Some (a_loan_id a) \<and>
          p_amount_minor p = Some (a_amount_minor a))"

definition ledger_ok :: "lss_db \<Rightarrow> bool" where
  "ledger_ok db \<longleftrightarrow>
     distinct (map a_payment_id (applied db)) \<and> (\<forall>a \<in> set (applied db). application_ok db a)"

lemma application_of_None_iff:
  "application_of db pid = None \<longleftrightarrow> pid \<notin> a_payment_id ` set (applied db)"
  by (auto simp: application_of_def find_None_iff)

lemma application_of_SomeD:
  "application_of db pid = Some a \<Longrightarrow> a \<in> set (applied db) \<and> a_payment_id a = pid"
  by (auto simp: application_of_def find_Some_iff)

lemma eligible_amountD:
  assumes "eligible_amount loan_id pid db = Some amt"
  obtains p b where "payment_by_id db pid = Some p" "p_loan_id p = Some loan_id"
    "p_amount_minor p = Some amt" "p_status p \<in> set crediting_statuses"
    "balances db loan_id = Some b"
  using assms by (auto simp: eligible_amount_def split: option.splits if_splits)

text \<open>The two outcomes of the statement.\<close>

lemma apply_sql_cases:
  obtains (moved) amt b where
    "eligible_amount loan_id pid db = Some amt" "application_of db pid = None"
    "balances db loan_id = Some b"
    "apply_sql loan_id pid db =
       (Some (credit amt (balance b)),
        db\<lparr>balances := (balances db)(loan_id \<mapsto> b\<lparr>balance := credit amt (balance b)\<rparr>),
           applied := applied db @
             [\<lparr>a_loan_id = loan_id, a_payment_id = pid, a_amount_minor = amt\<rparr>]\<rparr>)"
  | (idle) "apply_sql loan_id pid db = (None, db)"
    "eligible_amount loan_id pid db = None \<or> application_of db pid \<noteq> None"
proof (cases "eligible_amount loan_id pid db")
  case None
  then show ?thesis by (intro idle) (simp_all add: apply_sql_def)
next
  case (Some amt)
  then obtain b where b: "balances db loan_id = Some b" by (rule eligible_amountD)
  show ?thesis
  proof (cases "application_of db pid")
    case None
    then show ?thesis using Some b by (intro moved) (simp_all add: apply_sql_def Let_def)
  next
    case (Some a)
    then show ?thesis
      using \<open>eligible_amount loan_id pid db = Some amt\<close> b
      by (intro idle) (simp_all add: apply_sql_def)
  qed
qed

lemma apply_payment_db: "snd (apply_payment loan_id pid db) = snd (apply_sql loan_id pid db)"
  by (auto simp: apply_payment_def split: prod.splits option.splits)

lemma apply_sql_frame:
  assumes "apply_sql l i db = (r, db')"
  shows "payments db' = payments db" "loan_ids db' = loan_ids db" "next_id db' = next_id db"
    "clock db' = clock db" "dom (balances db') = dom (balances db)"
proof -
  have "payments db' = payments db \<and> loan_ids db' = loan_ids db \<and> next_id db' = next_id db \<and>
    clock db' = clock db \<and> dom (balances db') = dom (balances db)"
  proof (cases rule: apply_sql_cases [of l i db])
    case (moved amt b)
    then have "db' = snd (apply_sql l i db)" using assms by simp
    also have "\<dots> = db\<lparr>balances := (balances db)(l \<mapsto> b\<lparr>balance := credit amt (balance b)\<rparr>),
           applied := applied db @ [\<lparr>a_loan_id = l, a_payment_id = i, a_amount_minor = amt\<rparr>]\<rparr>"
      by (simp only: moved(4) snd_conv)
    finally show ?thesis using moved(3) by (simp add: insert_absorb domI)
  next
    case idle
    then show ?thesis using assms by simp
  qed
  then show "payments db' = payments db" "loan_ids db' = loan_ids db" "next_id db' = next_id db"
    "clock db' = clock db" "dom (balances db') = dom (balances db)" by blast+
qed

lemma payment_by_id_cong: "payments db' = payments db \<Longrightarrow> payment_by_id db' = payment_by_id db"
  by (intro ext) (simp add: payment_by_id_def)

lemma application_ok_cong: "payments db' = payments db \<Longrightarrow> application_ok db' = application_ok db"
  by (intro ext, unfold application_ok_def, drule payment_by_id_cong) simp

lemma apply_sql_ledger_ok:
  assumes ok: "ledger_ok db" and r: "apply_sql l i db = (r, db')"
  shows "ledger_ok db'"
proof (cases rule: apply_sql_cases [of l i db])
  case (moved amt b)
  let ?a = "\<lparr>a_loan_id = l, a_payment_id = i, a_amount_minor = amt\<rparr>"
  have pay: "payments db' = payments db" using r by (rule apply_sql_frame)
  have "applied db' = applied (snd (apply_sql l i db))" using r by simp
  also have "\<dots> = applied db @ [?a]" by (simp only: moved(4) snd_conv) simp
  finally have app: "applied db' = applied db @ [?a]" .
  have fresh: "i \<notin> a_payment_id ` set (applied db)" using moved(2) by (simp add: application_of_None_iff)
  have new: "application_ok db ?a"
    using moved(1) by (rule eligible_amountD) (simp add: application_ok_def)
  show ?thesis
    unfolding ledger_ok_def app application_ok_cong [OF pay]
    using ok fresh new by (simp add: ledger_ok_def)
next
  case idle
  then show ?thesis using ok r by simp
qed

section \<open>Runs of applies\<close>

text \<open>
  What a loan's balance should be: the opening figure with the loan's applications credited in
  the order they were recorded.
\<close>

definition credited :: "application_row list \<Rightarrow> int \<Rightarrow> rat \<Rightarrow> rat" where
  "credited news loan_id bal =
     foldl (\<lambda>x a. credit (a_amount_minor a) x) bal (filter (\<lambda>a. a_loan_id a = loan_id) news)"

definition explained :: "lss_db \<Rightarrow> lss_db \<Rightarrow> bool" where
  "explained db0 db \<longleftrightarrow>
     (\<exists>news. applied db = applied db0 @ news \<and>
        (\<forall>l. balances db l =
           map_option (\<lambda>b. b\<lparr>balance := credited news l (balance b)\<rparr>) (balances db0 l)))"

definition apply_all :: "(int \<times> int) list \<Rightarrow> lss_db \<Rightarrow> lss_db" where
  "apply_all ops db = foldl (\<lambda>d (l, i). snd (apply_payment l i d)) db ops"

lemma credited_Nil [simp]: "credited [] l x = x"
  by (simp add: credited_def)

lemma credited_snoc:
  "credited (news @ [a]) l x =
     (if a_loan_id a = l then credit (a_amount_minor a) (credited news l x) else credited news l x)"
  by (simp add: credited_def)

lemma explained_refl: "explained db db"
  by (auto simp: explained_def option.map_ident intro!: exI [of _ "[]"])

lemma explained_apply:
  assumes "explained db0 db"
  shows "explained db0 (snd (apply_payment l i db))"
proof (cases rule: apply_sql_cases [of l i db])
  case (moved amt b)
  let ?a = "\<lparr>a_loan_id = l, a_payment_id = i, a_amount_minor = amt\<rparr>"
  obtain news where n: "applied db = applied db0 @ news"
    "\<And>l. balances db l =
        map_option (\<lambda>b. b\<lparr>balance := credited news l (balance b)\<rparr>) (balances db0 l)"
    using assms unfolding explained_def by blast
  have app: "applied (snd (apply_payment l i db)) = applied db0 @ (news @ [?a])"
    unfolding apply_payment_db moved(4) by (simp add: n(1))
  have bal: "balances (snd (apply_payment l i db)) =
      (balances db)(l \<mapsto> b\<lparr>balance := credit amt (balance b)\<rparr>)"
    unfolding apply_payment_db moved(4) by simp
  obtain b0 where b0: "balances db0 l = Some b0" "b = b0\<lparr>balance := credited news l (balance b0)\<rparr>"
    using moved(3) n(2) [of l] by auto
  have "balances (snd (apply_payment l i db)) k =
      map_option (\<lambda>b. b\<lparr>balance := credited (news @ [?a]) k (balance b)\<rparr>) (balances db0 k)" for k
    unfolding bal using b0 n(2) [of k] by (cases "k = l") (auto simp: credited_snoc)
  then show ?thesis unfolding explained_def using app by blast
next
  case idle
  then show ?thesis using assms by (simp add: apply_payment_db)
qed


lemma explained_apply_all: "explained db0 db \<Longrightarrow> explained db0 (apply_all ops db)"
  unfolding apply_all_def by (rule foldl_invariant) (auto intro: explained_apply)

lemma ledger_ok_apply: "ledger_ok db \<Longrightarrow> ledger_ok (snd (apply_payment l i db))"
  unfolding apply_payment_db using apply_sql_ledger_ok by (metis prod.collapse)

lemma ledger_ok_apply_all: "ledger_ok db \<Longrightarrow> ledger_ok (apply_all ops db)"
  unfolding apply_all_def by (rule foldl_invariant) (auto intro: ledger_ok_apply)

lemma ledger_ok_cong:
  assumes "payments db' = payments db" "applied db' = applied db"
  shows "ledger_ok db' = ledger_ok db"
  unfolding ledger_ok_def application_ok_cong [OF assms(1)] assms(2) ..

lemma adjust_frame:
  "payments (snd (adjust_balance l v e db)) = payments db \<and>
   applied (snd (adjust_balance l v e db)) = applied db"
  by (simp add: adjust_balance_def split: option.split)

lemma waive_frame:
  "payments (snd (waive_fee l x db)) = payments db \<and>
   applied (snd (waive_fee l x db)) = applied db"
  by (simp add: waive_fee_def Let_def split: option.split)

section \<open>Properties\<close>

text \<open>What \<^verbatim>\<open>apply_payment\<close> returns and writes, on every branch: a captured payment of this
  loan with no application row moves the balance by its own recorded amount and writes exactly
  one row; a repeated call returns the current balance and writes nothing; a payment applied to
  another loan and an ineligible one are refused and write nothing.\<close>

theorem apply_payment_branches:
  "apply_payment loan_id pid db =
     (case (application_of db pid, eligible_amount loan_id pid db) of
        (None, None) \<Rightarrow> (Inl Not_applicable, db)
      | (None, Some amt) \<Rightarrow>
          (let new = credit amt (get_balance loan_id db)
           in (Inr (new, True),
               db\<lparr>balances := (balances db)(loan_id \<mapsto> (the (balances db loan_id))\<lparr>balance := new\<rparr>),
                  applied := applied db @ [\<lparr>a_loan_id = loan_id, a_payment_id = pid,
                    a_amount_minor = amt\<rparr>]\<rparr>))
      | (Some prior, _) \<Rightarrow>
          if a_loan_id prior \<noteq> loan_id then (Inl Applied_to_another_loan, db)
          else (Inr (get_balance loan_id db, False), db))"
proof (cases rule: apply_sql_cases [of loan_id pid db])
  case (moved amt b)
  then show ?thesis by (simp add: apply_payment_def get_balance_def Let_def)
next
  case idle
  then show ?thesis
    by (cases "application_of db pid") (simp_all add: apply_payment_def split: option.split)
qed

text \<open>A retry is safe: after a call that succeeded, the same call succeeds again, reports the
  same balance, and changes nothing.\<close>

theorem apply_payment_retry:
  assumes "apply_payment loan_id pid db = (Inr (bal, moved), db')"
  shows "apply_payment loan_id pid db' = (Inr (bal, False), db')"
proof (cases rule: apply_sql_cases [of loan_id pid db])
  case (moved amt b)
  let ?a = "\<lparr>a_loan_id = loan_id, a_payment_id = pid, a_amount_minor = amt\<rparr>"
  have "db' = snd (apply_payment loan_id pid db)" "bal = fst (projr (fst (apply_payment loan_id pid db)))"
    using assms by simp_all
  then have db': "applied db' = applied db @ [?a]" "get_balance loan_id db' = bal"
    unfolding apply_payment_def moved(4) by (simp_all add: get_balance_def)
  have "application_of db' pid = Some ?a"
    using moved(2) db'(1) by (simp add: application_of_def find_append)
  then show ?thesis
    using db'(2) by (cases rule: apply_sql_cases [of loan_id pid db']) (simp_all add: apply_payment_def)
next
  case idle
  then show ?thesis
    using assms by (auto simp: apply_payment_def split: option.splits if_splits)
qed

text \<open>C2. Refinement to a ledger: after any sequence of apply calls, in any order and with any
  repetitions, refusals included, each payment has at most one application, that application
  carries the payment's own loan and amount, and every loan's balance is its opening balance
  with exactly its new applications credited.\<close>

theorem applies_refine_ledger:
  assumes "ledger_ok db"
  shows "ledger_ok (apply_all ops db) \<and> explained db (apply_all ops db)"
  using assms by (simp add: ledger_ok_apply_all explained_apply_all explained_refl)

text \<open>\<^verbatim>\<open>adjust_balance\<close> is a compare-and-set: it writes exactly when the loan has a balances
  row whose stored figure is the quoted one, and otherwise leaves the tables alone and reports
  the current balance.\<close>

theorem adjust_balance_compare_and_set:
  "adjust_balance loan_id v quoted db =
     (if balances db loan_id \<noteq> None \<and> get_balance loan_id db = quoted
      then (Inr v, db\<lparr>balances :=
              (balances db)(loan_id \<mapsto> (the (balances db loan_id))\<lparr>balance := v\<rparr>)\<rparr>)
      else (Inl (get_balance loan_id db), db))"
  by (simp add: adjust_balance_def get_balance_def split: option.split)

text \<open>The late fee is a read-then-write: whatever other sessions commit to this loan's
  \<^verbatim>\<open>past_due\<close> between its two statements, the stored figure afterwards is the earlier reading plus
  35 dollars, so a waiver of any amount committed in that window is lost.\<close>

theorem late_fee_loses_update:
  assumes "balances db loan_id = Some b" "past_due b = Some pd"
  shows "get_past_due loan_id
           (snd (assess_late_fee (\<lambda>d. snd (waive_fee loan_id amount d)) loan_id db)) =
         Some (fl (pd + 35))"
  using assms
  by (simp add: assess_late_fee_def waive_fee_def get_past_due_def late_fee_flat_def Let_def)

definition sample_db :: lss_db where
  "sample_db = \<lparr>loan_ids = [1, 2],
     payments = [\<lparr>p_id = 7, p_loan_id = Some 1, p_pan = None, p_amount = 100,
       p_amount_minor = Some 10000, p_method = Some ''card'', p_status = ''captured'',
       p_key = None, p_expires_at = None, p_fingerprint = None\<rparr>],
     balances = [1 \<mapsto> \<lparr>balance = 1000, past_due = Some 10\<rparr>],
     applied = [], next_id = 8, clock = 0\<rparr>"

lemma sample_first_apply: "fst (apply_payment 1 7 sample_db) = Inr (900, True)"
  by code_simp

theorem apply_payment_retry_witness:
  "apply_payment 1 7 (snd (apply_payment 1 7 sample_db)) =
     (Inr (900, False), snd (apply_payment 1 7 sample_db))"
  by (rule apply_payment_retry [of 1 7 sample_db 900 True])
    (simp add: sample_first_apply prod_eq_iff)

theorem applies_refine_ledger_witness:
  "ledger_ok (apply_all [(1, 7), (2, 7), (1, 7)] sample_db) \<and>
   explained sample_db (apply_all [(1, 7), (2, 7), (1, 7)] sample_db)"
  by (rule applies_refine_ledger) (simp add: ledger_ok_def sample_db_def)

theorem late_fee_loses_update_witness:
  "get_past_due 1 (snd (assess_late_fee (\<lambda>d. snd (waive_fee 1 10 d)) 1 sample_db)) =
     Some (fl (10 + 35)) \<and> fl (10 + 35) = 45"
  by (intro conjI, rule late_fee_loses_update) (simp add: sample_db_def, simp, code_simp)

end
