(* ===== verification/Authz.thy ===== *)
theory Authz
  imports Prelude
begin

text \<open>
  Authorization of the money and read routes:
  \<^verbatim>\<open>servicing-service/app/authz.py\<close> and its copy
  \<^verbatim>\<open>payment-service/app/authz.py\<close> (ADR 0014 Decision 1), and the guard of the
  service-to-service routes. The gateway supplies the headers; the three tables the gates read
  are a record of partial maps. Log lines are left out.
\<close>

section \<open>The tables read\<close>

text \<open>
  \<^verbatim>\<open>loans.id -> app_id\<close>, \<^verbatim>\<open>applications.id -> applicant_id\<close> and
  \<^verbatim>\<open>users.id -> applicant_id\<close>; every foreign key is nullable.
\<close>

record identity_db =
  loan_app :: "int \<rightharpoonup> int option"
  app_applicant :: "int \<rightharpoonup> int option"
  user_applicant :: "int \<rightharpoonup> int option"

section \<open>servicing-service\<close>

definition money_roles :: "string set" where
  "money_roles = {''csr'', ''admin''}"

definition staff_roles :: "string set" where
  "staff_roles = {''csr'', ''underwriter'', ''admin''}"

definition normalized :: "string option \<Rightarrow> string" where
  "normalized x_user_role = lower (strip (case x_user_role of None \<Rightarrow> '''' | Some r \<Rightarrow> r))"

definition is_money_role :: "string option \<Rightarrow> bool" where
  "is_money_role x_user_role \<longleftrightarrow> normalized x_user_role \<in> money_roles"

definition is_staff :: "string option \<Rightarrow> bool" where
  "is_staff x_user_role \<longleftrightarrow> normalized x_user_role \<in> staff_roles"

definition as_int :: "string option \<Rightarrow> int option" where
  "as_int v = (case v of None \<Rightarrow> None | Some s \<Rightarrow> py_int s)"

definition require_money_role :: "string option \<Rightarrow> unit response" where
  "require_money_role x_user_role =
     (if \<not> is_money_role x_user_role
      then raise_http 403 ''servicing money role required'' else Inr ())"

definition require_internal_caller :: "string \<Rightarrow> string option \<Rightarrow> unit response" where
  "require_internal_caller expected x_internal_service =
     (if expected = '''' then raise_http 503 ''internal auth not configured''
      else case x_internal_service of
        None \<Rightarrow> raise_http 403 ''internal service identity required''
      | Some s \<Rightarrow> if s = '''' \<or> s \<noteq> expected
                 then raise_http 403 ''internal service identity required'' else Inr ())"

text \<open>The first row of the join \<^verbatim>\<open>loans l JOIN applications app ON app.id = l.app_id\<close>.\<close>

definition loan_applicant :: "identity_db \<Rightarrow> int \<Rightarrow> int option" where
  "loan_applicant d loan_id =
     (case loan_app d loan_id of
        None \<Rightarrow> None
      | Some None \<Rightarrow> None
      | Some (Some a) \<Rightarrow> (case app_applicant d a of None \<Rightarrow> None | Some ap \<Rightarrow> ap))"

definition owns_loan :: "identity_db \<Rightarrow> int \<Rightarrow> int \<Rightarrow> bool" where
  "owns_loan d loan_id user_id =
     (case loan_applicant d loan_id of
        None \<Rightarrow> False
      | Some loan_applicant_id \<Rightarrow>
          (case user_applicant d user_id of
             None \<Rightarrow> False
           | Some None \<Rightarrow> False
           | Some (Some caller_applicant_id) \<Rightarrow> caller_applicant_id = loan_applicant_id))"

definition require_staff_or_owner ::
  "identity_db \<Rightarrow> int \<Rightarrow> string option \<Rightarrow> string option \<Rightarrow> unit response" where
  "require_staff_or_owner d loan_id x_user_role x_user_id =
     (if is_staff x_user_role then Inr ()
      else case as_int x_user_id of
        None \<Rightarrow> raise_http 404 ''loan not found''
      | Some user_id \<Rightarrow>
          if \<not> owns_loan d loan_id user_id then raise_http 404 ''loan not found'' else Inr ())"

definition require_money_role_or_owner ::
  "identity_db \<Rightarrow> int \<Rightarrow> string option \<Rightarrow> string option \<Rightarrow> unit response" where
  "require_money_role_or_owner d loan_id x_user_role x_user_id =
     (if is_money_role x_user_role then Inr ()
      else case as_int x_user_id of
        None \<Rightarrow> raise_http 404 ''loan not found''
      | Some user_id \<Rightarrow>
          if \<not> owns_loan d loan_id user_id then raise_http 404 ''loan not found'' else Inr ())"

definition require_staff :: "string option \<Rightarrow> unit response" where
  "require_staff x_user_role =
     (if \<not> is_staff x_user_role
      then raise_http 403 ''servicing staff role required'' else Inr ())"

section \<open>payment-service\<close>

definition pay_money_roles :: "string set" where
  "pay_money_roles = {''csr'', ''admin''}"

definition pay_normalized :: "string option \<Rightarrow> string" where
  "pay_normalized x_user_role = lower (strip (case x_user_role of None \<Rightarrow> '''' | Some r \<Rightarrow> r))"

definition pay_is_money_role :: "string option \<Rightarrow> bool" where
  "pay_is_money_role x_user_role \<longleftrightarrow> pay_normalized x_user_role \<in> pay_money_roles"

definition pay_as_int :: "string option \<Rightarrow> int option" where
  "pay_as_int v = (case v of None \<Rightarrow> None | Some s \<Rightarrow> py_int s)"

definition pay_owns_loan :: "identity_db \<Rightarrow> int \<Rightarrow> int \<Rightarrow> bool" where
  "pay_owns_loan d loan_id user_id =
     (case loan_applicant d loan_id of
        None \<Rightarrow> False
      | Some loan_applicant_id \<Rightarrow>
          (case user_applicant d user_id of
             None \<Rightarrow> False
           | Some None \<Rightarrow> False
           | Some (Some caller_applicant_id) \<Rightarrow> caller_applicant_id = loan_applicant_id))"

definition pay_require_money_role_or_owner ::
  "identity_db \<Rightarrow> int \<Rightarrow> string option \<Rightarrow> string option \<Rightarrow> unit response" where
  "pay_require_money_role_or_owner d loan_id x_user_role x_user_id =
     (if pay_is_money_role x_user_role then Inr ()
      else case pay_as_int x_user_id of
        None \<Rightarrow> raise_http 404 ''loan not found''
      | Some user_id \<Rightarrow>
          if \<not> pay_owns_loan d loan_id user_id
          then raise_http 404 ''loan not found'' else Inr ())"

lemmas role_defs = is_money_role_def is_staff_def money_roles_def staff_roles_def
lemmas pay_defs = pay_is_money_role_def pay_money_roles_def pay_normalized_def pay_as_int_def
  pay_owns_loan_def pay_require_money_role_or_owner_def

section \<open>The interface of a role-or-owner gate\<close>

text \<open>
  What the three loan-scoped gates promise their routes: a privileged role passes, the owner
  passes, and everyone else gets one and the same 404.
\<close>

locale owner_gate =
  fixes gate :: "identity_db \<Rightarrow> int \<Rightarrow> string option \<Rightarrow> string option \<Rightarrow> unit response"
    and privileged :: "string option \<Rightarrow> bool"
  assumes gate_privileged: "privileged r \<Longrightarrow> gate d l r u = Inr ()"
    and gate_owner:
      "\<not> privileged r \<Longrightarrow> as_int u = Some i \<Longrightarrow> owns_loan d l i \<Longrightarrow> gate d l r u = Inr ()"
    and gate_stranger:
      "\<not> privileged r \<Longrightarrow> (\<And>i. as_int u = Some i \<Longrightarrow> \<not> owns_loan d l i) \<Longrightarrow>
       gate d l r u = raise_http 404 ''loan not found''"
begin

lemma grants_iff:
  "gate d l r u = Inr () \<longleftrightarrow> privileged r \<or> (\<exists>i. as_int u = Some i \<and> owns_loan d l i)"
proof (cases "privileged r \<or> (\<exists>i. as_int u = Some i \<and> owns_loan d l i)")
  case True
  then show ?thesis using gate_privileged gate_owner by blast
next
  case False
  then show ?thesis using gate_stranger [of r u d l] by auto
qed

lemma denial_is_404:
  assumes "gate d l r u = Inl e"
  shows "e = HttpError 404 ''loan not found''"
proof -
  have "gate d l r u \<noteq> Inr ()" using assms by simp
  then have "\<not> privileged r" "\<And>i. as_int u = Some i \<Longrightarrow> \<not> owns_loan d l i"
    by (auto simp: grants_iff)
  then show ?thesis using assms gate_stranger [of r u d l] by (simp add: raise_http_def)
qed

text \<open>No existence oracle: two loans the caller does not own are answered alike.\<close>

lemma no_oracle:
  assumes "\<not> privileged r"
    and "\<And>i. as_int u = Some i \<Longrightarrow> \<not> owns_loan d l i"
    and "\<And>i. as_int u = Some i \<Longrightarrow> \<not> owns_loan d' l' i"
  shows "gate d l r u = gate d' l' r u"
  using gate_stranger [OF assms(1,2)] gate_stranger [OF assms(1,3)] by simp

lemma ownerless_denied:
  "\<not> privileged r \<Longrightarrow> loan_applicant d l = None \<Longrightarrow> gate d l r u = raise_http 404 ''loan not found''"
  by (rule gate_stranger) (simp_all add: owns_loan_def)

end

interpretation read_gate: owner_gate require_staff_or_owner is_staff
  by unfold_locales (auto simp: require_staff_or_owner_def split: option.splits)

interpretation charge_gate: owner_gate require_money_role_or_owner is_money_role
  by unfold_locales (auto simp: require_money_role_or_owner_def split: option.splits)

lemma owns_loan_iff:
  "owns_loan d l u \<longleftrightarrow>
     (\<exists>ap. loan_applicant d l = Some ap \<and> user_applicant d u = Some (Some ap))"
  by (auto simp: owns_loan_def split: option.splits)

lemma pay_role_eq: "pay_is_money_role = is_money_role"
  by (intro ext) (simp add: pay_defs role_defs normalized_def)

lemma pay_owns_eq: "pay_owns_loan = owns_loan"
  by (intro ext) (simp add: pay_owns_loan_def owns_loan_def)

lemma pay_gate_eq: "pay_require_money_role_or_owner = require_money_role_or_owner"
  by (intro ext, unfold pay_require_money_role_or_owner_def require_money_role_or_owner_def
      pay_role_eq pay_owns_eq pay_as_int_def as_int_def) (rule refl)

interpretation pay_gate: owner_gate pay_require_money_role_or_owner pay_is_money_role
  unfolding pay_gate_eq pay_role_eq by (rule charge_gate.owner_gate_axioms)

section \<open>The interface of the service-to-service guard\<close>

text \<open>Every service carries its own copy of the guard; this is what the routes rely on.\<close>

locale internal_gate =
  fixes guard :: "string \<Rightarrow> string option \<Rightarrow> unit response"
  assumes unconfigured: "guard '''' s = raise_http 503 ''internal auth not configured''"
    and match: "t \<noteq> '''' \<Longrightarrow> guard t (Some t) = Inr ()"
    and mismatch: "t \<noteq> '''' \<Longrightarrow> s \<noteq> Some t \<Longrightarrow>
          guard t s = raise_http 403 ''internal service identity required''"
begin

lemma passes_iff: "guard t s = Inr () \<longleftrightarrow> t \<noteq> '''' \<and> s = Some t"
proof (cases "t = ''''")
  case True
  then show ?thesis using unconfigured [of s] by simp
next
  case False
  then show ?thesis using match [of t] mismatch [of t s] by (cases "s = Some t") simp_all
qed

lemma no_header_refused: "guard t None \<noteq> Inr ()"
  by (simp add: passes_iff)

lemma refusal_status:
  assumes "guard t s = Inl e"
  shows "http_status e \<in> {403, 503}"
proof (cases "t = ''''")
  case True
  then show ?thesis using assms unconfigured [of s] by (auto simp: raise_http_def)
next
  case False
  then show ?thesis using assms match [of t] mismatch [of t s]
    by (cases "s = Some t") (auto simp: raise_http_def)
qed

end

interpretation servicing_guard: internal_gate require_internal_caller
  by unfold_locales (auto simp: require_internal_caller_def split: option.splits)

section \<open>Properties\<close>

text \<open>A charge on servicing's \<^verbatim>\<open>POST /payments\<close> is admitted exactly for a CSR or admin
  role (after trimming and lower-casing) or for the user whose applicant is the applicant of the
  loan's application.\<close>

theorem charge_admitted_iff:
  "require_money_role_or_owner d loan_id role uid = Inr () \<longleftrightarrow>
     normalized role \<in> {''csr'', ''admin''} \<or>
     (\<exists>u ap. as_int uid = Some u \<and> loan_applicant d loan_id = Some ap \<and>
             user_applicant d u = Some (Some ap))"
  unfolding charge_gate.grants_iff owns_loan_iff by (auto simp: role_defs)

text \<open>The gates of the read route and of both charge routes tell an unprivileged caller
  nothing about loans that are not theirs: a missing loan, an ownerless one and somebody else's
  get the identical answer, in any two databases.\<close>

theorem no_existence_oracle:
  assumes "\<not> is_staff role"
    and "\<And>i. as_int uid = Some i \<Longrightarrow> \<not> owns_loan d l i"
    and "\<And>i. as_int uid = Some i \<Longrightarrow> \<not> owns_loan d' l' i"
  shows "require_staff_or_owner d l role uid = require_staff_or_owner d' l' role uid \<and>
         require_money_role_or_owner d l role uid = require_money_role_or_owner d' l' role uid \<and>
         pay_require_money_role_or_owner d l role uid =
           pay_require_money_role_or_owner d' l' role uid"
proof -
  have m: "\<not> is_money_role role" "\<not> pay_is_money_role role"
    using assms(1) by (auto simp: role_defs pay_role_eq)
  show ?thesis
    using read_gate.no_oracle [OF assms] charge_gate.no_oracle [OF m(1) assms(2,3)]
      pay_gate.no_oracle [OF m(2) assms(2,3)] by simp
qed

definition sample_identity :: identity_db where
  "sample_identity = \<lparr>loan_app = [1 \<mapsto> Some 10], app_applicant = [10 \<mapsto> Some 100],
     user_applicant = [7 \<mapsto> Some 200]\<rparr>"

theorem no_existence_oracle_witness:
  "require_staff_or_owner sample_identity 1 (Some ''borrower'') (Some ''7'') =
   require_staff_or_owner sample_identity 2 (Some ''borrower'') (Some ''7'')"
proof -
  have "\<not> is_staff (Some ''borrower'')" by code_simp
  moreover have "as_int (Some ''7'') = Some 7" by code_simp
  moreover have "\<not> owns_loan sample_identity 1 7" "\<not> owns_loan sample_identity 2 7"
    by (simp_all add: owns_loan_iff loan_applicant_def sample_identity_def)
  ultimately show ?thesis
    by (intro no_existence_oracle [THEN conjunct1]) auto
qed

end
