(* ===== verification/Json.thy ===== *)
theory Json
  imports Prelude
begin

text \<open>
  The fragment of Python's \<^verbatim>\<open>json.dumps(v, separators=(",", ":"))\<close> the services hash or store:
  null, booleans, integers, ASCII strings, lists and objects, with its ASCII escapes. The
  printer is shown to be uniquely readable, which is what a digest of its output rests on.
\<close>

section \<open>Decimal integers\<close>

definition digit_char :: "nat \<Rightarrow> char" where
  "digit_char n = char_of (48 + n)"

fun show_nat :: "nat \<Rightarrow> string" where
  "show_nat n = (if n < 10 then [digit_char n] else show_nat (n div 10) @ [digit_char (n mod 10)])"

definition show_int :: "int \<Rightarrow> string" where
  "show_int i = (if i < 0 then CHR ''-'' # show_nat (nat (- i)) else show_nat (nat i))"


declare show_nat.simps [simp del]

lemma char_code_of [simp]: "n < 256 \<Longrightarrow> char_code (char_of n) = n"
  by (simp add: char_code_def)

lemma char_code_lt: "char_code c < 256"
  by (simp add: char_code_def)

lemma char_of_code [simp]: "char_of (char_code c) = c"
  by (simp add: char_code_def)

lemma digit_char [simp]:
  "n < 10 \<Longrightarrow> py_digit (digit_char n)" "n < 10 \<Longrightarrow> digit_val (digit_char n) = int n"
  by (simp_all add: digit_char_def py_digit_def digit_val_def)

lemma show_nat_digits: "list_all py_digit (show_nat n)"
  by (induction n rule: show_nat.induct) (subst show_nat.simps, simp)

lemma show_nat_nonempty: "show_nat n \<noteq> []"
  by (subst show_nat.simps) simp

lemma digits_val_snoc: "digits_val (s @ [c]) = 10 * digits_val s + digit_val c"
  by (simp add: digits_val_def)

lemma digits_val_show_nat [simp]: "digits_val (show_nat n) = int n"
proof (induction n rule: show_nat.induct)
  case (1 n)
  show ?case
  proof (cases "n < 10")
    case True
    then show ?thesis by (subst show_nat.simps) (simp add: digits_val_def)
  next
    case False
    have "digits_val (show_nat n) = 10 * int (n div 10) + int (n mod 10)"
      using False 1 by (subst show_nat.simps) (simp add: digits_val_snoc)
    also have "\<dots> = int n" by presburger
    finally show ?thesis .
  qed
qed

lemma hd_show_nat: "py_digit (hd (show_nat n))"
  using show_nat_digits [of n] show_nat_nonempty [of n] by (cases "show_nat n") auto

lemma not_digit_minus [simp]: "\<not> py_digit (CHR ''-'')"
  by (simp add: py_digit_def char_code_def)

lemma show_int_inj: "show_int i = show_int j \<Longrightarrow> i = j"
proof -
  assume eq: "show_int i = show_int j"
  have neg: "hd (show_int k) = CHR ''-'' \<longleftrightarrow> k < 0" for k
    using hd_show_nat [of "nat k"] by (auto simp: show_int_def)
  have "i < 0 \<longleftrightarrow> j < 0" using neg [of i] neg [of j] eq by simp
  then have "show_nat (nat \<bar>i\<bar>) = show_nat (nat \<bar>j\<bar>)"
    using eq by (auto simp: show_int_def)
  then have "int (nat \<bar>i\<bar>) = int (nat \<bar>j\<bar>)" by (metis digits_val_show_nat)
  then show "i = j" using \<open>i < 0 \<longleftrightarrow> j < 0\<close> by linarith
qed

section \<open>Strings\<close>

definition hex_char :: "nat \<Rightarrow> char" where
  "hex_char n = (if n < 10 then char_of (48 + n) else char_of (87 + n))"

definition hex_val :: "char \<Rightarrow> nat" where
  "hex_val c = (if char_code c < 58 then char_code c - 48 else char_code c - 87)"

lemma hex_val_char [simp]: "n < 16 \<Longrightarrow> hex_val (hex_char n) = n"
  by (simp add: hex_val_def hex_char_def)

definition short_escapes :: "(nat \<times> char) list" where
  "short_escapes = [(34, CHR 0x22), (92, CHR 0x5C), (8, CHR ''b''), (12, CHR ''f''),
     (10, CHR ''n''), (13, CHR ''r''), (9, CHR ''t'')]"

definition json_char :: "char \<Rightarrow> string" where
  "json_char c =
     (case map_of short_escapes (char_code c) of
        Some e \<Rightarrow> [CHR 0x5C, e]
      | None \<Rightarrow>
          if 32 \<le> char_code c \<and> char_code c \<le> 126 then [c]
          else [CHR 0x5C, CHR ''u'', CHR ''0'', CHR ''0'',
                hex_char (char_code c div 16), hex_char (char_code c mod 16)])"

definition json_body :: "string \<Rightarrow> string" where
  "json_body s = concat (map json_char s)"

definition json_string :: "string \<Rightarrow> string" where
  "json_string s = CHR 0x22 # json_body s @ [CHR 0x22]"

text \<open>A reader of one printed character, the witness that the escapes are a prefix code.\<close>

definition read_char :: "string \<Rightarrow> (char \<times> string) option" where
  "read_char s = (case s of
     [] \<Rightarrow> None
   | c # cs \<Rightarrow>
       if c \<noteq> CHR 0x5C then Some (c, cs)
       else (case cs of
           [] \<Rightarrow> None
         | e # es \<Rightarrow>
             if e = CHR ''u''
             then Some (char_of (16 * hex_val (es ! 2) + hex_val (es ! 3)), drop 4 es)
             else map_option (\<lambda>n. (char_of n, es)) (map_of (map prod.swap short_escapes) e)))"

lemma char_code_inject: "char_code c = char_code d \<Longrightarrow> c = d"
  by (metis char_of_code)

lemma read_json_char: "read_char (json_char c @ r) = Some (c, r)"
proof (cases "char_code c \<in> {34, 92, 8, 12, 10, 13, 9}")
  case True
  moreover obtain n where c: "char_code c = n" "c = char_of n" by (metis char_of_code)
  ultimately have n: "n \<in> {34, 92, 8, 12, 10, 13, 9}" "c = char_of n" by simp_all
  then show ?thesis
    by (auto simp: json_char_def read_char_def short_escapes_def char_code_def)
next
  case False
  then have none: "map_of short_escapes (char_code c) = None" by (simp add: short_escapes_def)
  have bs: "c \<noteq> CHR 0x5C" using False by (auto simp: char_code_def)
  show ?thesis
  proof (cases "32 \<le> char_code c \<and> char_code c \<le> 126")
    case True
    then show ?thesis using none bs by (simp add: json_char_def read_char_def)
  next
    case plain: False
    have "char_code c div 16 < 16" "char_code c mod 16 < 16" using char_code_lt [of c] by auto
    then show ?thesis
      using none plain bs by (simp add: json_char_def read_char_def)
  qed
qed

lemma json_char_hd: "json_char c @ r \<noteq> CHR 0x22 # s"
proof
  assume "json_char c @ r = CHR 0x22 # s"
  moreover have "read_char (CHR 0x22 # s) = Some (CHR 0x22, s)" by (simp add: read_char_def)
  ultimately have "c = CHR 0x22" "s = r" using read_json_char [of c r] by auto
  then show False using \<open>json_char c @ r = CHR 0x22 # s\<close>
    by (simp add: json_char_def short_escapes_def char_code_def)
qed

lemma json_body_prefix:
  "json_body s @ CHR 0x22 # r = json_body t @ CHR 0x22 # r' \<Longrightarrow> s = t \<and> r = r'"
proof (induction s arbitrary: t)
  case Nil
  then show ?case
  proof (cases t)
    case (Cons c cs)
    then show ?thesis using Nil json_char_hd [of c "json_body cs @ CHR 0x22 # r'" r]
      by (simp add: json_body_def)
  qed (simp add: json_body_def)
next
  case (Cons c cs)
  show ?case
  proof (cases t)
    case Nil
    then show ?thesis using Cons.prems json_char_hd [of c "json_body cs @ CHR 0x22 # r" r']
      by (simp add: json_body_def)
  next
    case (Cons d ds)
    then have "json_char c @ (json_body cs @ CHR 0x22 # r) =
        json_char d @ (json_body ds @ CHR 0x22 # r')"
      using Cons.prems by (simp add: json_body_def)
    then have "Some (c, json_body cs @ CHR 0x22 # r) = Some (d, json_body ds @ CHR 0x22 # r')"
      by (metis read_json_char)
    then show ?thesis using Cons.IH [of ds] Cons by simp
  qed
qed

section \<open>Values\<close>

datatype json =
    JNull
  | JBool bool
  | JInt int
  | JStr string
  | JList "json list"
  | JObj "(string \<times> json) list"

definition sep_by :: "string list \<Rightarrow> string" where
  "sep_by xs = (case xs of [] \<Rightarrow> '''' | x # ys \<Rightarrow> x @ concat (map (\<lambda>y. CHR '','' # y) ys))"

fun json_text :: "json \<Rightarrow> string" where
  "json_text JNull = ''null''"
| "json_text (JBool b) = (if b then ''true'' else ''false'')"
| "json_text (JInt i) = show_int i"
| "json_text (JStr s) = json_string s"
| "json_text (JList vs) = CHR ''['' # sep_by (map json_text vs) @ '']''"
| "json_text (JObj fs) =
     CHR ''{'' # sep_by (map (\<lambda>(k, v). json_string k @ CHR '':'' # json_text v) fs) @ ''}''"

text \<open>The characters that can follow a printed value.\<close>

definition ends :: "string \<Rightarrow> bool" where
  "ends r \<longleftrightarrow> r = [] \<or> hd r \<in> {CHR '','', CHR '']'', CHR ''}''}"

definition int_char :: "char \<Rightarrow> bool" where
  "int_char c \<longleftrightarrow> c = CHR ''-'' \<or> py_digit c"

lemma show_int_chars: "list_all int_char (show_int i)" "show_int i \<noteq> []"
  using show_nat_digits show_nat_nonempty
  by (auto simp: show_int_def int_char_def list_all_iff)

lemma hd_show_int: "int_char (hd (show_int i))"
  using show_int_chars [of i] by (cases "show_int i") auto

lemma int_char_not [simp]:
  "\<not> int_char (CHR ''n'')" "\<not> int_char (CHR ''t'')" "\<not> int_char (CHR ''f'')"
  "\<not> int_char (CHR 0x22)" "\<not> int_char (CHR ''['')" "\<not> int_char (CHR ''{'')"
  "\<not> int_char (CHR '','')" "\<not> int_char (CHR '']'')" "\<not> int_char (CHR ''}'')"
  by (simp_all add: int_char_def py_digit_def char_code_def)

lemma takeWhile_show_int: "ends r \<Longrightarrow> takeWhile int_char (show_int i @ r) = show_int i"
  using show_int_chars(1) [of i]
  by (cases r) (auto simp: ends_def takeWhile_append2 list_all_iff)

lemma show_int_prefix:
  assumes "show_int i @ r = show_int j @ s" "ends r" "ends s"
  shows "i = j \<and> r = s"
proof -
  have "show_int i = show_int j"
    using takeWhile_show_int [OF assms(2), of i] takeWhile_show_int [OF assms(3), of j] assms(1)
    by simp
  then show ?thesis using assms(1) show_int_inj by simp
qed

text \<open>The first character tells the constructor.\<close>

fun tag_of :: "json \<Rightarrow> nat" where
  "tag_of JNull = 0" | "tag_of (JBool b) = (if b then 1 else 2)" | "tag_of (JInt _) = 3"
| "tag_of (JStr _) = 4" | "tag_of (JList _) = 5" | "tag_of (JObj _) = 6"

definition tag_char :: "char \<Rightarrow> nat" where
  "tag_char c = (if c = CHR ''n'' then 0 else if c = CHR ''t'' then 1 else if c = CHR ''f'' then 2
     else if int_char c then 3 else if c = CHR 0x22 then 4 else if c = CHR ''['' then 5 else 6)"

lemma json_text_nonempty: "json_text v \<noteq> []"
  by (cases v) (auto simp: json_string_def show_int_chars)

lemma tag_hd: "tag_char (hd (json_text v)) = tag_of v"
proof (cases v)
  case (JInt i)
  have "hd (show_int i) \<noteq> CHR ''n''" "hd (show_int i) \<noteq> CHR ''t''" "hd (show_int i) \<noteq> CHR ''f''"
    using hd_show_int [of i] by (metis int_char_not)+
  then show ?thesis using JInt hd_show_int [of i] by (simp add: tag_char_def)
qed (auto simp: tag_char_def json_string_def)

lemma same_tag:
  assumes "json_text v @ r = json_text w @ s"
  shows "tag_of v = tag_of w"
proof -
  have "hd (json_text v) = hd (json_text w)"
    using assms json_text_nonempty [of v] json_text_nonempty [of w]
    by (metis hd_append2)
  then show ?thesis using tag_hd [of v] tag_hd [of w] by simp
qed

lemma sep_by_simps [simp]:
  "sep_by [] = ''''" "sep_by [x] = x" "sep_by (x # y # zs) = x @ CHR '','' # sep_by (y # zs)"
  by (simp_all add: sep_by_def)

lemma sep_by_Cons: "sep_by (x # xs) = x @ (if xs = [] then '''' else CHR '','' # sep_by xs)"
  by (cases xs) simp_all

lemma sep_prefix:
  fixes p :: "'a \<Rightarrow> string"
  assumes close: "c = CHR '']'' \<or> c = CHR ''}''"
    and ne: "\<And>x. p x \<noteq> [] \<and> hd (p x) \<noteq> c"
    and elem: "\<And>x y r s. x \<in> set xs \<Longrightarrow> ends r \<Longrightarrow> ends s \<Longrightarrow> p x @ r = p y @ s \<Longrightarrow> x = y \<and> r = s"
    and eq: "sep_by (map p xs) @ c # r = sep_by (map p ys) @ c # s"
  shows "xs = ys \<and> r = s"
  using elem eq
proof (induction xs arbitrary: ys)
  case Nil
  show ?case
  proof (cases ys)
    case (Cons y zs)
    have "hd (sep_by (map p ys) @ c # s) = hd (p y)"
      using ne [of y] Cons by (simp add: sep_by_Cons hd_append)
    moreover have "hd (sep_by (map p ys) @ c # s) = c" using Nil.prems(2) by (metis append_Nil list.sel(1) list.simps(8) sep_by_simps(1))
    ultimately show ?thesis using ne [of y] by simp
  qed (use Nil in simp)
next
  case (Cons x xs)
  show ?case
  proof (cases ys)
    case Nil
    have "hd (sep_by (map p (x # xs)) @ c # r) = hd (p x)"
      using ne [of x] by (simp add: sep_by_Cons hd_append)
    moreover have "hd (sep_by (map p (x # xs)) @ c # r) = c" using Cons.prems(2) Nil by simp
    ultimately show ?thesis using ne [of x] by simp
  next
    case ys: (Cons y zs)
    define tl where "tl us q = (if us = [] then c # q else CHR '','' # sep_by (map p us) @ c # q)"
      for us q
    have ends: "ends (tl us q)" for us q using close by (auto simp: tl_def ends_def)
    have "p x @ tl xs r = p y @ tl zs s"
      using Cons.prems(2) ys by (simp add: sep_by_Cons tl_def split: if_splits)
    then have xy: "x = y" "tl xs r = tl zs s" using Cons.prems(1) ends by (metis list.set_intros(1))+
    have c: "c \<noteq> CHR '',''" using close by auto
    show ?thesis
    proof (cases "xs = [] \<or> zs = []")
      case True
      then show ?thesis using xy c ys by (auto simp: tl_def split: if_splits)
    next
      case False
      then have "sep_by (map p xs) @ c # r = sep_by (map p zs) @ c # s"
        using xy by (simp add: tl_def)
      then have "xs = zs \<and> r = s" using Cons.IH Cons.prems(1) by (metis list.set_intros(2))
      then show ?thesis using xy ys by simp
    qed
  qed
qed

lemma json_string_prefix: "json_string s @ r = json_string t @ r' \<Longrightarrow> s = t \<and> r = r'"
  using json_body_prefix [of s r t r'] by (simp add: json_string_def)

lemma hd_json_text: "hd (json_text v) \<notin> {CHR '']'', CHR ''}''}"
proof (cases v)
  case (JInt i)
  then show ?thesis using hd_show_int [of i] by auto
qed (auto simp: json_string_def)

definition field_text :: "string \<times> json \<Rightarrow> string" where
  "field_text f = json_string (fst f) @ CHR '':'' # json_text (snd f)"

lemma field_text_eq: "(\<lambda>(k, v). json_string k @ CHR '':'' # json_text v) = field_text"
  by (intro ext) (simp add: field_text_def case_prod_unfold)

lemma json_text_JObj: "json_text (JObj fs) = CHR ''{'' # sep_by (map field_text fs) @ ''}''"
  by (simp add: field_text_eq)

text \<open>Unique readability, and with it injectivity, of the canonical text.\<close>

lemma json_text_prefix:
  "ends r \<Longrightarrow> ends s \<Longrightarrow> json_text v @ r = json_text w @ s \<Longrightarrow> v = w \<and> r = s"
proof (induction v arbitrary: w r s)
  case JNull
  then show ?case using same_tag [OF JNull(3)] by (cases w) (auto split: if_splits)
next
  case (JBool b)
  then show ?case using same_tag [OF JBool(3)] by (cases w) (auto split: if_splits)
next
  case (JInt i)
  then obtain j where w: "w = JInt j" using same_tag [OF JInt(3)] by (cases w) (auto split: if_splits)
  then show ?case using JInt show_int_prefix [of i r j s] by simp
next
  case (JStr t)
  then obtain u where w: "w = JStr u" using same_tag [OF JStr(3)] by (cases w) (auto split: if_splits)
  then show ?case using JStr json_string_prefix [of t r u s] by simp
next
  case (JList vs)
  then obtain ws where w: "w = JList ws"
    using same_tag [OF JList.prems(3)] by (cases w) (auto split: if_splits)
  have "vs = ws \<and> r = s"
  proof (rule sep_prefix [of "CHR '']''" json_text])
    show "sep_by (map json_text vs) @ CHR '']'' # r = sep_by (map json_text ws) @ CHR '']'' # s"
      using JList.prems(3) w by simp
  qed (use JList.IH hd_json_text json_text_nonempty in auto)
  then show ?case using w by simp
next
  case (JObj fs)
  then obtain gs where w: "w = JObj gs"
    using same_tag [OF JObj.prems(3)] by (cases w) (auto split: if_splits)
  have "fs = gs \<and> r = s"
  proof (rule sep_prefix [of "CHR ''}''" field_text])
    show "sep_by (map field_text fs) @ CHR ''}'' # r = sep_by (map field_text gs) @ CHR ''}'' # s"
      using JObj.prems(3) w by (simp add: field_text_eq)
  next
    fix f g q q' assume f: "f \<in> set fs" and e: "ends q" "ends q'"
      and eq: "field_text f @ q = field_text g @ q'"
    have "fst f = fst g \<and> CHR '':'' # json_text (snd f) @ q = CHR '':'' # json_text (snd g) @ q'"
      using eq by (intro json_string_prefix) (simp add: field_text_def)
    moreover from this have "snd f = snd g \<and> q = q'"
      using JObj.IH [of f "snd f" q q' "snd g"] f e by (cases f) (auto simp: snds.simps)
    ultimately show "f = g \<and> q = q'" by (simp add: prod_eq_iff)
  qed (auto simp: field_text_def json_string_def)
  then show ?case using w by simp
qed

lemma json_text_inj: "json_text v = json_text w \<Longrightarrow> v = w"
  using json_text_prefix [of "[]" "[]" v w] by (simp add: ends_def)

end
