(* ===== verification/RequestIds.thy ===== *)
theory RequestIds
  imports Json
begin

text \<open>
  Identifiers a payment carries: the span id of \<^verbatim>\<open>X-Request-Id\<close>
  (\<^verbatim>\<open>new_request_id\<close> of both \<^verbatim>\<open>payments.py\<close> files, \<^verbatim>\<open>_span_request_id\<close> of
  \<^verbatim>\<open>servicing-service/app/main.py\<close>) and the canonical form of the idempotency key, which the
  routes obtain from the standard library's \<^verbatim>\<open>str(uuid.UUID(key))\<close>.
\<close>

section \<open>Span ids\<close>

definition request_id_char :: "char \<Rightarrow> bool" where
  "request_id_char c \<longleftrightarrow>
     (let n = char_code c
      in (65 \<le> n \<and> n \<le> 90) \<or> (97 \<le> n \<and> n \<le> 122) \<or> py_digit c \<or> n = 46 \<or> n = 95 \<or> n = 45)"

definition max_request_id_digits :: nat where
  "max_request_id_digits = 9"

definition loggable_id :: "string \<Rightarrow> bool" where
  "loggable_id s \<longleftrightarrow> s \<noteq> '''' \<and> length s \<le> 64 \<and> list_all request_id_char s \<and>
     length (filter py_digit s) < max_request_id_digits"

definition hex_digit_to_letter :: "char \<Rightarrow> char" where
  "hex_digit_to_letter c =
     (case map_of (zip ''0123456789'' ''ghijklmnop'') c of Some l \<Rightarrow> l | None \<Rightarrow> c)"

text \<open>\<open>hex\<close> is the 32 hexadecimal characters of a fresh \<^verbatim>\<open>uuid.uuid4().hex\<close>.\<close>

definition new_request_id :: "string \<Rightarrow> string option \<Rightarrow> string" where
  "new_request_id hex supplied =
     (case supplied of
        Some s \<Rightarrow> if loggable_id s then s else map hex_digit_to_letter hex
      | None \<Rightarrow> map hex_digit_to_letter hex)"

definition span_request_id :: "string option \<Rightarrow> string" where
  "span_request_id supplied =
     (case supplied of Some s \<Rightarrow> if loggable_id s then s else ''-'' | None \<Rightarrow> ''-'')"

definition lower_hex :: "char \<Rightarrow> bool" where
  "lower_hex c \<longleftrightarrow> py_digit c \<or> (97 \<le> char_code c \<and> char_code c \<le> 102)"

definition uuid_hex :: "string \<Rightarrow> bool" where
  "uuid_hex s \<longleftrightarrow> length s = 32 \<and> list_all lower_hex s"

lemma letter_of_hex:
  assumes "lower_hex c"
  shows "request_id_char (hex_digit_to_letter c) \<and> \<not> py_digit (hex_digit_to_letter c)"
proof -
  have "char_code c \<in> {48, 49, 50, 51, 52, 53, 54, 55, 56, 57, 97, 98, 99, 100, 101, 102}"
    using assms unfolding lower_hex_def py_digit_def insert_iff empty_iff by arith
  then have "char_code c \<in> char_code ` set ''0123456789abcdef''" by (simp add: char_code_def)
  then have "c \<in> set ''0123456789abcdef''" using char_code_inject by blast
  moreover have "list_all (\<lambda>c. request_id_char (hex_digit_to_letter c) \<and>
      \<not> py_digit (hex_digit_to_letter c)) ''0123456789abcdef''"
    by (simp add: hex_digit_to_letter_def request_id_char_def py_digit_def char_code_def Let_def)
  ultimately show ?thesis by (simp only: list_all_iff) blast
qed

lemma generated_id_loggable:
  assumes "uuid_hex hex"
  shows "loggable_id (map hex_digit_to_letter hex)"
proof -
  have all: "\<forall>c \<in> set hex. request_id_char (hex_digit_to_letter c) \<and>
      \<not> py_digit (hex_digit_to_letter c)"
    using assms letter_of_hex by (auto simp: uuid_hex_def list_all_iff)
  then have "filter py_digit (map hex_digit_to_letter hex) = []" by (auto simp: filter_empty_conv)
  then show ?thesis
    using assms all by (auto simp: loggable_id_def uuid_hex_def max_request_id_digits_def list_all_iff)
qed

section \<open>UUID keys\<close>

fun drop_word :: "string \<Rightarrow> string \<Rightarrow> string" where
  "drop_word w [] = []"
| "drop_word w (c # cs) =
     (if w \<noteq> [] \<and> take (length w) (c # cs) = w then drop_word w (drop (length w - 1) cs)
      else c # drop_word w cs)"

definition strip_braces :: "string \<Rightarrow> string" where
  "strip_braces s =
     (let brace = (\<lambda>c. c = CHR ''{'' \<or> c = CHR ''}'')
      in rev (dropWhile brace (rev (dropWhile brace s))))"

definition hex_digit :: "char \<Rightarrow> bool" where
  "hex_digit c \<longleftrightarrow> lower_hex (lower_char c)"

fun hex_body_ok :: "string \<Rightarrow> bool" where
  "hex_body_ok [] = False"
| "hex_body_ok [c] = hex_digit c"
| "hex_body_ok (c # d # cs) =
     (hex_digit c \<and> (if d = CHR ''_'' then hex_body_ok cs else hex_body_ok (d # cs)))"

definition hex_number :: "string \<Rightarrow> int" where
  "hex_number s = foldl (\<lambda>a c. 16 * a + int (hex_val (lower_char c))) 0 s"

text \<open>\<^verbatim>\<open>int(s, 16)\<close>, with the sign, prefix, underscores and blanks it accepts.\<close>

definition py_int16 :: "string \<Rightarrow> int option" where
  "py_int16 s =
     (let t = strip s;
          neg = (t \<noteq> [] \<and> hd t = CHR ''-'');
          u = (if t \<noteq> [] \<and> (hd t = CHR ''-'' \<or> hd t = CHR ''+'') then tl t else t);
          v = (if lower (take 2 u) = ''0x''
               then (if take 1 (drop 2 u) = ''_'' then drop 3 u else drop 2 u) else u)
      in if hex_body_ok v
         then Some ((if neg then -1 else 1) * hex_number (filter hex_digit v))
         else None)"

definition uuid_parse :: "string \<Rightarrow> int option" where
  "uuid_parse s =
     (let h = drop_word ''-'' (strip_braces (drop_word ''uuid:'' (drop_word ''urn:'' s)))
      in if length h \<noteq> 32 then None
         else case py_int16 h of
           None \<Rightarrow> None
         | Some n \<Rightarrow> if 0 \<le> n \<and> n < 2 ^ 128 then Some n else None)"

fun hex_text :: "nat \<Rightarrow> int \<Rightarrow> string" where
  "hex_text 0 n = []"
| "hex_text (Suc k) n = hex_text k (n div 16) @ [hex_char (nat (n mod 16))]"

definition uuid_text :: "int \<Rightarrow> string" where
  "uuid_text n =
     (let h = hex_text 32 n
      in take 8 h @ ''-'' @ take 4 (drop 8 h) @ ''-'' @ take 4 (drop 12 h) @ ''-'' @
         take 4 (drop 16 h) @ ''-'' @ drop 20 h)"

text \<open>\<^verbatim>\<open>str(uuid.UUID(key))\<close>; \<open>None\<close> is its ValueError.\<close>

definition canonical_key :: "string \<Rightarrow> string option" where
  "canonical_key s = map_option uuid_text (uuid_parse s)"

lemma drop_word_absent: "w \<noteq> [] \<Longrightarrow> hd w \<notin> set s \<Longrightarrow> drop_word w s = s"
  by (induction w s rule: drop_word.induct) (auto simp: neq_Nil_conv)

lemma drop_word_single: "drop_word [c] s = filter (\<lambda>d. d \<noteq> c) s"
  by (induction s) auto

lemma strip_braces_none:
  "\<forall>c \<in> set s. c \<noteq> CHR ''{'' \<and> c \<noteq> CHR ''}'' \<Longrightarrow> strip_braces s = s"
  by (simp add: strip_braces_def Let_def dropWhile_none)

lemma lower_hex_char: "n < 16 \<Longrightarrow> lower_hex (hex_char n)"
  by (simp add: lower_hex_def hex_char_def py_digit_def)

lemma hex_text_lower_hex: "list_all lower_hex (hex_text k n)"
  by (induction k arbitrary: n) (simp_all add: lower_hex_char nat_less_iff)

lemma length_hex_text [simp]: "length (hex_text k n) = k"
  by (induction k arbitrary: n) simp_all

lemma lower_char_hex: "lower_hex c \<Longrightarrow> lower_char c = c"
  by (auto simp: lower_hex_def lower_char_def py_digit_def)

lemma lower_hex_not:
  assumes "lower_hex c"
  shows "c \<noteq> CHR ''u''" "c \<noteq> CHR ''{''" "c \<noteq> CHR ''}''" "c \<noteq> CHR ''-''" "c \<noteq> CHR ''+''"
    "c \<noteq> CHR ''x''" "c \<noteq> CHR ''_''" "\<not> py_space c"
  using assms
  by (auto simp: lower_hex_def py_digit_def py_space_def char_code_def Let_def)

lemma hex_body_ok_lower: "s \<noteq> [] \<Longrightarrow> list_all lower_hex s \<Longrightarrow> hex_body_ok s"
  by (induction s rule: hex_body_ok.induct)
    (auto simp: hex_digit_def lower_char_hex dest: lower_hex_not)

lemma hex_number_snoc: "hex_number (s @ [c]) = 16 * hex_number s + int (hex_val (lower_char c))"
  by (simp add: hex_number_def)

lemma hex_number_text: "hex_number (hex_text k n) = n mod 16 ^ k"
proof (induction k arbitrary: n)
  case 0
  then show ?case by (simp add: hex_number_def)
next
  case (Suc k)
  have "hex_number (hex_text (Suc k) n) = 16 * (n div 16 mod 16 ^ k) + n mod 16"
    by (simp add: hex_number_snoc Suc lower_char_hex lower_hex_char nat_less_iff)
  also have "\<dots> = n mod 16 ^ Suc k"
    using zmod_zmult2_eq [of "16 ^ k" n 16] by simp
  finally show ?case .
qed

lemma py_int16_hex:
  assumes "list_all lower_hex s" "s \<noteq> []"
  shows "py_int16 s = Some (hex_number s)"
proof -
  have all: "\<And>c. c \<in> set s \<Longrightarrow> lower_hex c" using assms(1) by (simp add: list_all_iff)
  have h: "hd s \<noteq> CHR ''-''" "hd s \<noteq> CHR ''+''"
    using all [of "hd s"] assms(2) lower_hex_not by auto
  have low: "lower (take 2 s) = take 2 s"
    unfolding lower_def by (rule map_idI) (meson all in_set_takeD lower_char_hex)
  have "CHR ''x'' \<notin> set (take 2 s)" using all lower_hex_not(6) by (blast dest: in_set_takeD)
  then have x: "lower (take 2 s) \<noteq> ''0x''" unfolding low by auto
  have f: "filter hex_digit s = s"
    by (simp add: filter_id_conv hex_digit_def all lower_char_hex)
  have "strip s = s" using all lower_hex_not(8) by (intro strip_none) blast
  then show ?thesis
    using h x f hex_body_ok_lower [OF assms(2,1)] by (simp add: py_int16_def Let_def)
qed

lemma uuid_text_chars: "c \<in> set (uuid_text n) \<Longrightarrow> lower_hex c \<or> c = CHR ''-''"
  using hex_text_lower_hex [of 32 n]
  by (auto simp: uuid_text_def Let_def list_all_iff dest: in_set_takeD in_set_dropD)

lemma uuid_text_digits: "filter (\<lambda>d. d \<noteq> CHR ''-'') (uuid_text n) = hex_text 32 n"
proof -
  let ?h = "hex_text 32 n"
  have no: "CHR ''-'' \<notin> set ?h"
    using hex_text_lower_hex [of 32 n] lower_hex_not(4) by (auto simp: list_all_iff)
  have keep: "filter (\<lambda>d. d \<noteq> CHR ''-'') (take i (drop j ?h)) = take i (drop j ?h)"
    "filter (\<lambda>d. d \<noteq> CHR ''-'') (take i ?h) = take i ?h"
    "filter (\<lambda>d. d \<noteq> CHR ''-'') (drop i ?h) = drop i ?h" for i j
    using no by (auto simp: filter_id_conv dest: in_set_takeD in_set_dropD)
  have "filter (\<lambda>d. d \<noteq> CHR ''-'') (uuid_text n) =
      take 8 ?h @ take 4 (drop 8 ?h) @ take 4 (drop 12 ?h) @ take 4 (drop 16 ?h) @ drop 20 ?h"
    unfolding uuid_text_def Let_def by (simp add: keep)
  also have "\<dots> = ?h"
    using append_take_drop_id [of 4 "drop 16 ?h"] append_take_drop_id [of 4 "drop 12 ?h"]
      append_take_drop_id [of 4 "drop 8 ?h"] append_take_drop_id [of 8 ?h] by simp
  finally show ?thesis .
qed

lemma uuid_parse_text:
  assumes "0 \<le> n" "n < 2 ^ 128"
  shows "uuid_parse (uuid_text n) = Some n"
proof -
  have u: "CHR ''u'' \<notin> set (uuid_text n)" using uuid_text_chars lower_hex_not(1) by fastforce
  have b: "\<forall>c \<in> set (uuid_text n). c \<noteq> CHR ''{'' \<and> c \<noteq> CHR ''}''"
    using uuid_text_chars lower_hex_not(2,3) by fastforce
  have w: "drop_word ''uuid:'' (drop_word ''urn:'' (uuid_text n)) = uuid_text n"
    using u by (simp add: drop_word_absent)
  have "(16::int) ^ 32 = 2 ^ 128" by simp
  then have m: "n mod 16 ^ 32 = n" using assms by simp
  have "py_int16 (hex_text 32 n) = Some n"
    using py_int16_hex [OF hex_text_lower_hex [of 32 n]] hex_number_text [of 32 n] m
    by (metis length_hex_text list.size(3) zero_neq_numeral)
  then show ?thesis
    using assms unfolding uuid_parse_def Let_def w strip_braces_none [OF b] drop_word_single
      uuid_text_digits
    by simp
qed

section \<open>Properties\<close>

text \<open>The two halves of a payment span share one id: whatever header the caller sent, the id
  \<^verbatim>\<open>new_request_id\<close> settles on passes servicing's own check unchanged, and it carries fewer than
  nine digits, so it can spell neither an SSN nor a card number.\<close>

theorem span_id_survives:
  assumes "uuid_hex hex"
  shows "span_request_id (Some (new_request_id hex supplied)) = new_request_id hex supplied \<and>
         length (filter py_digit (new_request_id hex supplied)) < 9"
  using generated_id_loggable [OF assms]
  by (auto simp: new_request_id_def span_request_id_def loggable_id_def max_request_id_digits_def
      split: option.split)

theorem span_id_survives_witness:
  "span_request_id (Some (new_request_id (replicate 32 CHR ''7'') (Some ''412-55-9981''))) =
     replicate 32 CHR ''n''"
proof -
  have "uuid_hex (replicate 32 CHR ''7'')"
    by (simp add: uuid_hex_def list_all_iff lower_hex_def py_digit_def char_code_def)
  moreover have "new_request_id (replicate 32 CHR ''7'') (Some ''412-55-9981'') =
      replicate 32 CHR ''n''"
    by (simp add: new_request_id_def loggable_id_def max_request_id_digits_def py_digit_def
        char_code_def hex_digit_to_letter_def)
  ultimately show ?thesis
    using span_id_survives [of "replicate 32 CHR ''7''" "Some ''412-55-9981''"] by simp
qed

lemmas uuid_eval = uuid_parse_def strip_braces_def py_int16_def strip_def py_space_def lower_def
  lower_char_def hex_digit_def lower_hex_def py_digit_def hex_number_def hex_val_def char_code_def

text \<open>The canonical key is a normal form: canonicalizing is idempotent, and two headers are
  given the same key exactly when they spell the same 128-bit UUID, however they spell it.\<close>

theorem canonical_key_normal_form:
  assumes "uuid_parse s = Some m" "uuid_parse t = Some n"
  shows "canonical_key (uuid_text m) = canonical_key s \<and>
         (canonical_key s = canonical_key t \<longleftrightarrow> m = n)"
proof -
  have lt: "0 \<le> m" "m < 2 ^ 128" "0 \<le> n" "n < 2 ^ 128"
    using assms by (auto simp: uuid_parse_def Let_def split: if_splits option.splits)
  have inj: "m = n" if "uuid_text m = uuid_text n"
    using arg_cong [OF that, of uuid_parse] unfolding uuid_parse_text [OF lt(1,2)]
      uuid_parse_text [OF lt(3,4)] by (rule option.inject [THEN iffD1])
  have "canonical_key s = Some (uuid_text m)" "canonical_key t = Some (uuid_text n)"
    "canonical_key (uuid_text m) = Some (uuid_text m)"
    unfolding canonical_key_def assms uuid_parse_text [OF lt(1,2)] by simp_all
  then show ?thesis using inj by auto
qed

theorem canonical_key_normal_form_witness:
  "canonical_key ''{6F9619FF-8B86-D011-B42D-00C04FC964FF}'' =
   canonical_key ''urn:uuid:6f9619ff8b86d011b42d00c04fc964ff''"
proof -
  have "uuid_parse ''{6F9619FF-8B86-D011-B42D-00C04FC964FF}'' =
      Some 0x6f9619ff8b86d011b42d00c04fc964ff" by (simp add: uuid_eval)
  moreover have "uuid_parse ''urn:uuid:6f9619ff8b86d011b42d00c04fc964ff'' =
      Some 0x6f9619ff8b86d011b42d00c04fc964ff" by (simp add: uuid_eval)
  ultimately show ?thesis by (rule canonical_key_normal_form [THEN conjunct2, THEN iffD2, OF _ _ refl])
qed

end
