(* ===== verification/MoneyRoutes.thy ===== *)
theory MoneyRoutes
  imports Balance Authz RequestIds
begin

text \<open>
  The balance routes of \<^verbatim>\<open>servicing-service/app/main.py\<close>: each handler with its gate, its call
  into \<^verbatim>\<open>balance.py\<close> or \<^verbatim>\<open>delinquency.py\<close> and its error mapping. A handler returns its
  response and the tables after it.
\<close>

section \<open>Responses\<close>

record apply_out =
  ao_loan_id :: int
  ao_moved :: bool
  ao_new_balance :: rat

record balance_out =
  bo_loan_id :: int
  bo_balance :: rat
  bo_past_due :: "rat option"

text \<open>\<^verbatim>\<open>format(x, ".2f")\<close>, which rounds the exact binary value half to even.\<close>

definition two_digits :: "nat \<Rightarrow> string" where
  "two_digits n = [digit_char (n div 10 mod 10), digit_char (n mod 10)]"

definition format_2f :: "rat \<Rightarrow> string" where
  "format_2f x =
     (let c = nat \<bar>round_half_even (100 * x)\<bar>
      in (if x < 0 then ''-'' else '''') @ show_nat (c div 100) @ ''.'' @ two_digits (c mod 100))"

fun refusal_reason :: "refusal \<Rightarrow> string" where
  "refusal_reason Not_applicable = ''not_applicable''"
| "refusal_reason Applied_to_another_loan = ''applied_to_another_loan''"

definition unhandled :: "'a response" where
  "unhandled = raise_http 500 ''internal error''"

section \<open>Handlers\<close>

definition apply_payment_route ::
  "string \<Rightarrow> string option \<Rightarrow> int \<Rightarrow> int \<Rightarrow> lss_db \<Rightarrow> apply_out response \<times> lss_db" where
  "apply_payment_route expected x_internal_service loan_id payment_id db =
     (case require_internal_caller expected x_internal_service of
        Inl e \<Rightarrow> (Inl e, db)
      | Inr _ \<Rightarrow>
          (case apply_payment loan_id payment_id db of
             (Inl reason, db') \<Rightarrow> (raise_http 422 (refusal_reason reason), db')
           | (Inr (new_balance, moved), db') \<Rightarrow>
               (Inr \<lparr>ao_loan_id = loan_id, ao_moved = moved, ao_new_balance = new_balance\<rparr>, db')))"

definition get_account_balance ::
  "identity_db \<Rightarrow> int \<Rightarrow> string option \<Rightarrow> string option \<Rightarrow> lss_db \<Rightarrow> balance_out response" where
  "get_account_balance idb loan_id x_user_role x_user_id db =
     bind_result (require_staff_or_owner idb loan_id x_user_role x_user_id)
       (\<lambda>_. Inr \<lparr>bo_loan_id = loan_id, bo_balance = get_balance loan_id db,
                 bo_past_due = get_past_due loan_id db\<rparr>)"

definition adjust_balance_route ::
  "string option \<Rightarrow> int \<Rightarrow> rat \<Rightarrow> rat \<Rightarrow> lss_db \<Rightarrow> rat response \<times> lss_db" where
  "adjust_balance_route x_user_role loan_id new_value expected_balance db =
     (case require_money_role x_user_role of
        Inl e \<Rightarrow> (Inl e, db)
      | Inr _ \<Rightarrow>
          (case adjust_balance loan_id new_value expected_balance db of
             (Inl current, db') \<Rightarrow>
               (raise_http 409 (''balance changed since it was quoted; current balance is '' @
                  format_2f current), db')
           | (Inr new_balance, db') \<Rightarrow> (Inr new_balance, db')))"

definition waive_fee_route ::
  "string option \<Rightarrow> int \<Rightarrow> rat \<Rightarrow> lss_db \<Rightarrow> rat option response \<times> lss_db" where
  "waive_fee_route x_user_role loan_id amount db =
     (case require_money_role x_user_role of
        Inl e \<Rightarrow> (Inl e, db)
      | Inr _ \<Rightarrow> (case waive_fee loan_id amount db of (pd, db') \<Rightarrow> (Inr pd, db')))"

definition late_fee_route ::
  "string \<Rightarrow> string option \<Rightarrow> (lss_db \<Rightarrow> lss_db) \<Rightarrow> int \<Rightarrow> lss_db \<Rightarrow> rat response \<times> lss_db" where
  "late_fee_route expected x_internal_service others loan_id db =
     (case require_internal_caller expected x_internal_service of
        Inl e \<Rightarrow> (Inl e, db)
      | Inr _ \<Rightarrow>
          (case assess_late_fee others loan_id db of
             (None, db') \<Rightarrow> (unhandled, db')
           | (Some pd, db') \<Rightarrow> (Inr pd, db')))"

section \<open>Who can move a balance\<close>

lemma apply_route_unauthorized:
  "expected = '''' \<or> s \<noteq> Some expected \<Longrightarrow> snd (apply_payment_route expected s l i db) = db"
  using servicing_guard.passes_iff [of expected s]
  by (auto simp: apply_payment_route_def split: sum.split)

lemma money_role_unauthorized:
  assumes "\<not> is_money_role r"
  shows "adjust_balance_route r l v e db = (raise_http 403 ''servicing money role required'', db)"
    "waive_fee_route r l x db = (raise_http 403 ''servicing money role required'', db)"
  using assms
  by (simp_all add: adjust_balance_route_def waive_fee_route_def require_money_role_def raise_http_def)

lemma late_fee_route_unauthorized:
  "expected = '''' \<or> s \<noteq> Some expected \<Longrightarrow> snd (late_fee_route expected s others l db) = db"
  using servicing_guard.passes_iff [of expected s]
  by (auto simp: late_fee_route_def split: sum.split)

text \<open>An operation requested of the money routes, with the caller's headers.\<close>

datatype money_call =
    Apply_call "string option" int int
  | Adjust_call "string option" int rat rat
  | Waive_call "string option" int rat
  | Late_fee_call "string option" int

fun serve :: "string \<Rightarrow> money_call \<Rightarrow> lss_db \<Rightarrow> lss_db" where
  "serve tok (Apply_call s l i) db = snd (apply_payment_route tok s l i db)"
| "serve tok (Adjust_call r l v e) db = snd (adjust_balance_route r l v e db)"
| "serve tok (Waive_call r l x) db = snd (waive_fee_route r l x db)"
| "serve tok (Late_fee_call s l) db = snd (late_fee_route tok s (\<lambda>d. d) l db)"

fun authorized :: "string \<Rightarrow> money_call \<Rightarrow> bool" where
  "authorized tok (Apply_call s l i) = (tok \<noteq> '''' \<and> s = Some tok)"
| "authorized tok (Adjust_call r l v e) = is_money_role r"
| "authorized tok (Waive_call r l x) = is_money_role r"
| "authorized tok (Late_fee_call s l) = (tok \<noteq> '''' \<and> s = Some tok)"

text \<open>No money moves without authority: serving any sequence of calls to the four money
  routes has the same effect on the tables as serving only those whose caller holds the internal
  secret (apply, late fee) or a money role (adjust, waive).\<close>

theorem unauthorized_calls_are_inert:
  "foldl (\<lambda>db c. serve tok c db) db calls =
   foldl (\<lambda>db c. serve tok c db) db (filter (authorized tok) calls)"
proof (induction calls arbitrary: db)
  case (Cons c calls)
  have "\<not> authorized tok c \<Longrightarrow> serve tok c db = db"
    by (cases c) (auto simp: money_role_unauthorized apply_route_unauthorized
        late_fee_route_unauthorized)
  then show ?case using Cons by simp
qed simp

end
