(* ===== verification/Payments.thy ===== *)
theory Payments
  imports MoneyRoutes
begin

text \<open>
  The charge path of \<^verbatim>\<open>payment-service/app/payments.py\<close>: the idempotency-key store on the
  payments table, \<^verbatim>\<open>claim_or_branch\<close>, and \<^verbatim>\<open>charge\<close> with its call to servicing. Every SQL
  statement is one atomic step; a handler takes an argument \<open>w\<close> whose value \<open>w n\<close> is what the
  other sessions do to the tables before the handler's statement number \<open>n\<close>.
\<close>

section \<open>Amounts and fingerprints\<close>

text \<open>
  \<^verbatim>\<open>_amount_minor\<close>: \<^verbatim>\<open>Decimal(str(amount)).scaleb(2)\<close> is exact (a printed double has at most
  17 digits); \<^verbatim>\<open>quantize\<close> raises InvalidOperation above 28 digits, here \<open>None\<close>.
\<close>

definition amount_minor_of :: "rat \<Rightarrow> int option" where
  "amount_minor_of amount =
     (let n = round_half_up (100 * py_repr amount) in if \<bar>n\<bar> < 10 ^ 28 then Some n else None)"

text \<open>The list \<^verbatim>\<open>request_fingerprint\<close> serializes; \<open>sha\<close> is \<^verbatim>\<open>sha256(...).hexdigest()\<close>.\<close>

definition fingerprint_payload ::
  "(string \<Rightarrow> string) \<Rightarrow> int \<Rightarrow> int \<Rightarrow> string \<Rightarrow> string option \<Rightarrow> json" where
  "fingerprint_payload sha loan_id amount_minor method pan =
     (let instrument = (case pan of
            None \<Rightarrow> JNull | Some p \<Rightarrow> if p = '''' then JNull else JStr (sha p))
      in JList [JInt loan_id, JInt amount_minor, JStr method, instrument])"

definition request_fingerprint ::
  "(string \<Rightarrow> string) \<Rightarrow> int \<Rightarrow> int \<Rightarrow> string \<Rightarrow> string option \<Rightarrow> string" where
  "request_fingerprint sha loan_id amount_minor method pan =
     sha (json_text (fingerprint_payload sha loan_id amount_minor method pan))"

text \<open>\<^verbatim>\<open>payment_idempotency_ttl_hours\<close> of \<^verbatim>\<open>config.py\<close>.\<close>

definition payment_idempotency_ttl_hours :: "string \<Rightarrow> int" where
  "payment_idempotency_ttl_hours raw =
     (if raw = '''' then 24
      else case py_int raw of None \<Rightarrow> 24 | Some hours \<Rightarrow> if 0 < hours then hours else 24)"

section \<open>The statements of the key store\<close>

datatype internal_error = Missing_key | Invalid_amount | Database_refused

record charge_req =
  rq_key :: string
  rq_loan_id :: int
  rq_pan :: "string option"
  rq_amount :: rat
  rq_amount_minor :: int
  rq_method :: string
  rq_fingerprint :: string

text \<open>The ranges of the INTEGER and BIGINT columns.\<close>

definition fits_columns :: "charge_req \<Rightarrow> bool" where
  "fits_columns rq \<longleftrightarrow> - (2 ^ 31) \<le> rq_loan_id rq \<and> rq_loan_id rq < 2 ^ 31 \<and>
     - (2 ^ 63) \<le> rq_amount_minor rq \<and> rq_amount_minor rq < 2 ^ 63"

definition holds_key :: "string \<Rightarrow> payment_row \<Rightarrow> bool" where
  "holds_key key p \<longleftrightarrow> p_key p = Some key"

definition new_row :: "int \<Rightarrow> charge_req \<Rightarrow> lss_db \<Rightarrow> payment_row" where
  "new_row ttl rq db =
     \<lparr>p_id = next_id db, p_loan_id = Some (rq_loan_id rq), p_pan = rq_pan rq,
      p_amount = rq_amount rq, p_amount_minor = Some (rq_amount_minor rq),
      p_method = Some (rq_method rq), p_status = ''processing'', p_key = Some (rq_key rq),
      p_expires_at = Some (clock db + 3600 * ttl), p_fingerprint = Some (rq_fingerprint rq)\<rparr>"

text \<open>
  \<^verbatim>\<open>_claim\<close>: insert unless the partial unique index already has the key. The sequence advances
  whenever a row was attempted; a loan id outside the foreign key aborts the statement.
\<close>

definition claim :: "int \<Rightarrow> charge_req \<Rightarrow> lss_db \<Rightarrow> (internal_error + int option) \<times> lss_db" where
  "claim ttl rq db =
     (if \<not> fits_columns rq then (Inl Database_refused, db)
      else
        (let db1 = db\<lparr>next_id := next_id db + 1\<rparr>
         in if \<exists>p \<in> set (payments db). holds_key (rq_key rq) p then (Inr None, db1)
            else if rq_loan_id rq \<notin> set (loan_ids db) then (Inl Database_refused, db1)
            else (Inr (Some (next_id db)), db1\<lparr>payments := payments db @ [new_row ttl rq db]\<rparr>)))"

definition retirable_statuses :: "string list" where
  "retirable_statuses = [''captured'', ''failed'', ''settled'', ''returned'']"

definition expired_at :: "int \<Rightarrow> payment_row \<Rightarrow> bool" where
  "expired_at now p \<longleftrightarrow> (case p_expires_at p of None \<Rightarrow> False | Some e \<Rightarrow> e \<le> now)"

definition retirable :: "string \<Rightarrow> lss_db \<Rightarrow> payment_row \<Rightarrow> bool" where
  "retirable key db p \<longleftrightarrow> holds_key key p \<and> expired_at (clock db) p \<and>
     p_status p \<in> set retirable_statuses \<and>
     (p_status p \<noteq> ''captured'' \<or> (\<exists>a \<in> set (applied db). a_payment_id a = p_id p))"

definition retire :: "string \<Rightarrow> lss_db \<Rightarrow> bool \<times> lss_db" where
  "retire key db =
     (\<exists>p \<in> set (payments db). retirable key db p,
      db\<lparr>payments := map (\<lambda>p. if retirable key db p then p\<lparr>p_key := None\<rparr> else p) (payments db)\<rparr>)"

text \<open>The row \<^verbatim>\<open>_READ_BY_KEY_SQL\<close> returns, with its computed column \<^verbatim>\<open>expired\<close>.\<close>

definition read_by_key :: "string \<Rightarrow> lss_db \<Rightarrow> (payment_row \<times> bool) option" where
  "read_by_key key db =
     map_option (\<lambda>p. (p, expired_at (clock db) p)) (find (holds_key key) (payments db))"

definition finalize :: "string \<Rightarrow> int \<Rightarrow> lss_db \<Rightarrow> lss_db" where
  "finalize status pid db =
     db\<lparr>payments := map (\<lambda>p. if p_id p = pid then p\<lparr>p_status := status\<rparr> else p) (payments db)\<rparr>"

section \<open>claim_or_branch\<close>

datatype outcome = Claimed | Replay | Fingerprint_mismatch | In_flight

type_synonym branch_result = "outcome \<times> int option \<times> payment_row option"

definition terminal_statuses :: "string list" where
  "terminal_statuses =
     [''captured'', ''captured_unapplied'', ''failed'', ''settled'', ''returned'']"

text \<open>Step 2b: the fingerprint first, then the in-flight test.\<close>

definition answer_live :: "string \<Rightarrow> payment_row \<Rightarrow> branch_result" where
  "answer_live fingerprint existing =
     (if p_fingerprint existing \<noteq> Some fingerprint then (Fingerprint_mismatch, None, Some existing)
      else if p_status existing \<notin> set terminal_statuses then (In_flight, None, Some existing)
      else (Replay, Some (p_id existing), Some existing))"

definition reread :: "charge_req \<Rightarrow> payment_row \<Rightarrow> lss_db \<Rightarrow> branch_result" where
  "reread rq existing db =
     answer_live (rq_fingerprint rq)
       (case read_by_key (rq_key rq) db of Some (p, _) \<Rightarrow> p | None \<Rightarrow> existing)"

text \<open>Step 2a: an expired terminal row is retired, and the key claimed once more.\<close>

definition branch_existing ::
  "(nat \<Rightarrow> lss_db \<Rightarrow> lss_db) \<Rightarrow> int \<Rightarrow> charge_req \<Rightarrow> payment_row \<times> bool \<Rightarrow> lss_db \<Rightarrow>
   (internal_error + branch_result) \<times> lss_db" where
  "branch_existing w ttl rq found db =
     (let (existing, expired) = found
      in if expired \<and> p_status existing \<in> set terminal_statuses
         then (case retire (rq_key rq) (w 4 db) of
             (True, db1) \<Rightarrow>
               (case claim ttl rq (w 5 db1) of
                  (Inl e, db2) \<Rightarrow> (Inl e, db2)
                | (Inr (Some i), db2) \<Rightarrow> (Inr (Claimed, Some i, None), db2)
                | (Inr None, db2) \<Rightarrow>
                    (let db3 = w 6 db2 in (Inr (reread rq existing db3), db3)))
           | (False, db1) \<Rightarrow> (let db3 = w 6 db1 in (Inr (reread rq existing db3), db3)))
         else (Inr (answer_live (rq_fingerprint rq) existing), db))"

definition claim_or_branch ::
  "(nat \<Rightarrow> lss_db \<Rightarrow> lss_db) \<Rightarrow> int \<Rightarrow> charge_req \<Rightarrow> lss_db \<Rightarrow>
   (internal_error + branch_result) \<times> lss_db" where
  "claim_or_branch w ttl rq db =
     (case claim ttl rq (w 0 db) of
        (Inl e, db1) \<Rightarrow> (Inl e, db1)
      | (Inr (Some i), db1) \<Rightarrow> (Inr (Claimed, Some i, None), db1)
      | (Inr None, db1) \<Rightarrow>
          (let db2 = w 1 db1
           in case read_by_key (rq_key rq) db2 of
                Some found \<Rightarrow> branch_existing w ttl rq found db2
              | None \<Rightarrow>
                  (case claim ttl rq (w 2 db2) of
                     (Inl e, db3) \<Rightarrow> (Inl e, db3)
                   | (Inr (Some i), db3) \<Rightarrow> (Inr (Claimed, Some i, None), db3)
                   | (Inr None, db3) \<Rightarrow>
                       (let db4 = w 3 db3
                        in case read_by_key (rq_key rq) db4 of
                             Some found \<Rightarrow> branch_existing w ttl rq found db4
                           | None \<Rightarrow> (Inr (In_flight, None, None), db4)))))"

section \<open>Applying through servicing\<close>

text \<open>
  What the network does with the call: the handler runs and answers, the request is lost, the
  handler runs but its answer is lost (the five-second timeout), or something else answers
  (a redirect, a proxy) without running the handler.
\<close>

datatype delivery = Delivered | Request_lost | Reply_lost | Answered_elsewhere nat

definition is_2xx :: "nat \<Rightarrow> bool" where
  "is_2xx s \<longleftrightarrow> 200 \<le> s \<and> s < 300"

definition apply_via_servicing ::
  "delivery \<Rightarrow> string \<Rightarrow> string \<Rightarrow> int \<Rightarrow> int \<Rightarrow> lss_db \<Rightarrow> bool \<times> lss_db" where
  "apply_via_servicing net internal_token servicing_token loan_id payment_id db =
     (case net of
        Delivered \<Rightarrow>
          (case apply_payment_route servicing_token (Some internal_token) loan_id payment_id db of
             (resp, db') \<Rightarrow> (is_2xx (status_of resp), db'))
      | Request_lost \<Rightarrow> (False, db)
      | Reply_lost \<Rightarrow>
          (False, snd (apply_payment_route servicing_token (Some internal_token)
                         loan_id payment_id db))
      | Answered_elsewhere s \<Rightarrow> (is_2xx s, db))"

section \<open>charge\<close>

record charge_body =
  cb_loan_id :: int
  cb_pan :: "string option"
  cb_amount :: rat
  cb_method :: string

text \<open>
  What one charge call meets outside the code: the configured window, the digest, the fresh
  uuid4 hex, the network, the two services' copies of the shared secret, and the other sessions.
\<close>

record charge_env =
  ttl_raw :: string
  sha :: "string \<Rightarrow> string"
  fresh_hex :: string
  net :: delivery
  own_token :: string
  servicing_token :: string
  others :: "nat \<Rightarrow> lss_db \<Rightarrow> lss_db"

record charge_out =
  co_payment_id :: "int option"
  co_loan_id :: int
  co_status :: string
  co_applied_amount :: rat
  co_request_id :: string
  co_idempotency :: outcome

fun outcome_text :: "outcome \<Rightarrow> string" where
  "outcome_text Claimed = ''claimed''"
| "outcome_text Replay = ''replay''"
| "outcome_text Fingerprint_mismatch = ''fingerprint_mismatch''"
| "outcome_text In_flight = ''in_flight''"

definition charge_request :: "(string \<Rightarrow> string) \<Rightarrow> string \<Rightarrow> charge_body \<Rightarrow> int \<Rightarrow> charge_req" where
  "charge_request digest key body amount_minor =
     \<lparr>rq_key = key, rq_loan_id = cb_loan_id body, rq_pan = cb_pan body, rq_amount = cb_amount body,
      rq_amount_minor = amount_minor, rq_method = cb_method body,
      rq_fingerprint =
        request_fingerprint digest (cb_loan_id body) amount_minor (cb_method body) (cb_pan body)\<rparr>"

text \<open>The answer to a caller that did not win the key.\<close>

definition not_captured ::
  "int \<Rightarrow> string \<Rightarrow> branch_result \<Rightarrow> charge_out" where
  "not_captured loan_id request_id b =
     (case b of (outcome, payment_id, existing) \<Rightarrow>
        \<lparr>co_payment_id = payment_id, co_loan_id = loan_id,
         co_status = (case existing of
             Some p \<Rightarrow> if outcome = Replay then p_status p else outcome_text outcome
           | None \<Rightarrow> outcome_text outcome),
         co_applied_amount = (case existing of
             Some p \<Rightarrow> if outcome = Replay \<and> p_status p = ''captured'' then p_amount p else 0
           | None \<Rightarrow> 0),
         co_request_id = request_id, co_idempotency = outcome\<rparr>)"

text \<open>From the won claim on: finalize, apply, and finalize again when the apply failed.\<close>

definition capture ::
  "charge_env \<Rightarrow> charge_body \<Rightarrow> string \<Rightarrow> int \<Rightarrow> lss_db \<Rightarrow> charge_out \<times> lss_db" where
  "capture env body request_id payment_id db =
     (let db1 = finalize ''captured'' payment_id (others env 7 db) in
      case apply_via_servicing (net env) (own_token env) (servicing_token env)
             (cb_loan_id body) payment_id (others env 8 db1) of
        (ok, db2) \<Rightarrow>
          (let status = (if ok then ''captured'' else ''captured_unapplied'')
           in (\<lparr>co_payment_id = Some payment_id, co_loan_id = cb_loan_id body, co_status = status,
                co_applied_amount = (if ok then cb_amount body else 0),
                co_request_id = request_id, co_idempotency = Claimed\<rparr>,
               if ok then db2 else finalize status payment_id (others env 9 db2))))"

definition charge ::
  "charge_env \<Rightarrow> charge_body \<Rightarrow> string option \<Rightarrow> string option \<Rightarrow> lss_db \<Rightarrow>
   (internal_error + charge_out) \<times> lss_db" where
  "charge env body request_id idempotency_key db =
     (case idempotency_key of
        None \<Rightarrow> (Inl Missing_key, db)
      | Some key \<Rightarrow>
          if key = '''' then (Inl Missing_key, db)
          else
            (let rid = new_request_id (fresh_hex env) request_id in
             case amount_minor_of (cb_amount body) of
               None \<Rightarrow> (Inl Invalid_amount, db)
             | Some amount_minor \<Rightarrow>
                 (case claim_or_branch (others env) (payment_idempotency_ttl_hours (ttl_raw env))
                         (charge_request (sha env) key body amount_minor) db of
                    (Inl e, db1) \<Rightarrow> (Inl e, db1)
                  | (Inr (Claimed, Some payment_id, _), db1) \<Rightarrow>
                      (case capture env body rid payment_id db1 of (out, db2) \<Rightarrow> (Inr out, db2))
                  | (Inr b, db1) \<Rightarrow> (Inr (not_captured (cb_loan_id body) rid b), db1))))"

end
