(* ===== verification/PaymentSteps.thy ===== *)
theory PaymentSteps
  imports Payments
begin

text \<open>
  The shared payments and balances tables under any interleaving of statements: a step relation
  with one rule per statement the two services issue, the invariants every step keeps, and the
  simulation lemmas that every run of a handler, with any other sessions between its own
  statements, is a path of that relation.
\<close>

section \<open>Steps\<close>

inductive lss_step :: "lss_db \<Rightarrow> lss_db \<Rightarrow> bool" where
  step_claim: "0 < ttl \<Longrightarrow> lss_step db (snd (claim ttl rq db))"
| step_retire: "lss_step db (snd (retire key db))"
| step_finalize: "s \<in> {''captured'', ''captured_unapplied''} \<Longrightarrow> lss_step db (finalize s i db)"
| step_apply: "lss_step db (snd (apply_sql l i db))"
| step_balance: "lss_step db (db\<lparr>balances := b\<rparr>)"
| step_boarding: "lss_step db (db\<lparr>loan_ids := ls\<rparr>)"
| step_clock: "clock db \<le> t \<Longrightarrow> lss_step db (db\<lparr>clock := t\<rparr>)"

abbreviation lss_path :: "lss_db \<Rightarrow> lss_db \<Rightarrow> bool" where
  "lss_path \<equiv> lss_step\<^sup>*\<^sup>*"

text \<open>What a handler relies on of the other sessions: they too move by steps.\<close>

definition well_behaved :: "(nat \<Rightarrow> lss_db \<Rightarrow> lss_db) \<Rightarrow> bool" where
  "well_behaved w \<longleftrightarrow> (\<forall>n d. lss_path d (w n d))"

lemma well_behavedD: "well_behaved w \<Longrightarrow> lss_path d (w n d)"
  by (simp add: well_behaved_def)

lemma well_behaved_idle [simp]: "well_behaved (\<lambda>_ d. d)"
  by (simp add: well_behaved_def)

inductive_simps lss_step_simps: "lss_step db db'"

section \<open>Invariants\<close>

definition store_ok :: "lss_db \<Rightarrow> bool" where
  "store_ok db \<longleftrightarrow>
     distinct (map p_id (payments db)) \<and> (\<forall>p \<in> set (payments db). p_id p < next_id db) \<and>
     (\<forall>p \<in> set (payments db). \<forall>q \<in> set (payments db).
        p_key p = p_key q \<longrightarrow> p_key p \<noteq> None \<longrightarrow> p = q)"

definition written_statuses :: "lss_db \<Rightarrow> bool" where
  "written_statuses db \<longleftrightarrow>
     (\<forall>p \<in> set (payments db).
        p_status p \<in> {''processing'', ''captured'', ''captured_unapplied''})"

definition tables_ok :: "lss_db \<Rightarrow> bool" where
  "tables_ok db \<longleftrightarrow> store_ok db \<and> ledger_ok db \<and>
     (\<forall>a \<in> set (applied db). a_payment_id a \<in> p_id ` set (payments db))"

text \<open>Effects of the statements on the payments table.\<close>

lemma claim_cases:
  obtains (won) "claim ttl rq db = (Inr (Some (next_id db)),
      db\<lparr>next_id := next_id db + 1, payments := payments db @ [new_row ttl rq db]\<rparr>)"
    "\<And>p. p \<in> set (payments db) \<Longrightarrow> p_key p \<noteq> Some (rq_key rq)"
    "rq_loan_id rq \<in> set (loan_ids db)"
  | (conflict) "claim ttl rq db = (Inr None, db\<lparr>next_id := next_id db + 1\<rparr>)"
    "\<exists>p \<in> set (payments db). p_key p = Some (rq_key rq)"
  | (refused) d where "claim ttl rq db = (Inl Database_refused, d)"
    "d = db \<or> d = db\<lparr>next_id := next_id db + 1\<rparr>"
proof (cases "fits_columns rq")
  case False
  then show ?thesis by (intro refused [of db]) (simp_all add: claim_def)
next
  case fits: True
  show ?thesis
  proof (cases "\<exists>p \<in> set (payments db). holds_key (rq_key rq) p")
    case True
    then show ?thesis using fits
      by (intro conflict) (simp_all add: claim_def Let_def holds_key_def)
  next
    case free: False
    show ?thesis
    proof (cases "rq_loan_id rq \<in> set (loan_ids db)")
      case True
      then show ?thesis using fits free
        by (intro won) (auto simp: claim_def Let_def holds_key_def)
    next
      case False
      then show ?thesis using fits free
        by (intro refused [of "db\<lparr>next_id := next_id db + 1\<rparr>"]) (simp_all add: claim_def Let_def)
    qed
  qed
qed

text \<open>Statements that rewrite rows in place keep everything but the key and the status.\<close>

definition same_facts :: "payment_row \<Rightarrow> payment_row \<Rightarrow> bool" where
  "same_facts p q \<longleftrightarrow> p_id q = p_id p \<and> p_loan_id q = p_loan_id p \<and> p_amount q = p_amount p \<and>
     p_amount_minor q = p_amount_minor p \<and> p_expires_at q = p_expires_at p \<and>
     p_fingerprint q = p_fingerprint p \<and> p_pan q = p_pan p \<and> p_method q = p_method p"

lemma same_facts_refl [simp]: "same_facts p p"
  by (simp add: same_facts_def)

lemma retire_row: "same_facts p (if c then p\<lparr>p_key := None\<rparr> else p)"
  by (simp add: same_facts_def)

lemma finalize_row: "same_facts p (if c then p\<lparr>p_status := s\<rparr> else p)"
  by (simp add: same_facts_def)

lemma ledger_ok_map:
  assumes f: "\<And>p. same_facts p (f p)" and pay: "payments db' = map f (payments db)"
    and app: "applied db' = applied db" and ok: "ledger_ok db"
  shows "ledger_ok db'"
proof -
  have "payment_by_id db' i = map_option f (payment_by_id db i)" for i
    unfolding payment_by_id_def pay using f by (intro find_map_upd) (simp add: same_facts_def)
  then have "application_ok db a \<Longrightarrow> application_ok db' a" for a
    using f by (auto simp: application_ok_def same_facts_def)
  then show ?thesis using ok by (auto simp: ledger_ok_def app)
qed

lemma ledger_ok_append:
  assumes pay: "payments db' = payments db @ ps" and app: "applied db' = applied db"
    and ok: "ledger_ok db"
  shows "ledger_ok db'"
proof -
  have "payment_by_id db i = Some p \<Longrightarrow> payment_by_id db' i = Some p" for i p
    unfolding payment_by_id_def pay find_append by simp
  then have "application_ok db a \<Longrightarrow> application_ok db' a" for a
    by (auto simp: application_ok_def)
  then show ?thesis using ok by (auto simp: ledger_ok_def app)
qed

section \<open>The interface of a table invariant\<close>

text \<open>
  A property of the tables that every statement keeps holds along every path, whatever the
  interleaving; the invariants below are its instances.
\<close>

locale step_invariant =
  fixes good :: "lss_db \<Rightarrow> bool"
  assumes step: "lss_step db db' \<Longrightarrow> good db \<Longrightarrow> good db'"
begin

lemma path: "lss_path db db' \<Longrightarrow> good db \<Longrightarrow> good db'"
  by (induction rule: rtranclp_induct) (auto intro: step)

lemma others: "well_behaved w \<Longrightarrow> good db \<Longrightarrow> good (w n db)"
  using path well_behavedD by blast

end

lemma store_ok_map:
  assumes f: "\<And>p. same_facts p (f p)" and k: "\<And>p. p_key (f p) = p_key p \<or> p_key (f p) = None"
    and pay: "payments db' = map f (payments db)" and nxt: "next_id db' = next_id db"
    and ok: "store_ok db"
  shows "store_ok db'"
proof -
  have ids: "p_id (f p) = p_id p" for p using f [of p] by (simp add: same_facts_def)
  have m: "map p_id (payments db') = map p_id (payments db)" by (simp add: pay ids)
  have lt: "\<forall>p \<in> set (payments db'). p_id p < next_id db'"
    using ok by (auto simp: store_ok_def pay nxt ids)
  have keys: "p = q" if pq: "p \<in> set (payments db')" "q \<in> set (payments db')"
    "p_key p = p_key q" "p_key p \<noteq> None" for p q
  proof -
    obtain p0 q0 where o: "p0 \<in> set (payments db)" "p = f p0" "q0 \<in> set (payments db)" "q = f q0"
      using pq(1,2) by (auto simp: pay)
    then have "p_key p0 = p_key q0" "p_key p0 \<noteq> None" using pq(3,4) k [of p0] k [of q0] by auto
    with o show ?thesis using ok unfolding store_ok_def by metis
  qed
  have "distinct (map p_id (payments db'))" using ok unfolding m by (simp add: store_ok_def)
  then show ?thesis unfolding store_ok_def using lt keys by blast
qed

lemma store_ok_cong:
  "payments db' = payments db \<Longrightarrow> next_id db \<le> next_id db' \<Longrightarrow> store_ok db \<Longrightarrow> store_ok db'"
  by (force simp: store_ok_def)

lemma store_ok_claim:
  assumes "store_ok db"
  shows "store_ok (snd (claim ttl rq db))"
proof (cases rule: claim_cases [of ttl rq db])
  case won
  let ?db = "snd (claim ttl rq db)"
  have pay: "payments ?db = payments db @ [new_row ttl rq db]" "next_id ?db = next_id db + 1"
    unfolding won(1) by simp_all
  have n: "p_id (new_row ttl rq db) = next_id db" "p_key (new_row ttl rq db) = Some (rq_key rq)"
    by (simp_all add: new_row_def)
  have lt: "p \<in> set (payments db) \<Longrightarrow> p_id p < next_id db" for p
    using assms by (simp add: store_ok_def)
  have "next_id db \<notin> p_id ` set (payments db)" using lt by fastforce
  then show ?thesis
    using assms won(2) lt unfolding store_ok_def pay
    by (auto simp: n intro: less_imp_le)
next
  case conflict
  then show ?thesis using assms by (intro store_ok_cong [OF _ _ assms]) simp_all
next
  case (refused d)
  then show ?thesis using assms by (intro store_ok_cong [OF _ _ assms]) auto
qed

lemma payments_retire:
  "payments (snd (retire key db)) =
     map (\<lambda>p. if retirable key db p then p\<lparr>p_key := None\<rparr> else p) (payments db)"
  by (simp add: retire_def)

lemma retire_frame [simp]:
  "applied (snd (retire key db)) = applied db" "next_id (snd (retire key db)) = next_id db"
  "clock (snd (retire key db)) = clock db" "balances (snd (retire key db)) = balances db"
  "loan_ids (snd (retire key db)) = loan_ids db"
  by (simp_all add: retire_def)

lemma finalize_frame [simp]:
  "applied (finalize s i db) = applied db" "next_id (finalize s i db) = next_id db"
  "clock (finalize s i db) = clock db" "balances (finalize s i db) = balances db"
  "loan_ids (finalize s i db) = loan_ids db"
  by (simp_all add: finalize_def)

lemma payments_finalize:
  "payments (finalize s i db) =
     map (\<lambda>p. if p_id p = i then p\<lparr>p_status := s\<rparr> else p) (payments db)"
  by (simp add: finalize_def)

lemma apply_sql_snd_frame [simp]:
  "payments (snd (apply_sql l i db)) = payments db" "next_id (snd (apply_sql l i db)) = next_id db"
  "clock (snd (apply_sql l i db)) = clock db" "loan_ids (snd (apply_sql l i db)) = loan_ids db"
  using apply_sql_frame [of l i db] by (metis prod.collapse)+

interpretation store: step_invariant store_ok
proof
  fix db db' assume "lss_step db db'" "store_ok db"
  then show "store_ok db'"
  proof (cases rule: lss_step.cases)
    case (step_retire key)
    show ?thesis unfolding step_retire
      by (rule store_ok_map [OF retire_row _ payments_retire _ \<open>store_ok db\<close>]) simp_all
  next
    case (step_finalize s i)
    show ?thesis unfolding step_finalize(1)
      by (rule store_ok_map [OF finalize_row _ payments_finalize _ \<open>store_ok db\<close>]) simp_all
  qed (simp_all add: store_ok_claim store_ok_cong [OF _ _ \<open>store_ok db\<close>])
qed

lemma written_map:
  assumes "\<And>p. p_status (f p) \<in> {p_status p, ''captured'', ''captured_unapplied''}"
    and "payments db' = map f (payments db)" and "written_statuses db"
  shows "written_statuses db'"
  unfolding written_statuses_def
proof
  fix q assume "q \<in> set (payments db')"
  then obtain p where "p \<in> set (payments db)" "q = f p" using assms(2) by auto
  then show "p_status q \<in> {''processing'', ''captured'', ''captured_unapplied''}"
    using assms(1) [of p] assms(3) unfolding written_statuses_def by auto
qed

interpretation statuses: step_invariant written_statuses
proof
  fix db db' assume "lss_step db db'" "written_statuses db"
  then show "written_statuses db'"
  proof (cases rule: lss_step.cases)
    case (step_claim ttl rq)
    then show ?thesis using \<open>written_statuses db\<close>
      by (cases rule: claim_cases [of ttl rq db]) (auto simp: written_statuses_def new_row_def)
  next
    case (step_retire key)
    show ?thesis unfolding step_retire
      by (rule written_map [OF _ payments_retire \<open>written_statuses db\<close>]) simp
  next
    case (step_finalize s i)
    show ?thesis unfolding step_finalize(1)
      by (rule written_map [OF _ payments_finalize \<open>written_statuses db\<close>]) (use step_finalize in auto)
  qed (simp_all add: written_statuses_def)
qed

lemma ledger_ok_claim: "ledger_ok db \<Longrightarrow> ledger_ok (snd (claim ttl rq db))"
  by (cases rule: claim_cases [of ttl rq db])
    (auto intro: ledger_ok_append [of _ db "[new_row ttl rq db]"] ledger_ok_append [of _ db "[]"])

interpretation ledger: step_invariant ledger_ok
proof
  fix db db' assume "lss_step db db'" "ledger_ok db"
  then show "ledger_ok db'"
  proof (cases rule: lss_step.cases)
    case (step_claim ttl rq)
    then show ?thesis using \<open>ledger_ok db\<close> ledger_ok_claim by simp
  next
    case (step_retire key)
    show ?thesis unfolding step_retire
      by (rule ledger_ok_map [OF retire_row payments_retire _ \<open>ledger_ok db\<close>]) simp
  next
    case (step_finalize s i)
    show ?thesis unfolding step_finalize(1)
      by (rule ledger_ok_map [OF finalize_row payments_finalize _ \<open>ledger_ok db\<close>]) simp
  next
    case (step_apply l i)
    then show ?thesis using ledger_ok_apply [OF \<open>ledger_ok db\<close>] by (simp add: apply_payment_db)
  next
    case (step_balance b)
    then show ?thesis using \<open>ledger_ok db\<close> ledger_ok_cong [of db' db] by simp
  next
    case (step_boarding ls)
    then show ?thesis using \<open>ledger_ok db\<close> ledger_ok_cong [of db' db] by simp
  next
    case (step_clock t)
    then show ?thesis using \<open>ledger_ok db\<close> ledger_ok_cong [of db' db] by simp
  qed
qed

section \<open>A key and the row that holds it\<close>

text \<open>
  Row \<open>i\<close>, stamped to expire at \<open>e\<close>, still holds key \<open>k\<close>; or it gave the key up, past its
  window and with its money recorded as applied.
\<close>

definition key_history :: "string \<Rightarrow> int \<Rightarrow> int \<Rightarrow> lss_db \<Rightarrow> bool" where
  "key_history k i e db \<longleftrightarrow> store_ok db \<and> written_statuses db \<and>
     (\<exists>p \<in> set (payments db). p_id p = i \<and> p_expires_at p = Some e \<and>
        (p_key p = Some k \<or>
         p_key p = None \<and> e \<le> clock db \<and> i \<in> a_payment_id ` set (applied db)))"

lemma applied_grows: "set (applied db) \<subseteq> set (applied (snd (apply_sql l i db)))"
  by (cases rule: apply_sql_cases [of l i db]) auto

lemma retired_was_applied:
  assumes "written_statuses db" "p \<in> set (payments db)" "retirable key db p" "p_expires_at p = Some e"
  shows "e \<le> clock db \<and> p_id p \<in> a_payment_id ` set (applied db)"
proof -
  have "p_status p \<in> {''processing'', ''captured'', ''captured_unapplied''}"
    using assms(1,2) by (simp add: written_statuses_def)
  then have "p_status p = ''captured''"
    using assms(3) by (auto simp: retirable_def retirable_statuses_def)
  then have "\<exists>a \<in> set (applied db). a_payment_id a = p_id p" "e \<le> clock db"
    using assms(3,4) by (auto simp: retirable_def expired_at_def)
  then show ?thesis by (metis image_eqI)
qed

definition carried :: "lss_db \<Rightarrow> payment_row \<Rightarrow> payment_row \<Rightarrow> bool" where
  "carried db' p q \<longleftrightarrow> same_facts p q \<and>
     (p_key q = p_key p \<or>
      p_key q = None \<and> (\<forall>e. p_expires_at p = Some e \<longrightarrow>
        e \<le> clock db' \<and> p_id p \<in> a_payment_id ` set (applied db')))"

lemma carried_refl [simp]: "carried db' p p"
  by (simp add: carried_def)

lemma key_history_row:
  assumes st: "store_ok db'" "written_statuses db'"
    and rows: "\<And>p. p \<in> set (payments db) \<Longrightarrow> \<exists>q \<in> set (payments db'). carried db' p q"
    and mono: "clock db \<le> clock db'" "set (applied db) \<subseteq> set (applied db')"
    and kh: "key_history k i e db"
  shows "key_history k i e db'"
proof -
  obtain p where p: "p \<in> set (payments db)" "p_id p = i" "p_expires_at p = Some e"
    and old: "p_key p = Some k \<or>
         p_key p = None \<and> e \<le> clock db \<and> i \<in> a_payment_id ` set (applied db)"
    using kh unfolding key_history_def by blast
  obtain q where q: "q \<in> set (payments db')" "same_facts p q"
    and new: "p_key q = p_key p \<or> p_key q = None \<and> (\<forall>e. p_expires_at p = Some e \<longrightarrow>
            e \<le> clock db' \<and> p_id p \<in> a_payment_id ` set (applied db'))"
    using rows [OF p(1)] unfolding carried_def by blast
  have "p_key q = Some k \<or> p_key q = None \<and> e \<le> clock db' \<and> i \<in> a_payment_id ` set (applied db')"
    using new
  proof
    assume "p_key q = p_key p"
    then show ?thesis using old mono by (auto dest: image_mono [of _ _ a_payment_id])
  qed (use p in simp)
  moreover have "p_id q = i" "p_expires_at q = Some e" using q(2) p by (simp_all add: same_facts_def)
  ultimately show ?thesis unfolding key_history_def using st q(1) by blast
qed

interpretation history: step_invariant "key_history k i e" for k i e
proof
  fix db db' assume st: "lss_step db db'" and kh: "key_history k i e db"
  have ok: "store_ok db'" "written_statuses db'" and w: "written_statuses db"
    using kh store.step [OF st] statuses.step [OF st] by (simp_all add: key_history_def)
  note row = key_history_row [OF ok _ _ _ kh]
  show "key_history k i e db'" using st
  proof (cases rule: lss_step.cases)
    case (step_claim ttl rq)
    show ?thesis
    proof (rule row)
      show "\<And>p. p \<in> set (payments db) \<Longrightarrow> \<exists>q \<in> set (payments db'). carried db' p q"
        unfolding step_claim by (cases rule: claim_cases [of ttl rq db]) force+
    qed (use step_claim in \<open>cases rule: claim_cases [of ttl rq db]; force\<close>)+
  next
    case (step_retire key)
    show ?thesis
    proof (rule row)
      fix p assume p: "p \<in> set (payments db)"
      let ?q = "if retirable key db p then p\<lparr>p_key := None\<rparr> else p"
      have "?q \<in> set (payments db')" using p unfolding step_retire payments_retire by auto
      moreover have "carried db' p ?q"
        using retired_was_applied [OF w p] step_retire by (auto simp: carried_def same_facts_def)
      ultimately show "\<exists>q \<in> set (payments db'). carried db' p q" by blast
    qed (simp_all add: step_retire)
  next
    case (step_finalize s j)
    show ?thesis
    proof (rule row)
      fix p assume p: "p \<in> set (payments db)"
      let ?q = "if p_id p = j then p\<lparr>p_status := s\<rparr> else p"
      have "?q \<in> set (payments db')" using p unfolding step_finalize(1) payments_finalize by auto
      moreover have "carried db' p ?q" by (simp add: carried_def same_facts_def)
      ultimately show "\<exists>q \<in> set (payments db'). carried db' p q" by blast
    qed (simp_all add: step_finalize)
  next
    case (step_apply l j)
    show ?thesis
      by (rule row) (use step_apply applied_grows [of db l j] in \<open>auto intro: carried_refl\<close>)
  qed (rule row; force)+
qed

section \<open>Handlers are paths\<close>

lemma claim_path: "0 < ttl \<Longrightarrow> claim ttl rq db = (r, db') \<Longrightarrow> lss_path db db'"
  using step_claim [of ttl db rq] by auto

lemma retire_path: "retire key db = (r, db') \<Longrightarrow> lss_path db db'"
  using step_retire [of db key] by auto

lemma finalize_path: "s \<in> {''captured'', ''captured_unapplied''} \<Longrightarrow> lss_path db (finalize s i db)"
  using step_finalize by blast

lemma apply_payment_path: "apply_payment l i db = (r, db') \<Longrightarrow> lss_path db db'"
  using step_apply [of db l i] apply_payment_db [of l i db] by auto

lemma apply_route_path: "apply_payment_route tok s l i db = (r, db') \<Longrightarrow> lss_path db db'"
  using apply_payment_path [of l i db]
  by (auto simp: apply_payment_route_def split: sum.splits prod.splits)

lemmas path_trans [trans] = rtranclp_trans [of lss_step]

text \<open>
  What a run of the claim logic leaves: it was a path, and a won key was won by one insert as
  its last statement.
\<close>

definition won_by_insert ::
  "int \<Rightarrow> charge_req \<Rightarrow> lss_db \<Rightarrow> (internal_error + branch_result) \<times> lss_db \<Rightarrow> bool" where
  "won_by_insert ttl rq db res \<longleftrightarrow> lss_path db (snd res) \<and>
     (\<forall>i x. fst res = Inr (Claimed, i, x) \<longrightarrow>
        (\<exists>d j. i = Some j \<and> lss_path db d \<and> claim ttl rq d = (Inr (Some j), snd res)))"

lemma answer_not_claimed [simp]: "answer_live fp p \<noteq> (Claimed, i, x)" "reread rq p d \<noteq> (Claimed, i, x)"
  by (simp_all add: answer_live_def reread_def)

lemma won_by_insertI:
  assumes "lss_path db d" "\<And>i x. r \<noteq> Inr (Claimed, i, x)"
  shows "won_by_insert ttl rq db (r, d)"
  using assms by (simp add: won_by_insert_def)

lemma won_by_claim:
  assumes "0 < ttl" "lss_path db d" "claim ttl rq d = (Inr (Some j), d')"
  shows "won_by_insert ttl rq db (Inr (Claimed, Some j, x), d')"
  using assms claim_path [OF assms(1,3)] by (auto simp: won_by_insert_def intro: rtranclp_trans)

lemma branch_existing_won:
  assumes w: "well_behaved w" and ttl: "0 < ttl" and db: "lss_path db0 db"
  shows "won_by_insert ttl rq db0 (branch_existing w ttl rq found db)"
proof (cases "snd found \<and> p_status (fst found) \<in> set terminal_statuses")
  case False
  then show ?thesis using db
    by (auto simp: branch_existing_def case_prod_unfold intro!: won_by_insertI)
next
  case True
  obtain moved d1 where r: "retire (rq_key rq) (w 4 db) = (moved, d1)" by fastforce
  have p1: "lss_path db0 d1"
    using db well_behavedD [OF w] retire_path [OF r] by (meson rtranclp_trans)
  show ?thesis
  proof (cases moved)
    case False
    have "lss_path db0 (w 6 d1)" using p1 well_behavedD [OF w] by (meson rtranclp_trans)
    then show ?thesis using True r False
      by (auto simp: branch_existing_def case_prod_unfold Let_def intro!: won_by_insertI)
  next
    case moved: True
    obtain c d2 where c: "claim ttl rq (w 5 d1) = (c, d2)" by fastforce
    have p5: "lss_path db0 (w 5 d1)" using p1 well_behavedD [OF w] by (meson rtranclp_trans)
    have p2: "lss_path db0 d2" using p5 claim_path [OF ttl c] by (meson rtranclp_trans)
    have p6: "lss_path db0 (w 6 d2)" using p2 well_behavedD [OF w] by (meson rtranclp_trans)
    have b: "branch_existing w ttl rq found db =
        (case c of Inl e \<Rightarrow> (Inl e, d2)
         | Inr (Some i) \<Rightarrow> (Inr (Claimed, Some i, None), d2)
         | Inr None \<Rightarrow> (Inr (reread rq (fst found) (w 6 d2)), w 6 d2))"
      using True r moved c
      by (auto simp: branch_existing_def case_prod_unfold Let_def split: sum.split option.split)
    show ?thesis unfolding b using c won_by_claim [OF ttl p5] p2 p6
      by (auto intro!: won_by_insertI split: sum.split option.split)
  qed
qed

lemma claim_or_branch_won:
  assumes w: "well_behaved w" and ttl: "0 < ttl"
  shows "won_by_insert ttl rq db (claim_or_branch w ttl rq db)"
proof -
  obtain c d1 where c: "claim ttl rq (w 0 db) = (c, d1)" by fastforce
  have p0: "lss_path db (w 0 db)" using well_behavedD [OF w] .
  have p1: "lss_path db d1" using p0 claim_path [OF ttl c] by (meson rtranclp_trans)
  have p2: "lss_path db (w 1 d1)" using p1 well_behavedD [OF w] by (meson rtranclp_trans)
  obtain c' d3 where c': "claim ttl rq (w 2 (w 1 d1)) = (c', d3)" by fastforce
  have p3: "lss_path db (w 2 (w 1 d1))" using p2 well_behavedD [OF w] by (meson rtranclp_trans)
  have p4: "lss_path db d3" using p3 claim_path [OF ttl c'] by (meson rtranclp_trans)
  have p5: "lss_path db (w 3 d3)" using p4 well_behavedD [OF w] by (meson rtranclp_trans)
  show ?thesis
    unfolding claim_or_branch_def c Let_def
    using won_by_claim [OF ttl p0] won_by_claim [OF ttl p3] c c' p1 p4 p5
      branch_existing_won [OF w ttl p2] branch_existing_won [OF w ttl p5]
    by (auto intro!: won_by_insertI split: sum.split option.split prod.split)
qed

lemma ttl_pos: "0 < payment_idempotency_ttl_hours raw"
  by (simp add: payment_idempotency_ttl_hours_def split: option.split)

lemma apply_via_path: "apply_via_servicing n tok stok l i db = (ok, db') \<Longrightarrow> lss_path db db'"
  using apply_route_path [of stok "Some tok" l i db]
  by (auto simp: apply_via_servicing_def split: delivery.splits prod.splits)
    (metis prod.collapse)

lemma capture_path:
  assumes w: "well_behaved (others env)" and c: "capture env body rid i db = (out, db')"
  shows "lss_path db db'"
proof -
  let ?d1 = "finalize ''captured'' i (others env 7 db)"
  obtain ok d2 where a: "apply_via_servicing (net env) (own_token env) (servicing_token env)
      (cb_loan_id body) i (others env 8 ?d1) = (ok, d2)" by fastforce
  have "lss_path db ?d1" using well_behavedD [OF w] finalize_path by (meson insertI1 rtranclp_trans)
  then have p2: "lss_path db d2"
    using well_behavedD [OF w] apply_via_path [OF a] by (meson rtranclp_trans)
  have "db' = (if ok then d2 else finalize ''captured_unapplied'' i (others env 9 d2))"
    using c a by (auto simp: capture_def Let_def)
  moreover have "lss_path db (finalize ''captured_unapplied'' i (others env 9 d2))"
    using p2 well_behavedD [OF w] finalize_path by (meson insertI1 insertI2 rtranclp_trans)
  ultimately show ?thesis using p2 by simp
qed

text \<open>A charge call: a path, and a captured one owns the row its claim inserted.\<close>

lemma charge_run:
  assumes w: "well_behaved (others env)"
    and c: "charge env body request_id (Some key) db = (res, db')"
  shows "lss_path db db'"
    and "res = Inr out \<Longrightarrow> co_idempotency out = Claimed \<Longrightarrow>
      \<exists>d d' j m. co_payment_id out = Some j \<and> lss_path db d \<and> lss_path d' db' \<and>
        claim (payment_idempotency_ttl_hours (ttl_raw env))
          (charge_request (sha env) key body m) d = (Inr (Some j), d')"
proof -
  let ?ttl = "payment_idempotency_ttl_hours (ttl_raw env)"
  have "lss_path db db' \<and> (res = Inr out \<longrightarrow> co_idempotency out = Claimed \<longrightarrow>
      (\<exists>d d' j m. co_payment_id out = Some j \<and> lss_path db d \<and> lss_path d' db' \<and>
        claim ?ttl (charge_request (sha env) key body m) d = (Inr (Some j), d')))"
  proof (cases "key = '''' \<or> amount_minor_of (cb_amount body) = None")
    case True
    then show ?thesis using c by (auto simp: charge_def Let_def split: if_splits option.splits)
  next
    case False
    then obtain m where m: "amount_minor_of (cb_amount body) = Some m" by blast
    let ?rq = "charge_request (sha env) key body m"
    obtain r d1 where b: "claim_or_branch (others env) ?ttl ?rq db = (r, d1)" by fastforce
    have won: "won_by_insert ?ttl ?rq db (r, d1)"
      using claim_or_branch_won [OF w ttl_pos] b by metis
    have c': "(res, db') = (case r of Inl e \<Rightarrow> (Inl e, d1)
        | Inr (Claimed, Some i, _) \<Rightarrow>
            (case capture env body (new_request_id (fresh_hex env) request_id) i d1 of
               (out, db2) \<Rightarrow> (Inr out, db2))
        | Inr b \<Rightarrow> (Inr (not_captured (cb_loan_id body)
            (new_request_id (fresh_hex env) request_id) b), d1))"
      using c False m b
      by (auto simp: charge_def Let_def split: sum.split option.split prod.split outcome.split)
    show ?thesis
    proof (cases "\<exists>i x. r = Inr (Claimed, i, x)")
      case True
      then obtain d j x where r: "r = Inr (Claimed, Some j, x)"
        and d: "lss_path db d" "claim ?ttl ?rq d = (Inr (Some j), d1)"
        using won by (auto simp: won_by_insert_def)
      obtain o' d2 where cap: "capture env body (new_request_id (fresh_hex env) request_id) j d1 =
          (o', d2)" by fastforce
      have res: "res = Inr o'" "db' = d2" using c' r cap by simp_all
      have "lss_path d1 db'" using capture_path [OF w cap] res by simp
      moreover have "co_payment_id o' = Some j"
        using cap by (auto simp: capture_def Let_def split: prod.splits)
      moreover have "lss_path db d1" using won by (simp add: won_by_insert_def)
      ultimately show ?thesis using res d by (auto intro: rtranclp_trans)
    next
      case no: False
      show ?thesis
      proof (cases r)
        case (Inl e)
        then show ?thesis using c' won by (simp add: won_by_insert_def)
      next
        case (Inr b)
        obtain oc pid ex where b3: "b = (oc, pid, ex)" by (cases b)
        have oc: "oc \<noteq> Claimed" using no Inr b3 by blast
        then have "res = Inr (not_captured (cb_loan_id body)
            (new_request_id (fresh_hex env) request_id) b)" "db' = d1"
          using c' Inr b3 by (cases oc; simp)+
        then show ?thesis using won oc b3 by (auto simp: won_by_insert_def not_captured_def)
      qed
    qed
  qed
  then show "lss_path db db'"
    and "res = Inr out \<Longrightarrow> co_idempotency out = Claimed \<Longrightarrow>
      \<exists>d d' j m. co_payment_id out = Some j \<and> lss_path db d \<and> lss_path d' db' \<and>
        claim ?ttl (charge_request (sha env) key body m) d = (Inr (Some j), d')"
    by blast+
qed

lemma clock_step:
  assumes "lss_step db db'"
  shows "clock db \<le> clock db'"
  using assms
proof (cases rule: lss_step.cases)
  case (step_claim ttl rq)
  then show ?thesis by (cases rule: claim_cases [of ttl rq db]) auto
qed simp_all

lemma applied_step:
  assumes "lss_step db db'"
  shows "set (applied db) \<subseteq> set (applied db')"
  using assms
proof (cases rule: lss_step.cases)
  case (step_claim ttl rq)
  then show ?thesis by (cases rule: claim_cases [of ttl rq db]) auto
qed (simp_all add: applied_grows)

interpretation clock_after: step_invariant "\<lambda>db. t \<le> clock db" for t
  by unfold_locales (meson clock_step order_trans)

interpretation applied_has: step_invariant "\<lambda>db. i \<in> a_payment_id ` set (applied db)" for i
  by unfold_locales (meson applied_step image_mono subsetD)

section \<open>Properties\<close>

text \<open>C1. At most one capture per key: while a payment row holds a key, a charge under that key
  captures again only if, in the interleaving that happened, that row's window had passed and
  its money was recorded as applied to its loan. This holds whatever other sessions run between
  the statements of the call, expired windows, retirements and races included.\<close>

theorem second_capture_only_after_credit:
  assumes w: "well_behaved (others env)" and ok: "store_ok db" "written_statuses db"
    and p: "p \<in> set (payments db)" "p_key p = Some key" "p_expires_at p = Some e"
    and c: "charge env body request_id (Some key) db = (Inr out, db')"
    and won: "co_idempotency out = Claimed"
  shows "e \<le> clock db' \<and> p_id p \<in> a_payment_id ` set (applied db') \<and>
         co_payment_id out \<noteq> Some (p_id p)"
proof -
  obtain d d' j m where j: "co_payment_id out = Some j" "lss_path db d" "lss_path d' db'"
    and cl: "claim (payment_idempotency_ttl_hours (ttl_raw env))
          (charge_request (sha env) key body m) d = (Inr (Some j), d')"
    using charge_run(2) [OF w c refl won] by blast
  have "key_history key (p_id p) e db" using ok p by (auto simp: key_history_def)
  then have h: "key_history key (p_id p) e d" by (rule history.path [OF j(2)])
  have free: "\<And>q. q \<in> set (payments d) \<Longrightarrow> p_key q \<noteq> Some key" and jd: "j = next_id d"
    using cl by (cases rule: claim_cases [of "payment_idempotency_ttl_hours (ttl_raw env)"
        "charge_request (sha env) key body m" d]; simp add: charge_request_def)+
  obtain q where q: "q \<in> set (payments d)" "p_id q = p_id p" "e \<le> clock d"
    "p_id p \<in> a_payment_id ` set (applied d)"
    using h free unfolding key_history_def by blast
  have dp: "lss_path d db'" using claim_path [OF ttl_pos cl] j(3) by (rule rtranclp_trans)
  have "p_id q < next_id d" using h q(1) by (simp add: key_history_def store_ok_def)
  then show ?thesis
    using clock_after.path [OF dp q(3)] applied_has.path [OF dp q(4)] j(1) jd q(2) by auto
qed

text \<open>The tables stay sound under concurrency: a charge call, interleaved with any other
  sessions, keeps payment ids and live keys unique and keeps every application the only one of
  its payment, carrying that payment's own loan and amount.\<close>

theorem charge_keeps_tables_sound:
  assumes "well_behaved (others env)" "store_ok db" "ledger_ok db"
  shows "store_ok (snd (charge env body request_id (Some key) db)) \<and>
         ledger_ok (snd (charge env body request_id (Some key) db))"
proof -
  have "lss_path db (snd (charge env body request_id (Some key) db))"
    using charge_run(1) [OF assms(1)] by (metis prod.collapse)
  then show ?thesis using assms store.path ledger.path by blast
qed

section \<open>One caller, start to finish\<close>

text \<open>The tables a first, undisturbed and applied charge leaves.\<close>

definition after_capture :: "int \<Rightarrow> charge_req \<Rightarrow> lss_db \<Rightarrow> lss_db" where
  "after_capture ttl rq db =
     (let b = the (balances db (rq_loan_id rq)) in
      db\<lparr>next_id := next_id db + 1,
         payments := payments db @ [(new_row ttl rq db)\<lparr>p_status := ''captured''\<rparr>],
         balances := (balances db)(rq_loan_id rq \<mapsto>
           b\<lparr>balance := credit (rq_amount_minor rq) (balance b)\<rparr>),
         applied := applied db @ [\<lparr>a_loan_id = rq_loan_id rq, a_payment_id = next_id db,
           a_amount_minor = rq_amount_minor rq\<rparr>]\<rparr>)"

definition key_free :: "string \<Rightarrow> lss_db \<Rightarrow> bool" where
  "key_free key db \<longleftrightarrow> (\<forall>p \<in> set (payments db). p_key p \<noteq> Some key)"

lemma claim_free:
  assumes "key_free (rq_key rq) db" "rq_loan_id rq \<in> set (loan_ids db)" "fits_columns rq"
  shows "claim ttl rq db = (Inr (Some (next_id db)),
      db\<lparr>next_id := next_id db + 1, payments := payments db @ [new_row ttl rq db]\<rparr>)"
  using assms by (auto simp: claim_def Let_def holds_key_def key_free_def)

lemma finalize_last:
  assumes "store_ok db" "p_id r = next_id db"
  shows "finalize s (next_id db) (db\<lparr>next_id := n, payments := payments db @ [r]\<rparr>) =
     db\<lparr>next_id := n, payments := payments db @ [r\<lparr>p_status := s\<rparr>]\<rparr>"
proof -
  have "p \<in> set (payments db) \<Longrightarrow> p_id p \<noteq> next_id db" for p
    using assms(1) by (auto simp: store_ok_def)
  then have "map (\<lambda>p. if p_id p = next_id db then p\<lparr>p_status := s\<rparr> else p) (payments db) =
      payments db" by (intro map_idI) simp
  then show ?thesis using assms(2) by (simp add: finalize_def)
qed

lemma find_last:
  assumes "store_ok db" "p_id r = next_id db"
  shows "payment_by_id (db\<lparr>next_id := n, payments := payments db @ [r]\<rparr>) (next_id db) = Some r"
proof -
  have "find (\<lambda>p. p_id p = next_id db) (payments db) = None"
    using assms(1) by (auto simp: store_ok_def find_None_iff)
  then show ?thesis using assms(2) by (simp add: payment_by_id_def find_append)
qed

lemma apply_captured:
  fixes rq ttl db
  defines "r \<equiv> (new_row ttl rq db)\<lparr>p_status := ''captured''\<rparr>"
  defines "d \<equiv> db\<lparr>next_id := next_id db + 1, payments := payments db @ [r]\<rparr>"
  assumes ok: "store_ok db" and new: "application_of db (next_id db) = None"
    and b: "balances db (rq_loan_id rq) = Some b"
  shows "apply_payment (rq_loan_id rq) (next_id db) d =
     (Inr (credit (rq_amount_minor rq) (balance b), True), after_capture ttl rq db)"
proof -
  have "payment_by_id d (next_id db) = Some r"
    unfolding d_def by (rule find_last [OF ok]) (simp add: r_def new_row_def)
  then have e: "eligible_amount (rq_loan_id rq) (next_id db) d = Some (rq_amount_minor rq)"
    using b by (simp add: eligible_amount_def r_def d_def new_row_def crediting_statuses_def)
  have a: "application_of d (next_id db) = None" using new by (simp add: application_of_def d_def)
  have s: "apply_sql (rq_loan_id rq) (next_id db) d =
      (Some (credit (rq_amount_minor rq) (balance b)), after_capture ttl rq db)"
    using b unfolding apply_sql_def e a
    by (simp add: d_def r_def after_capture_def Let_def)
  show ?thesis unfolding apply_payment_def s by simp
qed

text \<open>A charge that meets an undisturbed database, and one that meets an equal request's row.\<close>

definition undisturbed :: "charge_env \<Rightarrow> bool" where
  "undisturbed env \<longleftrightarrow> others env = (\<lambda>_ d. d)"

definition reaches_servicing :: "charge_env \<Rightarrow> bool" where
  "reaches_servicing env \<longleftrightarrow>
     net env = Delivered \<and> own_token env = servicing_token env \<and> servicing_token env \<noteq> ''''"

definition chargeable :: "string \<Rightarrow> charge_body \<Rightarrow> int \<Rightarrow> lss_db \<Rightarrow> bool" where
  "chargeable key body m db \<longleftrightarrow>
     key \<noteq> '''' \<and> key_free key db \<and> amount_minor_of (cb_amount body) = Some m \<and>
     - (2 ^ 31) \<le> cb_loan_id body \<and> cb_loan_id body < 2 ^ 31 \<and> - (2 ^ 63) \<le> m \<and> m < 2 ^ 63 \<and>
     cb_loan_id body \<in> set (loan_ids db) \<and> balances db (cb_loan_id body) \<noteq> None \<and>
     store_ok db \<and> application_of db (next_id db) = None"

lemma charge_request_sel [simp]:
  "rq_key (charge_request sh key body m) = key"
  "rq_loan_id (charge_request sh key body m) = cb_loan_id body"
  "rq_amount_minor (charge_request sh key body m) = m"
  "rq_amount (charge_request sh key body m) = cb_amount body"
  by (simp_all add: charge_request_def)

lemma claim_or_branch_free:
  assumes "chargeable key body m db" "undisturbed env"
  shows "claim_or_branch (others env) ttl (charge_request sh key body m) db =
     (Inr (Claimed, Some (next_id db), None),
      db\<lparr>next_id := next_id db + 1,
         payments := payments db @ [new_row ttl (charge_request sh key body m) db]\<rparr>)"
  using assms claim_free [of "charge_request sh key body m" db ttl]
  by (simp add: claim_or_branch_def undisturbed_def chargeable_def fits_columns_def)

lemma charge_first:
  fixes env body key m db
  defines "rq \<equiv> charge_request (sha env) key body m"
  defines "ttl \<equiv> payment_idempotency_ttl_hours (ttl_raw env)"
  assumes ch: "chargeable key body m db" and un: "undisturbed env" and re: "reaches_servicing env"
  shows "charge env body rid (Some key) db =
    (Inr \<lparr>co_payment_id = Some (next_id db), co_loan_id = cb_loan_id body,
          co_status = ''captured'', co_applied_amount = cb_amount body,
          co_request_id = new_request_id (fresh_hex env) rid, co_idempotency = Claimed\<rparr>,
     after_capture ttl rq db)"
proof -
  obtain b where b: "balances db (rq_loan_id rq) = Some b"
    using ch by (auto simp: chargeable_def rq_def)
  have ok: "store_ok db" "application_of db (next_id db) = None"
    using ch by (simp_all add: chargeable_def)
  let ?r = "(new_row ttl rq db)\<lparr>p_status := ''captured''\<rparr>"
  have f: "finalize ''captured'' (next_id db)
       (db\<lparr>next_id := next_id db + 1, payments := payments db @ [new_row ttl rq db]\<rparr>) =
     db\<lparr>next_id := next_id db + 1, payments := payments db @ [?r]\<rparr>"
    by (rule finalize_last [OF ok(1)]) (simp add: new_row_def)
  have a: "apply_payment (cb_loan_id body) (next_id db)
      (db\<lparr>next_id := next_id db + 1, payments := payments db @ [?r]\<rparr>) =
     (Inr (credit m (balance b), True), after_capture ttl rq db)"
    using apply_captured [OF ok b] by (simp add: rq_def)
  have v: "apply_via_servicing (net env) (own_token env) (servicing_token env) (cb_loan_id body)
      (next_id db) (db\<lparr>next_id := next_id db + 1, payments := payments db @ [?r]\<rparr>) =
     (True, after_capture ttl rq db)"
    using re servicing_guard.match [of "servicing_token env"]
    by (simp add: reaches_servicing_def apply_via_servicing_def apply_payment_route_def a is_2xx_def)
  have cap: "capture env body x (next_id db)
      (db\<lparr>next_id := next_id db + 1, payments := payments db @ [new_row ttl rq db]\<rparr>) =
    (\<lparr>co_payment_id = Some (next_id db), co_loan_id = cb_loan_id body,
          co_status = ''captured'', co_applied_amount = cb_amount body,
          co_request_id = x, co_idempotency = Claimed\<rparr>, after_capture ttl rq db)" for x
    using un by (simp add: capture_def Let_def undisturbed_def f v)
  have "key \<noteq> ''''" "amount_minor_of (cb_amount body) = Some m"
    using ch by (simp_all add: chargeable_def)
  then show ?thesis
    using claim_or_branch_free [OF ch un, of ttl "sha env"] cap
    by (simp add: charge_def Let_def rq_def ttl_def)
qed

text \<open>A key whose only row is known, unexpired: the claim conflicts and the row is answered.\<close>

lemma claim_or_branch_live:
  assumes pay: "payments db = ps @ [r]" and free: "\<And>p. p \<in> set ps \<Longrightarrow> p_key p \<noteq> Some (rq_key rq)"
    and r: "p_key r = Some (rq_key rq)" "\<not> expired_at (clock db) r" and fits: "fits_columns rq"
  shows "claim_or_branch (\<lambda>_ d. d) ttl rq db =
    (Inr (answer_live (rq_fingerprint rq) r), db\<lparr>next_id := next_id db + 1\<rparr>)"
proof -
  have c: "claim ttl rq db = (Inr None, db\<lparr>next_id := next_id db + 1\<rparr>)"
    using fits r(1) by (simp add: claim_def Let_def holds_key_def pay)
  have "find (holds_key (rq_key rq)) ps = None" using free by (simp add: find_None_iff holds_key_def)
  then have f: "find (holds_key (rq_key rq)) (payments db) = Some r"
    using r(1) by (simp add: pay find_append holds_key_def)
  then have "read_by_key (rq_key rq) (db\<lparr>next_id := next_id db + 1\<rparr>) = Some (r, False)"
    using r(2) by (simp add: read_by_key_def)
  then show ?thesis by (simp add: claim_or_branch_def c branch_existing_def)
qed

text \<open>C3. A retry inside the window is answered from the row and charges nothing: after a first
  charge that was captured and applied, the same request under the same key, at any later time
  before the window closes, returns the same payment id, status and amount marked as a replay,
  and the tables change in nothing but the id sequence.\<close>

theorem retry_replays_first_charge:
  fixes env env2 body key m db t rid
  defines "db1 \<equiv> (snd (charge env body rid (Some key) db))\<lparr>clock := t\<rparr>"
  assumes ch: "chargeable key body m db" and un: "undisturbed env" "undisturbed env2"
    and re: "reaches_servicing env" and sh: "sha env2 = sha env"
    and t: "t < clock db + 3600 * payment_idempotency_ttl_hours (ttl_raw env)"
  shows "charge env2 body rid2 (Some key) db1 =
    (Inr \<lparr>co_payment_id = Some (next_id db), co_loan_id = cb_loan_id body,
          co_status = ''captured'', co_applied_amount = cb_amount body,
          co_request_id = new_request_id (fresh_hex env2) rid2, co_idempotency = Replay\<rparr>,
     db1\<lparr>next_id := next_id db1 + 1\<rparr>)"
proof -
  let ?rq = "charge_request (sha env) key body m"
  let ?ttl = "payment_idempotency_ttl_hours (ttl_raw env)"
  let ?r = "(new_row ?ttl ?rq db)\<lparr>p_status := ''captured''\<rparr>"
  have db1: "db1 = (after_capture ?ttl ?rq db)\<lparr>clock := t\<rparr>"
    using charge_first [OF ch un(1) re, of rid] by (simp add: db1_def)
  have pay: "payments db1 = payments db @ [?r]" "clock db1 = t"
    by (simp_all add: db1 after_capture_def Let_def)
  have "fits_columns ?rq" using ch by (simp add: chargeable_def fits_columns_def)
  moreover have "\<not> expired_at (clock db1) ?r"
    using t by (simp add: pay expired_at_def new_row_def)
  ultimately have "claim_or_branch (\<lambda>_ d. d) ttl2 ?rq db1 =
      (Inr (answer_live (rq_fingerprint ?rq) ?r), db1\<lparr>next_id := next_id db1 + 1\<rparr>)" for ttl2
    using ch by (intro claim_or_branch_live [OF pay(1)])
      (auto simp: chargeable_def key_free_def new_row_def)
  moreover have "answer_live (rq_fingerprint ?rq) ?r = (Replay, Some (next_id db), Some ?r)"
    by (simp add: answer_live_def new_row_def terminal_statuses_def)
  moreover have "key \<noteq> ''''" "amount_minor_of (cb_amount body) = Some m"
    using ch by (simp_all add: chargeable_def)
  ultimately show ?thesis
    using un(2) sh
    by (simp add: charge_def Let_def undisturbed_def not_captured_def new_row_def)
qed

text \<open>C6. The first charge itself: under a free key, on a boarded loan with a balance, with
  servicing reachable, the payment is captured once, the loan is credited exactly the payment's
  minor units, and every other loan's balance is untouched.\<close>

theorem first_charge_captures_and_credits:
  assumes "chargeable key body m db" "undisturbed env" "reaches_servicing env"
  shows "fst (charge env body rid (Some key) db) =
      Inr \<lparr>co_payment_id = Some (next_id db), co_loan_id = cb_loan_id body,
           co_status = ''captured'', co_applied_amount = cb_amount body,
           co_request_id = new_request_id (fresh_hex env) rid, co_idempotency = Claimed\<rparr> \<and>
    (\<forall>l. get_balance l (snd (charge env body rid (Some key) db)) =
       (if l = cb_loan_id body then credit m (get_balance l db) else get_balance l db)) \<and>
    length (payments (snd (charge env body rid (Some key) db))) = length (payments db) + 1"
  using assms(1) unfolding charge_first [OF assms]
  by (auto simp: after_capture_def Let_def get_balance_def chargeable_def)

text \<open>A lost reply: when servicing applies the payment but its answer times out, the charge
  reports \<^verbatim>\<open>captured_unapplied\<close> with nothing applied, although the balance has moved and the
  application is recorded.\<close>

theorem lost_reply_reports_unapplied:
  assumes ch: "chargeable key body m db" and un: "undisturbed env"
    and re: "reaches_servicing (env\<lparr>net := Delivered\<rparr>)" and lost: "net env = Reply_lost"
  shows "\<exists>out db'. charge env body rid (Some key) db = (Inr out, db') \<and>
     co_status out = ''captured_unapplied'' \<and> co_applied_amount out = 0 \<and>
     get_balance (cb_loan_id body) db' = credit m (get_balance (cb_loan_id body) db) \<and>
     next_id db \<in> a_payment_id ` set (applied db')"
proof -
  let ?rq = "charge_request (sha env) key body m"
  let ?ttl = "payment_idempotency_ttl_hours (ttl_raw env)"
  let ?r = "(new_row ?ttl ?rq db)\<lparr>p_status := ''captured''\<rparr>"
  have ok: "store_ok db" "application_of db (next_id db) = None" "key \<noteq> ''''"
    "amount_minor_of (cb_amount body) = Some m"
    using ch by (simp_all add: chargeable_def)
  obtain b where b: "balances db (rq_loan_id ?rq) = Some b" using ch by (auto simp: chargeable_def)
  have f: "finalize ''captured'' (next_id db)
       (db\<lparr>next_id := next_id db + 1, payments := payments db @ [new_row ?ttl ?rq db]\<rparr>) =
     db\<lparr>next_id := next_id db + 1, payments := payments db @ [?r]\<rparr>"
    by (rule finalize_last [OF ok(1)]) (simp add: new_row_def)
  have a: "apply_payment (cb_loan_id body) (next_id db)
      (db\<lparr>next_id := next_id db + 1, payments := payments db @ [?r]\<rparr>) =
     (Inr (credit m (balance b), True), after_capture ?ttl ?rq db)"
    using apply_captured [OF ok(1,2) b] by simp
  have v: "apply_via_servicing Reply_lost (own_token env) (servicing_token env) (cb_loan_id body)
      (next_id db) (db\<lparr>next_id := next_id db + 1, payments := payments db @ [?r]\<rparr>) =
     (False, after_capture ?ttl ?rq db)"
    using re servicing_guard.match [of "servicing_token env"]
    by (simp add: reaches_servicing_def apply_via_servicing_def apply_payment_route_def a)
  show ?thesis
    using claim_or_branch_free [OF ch un, of ?ttl "sha env"] ok un b
    by (simp add: charge_def Let_def capture_def undisturbed_def lost f v get_balance_def
        after_capture_def)
qed

section \<open>Instances\<close>

definition sample_env :: charge_env where
  "sample_env = \<lparr>ttl_raw = ''24'', sha = (\<lambda>s. s), fresh_hex = replicate 32 CHR ''a'',
     net = Delivered, own_token = ''tok'', servicing_token = ''tok'', others = (\<lambda>_ d. d)\<rparr>"

definition sample_body :: charge_body where
  "sample_body = \<lparr>cb_loan_id = 1, cb_pan = None, cb_amount = 25, cb_method = ''card''\<rparr>"

text \<open>A captured and applied payment whose window has closed, still holding its key.\<close>

definition expired_db :: lss_db where
  "expired_db = sample_db\<lparr>clock := 20,
     payments := [\<lparr>p_id = 7, p_loan_id = Some 1, p_pan = None, p_amount = 100,
       p_amount_minor = Some 10000, p_method = Some ''card'', p_status = ''captured'',
       p_key = Some ''k'', p_expires_at = Some 10, p_fingerprint = None\<rparr>],
     applied := [\<lparr>a_loan_id = 1, a_payment_id = 7, a_amount_minor = 10000\<rparr>]\<rparr>"

lemma sample_undisturbed: "undisturbed sample_env" "well_behaved (others sample_env)"
  by (simp_all add: undisturbed_def sample_env_def)

lemma sample_store: "store_ok sample_db" "ledger_ok sample_db"
  by (simp_all add: store_ok_def ledger_ok_def sample_db_def)

lemma sample_amount: "amount_minor_of 25 = Some 2500"
  by code_simp

lemma sample_chargeable: "chargeable ''k'' sample_body 2500 sample_db"
  using sample_store by (simp add: chargeable_def sample_amount sample_body_def key_free_def
      application_of_def) (simp add: sample_db_def)

lemma sample_reaches: "reaches_servicing sample_env"
  by (simp add: reaches_servicing_def sample_env_def)

lemma expired_recharge:
  "map_sum (\<lambda>_. ()) co_idempotency (fst (charge sample_env sample_body None (Some ''k'') expired_db)) =
     Inr Claimed"
  by code_simp

theorem second_capture_only_after_credit_witness:
  "\<exists>out db'. charge sample_env sample_body None (Some ''k'') expired_db = (Inr out, db') \<and>
     10 \<le> clock db' \<and> 7 \<in> a_payment_id ` set (applied db') \<and> co_payment_id out \<noteq> Some 7"
proof -
  obtain out db' where c: "charge sample_env sample_body None (Some ''k'') expired_db = (Inr out, db')"
    and won: "co_idempotency out = Claimed"
    using expired_recharge
    by (cases "charge sample_env sample_body None (Some ''k'') expired_db"; cases "fst (charge
      sample_env sample_body None (Some ''k'') expired_db)") auto
  have "store_ok expired_db" "written_statuses expired_db"
    by (simp_all add: store_ok_def written_statuses_def expired_db_def sample_db_def)
  then have "10 \<le> clock db' \<and> p_id (hd (payments expired_db)) \<in> a_payment_id ` set (applied db') \<and>
         co_payment_id out \<noteq> Some (p_id (hd (payments expired_db)))"
    by (rule second_capture_only_after_credit [OF sample_undisturbed(2) _ _ _ _ _ c won])
      (simp_all add: expired_db_def)
  then show ?thesis using c by (auto simp: expired_db_def)
qed

theorem charge_keeps_tables_sound_witness:
  "store_ok (snd (charge sample_env sample_body None (Some ''k'') sample_db)) \<and>
   ledger_ok (snd (charge sample_env sample_body None (Some ''k'') sample_db))"
  by (rule charge_keeps_tables_sound [OF sample_undisturbed(2) sample_store])

theorem retry_replays_first_charge_witness:
  "co_idempotency (projr (fst (charge sample_env sample_body None (Some ''k'')
     ((snd (charge sample_env sample_body None (Some ''k'') sample_db))\<lparr>clock := 86399\<rparr>)))) = Replay"
proof -
  have "payment_idempotency_ttl_hours (ttl_raw sample_env) = 24" by code_simp
  then have "86399 < clock sample_db + 3600 * payment_idempotency_ttl_hours (ttl_raw sample_env)"
    by (simp add: sample_db_def)
  then show ?thesis
    by (subst retry_replays_first_charge [OF sample_chargeable sample_undisturbed(1)
          sample_undisturbed(1) sample_reaches refl]) simp_all
qed

theorem first_charge_captures_and_credits_witness:
  "get_balance 1 (snd (charge sample_env sample_body None (Some ''k'') sample_db)) = 975"
proof -
  have "credit 2500 (get_balance 1 sample_db) = 975" by code_simp
  then show ?thesis
    using first_charge_captures_and_credits [OF sample_chargeable sample_undisturbed(1) sample_reaches,
        of None]
    by (simp add: sample_body_def)
qed

theorem lost_reply_reports_unapplied_witness:
  "\<exists>out db'. charge (sample_env\<lparr>net := Reply_lost\<rparr>) sample_body None (Some ''k'') sample_db =
       (Inr out, db') \<and> co_status out = ''captured_unapplied'' \<and> get_balance 1 db' < 1000"
proof -
  have c: "credit 2500 (get_balance 1 sample_db) < 1000" by code_simp
  have "\<exists>out db'. charge (sample_env\<lparr>net := Reply_lost\<rparr>) sample_body None (Some ''k'') sample_db =
       (Inr out, db') \<and> co_status out = ''captured_unapplied'' \<and> co_applied_amount out = 0 \<and>
     get_balance (cb_loan_id sample_body) db' =
       credit 2500 (get_balance (cb_loan_id sample_body) sample_db) \<and>
     next_id sample_db \<in> a_payment_id ` set (applied db')"
    by (rule lost_reply_reports_unapplied [OF sample_chargeable])
      (simp_all add: undisturbed_def reaches_servicing_def sample_env_def)
  then show ?thesis using c by (auto simp: sample_body_def)
qed

end
