(* ===== verification/PaymentRoutes.thy ===== *)
theory PaymentRoutes
  imports PaymentSteps
begin

text \<open>
  The two front doors onto the charge path: \<^verbatim>\<open>POST /payments\<close> of payment-service
  (\<^verbatim>\<open>routers/payments.py\<close>) and of servicing-service (\<^verbatim>\<open>main.py\<close>, with that service's own
  \<^verbatim>\<open>charge\<close>). Each route is its guards in order, the charge, and the mapping of the outcome to
  a status and headers. \<^verbatim>\<open>claim_or_branch\<close> and its statements are byte-identical in the two
  services and modelled once.
\<close>

section \<open>Configuration and replies\<close>

text \<open>\<open>probe\<close> is the answer of the schema probe \<^verbatim>\<open>config.database_reachable()\<close>.\<close>

record money_config =
  processor_api_key :: string
  internal_service_token :: string
  probe :: "bool \<times> string"

definition processor_configured :: "money_config \<Rightarrow> bool" where
  "processor_configured cfg \<longleftrightarrow> processor_api_key cfg \<noteq> ''''"

definition internal_service_token_configured :: "money_config \<Rightarrow> bool" where
  "internal_service_token_configured cfg \<longleftrightarrow>
     internal_service_token cfg \<noteq> '''' \<and>
     list_all (\<lambda>c. char_code c < 128) (internal_service_token cfg)"

type_synonym 'a reply = "'a response \<times> (string \<times> string) list"

definition refuse :: "nat \<Rightarrow> string \<Rightarrow> 'a reply" where
  "refuse code detail = (raise_http code detail, [])"

text \<open>The header \<^verbatim>\<open>Idempotency-Key\<close>, checked for presence and canonicalized.\<close>

definition key_header :: "string option \<Rightarrow> string response" where
  "key_header idempotency_key =
     (let missing = raise_http 400 ''Idempotency-Key header is required (ADR 0013 Decision 1).''
      in case idempotency_key of
        None \<Rightarrow> missing
      | Some s \<Rightarrow>
          if s = '''' then missing
          else case canonical_key s of
            None \<Rightarrow> raise_http 400 ''Idempotency-Key must be a UUID.''
          | Some key \<Rightarrow> Inr key)"

definition reused_key :: "'a reply" where
  "reused_key = refuse 422 (''This Idempotency-Key was already used for a different payment. '' @
     ''Use a new key for a new payment.'')"

definition still_in_progress :: "'a reply" where
  "still_in_progress =
     (raise_http 409 ''A payment with this Idempotency-Key is still in progress.'',
      [(''Retry-After'', ''5'')])"

definition not_ready :: "money_config \<Rightarrow> 'a reply" where
  "not_ready cfg = refuse 503 (''database not ready for capture ('' @ snd (probe cfg) @ '')'')"

definition replay_header :: "outcome \<Rightarrow> (string \<times> string) list" where
  "replay_header oc = (if oc = Replay then [(''Idempotent-Replay'', ''true'')] else [])"

section \<open>payment-service\<close>

definition show_payment_id :: "int option \<Rightarrow> string" where
  "show_payment_id i = (case i of None \<Rightarrow> ''None'' | Some n \<Rightarrow> show_int n)"

definition unapplied_detail :: "charge_out \<Rightarrow> string" where
  "unapplied_detail out =
     ''Payment captured (payment_id='' @ show_payment_id (co_payment_id out) @ '', request_id='' @
     co_request_id out @ '') but could not be applied to your balance. '' @
     ''Do not retry -- contact support to reconcile this payment.''"

text \<open>The reply to a finished charge call.\<close>

definition charge_reply :: "internal_error + charge_out \<Rightarrow> charge_out reply" where
  "charge_reply res =
     (case res of
        Inl _ \<Rightarrow> (unhandled, [])
      | Inr out \<Rightarrow>
          if co_idempotency out = Fingerprint_mismatch then reused_key
          else if co_idempotency out = In_flight then still_in_progress
          else if co_status out = ''captured_unapplied''
          then (raise_http 424 (unapplied_detail out), replay_header (co_idempotency out))
          else (Inr out, replay_header (co_idempotency out)))"

definition post_payment ::
  "money_config \<Rightarrow> charge_env \<Rightarrow> identity_db \<Rightarrow> charge_body \<Rightarrow> string option \<Rightarrow> string option \<Rightarrow>
   string option \<Rightarrow> string option \<Rightarrow> lss_db \<Rightarrow> charge_out reply \<times> lss_db" where
  "post_payment cfg env idb body x_user_role x_user_id x_request_id idempotency_key db =
     (case pay_require_money_role_or_owner idb (cb_loan_id body) x_user_role x_user_id of
        Inl e \<Rightarrow> ((Inl e, []), db)
      | Inr _ \<Rightarrow>
          if \<not> processor_configured cfg
          then (refuse 503 ''payment processor not configured (PROCESSOR_API_KEY unset)'', db)
          else if \<not> internal_service_token_configured cfg
          then (refuse 503 (''internal service token not configured (INTERNAL_SERVICE_TOKEN '' @
                  ''unset or non-ASCII)''), db)
          else case key_header idempotency_key of
            Inl e \<Rightarrow> ((Inl e, []), db)
          | Inr key \<Rightarrow>
              if \<not> fst (probe cfg) then (not_ready cfg, db)
              else case charge (env\<lparr>own_token := internal_service_token cfg\<rparr>) body x_request_id
                          (Some key) db of
                (res, db') \<Rightarrow> (charge_reply res, db'))"

section \<open>servicing-service\<close>

record srv_out =
  so_loan_id :: int
  so_amount :: rat
  so_balance :: "rat option"
  so_payment_id :: "int option"
  so_request_id :: string
  so_idempotency :: outcome
  so_status :: "string option"

text \<open>No status field is returned to a caller that did not win the key.\<close>

definition srv_not_captured :: "int \<Rightarrow> string \<Rightarrow> branch_result \<Rightarrow> srv_out" where
  "srv_not_captured loan_id request_id b =
     (case b of (outcome, payment_id, existing) \<Rightarrow>
        \<lparr>so_loan_id = loan_id,
         so_amount = (case existing of
             Some p \<Rightarrow> if outcome = Replay \<and> p_status p = ''captured'' then p_amount p else 0
           | None \<Rightarrow> 0),
         so_balance = None, so_payment_id = payment_id, so_request_id = request_id,
         so_idempotency = outcome, so_status = None\<rparr>)"

definition srv_capture ::
  "charge_env \<Rightarrow> charge_body \<Rightarrow> string \<Rightarrow> int \<Rightarrow> lss_db \<Rightarrow> srv_out \<times> lss_db" where
  "srv_capture env body request_id payment_id db =
     (let db1 = finalize ''captured'' payment_id (others env 7 db) in
      case apply_payment (cb_loan_id body) payment_id (others env 8 db1) of
        (Inr (new_balance, _), db2) \<Rightarrow>
          (\<lparr>so_loan_id = cb_loan_id body, so_amount = cb_amount body,
            so_balance = Some new_balance, so_payment_id = Some payment_id,
            so_request_id = request_id, so_idempotency = Claimed,
            so_status = Some ''captured''\<rparr>, db2)
      | (Inl _, db2) \<Rightarrow>
          (\<lparr>so_loan_id = cb_loan_id body, so_amount = 0, so_balance = None,
            so_payment_id = Some payment_id, so_request_id = request_id,
            so_idempotency = Claimed, so_status = Some ''captured_unapplied''\<rparr>,
           finalize ''captured_unapplied'' payment_id (others env 9 db2)))"

definition srv_charge ::
  "charge_env \<Rightarrow> charge_body \<Rightarrow> string option \<Rightarrow> string option \<Rightarrow> lss_db \<Rightarrow>
   (internal_error + srv_out) \<times> lss_db" where
  "srv_charge env body request_id idempotency_key db =
     (case idempotency_key of
        None \<Rightarrow> (Inl Missing_key, db)
      | Some key \<Rightarrow>
          if key = '''' then (Inl Missing_key, db)
          else
            (let rid = new_request_id (fresh_hex env) request_id in
             case amount_minor_of (cb_amount body) of
               None \<Rightarrow> (Inl Invalid_amount, db)
             | Some amount_minor \<Rightarrow>
                 (case claim_or_branch (others env) (payment_idempotency_ttl_hours (ttl_raw env))
                         (charge_request (sha env) key body amount_minor) db of
                    (Inl e, db1) \<Rightarrow> (Inl e, db1)
                  | (Inr (Claimed, Some payment_id, _), db1) \<Rightarrow>
                      (case srv_capture env body rid payment_id db1 of
                         (out, db2) \<Rightarrow> (Inr out, db2))
                  | (Inr b, db1) \<Rightarrow> (Inr (srv_not_captured (cb_loan_id body) rid b), db1))))"

definition srv_charge_reply :: "internal_error + srv_out \<Rightarrow> srv_out reply" where
  "srv_charge_reply res =
     (case res of
        Inl _ \<Rightarrow> (unhandled, [])
      | Inr out \<Rightarrow>
          if so_idempotency out = Fingerprint_mismatch then reused_key
          else if so_idempotency out = In_flight then still_in_progress
          else (Inr out, replay_header (so_idempotency out)))"

definition srv_post_payment ::
  "money_config \<Rightarrow> charge_env \<Rightarrow> identity_db \<Rightarrow> charge_body \<Rightarrow> string option \<Rightarrow> string option \<Rightarrow>
   string option \<Rightarrow> string option \<Rightarrow> lss_db \<Rightarrow> srv_out reply \<times> lss_db" where
  "srv_post_payment cfg env idb body x_user_role x_user_id x_request_id idempotency_key db =
     (case require_money_role_or_owner idb (cb_loan_id body) x_user_role x_user_id of
        Inl e \<Rightarrow> ((Inl e, []), db)
      | Inr _ \<Rightarrow>
          if \<not> processor_configured cfg
          then (refuse 503 ''payment processor not configured (PROCESSOR_API_KEY unset)'', db)
          else case key_header idempotency_key of
            Inl e \<Rightarrow> ((Inl e, []), db)
          | Inr key \<Rightarrow>
              if \<not> fst (probe cfg) then (not_ready cfg, db)
              else case srv_charge env body x_request_id (Some key) db of
                (res, db') \<Rightarrow> (srv_charge_reply res, db'))"

section \<open>Auxiliary facts\<close>

lemma not_fst_pair: "\<not> fst p \<Longrightarrow> \<exists>v. p = (False, v)"
  by (cases p) simp

lemma pay_gate_pass:
  "pay_require_money_role_or_owner idb l r u = Inr () \<longleftrightarrow>
     is_money_role r \<or> (\<exists>i. as_int u = Some i \<and> owns_loan idb l i)"
  by (simp add: pay_gate.grants_iff pay_role_eq)

lemma key_header_Inr: "key_header h = Inr key \<longleftrightarrow> (\<exists>s. h = Some s \<and> s \<noteq> '''' \<and> canonical_key s = Some key)"
  by (auto simp: key_header_def Let_def raise_http_def split: option.splits if_splits)

text \<open>What a claim that did not win leaves in place.\<close>

definition money_unmoved :: "lss_db \<Rightarrow> lss_db \<Rightarrow> bool" where
  "money_unmoved db db' \<longleftrightarrow> balances db' = balances db \<and> applied db' = applied db \<and>
     map p_id (payments db') = map p_id (payments db) \<and>
     map p_status (payments db') = map p_status (payments db)"

lemma money_unmoved_refl [simp]: "money_unmoved db db"
  by (simp add: money_unmoved_def)

lemma money_unmoved_trans: "money_unmoved a b \<Longrightarrow> money_unmoved b c \<Longrightarrow> money_unmoved a c"
  by (simp add: money_unmoved_def)

lemma claim_lost_unmoved: "claim ttl rq db = (r, db') \<Longrightarrow> \<forall>i. r \<noteq> Inr (Some i) \<Longrightarrow> money_unmoved db db'"
  by (cases rule: claim_cases [of ttl rq db]) (auto simp: money_unmoved_def)

lemma retire_unmoved: "retire key db = (r, db') \<Longrightarrow> money_unmoved db db'"
  by (auto simp: retire_def money_unmoved_def)

lemma branch_existing_unmoved:
  assumes "branch_existing (\<lambda>_ d. d) ttl rq found db = (r, db')" "\<forall>i x. r \<noteq> Inr (Claimed, i, x)"
  shows "money_unmoved db db'"
proof (cases "snd found \<and> p_status (fst found) \<in> set terminal_statuses")
  case True
  obtain moved d1 where r: "retire (rq_key rq) db = (moved, d1)" by fastforce
  obtain c d2 where c: "claim ttl rq d1 = (c, d2)" by fastforce
  have "(r, db') = (if moved then (case c of Inl e \<Rightarrow> (Inl e, d2)
         | Inr (Some i) \<Rightarrow> (Inr (Claimed, Some i, None), d2)
         | Inr None \<Rightarrow> (Inr (reread rq (fst found) d2), d2))
       else (Inr (reread rq (fst found) d1), d1))"
    using assms(1) True r c
    by (auto simp: branch_existing_def case_prod_unfold Let_def split: sum.splits option.splits)
  then show ?thesis
    using assms(2) retire_unmoved [OF r] claim_lost_unmoved [OF c]
    by (auto intro: money_unmoved_trans split: if_splits sum.splits option.splits)
qed (use assms in \<open>auto simp: branch_existing_def case_prod_unfold\<close>)

lemma claim_or_branch_unmoved:
  assumes "claim_or_branch (\<lambda>_ d. d) ttl rq db = (r, db')" "\<forall>i x. r \<noteq> Inr (Claimed, i, x)"
  shows "money_unmoved db db'"
proof -
  obtain c d1 where c: "claim ttl rq db = (c, d1)" by fastforce
  obtain c' d3 where c': "claim ttl rq d1 = (c', d3)" by fastforce
  show ?thesis
    using assms c c' claim_lost_unmoved [OF c] claim_lost_unmoved [OF c']
      branch_existing_unmoved [of ttl rq _ d1 r db'] branch_existing_unmoved [of ttl rq _ d3 r db']
    by (auto simp: claim_or_branch_def Let_def intro: money_unmoved_trans
        split: sum.splits option.splits prod.splits)
qed

section \<open>Properties\<close>

text \<open>Both front doors fail closed: a request that changes the tables at all came from a
  money role or the loan's owner, with a processor credential configured, a well-formed UUID
  key and a ready schema; payment-service further requires a usable internal token.\<close>

theorem charge_routes_fail_closed:
  "(snd (post_payment cfg env idb body role uid rid hdr db) \<noteq> db \<longrightarrow>
      (is_money_role role \<or> (\<exists>i. as_int uid = Some i \<and> owns_loan idb (cb_loan_id body) i)) \<and>
      processor_configured cfg \<and> internal_service_token_configured cfg \<and>
      (\<exists>s. hdr = Some s \<and> canonical_key s \<noteq> None) \<and> fst (probe cfg)) \<and>
   (snd (srv_post_payment cfg env idb body role uid rid hdr db) \<noteq> db \<longrightarrow>
      (is_money_role role \<or> (\<exists>i. as_int uid = Some i \<and> owns_loan idb (cb_loan_id body) i)) \<and>
      processor_configured cfg \<and> (\<exists>s. hdr = Some s \<and> canonical_key s \<noteq> None) \<and> fst (probe cfg))"
proof (intro conjI impI)
  assume ne: "snd (post_payment cfg env idb body role uid rid hdr db) \<noteq> db"
  obtain key where "pay_require_money_role_or_owner idb (cb_loan_id body) role uid = Inr ()"
    "processor_configured cfg" "internal_service_token_configured cfg" "key_header hdr = Inr key"
    "fst (probe cfg)"
    using ne by (auto simp: post_payment_def split: sum.splits if_splits)
  then show "is_money_role role \<or> (\<exists>i. as_int uid = Some i \<and> owns_loan idb (cb_loan_id body) i)"
    "processor_configured cfg" "internal_service_token_configured cfg"
    "\<exists>s. hdr = Some s \<and> canonical_key s \<noteq> None" "fst (probe cfg)"
    by (auto simp: pay_gate_pass key_header_Inr)
next
  assume ne: "snd (srv_post_payment cfg env idb body role uid rid hdr db) \<noteq> db"
  obtain key where "require_money_role_or_owner idb (cb_loan_id body) role uid = Inr ()"
    "processor_configured cfg" "key_header hdr = Inr key" "fst (probe cfg)"
    using ne by (auto simp: srv_post_payment_def split: sum.splits if_splits)
  then show "is_money_role role \<or> (\<exists>i. as_int uid = Some i \<and> owns_loan idb (cb_loan_id body) i)"
    "processor_configured cfg" "\<exists>s. hdr = Some s \<and> canonical_key s \<noteq> None" "fst (probe cfg)"
    by (auto simp: charge_gate.grants_iff key_header_Inr)
qed

text \<open>An answer that is not a capture moves no money: whatever row held the key, a replay, a
  409, a 422 or an internal error leaves every balance, every application, and the ids and
  statuses of all payments as they were.\<close>

theorem uncaptured_answers_move_nothing:
  assumes "undisturbed env" "charge env body rid (Some key) db = (res, db')"
    and "\<forall>out. res = Inr out \<longrightarrow> co_idempotency out \<noteq> Claimed"
  shows "money_unmoved db db'"
proof (cases "key = '''' \<or> amount_minor_of (cb_amount body) = None")
  case True
  then show ?thesis using assms by (auto simp: charge_def Let_def split: if_splits option.splits)
next
  case False
  then obtain m where m: "amount_minor_of (cb_amount body) = Some m" by blast
  let ?ttl = "payment_idempotency_ttl_hours (ttl_raw env)"
  let ?rq = "charge_request (sha env) key body m"
  obtain r d1 where b: "claim_or_branch (others env) ?ttl ?rq db = (r, d1)" by fastforce
  have won: "won_by_insert ?ttl ?rq db (r, d1)"
    using claim_or_branch_won [where w = "others env" and ttl = ?ttl and rq = ?rq and db = db]
      ttl_pos assms(1) b
    by (simp add: undisturbed_def)
  have not: "\<forall>i x. r \<noteq> Inr (Claimed, i, x)"
  proof (intro allI notI)
    fix i x assume "r = Inr (Claimed, i, x)"
    then obtain j where r: "r = Inr (Claimed, Some j, x)" using won by (auto simp: won_by_insert_def)
    then have "res = Inr (fst (capture env body (new_request_id (fresh_hex env) rid) j d1))"
      using assms(2) False m b by (auto simp: charge_def Let_def split: prod.splits)
    moreover have "co_idempotency (fst (capture env body y j d1)) = Claimed" for y
      by (simp add: capture_def Let_def split: prod.split)
    ultimately show False using assms(3) by simp
  qed
  have "db' = d1"
    using assms(2) False m b not
    by (auto simp: charge_def Let_def split: sum.splits prod.splits option.splits outcome.splits)
  then show ?thesis using claim_or_branch_unmoved [of ?ttl ?rq db r d1] b not assms(1)
    by (simp add: undisturbed_def)
qed

text \<open>Same key, same digest means same payment: two requests with equal fingerprints agree in
  loan, minor units, method and instrument digest, unless they exhibit two different texts with
  one SHA-256 digest.\<close>

theorem fingerprint_unambiguous:
  "request_fingerprint digest l1 a1 m1 pan1 = request_fingerprint digest l2 a2 m2 pan2 \<longrightarrow>
     (l1 = l2 \<and> a1 = a2 \<and> m1 = m2 \<and> map_option digest (if pan1 = Some '''' then None else pan1) =
        map_option digest (if pan2 = Some '''' then None else pan2)) \<or>
     (\<exists>x y. x \<noteq> y \<and> digest x = digest y)"
proof
  assume eq: "request_fingerprint digest l1 a1 m1 pan1 = request_fingerprint digest l2 a2 m2 pan2"
  show "(l1 = l2 \<and> a1 = a2 \<and> m1 = m2 \<and>
        map_option digest (if pan1 = Some '''' then None else pan1) =
        map_option digest (if pan2 = Some '''' then None else pan2)) \<or>
     (\<exists>x y. x \<noteq> y \<and> digest x = digest y)"
  proof (cases "fingerprint_payload digest l1 a1 m1 pan1 = fingerprint_payload digest l2 a2 m2 pan2")
    case True
    then show ?thesis by (auto simp: fingerprint_payload_def split: option.splits if_splits)
  next
    case False
    then show ?thesis using eq json_text_inj unfolding request_fingerprint_def by blast
  qed
qed

text \<open>Cents survive the float: for any amount of whole cents up to a quadrillion, the double
  a JSON client sends for it is read back as exactly those minor units.\<close>

theorem amount_minor_exact:
  assumes "\<bar>n\<bar> < 10 ^ 15"
  shows "amount_minor_of (fl (of_int n / 100)) = Some n"
proof -
  have "sig_repr 10 15 (of_int n / 100)" using sig_repr_of_int_div [of 10 n 15 2] assms by simp
  then have "round_half_up (100 * py_repr (fl (of_int n / 100))) = n"
    by (simp add: py_repr_round_trip)
  then show ?thesis using assms by (simp add: amount_minor_of_def Let_def)
qed

theorem amount_minor_exact_witness: "amount_minor_of (fl (2500029 / 100)) = Some 2500029"
  using amount_minor_exact [of 2500029] by simp

text \<open>The two front doors disagree about an unapplied capture: on a loan without a balances
  row, the same request is answered 424 by payment-service and 200 by servicing-service, though
  both captured it and applied nothing.\<close>

theorem front_doors_disagree_on_unapplied:
  assumes key: "canonical_key s = Some key" "s \<noteq> ''''" "key \<noteq> ''''" "key_free key db"
    and amt: "amount_minor_of (cb_amount body) = Some m" "fits_columns (charge_request (sha env) key body m)"
    and loan: "cb_loan_id body \<in> set (loan_ids db)" "balances db (cb_loan_id body) = None"
    and db: "store_ok db" "application_of db (next_id db) = None" and un: "undisturbed env"
    and net: "\<forall>x. net env \<noteq> Answered_elsewhere x"
    and cfg: "processor_configured cfg" "internal_service_token_configured cfg" "fst (probe cfg)"
    and role: "is_money_role role"
  shows "status_of (fst (fst (post_payment cfg env idb body role uid rid (Some s) db))) = 424 \<and>
    (\<exists>out. fst (fst (srv_post_payment cfg env idb body role uid rid (Some s) db)) = Inr out \<and>
       so_status out = Some ''captured_unapplied'' \<and> so_amount out = 0)"
proof -
  let ?rq = "charge_request (sha env) key body m"
  let ?ttl = "payment_idempotency_ttl_hours (ttl_raw env)"
  let ?d = "db\<lparr>next_id := next_id db + 1, payments := payments db @ [new_row ?ttl ?rq db]\<rparr>"
  let ?f = "finalize ''captured'' (next_id db) ?d"
  have cb: "claim_or_branch (others env) ?ttl ?rq db = (Inr (Claimed, Some (next_id db), None), ?d)"
    using claim_free [of ?rq db ?ttl] key(4) loan(1) amt(2) un
    by (simp add: claim_or_branch_def undisturbed_def)
  have "balances ?f (cb_loan_id body) = None" using loan(2) by simp
  then have e: "eligible_amount (cb_loan_id body) (next_id db) ?f = None"
    by (simp add: eligible_amount_def split: option.split)
  have a0: "application_of ?f (next_id db) = None" using db(2) by (simp add: application_of_def)
  have a: "apply_payment (cb_loan_id body) (next_id db) ?f = (Inl Not_applicable, ?f)"
    using a0 by (simp add: apply_payment_def apply_sql_def e)
  have fail: "\<not> fst (apply_via_servicing (net env) tok stok (cb_loan_id body) (next_id db) ?f)"
    for tok stok
    using net servicing_guard.refusal_status [of stok "Some tok"]
    by (cases "net env"; cases "require_internal_caller stok (Some tok)")
      (auto simp: apply_via_servicing_def apply_payment_route_def a is_2xx_def)
  let ?env = "env\<lparr>own_token := internal_service_token cfg\<rparr>"
  have cap: "\<exists>d2. capture ?env body x (next_id db) ?d =
      (\<lparr>co_payment_id = Some (next_id db), co_loan_id = cb_loan_id body,
        co_status = ''captured_unapplied'', co_applied_amount = 0, co_request_id = x,
        co_idempotency = Claimed\<rparr>, d2)" for x
  proof -
    obtain v where v: "apply_via_servicing (net env) (internal_service_token cfg)
        (servicing_token env) (cb_loan_id body) (next_id db) ?f = (False, v)"
      using fail [THEN not_fst_pair] by blast
    show ?thesis using un v by (simp add: capture_def Let_def undisturbed_def)
  qed
  have scap: "\<exists>d2. srv_capture env body x (next_id db) ?d =
      (\<lparr>so_loan_id = cb_loan_id body, so_amount = 0, so_balance = None,
        so_payment_id = Some (next_id db), so_request_id = x, so_idempotency = Claimed,
        so_status = Some ''captured_unapplied''\<rparr>, d2)" for x
    using un a by (simp add: srv_capture_def Let_def undisturbed_def)
  have gates: "require_money_role_or_owner idb l role uid = Inr ()"
    "pay_require_money_role_or_owner idb l role uid = Inr ()" for l
    using role by (simp_all add: charge_gate.gate_privileged pay_gate_eq)
  let ?rid = "new_request_id (fresh_hex env) rid"
  obtain d2 where c: "charge ?env body rid (Some key) db =
      (Inr \<lparr>co_payment_id = Some (next_id db), co_loan_id = cb_loan_id body,
        co_status = ''captured_unapplied'', co_applied_amount = 0, co_request_id = ?rid,
        co_idempotency = Claimed\<rparr>, d2)"
    using cap [of ?rid] cb key(3) amt(1) by (auto simp: charge_def Let_def)
  obtain d3 where sc: "srv_charge env body rid (Some key) db =
      (Inr \<lparr>so_loan_id = cb_loan_id body, so_amount = 0, so_balance = None,
        so_payment_id = Some (next_id db), so_request_id = ?rid, so_idempotency = Claimed,
        so_status = Some ''captured_unapplied''\<rparr>, d3)"
    using scap [of ?rid] cb key(3) amt(1) by (auto simp: srv_charge_def Let_def)
  have h: "key_header (Some s) = Inr key" using key by (simp add: key_header_def)
  show ?thesis
    using cfg h by (simp add: post_payment_def srv_post_payment_def gates c sc charge_reply_def
        srv_charge_reply_def)
qed

text \<open>Nothing bounds the amount from below: a first charge of a negative amount is captured
  and applied, and it cannot lower the balance it is applied to.\<close>

theorem negative_charge_never_lowers_balance:
  assumes "chargeable key body m db" "undisturbed env" "reaches_servicing env" "m < 0"
    and "fl (get_balance (cb_loan_id body) db) = get_balance (cb_loan_id body) db"
  shows "co_status (projr (fst (charge env body rid (Some key) db))) = ''captured'' \<and>
    get_balance (cb_loan_id body) db \<le>
      get_balance (cb_loan_id body) (snd (charge env body rid (Some key) db))"
proof -
  obtain b where b: "balances db (cb_loan_id body) = Some b" using assms(1) by (auto simp: chargeable_def)
  have "fl (of_int m / 100) \<le> fl 0" using assms(4) by (intro fl_mono) simp
  then have "fl (balance b) \<le> credit m (balance b)" unfolding credit_def by (intro fl_mono) simp
  then show ?thesis using assms(5) b unfolding charge_first [OF assms(1-3)]
    by (simp add: after_capture_def Let_def get_balance_def)
qed

section \<open>Instances\<close>

lemma negative_amount: "amount_minor_of (-25) = Some (-2500)"
  by code_simp

theorem negative_charge_never_lowers_balance_witness:
  "1000 \<le> get_balance 1 (snd (charge sample_env (sample_body\<lparr>cb_amount := -25\<rparr>) None (Some ''k'')
     sample_db)) \<and> credit (-2500) 1000 = 1025"
proof -
  have c: "chargeable ''k'' (sample_body\<lparr>cb_amount := -25\<rparr>) (-2500) sample_db"
    using sample_chargeable by (simp add: chargeable_def negative_amount)
  have g: "get_balance 1 sample_db = 1000" by (simp add: get_balance_def sample_db_def)
  have f: "fl (1000::rat) = 1000" using fl_exact_int [of 1000] by simp
  have "credit (-2500) 1000 = 1025" by code_simp
  then show ?thesis
    using negative_charge_never_lowers_balance [OF c sample_undisturbed(1) sample_reaches, of None] g f
    by (simp add: sample_body_def)
qed

theorem uncaptured_answers_move_nothing_witness:
  "money_unmoved (sample_db\<lparr>loan_ids := []\<rparr>)
     (snd (charge sample_env sample_body None (Some ''k'') (sample_db\<lparr>loan_ids := []\<rparr>)))"
proof -
  let ?db = "sample_db\<lparr>loan_ids := []\<rparr>"
  have "charge sample_env sample_body None (Some ''k'') ?db =
      (Inl Database_refused, ?db\<lparr>next_id := 9\<rparr>)"
    by (simp add: charge_def sample_body_def sample_amount claim_or_branch_def claim_def sample_env_def
        sample_db_def holds_key_def fits_columns_def charge_request_def Let_def)
  then show ?thesis
    using uncaptured_answers_move_nothing [OF sample_undisturbed(1), of sample_body None "''k''" ?db]
    by simp
qed

definition sample_config :: money_config where
  "sample_config = \<lparr>processor_api_key = ''pk'', internal_service_token = ''tok'', probe = (True, '''')\<rparr>"

definition sample_uuid :: string where
  "sample_uuid = uuid_text 0"

theorem front_doors_disagree_on_unapplied_witness:
  "status_of (fst (fst (post_payment sample_config sample_env sample_identity
      (sample_body\<lparr>cb_loan_id := 2\<rparr>) (Some ''csr'') None None (Some sample_uuid) sample_db))) = 424"
proof (rule front_doors_disagree_on_unapplied [THEN conjunct1])
  show "canonical_key sample_uuid = Some (uuid_text 0)"
    by (simp add: canonical_key_def sample_uuid_def uuid_parse_text)
  show "sample_uuid \<noteq> ''''" "uuid_text 0 \<noteq> ''''" by (simp_all add: sample_uuid_def uuid_text_def Let_def)
  show "key_free (uuid_text 0) sample_db" by (simp add: key_free_def sample_db_def)
  show "amount_minor_of (cb_amount (sample_body\<lparr>cb_loan_id := 2\<rparr>)) = Some 2500"
    by (simp add: sample_body_def sample_amount)
  show "fits_columns (charge_request (sha sample_env) (uuid_text 0) (sample_body\<lparr>cb_loan_id := 2\<rparr>) 2500)"
    by (simp add: fits_columns_def)
  show "cb_loan_id (sample_body\<lparr>cb_loan_id := 2\<rparr>) \<in> set (loan_ids sample_db)"
    "balances sample_db (cb_loan_id (sample_body\<lparr>cb_loan_id := 2\<rparr>)) = None"
    "application_of sample_db (next_id sample_db) = None"
    by (simp_all add: sample_db_def application_of_def)
  show "is_money_role (Some ''csr'')" by code_simp
  show "internal_service_token_configured sample_config"
    by (simp add: internal_service_token_configured_def sample_config_def char_code_def)
  show "\<forall>x. net sample_env \<noteq> Answered_elsewhere x" by (simp add: sample_env_def)
qed (simp_all add: sample_store sample_undisturbed sample_config_def processor_configured_def)

lemma sample_charge_changes:
  "snd (post_payment sample_config sample_env sample_identity sample_body (Some ''csr'') None None
     (Some sample_uuid) sample_db) \<noteq> sample_db"
proof -
  let ?env = "sample_env\<lparr>own_token := ''tok''\<rparr>"
  have ch: "chargeable (uuid_text 0) sample_body 2500 sample_db"
    using sample_chargeable by (simp add: chargeable_def key_free_def sample_db_def uuid_text_def Let_def)
  have "undisturbed ?env" "reaches_servicing ?env"
    by (simp_all add: undisturbed_def reaches_servicing_def sample_env_def)
  note first = charge_first [OF ch this, of None]
  have "next_id (snd (charge ?env sample_body None (Some (uuid_text 0)) sample_db)) \<noteq> next_id sample_db"
    unfolding first by (simp add: after_capture_def Let_def)
  moreover have "key_header (Some sample_uuid) = Inr (uuid_text 0)"
    by (simp add: key_header_Inr canonical_key_def sample_uuid_def uuid_parse_text)
      (simp add: uuid_text_def Let_def)
  moreover have "is_money_role (Some ''csr'')" by code_simp
  moreover have "internal_service_token_configured sample_config"
    by (simp add: internal_service_token_configured_def sample_config_def char_code_def)
  moreover have "internal_service_token sample_config = ''tok''" "fst (probe sample_config)"
    "processor_configured sample_config"
    by (simp_all add: sample_config_def processor_configured_def)
  ultimately show ?thesis
    by (auto simp: post_payment_def pay_gate.gate_privileged pay_role_eq split: prod.split)
qed

theorem charge_routes_fail_closed_witness:
  "is_money_role (Some ''csr'') \<or> (\<exists>i. as_int None = Some i \<and> owns_loan sample_identity 1 i)"
  using charge_routes_fail_closed [THEN conjunct1, THEN mp, THEN conjunct1,
      OF sample_charge_changes] by (simp add: sample_body_def)

theorem fingerprint_unambiguous_witness:
  "request_fingerprint (\<lambda>s. s) 1 100 ''card'' None \<noteq> request_fingerprint (\<lambda>s. s) 1 100 ''ach'' None"
  using fingerprint_unambiguous [of "\<lambda>s. s" 1 100 "''card''" None 1 100 "''ach''" None] by auto

end
