(* ===== verification/Dates.thy ===== *)
theory Dates
  imports Json
begin

text \<open>
  Calendar dates as Python's \<^verbatim>\<open>datetime.date\<close> has them: a date is its proleptic Gregorian
  ordinal, an instant its count of microseconds since ordinal 0 in UTC. Parsing follows
  \<^verbatim>\<open>strptime(s, "%Y-%m-%d")\<close> and printing \<^verbatim>\<open>isoformat()\<close>.
\<close>

definition leap_year :: "int \<Rightarrow> bool" where
  "leap_year y \<longleftrightarrow> y mod 4 = 0 \<and> (y mod 100 \<noteq> 0 \<or> y mod 400 = 0)"

definition month_lengths :: "int \<Rightarrow> int list" where
  "month_lengths y = [31, if leap_year y then 29 else 28, 31, 30, 31, 30, 31, 31, 30, 31, 30, 31]"

definition days_before_year :: "int \<Rightarrow> int" where
  "days_before_year y = (let z = y - 1 in z * 365 + z div 4 - z div 100 + z div 400)"

definition days_before_month :: "int \<Rightarrow> int \<Rightarrow> int" where
  "days_before_month y m = sum_list (take (nat (m - 1)) (month_lengths y))"

definition ymd_ok :: "int \<Rightarrow> int \<Rightarrow> int \<Rightarrow> bool" where
  "ymd_ok y m d \<longleftrightarrow> 1 \<le> y \<and> y \<le> 9999 \<and> 1 \<le> m \<and> m \<le> 12 \<and> 1 \<le> d \<and> d \<le> month_lengths y ! nat (m - 1)"

definition ord_of_ymd :: "int \<Rightarrow> int \<Rightarrow> int \<Rightarrow> int" where
  "ord_of_ymd y m d = days_before_year y + days_before_month y m + d"

text \<open>The month and day of a day number (from 0) within its year.\<close>

fun month_of_day :: "int list \<Rightarrow> int \<Rightarrow> int \<Rightarrow> int \<times> int" where
  "month_of_day [] m n = (m, n)"
| "month_of_day (l # ls) m n = (if n < l \<or> ls = [] then (m, n + 1) else month_of_day ls (m + 1) (n - l))"

definition year_of_ord :: "int \<Rightarrow> int" where
  "year_of_ord ord =
     (let n = ord - 1; n400 = n div 146097; r400 = n mod 146097;
          n100 = min 3 (r400 div 36524); r100 = r400 - n100 * 36524;
          n4 = r100 div 1461; r4 = r100 mod 1461; n1 = min 3 (r4 div 365)
      in 400 * n400 + 100 * n100 + 4 * n4 + n1 + 1)"

definition ymd_of_ord :: "int \<Rightarrow> int \<times> int \<times> int" where
  "ymd_of_ord ord =
     (let y = year_of_ord ord
      in case month_of_day (month_lengths y) 1 (ord - 1 - days_before_year y) of (m, d) \<Rightarrow> (y, m, d))"

definition pad2 :: "int \<Rightarrow> string" where
  "pad2 n = [digit_char (nat (n div 10 mod 10)), digit_char (nat (n mod 10))]"

definition iso_ymd :: "int \<times> int \<times> int \<Rightarrow> string" where
  "iso_ymd d = (case d of
     (y, m, d) \<Rightarrow> pad2 (y div 100) @ pad2 (y mod 100) @ ''-'' @ pad2 m @ ''-'' @ pad2 d)"

definition iso_date :: "int \<Rightarrow> string" where
  "iso_date ord = iso_ymd (ymd_of_ord ord)"

fun split_dash :: "string \<Rightarrow> string list" where
  "split_dash [] = [[]]"
| "split_dash (c # cs) =
     (if c = CHR ''-'' then [] # split_dash cs
      else case split_dash cs of [] \<Rightarrow> [[c]] | w # ws \<Rightarrow> (c # w) # ws)"

definition all_digits :: "string \<Rightarrow> bool" where
  "all_digits s \<longleftrightarrow> s \<noteq> [] \<and> list_all py_digit s"

text \<open>A day field may also be one digit after a blank.\<close>

definition parse_date :: "string \<Rightarrow> int option" where
  "parse_date s =
     (case split_dash s of
        [ys, ms, ds] \<Rightarrow>
          (let dd = (if length ds = 2 \<and> hd ds = CHR '' '' then tl ds else ds);
               y = digits_val ys; m = digits_val ms; d = digits_val dd
           in if all_digits ys \<and> length ys = 4 \<and> all_digits ms \<and> length ms \<le> 2 \<and>
                 all_digits dd \<and> length dd \<le> 2 \<and> ymd_ok y m d
              then Some (ord_of_ymd y m d) else None)
      | _ \<Rightarrow> None)"

definition micros_per_day :: int where
  "micros_per_day = 86400000000"

definition date_of :: "int \<Rightarrow> int" where
  "date_of instant = instant div micros_per_day"

definition midnight :: "int \<Rightarrow> int" where
  "midnight ord = ord * micros_per_day"

lemma le_div_iff: "0 < (n::int) \<Longrightarrow> a \<le> t div n \<longleftrightarrow> a * n \<le> t"
proof
  assume n: "0 < n" and "a \<le> t div n"
  then have "a * n \<le> t div n * n" by (intro mult_right_mono) simp_all
  also have "\<dots> \<le> t" using n div_mult_mod_eq [of t n] pos_mod_sign [OF n, of t] by linarith
  finally show "a * n \<le> t" .
next
  assume n: "0 < n" and "a * n \<le> t"
  then show "a \<le> t div n" using zdiv_mono1 [of "a * n" t n] by simp
qed

lemma date_of_between:
  "midnight a \<le> t \<and> t < midnight (b + 1) \<longleftrightarrow> a \<le> date_of t \<and> date_of t \<le> b"
proof -
  have n: "0 < micros_per_day" by (simp add: micros_per_day_def)
  have "t < midnight (b + 1) \<longleftrightarrow> \<not> midnight (b + 1) \<le> t" by (rule linorder_not_le [symmetric])
  also have "\<dots> \<longleftrightarrow> \<not> b + 1 \<le> date_of t"
    unfolding date_of_def midnight_def le_div_iff [OF n] ..
  also have "\<dots> \<longleftrightarrow> date_of t \<le> b" by linarith
  moreover have "midnight a \<le> t \<longleftrightarrow> a \<le> date_of t"
    unfolding date_of_def midnight_def le_div_iff [OF n] ..
  ultimately show ?thesis by simp
qed

lemma date_of_mono: "s \<le> t \<Longrightarrow> date_of s \<le> date_of t"
  unfolding date_of_def by (rule zdiv_mono1) (simp_all add: micros_per_day_def)

end
