(* ===== verification/DecimalText.thy ===== *)
theory DecimalText
  imports Dates Rounding
begin

text \<open>
  Decimal numbers as text, shared by the settlement reader and the disclosure documents: the
  strict spelling \<^verbatim>\<open>^\d+(\.\d+)?$\<close> and its value, and \<^verbatim>\<open>str()\<close> of a \<^verbatim>\<open>Decimal\<close>, given as its
  coefficient and exponent.
\<close>

section \<open>Plain decimals\<close>

text \<open>The value of a text that matches \<^verbatim>\<open>^\d+(\.\d+)?$\<close>.\<close>

definition plain_decimal :: "string \<Rightarrow> rat option" where
  "plain_decimal s =
     (let whole = takeWhile (\<lambda>c. c \<noteq> CHR ''.'') s; rest = dropWhile (\<lambda>c. c \<noteq> CHR ''.'') s
      in if \<not> all_digits whole then None
         else if rest = [] then Some (of_int (digits_val whole))
         else if all_digits (tl rest)
         then Some (of_int (digits_val (whole @ tl rest)) / 10 ^ length (tl rest))
         else None)"

lemma all_digits_nonneg: "list_all py_digit s \<Longrightarrow> 0 \<le> digits_val s"
  by (rule digits_val_nonneg)

lemma digits_val_bound: "list_all py_digit s \<Longrightarrow> digits_val s < 10 ^ length s"
proof (induction s rule: rev_induct)
  case Nil
  then show ?case by (simp add: digits_val_def)
next
  case (snoc c s)
  then have "digits_val s + 1 \<le> 10 ^ length s" "digit_val c \<le> 9"
    by (auto simp: py_digit_def digit_val_def)
  then show ?case by (simp add: digits_val_snoc)
qed

text \<open>A plain decimal is a whole number of some decimal unit, bounded by its digits.\<close>

lemma plain_decimalE:
  assumes "plain_decimal s = Some v"
  obtains m k where "v = of_int m / 10 ^ k" "0 \<le> m" "m < 10 ^ length s" "k < length s"
proof -
  define whole where "whole = takeWhile (\<lambda>c. c \<noteq> CHR ''.'') s"
  define rest where "rest = dropWhile (\<lambda>c. c \<noteq> CHR ''.'') s"
  have s: "s = whole @ rest" by (simp add: whole_def rest_def)
  have w: "all_digits whole" using assms
    by (auto simp: plain_decimal_def Let_def whole_def split: if_splits)
  show thesis
  proof (cases "rest = []")
    case True
    then have "v = of_int (digits_val whole) / 10 ^ 0" using assms w
      by (simp add: plain_decimal_def Let_def whole_def rest_def)
    moreover have "0 < length s" using w s by (auto simp: all_digits_def)
    ultimately show thesis using w s True digits_val_bound [of whole]
      by (intro that [of "digits_val whole" 0]) (simp_all add: all_digits_def all_digits_nonneg)
  next
    case False
    then have r: "all_digits (tl rest)" and
      v: "v = of_int (digits_val (whole @ tl rest)) / 10 ^ length (tl rest)"
      using assms w by (auto simp: plain_decimal_def Let_def whole_def rest_def split: if_splits)
    have d: "list_all py_digit (whole @ tl rest)" using w r by (simp add: all_digits_def)
    have len: "length (whole @ tl rest) + 1 = length s" using s False by (cases rest) simp_all
    then have "digits_val (whole @ tl rest) < 10 ^ length s"
      using digits_val_bound [OF d] power_increasing [of "length (whole @ tl rest)" "length s" "10::int"]
      by linarith
    then show thesis using that [OF v] d len s w all_digits_nonneg [OF d]
      by (cases rest) (auto simp: all_digits_def)
  qed
qed

section \<open>str of a Decimal\<close>

text \<open>A nonnegative \<^verbatim>\<open>Decimal\<close>: coefficient and exponent.\<close>

type_synonym decimal = "int \<times> int"

definition dec_val :: "decimal \<Rightarrow> rat" where
  "dec_val d = of_int (fst d) * 10 powi snd d"

definition dec_str :: "decimal \<Rightarrow> string" where
  "dec_str d =
     (let digits = show_int (fst d); n = int (length digits);
          leftdigits = snd d + n;
          dotplace = (if snd d \<le> 0 \<and> leftdigits > - 6 then leftdigits else 1);
          body = (if dotplace \<le> 0 then ''0.'' @ replicate (nat (- dotplace)) (CHR ''0'') @ digits
                  else if dotplace \<ge> n then digits @ replicate (nat (dotplace - n)) (CHR ''0'')
                  else take (nat dotplace) digits @ ''.'' @ drop (nat dotplace) digits)
      in body @ (if leftdigits = dotplace then ''''
                 else ''E'' @ (if leftdigits < dotplace then '''' else ''+'') @ show_int (leftdigits - dotplace)))"

text \<open>
  \<^verbatim>\<open>Decimal(str(x))\<close> of a nonnegative double below \<open>10 ^ 16\<close>: the fraction digits of its
  shortest form, one of them when it is whole.
\<close>

definition fraction_digits :: "rat \<Rightarrow> nat" where
  "fraction_digits v =
     (case find (\<lambda>k. of_int \<lfloor>v * 10 ^ k\<rfloor> = v * 10 ^ k) [0..<400] of Some k \<Rightarrow> k | None \<Rightarrow> 0)"

definition decimal_of_float :: "rat \<Rightarrow> decimal" where
  "decimal_of_float x =
     (let v = py_repr x; k = max 1 (fraction_digits v) in (\<lfloor>v * 10 ^ k\<rfloor>, - int k))"

end
