(* ===== verification/Settlement.thy ===== *)
theory Settlement
  imports DecimalText
begin

text \<open>
  Reading the two sides of a reconciliation
  (\<^verbatim>\<open>servicing-service/app/reconciliation.py\<close>): the money parser, the settlement file's rows and
  the ledger rows of the payments table. A \<^verbatim>\<open>ReconciliationAbort\<close> is a value of \<open>abort\<close>; the
  file is given as the records the standard library's \<^verbatim>\<open>csv\<close> reader yields for it.
\<close>

section \<open>Aborts\<close>

datatype row_fault =
    Missing_value string
  | Bad_date string
  | Bad_loan_id string
  | Bad_type string
  | Amount_missing
  | Amount_not_plain string
  | Sub_cent string

datatype abort =
    File_not_found
  | Unreadable
  | Missing_columns "string list"
  | Bad_row int row_fault
  | No_rows
  | Negative_tolerance int
  | Window_reversed int int
  | Ledger_query_failed
  | Created_at_missing int
  | Loan_id_missing int
  | Bad_payment int row_fault
  | Threshold_unset
  | Threshold_not_plain string
  | Threshold_not_positive int
  | Suspect_window_unset
  | Suspect_window_not_integer string
  | Suspect_window_too_large int
  | Suspect_window_not_positive int
  | Bad_cli_date string

section \<open>Money\<close>

definition cents_exactly :: "rat \<Rightarrow> int option" where
  "cents_exactly v = (let scaled = dec28 (v * 100)
     in if of_int \<lfloor>scaled\<rfloor> = scaled then Some \<lfloor>scaled\<rfloor> else None)"

definition minor_units :: "string option \<Rightarrow> row_fault + int" where
  "minor_units raw =
     (case raw of
        None \<Rightarrow> Inl Amount_missing
      | Some r \<Rightarrow>
          (let text = strip r in
           case plain_decimal text of
             None \<Rightarrow> Inl (Amount_not_plain text)
           | Some v \<Rightarrow> (case cents_exactly v of None \<Rightarrow> Inl (Sub_cent text) | Some n \<Rightarrow> Inr n)))"

text \<open>
  The same on a DOUBLE PRECISION column: \<^verbatim>\<open>str(x)\<close> is a plain decimal exactly when the shortest
  form needs no sign and no exponent.
\<close>

definition minor_units_of_double :: "rat \<Rightarrow> row_fault + int" where
  "minor_units_of_double x =
     (let v = py_repr x
      in if v = 0 \<or> (1 / 10 ^ 4 \<le> v \<and> v < 10 ^ 16)
         then (case cents_exactly v of None \<Rightarrow> Inl (Sub_cent '''') | Some n \<Rightarrow> Inr n)
         else Inl (Amount_not_plain ''''))"

section \<open>The settlement file\<close>

record settlement_row =
  settlement_date :: int
  processor_ref :: string
  s_loan_id :: int
  s_amount_minor :: int
  row_type :: string

definition required_columns :: "string list" where
  "required_columns = [''settlement_date'', ''processor_ref'', ''loan_id'', ''amount'', ''type'']"

definition blank_value :: "(string \<rightharpoonup> string) \<Rightarrow> string \<Rightarrow> bool" where
  "blank_value raw column \<longleftrightarrow> (case raw column of None \<Rightarrow> True | Some v \<Rightarrow> strip v = '''')"

definition cell :: "(string \<rightharpoonup> string) \<Rightarrow> string \<Rightarrow> string" where
  "cell raw column = strip (the (raw column))"

definition parse_settlement_row :: "(string \<rightharpoonup> string) \<Rightarrow> row_fault + settlement_row" where
  "parse_settlement_row raw =
     (case find (blank_value raw) required_columns of
        Some column \<Rightarrow> Inl (Missing_value column)
      | None \<Rightarrow>
          (case parse_date (cell raw ''settlement_date'') of
             None \<Rightarrow> Inl (Bad_date (cell raw ''settlement_date''))
           | Some day \<Rightarrow>
               if \<not> all_digits (cell raw ''loan_id'') then Inl (Bad_loan_id (cell raw ''loan_id''))
               else if cell raw ''type'' \<notin> {''capture'', ''refund''}
               then Inl (Bad_type (cell raw ''type''))
               else bind_result (minor_units (raw ''amount''))
                 (\<lambda>n. Inr \<lparr>settlement_date = day, processor_ref = cell raw ''processor_ref'',
                           s_loan_id = digits_val (cell raw ''loan_id''), s_amount_minor = n,
                           row_type = cell raw ''type''\<rparr>)))"

datatype settlement_file = Absent | Read_error | Records "string list list"

definition tag_error :: "('e \<Rightarrow> 'f) \<Rightarrow> 'e + 'a \<Rightarrow> 'f + 'a" where
  "tag_error f r = (case r of Inl e \<Rightarrow> Inl (f e) | Inr x \<Rightarrow> Inr x)"

text \<open>\<^verbatim>\<open>csv.DictReader\<close>: the first record names the columns, empty records are skipped.\<close>

definition dict_rows :: "string list \<Rightarrow> string list list \<Rightarrow> (int \<times> (string \<rightharpoonup> string)) list" where
  "dict_rows columns records =
     (let rows = filter (\<lambda>r. r \<noteq> []) records
      in zip (map (\<lambda>i. int i + 2) [0..<length rows]) (map (\<lambda>r. map_of (rev (zip columns r))) rows))"

definition load_settlement :: "settlement_file \<Rightarrow> abort + settlement_row list" where
  "load_settlement file =
     (case file of
        Absent \<Rightarrow> Inl File_not_found
      | Read_error \<Rightarrow> Inl Unreadable
      | Records records \<Rightarrow>
          (let columns = (case records of [] \<Rightarrow> [] | h # _ \<Rightarrow> h);
               missing = filter (\<lambda>c. c \<notin> set columns) required_columns
           in if missing \<noteq> [] then Inl (Missing_columns missing)
              else bind_result
                (map_result (\<lambda>(n, raw). tag_error (Bad_row n) (parse_settlement_row raw))
                   (dict_rows columns (tl records)))
                (\<lambda>rows. if rows = [] then Inl No_rows else Inr rows)))"

section \<open>The ledger\<close>

text \<open>A payments row as the query returns it, and the rows it is asked for.\<close>

record payments_record =
  r_id :: int
  r_loan_id :: "int option"
  r_amount :: rat
  r_created_at :: "int option"

record ledger_row =
  payment_id :: int
  l_loan_id :: int
  l_amount_minor :: int
  created_at :: int

definition order_key :: "payments_record \<Rightarrow> (bool \<times> int) \<times> rat \<times> int \<times> int" where
  "order_key r = ((r_loan_id r = None, case r_loan_id r of None \<Rightarrow> 0 | Some l \<Rightarrow> l), r_amount r,
     case r_created_at r of None \<Rightarrow> 0 | Some t \<Rightarrow> t, r_id r)"

definition ledger_query :: "payments_record list \<Rightarrow> int \<Rightarrow> int \<Rightarrow> payments_record list" where
  "ledger_query table window_from window_to =
     sort_key order_key (filter (\<lambda>r. case r_created_at r of
         None \<Rightarrow> False
       | Some t \<Rightarrow> midnight window_from \<le> t \<and> t < midnight (window_to + 1)) table)"

text \<open>One iteration of the loop; \<open>Inr None\<close> is the \<^verbatim>\<open>continue\<close>.\<close>

definition ledger_entry :: "int \<Rightarrow> int \<Rightarrow> payments_record \<Rightarrow> abort + ledger_row option" where
  "ledger_entry window_from window_to r =
     (case r_created_at r of
        None \<Rightarrow> Inl (Created_at_missing (r_id r))
      | Some t \<Rightarrow>
          (case r_loan_id r of
             None \<Rightarrow> Inl (Loan_id_missing (r_id r))
           | Some loan \<Rightarrow>
               if \<not> (window_from \<le> date_of t \<and> date_of t \<le> window_to) then Inr None
               else bind_result (tag_error (Bad_payment (r_id r)) (minor_units_of_double (r_amount r)))
                 (\<lambda>n. Inr (Some \<lparr>payment_id = r_id r, l_loan_id = loan, l_amount_minor = n,
                                 created_at = t\<rparr>))))"

text \<open>\<open>None\<close> for the table is a failed query.\<close>

definition load_ledger :: "payments_record list option \<Rightarrow> int \<Rightarrow> int \<Rightarrow> abort + ledger_row list" where
  "load_ledger table window_from window_to =
     (case table of
        None \<Rightarrow> Inl Ledger_query_failed
      | Some rows \<Rightarrow>
          bind_result (map_result (ledger_entry window_from window_to)
             (ledger_query rows window_from window_to))
            (\<lambda>entries. Inr (List.map_filter (\<lambda>e. e) entries)))"

section \<open>Facts\<close>

lemma cents_exactly_of_cents: "\<bar>n\<bar> < 10 ^ 28 \<Longrightarrow> cents_exactly (of_int n / 100) = Some n"
  using dec28_exact [of n 0] by (simp add: cents_exactly_def)

lemma cents_exactly_Some: "cents_exactly v = Some n \<longleftrightarrow> dec28 (v * 100) = of_int n"
  by (auto simp: cents_exactly_def Let_def)

lemma dec28_small:
  assumes "0 \<le> m" "m < 10 ^ 26"
  shows "dec28 (of_int m / 10 ^ k * 100) = of_int m / 10 ^ k * 100"
proof -
  have "\<bar>100 * m\<bar> < 10 ^ 28" using assms by simp
  then show ?thesis using dec28_exact [of "100 * m" k] by (simp add: mult.commute)
qed

lemma double_minor_units:
  assumes "\<bar>n\<bar> < 10 ^ 15"
  shows "minor_units_of_double (fl (of_int n / 100)) =
     (if 0 \<le> n then Inr n else Inl (Amount_not_plain ''''))"
proof -
  have r: "py_repr (fl (of_int n / 100)) = of_int n / 100"
    using sig_repr_of_int_div [of 10 n 15 2] assms by (intro py_repr_round_trip) simp
  have c: "cents_exactly (of_int n / 100) = Some n"
    by (rule cents_exactly_of_cents) (use assms in simp)
  consider "n = 0" | "0 < n" | "n < 0" by linarith
  then show ?thesis
  proof cases
    case 1
    then show ?thesis using r c by (simp add: minor_units_of_double_def)
  next
    case 2
    then have "(1::rat) / 10 ^ 4 \<le> of_int n / 100" "(of_int n :: rat) / 100 < 10 ^ 16"
      using assms of_int_less_iff [of n "10 ^ 15", where 'a = rat] of_int_le_iff [of 1 n, where 'a = rat]
      by simp_all
    then show ?thesis using 2 unfolding minor_units_of_double_def Let_def r c by simp
  next
    case 3
    then show ?thesis using r by (simp add: minor_units_of_double_def Let_def)
  qed
qed

lemma negative_amount_not_plain:
  "n < 0 \<Longrightarrow> - (10 ^ 15) < n \<Longrightarrow>
     minor_units_of_double (fl (of_int n / 100)) = Inl (Amount_not_plain '''')"
  using double_minor_units [of n] by simp

section \<open>Properties\<close>

text \<open>The verifier never moves a figure: for any amount text of up to 26 characters, the
  parser answers \<open>n\<close> minor units exactly when the text is a plain decimal worth exactly \<open>n\<close>
  cents; sub-cent precision, signs, exponents and separators abort.\<close>

theorem minor_units_never_rounds:
  assumes "length (strip s) \<le> 26"
  shows "minor_units (Some s) = Inr n \<longleftrightarrow> plain_decimal (strip s) = Some (of_int n / 100)"
proof (cases "plain_decimal (strip s)")
  case None
  then show ?thesis by (simp add: minor_units_def Let_def)
next
  case (Some v)
  obtain m k where v: "v = of_int m / 10 ^ k" and m: "0 \<le> m" "m < 10 ^ length (strip s)"
    using Some by (rule plain_decimalE)
  have "(10::int) ^ length (strip s) \<le> 10 ^ 26" using assms by (intro power_increasing) simp_all
  then have "dec28 (v * 100) = v * 100" unfolding v using m by (intro dec28_small) simp_all
  then have "cents_exactly v = Some n \<longleftrightarrow> v = of_int n / 100"
    by (auto simp: cents_exactly_Some)
  moreover have "minor_units (Some s) = Inr n \<longleftrightarrow> cents_exactly v = Some n"
    using Some by (cases "cents_exactly v") (simp_all add: minor_units_def Let_def)
  ultimately show ?thesis using Some by simp
qed

theorem minor_units_never_rounds_witness:
  "plain_decimal ''1.50'' = Some (of_int 150 / 100)"
proof -
  have s: "strip ''1.50'' = ''1.50''" by code_simp
  have "minor_units (Some ''1.50'') = Inr 150" by code_simp
  then show ?thesis using minor_units_never_rounds [of "''1.50''" 150] unfolding s by simp
qed

text \<open>The ledger side reads what was charged: a payment of \<open>n\<close> cents, stored as the double the
  charge received, is read back by the reconciliation as exactly \<open>n\<close> minor units; a payment of a
  negative amount, which the charge path accepts, makes the reconciliation abort.\<close>

theorem ledger_amount_round_trip:
  assumes "\<bar>n\<bar> < 10 ^ 15"
  shows "minor_units_of_double (fl (of_int n / 100)) =
     (if 0 \<le> n then Inr n else Inl (Amount_not_plain ''''))"
  using assms by (rule double_minor_units)

theorem ledger_amount_round_trip_witness:
  "minor_units_of_double (fl (of_int (- 2500) / 100)) = Inl (Amount_not_plain '''')"
  using ledger_amount_round_trip [of "- 2500"] by simp

text \<open>Beyond 28 digits the multiplication rounds, and a sub-cent figure is taken for whole cents.\<close>

lemma sub_cent_beyond_precision:
  "minor_units (Some ''1.0000000000000000000000000000001'') = Inr 100"
  by code_simp

end
