(* ===== verification/Matching.thy ===== *)
theory Matching
  imports Settlement "HOL-Library.Multiset"
begin

text \<open>
  The matcher of \<^verbatim>\<open>reconciliation.py\<close>: \<^verbatim>\<open>_within\<close>, \<^verbatim>\<open>_rank_candidate\<close> and the two passes of
  \<^verbatim>\<open>_match\<close>, and the duplicate scan \<^verbatim>\<open>_find_duplicate_suspects\<close>. Both passes of \<^verbatim>\<open>_match\<close>
  run the same loop over claim flags, \<open>claim_pass\<close>, under two conditions. Python's frozensets of
  rows are lists searched by equality.
\<close>

section \<open>Candidates\<close>

definition within_days :: "int \<Rightarrow> ledger_row \<Rightarrow> settlement_row \<Rightarrow> bool" where
  "within_days tolerance_days l s \<longleftrightarrow> \<bar>settlement_date s - date_of (created_at l)\<bar> \<le> tolerance_days"

type_synonym rank = "int \<times> bool \<times> int \<times> string"

definition rank_candidate :: "settlement_row list \<Rightarrow> ledger_row \<Rightarrow> settlement_row \<Rightarrow> rank" where
  "rank_candidate true_window_captures l capture =
     (\<bar>settlement_date capture - date_of (created_at l)\<bar>, capture \<notin> set true_window_captures,
      settlement_date capture, processor_ref capture)"

section \<open>One pass\<close>

text \<open>
  The result: the pairs (ledger row, index of the capture it claimed), the ledger rows left
  without a candidate, and the claim flags.
\<close>

fun claim_pass ::
  "(ledger_row \<Rightarrow> settlement_row \<Rightarrow> bool) \<Rightarrow> (ledger_row \<Rightarrow> settlement_row \<Rightarrow> rank) \<Rightarrow>
   settlement_row list \<Rightarrow> ledger_row list \<Rightarrow> bool list \<Rightarrow>
   (ledger_row \<times> nat) list \<times> ledger_row list \<times> bool list" where
  "claim_pass eligible rank captures [] claimed = ([], [], claimed)"
| "claim_pass eligible rank captures (l # ls) claimed =
     (case filter (\<lambda>i. \<not> claimed ! i \<and> eligible l (captures ! i)) [0..<length captures] of
        [] \<Rightarrow>
          (case claim_pass eligible rank captures ls claimed of
             (pairs, unmatched, flags) \<Rightarrow> (pairs, l # unmatched, flags))
      | i # rest \<Rightarrow>
          (let best = min_by (\<lambda>i. rank l (captures ! i)) i rest in
           case claim_pass eligible rank captures ls (claimed[best := True]) of
             (pairs, unmatched, flags) \<Rightarrow> ((l, best) # pairs, unmatched, flags)))"

definition unclaimed :: "settlement_row list \<Rightarrow> bool list \<Rightarrow> settlement_row list" where
  "unclaimed captures flags = map ((!) captures) (filter (\<lambda>i. \<not> flags ! i) [0..<length captures])"

text \<open>What one pass guarantees, whatever the condition and the ranking.\<close>

definition pass_ok ::
  "(ledger_row \<Rightarrow> settlement_row \<Rightarrow> bool) \<Rightarrow> settlement_row list \<Rightarrow> ledger_row list \<Rightarrow> bool list \<Rightarrow>
   (ledger_row \<times> nat) list \<Rightarrow> ledger_row list \<Rightarrow> bool list \<Rightarrow> bool" where
  "pass_ok eligible captures ls claimed pairs unmatched flags \<longleftrightarrow>
     mset ls = mset (map fst pairs) + mset unmatched \<and> distinct (map snd pairs) \<and>
     (\<forall>(l, i) \<in> set pairs. i < length captures \<and> \<not> claimed ! i \<and> eligible l (captures ! i)) \<and>
     length flags = length captures \<and>
     (\<forall>i < length captures. flags ! i \<longleftrightarrow> claimed ! i \<or> i \<in> snd ` set pairs) \<and>
     (\<forall>l \<in> set unmatched. \<forall>i < length captures. eligible l (captures ! i) \<longrightarrow> flags ! i)"

lemma pass_ok_claim:
  assumes b: "b < length captures" "\<not> claimed ! b" "eligible l (captures ! b)"
    and len: "length claimed = length captures"
    and ok: "pass_ok eligible captures ls (claimed[b := True]) pairs unmatched flags"
  shows "pass_ok eligible captures (l # ls) claimed ((l, b) # pairs) unmatched flags"
proof -
  have "i \<noteq> b" "\<not> claimed ! i" if "(k, i) \<in> set pairs" for k i
    using ok that b(1) len unfolding pass_ok_def by (metis (no_types, lifting) case_prodD nth_list_update)+
  then have nb: "\<forall>(k, i) \<in> set pairs. i \<noteq> b \<and> \<not> claimed ! i" by blast
  have fl: "flags ! i \<longleftrightarrow> claimed ! i \<or> i \<in> snd ` set ((l, b) # pairs)" if "i < length captures" for i
    using ok that b(1) len unfolding pass_ok_def by (cases "i = b") auto
  have left: "\<forall>k \<in> set unmatched. \<forall>i < length captures. eligible k (captures ! i) \<longrightarrow> flags ! i"
    using ok unfolding pass_ok_def by blast
  have dist: "distinct (map snd ((l, b) # pairs))" using ok nb unfolding pass_ok_def by auto
  have pairs: "\<forall>(k, i) \<in> set ((l, b) # pairs). i < length captures \<and> \<not> claimed ! i \<and>
      eligible k (captures ! i)"
    using ok b nb unfolding pass_ok_def by auto
  have "mset (l # ls) = mset (map fst ((l, b) # pairs)) + mset unmatched" "length flags = length captures"
    using ok unfolding pass_ok_def by simp_all
  then show ?thesis unfolding pass_ok_def using fl left dist pairs by blast
qed

lemma claim_pass_ok:
  assumes "length claimed = length captures"
    and "claim_pass eligible rank captures ls claimed = (pairs, unmatched, flags)"
  shows "pass_ok eligible captures ls claimed pairs unmatched flags"
  using assms
proof (induction ls arbitrary: claimed pairs unmatched flags)
  case Nil
  then show ?case by (simp add: pass_ok_def)
next
  case (Cons l ls)
  let ?c = "filter (\<lambda>i. \<not> claimed ! i \<and> eligible l (captures ! i)) [0..<length captures]"
  show ?case
  proof (cases ?c)
    case Nil
    obtain us where r: "claim_pass eligible rank captures ls claimed = (pairs, us, flags)"
      "unmatched = l # us"
      using Cons.prems(2) Nil by (auto split: prod.splits)
    have ih: "pass_ok eligible captures ls claimed pairs us flags"
      using Cons.IH [OF Cons.prems(1) r(1)] .
    have "\<forall>i < length captures. eligible l (captures ! i) \<longrightarrow> claimed ! i"
      using Nil by (auto simp: filter_empty_conv)
    then show ?thesis using ih r(2) unfolding pass_ok_def by auto
  next
    case (Cons i rest)
    let ?b = "min_by (\<lambda>i. rank l (captures ! i)) i rest"
    have "?b \<in> set ?c" using min_by_in [of "\<lambda>i. rank l (captures ! i)" i rest] unfolding Cons by simp
    then have b: "?b < length captures" "\<not> claimed ! ?b" "eligible l (captures ! ?b)" by auto
    obtain ps where r: "claim_pass eligible rank captures ls (claimed[?b := True]) =
        (ps, unmatched, flags)" "pairs = (l, ?b) # ps"
      using Cons.prems(2) Cons by (auto simp: Let_def split: prod.splits)
    have "pass_ok eligible captures ls (claimed[?b := True]) ps unmatched flags"
      using Cons.IH [OF _ r(1)] Cons.prems(1) by simp
    then show ?thesis unfolding r(2) using pass_ok_claim b Cons.prems(1) by blast
  qed
qed

text \<open>Claimed and unclaimed captures partition the captures.\<close>

lemma mset_claimed_unclaimed:
  assumes "distinct is" "\<And>i. i < length captures \<Longrightarrow> flags ! i \<longleftrightarrow> i \<in> set is"
    "set is \<subseteq> {..<length captures}"
  shows "mset captures = mset (map ((!) captures) is) + mset (unclaimed captures flags)"
proof -
  let ?all = "[0..<length captures]"
  have "mset is = mset (filter (\<lambda>i. flags ! i) ?all)"
    using assms by (intro set_eq_iff_mset_eq_distinct [THEN iffD1]) auto
  then have "mset (map ((!) captures) is) = mset (map ((!) captures) (filter (\<lambda>i. flags ! i) ?all))"
    by simp
  moreover have "mset captures = mset (map ((!) captures) ?all)" by (simp add: map_nth)
  moreover have "mset ?all = mset (filter (\<lambda>i. flags ! i) ?all) + mset (filter (\<lambda>i. \<not> flags ! i) ?all)"
    unfolding mset_filter by (rule multiset_partition)
  ultimately show ?thesis unfolding unclaimed_def by (metis image_mset_union mset_map)
qed

section \<open>The matcher\<close>

definition exact_ok :: "int \<Rightarrow> ledger_row \<Rightarrow> settlement_row \<Rightarrow> bool" where
  "exact_ok tolerance_days l s \<longleftrightarrow> s_loan_id s = l_loan_id l \<and>
     s_amount_minor s = l_amount_minor l \<and> within_days tolerance_days l s"

definition loose_ok :: "int \<Rightarrow> ledger_row \<Rightarrow> settlement_row \<Rightarrow> bool" where
  "loose_ok tolerance_days l s \<longleftrightarrow> s_loan_id s = l_loan_id l \<and> within_days tolerance_days l s"

definition match_rows ::
  "ledger_row list \<Rightarrow> settlement_row list \<Rightarrow> int \<Rightarrow> ledger_row list \<Rightarrow> settlement_row list \<Rightarrow>
   nat \<times> ledger_row list \<times> settlement_row list \<times> (ledger_row \<times> settlement_row) list" where
  "match_rows ledger captures tolerance_days true_window_ledger true_window_captures =
     (let rank = rank_candidate true_window_captures;
          ordered_ledger = sort_key (\<lambda>r. (l_loan_id r, l_amount_minor r,
            r \<notin> set true_window_ledger, created_at r, payment_id r)) ledger;
          ordered_captures = sort_key (\<lambda>r. (s_loan_id r, s_amount_minor r,
            settlement_date r, processor_ref r)) captures
      in case claim_pass (exact_ok tolerance_days) rank ordered_captures ordered_ledger
             (replicate (length ordered_captures) False) of
        (pairs, unmatched, flags) \<Rightarrow>
          (let unmatched_ledger = sort_key (\<lambda>r. (l_loan_id r, r \<notin> set true_window_ledger,
                 created_at r, payment_id r)) unmatched;
               unmatched_captures = sort_key (\<lambda>r. (s_loan_id r, settlement_date r, processor_ref r))
                 (unclaimed ordered_captures flags)
           in case claim_pass (loose_ok tolerance_days) rank unmatched_captures unmatched_ledger
                  (replicate (length unmatched_captures) False) of
             (mm, remaining_ledger, flags2) \<Rightarrow>
               (length pairs, remaining_ledger, unclaimed unmatched_captures flags2,
                map (\<lambda>(l, i). (l, unmatched_captures ! i)) mm)))"

lemma claim_pass_start:
  assumes "claim_pass eligible rank captures ls (replicate (length captures) False) =
      (pairs, unmatched, flags)"
  shows "mset ls = mset (map fst pairs) + mset unmatched"
    and "mset captures = mset (map (\<lambda>(l, i). captures ! i) pairs) + mset (unclaimed captures flags)"
    and "\<forall>(l, i) \<in> set pairs. i < length captures \<and> eligible l (captures ! i)"
    and "\<forall>l \<in> set unmatched. \<forall>s \<in> set (unclaimed captures flags). \<not> eligible l s"
proof -
  have ok: "pass_ok eligible captures ls (replicate (length captures) False) pairs unmatched flags"
    using claim_pass_ok [OF _ assms] by simp
  have fl: "flags ! i \<longleftrightarrow> i \<in> set (map snd pairs)" if "i < length captures" for i
    using ok that by (simp add: pass_ok_def)
  have sub: "set (map snd pairs) \<subseteq> {..<length captures}" using ok by (auto simp: pass_ok_def)
  have "mset captures = mset (map ((!) captures) (map snd pairs)) + mset (unclaimed captures flags)"
    using ok fl sub by (intro mset_claimed_unclaimed) (simp_all add: pass_ok_def)
  moreover have "map ((!) captures) (map snd pairs) = map (\<lambda>(l, i). captures ! i) pairs"
    by (simp add: case_prod_unfold)
  ultimately show "mset captures =
      mset (map (\<lambda>(l, i). captures ! i) pairs) + mset (unclaimed captures flags)" by metis
  show "mset ls = mset (map fst pairs) + mset unmatched"
    "\<forall>(l, i) \<in> set pairs. i < length captures \<and> eligible l (captures ! i)"
    "\<forall>l \<in> set unmatched. \<forall>s \<in> set (unclaimed captures flags). \<not> eligible l s"
    using ok by (auto simp: pass_ok_def unclaimed_def)
qed

text \<open>What a matching is: a partition of both sides into exact pairs, differing pairs and rests.\<close>

definition sound_matching ::
  "int \<Rightarrow> ledger_row list \<Rightarrow> settlement_row list \<Rightarrow> (ledger_row \<times> settlement_row) list \<Rightarrow>
   ledger_row list \<Rightarrow> settlement_row list \<Rightarrow> (ledger_row \<times> settlement_row) list \<Rightarrow> bool" where
  "sound_matching tol ledger captures pairs rl rc mm \<longleftrightarrow>
     mset ledger = mset (map fst pairs) + mset (map fst mm) + mset rl \<and>
     mset captures = mset (map snd pairs) + mset (map snd mm) + mset rc \<and>
     (\<forall>(l, s) \<in> set pairs. exact_ok tol l s) \<and>
     (\<forall>(l, s) \<in> set mm. loose_ok tol l s \<and> s_amount_minor s \<noteq> l_amount_minor l) \<and>
     (\<forall>l \<in> set rl. \<forall>s \<in> set rc. \<not> loose_ok tol l s)"

lemma loose_not_exact: "loose_ok t l s \<Longrightarrow> \<not> exact_ok t l s \<Longrightarrow> s_amount_minor s \<noteq> l_amount_minor l"
  by (auto simp: loose_ok_def exact_ok_def)

lemma match_rows_sound:
  assumes "match_rows ledger captures tol twl twc = (n, rl, rc, mm)"
  shows "\<exists>pairs. length pairs = n \<and> sound_matching tol ledger captures pairs rl rc mm"
proof -
  let ?rank = "rank_candidate twc"
  define ol where "ol = sort_key (\<lambda>r. (l_loan_id r, l_amount_minor r,
            r \<notin> set twl, created_at r, payment_id r)) ledger"
  define oc where "oc = sort_key (\<lambda>r. (s_loan_id r, s_amount_minor r,
            settlement_date r, processor_ref r)) captures"
  obtain ps us fs where p1: "claim_pass (exact_ok tol) ?rank oc ol (replicate (length oc) False) =
      (ps, us, fs)" by (metis prod_cases3)
  define ul where "ul = sort_key (\<lambda>r. (l_loan_id r, r \<notin> set twl, created_at r, payment_id r)) us"
  define uc where "uc = sort_key (\<lambda>r. (s_loan_id r, settlement_date r, processor_ref r)) (unclaimed oc fs)"
  obtain qs vs gs where p2: "claim_pass (loose_ok tol) ?rank uc ul (replicate (length uc) False) =
      (qs, vs, gs)" by (metis prod_cases3)
  have res: "n = length ps" "rl = vs" "rc = unclaimed uc gs" "mm = map (\<lambda>(l, i). (l, uc ! i)) qs"
    using assms p1 p2 unfolding match_rows_def Let_def ol_def oc_def ul_def uc_def by simp_all
  note c1 = claim_pass_start [OF p1] and c2 = claim_pass_start [OF p2]
  let ?pairs = "map (\<lambda>(l, i). (l, oc ! i)) ps"
  have m: "mset ol = mset ledger" "mset oc = mset captures" "mset ul = mset us"
    "mset uc = mset (unclaimed oc fs)" "set ul = set us" "set uc = set (unclaimed oc fs)"
    by (simp_all add: ol_def oc_def ul_def uc_def)
  have proj: "map fst (map (\<lambda>(l, i). (l, xs ! i)) zs) = map fst zs"
    "map snd (map (\<lambda>(l, i). (l, xs ! i)) zs) = map (\<lambda>(l, i). xs ! i) zs"
    for xs :: "settlement_row list" and zs :: "(ledger_row \<times> nat) list"
    by (simp_all add: case_prod_unfold)
  have "mset ledger = mset (map fst ?pairs) + mset (map fst mm) + mset rl"
    unfolding res(4,2) proj using c1(1) c2(1) m by (simp only: add.assoc)
  moreover have "mset captures = mset (map snd ?pairs) + mset (map snd mm) + mset rc"
    unfolding res(4,3) proj using c1(2) c2(2) m by (simp only: add.assoc)
  moreover have "\<forall>(l, s) \<in> set ?pairs. exact_ok tol l s" using c1(3) by auto
  moreover have "\<forall>(l, s) \<in> set mm. loose_ok tol l s \<and> s_amount_minor s \<noteq> l_amount_minor l"
  proof -
    have "loose_ok tol l (uc ! i) \<and> s_amount_minor (uc ! i) \<noteq> l_amount_minor l"
      if q: "(l, i) \<in> set qs" for l i
    proof -
      have lo: "loose_ok tol l (uc ! i)" "i < length uc" using c2(3) q by auto
      have "l \<in> set (map fst qs)" using q by force
      then have "l \<in> set us" using c2(1) m(3) by (metis UnCI set_mset_mset set_mset_union)
      moreover have "uc ! i \<in> set (unclaimed oc fs)" using lo(2) m(6) nth_mem by blast
      ultimately show ?thesis using c1(4) lo(1) loose_not_exact by blast
    qed
    then show ?thesis unfolding res(4) by auto
  qed
  moreover have "\<forall>l \<in> set rl. \<forall>s \<in> set rc. \<not> loose_ok tol l s" using c2(4) res by simp
  ultimately have "sound_matching tol ledger captures ?pairs rl rc mm" by (simp add: sound_matching_def)
  then show ?thesis using res(1) by (intro exI [of _ ?pairs]) simp
qed

section \<open>Duplicate suspects\<close>

record suspect =
  d_loan_id :: int
  d_amount_minor :: int
  d_occurred_on :: int
  gap_seconds :: int
  first_payment_id :: int
  second_payment_id :: int

definition suspect_candidates :: "ledger_row list \<Rightarrow> int \<Rightarrow> (ledger_row \<times> ledger_row) list" where
  "suspect_candidates rows window_seconds =
     (let ordered = sort_key (\<lambda>r. (created_at r, payment_id r)) rows
      in filter (\<lambda>(a, b). created_at b - created_at a \<le> window_seconds * 1000000)
           (zip ordered (tl ordered)))"

fun claim_suspects :: "(ledger_row \<times> ledger_row) list \<Rightarrow> int set \<Rightarrow> (ledger_row \<times> ledger_row) list" where
  "claim_suspects [] claimed = []"
| "claim_suspects ((a, b) # rest) claimed =
     (if payment_id a \<in> claimed \<or> payment_id b \<in> claimed then claim_suspects rest claimed
      else (a, b) # claim_suspects rest (insert (payment_id a) (insert (payment_id b) claimed)))"

definition to_suspect :: "ledger_row \<times> ledger_row \<Rightarrow> suspect" where
  "to_suspect p = (case p of (a, b) \<Rightarrow>
     \<lparr>d_loan_id = l_loan_id a, d_amount_minor = l_amount_minor a, d_occurred_on = date_of (created_at a),
      gap_seconds = (created_at b - created_at a) div 1000000,
      first_payment_id = payment_id a, second_payment_id = payment_id b\<rparr>)"

definition group_suspects :: "int \<Rightarrow> int set \<Rightarrow> ledger_row list \<Rightarrow> (ledger_row \<times> ledger_row) list" where
  "group_suspects window_seconds true_ids rows =
     claim_suspects
       (sort_key (\<lambda>(a, b). (\<not> (payment_id a \<in> true_ids \<or> payment_id b \<in> true_ids),
            created_at a, payment_id a))
         (suspect_candidates rows window_seconds)) {}"

definition group_key :: "ledger_row \<Rightarrow> int \<times> int" where
  "group_key r = (l_loan_id r, l_amount_minor r)"

text \<open>The groups in the order their first rows appear.\<close>

definition group_keys :: "ledger_row list \<Rightarrow> (int \<times> int) list" where
  "group_keys ledger = rev (remdups (rev (map group_key ledger)))"

definition suspect_pairs :: "ledger_row list \<Rightarrow> int \<Rightarrow> int set \<Rightarrow> (ledger_row \<times> ledger_row) list" where
  "suspect_pairs ledger window_seconds true_ids =
     concat (map (\<lambda>k. group_suspects window_seconds true_ids (filter (\<lambda>r. group_key r = k) ledger))
       (group_keys ledger))"

definition find_duplicate_suspects :: "ledger_row list \<Rightarrow> int \<Rightarrow> int set \<Rightarrow> suspect list" where
  "find_duplicate_suspects ledger window_seconds true_ids =
     sort_key (\<lambda>s. (d_loan_id s, d_amount_minor s, d_occurred_on s))
       (map to_suspect (suspect_pairs ledger window_seconds true_ids))"

definition pair_ids :: "ledger_row \<times> ledger_row \<Rightarrow> int list" where
  "pair_ids p = [payment_id (fst p), payment_id (snd p)]"

lemma pair_ids_pair: "pair_ids (a, b) = [payment_id a, payment_id b]"
  by (simp add: pair_ids_def)

definition suspect_ids :: "suspect \<Rightarrow> int list" where
  "suspect_ids s = [first_payment_id s, second_payment_id s]"

lemma claim_suspects_subset: "set (claim_suspects cs claimed) \<subseteq> set cs"
  by (induction cs claimed rule: claim_suspects.induct) auto

lemma claim_suspects_disjoint:
  assumes "\<forall>(a, b) \<in> set cs. payment_id a \<noteq> payment_id b"
  shows "distinct (concat (map pair_ids (claim_suspects cs claimed))) \<and>
    set (concat (map pair_ids (claim_suspects cs claimed))) \<inter> claimed = {}"
  using assms
proof (induction cs claimed rule: claim_suspects.induct)
  case (2 a b rest claimed)
  show ?case
  proof (cases "payment_id a \<in> claimed \<or> payment_id b \<in> claimed")
    case True
    then show ?thesis using 2 by simp
  next
    case False
    have "distinct (concat (map pair_ids (claim_suspects rest
        (insert (payment_id a) (insert (payment_id b) claimed))))) \<and>
      set (concat (map pair_ids (claim_suspects rest
        (insert (payment_id a) (insert (payment_id b) claimed))))) \<inter>
        insert (payment_id a) (insert (payment_id b) claimed) = {}"
      using 2 False by simp
    then show ?thesis using False 2(3) by (auto simp: pair_ids_pair)
  qed
qed simp

lemma suspect_candidates_in:
  assumes "(a, b) \<in> set (suspect_candidates rows w)"
  shows "a \<in> set rows" "b \<in> set rows" "created_at a \<le> created_at b"
    "created_at b - created_at a \<le> w * 1000000"
    "distinct (map payment_id rows) \<Longrightarrow> payment_id a \<noteq> payment_id b"
proof -
  let ?o = "sort_key (\<lambda>r. (created_at r, payment_id r)) rows"
  have z: "(a, b) \<in> set (zip ?o (tl ?o))" and gap: "created_at b - created_at a \<le> w * 1000000"
    using assms by (auto simp: suspect_candidates_def Let_def)
  then obtain i where i: "i < length (tl ?o)" "a = ?o ! i" "b = tl ?o ! i"
    by (auto simp: in_set_zip)
  then have b: "b = ?o ! Suc i" "Suc i < length ?o" by (auto simp: nth_tl)
  show "a \<in> set rows" "b \<in> set rows"
    using i(2) b nth_mem [of i ?o] nth_mem [of "Suc i" ?o] by auto
  have "sorted (map (\<lambda>r. (created_at r, payment_id r)) ?o)" by simp
  then have "(created_at a, payment_id a) \<le> (created_at b, payment_id b)"
    using b i(2) sorted_nth_mono [of "map (\<lambda>r. (created_at r, payment_id r)) ?o" i "Suc i"] by simp
  then show "created_at a \<le> created_at b" by (auto simp: less_eq_prod_def)
  show "created_at b - created_at a \<le> w * 1000000" by (rule gap)
  assume "distinct (map payment_id rows)"
  then have "distinct (map payment_id ?o)" by (simp add: distinct_map)
  then show "payment_id a \<noteq> payment_id b"
    using b i(2) nth_eq_iff_index_eq [of "map payment_id ?o" i "Suc i"] by simp
qed

lemma group_suspects_in:
  assumes "(a, b) \<in> set (group_suspects w ids rows)"
  shows "(a, b) \<in> set (suspect_candidates rows w)"
  using assms claim_suspects_subset unfolding group_suspects_def by fastforce

lemma set_group_keys [simp]: "set (group_keys ledger) = group_key ` set ledger"
  by (simp add: group_keys_def)

lemma distinct_group_keys [simp]: "distinct (group_keys ledger)"
  by (simp add: group_keys_def)

lemma suspect_pairs_in:
  assumes "(a, b) \<in> set (suspect_pairs ledger w ids)"
  shows "a \<in> set ledger" "b \<in> set ledger" "group_key a = group_key b"
    "created_at a \<le> created_at b" "created_at b - created_at a \<le> w * 1000000"
proof -
  obtain x where "(a, b) \<in> set (group_suspects w ids (filter (\<lambda>r. group_key r = group_key x) ledger))"
    using assms by (auto simp: suspect_pairs_def)
  note c = suspect_candidates_in [OF group_suspects_in [OF this]]
  show "a \<in> set ledger" "b \<in> set ledger" "group_key a = group_key b"
    "created_at a \<le> created_at b" "created_at b - created_at a \<le> w * 1000000"
    using c(1-4) by auto
qed

lemma distinct_concat_keyed:
  assumes "distinct ks" "\<And>k. k \<in> set ks \<Longrightarrow> distinct (f k)"
    and "\<And>k x. k \<in> set ks \<Longrightarrow> x \<in> set (f k) \<Longrightarrow> key x = k"
  shows "distinct (concat (map f ks))"
  using assms
proof (induction ks)
  case (Cons k ks)
  have "set (f k) \<inter> set (concat (map f ks)) = {}"
  proof (rule ccontr)
    assume "set (f k) \<inter> set (concat (map f ks)) \<noteq> {}"
    then obtain x j where "x \<in> set (f k)" "j \<in> set ks" "x \<in> set (f j)" by auto
    then have "k = j" using Cons.prems(3) [of k x] Cons.prems(3) [of j x] by simp
    then show False using Cons.prems(1) \<open>j \<in> set ks\<close> by simp
  qed
  then show ?case using Cons by simp
qed simp

lemma find_by_id:
  assumes "distinct (map payment_id ledger)" "r \<in> set ledger"
  shows "find (\<lambda>q. payment_id q = payment_id r) ledger = Some r"
  using assms by (induction ledger) (auto simp: rev_image_eqI)

lemma suspect_pairs_disjoint:
  assumes d: "distinct (map payment_id ledger)"
  shows "distinct (concat (map pair_ids (suspect_pairs ledger w ids)))"
proof -
  let ?g = "\<lambda>k. filter (\<lambda>r. group_key r = k) ledger"
  let ?f = "\<lambda>k. concat (map pair_ids (group_suspects w ids (?g k)))"
  let ?key = "\<lambda>i. map_option group_key (find (\<lambda>q. payment_id q = i) ledger)"
  have dg: "distinct (map payment_id (?g k))" for k using d by (simp add: distinct_map_filter)
  have inner: "distinct (?f k)" for k
  proof -
    have "\<forall>(a, b) \<in> set (sort_key (\<lambda>(a, b). (\<not> (payment_id a \<in> ids \<or> payment_id b \<in> ids),
            created_at a, payment_id a)) (suspect_candidates (?g k) w)). payment_id a \<noteq> payment_id b"
      using suspect_candidates_in(5) [OF _ dg [of k]] by auto
    from claim_suspects_disjoint [OF this] show ?thesis unfolding group_suspects_def by simp
  qed
  have key: "?key i = Some k" if mem: "i \<in> set (?f k)" for i k
  proof -
    obtain a b where ab: "(a, b) \<in> set (group_suspects w ids (?g k))" "i = payment_id a \<or> i = payment_id b"
      using mem by (auto simp: pair_ids_def)
    note c = suspect_candidates_in(1,2) [OF group_suspects_in [OF ab(1)]]
    have "a \<in> set ledger" "b \<in> set ledger" "group_key a = k" "group_key b = k" using c by auto
    then show ?thesis using ab(2) find_by_id [OF d] by auto
  qed
  have "distinct (concat (map ?f (group_keys ledger)))"
  proof (rule distinct_concat_keyed [of _ _ "\<lambda>i. the (?key i)"])
    fix k i assume "i \<in> set (?f k)"
    then show "the (?key i) = k" by (simp only: key option.sel)
  qed (use inner in simp_all)
  moreover have "concat (map pair_ids (suspect_pairs ledger w ids)) = concat (map ?f (group_keys ledger))"
    unfolding suspect_pairs_def by (rule concat_map_concat)
  ultimately show ?thesis by simp
qed

lemma sort_key_nonempty: "xs \<noteq> [] \<Longrightarrow> sort_key f xs \<noteq> []"
  by (metis length_0_conv length_sort)

lemma claim_suspects_nonempty: "cs \<noteq> [] \<Longrightarrow> claim_suspects cs {} \<noteq> []"
  by (cases cs) auto

lemma group_reports:
  assumes r: "r \<in> set rows" "q \<in> set rows" "payment_id r \<noteq> payment_id q"
    and gap: "created_at r \<le> created_at q" "created_at q - created_at r \<le> w * 1000000"
  shows "group_suspects w ids rows \<noteq> []"
proof -
  let ?k = "\<lambda>r. (created_at r, payment_id r)"
  let ?o = "sort_key ?k rows"
  have s: "sorted (map ?k ?o)" by simp
  have "r \<in> set ?o" "q \<in> set ?o" using r(1,2) by simp_all
  then obtain i j where i: "i < length ?o" "?o ! i = r" and j: "j < length ?o" "?o ! j = q"
    unfolding in_set_conv_nth by blast
  define lo hi where "lo = min i j" and "hi = max i j"
  have "i \<noteq> j" using i j r(3) by auto
  then have lh: "Suc lo \<le> hi" "hi < length ?o" using i j by (auto simp: lo_def hi_def)
  have le: "created_at (?o ! a) \<le> created_at (?o ! b)" if "a \<le> b" "b < length ?o" for a b
    using sorted_nth_mono [OF s that(1)] that by (auto simp: less_eq_prod_def)
  have "created_at (?o ! hi) - created_at (?o ! lo) \<le> w * 1000000"
    using le [of lo hi] lh i j gap by (cases "i < j") (auto simp: lo_def hi_def min_def max_def)
  then have "created_at (?o ! Suc lo) - created_at (?o ! lo) \<le> w * 1000000"
    using le [OF lh] by linarith
  moreover have "(?o ! lo, ?o ! Suc lo) \<in> set (zip ?o (tl ?o))"
    unfolding in_set_zip by (rule exI [of _ lo]) (use lh in \<open>simp add: nth_tl\<close>)
  ultimately have "suspect_candidates rows w \<noteq> []"
    unfolding suspect_candidates_def Let_def filter_empty_conv by blast
  then show ?thesis unfolding group_suspects_def by (intro claim_suspects_nonempty sort_key_nonempty)
qed

section \<open>Properties\<close>

text \<open>C4. The matcher is one-to-one and loses nothing: every ledger row and every capture handed to
  it is in exactly one of the exact pairs (same loan, same minor units, inside the tolerance), the
  mismatches (same loan, inside the tolerance, amounts that differ), and the rows reported
  unmatched, and no two rows reported unmatched could have been paired.\<close>

theorem match_partitions_both_sides:
  "case match_rows ledger captures tol twl twc of (n, rl, rc, mm) \<Rightarrow>
     \<exists>pairs. length pairs = n \<and> sound_matching tol ledger captures pairs rl rc mm"
  using match_rows_sound by (simp split: prod.split)

text \<open>Duplicate suspects are disjoint pairs of real rows: over a ledger with unique payment
  ids, no payment appears in two suspects or twice in one, and each suspect names two rows of
  one loan with one amount, at most the configured window apart.\<close>

theorem duplicate_suspects_disjoint:
  assumes "distinct (map payment_id ledger)"
  shows "distinct (concat (map suspect_ids (find_duplicate_suspects ledger w ids))) \<and>
    (\<forall>s \<in> set (find_duplicate_suspects ledger w ids). \<exists>a \<in> set ledger. \<exists>b \<in> set ledger.
       first_payment_id s = payment_id a \<and> second_payment_id s = payment_id b \<and>
       group_key a = (d_loan_id s, d_amount_minor s) \<and> group_key b = group_key a \<and>
       0 \<le> created_at b - created_at a \<and> created_at b - created_at a \<le> w * 1000000)"
proof
  have sp: "suspect_ids (to_suspect p) = pair_ids p" for p
    by (cases p) (simp add: suspect_ids_def to_suspect_def pair_ids_def)
  let ?s = "map to_suspect (suspect_pairs ledger w ids)"
  have "mset (concat (map suspect_ids (find_duplicate_suspects ledger w ids))) =
      mset (concat (map suspect_ids ?s))"
    unfolding find_duplicate_suspects_def mset_concat sum_mset_sum_list [symmetric] mset_map mset_sort ..
  moreover have "concat (map suspect_ids ?s) = concat (map pair_ids (suspect_pairs ledger w ids))"
    by (simp add: o_def sp)
  ultimately show "distinct (concat (map suspect_ids (find_duplicate_suspects ledger w ids)))"
    using suspect_pairs_disjoint [OF assms] mset_eq_imp_distinct_iff by metis
  show "\<forall>s \<in> set (find_duplicate_suspects ledger w ids). \<exists>a \<in> set ledger. \<exists>b \<in> set ledger.
       first_payment_id s = payment_id a \<and> second_payment_id s = payment_id b \<and>
       group_key a = (d_loan_id s, d_amount_minor s) \<and> group_key b = group_key a \<and>
       0 \<le> created_at b - created_at a \<and> created_at b - created_at a \<le> w * 1000000"
  proof
    fix s assume "s \<in> set (find_duplicate_suspects ledger w ids)"
    then obtain a b where ab: "(a, b) \<in> set (suspect_pairs ledger w ids)" "s = to_suspect (a, b)"
      by (auto simp: find_duplicate_suspects_def)
    note c = suspect_pairs_in [OF ab(1)]
    show "\<exists>a \<in> set ledger. \<exists>b \<in> set ledger.
       first_payment_id s = payment_id a \<and> second_payment_id s = payment_id b \<and>
       group_key a = (d_loan_id s, d_amount_minor s) \<and> group_key b = group_key a \<and>
       0 \<le> created_at b - created_at a \<and> created_at b - created_at a \<le> w * 1000000"
      using c ab(2) by (intro bexI [of _ a] bexI [of _ b]) (simp_all add: to_suspect_def group_key_def)
  qed
qed

text \<open>A double charge cannot hide: if two different payments of one loan and one amount lie
  within the window, some suspect is reported for that loan and amount, whatever else the ledger
  holds and whatever the settlement file says.\<close>

theorem double_charge_is_reported:
  assumes "r \<in> set ledger" "q \<in> set ledger" "payment_id r \<noteq> payment_id q" "group_key r = group_key q"
    and "created_at r \<le> created_at q" "created_at q - created_at r \<le> w * 1000000"
  shows "\<exists>s \<in> set (find_duplicate_suspects ledger w ids).
     d_loan_id s = l_loan_id r \<and> d_amount_minor s = l_amount_minor r"
proof -
  let ?g = "filter (\<lambda>x. group_key x = group_key r) ledger"
  have "group_suspects w ids ?g \<noteq> []"
    by (rule group_reports [of r _ q]) (use assms in auto)
  then obtain a b where ab: "(a, b) \<in> set (group_suspects w ids ?g)" by (cases "group_suspects w ids ?g") auto
  then have "(a, b) \<in> set (suspect_pairs ledger w ids)" using assms(1) by (auto simp: suspect_pairs_def)
  then have "to_suspect (a, b) \<in> set (find_duplicate_suspects ledger w ids)"
    by (auto simp: find_duplicate_suspects_def)
  moreover have "group_key a = group_key r"
    using suspect_candidates_in(1) [OF group_suspects_in [OF ab]] by simp
  ultimately show ?thesis by (intro bexI [of _ "to_suspect (a, b)"]) (auto simp: to_suspect_def group_key_def)
qed

section \<open>Instances\<close>

definition double_charge :: "ledger_row list" where
  "double_charge =
     [\<lparr>payment_id = 1, l_loan_id = 5, l_amount_minor = 100, created_at = 0\<rparr>,
      \<lparr>payment_id = 2, l_loan_id = 5, l_amount_minor = 100, created_at = 30000000\<rparr>]"

theorem duplicate_suspects_disjoint_witness:
  "distinct (concat (map suspect_ids (find_duplicate_suspects double_charge 90 {1})))"
  by (rule duplicate_suspects_disjoint [THEN conjunct1]) (simp add: double_charge_def)

theorem double_charge_is_reported_witness:
  "\<exists>s \<in> set (find_duplicate_suspects double_charge 90 {1}). d_loan_id s = 5 \<and> d_amount_minor s = 100"
  using double_charge_is_reported [of "hd double_charge" double_charge "last double_charge" 90 "{1}"]
  by (simp add: double_charge_def group_key_def)

end
