(* ===== verification/Reconciliation.thy ===== *)
theory Reconciliation
  imports Matching Authz
begin

text \<open>
  \<^verbatim>\<open>reconcile\<close>, its two fail-closed settings, the result's figures and exit code, the report
  document, the command line of \<^verbatim>\<open>reconcile.py\<close> and the \<^verbatim>\<open>/reconciliation/peek\<close> route.
\<close>

section \<open>Settings\<close>

definition max_suspect_window_seconds :: int where
  "max_suspect_window_seconds = 30 * 24 * 60 * 60"

definition duplicate_suspect_window_seconds :: "string \<Rightarrow> abort + int" where
  "duplicate_suspect_window_seconds setting =
     (let raw = strip setting
      in if raw = '''' then Inl Suspect_window_unset
         else case py_int raw of
           None \<Rightarrow> Inl (Suspect_window_not_integer raw)
         | Some seconds \<Rightarrow>
             if max_suspect_window_seconds < seconds then Inl (Suspect_window_too_large seconds)
             else if seconds \<le> 0 then Inl (Suspect_window_not_positive seconds)
             else Inr seconds)"

definition alert_threshold :: "string \<Rightarrow> abort + int" where
  "alert_threshold setting =
     (let raw = strip setting
      in if raw = '''' then Inl Threshold_unset
         else if \<not> all_digits raw then Inl (Threshold_not_plain raw)
         else if digits_val raw \<le> 0 then Inl (Threshold_not_positive (digits_val raw))
         else Inr (digits_val raw))"

text \<open>The health rungs of \<^verbatim>\<open>config.py\<close> that mirror them.\<close>

definition duplicate_suspect_window_configured :: "string \<Rightarrow> bool" where
  "duplicate_suspect_window_configured setting \<longleftrightarrow>
     (let raw = strip setting
      in raw \<noteq> '''' \<and> (case py_int raw of None \<Rightarrow> False
           | Some seconds \<Rightarrow> 0 < seconds \<and> seconds \<le> max_suspect_window_seconds))"

definition reconciliation_alert_threshold_configured :: "string \<Rightarrow> bool" where
  "reconciliation_alert_threshold_configured setting \<longleftrightarrow>
     (let raw = strip setting in raw \<noteq> '''' \<and> all_digits raw \<and> 0 < digits_val raw)"

section \<open>Results\<close>

record break_row =
  break_class :: string
  b_loan_id :: int
  b_amount_minor :: int
  b_occurred_on :: int
  b_processor_ref :: "string option"
  b_payment_id :: "int option"
  b_detail :: string

record reconciliation_result =
  window_from :: int
  window_to :: int
  tolerance_days :: int
  matched_count :: nat
  breaks :: "break_row list"
  duplicates :: "suspect list"
  net_variance_minor :: int
  per_loan_absolute_minor :: int
  gross_break_minor :: int
  ledger_row_count :: nat
  ledger_total_minor :: int
  settlement_row_count :: nat
  settlement_captures_minor :: int
  settlement_refunds_minor :: int
  alert_threshold_minor :: int

definition settlement_net_minor :: "reconciliation_result \<Rightarrow> int" where
  "settlement_net_minor r = settlement_captures_minor r - settlement_refunds_minor r"

definition alert_triggered :: "reconciliation_result \<Rightarrow> bool" where
  "alert_triggered r \<longleftrightarrow> alert_threshold_minor r < per_loan_absolute_minor r"

definition exit_code :: "reconciliation_result \<Rightarrow> nat" where
  "exit_code r = (if breaks r \<noteq> [] \<or> duplicates r \<noteq> [] \<or> alert_triggered r then 1 else 0)"

section \<open>Per-loan totals\<close>

text \<open>A dict of totals, in insertion order.\<close>

fun bump :: "int \<Rightarrow> int \<Rightarrow> (int \<times> int) list \<Rightarrow> (int \<times> int) list" where
  "bump k v [] = [(k, v)]"
| "bump k v ((j, x) # d) = (if j = k then (j, x + v) # d else (j, x) # bump k v d)"

definition get_total :: "(int \<times> int) list \<Rightarrow> int \<Rightarrow> int" where
  "get_total d k = (case map_of d k of None \<Rightarrow> 0 | Some v \<Rightarrow> v)"

definition ledger_by_loan :: "ledger_row list \<Rightarrow> (int \<times> int) list" where
  "ledger_by_loan rows = foldl (\<lambda>d r. bump (l_loan_id r) (l_amount_minor r) d) [] rows"

definition signed_amount :: "settlement_row \<Rightarrow> int" where
  "signed_amount r = (if row_type r = ''capture'' then s_amount_minor r else - s_amount_minor r)"

definition settlement_by_loan :: "settlement_row list \<Rightarrow> (int \<times> int) list" where
  "settlement_by_loan rows = foldl (\<lambda>d r. bump (s_loan_id r) (signed_amount r) d) [] rows"

definition loan_variances :: "(int \<times> int) list \<Rightarrow> (int \<times> int) list \<Rightarrow> int list" where
  "loan_variances l s =
     map (\<lambda>k. get_total l k - get_total s k) (remdups (map fst l @ map fst s))"

section \<open>The comparison\<close>

definition in_window :: "int \<Rightarrow> int \<Rightarrow> int \<Rightarrow> bool" where
  "in_window lo hi day \<longleftrightarrow> lo \<le> day \<and> day \<le> hi"

definition missing_in_settlement :: "ledger_row \<Rightarrow> break_row" where
  "missing_in_settlement r =
     \<lparr>break_class = ''MISSING_IN_SETTLEMENT'', b_loan_id = l_loan_id r,
      b_amount_minor = l_amount_minor r, b_occurred_on = date_of (created_at r),
      b_processor_ref = None, b_payment_id = Some (payment_id r),
      b_detail = ''credited, never captured''\<rparr>"

definition missing_in_ledger :: "settlement_row \<Rightarrow> break_row" where
  "missing_in_ledger r =
     \<lparr>break_class = ''MISSING_IN_LEDGER'', b_loan_id = s_loan_id r,
      b_amount_minor = s_amount_minor r, b_occurred_on = settlement_date r,
      b_processor_ref = Some (processor_ref r), b_payment_id = None,
      b_detail = ''captured, never credited''\<rparr>"

definition refund_unrepresented :: "settlement_row \<Rightarrow> break_row" where
  "refund_unrepresented r =
     \<lparr>break_class = ''REFUND_UNREPRESENTED'', b_loan_id = s_loan_id r,
      b_amount_minor = s_amount_minor r, b_occurred_on = settlement_date r,
      b_processor_ref = Some (processor_ref r), b_payment_id = None,
      b_detail = ''settlement refund the payments table cannot represent''\<rparr>"

definition amount_mismatch :: "ledger_row \<Rightarrow> settlement_row \<Rightarrow> break_row" where
  "amount_mismatch l c =
     \<lparr>break_class = ''AMOUNT_MISMATCH'', b_loan_id = l_loan_id l,
      b_amount_minor = \<bar>l_amount_minor l - s_amount_minor c\<bar>,
      b_occurred_on = date_of (created_at l), b_processor_ref = Some (processor_ref c),
      b_payment_id = Some (payment_id l),
      b_detail = ''ledger '' @ show_int (l_amount_minor l) @ '' minor units vs settlement '' @
        show_int (s_amount_minor c) @ '' minor units ('' @ processor_ref c @ '', '' @
        iso_date (settlement_date c) @ '')''\<rparr>"

text \<open>
  From the loaded rows on: \<open>ledger_candidates\<close> and \<open>dup_candidates\<close> are the two ledger reads.
\<close>

definition compare_window ::
  "int \<Rightarrow> int \<Rightarrow> int \<Rightarrow> int \<Rightarrow> int \<Rightarrow> settlement_row list \<Rightarrow> ledger_row list \<Rightarrow> ledger_row list \<Rightarrow>
   reconciliation_result" where
  "compare_window lo hi tol threshold window_seconds all_settlement ledger_candidates dup_candidates =
     (let settlement = filter (\<lambda>r. in_window lo hi (settlement_date r)) all_settlement;
          settlement_candidates =
            filter (\<lambda>r. in_window (lo - tol) (hi + tol) (settlement_date r)) all_settlement;
          ledger = filter (\<lambda>r. in_window lo hi (date_of (created_at r))) ledger_candidates;
          true_ids = set (map payment_id ledger);
          dups = filter (\<lambda>s. first_payment_id s \<in> true_ids \<or> second_payment_id s \<in> true_ids)
            (find_duplicate_suspects dup_candidates window_seconds true_ids);
          capture_candidates = filter (\<lambda>r. row_type r = ''capture'') settlement_candidates;
          refunds = filter (\<lambda>r. row_type r = ''refund'') settlement;
          true_captures = filter (\<lambda>r. row_type r = ''capture'') settlement
      in case match_rows ledger_candidates capture_candidates tol ledger true_captures of
        (matched, unmatched_ledger, unmatched_captures, mismatches) \<Rightarrow>
          (let found =
                map missing_in_settlement
                  (filter (\<lambda>r. in_window lo hi (date_of (created_at r))) unmatched_ledger) @
                map missing_in_ledger
                  (filter (\<lambda>r. in_window lo hi (settlement_date r)) unmatched_captures) @
                map refund_unrepresented refunds @
                map (\<lambda>(l, c). amount_mismatch l c)
                  (filter (\<lambda>(l, c). in_window lo hi (date_of (created_at l)) \<or>
                     in_window lo hi (settlement_date c)) mismatches);
               sorted_breaks = sort_key (\<lambda>b. (break_class b, b_loan_id b, b_occurred_on b,
                 b_amount_minor b)) found;
               l = ledger_by_loan ledger; s = settlement_by_loan settlement
           in \<lparr>window_from = lo, window_to = hi, tolerance_days = tol, matched_count = matched,
               breaks = sorted_breaks, duplicates = dups,
               net_variance_minor = sum_list (map snd l) - sum_list (map snd s),
               per_loan_absolute_minor = sum_list (map abs (loan_variances l s)),
               gross_break_minor = sum_list (map b_amount_minor sorted_breaks),
               ledger_row_count = length ledger, ledger_total_minor = sum_list (map snd l),
               settlement_row_count = length settlement,
               settlement_captures_minor = sum_list (map s_amount_minor true_captures),
               settlement_refunds_minor = sum_list (map s_amount_minor refunds),
               alert_threshold_minor = threshold\<rparr>))"

text \<open>
  What one run meets: the two settings, the file, and the payments table at each of its two reads.
\<close>

record recon_env =
  threshold_setting :: string
  suspect_setting :: string
  settlement_path :: settlement_file
  first_read :: "payments_record list option"
  second_read :: "payments_record list option"

definition reconcile ::
  "recon_env \<Rightarrow> int option \<Rightarrow> int option \<Rightarrow> int \<Rightarrow> abort + reconciliation_result" where
  "reconcile env from_date to_date tol =
     (if tol < 0 then Inl (Negative_tolerance tol)
      else bind_result (load_settlement (settlement_path env)) (\<lambda>all_settlement.
        let days = map settlement_date all_settlement;
            lo = (case from_date of Some d \<Rightarrow> d | None \<Rightarrow> Min (set days));
            hi = (case to_date of Some d \<Rightarrow> d | None \<Rightarrow> Max (set days))
        in if hi < lo then Inl (Window_reversed lo hi)
           else bind_result (load_ledger (first_read env) (lo - tol) (hi + tol)) (\<lambda>ledger.
             bind_result (alert_threshold (threshold_setting env)) (\<lambda>threshold.
             bind_result (duplicate_suspect_window_seconds (suspect_setting env)) (\<lambda>seconds.
             let margin = seconds div 86400 + 1 in
             bind_result (load_ledger (second_read env) (lo - margin) (hi + margin)) (\<lambda>dups.
               Inr (compare_window lo hi tol threshold seconds all_settlement ledger dups)))))))"

section \<open>The report\<close>

definition break_json :: "break_row \<Rightarrow> json" where
  "break_json b =
     JObj ([(''class'', JStr (break_class b)), (''loan_id'', JInt (b_loan_id b)),
            (''amount_minor'', JInt (b_amount_minor b)), (''date'', JStr (iso_date (b_occurred_on b)))] @
           (case b_processor_ref b of None \<Rightarrow> [] | Some r \<Rightarrow> [(''processor_ref'', JStr r)]) @
           (case b_payment_id b of None \<Rightarrow> [] | Some i \<Rightarrow> [(''payment_id'', JInt i)]) @
           (if b_detail b = '''' then [] else [(''detail'', JStr (b_detail b))]))"

definition duplicate_json :: "suspect \<Rightarrow> json" where
  "duplicate_json s =
     JObj [(''class'', JStr ''DUPLICATE_SUSPECT''), (''loan_id'', JInt (d_loan_id s)),
           (''amount_minor'', JInt (d_amount_minor s)), (''date'', JStr (iso_date (d_occurred_on s))),
           (''gap_seconds'', JInt (gap_seconds s)),
           (''first_payment_id'', JInt (first_payment_id s)),
           (''second_payment_id'', JInt (second_payment_id s))]"

definition figure_json :: "int \<Rightarrow> bool \<Rightarrow> json" where
  "figure_json v depends =
     JObj [(''value'', JInt v), (''depends_on_matching_tolerance'', JBool depends)]"

definition build_report :: "reconciliation_result \<Rightarrow> json" where
  "build_report r =
     JObj [(''window'', JObj [(''from'', JStr (iso_date (window_from r))),
              (''to'', JStr (iso_date (window_to r))), (''tolerance_days'', JInt (tolerance_days r))]),
           (''ledger'', JObj [(''rows'', JInt (int (ledger_row_count r))),
              (''total_minor'', JInt (ledger_total_minor r))]),
           (''settlement'', JObj [(''rows'', JInt (int (settlement_row_count r))),
              (''captures_minor'', JInt (settlement_captures_minor r)),
              (''refunds_minor'', JInt (settlement_refunds_minor r)),
              (''net_minor'', JInt (settlement_net_minor r))]),
           (''matched'', JInt (int (matched_count r))),
           (''figures'', JObj [(''net_variance_minor'', figure_json (net_variance_minor r) False),
              (''per_loan_absolute_variance_minor'', figure_json (per_loan_absolute_minor r) False),
              (''gross_break_value_minor'', figure_json (gross_break_minor r) True)]),
           (''alert'', JObj [(''triggered'', JBool (alert_triggered r)),
              (''threshold_minor'', JInt (alert_threshold_minor r)),
              (''measured'', JStr ''per_loan_absolute_variance_minor''),
              (''value'', JInt (per_loan_absolute_minor r))]),
           (''breaks'', JList (map break_json (breaks r))),
           (''duplicate_suspects'', JList (map duplicate_json (duplicates r))),
           (''exit_code'', JInt (int (exit_code r)))]"

section \<open>Its two callers\<close>

definition cli_date :: "string option \<Rightarrow> abort + int option" where
  "cli_date arg =
     (case arg of
        None \<Rightarrow> Inr None
      | Some s \<Rightarrow>
          if s = '''' then Inr None
          else case parse_date s of None \<Rightarrow> Inl (Bad_cli_date s) | Some d \<Rightarrow> Inr (Some d))"

text \<open>The exit status and the document on standard output, if any.\<close>

definition main :: "recon_env \<Rightarrow> string option \<Rightarrow> string option \<Rightarrow> int \<Rightarrow> nat \<times> json option" where
  "main env from_arg to_arg tol =
     (case bind_result (cli_date from_arg) (\<lambda>lo.
             bind_result (cli_date to_arg) (\<lambda>hi. reconcile env lo hi tol)) of
        Inl _ \<Rightarrow> (2, None)
      | Inr r \<Rightarrow> (exit_code r, Some (build_report r)))"

definition reconciliation_peek :: "string \<Rightarrow> string option \<Rightarrow> recon_env \<Rightarrow> json response" where
  "reconciliation_peek expected x_internal_service env =
     bind_result (require_internal_caller expected x_internal_service) (\<lambda>_.
       case reconcile env None None 1 of
         Inl _ \<Rightarrow> raise_http 503 ''reconciliation aborted''
       | Inr r \<Rightarrow> Inr (build_report r))"

section \<open>Facts about the totals\<close>

lemma bump_sum: "sum_list (map snd (bump k v d)) = sum_list (map snd d) + v"
  by (induction k v d rule: bump.induct) auto

lemma bump_get: "get_total (bump k v d) j = get_total d j + (if j = k then v else 0)"
  by (induction k v d rule: bump.induct) (auto simp: get_total_def)

lemma bump_keys: "set (map fst (bump k v d)) = insert k (set (map fst d))"
  by (induction k v d rule: bump.induct) auto

lemma bump_distinct: "distinct (map fst d) \<Longrightarrow> distinct (map fst (bump k v d))"
  by (induction k v d rule: bump.induct) (use bump_keys in fastforce)+

lemma foldl_bump:
  "sum_list (map snd (foldl (\<lambda>d r. bump (f r) (g r) d) d rows)) = sum_list (map snd d) + sum_list (map g rows)"
  "distinct (map fst d) \<Longrightarrow> distinct (map fst (foldl (\<lambda>d r. bump (f r) (g r) d) d rows))"
  "get_total (foldl (\<lambda>d r. bump (f r) (g r) d) d rows) j =
     get_total d j + sum_list (map g (filter (\<lambda>r. f r = j) rows))"
  by (induction rows arbitrary: d) (auto simp: bump_sum bump_distinct bump_get)

lemma by_loan_sum:
  "sum_list (map snd (ledger_by_loan rows)) = sum_list (map l_amount_minor rows)"
  "sum_list (map snd (settlement_by_loan srows)) = sum_list (map signed_amount srows)"
  by (simp_all add: ledger_by_loan_def settlement_by_loan_def foldl_bump)

lemma by_loan_distinct: "distinct (map fst (ledger_by_loan rows))" "distinct (map fst (settlement_by_loan srows))"
  by (simp_all add: ledger_by_loan_def settlement_by_loan_def foldl_bump)

lemma get_total_Nil: "get_total [] k = 0"
  by (simp add: get_total_def)

lemma by_loan_get:
  "get_total (ledger_by_loan rows) j = sum_list (map l_amount_minor (filter (\<lambda>r. l_loan_id r = j) rows))"
  "get_total (settlement_by_loan srows) j =
     sum_list (map signed_amount (filter (\<lambda>r. s_loan_id r = j) srows))"
  by (simp_all add: ledger_by_loan_def settlement_by_loan_def foldl_bump get_total_Nil)

lemma get_total_absent: "k \<notin> set (map fst d) \<Longrightarrow> get_total d k = 0"
  by (simp add: get_total_def map_of_eq_None_iff [THEN iffD2])

lemma get_total_Cons: "get_total ((j, x) # d) k = (if k = j then x else get_total d k)"
  by (simp add: get_total_def)

lemma sum_get_total:
  assumes "distinct (map fst d)" "finite K" "set (map fst d) \<subseteq> K"
  shows "(\<Sum>k\<in>K. get_total d k) = sum_list (map snd d)"
  using assms
proof (induction d arbitrary: K)
  case Nil
  then show ?case by (simp add: get_total_def)
next
  case (Cons p d)
  obtain j x where p: "p = (j, x)" by (cases p)
  have j: "j \<in> K" using Cons.prems(3) p by simp
  have out: "get_total ((j, x) # d) k = get_total d k" if "k \<noteq> j" for k
    using that by (simp add: get_total_Cons)
  have at: "get_total ((j, x) # d) j = x" "get_total d j = 0"
    using Cons.prems(1) p by (simp_all add: get_total_Cons get_total_absent)
  have "(\<Sum>k\<in>K. get_total (p # d) k) = x + (\<Sum>k\<in>K - {j}. get_total d k)"
    using Cons.prems(2) j at(1) out p by (simp add: sum.remove)
  also have "(\<Sum>k\<in>K - {j}. get_total d k) = (\<Sum>k\<in>K. get_total d k)"
    using Cons.prems(2) j at(2) by (simp add: sum.remove)
  also have "\<dots> = sum_list (map snd d)" using Cons by simp
  finally show ?case using p by simp
qed

lemma variances_sum:
  assumes "distinct (map fst l)" "distinct (map fst s)"
  shows "sum_list (loan_variances l s) = sum_list (map snd l) - sum_list (map snd s)"
proof -
  let ?K = "set (map fst l @ map fst s)"
  have "sum_list (loan_variances l s) = (\<Sum>k\<in>?K. get_total l k - get_total s k)"
    unfolding loan_variances_def by (subst sum_list_distinct_conv_sum_set) simp_all
  also have "\<dots> = (\<Sum>k\<in>?K. get_total l k) - (\<Sum>k\<in>?K. get_total s k)" by (rule sum_subtractf)
  finally show ?thesis using assms by (simp add: sum_get_total)
qed

lemma abs_sum_list_le: "\<bar>sum_list xs\<bar> \<le> sum_list (map abs xs)" for xs :: "int list"
  by (induction xs) auto

lemma sum_abs_zero: "sum_list (map abs xs) = 0 \<longleftrightarrow> (\<forall>x \<in> set xs. x = 0)" for xs :: "int list"
proof (induction xs)
  case (Cons x xs)
  have "0 \<le> sum_list (map abs xs)" by (rule sum_list_nonneg) auto
  then show ?case using Cons by (auto simp: add_nonneg_eq_0_iff)
qed simp

lemma signed_split:
  assumes "\<forall>r \<in> set rows. row_type r \<in> {''capture'', ''refund''}"
  shows "sum_list (map signed_amount rows) =
     sum_list (map s_amount_minor (filter (\<lambda>r. row_type r = ''capture'') rows)) -
     sum_list (map s_amount_minor (filter (\<lambda>r. row_type r = ''refund'') rows))"
  using assms by (induction rows) (auto simp: signed_amount_def)

section \<open>Facts about the two reads\<close>

definition row_of :: "payments_record \<Rightarrow> ledger_row" where
  "row_of r = \<lparr>payment_id = r_id r, l_loan_id = the (r_loan_id r),
     l_amount_minor = projr (minor_units_of_double (r_amount r)), created_at = the (r_created_at r)\<rparr>"

definition dated_in :: "int \<Rightarrow> int \<Rightarrow> payments_record \<Rightarrow> bool" where
  "dated_in lo hi r \<longleftrightarrow> (case r_created_at r of None \<Rightarrow> False | Some t \<Rightarrow> in_window lo hi (date_of t))"

lemma ledger_query_eq: "ledger_query t lo hi = filter (dated_in lo hi) (sort_key order_key t)"
proof -
  have "(\<lambda>r. case r_created_at r of None \<Rightarrow> False
       | Some t \<Rightarrow> midnight lo \<le> t \<and> t < midnight (hi + 1)) = dated_in lo hi"
    by (intro ext) (simp add: dated_in_def in_window_def date_of_between split: option.split)
  then show ?thesis by (simp add: ledger_query_def filter_sort)
qed

lemma ledger_entry_Inr:
  assumes "dated_in lo hi r" "ledger_entry lo hi r = Inr e"
  shows "e = Some (row_of r)"
  using assms
  by (auto simp: ledger_entry_def dated_in_def in_window_def row_of_def tag_error_def bind_result_def
      split: option.splits sum.splits if_splits)

lemma load_ledger_rows:
  assumes "load_ledger table lo hi = Inr rows"
  obtains t where "table = Some t" "rows = map row_of (filter (dated_in lo hi) (sort_key order_key t))"
proof -
  obtain t es where t: "table = Some t"
    and m: "map_result (ledger_entry lo hi) (ledger_query t lo hi) = Inr es"
    and rows: "rows = List.map_filter (\<lambda>e. e) es"
    using assms by (auto simp: load_ledger_def bind_result_Inr_iff split: option.splits)
  have "list_all2 (\<lambda>r e. ledger_entry lo hi r = Inr e) (ledger_query t lo hi) es"
    using m by (simp add: map_result_Inr_iff)
  then have "list_all2 (\<lambda>r e. e = Some (row_of r)) (ledger_query t lo hi) es"
    by (rule list.rel_mono_strong) (auto simp: ledger_query_eq intro: ledger_entry_Inr)
  then have "es = map (\<lambda>r. Some (row_of r)) (ledger_query t lo hi)"
    by (auto simp: list_all2_conv_all_nth intro: nth_equalityI)
  then have "rows = map row_of (ledger_query t lo hi)"
    unfolding rows by (simp add: List.map_filter_def o_def)
  then show thesis using that [OF t] by (simp add: ledger_query_eq)
qed

lemma load_settlement_types:
  assumes "load_settlement f = Inr rows"
  shows "rows \<noteq> []" "\<forall>r \<in> set rows. row_type r \<in> {''capture'', ''refund''}"
proof -
  have row: "row_type r \<in> {''capture'', ''refund''}" if "parse_settlement_row raw = Inr r" for raw r
    using that by (auto simp: parse_settlement_row_def bind_result_Inr_iff split: option.splits if_splits)
  obtain raws where m: "map_result (\<lambda>(n, raw). tag_error (Bad_row n) (parse_settlement_row raw)) raws = Inr rows"
    and ne: "rows \<noteq> []"
    using assms by (auto simp: load_settlement_def Let_def bind_result_Inr_iff
        split: settlement_file.splits if_splits)
  show "rows \<noteq> []" by (rule ne)
  have all: "list_all2 (\<lambda>q r. \<exists>raw. parse_settlement_row raw = Inr r) raws rows"
    using m unfolding map_result_Inr_iff
    by (rule list_all2_mono) (auto simp: tag_error_def split: sum.splits)
  have "list_all2 (\<lambda>q r. row_type r \<in> {''capture'', ''refund''}) raws rows"
    using all by (rule list_all2_mono) (use row in blast)
  then show "\<forall>r \<in> set rows. row_type r \<in> {''capture'', ''refund''}"
    by (auto simp: list_all2_conv_all_nth in_set_conv_nth)
qed

text \<open>What a run that produced a result was made of.\<close>

lemma reconcileE:
  assumes "reconcile env f t tol = Inr r"
  obtains lo hi rows ledger dups threshold seconds where
    "load_settlement (settlement_path env) = Inr rows"
    "lo = (case f of Some d \<Rightarrow> d | None \<Rightarrow> Min (set (map settlement_date rows)))"
    "hi = (case t of Some d \<Rightarrow> d | None \<Rightarrow> Max (set (map settlement_date rows)))"
    "lo \<le> hi" "0 \<le> tol" "load_ledger (first_read env) (lo - tol) (hi + tol) = Inr ledger"
    "alert_threshold (threshold_setting env) = Inr threshold"
    "duplicate_suspect_window_seconds (suspect_setting env) = Inr seconds"
    "load_ledger (second_read env) (lo - (seconds div 86400 + 1)) (hi + (seconds div 86400 + 1)) =
       Inr dups"
    "r = compare_window lo hi tol threshold seconds rows ledger dups"
proof -
  obtain rows where rows: "load_settlement (settlement_path env) = Inr rows" and tol: "\<not> tol < 0"
    using assms by (auto simp: reconcile_def bind_result_Inr_iff split: if_splits)
  define lo where "lo = (case f of Some d \<Rightarrow> d | None \<Rightarrow> Min (set (map settlement_date rows)))"
  define hi where "hi = (case t of Some d \<Rightarrow> d | None \<Rightarrow> Max (set (map settlement_date rows)))"
  have "(if hi < lo then Inl (Window_reversed lo hi)
     else bind_result (load_ledger (first_read env) (lo - tol) (hi + tol)) (\<lambda>ledger.
             bind_result (alert_threshold (threshold_setting env)) (\<lambda>threshold.
             bind_result (duplicate_suspect_window_seconds (suspect_setting env)) (\<lambda>seconds.
             bind_result (load_ledger (second_read env) (lo - (seconds div 86400 + 1))
               (hi + (seconds div 86400 + 1))) (\<lambda>dups.
               Inr (compare_window lo hi tol threshold seconds rows ledger dups)))))) = Inr r"
    using assms rows tol unfolding reconcile_def Let_def lo_def hi_def by simp
  then show thesis using that [OF rows lo_def hi_def] tol
    by (auto simp: bind_result_Inr_iff split: if_splits)
qed

lemma compare_window_figures:
  fixes lo hi rows ledger
  defines "l \<equiv> filter (\<lambda>r. in_window lo hi (date_of (created_at r))) ledger"
  defines "s \<equiv> filter (\<lambda>r. in_window lo hi (settlement_date r)) rows"
  assumes r: "r = compare_window lo hi tol threshold seconds rows ledger dups"
  shows "net_variance_minor r = sum_list (map snd (ledger_by_loan l)) - sum_list (map snd (settlement_by_loan s))"
    "per_loan_absolute_minor r =
       sum_list (map abs (loan_variances (ledger_by_loan l) (settlement_by_loan s)))"
    "ledger_total_minor r = sum_list (map l_amount_minor l)"
    "settlement_net_minor r =
       sum_list (map s_amount_minor (filter (\<lambda>r. row_type r = ''capture'') s)) -
       sum_list (map s_amount_minor (filter (\<lambda>r. row_type r = ''refund'') s))"
    "gross_break_minor r = sum_list (map b_amount_minor (breaks r))"
    "alert_threshold_minor r = threshold"
  unfolding r compare_window_def l_def s_def settlement_net_minor_def
  by (simp_all add: Let_def by_loan_sum split: prod.split)

lemma sort_key_Nil_iff: "sort_key f xs = [] \<longleftrightarrow> xs = []"
  by (metis length_0_conv length_sort)

lemma filter_mset_sub: "filter_mset P (A + B) \<subseteq># A" if "\<forall>x \<in># B. \<not> P x"
proof -
  have "filter_mset P B = {#}" using that by (induction B) auto
  then have "filter_mset P (A + B) = filter_mset P A" by simp
  then show ?thesis by (simp only: multiset_filter_subset)
qed

lemma ledger_in_window:
  assumes "load_ledger table a b = Inr rows" "a \<le> lo" "hi \<le> b"
  obtains t where "table = Some t"
    "filter (\<lambda>r. in_window lo hi (date_of (created_at r))) rows =
       map row_of (filter (dated_in lo hi) (sort_key order_key t))"
proof -
  obtain t where t: "table = Some t" "rows = map row_of (filter (dated_in a b) (sort_key order_key t))"
    using assms(1) by (rule load_ledger_rows)
  have "(dated_in a b r \<and> in_window lo hi (date_of (created_at (row_of r)))) = dated_in lo hi r" for r
    using assms(2,3) by (auto simp: dated_in_def in_window_def row_of_def split: option.splits)
  then have "filter (\<lambda>r. in_window lo hi (date_of (created_at r))) rows =
      map row_of (filter (dated_in lo hi) (sort_key order_key t))"
    unfolding t(2) by (simp add: filter_map o_def conj_commute)
  then show thesis using that t(1) by blast
qed

section \<open>Properties\<close>

text \<open>The figures of a report are what they say: the net variance is the ledger total less the
  settlement's captures net of refunds, it never exceeds the per-loan absolute variance in size,
  the latter is zero exactly when every loan's two totals agree, and the gross figure is the sum
  over the breaks listed.\<close>

theorem report_figures:
  assumes "reconcile env f t tol = Inr r"
  shows "net_variance_minor r = ledger_total_minor r - settlement_net_minor r \<and>
    \<bar>net_variance_minor r\<bar> \<le> per_loan_absolute_minor r \<and>
    gross_break_minor r = sum_list (map b_amount_minor (breaks r))"
proof -
  obtain lo hi rows ledger dups threshold seconds where
    rows: "load_settlement (settlement_path env) = Inr rows"
    and r: "r = compare_window lo hi tol threshold seconds rows ledger dups"
    using assms by (rule reconcileE)
  let ?l = "filter (\<lambda>r. in_window lo hi (date_of (created_at r))) ledger"
  let ?s = "filter (\<lambda>r. in_window lo hi (settlement_date r)) rows"
  note fig = compare_window_figures [OF r]
  have "\<forall>r \<in> set ?s. row_type r \<in> {''capture'', ''refund''}" using load_settlement_types(2) [OF rows] by simp
  from signed_split [OF this] have net: "net_variance_minor r = ledger_total_minor r - settlement_net_minor r"
    unfolding fig(1,3,4) by_loan_sum by simp
  have "net_variance_minor r = sum_list (loan_variances (ledger_by_loan ?l) (settlement_by_loan ?s))"
    unfolding fig(1) by (rule variances_sum [symmetric]) (rule by_loan_distinct)+
  then have "\<bar>net_variance_minor r\<bar> \<le> per_loan_absolute_minor r"
    unfolding fig(2) by (simp add: abs_sum_list_le)
  then show ?thesis using net fig(5) by simp
qed

text \<open>The two variance figures do not depend on the matching tolerance, as the report claims:
  two runs over the same data and window with different tolerances report the same net variance,
  per-loan absolute variance and totals.\<close>

theorem variance_independent_of_tolerance:
  assumes "reconcile env f t tol = Inr r" "reconcile env f t tol' = Inr r'"
  shows "net_variance_minor r = net_variance_minor r' \<and>
    per_loan_absolute_minor r = per_loan_absolute_minor r' \<and>
    ledger_total_minor r = ledger_total_minor r' \<and> settlement_net_minor r = settlement_net_minor r'"
proof -
  obtain lo hi rows ledger dups threshold seconds where
    a: "load_settlement (settlement_path env) = Inr rows"
    "lo = (case f of Some d \<Rightarrow> d | None \<Rightarrow> Min (set (map settlement_date rows)))"
    "hi = (case t of Some d \<Rightarrow> d | None \<Rightarrow> Max (set (map settlement_date rows)))"
    "0 \<le> tol" "load_ledger (first_read env) (lo - tol) (hi + tol) = Inr ledger"
    "r = compare_window lo hi tol threshold seconds rows ledger dups"
    using assms(1) by (rule reconcileE)
  obtain lo' hi' rows' ledger' dups' threshold' seconds' where
    b: "load_settlement (settlement_path env) = Inr rows'"
    "lo' = (case f of Some d \<Rightarrow> d | None \<Rightarrow> Min (set (map settlement_date rows')))"
    "hi' = (case t of Some d \<Rightarrow> d | None \<Rightarrow> Max (set (map settlement_date rows')))"
    "0 \<le> tol'" "load_ledger (first_read env) (lo' - tol') (hi' + tol') = Inr ledger'"
    "r' = compare_window lo' hi' tol' threshold' seconds' rows' ledger' dups'"
    using assms(2) by (rule reconcileE)
  have same: "rows' = rows" using a(1) b(1) by simp
  have same: "rows' = rows" "lo' = lo" "hi' = hi" unfolding a(2,3) b(2,3) same by (rule refl)+
  obtain q where "first_read env = Some q" "filter (\<lambda>r. in_window lo hi (date_of (created_at r))) ledger =
       map row_of (filter (dated_in lo hi) (sort_key order_key q))"
    using ledger_in_window [OF a(5), of lo hi] a(4) by auto
  moreover obtain q' where "first_read env = Some q'"
    "filter (\<lambda>r. in_window lo hi (date_of (created_at r))) ledger' =
       map row_of (filter (dated_in lo hi) (sort_key order_key q'))"
    using ledger_in_window [OF b(5), of lo hi] b(4) same by auto
  ultimately have l: "filter (\<lambda>r. in_window lo hi (date_of (created_at r))) ledger' =
      filter (\<lambda>r. in_window lo hi (date_of (created_at r))) ledger" by simp
  note fa = compare_window_figures [OF a(6)] and fb = compare_window_figures [OF b(6)]
  show ?thesis unfolding fa fb same l by simp
qed

text \<open>A clean exit, unfolded: no break was found, no suspect reported, no alert triggered.\<close>

lemma clean_parts:
  fixes rows ledger lo hi tol
  defines "caps \<equiv> filter (\<lambda>r. row_type r = ''capture'')
      (filter (\<lambda>r. in_window (lo - tol) (hi + tol) (settlement_date r)) rows)"
  assumes r: "r = compare_window lo hi tol threshold seconds rows ledger dups"
    and clean: "exit_code r = 0"
  obtains pairs rl rc mm where "sound_matching tol ledger caps pairs rl rc mm"
    "\<forall>l \<in> set rl. \<not> in_window lo hi (date_of (created_at l))"
    "\<forall>s \<in> set rc. \<not> in_window lo hi (settlement_date s)"
    "\<forall>(l, s) \<in> set mm. \<not> in_window lo hi (date_of (created_at l)) \<and>
        \<not> in_window lo hi (settlement_date s)"
    "\<forall>s \<in> set rows. in_window lo hi (settlement_date s) \<longrightarrow> row_type s \<noteq> ''refund''"
proof -
  let ?l = "filter (\<lambda>r. in_window lo hi (date_of (created_at r))) ledger"
  let ?s = "filter (\<lambda>r. in_window lo hi (settlement_date r)) rows"
  let ?tc = "filter (\<lambda>r. row_type r = ''capture'') ?s"
  obtain n rl rc mm where m: "match_rows ledger caps tol ?l ?tc = (n, rl, rc, mm)"
    by (metis prod_cases4)
  obtain pairs where p: "sound_matching tol ledger caps pairs rl rc mm"
    using match_rows_sound [OF m] by blast
  have "breaks r = []" using clean by (simp add: exit_code_def split: if_splits)
  then have "filter (\<lambda>r. in_window lo hi (date_of (created_at r))) rl = [] \<and>
      filter (\<lambda>r. in_window lo hi (settlement_date r)) rc = [] \<and>
      filter (\<lambda>r. row_type r = ''refund'') ?s = [] \<and>
      filter (\<lambda>(l, c). in_window lo hi (date_of (created_at l)) \<or> in_window lo hi (settlement_date c)) mm = []"
    using m unfolding r compare_window_def Let_def caps_def by (simp add: sort_key_Nil_iff)
  then show thesis using that [OF p] by (fastforce simp: filter_empty_conv)
qed

text \<open>C5. A clean exit means reconciled: when a run exits 0, every payment dated in the window is
  paired with its own capture of the same loan and the same minor units within the tolerance, so is
  every capture settled in the window, no capture and no payment being used twice, and the window
  holds no refund.\<close>

theorem clean_exit_means_reconciled:
  assumes r: "reconcile env f t tol = Inr r" and clean: "exit_code r = 0"
    and l: "load_ledger (first_read env) (window_from r - tol) (window_to r + tol) = Inr ledger"
    and s: "load_settlement (settlement_path env) = Inr rows"
  shows "\<exists>pairs. mset (map fst pairs) \<subseteq># mset ledger \<and> mset (map snd pairs) \<subseteq># mset rows \<and>
    (\<forall>(a, c) \<in> set pairs. exact_ok tol a c) \<and>
    (\<forall>a \<in> set ledger. in_window (window_from r) (window_to r) (date_of (created_at a)) \<longrightarrow>
       a \<in> fst ` set pairs) \<and>
    (\<forall>c \<in> set rows. in_window (window_from r) (window_to r) (settlement_date c) \<longrightarrow>
       row_type c \<noteq> ''refund'' \<and> c \<in> snd ` set pairs)"
proof -
  obtain lo hi rows' ledger' dups threshold seconds where
    a: "load_settlement (settlement_path env) = Inr rows'" "0 \<le> tol"
    "load_ledger (first_read env) (lo - tol) (hi + tol) = Inr ledger'"
    "r = compare_window lo hi tol threshold seconds rows' ledger' dups"
    using r by (rule reconcileE)
  have w: "window_from r = lo" "window_to r = hi" unfolding a(4) compare_window_def
    by (simp_all add: Let_def split: prod.split)
  have same: "rows' = rows" "ledger' = ledger" using a s l w by simp_all
  let ?caps = "filter (\<lambda>r. row_type r = ''capture'')
      (filter (\<lambda>r. in_window (lo - tol) (hi + tol) (settlement_date r)) rows)"
  obtain pairs rl rc mm where p: "sound_matching tol ledger ?caps pairs rl rc mm"
    "\<forall>l \<in> set rl. \<not> in_window lo hi (date_of (created_at l))"
    "\<forall>s \<in> set rc. \<not> in_window lo hi (settlement_date s)"
    "\<forall>(l, s) \<in> set mm. \<not> in_window lo hi (date_of (created_at l)) \<and>
        \<not> in_window lo hi (settlement_date s)"
    "\<forall>s \<in> set rows. in_window lo hi (settlement_date s) \<longrightarrow> row_type s \<noteq> ''refund''"
    using clean_parts [OF a(4) clean] unfolding same by metis
  have ml: "mset ledger = mset (map fst pairs) + mset (map fst mm) + mset rl"
    and mc: "mset ?caps = mset (map snd pairs) + mset (map snd mm) + mset rc"
    and ex: "\<forall>(l, s) \<in> set pairs. exact_ok tol l s"
    using p(1) by (simp_all add: sound_matching_def)
  have "set ledger = fst ` set pairs \<union> fst ` set mm \<union> set rl"
    using arg_cong [OF ml, of set_mset] by simp
  then have L: "\<forall>a \<in> set ledger. in_window lo hi (date_of (created_at a)) \<longrightarrow> a \<in> fst ` set pairs"
    using p(2,4) by fastforce
  have "set ?caps = snd ` set pairs \<union> snd ` set mm \<union> set rc"
    using arg_cong [OF mc, of set_mset] by simp
  then have C: "\<forall>c \<in> set ?caps. in_window lo hi (settlement_date c) \<longrightarrow> c \<in> snd ` set pairs"
    using p(3,4) by fastforce
  have "mset (map snd pairs) \<subseteq># mset ?caps" unfolding mc by (simp add: add.assoc)
  also have "mset ?caps \<subseteq># mset rows" by (simp add: multiset_filter_subset)
  finally have sub: "mset (map snd pairs) \<subseteq># mset rows" .
  have "\<forall>c \<in> set rows. in_window lo hi (settlement_date c) \<longrightarrow> row_type c \<noteq> ''refund'' \<and> c \<in> snd ` set pairs"
  proof (intro ballI impI conjI)
    fix c assume c: "c \<in> set rows" "in_window lo hi (settlement_date c)"
    show "row_type c \<noteq> ''refund''" using p(5) c by blast
    then have "c \<in> set ?caps" using c a(2) load_settlement_types(2) [OF s] by (auto simp: in_window_def)
    then show "c \<in> snd ` set pairs" using C c(2) by blast
  qed
  moreover have "mset (map fst pairs) \<subseteq># mset ledger" unfolding ml by (simp add: add.assoc)
  ultimately show ?thesis using ex L sub unfolding w by blast
qed

text \<open>One negative payment stops the control: a payments row of a negative amount of cents dated
  in the window the ledger is read for makes every run over that window abort.\<close>

theorem negative_payment_aborts_reconciliation:
  assumes "first_read env = Some table" "p \<in> set table" "r_created_at p = Some ts"
    and "lo - tol \<le> date_of ts" "date_of ts \<le> hi + tol"
    and "r_amount p = fl (of_int n / 100)" "n < 0" "- (10 ^ 15) < n"
  shows "\<exists>a. reconcile env (Some lo) (Some hi) tol = Inl a"
proof (rule ccontr)
  assume "\<nexists>a. reconcile env (Some lo) (Some hi) tol = Inl a"
  then obtain r where "reconcile env (Some lo) (Some hi) tol = Inr r"
    by (cases "reconcile env (Some lo) (Some hi) tol") auto
  then obtain lo' hi' rows ledger where l: "lo' = lo" "hi' = hi"
    "load_ledger (first_read env) (lo' - tol) (hi' + tol) = Inr ledger"
    by (rule reconcileE) auto
  have "dated_in (lo - tol) (hi + tol) p" using assms(3-5) by (simp add: dated_in_def in_window_def)
  then have q: "p \<in> set (ledger_query table (lo - tol) (hi + tol))"
    using assms(2) by (simp add: ledger_query_eq)
  have "minor_units_of_double (r_amount p) = Inl (Amount_not_plain '''')"
    unfolding assms(6) by (rule negative_amount_not_plain) (rule assms(7,8))+
  then have "ledger_entry (lo - tol) (hi + tol) p =
      (case r_loan_id p of None \<Rightarrow> Inl (Loan_id_missing (r_id p))
       | Some l \<Rightarrow> Inl (Bad_payment (r_id p) (Amount_not_plain '''')))"
    using assms(3-5) unfolding ledger_entry_def tag_error_def by (simp split: option.split)
  then obtain e0 where e0: "ledger_entry (lo - tol) (hi + tol) p = Inl e0"
    by (cases "r_loan_id p") simp_all
  then obtain e where "map_result (ledger_entry (lo - tol) (hi + tol))
      (ledger_query table (lo - tol) (hi + tol)) = Inl e"
    using map_result_error [OF q, where f = "ledger_entry (lo - tol) (hi + tol)" and e = e0] e0 by blast
  then have "load_ledger (first_read env) (lo - tol) (hi + tol) = Inl e"
    using assms(1) by (simp add: load_ledger_def)
  then show False using l by simp
qed

text \<open>Health and run agree on the settings: each \<^verbatim>\<open>/health\<close> rung passes exactly for the settings
  the run accepts.\<close>

theorem health_rungs_agree_with_run:
  "(duplicate_suspect_window_configured w \<longleftrightarrow> (\<exists>n. duplicate_suspect_window_seconds w = Inr n)) \<and>
   (reconciliation_alert_threshold_configured a \<longleftrightarrow> (\<exists>n. alert_threshold a = Inr n))"
  by (auto simp: duplicate_suspect_window_configured_def duplicate_suspect_window_seconds_def
      reconciliation_alert_threshold_configured_def alert_threshold_def Let_def
      split: option.splits if_splits)

section \<open>Instances\<close>

text \<open>One payment and its capture on 2026-08-17.\<close>

definition sample_table :: "payments_record list" where
  "sample_table = [\<lparr>r_id = 7, r_loan_id = Some 1, r_amount = 25,
     r_created_at = Some (midnight 739845 + 5)\<rparr>]"

definition sample_file :: settlement_file where
  "sample_file = Records [[''settlement_date'', ''processor_ref'', ''loan_id'', ''amount'', ''type''],
     [''2026-08-17'', ''ref-1'', ''1'', ''25.00'', ''capture'']]"

definition sample_run :: recon_env where
  "sample_run = \<lparr>threshold_setting = ''500'', suspect_setting = ''90'',
     settlement_path = sample_file, first_read = Some sample_table, second_read = Some sample_table\<rparr>"

lemma sample_day: "parse_date ''2026-08-17'' = Some 739845"
  by code_simp

lemma sample_settlement:
  "load_settlement sample_file = Inr [\<lparr>settlement_date = 739845, processor_ref = ''ref-1'',
     s_loan_id = 1, s_amount_minor = 2500, row_type = ''capture''\<rparr>]"
  by code_simp

lemma sample_ledger:
  "load_ledger (Some sample_table) 739844 739846 =
     Inr [\<lparr>payment_id = 7, l_loan_id = 1, l_amount_minor = 2500, created_at = midnight 739845 + 5\<rparr>]"
  by code_simp

lemma sample_clean:
  "map_sum (\<lambda>_. ()) (\<lambda>r. (exit_code r, window_from r, window_to r)) (reconcile sample_run None None 1) =
     Inr (0, 739845, 739845)"
  by code_simp

lemma sample_zero:
  "map_sum (\<lambda>_. ()) exit_code (reconcile sample_run None None 0) = Inr 0"
  by code_simp

lemma sample_result:
  obtains r where "reconcile sample_run None None 1 = Inr r" "exit_code r = 0"
    "window_from r = 739845" "window_to r = 739845"
  using sample_clean by (cases "reconcile sample_run None None 1") auto

theorem report_figures_witness:
  "\<exists>r. reconcile sample_run None None 1 = Inr r \<and>
     net_variance_minor r = ledger_total_minor r - settlement_net_minor r"
  using sample_result report_figures by metis

theorem variance_independent_of_tolerance_witness:
  "\<exists>r r'. reconcile sample_run None None 1 = Inr r \<and> reconcile sample_run None None 0 = Inr r' \<and>
     net_variance_minor r = net_variance_minor r'"
proof -
  obtain r where r: "reconcile sample_run None None 1 = Inr r" by (rule sample_result)
  obtain r' where r': "reconcile sample_run None None 0 = Inr r'"
    using sample_zero by (cases "reconcile sample_run None None 0") auto
  show ?thesis using variance_independent_of_tolerance [OF r r'] r r' by blast
qed

theorem clean_exit_means_reconciled_witness:
  "\<exists>pairs. \<lparr>payment_id = 7, l_loan_id = 1, l_amount_minor = 2500, created_at = midnight 739845 + 5\<rparr> \<in>
     fst ` set (pairs :: (ledger_row \<times> settlement_row) list)"
proof -
  obtain r where r: "reconcile sample_run None None 1 = Inr r" "exit_code r = 0"
    and w: "window_from r = 739845" "window_to r = 739845" by (rule sample_result)
  let ?p = "\<lparr>payment_id = 7, l_loan_id = 1, l_amount_minor = 2500, created_at = midnight 739845 + 5\<rparr>"
  have "load_ledger (first_read sample_run) (window_from r - 1) (window_to r + 1) = Inr [?p]"
    using sample_ledger by (simp add: w sample_run_def)
  moreover have "load_settlement (settlement_path sample_run) =
      Inr [\<lparr>settlement_date = 739845, processor_ref = ''ref-1'',
        s_loan_id = 1, s_amount_minor = 2500, row_type = ''capture''\<rparr>]"
    using sample_settlement by (simp add: sample_run_def)
  ultimately obtain pairs :: "(ledger_row \<times> settlement_row) list"
    where "\<forall>a \<in> set [?p]. in_window (window_from r) (window_to r) (date_of (created_at a)) \<longrightarrow> a \<in> fst ` set pairs"
    using clean_exit_means_reconciled [OF r] by blast
  moreover have "in_window 739845 739845 (date_of (midnight 739845 + 5))" by code_simp
  ultimately have "?p \<in> fst ` set pairs" unfolding w by simp
  then show ?thesis by blast
qed

theorem negative_payment_aborts_reconciliation_witness:
  "\<exists>a. reconcile (sample_run\<lparr>first_read := Some [\<lparr>r_id = 8, r_loan_id = Some 1, r_amount = fl (of_int (- 2500) / 100),
     r_created_at = Some (midnight 739845)\<rparr>]\<rparr>) (Some 739845) (Some 739845) 1 = Inl a"
  by (rule negative_payment_aborts_reconciliation [where n = "- 2500" and ts = "midnight 739845"])
    (simp, rule list.set_intros(1), simp_all add: midnight_def date_of_def micros_per_day_def)

end
