(* ===== verification/FeeRules.thy ===== *)
theory FeeRules
  imports Rounding
begin

text \<open>
  The versioned fee schedule of disclosure-service (\<^verbatim>\<open>app/rules.py\<close>, \<^verbatim>\<open>app/fees.py\<close>): where
  the file is looked for, its validation and the process-wide cache. The file system answers
  with a \<open>policy_text\<close>; a parsed JSON object is the association list of its (distinct) keys.
\<close>

section \<open>The file\<close>

datatype raw =
  RNull | RBool bool | RInt int | RFloat rat | RNonFinite | RStr string | RList | RObj

text \<open>
  What reading and parsing the file can give: no file, an unreadable or syntactically broken
  one, bytes that are not UTF-8, a JSON value that is not an object, or an object.
\<close>

datatype policy_text =
  File_missing | File_unreadable | File_undecodable | Not_an_object | Policy "(string \<times> raw) list"

text \<open>
  The first five are \<^verbatim>\<open>RulesConfigError\<close>; the last two are the exceptions of
  \<^verbatim>\<open>read_text\<close> and of \<^verbatim>\<open>raw.get\<close> that the loader does not catch.
\<close>

datatype rules_error =
  Schedule_not_found | Schedule_unreadable | No_version
| Not_a_number string | Outside_bounds string
| Unicode_error | Attribute_error

fun is_rules_config_error :: "rules_error \<Rightarrow> bool" where
  "is_rules_config_error Unicode_error = False"
| "is_rules_config_error Attribute_error = False"
| "is_rules_config_error _ = True"

record fee_schedule =
  version :: string
  origination_fee_pct :: rat
  late_fee_amount :: rat
  nsf_fee :: rat
  apr_tolerance_pp :: rat

definition fee_bounds :: "(string \<times> rat \<times> rat) list" where
  "fee_bounds =
     [(''origination_fee_pct'', 0, 1 / 4), (''late_fee_flat'', 0, 1000),
      (''nsf_fee'', 0, 1000), (''apr_tolerance_pp'', 0, 1)]"

section \<open>Where the file is\<close>

text \<open>Absolute paths are the list of their components.\<close>

definition container_path :: "string list" where
  "container_path = [''app'', ''policies'', ''fee_schedule.json'']"

definition repo_path :: "string list \<Rightarrow> string list" where
  "repo_path here =
     (if length here \<le> 3 then container_path
      else take (length here - 4) here @ [''policies'', ''fee_schedule.json''])"

definition resolve_path ::
  "(string \<Rightarrow> string list) \<Rightarrow> string option \<Rightarrow> bool \<Rightarrow> string list \<Rightarrow> string list" where
  "resolve_path to_path override container_exists here =
     (case override of
        Some p \<Rightarrow> if p \<noteq> '''' then to_path p
                 else if container_exists then container_path else repo_path here
      | None \<Rightarrow> if container_exists then container_path else repo_path here)"

section \<open>Validation\<close>

definition check_field :: "(string \<times> raw) list \<Rightarrow> string \<times> rat \<times> rat \<Rightarrow> rules_error + rat" where
  "check_field doc b =
     (case b of (field, low, high) \<Rightarrow>
        (case map_of doc field of
           Some (RInt i) \<Rightarrow>
             if low \<le> of_int i \<and> of_int i \<le> high then Inr (fl (of_int i))
             else Inl (Outside_bounds field)
         | Some (RFloat x) \<Rightarrow>
             if low \<le> x \<and> x \<le> high then Inr x else Inl (Outside_bounds field)
         | Some RNonFinite \<Rightarrow> Inl (Outside_bounds field)
         | _ \<Rightarrow> Inl (Not_a_number field)))"

definition version_of :: "(string \<times> raw) list \<Rightarrow> rules_error + string" where
  "version_of doc =
     (case map_of doc ''version'' of
        Some (RStr v) \<Rightarrow> if strip v = '''' then Inl No_version else Inr v
      | _ \<Rightarrow> Inl No_version)"

definition load_fee_schedule :: "policy_text \<Rightarrow> rules_error + fee_schedule" where
  "load_fee_schedule src =
     (case src of
        File_missing \<Rightarrow> Inl Schedule_not_found
      | File_unreadable \<Rightarrow> Inl Schedule_unreadable
      | File_undecodable \<Rightarrow> Inl Unicode_error
      | Not_an_object \<Rightarrow> Inl Attribute_error
      | Policy doc \<Rightarrow>
          bind_result (version_of doc) (\<lambda>v.
          bind_result (map_result (check_field doc) fee_bounds) (\<lambda>vs.
            Inr \<lparr>version = v, origination_fee_pct = vs ! 0, late_fee_amount = vs ! 1,
                 nsf_fee = vs ! 2, apr_tolerance_pp = vs ! 3\<rparr>)))"

section \<open>The process cache\<close>

type_synonym rules_cache = "fee_schedule option"

definition get_fee_schedule ::
  "policy_text \<Rightarrow> rules_cache \<Rightarrow> (rules_error + fee_schedule) \<times> rules_cache" where
  "get_fee_schedule src cached =
     (case cached of
        Some s \<Rightarrow> (Inr s, cached)
      | None \<Rightarrow> (case load_fee_schedule src of
                   Inl e \<Rightarrow> (Inl e, None)
                 | Inr s \<Rightarrow> (Inr s, Some s)))"

definition reset_cache :: "rules_cache \<Rightarrow> rules_cache" where
  "reset_cache cached = None"

text \<open>\<open>Inr None\<close>: the schedule loads; \<open>Inr (Some e)\<close>: the reason; \<open>Inl e\<close>: it raised.\<close>

definition config_error ::
  "policy_text \<Rightarrow> rules_cache \<Rightarrow> (rules_error + rules_error option) \<times> rules_cache" where
  "config_error src cached =
     (case get_fee_schedule src cached of
        (Inr s, c) \<Rightarrow> (Inr None, c)
      | (Inl e, c) \<Rightarrow> (if is_rules_config_error e then Inr (Some e) else Inl e, c))"

text \<open>\<^verbatim>\<open>fees.py\<close>: float arithmetic on the schedule.\<close>

definition origination_fee :: "fee_schedule \<Rightarrow> rat \<Rightarrow> rat" where
  "origination_fee s amount = fl (amount * origination_fee_pct s)"

definition late_fee :: "fee_schedule \<Rightarrow> rat \<Rightarrow> rat" where
  "late_fee s past_due = late_fee_amount s"

section \<open>Lemmas\<close>

text \<open>The sanity rails every schedule in use respects.\<close>

definition schedule_ok :: "fee_schedule \<Rightarrow> bool" where
  "schedule_ok s \<longleftrightarrow> strip (version s) \<noteq> '''' \<and>
     0 \<le> origination_fee_pct s \<and> origination_fee_pct s \<le> 1 / 4 \<and>
     0 \<le> late_fee_amount s \<and> late_fee_amount s \<le> 1000 \<and>
     0 \<le> nsf_fee s \<and> nsf_fee s \<le> 1000 \<and>
     0 \<le> apr_tolerance_pp s \<and> apr_tolerance_pp s \<le> 1"

lemma fl_within:
  assumes "\<bar>a\<bar> < 2 ^ 53" "\<bar>b\<bar> < 2 ^ 53" "of_int a / 4 \<le> x" "x \<le> of_int b / 4"
  shows "of_int a / 4 \<le> fl x \<and> fl x \<le> of_int b / 4"
  using assms unfolding fl_def
  by (intro round_sig_between) (use sig_repr_of_int_div [of 2 a 53 2] sig_repr_of_int_div [of 2 b 53 2]
      in simp_all)

lemma check_field_bounds:
  assumes "check_field doc (field, of_int a / 4, of_int b / 4) = Inr v"
    "\<bar>a\<bar> < 2 ^ 53" "\<bar>b\<bar> < 2 ^ 53"
  shows "of_int a / 4 \<le> v \<and> v \<le> of_int b / 4"
  using assms fl_within [OF assms(2,3)]
  by (auto simp: check_field_def split: option.splits raw.splits if_splits)

lemma version_of_nonblank: "version_of doc = Inr v \<Longrightarrow> strip v \<noteq> ''''"
  by (auto simp: version_of_def split: option.splits raw.splits if_splits)

lemma load_schedule_ok:
  assumes "load_fee_schedule src = Inr s"
  shows "schedule_ok s"
proof -
  obtain doc where t: "src = Policy doc" using assms by (cases src) (auto simp: load_fee_schedule_def)
  obtain v vs where v: "version_of doc = Inr v"
    and vs: "map_result (check_field doc) fee_bounds = Inr vs"
    and s: "s = \<lparr>version = v, origination_fee_pct = vs ! 0, late_fee_amount = vs ! 1,
                 nsf_fee = vs ! 2, apr_tolerance_pp = vs ! 3\<rparr>"
    using assms by (auto simp: load_fee_schedule_def t bind_result_Inr_iff)
  obtain a b c d where abcd: "vs = [a, b, c, d]"
    "check_field doc (''origination_fee_pct'', 0, 1 / 4) = Inr a"
    "check_field doc (''late_fee_flat'', 0, 1000) = Inr b"
    "check_field doc (''nsf_fee'', 0, 1000) = Inr c"
    "check_field doc (''apr_tolerance_pp'', 0, 1) = Inr d"
    using vs by (auto simp: fee_bounds_def bind_result_Inr_iff)
  show ?thesis
    using abcd version_of_nonblank [OF v]
      check_field_bounds [of doc "''origination_fee_pct''" 0 1 a]
      check_field_bounds [of doc "''late_fee_flat''" 0 4000 b]
      check_field_bounds [of doc "''nsf_fee''" 0 4000 c]
      check_field_bounds [of doc "''apr_tolerance_pp''" 0 4 d]
    by (simp add: schedule_ok_def s)
qed

text \<open>What a file states, without the bounds: a version and the four figures, as floats.\<close>

definition stated_figure :: "(string \<times> raw) list \<Rightarrow> string \<Rightarrow> rat option" where
  "stated_figure doc field =
     (case map_of doc field of Some (RInt i) \<Rightarrow> Some (fl (of_int i)) | Some (RFloat x) \<Rightarrow> Some x | _ \<Rightarrow> None)"

definition states :: "policy_text \<Rightarrow> fee_schedule \<Rightarrow> bool" where
  "states src s \<longleftrightarrow>
     (\<exists>doc. src = Policy doc \<and> map_of doc ''version'' = Some (RStr (version s)) \<and>
        stated_figure doc ''origination_fee_pct'' = Some (origination_fee_pct s) \<and>
        stated_figure doc ''late_fee_flat'' = Some (late_fee_amount s) \<and>
        stated_figure doc ''nsf_fee'' = Some (nsf_fee s) \<and>
        stated_figure doc ''apr_tolerance_pp'' = Some (apr_tolerance_pp s))"

text \<open>The bounds may be tested before or after the conversion to a float.\<close>

lemma fl_int_nonneg: "0 \<le> fl (of_int i) \<longleftrightarrow> 0 \<le> i"
proof
  assume f: "0 \<le> fl (of_int i)"
  show "0 \<le> i"
  proof (rule ccontr)
    assume "\<not> 0 \<le> i"
    then have "fl (of_int i) \<le> fl (of_int (- 1))" by (intro fl_mono) simp
    then show False using fl_exact_int [of "- 1"] f by simp
  qed
qed (use fl_mono [of 0 "of_int i"] in simp)

lemma fl_int_le:
  assumes "0 \<le> b" "b < 2 ^ 53"
  shows "fl (of_int i) \<le> of_int b / 4 \<longleftrightarrow> of_int i \<le> (of_int b :: rat) / 4"
proof
  assume le: "fl (of_int i) \<le> of_int b / 4"
  show "of_int i \<le> (of_int b :: rat) / 4"
  proof (rule ccontr)
    assume "\<not> of_int i \<le> (of_int b :: rat) / 4"
    then have "of_int b < (of_int (4 * i) :: rat)" by simp
    then have "b div 4 + 1 \<le> i" unfolding of_int_less_iff by linarith
    then have "fl (of_int (b div 4 + 1)) \<le> fl (of_int i)" by (intro fl_mono) (simp only: of_int_le_iff)
    moreover have "fl (of_int (b div 4 + 1)) = of_int (b div 4 + 1)" using assms by (intro fl_exact_int) simp
    moreover have "of_int b < (of_int (4 * (b div 4 + 1)) :: rat)" unfolding of_int_less_iff by presburger
    then have "of_int b / 4 < (of_int (b div 4 + 1) :: rat)" by simp
    ultimately show False using le by linarith
  qed
next
  assume "of_int i \<le> (of_int b :: rat) / 4"
  then have "fl (of_int i) \<le> fl (of_int b / 4)" by (rule fl_mono)
  also have "fl (of_int b / 4) = of_int b / 4"
    using fl_within [of b b "of_int b / 4"] assms by simp
  finally show "fl (of_int i) \<le> of_int b / 4" .
qed

lemma check_field_iff:
  assumes "0 \<le> b" "b < 2 ^ 53"
  shows "check_field doc (field, 0, of_int b / 4) = Inr v \<longleftrightarrow>
    stated_figure doc field = Some v \<and> 0 \<le> v \<and> v \<le> of_int b / 4"
  using fl_int_le [OF assms] fl_int_nonneg
  by (auto simp: check_field_def stated_figure_def split: option.split raw.split)

lemma version_of_iff: "version_of doc = Inr v \<longleftrightarrow> map_of doc ''version'' = Some (RStr v) \<and> strip v \<noteq> ''''"
  by (auto simp: version_of_def split: option.split raw.split)

text \<open>A schedule loads exactly where a file states it and it is inside the bounds.\<close>

lemma load_iff: "load_fee_schedule src = Inr s \<longleftrightarrow> states src s \<and> schedule_ok s"
proof (cases src)
  case (Policy doc)
  have f: "check_field doc (''origination_fee_pct'', 0, 1 / 4) = Inr a \<longleftrightarrow>
      stated_figure doc ''origination_fee_pct'' = Some a \<and> 0 \<le> a \<and> a \<le> 1 / 4"
    "check_field doc (''late_fee_flat'', 0, 1000) = Inr a \<longleftrightarrow> stated_figure doc ''late_fee_flat'' = Some a \<and> 0 \<le> a \<and> a \<le> 1000"
    "check_field doc (''nsf_fee'', 0, 1000) = Inr a \<longleftrightarrow> stated_figure doc ''nsf_fee'' = Some a \<and> 0 \<le> a \<and> a \<le> 1000"
    "check_field doc (''apr_tolerance_pp'', 0, 1) = Inr a \<longleftrightarrow> stated_figure doc ''apr_tolerance_pp'' = Some a \<and> 0 \<le> a \<and> a \<le> 1"
    for a using check_field_iff [of 1 doc "''origination_fee_pct''" a] check_field_iff [of 4000 doc "''late_fee_flat''" a]
      check_field_iff [of 4000 doc "''nsf_fee''" a] check_field_iff [of 4 doc "''apr_tolerance_pp''" a] by simp_all
  show ?thesis
    by (cases s) (auto simp: Policy load_fee_schedule_def states_def schedule_ok_def fee_bounds_def bind_result_Inr_iff
        version_of_iff f)
qed (simp_all add: load_fee_schedule_def states_def)

section \<open>Fail closed\<close>

text \<open>The life of the process: reads under whatever the file then is, health checks, resets.\<close>

datatype rules_op = Get policy_text | Check policy_text | Reset

fun rules_step :: "rules_cache \<Rightarrow> rules_op \<Rightarrow> rules_cache" where
  "rules_step c (Get src) = snd (get_fee_schedule src c)"
| "rules_step c (Check src) = snd (config_error src c)"
| "rules_step c Reset = reset_cache c"

lemma config_error_cache: "snd (config_error src c) = snd (get_fee_schedule src c)"
  by (simp add: config_error_def split: prod.splits sum.splits)

text \<open>Every file the process has read.\<close>

fun read_by :: "rules_op \<Rightarrow> policy_text set" where
  "read_by (Get src) = {src}"
| "read_by (Check src) = {src}"
| "read_by Reset = {}"

definition cache_from :: "policy_text set \<Rightarrow> rules_cache \<Rightarrow> bool" where
  "cache_from srcs c \<longleftrightarrow> (\<forall>s. c = Some s \<longrightarrow> schedule_ok s \<and> (\<exists>src \<in> srcs. states src s))"

lemma get_from: "cache_from srcs c \<Longrightarrow> cache_from (insert src srcs) (snd (get_fee_schedule src c))"
  by (auto simp: cache_from_def get_fee_schedule_def load_iff split: option.splits sum.splits)

lemma rules_step_from: "cache_from srcs c \<Longrightarrow> cache_from (srcs \<union> read_by e) (rules_step c e)"
  using get_from [of srcs c]
  by (cases e) (simp_all add: config_error_cache reset_cache_def cache_from_def [of _ None])

lemma rules_steps_from: "cache_from srcs c \<Longrightarrow> cache_from (srcs \<union> (\<Union>e \<in> set ops. read_by e)) (foldl rules_step c ops)"
proof (induction ops arbitrary: srcs c)
  case (Cons e ops)
  from Cons.IH [OF rules_step_from [OF Cons.prems]] show ?case by (simp add: Un_assoc)
qed simp

text \<open>C7. The fee schedule fails closed: a bad file is an error and never a default. After any reads,
  health checks and resets, under whatever the file was at each of them, a call either hands out a
  schedule, every figure of which is stated by a file the process has read (by the file as it is
  now, when nothing is cached), inside every bound and with a version, and the same schedule is then
  the answer of every later call until a reset; or it raises, caches nothing, and the file as it
  is now states no schedule inside the bounds.\<close>

theorem rules_fail_closed:
  "case get_fee_schedule src (foldl rules_step None ops) of
     (Inr s, c) \<Rightarrow>
       schedule_ok s \<and> (\<exists>f \<in> insert src (\<Union>e \<in> set ops. read_by e). states f s) \<and>
       (foldl rules_step None ops = None \<longrightarrow> states src s) \<and> (\<forall>src'. get_fee_schedule src' c = (Inr s, c))
   | (Inl e, c) \<Rightarrow> c = None \<and> \<not> (\<exists>s. states src s \<and> schedule_ok s)"
proof -
  let ?c = "foldl rules_step None ops"
  have from_files: "cache_from (\<Union>e \<in> set ops. read_by e) ?c"
    using rules_steps_from [of "{}" None ops] by (simp add: cache_from_def)
  show ?thesis
  proof (cases ?c)
    case None
    then show ?thesis
      using load_iff [of src] by (cases "load_fee_schedule src") (auto simp: get_fee_schedule_def)
  next
    case (Some s)
    then show ?thesis using from_files by (auto simp: get_fee_schedule_def cache_from_def)
  qed
qed

definition sample_policy :: "(string \<times> raw) list" where
  "sample_policy = [(''version'', RStr ''2024-11''), (''origination_fee_pct'', RFloat (1 / 32)),
     (''late_fee_flat'', RInt 35), (''nsf_fee'', RInt 25), (''apr_tolerance_pp'', RFloat (1 / 8))]"

definition sample_schedule :: fee_schedule where
  "sample_schedule = \<lparr>version = ''2024-11'', origination_fee_pct = 1 / 32, late_fee_amount = 35,
     nsf_fee = 25, apr_tolerance_pp = 1 / 8\<rparr>"

lemma sample_loads: "load_fee_schedule (Policy sample_policy) = Inr sample_schedule"
proof -
  have "version_of sample_policy = Inr ''2024-11''" by code_simp
  moreover have "fl 35 = 35" "fl 25 = 25" using fl_exact_int [of 35] fl_exact_int [of 25] by simp_all
  ultimately show ?thesis
    by (simp add: load_fee_schedule_def fee_bounds_def check_field_def sample_policy_def sample_schedule_def)
qed

lemma sample_schedule_ok: "schedule_ok sample_schedule"
  by (rule load_schedule_ok [OF sample_loads])

theorem rules_fail_closed_witness:
  "get_fee_schedule (Policy sample_policy) (foldl rules_step None [Check File_unreadable])
     = (Inr sample_schedule, Some sample_schedule) \<and> states (Policy sample_policy) sample_schedule"
proof -
  have c: "foldl rules_step None [Check File_unreadable] = None"
    by (simp add: config_error_cache get_fee_schedule_def load_fee_schedule_def [of File_unreadable])
  then have g: "get_fee_schedule (Policy sample_policy) (foldl rules_step None [Check File_unreadable])
     = (Inr sample_schedule, Some sample_schedule)"
    by (simp add: get_fee_schedule_def sample_loads)
  show ?thesis using rules_fail_closed [of "Policy sample_policy" "[Check File_unreadable]"] unfolding g unfolding c by simp
qed

end
