(* ===== verification/Apr.thy ===== *)
theory Apr
  imports FeeRules Json
begin

text \<open>
  APR and finance charge of disclosure-service (\<^verbatim>\<open>app/apr.py\<close>), in \<^verbatim>\<open>decimal\<close> arithmetic
  of 28 digits: every operation rounds by \<open>dec28\<close>, and \<open>**\<close> with an integer exponent is
  libmpdec's square-and-multiply with its extra working digits. The exponent range of
  \<^verbatim>\<open>decimal\<close> is left out. What \<^verbatim>\<open>rules.get_fee_schedule()\<close> answers is an argument.
\<close>

section \<open>Decimal operations\<close>

datatype calc_error =
  Value_error string | Zero_division | Invalid_operation | Rules_error rules_error

text \<open>\<^verbatim>\<open>x.quantize(10 ** -d, ROUND_HALF_UP)\<close>: more than 28 digits is an invalid operation.\<close>

definition quantize28 :: "nat \<Rightarrow> rat \<Rightarrow> calc_error + rat" where
  "quantize28 d x =
     (let c = round_half_up (x * 10 ^ d)
      in if \<bar>c\<bar> < 10 ^ 28 then Inr (of_int c / 10 ^ d) else Inl Invalid_operation)"

text \<open>Left-to-right binary power at \<open>p\<close> digits.\<close>

fun pow_uint :: "nat \<Rightarrow> rat \<Rightarrow> nat \<Rightarrow> rat" where
  "pow_uint p x n =
     (if n \<le> 1 then x
      else let h = pow_uint p x (n div 2); sq = round_sig 10 p (h * h)
           in if odd n then round_sig 10 p (sq * x) else sq)"

declare pow_uint.simps [simp del]

definition pow_digits :: "int \<Rightarrow> nat" where
  "pow_digits n = 28 + (length (show_nat (nat \<bar>n\<bar>)) + 2) + (if n < 0 then 1 else 0)"

definition dec_pow :: "rat \<Rightarrow> int \<Rightarrow> rat" where
  "dec_pow x n =
     (if n = 0 then 1
      else let p = pow_digits n; b = (if n < 0 then round_sig 10 p (1 / x) else x)
           in dec28 (pow_uint p b (nat \<bar>n\<bar>)))"

section \<open>The module\<close>

text \<open>The callers pass Decimals, ints and floats.\<close>

datatype py_num = PDec rat | PInt int | PFloat rat

fun to_decimal :: "py_num \<Rightarrow> rat" where
  "to_decimal (PDec x) = x"
| "to_decimal (PInt i) = of_int i"
| "to_decimal (PFloat x) = py_repr x"

definition validate :: "rat \<Rightarrow> int \<Rightarrow> calc_error + unit" where
  "validate prin term_months =
     (if prin \<le> 0 then Inl (Value_error ''principal must be positive'')
      else if term_months \<le> 0 then Inl (Value_error ''term_months must be positive'')
      else Inr ())"

definition monthly_rate_of :: "py_num \<Rightarrow> rat" where
  "monthly_rate_of annual_rate_pct = dec28 (dec28 (to_decimal annual_rate_pct / 100) / 12)"

definition monthly_payment :: "py_num \<Rightarrow> py_num \<Rightarrow> int \<Rightarrow> calc_error + rat" where
  "monthly_payment prin annual_rate_pct term_months =
     (let p = to_decimal prin
      in bind_result (validate p term_months) (\<lambda>_.
         let r = monthly_rate_of annual_rate_pct
         in if r = 0 then Inr (dec28 (p / of_int term_months))
            else let factor = dec_pow (dec28 (1 + r)) term_months;
                     d = dec28 (factor - 1)
                 in if d = 0 then Inl Zero_division
                    else Inr (dec28 (dec28 (dec28 (p * r) * factor) / d))))"

definition prepaid_finance_charge :: "rules_error + fee_schedule \<Rightarrow> py_num \<Rightarrow> calc_error + rat" where
  "prepaid_finance_charge rules prin =
     (case rules of
        Inl e \<Rightarrow> Inl (Rules_error e)
      | Inr s \<Rightarrow>
          quantize28 2 (dec28 (to_decimal prin * to_decimal (PFloat (origination_fee_pct s)))))"

definition amount_financed :: "rules_error + fee_schedule \<Rightarrow> py_num \<Rightarrow> calc_error + rat" where
  "amount_financed rules prin =
     bind_result (prepaid_finance_charge rules prin)
       (\<lambda>fee. Inr (dec28 (to_decimal prin - fee)))"

definition interest_charge :: "py_num \<Rightarrow> py_num \<Rightarrow> int \<Rightarrow> calc_error + rat" where
  "interest_charge prin annual_rate_pct term_months =
     bind_result (validate (to_decimal prin) term_months) (\<lambda>_.
     bind_result (monthly_payment prin annual_rate_pct term_months) (\<lambda>pmt.
       Inr (dec28 (dec28 (pmt * of_int term_months) - to_decimal prin))))"

definition finance_charge ::
  "rules_error + fee_schedule \<Rightarrow> py_num \<Rightarrow> py_num \<Rightarrow> int \<Rightarrow> calc_error + rat" where
  "finance_charge rules prin annual_rate_pct term_months =
     bind_result (interest_charge prin annual_rate_pct term_months) (\<lambda>total.
     bind_result (prepaid_finance_charge rules prin) (\<lambda>fee.
       quantize28 2 (dec28 (total + fee))))"

definition present_value :: "rat \<Rightarrow> rat \<Rightarrow> int \<Rightarrow> rat" where
  "present_value payment rate term_months =
     (if rate = 0 then dec28 (payment * of_int term_months)
      else dec28 (dec28 (payment * dec28 (1 - dec_pow (dec28 (1 + rate)) (- term_months))) / rate))"

text \<open>The search on the monthly rate, between 0 and 1, for 200 halvings.\<close>

definition midpoint :: "rat \<Rightarrow> rat \<Rightarrow> rat" where
  "midpoint lo hi = dec28 (dec28 (lo + hi) / 2)"

definition bisect_step :: "(rat \<Rightarrow> rat) \<Rightarrow> rat \<Rightarrow> rat \<times> rat \<Rightarrow> rat \<times> rat" where
  "bisect_step pv financed b =
     (let mid = midpoint (fst b) (snd b)
      in if pv mid > financed then (mid, snd b) else (fst b, mid))"

definition iterations :: nat where
  "iterations = 200"

definition bisect :: "(rat \<Rightarrow> rat) \<Rightarrow> rat \<Rightarrow> rat \<times> rat" where
  "bisect pv financed = (bisect_step pv financed ^^ iterations) (0, 1)"

definition compute_apr ::
  "rules_error + fee_schedule \<Rightarrow> py_num \<Rightarrow> py_num \<Rightarrow> int \<Rightarrow> calc_error + rat" where
  "compute_apr rules prin annual_rate_pct term_months =
     (let p = to_decimal prin
      in bind_result (validate p term_months) (\<lambda>_.
         bind_result (monthly_payment (PDec p) annual_rate_pct term_months) (\<lambda>payment.
         bind_result (amount_financed rules (PDec p)) (\<lambda>financed.
           if financed \<le> 0 then Inl (Value_error ''amount financed must be positive'')
           else let b = bisect (\<lambda>rate. present_value payment rate term_months) financed;
                    monthly = midpoint (fst b) (snd b)
                in quantize28 3 (dec28 (dec28 (monthly * 12) * 100))))))"

section \<open>Rounding lemmas\<close>

lemma dec28_rel: "\<bar>dec28 x - x\<bar> \<le> \<bar>x\<bar> / (2 * 10 ^ 27)"
proof -
  have "(of_nat 10 :: rat) powi (1 - int 28) / 2 = 1 / (2 * 10 ^ 27)" by (simp add: power_int_minus)
  then show ?thesis using round_sig_rel_err [of 10 28 x] by (simp add: dec28_def field_simps)
qed

lemma dec28_factor2:
  assumes "0 \<le> x"
  shows "x / 2 \<le> dec28 x" "dec28 x \<le> 2 * x"
proof -
  have "x / (2 * 10 ^ 27) \<le> x / 2" using assms by (intro divide_left_mono) simp_all
  then show "x / 2 \<le> dec28 x" "dec28 x \<le> 2 * x" using dec28_rel [of x] assms by linarith+
qed

lemma dec28_between:
  assumes "\<bar>a\<bar> < 10 ^ 28" "\<bar>b\<bar> < 10 ^ 28" "of_int a / 10 ^ j \<le> x" "x \<le> of_int b / 10 ^ k"
  shows "of_int a / 10 ^ j \<le> dec28 x \<and> dec28 x \<le> of_int b / 10 ^ k"
  using dec28_mono [OF assms(3)] dec28_mono [OF assms(4)] dec28_exact [OF assms(1), of j]
    dec28_exact [OF assms(2), of k] by simp

lemma py_repr_between:
  assumes "sig_repr 10 1 l" "sig_repr 10 1 h" "l \<le> x" "x \<le> h"
  shows "l \<le> py_repr x \<and> py_repr x \<le> h"
proof -
  have b: "l \<le> round_sig 10 n x \<and> round_sig 10 n x \<le> h" if "1 \<le> n" for n
    using assms that by (intro round_sig_between) (auto intro: sig_repr_mono [of 1])
  show ?thesis
  proof (cases "find (\<lambda>n. fl (round_sig 10 n x) = x) [1..<18]")
    case None
    then show ?thesis using b by (simp add: py_repr_def)
  next
    case (Some n)
    then have "n \<in> set [1..<18]" by (auto simp: find_Some_iff)
    then show ?thesis using b Some by (simp add: py_repr_def)
  qed
qed

lemma quantize28_ok: "\<bar>x * 10 ^ d\<bar> \<le> 10 ^ 27 \<Longrightarrow> \<exists>y. quantize28 d x = Inr y"
proof -
  assume a: "\<bar>x * 10 ^ d\<bar> \<le> 10 ^ 27"
  have "\<bar>of_int (round_half_up (x * 10 ^ d)) - x * 10 ^ d\<bar> \<le> 1 / 2" by (rule round_half_up_near)
  moreover have "(10 :: rat) ^ 27 + 1 / 2 < 10 ^ 28" by simp
  ultimately have "\<bar>of_int (round_half_up (x * 10 ^ d))\<bar> < (10 :: rat) ^ 28" using a by linarith
  then have "\<bar>round_half_up (x * 10 ^ d)\<bar> < 10 ^ 28"
    by (metis of_int_abs of_int_less_iff of_int_numeral of_int_power)
  then show ?thesis by (simp add: quantize28_def Let_def)
qed

lemma quantize28_near:
  assumes "quantize28 d x = Inr y"
  shows "\<bar>y - x\<bar> \<le> 1 / (2 * 10 ^ d)"
proof -
  have y: "y = of_int (round_half_up (x * 10 ^ d)) / 10 ^ d"
    using assms by (simp add: quantize28_def Let_def split: if_splits)
  have "y - x = (of_int (round_half_up (x * 10 ^ d)) - x * 10 ^ d) / 10 ^ d"
    by (simp add: y diff_divide_distrib)
  then have "\<bar>y - x\<bar> = \<bar>of_int (round_half_up (x * 10 ^ d)) - x * 10 ^ d\<bar> / 10 ^ d" by simp
  also have "\<dots> \<le> 1 / 2 / 10 ^ d" by (intro divide_right_mono round_half_up_near) simp
  finally show ?thesis by simp
qed

lemma quantize28_mono_between:
  assumes "quantize28 d x = Inr y" "of_int a / 10 ^ d \<le> x" "x \<le> of_int b / 10 ^ d"
  shows "of_int a / 10 ^ d \<le> y \<and> y \<le> of_int b / 10 ^ d"
proof -
  have y: "y = of_int (round_half_up (x * 10 ^ d)) / 10 ^ d"
    using assms by (simp add: quantize28_def Let_def split: if_splits)
  have "of_int a \<le> x * 10 ^ d" "x * 10 ^ d \<le> of_int b" using assms(2,3) by (simp_all add: field_simps)
  then have "a \<le> round_half_up (x * 10 ^ d)" "round_half_up (x * 10 ^ d) \<le> b"
    using round_half_up_mono [of "of_int a" "x * 10 ^ d"] round_half_up_mono [of "x * 10 ^ d" "of_int b"]
    by simp_all
  then show ?thesis by (simp add: y divide_right_mono)
qed

section \<open>Powers\<close>

lemma pow_uint_ge:
  assumes c: "1 \<le> c" "sig_repr 10 p c" "0 < p" and x: "c \<le> x"
  shows "c \<le> pow_uint p x n"
proof (induction n rule: less_induct)
  case (less n)
  show ?case
  proof (cases "n \<le> 1")
    case True
    then show ?thesis using x by (simp add: pow_uint.simps [of p x n])
  next
    case False
    let ?h = "pow_uint p x (n div 2)"
    let ?q = "round_sig 10 p (?h * ?h)"
    have r: "c \<le> round_sig 10 p y" if "c \<le> y" for y
      using round_sig_mono [of 10 p c y] round_sig_exact [of 10 p c] c that by simp
    have h: "c \<le> ?h" using less False by simp
    have prod: "c \<le> u * v" if "c \<le> u" "c \<le> v" for u v :: rat
      using mult_mono [of c u 1 v] that c(1) by simp
    have q: "c \<le> ?q" by (rule r) (rule prod [OF h h])
    have "c \<le> round_sig 10 p (?q * x)" by (rule r) (rule prod [OF q x])
    then show ?thesis using q False by (simp add: pow_uint.simps [of p x n] Let_def)
  qed
qed

lemma pow_uint_one: "0 < p \<Longrightarrow> pow_uint p 1 n = 1"
proof (induction n rule: less_induct)
  case (less n)
  have "round_sig 10 p 1 = 1" using round_sig_exact [of 10 p 1] sig_repr_power [of p 10 0] less by simp
  then show ?case using less by (simp add: pow_uint.simps [of p 1 n] Let_def)
qed

lemma dec_pow_ge:
  assumes "1 \<le> (of_int a / 10 ^ j :: rat)" "\<bar>a\<bar> < 10 ^ 28" "of_int a / 10 ^ j \<le> x" "0 < n"
  shows "of_int a / 10 ^ j \<le> dec_pow x n"
proof -
  let ?c = "of_int a / 10 ^ j :: rat"
  have p: "28 \<le> pow_digits n" "0 < pow_digits n" by (simp_all add: pow_digits_def)
  have "sig_repr 10 28 ?c" using sig_repr_of_int_div [of 10 a 28 j] assms(2) by simp
  from sig_repr_mono [OF p(1) _ this] have c: "sig_repr 10 (pow_digits n) ?c" by simp
  have "?c \<le> pow_uint (pow_digits n) x (nat \<bar>n\<bar>)"
    by (rule pow_uint_ge [OF assms(1) c p(2) assms(3)])
  then have "dec28 ?c \<le> dec28 (pow_uint (pow_digits n) x (nat \<bar>n\<bar>))" by (rule dec28_mono)
  moreover have "dec_pow x n = dec28 (pow_uint (pow_digits n) x (nat \<bar>n\<bar>))"
    using assms(4) by (simp add: dec_pow_def Let_def)
  ultimately show ?thesis unfolding dec28_exact [OF assms(2), of j] by simp
qed

lemma dec_pow_one: "0 < n \<Longrightarrow> dec_pow 1 n = 1"
  using dec28_exact [of 1 0] by (simp add: dec_pow_def Let_def pow_uint_one pow_digits_def)

section \<open>A rounded bisection\<close>

text \<open>
  What the search needs of its midpoint: it stays in the unit interval and is within \<open>eps\<close> of
  the exact middle. Rounded midpoints may leave the bracket by an ulp, so the bracket is
  described by its ends and its width alone.
\<close>

definition halve ::
  "(rat \<Rightarrow> rat \<Rightarrow> rat) \<Rightarrow> (rat \<Rightarrow> rat) \<Rightarrow> rat \<Rightarrow> rat \<times> rat \<Rightarrow> rat \<times> rat" where
  "halve mid f target b =
     (let m = mid (fst b) (snd b) in if f m > target then (m, snd b) else (fst b, m))"

definition brackets :: "(rat \<Rightarrow> rat) \<Rightarrow> rat \<Rightarrow> rat \<Rightarrow> rat \<times> rat \<Rightarrow> bool" where
  "brackets f target w b \<longleftrightarrow>
     0 \<le> fst b \<and> fst b \<le> 1 \<and> 0 \<le> snd b \<and> snd b \<le> 1 \<and> \<bar>snd b - fst b\<bar> \<le> w \<and>
     (fst b = 0 \<or> target < f (fst b)) \<and> (snd b = 1 \<or> f (snd b) \<le> target)"

lemma half_bracket:
  fixes m :: rat
  assumes "\<bar>m - (a + b) / 2\<bar> \<le> e" "\<bar>b - a\<bar> \<le> w"
  shows "\<bar>b - m\<bar> \<le> w / 2 + e \<and> \<bar>m - a\<bar> \<le> w / 2 + e"
proof -
  have "m - (a + b) / 2 \<le> e" "(a + b) / 2 - m \<le> e" "b - a \<le> w" "a - b \<le> w"
    using assms by (simp_all only: abs_le_iff minus_diff_eq)
  moreover from this have "b - m \<le> w / 2 + e" "m - b \<le> w / 2 + e" "m - a \<le> w / 2 + e" "a - m \<le> w / 2 + e"
    by (simp_all add: field_simps)
  ultimately show ?thesis by (simp only: abs_le_iff minus_diff_eq)
qed

lemma half_error:
  fixes x :: rat
  assumes "\<bar>x\<bar> \<le> c" "\<bar>y\<bar> \<le> d"
  shows "\<bar>x + y / 2\<bar> \<le> c + d / 2"
  using assms unfolding abs_le_iff by (intro conjI; linarith)

lemma error_chain:
  fixes x :: rat
  assumes "\<bar>x - k * u\<bar> \<le> c" "\<bar>u - y\<bar> \<le> d" "0 \<le> k"
  shows "\<bar>x - k * y\<bar> \<le> c + k * d"
proof -
  have "x - k * y = (x - k * u) + k * (u - y)" by (simp add: algebra_simps)
  then have "\<bar>x - k * y\<bar> \<le> \<bar>x - k * u\<bar> + \<bar>k * (u - y)\<bar>" using abs_triangle_ineq by metis
  also have "\<bar>k * (u - y)\<bar> = k * \<bar>u - y\<bar>" using assms(3) by (simp add: abs_mult)
  finally show ?thesis using assms mult_left_mono [OF assms(2,3)] by linarith
qed

locale rounded_bisection =
  fixes mid :: "rat \<Rightarrow> rat \<Rightarrow> rat" and eps :: rat
  assumes mid_unit: "0 \<le> lo \<Longrightarrow> lo \<le> 1 \<Longrightarrow> 0 \<le> hi \<Longrightarrow> hi \<le> 1 \<Longrightarrow>
      0 \<le> mid lo hi \<and> mid lo hi \<le> 1"
    and mid_near: "0 \<le> lo \<Longrightarrow> lo \<le> 1 \<Longrightarrow> 0 \<le> hi \<Longrightarrow> hi \<le> 1 \<Longrightarrow>
      \<bar>mid lo hi - (lo + hi) / 2\<bar> \<le> eps"
begin

lemma halve_brackets:
  assumes "brackets f target w b"
  shows "brackets f target (w / 2 + eps) (halve mid f target b)"
proof -
  obtain lo hi where b: "b = (lo, hi)" by (cases b)
  have br: "0 \<le> lo" "lo \<le> 1" "0 \<le> hi" "hi \<le> 1" "\<bar>hi - lo\<bar> \<le> w" "lo = 0 \<or> target < f lo"
    "hi = 1 \<or> f hi \<le> target" using assms by (simp_all add: brackets_def b)
  have m: "0 \<le> mid lo hi" "mid lo hi \<le> 1" "\<bar>mid lo hi - (lo + hi) / 2\<bar> \<le> eps"
    using mid_unit [OF br(1-4)] mid_near [OF br(1-4)] by simp_all
  show ?thesis
    using half_bracket [OF m(3) br(5)] br m by (auto simp: halve_def brackets_def b Let_def)
qed

lemma iterate_brackets:
  "brackets f target (1 / 2 ^ n + 2 * eps) ((halve mid f target ^^ n) (0, 1))"
proof (induction n)
  case 0
  have "0 \<le> eps" using mid_near [of 0 0] by linarith
  then show ?case by (simp add: brackets_def)
next
  case (Suc n)
  have "(1 / 2 ^ n + 2 * eps) / 2 + eps = 1 / 2 ^ Suc n + 2 * eps" by (simp add: field_simps)
  then show ?case using halve_brackets [OF Suc] by (simp only: funpow.simps comp_apply)
qed

end

interpretation apr_search: rounded_bisection midpoint "1 / 10 ^ 27"
proof
  fix lo hi :: rat
  assume b: "0 \<le> lo" "lo \<le> 1" "0 \<le> hi" "hi \<le> 1"
  define s where "s = dec28 (lo + hi)"
  have s: "0 \<le> s" "s \<le> 2" using dec28_between [of 0 2 0 "lo + hi" 0] b by (simp_all add: s_def)
  show "0 \<le> midpoint lo hi \<and> midpoint lo hi \<le> 1"
    using dec28_between [of 0 1 0 "s / 2" 0] s by (simp add: midpoint_def s_def)
  have k: "0 < (1 :: rat) / (2 * 10 ^ 27)" by simp
  have "\<bar>s - (lo + hi)\<bar> \<le> \<bar>lo + hi\<bar> / (2 * 10 ^ 27)" unfolding s_def by (rule dec28_rel)
  also have "\<dots> \<le> 2 / (2 * 10 ^ 27)" using b by (intro divide_right_mono) simp_all
  finally have e1: "\<bar>s - (lo + hi)\<bar> \<le> 2 / (2 * 10 ^ 27)" .
  have "\<bar>dec28 (s / 2) - s / 2\<bar> \<le> \<bar>s / 2\<bar> / (2 * 10 ^ 27)" by (rule dec28_rel)
  also have "\<dots> \<le> 1 / (2 * 10 ^ 27)" using s by (intro divide_right_mono) simp_all
  finally have e2: "\<bar>dec28 (s / 2) - s / 2\<bar> \<le> 1 / (2 * 10 ^ 27)" .
  have "midpoint lo hi - (lo + hi) / 2 = (dec28 (s / 2) - s / 2) + (s - (lo + hi)) / 2"
    by (simp add: midpoint_def s_def field_simps)
  then have "\<bar>midpoint lo hi - (lo + hi) / 2\<bar> \<le> 1 / (2 * 10 ^ 27) + 2 / (2 * 10 ^ 27) / 2"
    using half_error [OF e2 e1] by (simp only:)
  also have "\<dots> = 1 / 10 ^ 27" by simp
  finally show "\<bar>midpoint lo hi - (lo + hi) / 2\<bar> \<le> 1 / 10 ^ 27" .
qed

lemma bisect_brackets:
  "brackets pv financed (1 / 10 ^ 26) (bisect pv financed)"
proof -
  have "bisect_step pv financed = halve midpoint pv financed"
    by (intro ext) (simp add: bisect_step_def halve_def)
  then have "brackets pv financed (1 / 2 ^ 200 + 2 * (1 / 10 ^ 27)) (bisect pv financed)"
    using apr_search.iterate_brackets [of pv financed iterations]
    by (simp only: bisect_def iterations_def)
  moreover have "(1 :: rat) / 2 ^ 200 + 2 * (1 / 10 ^ 27) \<le> 1 / 10 ^ 26" by simp
  ultimately show ?thesis unfolding brackets_def by linarith
qed

section \<open>The disclosed APR\<close>

lemma coerced [simp]:
  "monthly_payment (PDec (to_decimal prin)) annual n = monthly_payment prin annual n"
  "amount_financed rules (PDec (to_decimal prin)) = amount_financed rules prin"
  by (cases rules; simp add: monthly_payment_def amount_financed_def prepaid_finance_charge_def)+

text \<open>The percentage printed for a monthly rate.\<close>

definition annual_of :: "rat \<Rightarrow> rat" where
  "annual_of monthly = dec28 (dec28 (monthly * 12) * 100)"

lemma annual_of_bounds:
  assumes "0 \<le> m" "m \<le> 1"
  shows "0 \<le> annual_of m \<and> annual_of m \<le> 1200" "\<bar>annual_of m - 1200 * m\<bar> \<le> 1 / 10 ^ 23"
proof -
  define u where "u = dec28 (m * 12)"
  have u: "0 \<le> u" "u \<le> 12" using dec28_between [of 0 12 0 "m * 12" 0] assms by (simp_all add: u_def)
  show "0 \<le> annual_of m \<and> annual_of m \<le> 1200"
    using dec28_between [of 0 1200 0 "u * 100" 0] u by (simp add: annual_of_def u_def)
  have "\<bar>u - m * 12\<bar> \<le> \<bar>m * 12\<bar> / (2 * 10 ^ 27)" unfolding u_def by (rule dec28_rel)
  also have "\<dots> \<le> 12 / (2 * 10 ^ 27)" using assms by (intro divide_right_mono) simp_all
  finally have e1: "\<bar>u - m * 12\<bar> \<le> 12 / (2 * 10 ^ 27)" .
  have "\<bar>dec28 (u * 100) - u * 100\<bar> \<le> \<bar>u * 100\<bar> / (2 * 10 ^ 27)" by (rule dec28_rel)
  also have "\<dots> \<le> 1200 / (2 * 10 ^ 27)" using u by (intro divide_right_mono) simp_all
  finally have e2: "\<bar>annual_of m - u * 100\<bar> \<le> 1200 / (2 * 10 ^ 27)"
    by (simp only: annual_of_def u_def)
  have "\<bar>annual_of m - 100 * (m * 12)\<bar> \<le> 1200 / (2 * 10 ^ 27) + 100 * (12 / (2 * 10 ^ 27))"
    using e2 by (intro error_chain [OF _ e1]) (simp_all add: mult.commute)
  also have "\<dots> \<le> 1 / 10 ^ 23" by simp
  finally show "\<bar>annual_of m - 1200 * m\<bar> \<le> 1 / 10 ^ 23" by (simp add: mult.commute)
qed

lemma compute_apr_Inr:
  assumes "compute_apr rules prin annual n = Inr a"
  obtains pmt financed where
    "monthly_payment prin annual n = Inr pmt" "amount_financed rules prin = Inr financed"
    "0 < financed"
    "quantize28 3 (annual_of (midpoint (fst (bisect (\<lambda>r. present_value pmt r n) financed))
       (snd (bisect (\<lambda>r. present_value pmt r n) financed)))) = Inr a"
  using assms unfolding compute_apr_def annual_of_def
  by (auto simp: Let_def bind_result_Inr_iff split: if_splits)

text \<open>
  The disclosed APR is the actuarial rate of the present value the code computes: some monthly
  rate within \<open>10 ^ -26\<close> of the bracket's other end has a present value above the amount
  financed (or is the lower end 0), the other end has one at most equal to it (or is 1), and the
  APR is 1200 times that rate up to the rounding to three decimals.
\<close>

lemma apr_solves:
  assumes "compute_apr rules prin annual n = Inr a"
  shows "\<exists>pmt financed lo hi.
    monthly_payment prin annual n = Inr pmt \<and> amount_financed rules prin = Inr financed \<and>
    0 < financed \<and> 0 \<le> lo \<and> hi \<le> 1 \<and> \<bar>hi - lo\<bar> \<le> 1 / 10 ^ 26 \<and>
    (lo = 0 \<or> financed < present_value pmt lo n) \<and> (hi = 1 \<or> present_value pmt hi n \<le> financed) \<and>
    \<bar>a - 1200 * lo\<bar> \<le> 1 / 2000 + 1 / 10 ^ 22 \<and> 0 \<le> a \<and> a \<le> 1200"
proof -
  obtain pmt financed where c: "monthly_payment prin annual n = Inr pmt"
    "amount_financed rules prin = Inr financed" "0 < financed"
    and q: "quantize28 3 (annual_of (midpoint (fst (bisect (\<lambda>r. present_value pmt r n) financed))
       (snd (bisect (\<lambda>r. present_value pmt r n) financed)))) = Inr a"
    using compute_apr_Inr [OF assms] .
  define lo where "lo = fst (bisect (\<lambda>r. present_value pmt r n) financed)"
  define hi where "hi = snd (bisect (\<lambda>r. present_value pmt r n) financed)"
  define m where "m = midpoint lo hi"
  have b: "0 \<le> lo" "lo \<le> 1" "0 \<le> hi" "hi \<le> 1" "\<bar>hi - lo\<bar> \<le> 1 / 10 ^ 26"
    "lo = 0 \<or> financed < present_value pmt lo n" "hi = 1 \<or> present_value pmt hi n \<le> financed"
    using bisect_brackets [of "\<lambda>r. present_value pmt r n" financed]
    unfolding brackets_def lo_def hi_def by simp_all
  have m: "0 \<le> m" "m \<le> 1" "\<bar>m - (lo + hi) / 2\<bar> \<le> 1 / 10 ^ 27"
    using apr_search.mid_unit [OF b(1-4)] apr_search.mid_near [OF b(1-4)] by (simp_all add: m_def)
  have q': "quantize28 3 (annual_of m) = Inr a" using q by (simp only: m_def lo_def hi_def)
  have "0 / 10 ^ 3 \<le> a \<and> a \<le> 1200000 / 10 ^ 3"
    using quantize28_mono_between [OF q', of 0 1200000] annual_of_bounds(1) [OF m(1,2)] by simp
  moreover have "\<bar>a - 1200 * lo\<bar> \<le> 1 / 2000 + 1 / 10 ^ 22"
  proof -
    have "\<bar>a - 1 * annual_of m\<bar> \<le> 1 / 2000" using quantize28_near [OF q'] by simp
    then have "\<bar>a - 1 * (1200 * m)\<bar> \<le> 1 / 2000 + 1 * (1 / 10 ^ 23)"
      by (intro error_chain [OF _ annual_of_bounds(2) [OF m(1,2)]]) simp_all
    then have "\<bar>a - 1200 * m\<bar> \<le> 1 / 2000 + 1 / 10 ^ 23" by simp
    then have "\<bar>a - 1200 * lo\<bar> \<le> 1 / 2000 + 1 / 10 ^ 23 + 1200 * (1 / 10 ^ 26 / 2 + 1 / 10 ^ 27)"
      by (intro error_chain [OF _ conjunct2 [OF half_bracket [OF m(3) b(5)]]]) simp_all
    also have "\<dots> \<le> 1 / 2000 + 1 / 10 ^ 22" by simp
    finally show ?thesis .
  qed
  ultimately show ?thesis using c b by (intro exI conjI) (assumption | simp)+
qed

section \<open>Inputs the schema admits\<close>

lemma monthly_rate_bounds:
  assumes "1 / 100 \<le> to_decimal annual" "to_decimal annual \<le> 35"
  shows "8 / 10 ^ 6 \<le> monthly_rate_of annual" "monthly_rate_of annual \<le> 3 / 100"
proof -
  let ?x = "to_decimal annual / 100"
  have "1 / 10 ^ 4 \<le> dec28 ?x \<and> dec28 ?x \<le> 35 / 10 ^ 2"
    using dec28_between [of 1 35 4 ?x 2] assms by simp
  then have "8 / 10 ^ 6 \<le> dec28 ?x / 12" "dec28 ?x / 12 \<le> 3 / 10 ^ 2" by simp_all
  then show "8 / 10 ^ 6 \<le> monthly_rate_of annual" "monthly_rate_of annual \<le> 3 / 100"
    using dec28_between [of 8 3 6 "dec28 ?x / 12" 2] by (simp_all add: monthly_rate_of_def)
qed

lemma level_payment_bounds:
  assumes r: "8 / 10 ^ 6 \<le> r" "r \<le> 3 / 100" and p: "0 < p" "p \<le> 50000" and n: "0 < n"
  defines "factor \<equiv> dec_pow (dec28 (1 + r)) n"
  shows "dec28 (factor - 1) \<noteq> 0"
    "0 < dec28 (dec28 (dec28 (p * r) * factor) / dec28 (factor - 1))"
    "dec28 (dec28 (dec28 (p * r) * factor) / dec28 (factor - 1)) \<le> 10 ^ 10"
proof -
  have "1000008 / 10 ^ 6 \<le> dec28 (1 + r)"
    using dec28_between [of 1000008 2 6 "1 + r" 0] r by simp
  then have f: "1000008 / 10 ^ 6 \<le> factor"
    using dec_pow_ge [of 1000008 6 "dec28 (1 + r)" n] n by (simp add: factor_def)
  have r0: "0 < r" using r(1) by (rule less_le_trans [rotated]) simp
  have fm: "(factor - 1) / 2 \<le> dec28 (factor - 1)" using f by (intro dec28_factor2) simp
  then have d: "0 < dec28 (factor - 1)" "4 / 10 ^ 6 \<le> dec28 (factor - 1)" using f by simp_all
  then show "dec28 (factor - 1) \<noteq> 0" by simp
  have pr: "0 < p * r" "p * r \<le> 1500" using p r r0 mult_mono [of p 50000 r "3 / 100"] by simp_all
  have "0 < dec28 (p * r)" "0 < factor" using dec28_pos [OF pr(1)] f by simp_all
  from dec28_pos [OF mult_pos_pos [OF this]] have num: "0 < dec28 (dec28 (p * r) * factor)" .
  then show "0 < dec28 (dec28 (dec28 (p * r) * factor) / dec28 (factor - 1))"
    using dec28_pos [OF divide_pos_pos [OF num d(1)]] by simp
  have "dec28 (dec28 (p * r) * factor) \<le> 2 * (dec28 (p * r) * factor)"
    using f pr dec28_pos [OF pr(1)] by (intro dec28_factor2) simp
  also have "\<dots> \<le> 2 * (3000 * factor)"
  proof -
    have "dec28 (p * r) \<le> 3000" using dec28_factor2(2) [of "p * r"] pr by simp
    then show ?thesis using f by (intro mult_left_mono mult_right_mono) simp_all
  qed
  also have "\<dots> \<le> 2 * (3000 * (2 * dec28 (factor - 1) + 1))" using fm by simp
  finally have "dec28 (dec28 (p * r) * factor) / dec28 (factor - 1)
      \<le> 2 * (3000 * (2 * dec28 (factor - 1) + 1)) / dec28 (factor - 1)"
    using d by (intro divide_right_mono) simp_all
  also have "\<dots> = 12000 + 6000 / dec28 (factor - 1)" using d by (simp add: field_simps)
  also have "\<dots> \<le> 12000 + 6000 / (4 / 10 ^ 6)"
    using d by (intro add_left_mono divide_left_mono) simp_all
  also have "\<dots> \<le> 10 ^ 10 / 2" by simp
  finally have q: "dec28 (dec28 (p * r) * factor) / dec28 (factor - 1) \<le> 10 ^ 10 / 2" .
  have "dec28 (dec28 (dec28 (p * r) * factor) / dec28 (factor - 1))
      \<le> 2 * (dec28 (dec28 (p * r) * factor) / dec28 (factor - 1))"
    using num d by (intro dec28_factor2) simp
  then show "dec28 (dec28 (dec28 (p * r) * factor) / dec28 (factor - 1)) \<le> 10 ^ 10"
    using q by simp
qed

lemma monthly_payment_ok:
  assumes p: "0 < to_decimal prin" "to_decimal prin \<le> 50000"
    and r: "1 / 100 \<le> to_decimal annual" "to_decimal annual \<le> 35" and n: "0 < n"
  shows "\<exists>pmt. monthly_payment prin annual n = Inr pmt \<and> 0 < pmt \<and> pmt \<le> 10 ^ 10"
proof -
  note b = monthly_rate_bounds [OF r]
  have "monthly_rate_of annual \<noteq> 0" using b(1) by auto
  then show ?thesis using level_payment_bounds [OF b p n] p n
    by (simp add: monthly_payment_def validate_def Let_def)
qed

lemma fee_pct_bounds: "schedule_ok s \<Longrightarrow> 0 \<le> py_repr (origination_fee_pct s) \<and> py_repr (origination_fee_pct s) \<le> 3 / 10"
proof (rule py_repr_between)
  show "sig_repr 10 1 0" using sig_repr_of_int_div [of 10 0 1 0] by simp
  show "sig_repr 10 1 (3 / 10)" using sig_repr_of_int_div [of 10 3 1 1] by simp
qed (simp_all add: schedule_ok_def)

lemma dec28_abs_le: "\<bar>dec28 x\<bar> \<le> 2 * \<bar>x\<bar>"
proof -
  have "\<bar>x\<bar> / (2 * 10 ^ 27) \<le> \<bar>x\<bar> / 1" by (intro divide_left_mono) simp_all
  then have "\<bar>dec28 x - x\<bar> \<le> \<bar>x\<bar>" using dec28_rel [of x] by (simp only: div_by_1)
  then show ?thesis by linarith
qed

lemma prepaid_ok:
  assumes s: "schedule_ok s" and p: "0 < to_decimal prin" "to_decimal prin \<le> 50000"
  shows "\<exists>fee. prepaid_finance_charge (Inr s) prin = Inr fee \<and> 0 \<le> fee \<and>
    fee \<le> to_decimal prin * 3 / 10 + 51 / 10000"
proof -
  let ?p = "to_decimal prin"
  let ?x = "?p * py_repr (origination_fee_pct s)"
  note f = fee_pct_bounds [OF s]
  have x: "0 \<le> ?x" "?x \<le> ?p * (3 / 10)" using f p by (auto intro: mult_left_mono)
  have d0: "0 \<le> dec28 ?x" using x(1) by (rule dec28_nonneg)
  have "\<bar>dec28 ?x - ?x\<bar> \<le> \<bar>?x\<bar> / (2 * 10 ^ 27)" by (rule dec28_rel)
  also have "\<dots> \<le> 50000 / (2 * 10 ^ 27)"
  proof (rule divide_right_mono)
    show "\<bar>?x\<bar> \<le> 50000" using x p(2) by linarith
  qed simp
  also have "\<dots> \<le> 1 / 10000" by simp
  finally have d1: "dec28 ?x \<le> ?p * 3 / 10 + 1 / 10000" using x(2) by linarith
  have "\<bar>dec28 ?x * 10 ^ 2\<bar> \<le> 10 ^ 27" using d0 d1 p(2) by simp
  then obtain fee where fee: "quantize28 2 (dec28 ?x) = Inr fee" using quantize28_ok by blast
  have "0 \<le> round_half_up (dec28 ?x * 10 ^ 2)"
    using round_half_up_mono [of 0 "dec28 ?x * 10 ^ 2"] round_half_up_of_int [of 0] d0 by simp
  then have "0 \<le> fee" using fee by (auto simp: quantize28_def Let_def split: if_splits)
  moreover have "\<bar>fee - dec28 ?x\<bar> \<le> 1 / 200" using quantize28_near [OF fee] by simp
  then have "fee \<le> ?p * 3 / 10 + 51 / 10000" using d1 by linarith
  ultimately show ?thesis using fee by (simp add: prepaid_finance_charge_def)
qed

lemma amount_financed_ok:
  assumes s: "schedule_ok s" and p: "1 / 100 \<le> to_decimal prin" "to_decimal prin \<le> 50000"
  shows "\<exists>financed. amount_financed (Inr s) prin = Inr financed \<and> 0 < financed"
proof -
  have p0: "0 < to_decimal prin" using p(1) by (rule less_le_trans [rotated]) simp
  obtain fee where fee: "prepaid_finance_charge (Inr s) prin = Inr fee"
    "fee \<le> to_decimal prin * 3 / 10 + 51 / 10000" using prepaid_ok [OF s p0 p(2)] by blast
  then have "0 < to_decimal prin - fee" using p by linarith
  then show ?thesis using fee dec28_pos by (simp add: amount_financed_def)
qed

lemma finance_charge_ok:
  assumes s: "schedule_ok s" and p: "0 < to_decimal prin" "to_decimal prin \<le> 50000"
    and r: "1 / 100 \<le> to_decimal annual" "to_decimal annual \<le> 35" and n: "0 < n" "n \<le> 60"
  shows "\<exists>fc. finance_charge (Inr s) prin annual n = Inr fc"
proof -
  obtain pmt where pmt: "monthly_payment prin annual n = Inr pmt" "0 < pmt" "pmt \<le> 10 ^ 10"
    using monthly_payment_ok [OF p r n(1)] by blast
  obtain fee where fee: "prepaid_finance_charge (Inr s) prin = Inr fee" "0 \<le> fee"
    "fee \<le> to_decimal prin * 3 / 10 + 51 / 10000" using prepaid_ok [OF s p] by blast
  define i where "i = dec28 (dec28 (pmt * of_int n) - to_decimal prin)"
  have "pmt * of_int n \<le> 10 ^ 10 * 60" using pmt n by (intro mult_mono) simp_all
  moreover have "0 \<le> pmt * of_int n" using pmt n by simp
  ultimately have "\<bar>dec28 (pmt * of_int n)\<bar> \<le> 2 * (10 ^ 10 * 60)"
    using dec28_abs_le [of "pmt * of_int n"] by simp
  then have "\<bar>dec28 (pmt * of_int n) - to_decimal prin\<bar> \<le> 10 ^ 17" using p by simp
  then have i: "\<bar>i\<bar> \<le> 2 * 10 ^ 17" using dec28_abs_le [of "dec28 (pmt * of_int n) - to_decimal prin"]
    by (simp add: i_def)
  then have "\<bar>i + fee\<bar> \<le> 10 ^ 18" using fee p by simp
  then have "\<bar>dec28 (i + fee) * 10 ^ 2\<bar> \<le> 10 ^ 27" using dec28_abs_le [of "i + fee"] by (simp add: abs_mult)
  then obtain fc where "quantize28 2 (dec28 (i + fee)) = Inr fc" using quantize28_ok by blast
  then show ?thesis using pmt fee p n
    by (simp add: finance_charge_def interest_charge_def validate_def i_def)
qed

lemma compute_apr_ok:
  assumes s: "schedule_ok s" and p: "1 / 100 \<le> to_decimal prin" "to_decimal prin \<le> 50000"
    and r: "1 / 100 \<le> to_decimal annual" "to_decimal annual \<le> 35" and n: "0 < n"
  shows "\<exists>a. compute_apr (Inr s) prin annual n = Inr a"
proof -
  have p0: "0 < to_decimal prin" using p(1) by (rule less_le_trans [rotated]) simp
  obtain pmt where pmt: "monthly_payment prin annual n = Inr pmt"
    using monthly_payment_ok [OF p0 p(2) r n] by blast
  obtain financed where fin: "amount_financed (Inr s) prin = Inr financed" "0 < financed"
    using amount_financed_ok [OF s p] by blast
  define b where "b = bisect (\<lambda>r. present_value pmt r n) financed"
  have br: "0 \<le> fst b" "fst b \<le> 1" "0 \<le> snd b" "snd b \<le> 1"
    using bisect_brackets [of "\<lambda>r. present_value pmt r n" financed]
    unfolding brackets_def b_def by simp_all
  define x where "x = annual_of (midpoint (fst b) (snd b))"
  have "0 \<le> x \<and> x \<le> 1200" unfolding x_def
    using apr_search.mid_unit [OF br] by (intro annual_of_bounds(1)) simp_all
  then have "\<bar>x * 10 ^ 3\<bar> \<le> 10 ^ 27" by simp
  then obtain a where "quantize28 3 x = Inr a" using quantize28_ok by blast
  then show ?thesis using pmt fin p0 n
    by (simp add: compute_apr_def validate_def Let_def b_def x_def annual_of_def)
qed

lemma vanishing_rate:
  assumes r: "0 < to_decimal annual" "to_decimal annual \<le> 1 / 10 ^ 26"
    and p: "0 < to_decimal prin" and n: "0 < n"
  shows "monthly_payment prin annual n = Inl Zero_division"
proof -
  let ?x = "to_decimal annual / 100"
  have x: "0 < dec28 ?x" "dec28 ?x \<le> 2 / 10 ^ 28"
    using r dec28_pos [of ?x] dec28_factor2(2) [of ?x] by simp_all
  then have m: "0 < monthly_rate_of annual" "monthly_rate_of annual \<le> 4 / 10 ^ 29"
    using dec28_pos [of "dec28 ?x / 12"] dec28_factor2(2) [of "dec28 ?x / 12"]
    by (simp_all add: monthly_rate_of_def)
  have "dec28 (1 + monthly_rate_of annual) = 1" unfolding dec28_def
  proof (rule round_sig_near)
    show "sig_repr 10 28 1" using sig_repr_power [of 28 10 0] by simp
    have "(4 :: rat) / 10 ^ 29 < 1 * of_nat 10 powi (- int 28) / 2" by (simp add: power_int_minus)
    then show "\<bar>1 + monthly_rate_of annual - 1\<bar> < 1 * of_nat 10 powi (- int 28) / 2"
      using m by (simp only: add_diff_cancel_left' abs_of_pos)
  qed simp_all
  then show ?thesis using m(1) p n
    by (simp add: monthly_payment_def validate_def Let_def dec_pow_one)
qed

section \<open>Properties\<close>

text \<open>C8. The disclosed APR is the actuarial one. There are monthly rates \<open>lo\<close> and \<open>hi\<close> within
  \<open>10 ^ -26\<close> of each other such that the present value the code computes for the unrounded
  payment is above the amount financed at \<open>lo\<close> (or \<open>lo\<close> is 0) and not above it at \<open>hi\<close> (or \<open>hi\<close>
  is 1), and the APR is 1200 times \<open>lo\<close> up to its rounding to three decimals; it lies between 0
  and 1200.\<close>

theorem apr_is_actuarial:
  assumes "compute_apr rules prin annual n = Inr a"
  shows "\<exists>pmt financed lo hi.
    monthly_payment prin annual n = Inr pmt \<and> amount_financed rules prin = Inr financed \<and>
    0 < financed \<and> 0 \<le> lo \<and> hi \<le> 1 \<and> \<bar>hi - lo\<bar> \<le> 1 / 10 ^ 26 \<and>
    (lo = 0 \<or> financed < present_value pmt lo n) \<and> (hi = 1 \<or> present_value pmt hi n \<le> financed) \<and>
    \<bar>a - 1200 * lo\<bar> \<le> 1 / 2000 + 1 / 10 ^ 22 \<and> 0 \<le> a \<and> a \<le> 1200"
  by (rule apr_solves [OF assms])

theorem apr_is_actuarial_witness:
  "\<exists>a. compute_apr (Inr sample_schedule) (PInt 18000) (PDec (799 / 100)) 48 = Inr a \<and> 0 \<le> a \<and> a \<le> 1200"
proof -
  obtain a where a: "compute_apr (Inr sample_schedule) (PInt 18000) (PDec (799 / 100)) 48 = Inr a"
    using compute_apr_ok [OF sample_schedule_ok, of "PInt 18000" "PDec (799 / 100)" 48] by auto
  show ?thesis using apr_is_actuarial [OF a] a by blast
qed

text \<open>A note rate the request schema admits (any positive one) but below \<open>10 ^ -26\<close> percent
  is lost when one is added to it, and the payment formula then divides by zero; so does every
  figure that needs the payment.\<close>

theorem vanishing_rate_divides_by_zero:
  assumes "0 < to_decimal annual" "to_decimal annual \<le> 1 / 10 ^ 26"
    and "0 < to_decimal prin" "0 < n"
  shows "monthly_payment prin annual n = Inl Zero_division \<and>
    compute_apr rules prin annual n = Inl Zero_division \<and>
    finance_charge rules prin annual n = Inl Zero_division"
proof -
  have m: "monthly_payment prin annual n = Inl Zero_division" by (rule vanishing_rate [OF assms])
  then show ?thesis using assms(3,4)
    by (simp add: compute_apr_def finance_charge_def interest_charge_def validate_def Let_def)
qed

theorem vanishing_rate_divides_by_zero_witness:
  "monthly_payment (PInt 18000) (PDec (1 / 10 ^ 26)) 48 = Inl Zero_division"
  using vanishing_rate_divides_by_zero [of "PDec (1 / 10 ^ 26)" "PInt 18000" 48] by simp

end
