(* ===== verification/Schedule.thy ===== *)
theory Schedule
  imports Apr Dates
begin

text \<open>
  The amortization schedule of disclosure-service (\<^verbatim>\<open>app/schedule.py\<close>) and the disclosure
  box of an offer (\<^verbatim>\<open>app/offer.py\<close>). The schedule is computed in 28 digit decimals and handed
  out as floats; it is shown to be the image of a schedule in whole cents, whose payments sum to
  the disclosed total and whose principal parts sum to the principal.
\<close>

section \<open>schedule.py\<close>

text \<open>A \<^verbatim>\<open>datetime.date\<close> as year, month and day.\<close>

type_synonym ymd = "int \<times> int \<times> int"

definition add_months :: "ymd \<Rightarrow> int \<Rightarrow> calc_error + ymd" where
  "add_months date months =
     (case date of (y, m, d) \<Rightarrow>
        let month0 = m - 1 + months;
            year = y + month0 div 12;
            month = month0 mod 12 + 1;
            day = min d 28
        in if ymd_ok year month day then Inr (year, month, day)
           else Inl (Value_error ''year is out of range''))"

record schedule_row =
  row_n :: int
  due_date :: string
  row_payment :: rat
  row_principal :: rat
  row_interest :: rat
  row_balance :: rat

text \<open>What the loop reads: the level and the final payment, the rate, the length, the start.\<close>

record amort_terms =
  pmt_cents :: rat
  final_payment :: rat
  monthly_rate :: rat
  term_months :: int
  start_date :: ymd

definition amort_row :: "amort_terms \<Rightarrow> int \<Rightarrow> rat \<Rightarrow> calc_error + schedule_row \<times> rat" where
  "amort_row t n balance =
     bind_result (quantize28 2 (dec28 (balance * monthly_rate t))) (\<lambda>interest.
       let principal_part = dec28 (pmt_cents t - interest);
           balance1 = dec28 (balance - principal_part);
           last = (n = term_months t);
           payment = (if last then final_payment t else pmt_cents t);
           principal_part1 = (if last then dec28 (principal_part + balance1) else principal_part);
           balance2 = (if last then 0 else balance1);
           interest1 = (if last then dec28 (payment - principal_part1) else interest)
       in bind_result (add_months (start_date t) n) (\<lambda>due.
          bind_result (quantize28 2 principal_part1) (\<lambda>principal_cents.
          bind_result (quantize28 2 (max balance2 0)) (\<lambda>balance_cents.
            Inr (\<lparr>row_n = n, due_date = iso_ymd due, row_payment = fl payment,
                  row_principal = fl principal_cents, row_interest = fl interest1,
                  row_balance = fl balance_cents\<rparr>, balance2)))))"

fun amort_rows :: "amort_terms \<Rightarrow> int list \<Rightarrow> rat \<Rightarrow> calc_error + schedule_row list" where
  "amort_rows t [] balance = Inr []"
| "amort_rows t (n # ns) balance =
     bind_result (amort_row t n balance) (\<lambda>rb.
     bind_result (amort_rows t ns (snd rb)) (\<lambda>rows. Inr (fst rb # rows)))"

definition amortization ::
  "py_num \<Rightarrow> py_num \<Rightarrow> int \<Rightarrow> ymd \<Rightarrow> calc_error + schedule_row list" where
  "amortization prin annual_rate_pct term start =
     (let p = to_decimal prin
      in bind_result (monthly_payment (PDec p) annual_rate_pct term) (\<lambda>pmt.
         bind_result (quantize28 2 pmt) (\<lambda>level.
         bind_result (quantize28 2 (dec28 (pmt * of_int term))) (\<lambda>total.
           amort_rows
             \<lparr>pmt_cents = level, final_payment = dec28 (total - dec28 (level * of_int (term - 1))),
              monthly_rate = monthly_rate_of annual_rate_pct, term_months = term,
              start_date = start\<rparr>
             [1..term] p))))"

section \<open>offer.py\<close>

record offer_box =
  box_apr :: rat
  box_finance_charge :: rat
  box_monthly_payment :: rat
  box_amount_financed :: rat
  box_total_of_payments :: rat

definition offer_cents :: "rat \<Rightarrow> calc_error + rat" where
  "offer_cents v = bind_result (quantize28 2 v) (\<lambda>c. Inr (fl c))"

definition build_offer ::
  "rules_error + fee_schedule \<Rightarrow> py_num \<Rightarrow> py_num \<Rightarrow> int \<Rightarrow> calc_error + offer_box" where
  "build_offer rules prin annual term =
     bind_result (monthly_payment prin annual term) (\<lambda>pmt.
     bind_result (compute_apr rules prin annual term) (\<lambda>a.
     bind_result (bind_result (finance_charge rules prin annual term) offer_cents) (\<lambda>fc.
     bind_result (offer_cents pmt) (\<lambda>mp.
     bind_result (bind_result (amount_financed rules prin) offer_cents) (\<lambda>af.
     bind_result (offer_cents (dec28 (pmt * of_int term))) (\<lambda>tp.
       Inr \<lparr>box_apr = fl a, box_finance_charge = fc, box_monthly_payment = mp,
            box_amount_financed = af, box_total_of_payments = tp\<rparr>))))))"

section \<open>The schedule in whole cents\<close>

definition interest_cents :: "rat \<Rightarrow> int \<Rightarrow> int" where
  "interest_cents rate b = cents_of (dec28 (of_int b / 100 * rate))"

text \<open>Payment, principal part, interest and balance left, for the remaining rows.\<close>

fun cents_schedule :: "rat \<Rightarrow> int \<Rightarrow> int \<Rightarrow> nat \<Rightarrow> int \<Rightarrow> (int \<times> int \<times> int \<times> int) list" where
  "cents_schedule rate level final 0 b = []"
| "cents_schedule rate level final (Suc 0) b = [(final, b, final - b, 0)]"
| "cents_schedule rate level final (Suc (Suc k)) b =
     (let i = interest_cents rate b; left = b - (level - i)
      in (level, level - i, i, max left 0) # cents_schedule rate level final (Suc k) left)"

lemma cents_schedule_length [simp]: "length (cents_schedule rate level final k b) = k"
  by (induction rate level final k b rule: cents_schedule.induct) (simp_all add: Let_def)

lemma cents_schedule_payments:
  "(\<Sum>(pay, _) \<leftarrow> cents_schedule rate level final (Suc k) b. pay) = level * int k + final"
  by (induction k arbitrary: b) (simp_all add: Let_def algebra_simps)

lemma cents_schedule_principal:
  "(\<Sum>(_, pp, _) \<leftarrow> cents_schedule rate level final (Suc k) b. pp) = b"
  by (induction k arbitrary: b) (simp_all add: Let_def)

lemma cents_schedule_split:
  "(pay, pp, i, left) \<in> set (cents_schedule rate level final k b) \<Longrightarrow> pay = pp + i"
  by (induction rate level final k b rule: cents_schedule.induct) (auto simp: Let_def)

lemma cents_schedule_ne [simp]: "cents_schedule rate level final (Suc k) b \<noteq> []"
  by (simp flip: length_greater_0_conv)

lemma cents_schedule_last: "snd (snd (snd (last (cents_schedule rate level final (Suc k) b)))) = 0"
  by (induction k arbitrary: b) (simp_all add: Let_def)

section \<open>The decimal loop computes the schedule in cents\<close>

lemma quantize28_cents [simp]: "\<bar>k\<bar> < 10 ^ 28 \<Longrightarrow> quantize28 2 (of_int k / 100) = Inr (of_int k / 100)"
  by (simp add: quantize28_def)

lemma quantize28_cents_of: "quantize28 2 x = Inr y \<Longrightarrow> y = of_int (cents_of x) / 100"
  by (auto simp: quantize28_def cents_of_def mult.commute Let_def split: if_splits)

lemma sig15_cents: "\<bar>k\<bar> < 10 ^ 15 \<Longrightarrow> sig_repr 10 15 (of_int k / 100)"
  using sig_repr_of_int_div [of 10 k 15 2] by simp

lemma dec28_cents_diff:
  "\<bar>a - b\<bar> < 10 ^ 28 \<Longrightarrow> dec28 (of_int a / 100 - of_int b / 100) = of_int (a - b) / 100"
  using dec28_cents [of "a - b"] by (simp add: diff_divide_distrib)

lemma dec28_cents_add:
  "\<bar>a + b\<bar> < 10 ^ 28 \<Longrightarrow> dec28 (of_int a / 100 + of_int b / 100) = of_int (a + b) / 100"
  using dec28_cents [of "a + b"] by (simp add: add_divide_distrib)

definition shows_cents :: "schedule_row \<Rightarrow> int \<times> int \<times> int \<times> int \<Rightarrow> bool" where
  "shows_cents r c \<longleftrightarrow> (case c of (pay, pp, i, left) \<Rightarrow>
     row_payment r = fl (of_int pay / 100) \<and> row_principal r = fl (of_int pp / 100) \<and>
     row_interest r = fl (of_int i / 100) \<and> row_balance r = fl (of_int left / 100) \<and>
     \<bar>pay\<bar> < 10 ^ 15 \<and> \<bar>pp\<bar> < 10 ^ 15 \<and> \<bar>i\<bar> < 10 ^ 15 \<and> \<bar>left\<bar> < 10 ^ 15)"

text \<open>The sizes met within 60 rows; \<open>m\<close> counts the rows done.\<close>

definition grown :: "nat \<Rightarrow> rat" where
  "grown m = 5 * 10 ^ 13 * ((26 / 25) ^ Suc m - 1)"

lemma grown_0: "grown 0 = 2 * 10 ^ 12"
  by (simp add: grown_def)

lemma grown_step: "26 / 25 * grown m + 2 * 10 ^ 12 = grown (Suc m)"
  by (simp add: grown_def field_simps)

lemma grown_mono: "m \<le> n \<Longrightarrow> grown m \<le> grown n"
  unfolding grown_def by (intro mult_left_mono diff_right_mono power_increasing) simp_all

lemma grown_60: "m \<le> 60 \<Longrightarrow> grown m \<le> 5 * 10 ^ 14"
proof -
  have "grown 60 \<le> 5 * 10 ^ 14" by (simp add: grown_def power_divide)
  then show "m \<le> 60 \<Longrightarrow> ?thesis" using grown_mono [of m 60] by linarith
qed

lemma interest_cents_bound:
  assumes "0 \<le> rate" "rate \<le> 3 / 100"
  shows "\<bar>of_int (interest_cents rate b)\<bar> \<le> \<bar>of_int b\<bar> / 25 + (1 :: rat)"
proof -
  let ?x = "of_int b / 100 * rate"
  have "\<bar>?x\<bar> = \<bar>of_int b\<bar> / 100 * rate" using assms by (simp add: abs_mult)
  also have "\<dots> \<le> \<bar>of_int b\<bar> / 100 * (3 / 100)" using assms by (intro mult_left_mono) simp_all
  finally have x: "\<bar>?x\<bar> \<le> \<bar>of_int b\<bar> / 100 * (3 / 100)" .
  have "\<bar>?x\<bar> / (2 * 10 ^ 27) \<le> \<bar>?x\<bar> / 4" by (intro divide_left_mono) simp_all
  then have "\<bar>dec28 ?x - ?x\<bar> \<le> \<bar>?x\<bar> / 4" using dec28_rel [of ?x] by linarith
  then have "\<bar>dec28 ?x\<bar> \<le> \<bar>?x\<bar> * (5 / 4)" by linarith
  then have "\<bar>100 * dec28 ?x\<bar> \<le> \<bar>of_int b\<bar> / 25" using x by (simp add: abs_mult)
  moreover have "\<bar>of_int (interest_cents rate b) - 100 * dec28 ?x\<bar> \<le> 1 / 2"
    unfolding interest_cents_def cents_of_def by (rule round_half_up_near)
  ultimately show ?thesis by linarith
qed

text \<open>One pass of the loop before the last row, and the last row.\<close>

definition calendar_ok :: "amort_terms \<Rightarrow> bool" where
  "calendar_ok t \<longleftrightarrow> (\<forall>n. 1 \<le> n \<longrightarrow> n \<le> term_months t \<longrightarrow> (\<exists>d. add_months (start_date t) n = Inr d))"

definition cents_terms :: "amort_terms \<Rightarrow> int \<Rightarrow> int \<Rightarrow> bool" where
  "cents_terms t level final \<longleftrightarrow>
     pmt_cents t = of_int level / 100 \<and> final_payment t = of_int final / 100 \<and>
     0 \<le> monthly_rate t \<and> monthly_rate t \<le> 3 / 100 \<and>
     \<bar>level\<bar> \<le> 10 ^ 12 + 1 \<and> \<bar>final\<bar> \<le> 4 * 10 ^ 14 \<and> calendar_ok t"

lemma cents_termsD:
  assumes "cents_terms t level final"
  shows "pmt_cents t = of_int level / 100" "final_payment t = of_int final / 100"
    "0 \<le> monthly_rate t" "monthly_rate t \<le> 3 / 100"
    "\<bar>level\<bar> \<le> 10 ^ 12 + 1" "\<bar>final\<bar> \<le> 4 * 10 ^ 14" "calendar_ok t"
  using assms by (simp_all add: cents_terms_def)

lemma abs_int_le: "\<bar>of_int k\<bar> \<le> (of_int c :: rat) \<longleftrightarrow> \<bar>k\<bar> \<le> c"
  by (metis of_int_abs of_int_le_iff)

lemma interest_quantized:
  assumes ct: "cents_terms t level final" and b: "\<bar>of_int b\<bar> \<le> (10 ^ 15 :: rat)"
  shows "quantize28 2 (dec28 (of_int b / 100 * monthly_rate t))
    = Inr (of_int (interest_cents (monthly_rate t) b) / 100)"
proof -
  have "\<bar>of_int b / 100 * monthly_rate t\<bar> \<le> 10 ^ 15 * 1"
    using b cents_termsD(3,4) [OF ct] by (simp only: abs_mult) (intro mult_mono, simp_all)
  then have "\<bar>dec28 (of_int b / 100 * monthly_rate t) * 10 ^ 2\<bar> \<le> 10 ^ 27"
    using dec28_abs_le [of "of_int b / 100 * monthly_rate t"] by (simp add: abs_mult)
  then obtain y where "quantize28 2 (dec28 (of_int b / 100 * monthly_rate t)) = Inr y"
    using quantize28_ok by blast
  then show ?thesis using quantize28_cents_of by (simp add: interest_cents_def)
qed

lemma step_sizes:
  assumes ct: "cents_terms t level final" and b: "\<bar>of_int b\<bar> \<le> grown m" and m: "m < 60"
  defines "i \<equiv> interest_cents (monthly_rate t) b"
  shows "\<bar>i\<bar> < 10 ^ 15" "\<bar>level - i\<bar> < 10 ^ 15" "\<bar>of_int (b - (level - i))\<bar> \<le> grown (Suc m)"
    "\<bar>b - (level - i)\<bar> < 10 ^ 15"
proof -
  have i: "\<bar>of_int i\<bar> \<le> \<bar>of_int b\<bar> / 25 + (1 :: rat)"
    unfolding i_def by (rule interest_cents_bound [OF cents_termsD(3,4) [OF ct]])
  have g: "grown m \<le> 5 * 10 ^ 14" "grown (Suc m) \<le> 5 * 10 ^ 14" using m grown_60 by simp_all
  have l: "\<bar>of_int level\<bar> \<le> (10 ^ 12 + 1 :: rat)"
    using cents_termsD(5) [OF ct] abs_int_le [of level "10 ^ 12 + 1"] by simp
  have n: "26 / 25 * grown m + 2 * 10 ^ 12 = grown (Suc m)" by (rule grown_step)
  have q: "\<bar>of_int (b - (level - i))\<bar> \<le> \<bar>of_int b\<bar> + \<bar>of_int level\<bar> + (\<bar>of_int i\<bar> :: rat)"
    by simp
  then show s: "\<bar>of_int (b - (level - i))\<bar> \<le> grown (Suc m)"
    using i b l n by (simp del: of_int_diff)
  have c: "\<bar>k\<bar> < 10 ^ 15" if "\<bar>of_int k\<bar> \<le> (9 * 10 ^ 14 :: rat)" for k :: int
    using that abs_int_le [of k "9 * 10 ^ 14"] by simp
  show "\<bar>b - (level - i)\<bar> < 10 ^ 15" using s g by (intro c) simp
  show "\<bar>i\<bar> < 10 ^ 15" using i b g by (intro c) simp
  have "\<bar>of_int (level - i)\<bar> \<le> \<bar>of_int level\<bar> + (\<bar>of_int i\<bar> :: rat)" by simp
  then show "\<bar>level - i\<bar> < 10 ^ 15" using i b g l by (intro c) simp
qed

lemma row_before_last:
  assumes ct: "cents_terms t level final" and b: "\<bar>of_int b\<bar> \<le> grown m" and m: "m < 60" and n: "1 \<le> n" "n < term_months t"
  defines "i \<equiv> interest_cents (monthly_rate t) b"
  shows "\<exists>r. amort_row t n (of_int b / 100) = Inr (r, of_int (b - (level - i)) / 100) \<and> row_n r = n \<and>
    shows_cents r (level, level - i, i, max (b - (level - i)) 0)"
proof -
  note s = step_sizes [OF ct b m, folded i_def]
  obtain d where d: "add_months (start_date t) n = Inr d" using cents_termsD(7) [OF ct] n by (force simp: calendar_ok_def)
  have "grown m \<le> 5 * 10 ^ 14" using m grown_60 by simp
  then have q: "quantize28 2 (dec28 (of_int b / 100 * monthly_rate t)) = Inr (of_int i / 100)"
    unfolding i_def using b by (intro interest_quantized [OF ct]) simp
  have p: "dec28 (pmt_cents t - of_int i / 100) = of_int (level - i) / 100"
    using s(2) unfolding cents_termsD(1,2) [OF ct] by (intro dec28_cents_diff) simp
  have bal: "dec28 (of_int b / 100 - of_int (level - i) / 100) = of_int (b - (level - i)) / 100"
    using s(4) by (intro dec28_cents_diff) simp
  have mx: "max (of_int (b - (level - i)) / 100) 0 = of_int (max (b - (level - i)) 0) / (100 :: rat)"
    by (simp add: max_def)
  have bm: "\<bar>max (b - (level - i)) 0\<bar> < 10 ^ 15" using s(4) by (auto simp: max_def)
  have big: "\<bar>level - i\<bar> < 10 ^ 28" "\<bar>max (b - (level - i)) 0\<bar> < 10 ^ 28" using s(2) bm by simp_all
  show ?thesis
    unfolding amort_row_def q bind_result_simps Let_def p bal
    using n d s cents_termsD(5,6) [OF ct] bm
    by (simp add: mx big shows_cents_def cents_termsD(1,2) [OF ct] del: of_int_diff)
qed

lemma last_row:
  assumes ct: "cents_terms t level final" and b: "\<bar>of_int b\<bar> \<le> grown m" and m: "m < 60" and n: "1 \<le> n" "n = term_months t"
  shows "\<exists>r. amort_row t n (of_int b / 100) = Inr (r, 0) \<and> row_n r = n \<and>
    shows_cents r (final, b, final - b, 0)"
proof -
  define i where "i = interest_cents (monthly_rate t) b"
  note s = step_sizes [OF ct b m, folded i_def]
  obtain d where d: "add_months (start_date t) n = Inr d" using cents_termsD(7) [OF ct] n by (force simp: calendar_ok_def)
  have g: "grown m \<le> 5 * 10 ^ 14" using m grown_60 by simp
  then have q: "quantize28 2 (dec28 (of_int b / 100 * monthly_rate t)) = Inr (of_int i / 100)"
    unfolding i_def using b by (intro interest_quantized [OF ct]) simp
  have "\<bar>of_int b\<bar> \<le> (of_int (5 * 10 ^ 14) :: rat)" using b g by simp
  then have b15: "\<bar>b\<bar> \<le> 5 * 10 ^ 14" by (simp only: abs_int_le)
  have p: "dec28 (pmt_cents t - of_int i / 100) = of_int (level - i) / 100"
    using s(2) unfolding cents_termsD(1,2) [OF ct] by (intro dec28_cents_diff) simp
  have bal: "dec28 (of_int b / 100 - of_int (level - i) / 100) = of_int (b - (level - i)) / 100"
    using s(4) by (intro dec28_cents_diff) simp
  have pp: "dec28 (of_int (level - i) / 100 + of_int (b - (level - i)) / 100) = of_int b / 100"
    using dec28_cents_add [of "level - i" "b - (level - i)"] b15 by simp
  have fb: "\<bar>final - b\<bar> < 10 ^ 15" using cents_termsD(6) [OF ct] b15 by simp
  then have fi: "dec28 (of_int final / 100 - of_int b / 100) = of_int (final - b) / 100"
    by (intro dec28_cents_diff) simp
  have q0: "quantize28 2 0 = Inr 0" using quantize28_cents [of 0] by simp
  have big: "\<bar>b\<bar> < 10 ^ 28" using b15 by simp
  show ?thesis
    unfolding amort_row_def q bind_result_simps Let_def p bal
    using n d cents_termsD(5,6) [OF ct] b15 fb
    by (simp add: pp fi q0 big shows_cents_def cents_termsD(2) [OF ct] del: of_int_diff)
qed

lemma rows_in_cents:
  assumes ct: "cents_terms t level final"
    and "\<bar>of_int b\<bar> \<le> grown m" "m + k < 60" "n = int m + 1" "term_months t = n + int k"
  shows "\<exists>rows. amort_rows t [n..term_months t] (of_int b / 100) = Inr rows \<and>
    map row_n rows = [n..term_months t] \<and>
    list_all2 shows_cents rows (cents_schedule (monthly_rate t) level final (Suc k) b)"
  using assms(2-)
proof (induction k arbitrary: b m n)
  case 0
  obtain r where r: "amort_row t n (of_int b / 100) = Inr (r, 0)" "row_n r = n"
    "shows_cents r (final, b, final - b, 0)"
    using last_row [OF ct, of b m n] 0 by auto
  then show ?case using 0 by (simp add: upto.simps [of n n])
next
  case (Suc k)
  define i where "i = interest_cents (monthly_rate t) b"
  obtain r where r: "amort_row t n (of_int b / 100) = Inr (r, of_int (b - (level - i)) / 100)"
    "row_n r = n" "shows_cents r (level, level - i, i, max (b - (level - i)) 0)"
    using row_before_last [OF ct, of b m n] Suc.prems unfolding i_def by auto
  have b': "\<bar>of_int (b - (level - i))\<bar> \<le> grown (Suc m)"
    unfolding i_def using Suc.prems by (intro step_sizes(3) [OF ct]) simp_all
  obtain rows where rows: "amort_rows t [n + 1..term_months t] (of_int (b - (level - i)) / 100) = Inr rows"
    "map row_n rows = [n + 1..term_months t]"
    "list_all2 shows_cents rows (cents_schedule (monthly_rate t) level final (Suc k) (b - (level - i)))"
    using Suc.IH [OF b', of "n + 1"] Suc.prems by auto
  have "[n..term_months t] = n # [n + 1..term_months t]" using Suc.prems by (simp add: upto.simps)
  then show ?case using r rows by (simp add: Let_def i_def [symmetric])
qed

section \<open>What a borrower can add up\<close>

text \<open>The figure of a float as it prints, \<^verbatim>\<open>Decimal(str(x))\<close>.\<close>

lemma shown_cents: "\<bar>k\<bar> < 10 ^ 15 \<Longrightarrow> py_repr (fl (of_int k / 100)) = of_int k / 100"
  by (rule py_repr_round_trip [OF sig15_cents])

lemma shows_cents_printed:
  assumes "shows_cents r c"
  shows "py_repr (row_payment r) = of_int (fst c) / 100"
    "py_repr (row_principal r) = of_int (fst (snd c)) / 100"
    "py_repr (row_interest r) = of_int (fst (snd (snd c))) / 100"
    "row_balance r = fl (of_int (snd (snd (snd c))) / 100)"
  using assms by (cases c; simp add: shows_cents_def shown_cents)+

lemma add_months_ok:
  assumes s: "ymd_ok y m d" and y: "y \<le> 9990" and n: "1 \<le> n" "n \<le> 60"
  shows "\<exists>r. add_months (y, m, d) n = Inr r"
proof -
  let ?k = "m - 1 + n"
  have m: "1 \<le> m" "m \<le> 12" "1 \<le> d" "1 \<le> y" using s by (simp_all add: ymd_ok_def)
  have k: "0 \<le> ?k div 12" "?k div 12 \<le> 6" using m n by linarith+
  have mo: "1 \<le> ?k mod 12 + 1" "?k mod 12 + 1 \<le> 12" by presburger+
  have len: "28 \<le> month_lengths yy ! nat (mm - 1)" if "1 \<le> mm" "mm \<le> 12" for yy mm
  proof -
    have "list_all ((\<le>) 28) (month_lengths yy)" by (simp add: month_lengths_def)
    moreover have "nat (mm - 1) < length (month_lengths yy)" using that by (simp add: month_lengths_def)
    ultimately show ?thesis by (simp add: list_all_length)
  qed
  have "ymd_ok (y + ?k div 12) (?k mod 12 + 1) (min d 28)"
    using m k mo y len [OF mo, of "y + ?k div 12"] by (simp add: ymd_ok_def min.coboundedI2)
  then show ?thesis by (simp add: add_months_def Let_def)
qed

lemma sum_shown:
  "list_all2 shows_cents rows cs \<Longrightarrow>
     (\<Sum>r\<leftarrow>rows. py_repr (row_payment r)) = of_int (\<Sum>(pay, _)\<leftarrow>cs. pay) / 100 \<and>
     (\<Sum>r\<leftarrow>rows. py_repr (row_principal r)) = of_int (\<Sum>(_, pp, _)\<leftarrow>cs. pp) / 100"
  by (induction rule: list_all2_induct) (auto simp: shows_cents_printed add_divide_distrib)

lemma abs_cents_le: "\<bar>of_int c / 100\<bar> \<le> (of_int k :: rat) \<Longrightarrow> \<bar>c\<bar> \<le> 100 * k"
  using abs_int_le [of c "100 * k"] by simp

lemma abs_near: "\<bar>a - b\<bar> \<le> e \<Longrightarrow> \<bar>b\<bar> \<le> c \<Longrightarrow> \<bar>a\<bar> \<le> c + (e :: rat)"
  using abs_triangle_ineq2 [of a b] by linarith

text \<open>The payment and the total of payments of admissible terms, in cents.\<close>

lemma disclosed_cents:
  assumes p: "0 < to_decimal prin" "to_decimal prin \<le> 50000"
    and r: "1 / 100 \<le> to_decimal annual" "to_decimal annual \<le> 35" and n: "1 \<le> n" "n \<le> 60"
  shows "\<exists>pmt T L. monthly_payment prin annual n = Inr pmt \<and>
    quantize28 2 (dec28 (pmt * of_int n)) = Inr (of_int T / 100) \<and>
    quantize28 2 pmt = Inr (of_int L / 100) \<and>
    \<bar>T\<bar> \<le> 120000000000100 \<and> \<bar>L\<bar> \<le> 1000000000001"
proof -
  obtain pmt where pmt: "monthly_payment prin annual n = Inr pmt" "0 < pmt" "pmt \<le> 10 ^ 10"
    using monthly_payment_ok [OF p r, of n] n by auto
  have pn: "0 \<le> pmt * of_int n" "pmt * of_int n \<le> 10 ^ 10 * 60"
    using pmt n by (simp, intro mult_mono, simp_all)
  then have pd: "\<bar>dec28 (pmt * of_int n)\<bar> \<le> 2 * (10 ^ 10 * 60)"
    using dec28_abs_le [of "pmt * of_int n"] by simp
  then have "\<bar>dec28 (pmt * of_int n) * 10 ^ 2\<bar> \<le> 10 ^ 27" "\<bar>pmt * 10 ^ 2\<bar> \<le> 10 ^ 27"
    using pmt by (simp_all add: abs_mult)
  then obtain total level where q: "quantize28 2 (dec28 (pmt * of_int n)) = Inr total"
    "quantize28 2 pmt = Inr level" using quantize28_ok by meson
  have tl: "total = of_int (cents_of (dec28 (pmt * of_int n))) / 100" "level = of_int (cents_of pmt) / 100"
    using quantize28_cents_of [OF q(1)] quantize28_cents_of [OF q(2)] by simp_all
  have "\<bar>total - dec28 (pmt * of_int n)\<bar> \<le> 1 / 200" "\<bar>level - pmt\<bar> \<le> 1 / 200"
    using quantize28_near [OF q(1)] quantize28_near [OF q(2)] by simp_all
  moreover have "\<bar>dec28 (pmt * of_int n)\<bar> \<le> 1200000000000" "\<bar>pmt\<bar> \<le> 10000000000"
    using pd pmt by simp_all
  ultimately have "\<bar>total\<bar> \<le> 1200000000000 + 1 / 200" "\<bar>level\<bar> \<le> 10000000000 + 1 / 200"
    using abs_near by blast+
  then have "\<bar>total\<bar> \<le> 1200000000001" "\<bar>level\<bar> \<le> 10000000000 + 1 / 100" by simp_all
  then have "\<bar>cents_of (dec28 (pmt * of_int n))\<bar> \<le> 120000000000100" "\<bar>cents_of pmt\<bar> \<le> 1000000000001"
    using abs_cents_le [of "cents_of (dec28 (pmt * of_int n))" 1200000000001]
      abs_int_le [of "cents_of pmt" 1000000000001] by (simp_all add: tl)
  then show ?thesis using pmt(1) q unfolding tl by blast
qed

text \<open>What the rows of a schedule in cents show.\<close>

lemma rows_show:
  assumes rows: "list_all2 shows_cents rows (cents_schedule rate L F (Suc k) c)"
  shows "\<forall>row \<in> set rows. py_repr (row_payment row) = py_repr (row_principal row) + py_repr (row_interest row)"
    "(\<Sum>row\<leftarrow>rows. py_repr (row_payment row)) = of_int (L * int k + F) / 100"
    "(\<Sum>row\<leftarrow>rows. py_repr (row_principal row)) = of_int c / 100"
    "row_balance (last rows) = 0"
proof -
  let ?cs = "cents_schedule rate L F (Suc k) c"
  show "\<forall>row \<in> set rows. py_repr (row_payment row) = py_repr (row_principal row) + py_repr (row_interest row)"
  proof
    fix row assume "row \<in> set rows"
    then obtain cr where cr: "cr \<in> set ?cs" "shows_cents row cr"
      using list_all2_partner [OF rows] by blast
    obtain pay pp i l where e: "cr = (pay, pp, i, l)" by (cases cr)
    then have "pay = pp + i" using cents_schedule_split cr(1) by blast
    then show "py_repr (row_payment row) = py_repr (row_principal row) + py_repr (row_interest row)"
      using shows_cents_printed(1-3) [OF cr(2)] e by (simp add: add_divide_distrib)
  qed
  show "(\<Sum>row\<leftarrow>rows. py_repr (row_payment row)) = of_int (L * int k + F) / 100"
    "(\<Sum>row\<leftarrow>rows. py_repr (row_principal row)) = of_int c / 100"
    using sum_shown [OF rows] by (simp_all only: cents_schedule_payments cents_schedule_principal)
  have "rows \<noteq> []" using rows by auto
  then have "shows_cents (last rows) (last ?cs)"
    using rows by (simp add: list_all2_conv_all_nth last_conv_nth)
  then have "row_balance (last rows) = fl (of_int 0 / 100)"
    using shows_cents_printed(4) cents_schedule_last by metis
  then show "row_balance (last rows) = 0" by simp
qed

section \<open>Properties\<close>

text \<open>The schedule in whole cents, for terms the schema admits.\<close>

lemma amortization_cents:
  assumes p: "to_decimal prin = of_int c / 100" "0 < c" "c \<le> 5000000"
    and r: "1 / 100 \<le> to_decimal annual" "to_decimal annual \<le> 35"
    and n: "1 \<le> n" "n \<le> 60" and start: "ymd_ok y m d" "y \<le> 9990"
  shows "\<exists>rows pmt total.
    amortization prin annual n (y, m, d) = Inr rows \<and> map row_n rows = [1..n] \<and>
    (\<forall>row \<in> set rows. py_repr (row_payment row) = py_repr (row_principal row) + py_repr (row_interest row)) \<and>
    monthly_payment prin annual n = Inr pmt \<and> quantize28 2 (dec28 (pmt * of_int n)) = Inr total \<and>
    (\<Sum>row\<leftarrow>rows. py_repr (row_payment row)) = total \<and>
    (\<Sum>row\<leftarrow>rows. py_repr (row_principal row)) = to_decimal prin \<and>
    row_balance (last rows) = 0"
proof -
  have p': "0 < to_decimal prin" "to_decimal prin \<le> 50000" using p by simp_all
  obtain pmt T L where pmt: "monthly_payment prin annual n = Inr pmt"
    and q: "quantize28 2 (dec28 (pmt * of_int n)) = Inr (of_int T / 100)"
      "quantize28 2 pmt = Inr (of_int L / 100)"
    and bounds: "\<bar>T\<bar> \<le> 120000000000100" "\<bar>L\<bar> \<le> 1000000000001"
    using disclosed_cents [OF p' r n] by blast
  define F where "F = T - L * (n - 1)"
  have "\<bar>L * (n - 1)\<bar> \<le> 1000000000001 * 59"
    using bounds(2) n by (simp only: abs_mult) (intro mult_mono, simp_all)
  then have Ln: "\<bar>L * (n - 1)\<bar> \<le> 59000000000059" by simp
  then have F: "\<bar>F\<bar> \<le> 4 * 10 ^ 14" using bounds(1) by (simp add: F_def)
  have "dec28 (of_int (L * (n - 1)) / 100) = of_int (L * (n - 1)) / 100"
    using Ln by (intro dec28_cents) simp
  then have lv: "dec28 (of_int L / 100 * of_int (n - 1)) = of_int (L * (n - 1)) / 100" by simp
  have fin: "dec28 (of_int T / 100 - dec28 (of_int L / 100 * of_int (n - 1))) = of_int F / 100"
    unfolding lv F_def by (rule dec28_cents_diff) (use F in \<open>simp add: F_def\<close>)
  define t where "t = \<lparr>pmt_cents = of_int L / 100, final_payment = of_int F / 100,
     monthly_rate = monthly_rate_of annual, term_months = n, start_date = (y, m, d)\<rparr>"
  have cal: "calendar_ok t"
    unfolding calendar_ok_def t_def amort_terms.simps
    using n by (intro allI impI add_months_ok [OF start]) simp_all
  have ct: "cents_terms t L F"
    unfolding cents_terms_def using cal monthly_rate_bounds [OF r] bounds F by (simp add: t_def)
  have "\<bar>of_int c\<bar> \<le> (of_int (2 * 10 ^ 12) :: rat)" using p unfolding abs_int_le by simp
  then have c0: "\<bar>of_int c\<bar> \<le> grown 0" by (simp add: grown_0)
  have tn: "term_months t = n" "nat (n - 1) < 60" using n by (simp_all add: t_def)
  then obtain rows where rows: "amort_rows t [1..n] (of_int c / 100) = Inr rows" "map row_n rows = [1..n]"
    "list_all2 shows_cents rows (cents_schedule (monthly_rate t) L F (Suc (nat (n - 1))) c)"
    using rows_in_cents [OF ct c0, of "nat (n - 1)" 1] n unfolding tn(1) by auto
  have am: "amortization prin annual n (y, m, d) = Inr rows"
    using rows(1) unfolding amortization_def Let_def coerced pmt bind_result_simps q t_def fin
    by (simp only: p(1))
  show ?thesis
    using am rows(2) pmt q(1) rows_show [OF rows(3)] n by (simp add: F_def p(1))
qed

text \<open>C9. The schedule adds up. For a principal in whole cents and terms the schema admits, the
  schedule exists and has one row per month; every row's payment is its principal plus its
  interest, as printed; the payments sum to the cent to the total of payments the offer
  discloses, the principal parts to the principal; and the last balance is zero.\<close>

theorem schedule_adds_up:
  assumes p: "to_decimal prin = of_int c / 100" "0 < c" "c \<le> 5000000"
    and r: "1 / 100 \<le> to_decimal annual" "to_decimal annual \<le> 35"
    and n: "1 \<le> n" "n \<le> 60" and start: "ymd_ok y m d" "y \<le> 9990"
  shows "\<exists>rows pmt total.
    amortization prin annual n (y, m, d) = Inr rows \<and> map row_n rows = [1..n] \<and>
    (\<forall>row \<in> set rows. py_repr (row_payment row) = py_repr (row_principal row) + py_repr (row_interest row)) \<and>
    monthly_payment prin annual n = Inr pmt \<and> quantize28 2 (dec28 (pmt * of_int n)) = Inr total \<and>
    (\<Sum>row\<leftarrow>rows. py_repr (row_payment row)) = total \<and>
    (\<Sum>row\<leftarrow>rows. py_repr (row_principal row)) = to_decimal prin \<and>
    row_balance (last rows) = 0"
  by (rule amortization_cents [OF assms])

theorem schedule_adds_up_witness:
  "\<exists>rows. amortization (PInt 18000) (PDec (799 / 100)) 48 (2024, 1, 31) = Inr rows \<and>
     length rows = 48 \<and> (\<Sum>row\<leftarrow>rows. py_repr (row_principal row)) = 18000"
proof -
  have "ymd_ok 2024 1 31" by code_simp
  then obtain rows where r: "amortization (PInt 18000) (PDec (799 / 100)) 48 (2024, 1, 31) = Inr rows"
    "map row_n rows = [1..48]" "(\<Sum>row\<leftarrow>rows. py_repr (row_principal row)) = 18000"
    using schedule_adds_up [of "PInt 18000" 1800000 "PDec (799 / 100)" 48 2024 1 31] by auto
  have "length rows = length [1..48 :: int]" using r(2) by (metis length_map)
  then show ?thesis using r by simp
qed

lemma offer_cents_ok: "\<bar>v\<bar> \<le> 10 ^ 25 \<Longrightarrow> \<exists>x. offer_cents v = Inr x"
  using quantize28_ok [of v 2] by (auto simp: offer_cents_def abs_mult)

lemma offer_cents_quantized: "quantize28 2 x = Inr v \<Longrightarrow> \<exists>y. offer_cents v = Inr y"
proof -
  assume q: "quantize28 2 x = Inr v"
  then have "\<bar>cents_of x\<bar> < 10 ^ 28"
    by (simp add: quantize28_def cents_of_def mult.commute Let_def split: if_splits)
  then show ?thesis unfolding quantize28_cents_of [OF q] offer_cents_def by simp
qed

lemma amount_financed_le:
  assumes "schedule_ok s" "1 / 100 \<le> to_decimal prin" "to_decimal prin \<le> 50000"
    "amount_financed (Inr s) prin = Inr v"
  shows "0 < v \<and> v \<le> 10 ^ 6"
proof -
  have p0: "0 < to_decimal prin" using assms(2) by (rule less_le_trans [rotated]) simp
  obtain fee where fee: "prepaid_finance_charge (Inr s) prin = Inr fee" "0 \<le> fee"
    using prepaid_ok [OF assms(1) p0 assms(3)] by blast
  have v: "v = dec28 (to_decimal prin - fee)" using assms(4) fee by (simp add: amount_financed_def)
  have "0 < v" using amount_financed_ok [OF assms(1-3)] assms(4) by auto
  then have "0 < to_decimal prin - fee"
    using dec28_mono [of "to_decimal prin - fee" 0] by (force simp: v)
  then have "v \<le> 2 * (to_decimal prin - fee)" unfolding v by (intro dec28_factor2) simp
  then show ?thesis using \<open>0 < v\<close> fee(2) assms(3) by simp
qed

lemma build_offer_ok:
  assumes ok: "schedule_ok s"
    and p: "1 / 100 \<le> to_decimal prin" "to_decimal prin \<le> 50000"
    and r: "1 / 100 \<le> to_decimal annual" "to_decimal annual \<le> 35"
    and n: "1 \<le> n" "n \<le> 60"
  shows "\<exists>box. build_offer (Inr s) prin annual n = Inr box"
proof -
  have p0: "0 < to_decimal prin" using p(1) by (rule less_le_trans [rotated]) simp
  obtain pmt where pmt: "monthly_payment prin annual n = Inr pmt" "0 < pmt" "pmt \<le> 10 ^ 10"
    using monthly_payment_ok [OF p0 p(2) r, of n] n by auto
  obtain a where a: "compute_apr (Inr s) prin annual n = Inr a"
    using compute_apr_ok [OF ok p r, of n] n by auto
  obtain fc where fc: "finance_charge (Inr s) prin annual n = Inr fc"
    using finance_charge_ok [OF ok p0 p(2) r, of n] n by auto
  obtain u where "quantize28 2 u = Inr fc" using fc by (auto simp: finance_charge_def bind_result_Inr_iff)
  then obtain fcc where fcc: "offer_cents fc = Inr fcc" using offer_cents_quantized by blast
  obtain fin where fin: "amount_financed (Inr s) prin = Inr fin" using amount_financed_ok [OF ok p] by blast
  have "\<bar>fin\<bar> \<le> 10 ^ 25" using amount_financed_le [OF ok p fin] by simp
  then obtain af where af: "offer_cents fin = Inr af" using offer_cents_ok by blast
  have "\<bar>pmt\<bar> \<le> 10 ^ 25" using pmt by simp
  then obtain mp where mp: "offer_cents pmt = Inr mp" using offer_cents_ok by blast
  obtain T :: int where "quantize28 2 (dec28 (pmt * of_int n)) = Inr (of_int T / 100)"
    using disclosed_cents [OF p0 p(2) r n] pmt(1) by auto
  then have "\<exists>tp. offer_cents (dec28 (pmt * of_int n)) = Inr tp" by (simp add: offer_cents_def)
  then show ?thesis using pmt a fc fcc fin af mp by (auto simp: build_offer_def)
qed

text \<open>C10. Every loan of at least one cent and at most 50,000, at a note rate from 0.01 to 35 percent and
  over at most 60 months, can be priced under any fee schedule the loader accepts: all figures of the
  disclosure box are computed, none raises; and if the principal is in whole cents so are the rows of its
  schedule, from any start date up to the year 9990. The request schema also admits smaller principals
  and rates, which are not claimed.\<close>

theorem admissible_inputs_price:
  assumes s: "load_fee_schedule src = Inr s"
    and p: "1 / 100 \<le> to_decimal prin" "to_decimal prin \<le> 50000"
    and r: "1 / 100 \<le> to_decimal annual" "to_decimal annual \<le> 35"
    and n: "1 \<le> n" "n \<le> 60"
  shows "(\<exists>box. build_offer (Inr s) prin annual n = Inr box) \<and>
    (\<forall>c y m d. to_decimal prin = of_int c / 100 \<and> ymd_ok y m d \<and> y \<le> 9990 \<longrightarrow>
       (\<exists>rows. amortization prin annual n (y, m, d) = Inr rows \<and> map row_n rows = [1..n]))"
proof (intro conjI allI impI)
  show "\<exists>box. build_offer (Inr s) prin annual n = Inr box"
    by (rule build_offer_ok [OF load_schedule_ok [OF s] p r n])
  fix c y m d assume c: "to_decimal prin = of_int c / 100 \<and> ymd_ok y m d \<and> y \<le> 9990"
  then have "0 < c" "c \<le> 5000000" using p by simp_all
  then show "\<exists>rows. amortization prin annual n (y, m, d) = Inr rows \<and> map row_n rows = [1..n]"
    using amortization_cents [of prin c annual n y m d] c r n by auto
qed

theorem admissible_inputs_price_witness:
  "(\<exists>box. build_offer (Inr sample_schedule) (PInt 18000) (PDec (799 / 100)) 48 = Inr box) \<and>
   (\<exists>rows. amortization (PInt 18000) (PDec (799 / 100)) 48 (2024, 1, 31) = Inr rows)"
proof -
  have "to_decimal (PInt 18000) = of_int 1800000 / 100 \<and> ymd_ok 2024 1 31 \<and> (2024 :: int) \<le> 9990" by simp code_simp
  then show ?thesis using admissible_inputs_price [OF sample_loads, of "PInt 18000" "PDec (799 / 100)" 48] by fastforce
qed

end
