(* ===== verification/DisclosureData.thy ===== *)
theory DisclosureData
  imports Schedule DecimalText
begin

text \<open>
  The data of disclosure-service: the rows of \<^verbatim>\<open>app/models.py\<close> with the constraints of the
  schema they live in, the request and document models of \<^verbatim>\<open>app/schemas.py\<close>, the content
  fingerprint (\<^verbatim>\<open>app/fingerprint.py\<close>) and the provenance view with its completeness test
  (\<^verbatim>\<open>app/routers/disclosures.py\<close>). SHA-256 is the argument \<open>sha\<close>; instants are integers.
\<close>

section \<open>Content fingerprint\<close>

text \<open>The values the payload may hold.\<close>

datatype fp_value =
  FNull | FBool bool | FInt int | FStr string | FDec decimal | FFloat rat
| FList "fp_value list" | FDict "(string \<times> fp_value) list"

datatype fp_error = Float_in_payload

fun canonical :: "fp_value \<Rightarrow> fp_error + json"
  and canonical_list :: "fp_value list \<Rightarrow> fp_error + json list"
  and canonical_dict :: "(string \<times> fp_value) list \<Rightarrow> fp_error + (string \<times> json) list" where
  "canonical (FDec d) = Inr (JStr (dec_str d))"
| "canonical (FFloat x) = Inl Float_in_payload"
| "canonical (FDict fs) = bind_result (canonical_dict fs) (\<lambda>js. Inr (JObj js))"
| "canonical (FList vs) = bind_result (canonical_list vs) (\<lambda>js. Inr (JList js))"
| "canonical FNull = Inr JNull"
| "canonical (FBool b) = Inr (JBool b)"
| "canonical (FInt i) = Inr (JInt i)"
| "canonical (FStr s) = Inr (JStr s)"
| "canonical_list [] = Inr []"
| "canonical_list (v # vs) =
     bind_result (canonical v) (\<lambda>j. bind_result (canonical_list vs) (\<lambda>js. Inr (j # js)))"
| "canonical_dict [] = Inr []"
| "canonical_dict (kv # fs) =
     bind_result (canonical (snd kv)) (\<lambda>j.
       bind_result (canonical_dict fs) (\<lambda>js. Inr ((fst kv, j) # js)))"

text \<open>\<^verbatim>\<open>json.dumps(..., sort_keys=True)\<close> sorts the keys of every object.\<close>

primrec sort_json :: "json \<Rightarrow> json" where
  "sort_json JNull = JNull"
| "sort_json (JBool b) = JBool b"
| "sort_json (JInt i) = JInt i"
| "sort_json (JStr s) = JStr s"
| "sort_json (JList vs) = JList (map sort_json vs)"
| "sort_json (JObj fs) = JObj (sort_key fst (map (map_prod id sort_json) fs))"

definition fingerprint_version :: string where
  "fingerprint_version = ''fp-1''"

definition compute_fingerprint ::
  "(string \<Rightarrow> string) \<Rightarrow> (string \<times> fp_value) list \<Rightarrow> string \<Rightarrow> string \<Rightarrow> (string \<times> fp_value) list \<Rightarrow>
   fp_error + string" where
  "compute_fingerprint sha inputs fee_schedule_version apr_method_version outputs =
     bind_result (canonical (FDict inputs)) (\<lambda>i.
     bind_result (canonical (FDict outputs)) (\<lambda>out.
       Inr (fingerprint_version @ '':'' @ sha (json_text (sort_json (JObj
         [(''version'', JStr fingerprint_version), (''inputs'', i),
          (''ruleset'', JObj [(''fee_schedule_version'', JStr fee_schedule_version),
                            (''apr_method_version'', JStr apr_method_version)]),
          (''outputs'', out)]))))))"

section \<open>Documents\<close>

record document_figures =
  fig_apr :: string
  fig_finance_charge :: string
  fig_amount_financed :: string
  fig_total_of_payments :: string
  fig_monthly_payment :: string

record document =
  heading :: string
  figures :: document_figures
  payment_terms :: string
  prepayment :: string

text \<open>The prose facets: \<^verbatim>\<open>^\D*$\<close> and a length cap.\<close>

definition prose_ok :: "nat \<Rightarrow> string \<Rightarrow> bool" where
  "prose_ok cap s \<longleftrightarrow> length s \<le> cap \<and> list_all (\<lambda>c. \<not> py_digit c) s"

definition document_ok :: "document \<Rightarrow> bool" where
  "document_ok d \<longleftrightarrow>
     prose_ok 120 (heading d) \<and> prose_ok 600 (payment_terms d) \<and> prose_ok 300 (prepayment d)"

text \<open>
  A stored body: the fields of a document, or some other JSON. \<^verbatim>\<open>model_validate\<close> checks the
  facets again.
\<close>

datatype stored_document = Stored document | Other_json

definition model_validate :: "stored_document \<Rightarrow> document option" where
  "model_validate b = (case b of Stored d \<Rightarrow> if document_ok d then Some d else None | Other_json \<Rightarrow> None)"

section \<open>Rows\<close>

record offer_row =
  o_id :: int
  o_app_id :: "int option"
  o_apr :: "rat option"
  o_finance_charge :: "rat option"
  o_monthly_payment :: "rat option"
  o_amount_financed :: "rat option"
  o_total_of_payments :: "rat option"
  o_created_at :: "int option"
  o_decision_event_id :: "int option"

text \<open>
  \<^verbatim>\<open>compute_snapshot\<close>: the two percentages are stored as the text of a \<^verbatim>\<open>Decimal\<close>; the model
  keeps the \<^verbatim>\<open>Decimal\<close>, whose text is \<open>dec_str\<close> of it.
\<close>

record snapshot =
  principal_cents :: int
  note_rate_pct :: decimal
  snap_term_months :: int
  fee_pct :: decimal

text \<open>The five disclosed figures: the APR in thousandths of a percent, money in cents.\<close>

record outputs =
  out_apr :: int
  finance_charge_cents :: int
  amount_financed_cents :: int
  monthly_payment_cents :: int
  total_of_payments_cents :: int

record disclosure_row =
  d_id :: int
  d_offer_id :: int
  d_decision_event_id :: int
  d_status :: string
  d_figures :: outputs
  d_snapshot :: snapshot
  d_fee_schedule_version :: string
  d_apr_method_version :: string
  d_fingerprint :: string
  d_document :: "stored_document option"
  d_delivered_at :: "int option"

record event_row =
  e_id :: int
  e_app_id :: "int option"
  e_outcome :: "string option"
  e_policy_band :: "string option"
  e_decided_at :: "int option"

text \<open>
  The tables the service shares with origination and servicing: applications are given as
  their id and applicant, loans as their application.
\<close>

record disc_db =
  offers :: "offer_row list"
  disclosures :: "disclosure_row list"
  events :: "event_row list"
  applications :: "(int \<times> int option) list"
  loan_apps :: "int option list"
  next_offer_id :: int
  next_disclosure_id :: int
  clock :: int

definition offer_by_id :: "disc_db \<Rightarrow> int \<Rightarrow> offer_row option" where
  "offer_by_id db i = find (\<lambda>x. o_id x = i) (offers db)"

definition disclosure_by_id :: "disc_db \<Rightarrow> int \<Rightarrow> disclosure_row option" where
  "disclosure_by_id db i = find (\<lambda>d. d_id d = i) (disclosures db)"

definition disclosure_by_offer :: "disc_db \<Rightarrow> int \<Rightarrow> disclosure_row option" where
  "disclosure_by_offer db i = find (\<lambda>d. d_offer_id d = i) (disclosures db)"

definition event_by_id :: "disc_db \<Rightarrow> int \<Rightarrow> event_row option" where
  "event_by_id db i = find (\<lambda>e. e_id e = i) (events db)"

text \<open>The CHECK constraints of \<^verbatim>\<open>disclosures\<close>.\<close>

definition figures_ok :: "outputs \<Rightarrow> bool" where
  "figures_ok f \<longleftrightarrow> 0 \<le> out_apr f \<and> 0 \<le> finance_charge_cents f \<and> 0 < amount_financed_cents f \<and>
     0 < monthly_payment_cents f \<and> 0 < total_of_payments_cents f"

definition statuses :: "string list" where
  "statuses = [''draft'', ''in_review'', ''approved'', ''delivered'']"

definition row_ok :: "disclosure_row \<Rightarrow> bool" where
  "row_ok d \<longleftrightarrow> d_status d \<in> set statuses \<and>
     (d_status d = ''delivered'' \<longleftrightarrow> d_delivered_at d \<noteq> None) \<and> figures_ok (d_figures d)"

section \<open>Provenance\<close>

text \<open>One row of \<^verbatim>\<open>v_disclosure_provenance\<close>.\<close>

record provenance =
  pv_disclosure_id :: "int option"
  pv_status :: "string option"
  pv_apr :: "int option"
  pv_snapshot :: "snapshot option"
  pv_fee_schedule_version :: "string option"
  pv_apr_method_version :: "string option"
  pv_fingerprint :: "string option"
  pv_delivered_at :: "int option"
  pv_offer_id :: "int option"
  pv_offer_apr :: "rat option"
  pv_offer_created_at :: "int option"
  pv_decision_event_id :: "int option"
  pv_disclosure_decision_event_id :: "int option"
  pv_decision_outcome :: "string option"
  pv_disclosure_decision_outcome :: "string option"
  pv_policy_band :: "string option"
  pv_decided_at :: "int option"
  pv_application_id :: "int option"
  pv_applicant_id :: "int option"

definition bind_option :: "'a option \<Rightarrow> ('a \<Rightarrow> 'b option) \<Rightarrow> 'b option" where
  "bind_option m f = (case m of None \<Rightarrow> None | Some x \<Rightarrow> f x)"

definition view_row :: "disc_db \<Rightarrow> offer_row \<Rightarrow> disclosure_row option \<Rightarrow> provenance" where
  "view_row db off d =
     (let de = bind_option (o_decision_event_id off) (event_by_id db);
          dde = bind_option d (\<lambda>r. event_by_id db (d_decision_event_id r));
          app = bind_option (o_app_id off) (\<lambda>a. find (\<lambda>x. fst x = a) (applications db))
      in \<lparr>pv_disclosure_id = map_option d_id d, pv_status = map_option d_status d,
          pv_apr = map_option (\<lambda>r. out_apr (d_figures r)) d, pv_snapshot = map_option d_snapshot d,
          pv_fee_schedule_version = map_option d_fee_schedule_version d,
          pv_apr_method_version = map_option d_apr_method_version d,
          pv_fingerprint = map_option d_fingerprint d,
          pv_delivered_at = bind_option d d_delivered_at,
          pv_offer_id = Some (o_id off), pv_offer_apr = o_apr off,
          pv_offer_created_at = o_created_at off,
          pv_decision_event_id = map_option e_id de,
          pv_disclosure_decision_event_id = map_option d_decision_event_id d,
          pv_decision_outcome = bind_option de e_outcome,
          pv_disclosure_decision_outcome = bind_option dde e_outcome,
          pv_policy_band = bind_option de e_policy_band, pv_decided_at = bind_option de e_decided_at,
          pv_application_id = map_option fst app, pv_applicant_id = bind_option app snd\<rparr>)"

definition provenance_by_disclosure :: "disc_db \<Rightarrow> int \<Rightarrow> provenance option" where
  "provenance_by_disclosure db i =
     bind_option (disclosure_by_id db i) (\<lambda>d.
       map_option (\<lambda>off. view_row db off (Some d)) (offer_by_id db (d_offer_id d)))"

text \<open>
  The view rows of an application, newest disclosure first (an offer without one last), then
  newest offer.
\<close>

definition provenance_by_application :: "disc_db \<Rightarrow> int \<Rightarrow> provenance option" where
  "provenance_by_application db a =
     (let offs = filter (\<lambda>off. o_app_id off = Some a \<and> a \<in> fst ` set (applications db)) (offers db);
          rows = concat (map (\<lambda>off.
            (case filter (\<lambda>d. d_offer_id d = o_id off) (disclosures db) of
               [] \<Rightarrow> [view_row db off None]
             | ds \<Rightarrow> map (\<lambda>d. view_row db off (Some d)) ds)) offs);
          key = (\<lambda>v. (case pv_disclosure_id v of None \<Rightarrow> (1 :: int, 0) | Some i \<Rightarrow> (0, - i),
                      - (case pv_offer_id v of None \<Rightarrow> 0 | Some i \<Rightarrow> i)))
      in case rows of [] \<Rightarrow> None | r # rs \<Rightarrow> Some (min_by key r rs))"

definition chain_edges :: "(string \<times> (provenance \<Rightarrow> int option)) list" where
  "chain_edges =
     [(''disclosure_id'', pv_disclosure_id), (''offer_id'', pv_offer_id),
      (''decision_event_id'', pv_decision_event_id), (''application_id'', pv_application_id),
      (''applicant_id'', pv_applicant_id)]"

definition decision_edge_split :: string where
  "decision_edge_split = ''decision_event_id_mismatch''"

definition decision_not_approved :: string where
  "decision_not_approved = ''decision_not_approved''"

definition incomplete_edges :: "provenance \<Rightarrow> string list" where
  "incomplete_edges v =
     map fst (filter (\<lambda>e. snd e v = None) chain_edges) @
     (case (pv_decision_event_id v, pv_disclosure_decision_event_id v) of
        (Some a, Some b) \<Rightarrow> if a \<noteq> b then [decision_edge_split] else []
      | _ \<Rightarrow> []) @
     (case pv_disclosure_decision_outcome v of
        Some oc \<Rightarrow> if lower oc \<noteq> ''approve'' then [decision_not_approved] else []
      | None \<Rightarrow> [])"

text \<open>\<^verbatim>\<open>ProvenanceOut\<close>: the columns, with the two derived fields.\<close>

record provenance_out =
  po_row :: provenance
  po_disclosed_apr :: "string option"
  chain_complete :: bool
  missing_edges :: "string list"

definition provenance_out_of :: "provenance \<Rightarrow> provenance_out" where
  "provenance_out_of v =
     (let missing = incomplete_edges v
      in \<lparr>po_row = v, po_disclosed_apr = map_option (\<lambda>a. dec_str (a, -3)) (pv_apr v),
          chain_complete = (missing = []), missing_edges = missing\<rparr>)"

end
