(* ===== verification/Disclosures.thy ===== *)
theory Disclosures
  imports DisclosureData Authz
begin

text \<open>
  The handlers of \<^verbatim>\<open>app/routers/disclosures.py\<close>: creation with its refusals and its idempotent
  replay, the repair of a missing document, the lifecycle whitelist with the delivery guards, and
  the reads. A handler is a sequence of atomic statements; before its \<open>n\<close>-th one the other
  sessions run as \<open>w n\<close>. Requests are given after schema validation of their types; the numeric
  facets and the document's prose facets are checked here (422). An exception no handler catches
  is the 500 of \<^verbatim>\<open>main.py\<close>.
\<close>

definition joined :: "string list \<Rightarrow> string" where
  "joined ss = (case ss of [] \<Rightarrow> '''' | s # rest \<Rightarrow> s @ concat (map (\<lambda>x. '', '' @ x) rest))"

text \<open>The guard of \<^verbatim>\<open>routers/offers.py\<close>, another copy of the service-to-service check.\<close>

definition disc_require_internal_caller :: "string \<Rightarrow> string option \<Rightarrow> unit response" where
  "disc_require_internal_caller expected x_internal_service =
     (if expected = '''' then raise_http 503 ''internal auth not configured''
      else case x_internal_service of
        None \<Rightarrow> raise_http 403 ''internal service identity required''
      | Some s \<Rightarrow> if s = '''' \<or> s \<noteq> expected
                 then raise_http 403 ''internal service identity required'' else Inr ())"

interpretation disclosure_guard: internal_gate disc_require_internal_caller
  by unfold_locales (auto simp: disc_require_internal_caller_def split: option.splits)

section \<open>Requests and answers\<close>

record disclosure_in =
  in_offer_id :: int
  in_decision_event_id :: int
  in_principal :: rat
  in_term_months :: int
  in_annual_rate :: rat
  in_document :: "document option"

definition disclosure_in_ok :: "disclosure_in \<Rightarrow> bool" where
  "disclosure_in_ok b \<longleftrightarrow> 0 < in_principal b \<and> in_principal b \<le> 50000 \<and>
     12 \<le> in_term_months b \<and> in_term_months b \<le> 60 \<and>
     0 < in_annual_rate b \<and> in_annual_rate b \<le> 35 \<and>
     (case in_document b of None \<Rightarrow> True | Some d \<Rightarrow> document_ok d)"

record disclosure_out =
  out_id :: int
  out_offer_id :: int
  out_decision_event_id :: int
  out_status :: string
  out_apr_text :: string
  out_figures :: outputs
  out_fee_schedule_version :: string
  out_apr_method_version :: string
  out_fingerprint :: string
  out_delivered_at :: "int option"

definition disclosure_out_of :: "disclosure_row \<Rightarrow> disclosure_out" where
  "disclosure_out_of r =
     \<lparr>out_id = d_id r, out_offer_id = d_offer_id r, out_decision_event_id = d_decision_event_id r,
      out_status = d_status r, out_apr_text = dec_str (out_apr (d_figures r), -3),
      out_figures = d_figures r, out_fee_schedule_version = d_fee_schedule_version r,
      out_apr_method_version = d_apr_method_version r, out_fingerprint = d_fingerprint r,
      out_delivered_at = d_delivered_at r\<rparr>"

section \<open>Figures\<close>

record computed_figures =
  cf_apr :: rat
  cf_finance_charge :: rat
  cf_amount_financed :: rat
  cf_monthly_payment :: rat
  cf_total_of_payments :: rat

definition compute_figures ::
  "rules_error + fee_schedule \<Rightarrow> disclosure_in \<Rightarrow> calc_error + computed_figures" where
  "compute_figures rules b =
     (let prin = PFloat (in_principal b); annual = PFloat (in_annual_rate b); n = in_term_months b
      in bind_result (monthly_payment prin annual n) (\<lambda>payment.
         bind_result (compute_apr rules prin annual n) (\<lambda>a.
         bind_result (finance_charge rules prin annual n) (\<lambda>fc.
         bind_result (amount_financed rules prin) (\<lambda>af.
         bind_result (quantize28 2 payment) (\<lambda>mp.
         bind_result (quantize28 2 (dec28 (payment * of_int n))) (\<lambda>tp.
           Inr \<lparr>cf_apr = a, cf_finance_charge = fc, cf_amount_financed = af,
                cf_monthly_payment = mp, cf_total_of_payments = tp\<rparr>)))))))"

text \<open>\<^verbatim>\<open>_to_cents\<close>, \<open>None\<close> where \<^verbatim>\<open>quantize\<close> raises.\<close>

definition to_cents :: "rat \<Rightarrow> int option" where
  "to_cents amount =
     (case quantize28 0 (dec28 (amount * 100)) of Inl e \<Rightarrow> None | Inr v \<Rightarrow> Some \<lfloor>v\<rfloor>)"

definition outputs_of :: "computed_figures \<Rightarrow> outputs option" where
  "outputs_of c =
     bind_option (to_cents (cf_finance_charge c)) (\<lambda>fc.
     bind_option (to_cents (cf_amount_financed c)) (\<lambda>af.
     bind_option (to_cents (cf_monthly_payment c)) (\<lambda>mp.
     bind_option (to_cents (cf_total_of_payments c)) (\<lambda>tp.
       Some \<lparr>out_apr = \<lfloor>cf_apr c * 1000\<rfloor>, finance_charge_cents = fc, amount_financed_cents = af,
             monthly_payment_cents = mp, total_of_payments_cents = tp\<rparr>))))"

definition snapshot_of :: "fee_schedule \<Rightarrow> disclosure_in \<Rightarrow> snapshot option" where
  "snapshot_of sched b =
     map_option (\<lambda>pc. \<lparr>principal_cents = pc, note_rate_pct = decimal_of_float (in_annual_rate b),
         snap_term_months = in_term_months b, fee_pct = decimal_of_float (origination_fee_pct sched)\<rparr>)
       (to_cents (py_repr (in_principal b)))"

definition snapshot_payload :: "snapshot \<Rightarrow> (string \<times> fp_value) list" where
  "snapshot_payload s =
     [(''principal_cents'', FInt (principal_cents s)), (''note_rate_pct'', FStr (dec_str (note_rate_pct s))),
      (''term_months'', FInt (snap_term_months s)), (''fee_pct'', FStr (dec_str (fee_pct s)))]"

definition outputs_payload :: "outputs \<Rightarrow> (string \<times> fp_value) list" where
  "outputs_payload f =
     [(''apr'', FDec (out_apr f, -3)), (''finance_charge_cents'', FInt (finance_charge_cents f)),
      (''amount_financed_cents'', FInt (amount_financed_cents f)),
      (''monthly_payment_cents'', FInt (monthly_payment_cents f)),
      (''total_of_payments_cents'', FInt (total_of_payments_cents f))]"

definition apr_method_version :: string where
  "apr_method_version = ''actuarial-regz-appj-1''"

definition offer_match_tolerance :: rat where
  "offer_match_tolerance = 1 / 100"

definition refuse_if_offer_disagrees :: "offer_row \<Rightarrow> computed_figures \<Rightarrow> unit response" where
  "refuse_if_offer_disagrees off c =
     (let checks = [(''apr'', o_apr off, cf_apr c),
            (''finance_charge'', o_finance_charge off, cf_finance_charge c),
            (''monthly_payment'', o_monthly_payment off, cf_monthly_payment c),
            (''amount_financed'', o_amount_financed off, cf_amount_financed c),
            (''total_of_payments'', o_total_of_payments off, cf_total_of_payments c)];
          mismatches = map fst (filter (\<lambda>(name, stored, derived).
            (case stored of None \<Rightarrow> True
             | Some x \<Rightarrow> \<bar>dec28 (py_repr x - derived)\<bar> > offer_match_tolerance)) checks)
      in if mismatches \<noteq> []
         then raise_http 409 (''recomputed disclosure disagrees with the persisted offer on '' @
                joined mismatches @ ''; refusing to persist'')
         else Inr ())"

definition parse_figure :: "string \<Rightarrow> rat option" where
  "parse_figure v = plain_decimal (strip v)"

definition document_mismatches :: "document \<Rightarrow> outputs \<Rightarrow> string list" where
  "document_mismatches doc f =
     (let money = [(''finance_charge'', fig_finance_charge (figures doc), finance_charge_cents f),
            (''amount_financed'', fig_amount_financed (figures doc), amount_financed_cents f),
            (''monthly_payment'', fig_monthly_payment (figures doc), monthly_payment_cents f),
            (''total_of_payments'', fig_total_of_payments (figures doc), total_of_payments_cents f)]
      in map fst (filter (\<lambda>(name, shown, cents).
            parse_figure shown \<noteq> Some (dec28 (of_int cents / 100))) money) @
         (if parse_figure (fig_apr (figures doc)) \<noteq> Some (of_int (out_apr f) / 1000)
          then [''apr''] else []))"

definition refuse_if_document_disagrees :: "document option \<Rightarrow> outputs \<Rightarrow> unit response" where
  "refuse_if_document_disagrees document f =
     (case document of
        None \<Rightarrow> Inr ()
      | Some doc \<Rightarrow>
          (let mismatched = document_mismatches doc f
           in if mismatched \<noteq> []
              then raise_http 409 (''the document's figures disagree with the recomputed disclosure on '' @
                     joined (sort mismatched) @ ''; refusing to persist'')
              else Inr ()))"

definition refuse_if_decision_event_invalid ::
  "disc_db \<Rightarrow> int \<Rightarrow> offer_row \<Rightarrow> unit response" where
  "refuse_if_decision_event_invalid db decision_event_id off =
     (case event_by_id db decision_event_id of
        None \<Rightarrow> raise_http 404 ''decision event not found''
      | Some ev \<Rightarrow>
          if lower (case e_outcome ev of None \<Rightarrow> '''' | Some oc \<Rightarrow> oc) \<noteq> ''approve''
          then raise_http 409 ''decision_event_id did not approve this offer; refusing to persist''
          else case o_decision_event_id off of
            Some e \<Rightarrow>
              if decision_event_id \<noteq> e
              then raise_http 409 ''decision_event_id is not the event that authorized this offer; refusing to persist''
              else Inr ()
          | None \<Rightarrow>
              if e_app_id ev \<noteq> o_app_id off
              then raise_http 409 ''decision_event_id does not belong to this offer's application; refusing to persist''
              else Inr ())"

section \<open>Writes\<close>

text \<open>The edge is written when it was open as read; the flag tells whether a commit is owed.\<close>

definition closes_edge :: "offer_row \<Rightarrow> int option \<Rightarrow> bool" where
  "closes_edge off decision_event_id \<longleftrightarrow> o_decision_event_id off = None \<and> decision_event_id \<noteq> None"

definition set_edge :: "int \<Rightarrow> int \<Rightarrow> disc_db \<Rightarrow> disc_db" where
  "set_edge offer_id e db =
     db\<lparr>offers := map (\<lambda>x. if o_id x = offer_id then x\<lparr>o_decision_event_id := Some e\<rparr> else x) (offers db)\<rparr>"

text \<open>
  \<^verbatim>\<open>_repair_missing_document\<close>: what it would write onto the row as read, the document and
  whether the status goes back to draft.
\<close>

definition repair_missing_document ::
  "disclosure_row \<Rightarrow> document option \<Rightarrow> (stored_document \<times> bool) option response" where
  "repair_missing_document row doc =
     (case (d_document row, doc) of
        (None, Some d) \<Rightarrow>
          if d_status row = ''delivered'' then Inr None
          else bind_result (refuse_if_document_disagrees doc (d_figures row))
                 (\<lambda>_. Inr (Some (Stored d, d_status row \<noteq> ''draft'')))
      | _ \<Rightarrow> Inr None)"

definition repaired_row :: "stored_document \<times> bool \<Rightarrow> disclosure_row \<Rightarrow> disclosure_row" where
  "repaired_row u r =
     (let r1 = r\<lparr>d_document := Some (fst u)\<rparr> in if snd u then r1\<lparr>d_status := ''draft''\<rparr> else r1)"

text \<open>
  The commit of a replay: an UPDATE by primary key. The freeze trigger raises on a delivered row
  and the whole transaction is lost.
\<close>

definition commit_replay ::
  "int \<Rightarrow> (stored_document \<times> bool) option \<Rightarrow> (int \<times> int) option \<Rightarrow> disc_db \<Rightarrow> bool \<times> disc_db" where
  "commit_replay did repaired edge db =
     (let db1 = (case edge of None \<Rightarrow> db | Some (offer_id, e) \<Rightarrow> set_edge offer_id e db)
      in case repaired of
           None \<Rightarrow> (True, db1)
         | Some u \<Rightarrow>
             if \<exists>r \<in> set (disclosures db). d_id r = did \<and> d_status r \<noteq> ''delivered''
             then (True, db1\<lparr>disclosures :=
                     map (\<lambda>r. if d_id r = did then repaired_row u r else r) (disclosures db)\<rparr>)
             else (False, db))"

text \<open>
  The INSERT with the edge update in one transaction: refused by a foreign key or a CHECK, or
  by \<^verbatim>\<open>uq_disclosures_offer\<close>; all of them are \<^verbatim>\<open>IntegrityError\<close>.
\<close>

definition insert_disclosure ::
  "disclosure_row \<Rightarrow> bool \<Rightarrow> disc_db \<Rightarrow> bool \<times> disc_db" where
  "insert_disclosure row edge db =
     (let new = row\<lparr>d_id := next_disclosure_id db\<rparr>;
          db0 = db\<lparr>next_disclosure_id := next_disclosure_id db + 1\<rparr>
      in if row_ok new \<and> offer_by_id db (d_offer_id row) \<noteq> None \<and>
            event_by_id db (d_decision_event_id row) \<noteq> None \<and>
            disclosure_by_offer db (d_offer_id row) = None
         then (True,
           (if edge then set_edge (d_offer_id row) (d_decision_event_id row) db0 else db0)
             \<lparr>disclosures := disclosures db @ [new]\<rparr>)
         else (False, db0))"

text \<open>The answer, from the row as it is when it is read back.\<close>

definition read_back :: "int \<Rightarrow> disc_db \<Rightarrow> disclosure_out response" where
  "read_back did db =
     (case disclosure_by_id db did of None \<Rightarrow> internal_error | Some r \<Rightarrow> Inr (disclosure_out_of r))"

definition replay ::
  "(nat \<Rightarrow> disc_db \<Rightarrow> disc_db) \<Rightarrow> offer_row \<Rightarrow> disclosure_row \<Rightarrow> document option \<Rightarrow> disc_db \<Rightarrow>
   disclosure_out response \<times> disc_db" where
  "replay w off existing doc db =
     (case repair_missing_document existing doc of
        Inl e \<Rightarrow> (Inl e, db)
      | Inr repaired \<Rightarrow>
          (let edge = (if closes_edge off (Some (d_decision_event_id existing))
                       then Some (o_id off, d_decision_event_id existing) else None)
           in if repaired = None \<and> edge = None then (Inr (disclosure_out_of existing), db)
              else (case commit_replay (d_id existing) repaired edge (w 2 db) of
                      (False, db1) \<Rightarrow> (internal_error, db1)
                    | (True, db1) \<Rightarrow> (let db2 = w 3 db1 in (read_back (d_id existing) db2, db2)))))"

text \<open>The loser of a concurrent insert replays the winner; the offer is read again.\<close>

definition replay_winner ::
  "(nat \<Rightarrow> disc_db \<Rightarrow> disc_db) \<Rightarrow> int \<Rightarrow> disc_db \<Rightarrow> disclosure_out response \<times> disc_db" where
  "replay_winner w offer_id db =
     (let db1 = w 4 db
      in case disclosure_by_offer db1 offer_id of
           None \<Rightarrow> (internal_error, db1)
         | Some winner \<Rightarrow>
             (case offer_by_id db1 offer_id of
                None \<Rightarrow> (internal_error, db1)
              | Some off \<Rightarrow>
                  if closes_edge off (Some (d_decision_event_id winner))
                  then (let db2 = w 6 (set_edge offer_id (d_decision_event_id winner) (w 5 db1))
                        in (read_back (d_id winner) db2, db2))
                  else (Inr (disclosure_out_of winner), db1)))"

definition new_disclosure ::
  "(string \<Rightarrow> string) \<Rightarrow> fee_schedule \<Rightarrow> disclosure_in \<Rightarrow> snapshot \<Rightarrow> outputs \<Rightarrow>
   fp_error + disclosure_row" where
  "new_disclosure sha sched b snap f =
     bind_result (compute_fingerprint sha (snapshot_payload snap) (version sched) apr_method_version
                    (outputs_payload f)) (\<lambda>fp.
       Inr \<lparr>d_id = 0, d_offer_id = in_offer_id b, d_decision_event_id = in_decision_event_id b,
            d_status = ''draft'', d_figures = f, d_snapshot = snap,
            d_fee_schedule_version = version sched, d_apr_method_version = apr_method_version,
            d_fingerprint = fp, d_document = map_option Stored (in_document b),
            d_delivered_at = None\<rparr>)"

text \<open>Everything between the checks on the event and the insert: the row, or the refusal.\<close>

definition derive_row ::
  "(string \<Rightarrow> string) \<Rightarrow> rules_error + fee_schedule \<Rightarrow> offer_row \<Rightarrow> disclosure_in \<Rightarrow>
   disclosure_row response" where
  "derive_row sha rules off b =
     (case rules of
        Inl e \<Rightarrow> internal_error
      | Inr sched \<Rightarrow>
          (case compute_figures rules b of
             Inl e \<Rightarrow> internal_error
           | Inr computed \<Rightarrow>
               bind_result (refuse_if_offer_disagrees off computed) (\<lambda>_.
                 case (snapshot_of sched b, outputs_of computed) of
                   (Some snap, Some f) \<Rightarrow>
                     bind_result (refuse_if_document_disagrees (in_document b) f) (\<lambda>_.
                       case new_disclosure sha sched b snap f of
                         Inl e \<Rightarrow> internal_error
                       | Inr row \<Rightarrow> Inr row)
                 | _ \<Rightarrow> internal_error)))"

definition create_fresh ::
  "(string \<Rightarrow> string) \<Rightarrow> rules_error + fee_schedule \<Rightarrow> (nat \<Rightarrow> disc_db \<Rightarrow> disc_db) \<Rightarrow> offer_row \<Rightarrow>
   disclosure_in \<Rightarrow> disc_db \<Rightarrow> disclosure_out response \<times> disc_db" where
  "create_fresh sha rules w off b db =
     (let db1 = w 2 db
      in case bind_result (refuse_if_decision_event_invalid db1 (in_decision_event_id b) off)
                (\<lambda>_. derive_row sha rules off b) of
           Inl e \<Rightarrow> (Inl e, db1)
         | Inr row \<Rightarrow>
             (let db2 = w 3 db1
              in case insert_disclosure row (closes_edge off (Some (in_decision_event_id b))) db2 of
                   (False, db3) \<Rightarrow> replay_winner w (in_offer_id b) db3
                 | (True, db3) \<Rightarrow>
                     (let db4 = w 6 db3 in (read_back (next_disclosure_id db2) db4, db4))))"

definition create_disclosure ::
  "(string \<Rightarrow> string) \<Rightarrow> rules_error + fee_schedule \<Rightarrow> string \<Rightarrow> (nat \<Rightarrow> disc_db \<Rightarrow> disc_db) \<Rightarrow>
   disclosure_in \<Rightarrow> string option \<Rightarrow> disc_db \<Rightarrow> disclosure_out response \<times> disc_db" where
  "create_disclosure sha rules token w b x_internal_service db =
     (if \<not> disclosure_in_ok b then (raise_http 422 ''validation error'', db)
      else case disc_require_internal_caller token x_internal_service of
        Inl e \<Rightarrow> (Inl e, db)
      | Inr _ \<Rightarrow>
          (let db0 = w 0 db
           in case offer_by_id db0 (in_offer_id b) of
                None \<Rightarrow> (raise_http 404 ''offer not found'', db0)
              | Some off \<Rightarrow>
                  (let db1 = w 1 db0
                   in case disclosure_by_offer db1 (in_offer_id b) of
                        Some existing \<Rightarrow> replay w off existing (in_document b) db1
                      | None \<Rightarrow> create_fresh sha rules w off b db1)))"

section \<open>Lifecycle\<close>

definition legal_transitions :: "(string \<times> string list) list" where
  "legal_transitions =
     [(''draft'', [''in_review'']), (''in_review'', [''approved'', ''draft'']),
      (''approved'', [''delivered'', ''draft'']), (''delivered'', [])]"

definition legal :: "string \<Rightarrow> string \<Rightarrow> bool" where
  "legal current target \<longleftrightarrow>
     (case map_of legal_transitions current of None \<Rightarrow> False | Some ts \<Rightarrow> target \<in> set ts)"

definition reject_routes :: "(string \<times> string) list" where
  "reject_routes =
     [(''wording'', ''assemble''), (''formatting'', ''assemble''), (''wrong_terms'', ''decisioning''),
      (''wrong_rate'', ''decisioning''), (''ineligible'', ''decisioning'')]"

record transition_out =
  tr_disclosure :: disclosure_out
  tr_routed_to :: "string option"

definition refuse_if_no_document :: "disclosure_row \<Rightarrow> unit response" where
  "refuse_if_no_document row =
     (if d_document row = None
      then raise_http 409 ''no document is recorded for this disclosure; refusing to deliver a disclosure whose borrower-facing document was never persisted''
      else Inr ())"

definition refuse_if_delivered_document_disagrees :: "disclosure_row \<Rightarrow> unit response" where
  "refuse_if_delivered_document_disagrees row =
     (case bind_option (d_document row) model_validate of
        None \<Rightarrow> raise_http 409 ''the recorded document is malformed; refusing to deliver''
      | Some doc \<Rightarrow> refuse_if_document_disagrees (Some doc) (d_figures row))"

definition refuse_if_chain_incomplete :: "disc_db \<Rightarrow> int \<Rightarrow> unit response" where
  "refuse_if_chain_incomplete db did =
     (let missing = (case provenance_by_disclosure db did of
                       Some v \<Rightarrow> incomplete_edges v | None \<Rightarrow> map fst chain_edges)
      in if missing \<noteq> []
         then raise_http 409 (''provenance chain is incomplete ('' @ joined missing @ ''); refusing to deliver'')
         else Inr ())"

definition consummated :: "disc_db \<Rightarrow> int \<Rightarrow> bool" where
  "consummated db offer_id \<longleftrightarrow>
     (\<exists>off \<in> set (offers db). o_id off = offer_id \<and> o_app_id off \<noteq> None \<and> o_app_id off \<in> set (loan_apps db))"

definition refuse_if_already_consummated :: "disc_db \<Rightarrow> int \<Rightarrow> unit response" where
  "refuse_if_already_consummated db offer_id =
     (if consummated db offer_id
      then raise_http 409 ''TILA timing: the loan is already boarded; the disclosure had to be delivered before consummation''
      else Inr ())"

text \<open>The guarded UPDATE; the flag is its row count.\<close>

definition advance :: "int \<Rightarrow> string \<Rightarrow> string \<Rightarrow> disc_db \<Rightarrow> bool \<times> disc_db" where
  "advance did current target db =
     (\<exists>r \<in> set (disclosures db). d_id r = did \<and> d_status r = current,
      db\<lparr>disclosures := map (\<lambda>r.
           if d_id r = did \<and> d_status r = current
           then r\<lparr>d_status := target,
                  d_delivered_at := (if target = ''delivered'' then Some (clock db) else d_delivered_at r)\<rparr>
           else r) (disclosures db)\<rparr>)"

text \<open>The refusals before the UPDATE, in the handler's order; two of them query the database.\<close>

definition delivery_guards ::
  "(nat \<Rightarrow> disc_db \<Rightarrow> disc_db) \<Rightarrow> disclosure_row \<Rightarrow> disc_db \<Rightarrow> unit response \<times> disc_db" where
  "delivery_guards w row db =
     (case bind_result (refuse_if_no_document row) (\<lambda>_. refuse_if_delivered_document_disagrees row) of
        Inl e \<Rightarrow> (Inl e, db)
      | Inr _ \<Rightarrow>
          (let db1 = w 1 db
           in case refuse_if_chain_incomplete db1 (d_id row) of
                Inl e \<Rightarrow> (Inl e, db1)
              | Inr _ \<Rightarrow>
                  (let db2 = w 2 db1 in (refuse_if_already_consummated db2 (d_offer_id row), db2))))"

definition reject_route :: "string \<Rightarrow> string option \<Rightarrow> string option response" where
  "reject_route target reason_code =
     (if target = ''draft''
      then (case map_of reject_routes (case reason_code of None \<Rightarrow> '''' | Some c \<Rightarrow> c) of
              None \<Rightarrow> raise_http 400 (''a reject needs a routable reason_code, one of '' @
                        joined (sort (map fst reject_routes)))
            | Some r \<Rightarrow> Inr (Some r))
      else Inr None)"

definition transition_disclosure ::
  "string \<Rightarrow> (nat \<Rightarrow> disc_db \<Rightarrow> disc_db) \<Rightarrow> int \<Rightarrow> string \<Rightarrow> string option \<Rightarrow> string option \<Rightarrow> disc_db \<Rightarrow>
   transition_out response \<times> disc_db" where
  "transition_disclosure token w did target reason_code x_internal_service db =
     (case disc_require_internal_caller token x_internal_service of
        Inl e \<Rightarrow> (Inl e, db)
      | Inr _ \<Rightarrow>
          (let db0 = w 0 db
           in case disclosure_by_id db0 did of
                None \<Rightarrow> (raise_http 404 ''disclosure not found'', db0)
              | Some row \<Rightarrow>
                  if \<not> legal (d_status row) target
                  then (raise_http 409 (''illegal transition '' @ d_status row @ '' -> '' @ target), db0)
                  else (case reject_route target reason_code of
                      Inl e \<Rightarrow> (Inl e, db0)
                    | Inr routed_to \<Rightarrow>
                        (case (if target = ''delivered'' then delivery_guards w row db0 else (Inr (), db0)) of
                           (Inl e, db1) \<Rightarrow> (Inl e, db1)
                         | (Inr _, db1) \<Rightarrow>
                             (case advance did (d_status row) target (w 3 db1) of
                                (False, db2) \<Rightarrow>
                                  (raise_http 409 ''disclosure changed status concurrently; re-read it'', db2)
                              | (True, db2) \<Rightarrow>
                                  (let db3 = w 4 db2
                                   in (bind_result (read_back did db3)
                                         (\<lambda>out. Inr \<lparr>tr_disclosure = out, tr_routed_to = routed_to\<rparr>),
                                       db3)))))))"

section \<open>Reads\<close>

definition read_provenance :: "string \<Rightarrow> int \<Rightarrow> string option \<Rightarrow> disc_db \<Rightarrow> provenance_out response" where
  "read_provenance token did x_internal_service db =
     bind_result (disc_require_internal_caller token x_internal_service) (\<lambda>_.
       case provenance_by_disclosure db did of
         None \<Rightarrow> raise_http 404 ''disclosure not found''
       | Some v \<Rightarrow> Inr (provenance_out_of v))"

definition read_provenance_by_application ::
  "string \<Rightarrow> int \<Rightarrow> string option \<Rightarrow> disc_db \<Rightarrow> provenance_out response" where
  "read_provenance_by_application token application_id x_internal_service db =
     bind_result (disc_require_internal_caller token x_internal_service) (\<lambda>_.
       case provenance_by_application db application_id of
         None \<Rightarrow> raise_http 404 ''no offer for this application''
       | Some v \<Rightarrow> Inr (provenance_out_of v))"

definition read_document :: "string \<Rightarrow> int \<Rightarrow> string option \<Rightarrow> disc_db \<Rightarrow> document response" where
  "read_document token did x_internal_service db =
     bind_result (disc_require_internal_caller token x_internal_service) (\<lambda>_.
       case disclosure_by_id db did of
         None \<Rightarrow> raise_http 404 ''disclosure not found''
       | Some row \<Rightarrow>
           (case d_document row of
              None \<Rightarrow> raise_http 404 ''no document recorded for this disclosure''
            | Some body \<Rightarrow>
                (case model_validate body of
                   None \<Rightarrow> raise_http 409 ''the recorded document is malformed''
                 | Some doc \<Rightarrow> Inr doc)))"

end
