(* ===== verification/DisclosureSteps.thy ===== *)
theory DisclosureSteps
  imports Disclosures
begin

text \<open>
  The disclosure tables under any interleaving of statements: a step relation with one rule per
  statement, the invariants every step keeps (well-typed rows, recomputable fingerprints, stored
  documents that agree with their record, immutable figures, frozen delivered rows), and the
  simulation lemmas that every run of a handler, with any other sessions between its own
  statements, is a path of that relation.
\<close>

section \<open>Rows the code writes\<close>

definition fingerprint_ok :: "(string \<Rightarrow> string) \<Rightarrow> disclosure_row \<Rightarrow> bool" where
  "fingerprint_ok sha r \<longleftrightarrow>
     compute_fingerprint sha (snapshot_payload (d_snapshot r)) (d_fee_schedule_version r)
       (d_apr_method_version r) (outputs_payload (d_figures r)) = Inr (d_fingerprint r)"

definition agrees :: "document \<Rightarrow> outputs \<Rightarrow> bool" where
  "agrees doc f \<longleftrightarrow> document_ok doc \<and> document_mismatches doc f = []"

definition document_agrees :: "disclosure_row \<Rightarrow> bool" where
  "document_agrees r \<longleftrightarrow>
     (case d_document r of None \<Rightarrow> True | Some (Stored doc) \<Rightarrow> agrees doc (d_figures r) | Some Other_json \<Rightarrow> False)"

definition fresh_row :: "(string \<Rightarrow> string) \<Rightarrow> disclosure_row \<Rightarrow> bool" where
  "fresh_row sha r \<longleftrightarrow> d_status r = ''draft'' \<and> d_delivered_at r = None \<and> fingerprint_ok sha r \<and> document_agrees r"

text \<open>The well-typed tables: unique ids and offers, constrained rows, intact fingerprints.\<close>

definition tables_typed :: "(string \<Rightarrow> string) \<Rightarrow> disc_db \<Rightarrow> bool" where
  "tables_typed sha db \<longleftrightarrow>
     distinct (map d_id (disclosures db)) \<and> distinct (map d_offer_id (disclosures db)) \<and>
     (\<forall>r \<in> set (disclosures db). d_id r < next_disclosure_id db \<and> row_ok r \<and>
        fingerprint_ok sha r \<and> document_agrees r)"

section \<open>Steps\<close>

inductive disc_step :: "(string \<Rightarrow> string) \<Rightarrow> disc_db \<Rightarrow> disc_db \<Rightarrow> bool" for sha where
  step_insert: "fresh_row sha row \<Longrightarrow> disc_step sha db (snd (insert_disclosure row edge db))"
| step_replay:
    "(\<And>u. repaired = Some u \<Longrightarrow> \<exists>doc. fst u = Stored doc \<and>
        (\<forall>r \<in> set (disclosures db). d_id r = did \<longrightarrow> agrees doc (d_figures r))) \<Longrightarrow>
     disc_step sha db (snd (commit_replay did repaired edge db))"
| step_advance: "legal current target \<Longrightarrow> disc_step sha db (snd (advance did current target db))"
| step_edge: "disc_step sha db (set_edge i e db)"
| step_offer: "disc_step sha db (db\<lparr>offers := offers db @ os, next_offer_id := n\<rparr>)"
| step_events: "disc_step sha db (db\<lparr>events := events db @ es\<rparr>)"
| step_applications: "disc_step sha db (db\<lparr>applications := a\<rparr>)"
| step_boarding: "disc_step sha db (db\<lparr>loan_apps := l\<rparr>)"
| step_clock: "clock db \<le> t \<Longrightarrow> disc_step sha db (db\<lparr>clock := t\<rparr>)"

abbreviation disc_path :: "(string \<Rightarrow> string) \<Rightarrow> disc_db \<Rightarrow> disc_db \<Rightarrow> bool" where
  "disc_path sha \<equiv> (disc_step sha)\<^sup>*\<^sup>*"

definition sessions_ok :: "(string \<Rightarrow> string) \<Rightarrow> (nat \<Rightarrow> disc_db \<Rightarrow> disc_db) \<Rightarrow> bool" where
  "sessions_ok sha w \<longleftrightarrow> (\<forall>n d. disc_path sha d (w n d))"

lemma sessions_okD: "sessions_ok sha w \<Longrightarrow> disc_path sha d (w n d)"
  by (simp add: sessions_ok_def)

lemma sessions_ok_idle [simp]: "sessions_ok sha (\<lambda>_ d. d)"
  by (simp add: sessions_ok_def)

section \<open>What a statement does to the rows\<close>

text \<open>The part of a record no statement rewrites.\<close>

definition same_record :: "disclosure_row \<Rightarrow> disclosure_row \<Rightarrow> bool" where
  "same_record r r' \<longleftrightarrow> d_id r' = d_id r \<and> d_offer_id r' = d_offer_id r \<and>
     d_decision_event_id r' = d_decision_event_id r \<and> d_figures r' = d_figures r \<and>
     d_snapshot r' = d_snapshot r \<and> d_fee_schedule_version r' = d_fee_schedule_version r \<and>
     d_apr_method_version r' = d_apr_method_version r \<and> d_fingerprint r' = d_fingerprint r"

lemma same_record_refl [simp]: "same_record r r"
  by (simp add: same_record_def)

lemma same_record_trans: "same_record a b \<Longrightarrow> same_record b c \<Longrightarrow> same_record a c"
  by (simp add: same_record_def)

text \<open>How one row may move: along the whitelist, or by a repair of a row not delivered.\<close>

definition row_move :: "disclosure_row \<Rightarrow> disclosure_row \<Rightarrow> bool" where
  "row_move r r' \<longleftrightarrow> r' = r \<or>
     same_record r r' \<and> d_status r \<noteq> ''delivered'' \<and>
       (legal (d_status r) (d_status r') \<and> d_document r' = d_document r \<and>
          (d_status r' = ''delivered'' \<longrightarrow> d_delivered_at r' \<noteq> None) \<and>
          (d_status r' \<noteq> ''delivered'' \<longrightarrow> d_delivered_at r' = d_delivered_at r) \<or>
        d_status r' \<in> {d_status r, ''draft''} \<and> d_delivered_at r' = d_delivered_at r \<and>
          document_agrees r')"

lemma legal_cases: "legal c t \<Longrightarrow> (c, t) \<in> {(''draft'', ''in_review''), (''in_review'', ''approved''),
    (''in_review'', ''draft''), (''approved'', ''delivered''), (''approved'', ''draft'')}"
  by (auto simp: legal_def legal_transitions_def split: if_splits)

lemma not_legal_from_delivered [simp]: "\<not> legal ''delivered'' t"
  by (simp add: legal_def legal_transitions_def)

lemma row_move_same: "row_move r r' \<Longrightarrow> same_record r r'"
  by (auto simp: row_move_def)

lemma row_move_ok:
  assumes "row_move r r'" "row_ok r"
  shows "row_ok r'"
proof (cases "r' = r")
  case False
  then have m: "same_record r r'" "d_status r \<noteq> ''delivered''" using assms(1) by (auto simp: row_move_def)
  then have d: "d_delivered_at r = None" "figures_ok (d_figures r')" "d_status r \<in> set statuses"
    using assms(2) by (auto simp: row_ok_def same_record_def)
  consider (legal) "legal (d_status r) (d_status r')"
      "d_status r' = ''delivered'' \<longrightarrow> d_delivered_at r' \<noteq> None"
      "d_status r' \<noteq> ''delivered'' \<longrightarrow> d_delivered_at r' = d_delivered_at r"
    | (repair) "d_status r' \<in> {d_status r, ''draft''}" "d_delivered_at r' = d_delivered_at r"
    using assms(1) False by (auto simp: row_move_def)
  then show ?thesis
  proof cases
    case legal
    then have "d_status r' \<in> set statuses" using legal_cases [of "d_status r" "d_status r'"]
      by (auto simp: statuses_def)
    then show ?thesis using legal d by (auto simp: row_ok_def)
  next
    case repair
    then show ?thesis using d m(2) by (auto simp: row_ok_def statuses_def)
  qed
qed (use assms in simp)

lemma row_move_agrees: "row_move r r' \<Longrightarrow> document_agrees r \<Longrightarrow> document_agrees r'"
  by (auto simp: row_move_def same_record_def document_agrees_def split: option.splits stored_document.splits)

lemma same_record_fingerprint: "same_record r r' \<Longrightarrow> fingerprint_ok sha r = fingerprint_ok sha r'"
  by (simp add: same_record_def fingerprint_ok_def)

text \<open>Statements that rewrite rows in place move each of them.\<close>

lemma advance_moves:
  assumes "legal current target"
  shows "list_all2 row_move (disclosures db) (disclosures (snd (advance did current target db)))"
proof -
  have "row_move r (if d_id r = did \<and> d_status r = current
      then r\<lparr>d_status := target,
             d_delivered_at := (if target = ''delivered'' then Some t else d_delivered_at r)\<rparr> else r)" for r t
    using assms by (auto simp: row_move_def same_record_def)
  then show ?thesis by (simp add: advance_def list_all2_map2 list_all2_same)
qed

lemma disclosures_set_edge [simp]: "disclosures (set_edge i e db) = disclosures db"
  by (simp add: set_edge_def)

lemma next_set_edge [simp]: "next_disclosure_id (set_edge i e db) = next_disclosure_id db"
  by (simp add: set_edge_def)

lemma commit_replay_moves:
  assumes typed: "distinct (map d_id (disclosures db))"
    and doc: "\<And>u. repaired = Some u \<Longrightarrow> \<exists>doc. fst u = Stored doc \<and>
        (\<forall>r \<in> set (disclosures db). d_id r = did \<longrightarrow> agrees doc (d_figures r))"
  shows "list_all2 row_move (disclosures db) (disclosures (snd (commit_replay did repaired edge db)))"
proof (cases repaired)
  case None
  then show ?thesis
    by (auto simp: commit_replay_def row_move_def Let_def list_all2_same split: option.splits)
next
  case (Some u)
  obtain d where d: "fst u = Stored d" "\<And>r. r \<in> set (disclosures db) \<Longrightarrow> d_id r = did \<Longrightarrow> agrees d (d_figures r)"
    using doc [OF Some] by blast
  show ?thesis
  proof (cases "\<exists>r \<in> set (disclosures db). d_id r = did \<and> d_status r \<noteq> ''delivered''")
    case True
    then obtain r0 where r0: "r0 \<in> set (disclosures db)" "d_id r0 = did" "d_status r0 \<noteq> ''delivered''"
      by blast
    have "row_move r (if d_id r = did then repaired_row u r else r)" if "r \<in> set (disclosures db)" for r
    proof (cases "d_id r = did")
      case same: True
      then have "r = r0" using typed that r0 by (simp add: distinct_map inj_on_def)
      then show ?thesis using same r0(3) d(1) d(2) [OF that same]
        by (auto simp: row_move_def same_record_def repaired_row_def Let_def document_agrees_def)
    qed (simp add: row_move_def)
    then show ?thesis using True Some
      by (simp add: commit_replay_def Let_def list_all2_map2 list_all2_same)
  next
    case False
    then show ?thesis using Some by (auto simp: commit_replay_def Let_def list_all2_same row_move_def)
  qed
qed

section \<open>What a step does to the tables\<close>

definition rows_grow :: "(string \<Rightarrow> string) \<Rightarrow> disc_db \<Rightarrow> disc_db \<Rightarrow> bool" where
  "rows_grow sha db db' \<longleftrightarrow>
     next_disclosure_id db \<le> next_disclosure_id db' \<and>
     (\<exists>rs new. disclosures db' = rs @ new \<and> list_all2 row_move (disclosures db) rs \<and>
        (new = [] \<or> (\<exists>r. new = [r] \<and> row_ok r \<and> fresh_row sha r \<and> d_id r = next_disclosure_id db \<and>
           next_disclosure_id db' = next_disclosure_id db + 1 \<and>
           d_offer_id r \<notin> d_offer_id ` set (disclosures db))))"

lemma rows_grow_moves:
  "list_all2 row_move (disclosures db) (disclosures db') \<Longrightarrow>
   next_disclosure_id db' = next_disclosure_id db \<Longrightarrow> rows_grow sha db db'"
  unfolding rows_grow_def by (intro conjI exI [of _ "disclosures db'"] exI [of _ "[]"]) simp_all

lemma rows_grow_same:
  "disclosures db' = disclosures db \<Longrightarrow> next_disclosure_id db' = next_disclosure_id db \<Longrightarrow> rows_grow sha db db'"
  by (rule rows_grow_moves) (simp_all add: list_all2_same row_move_def)

lemma insert_cases:
  obtains (inserted) new where "insert_disclosure row edge db =
      (True, snd (insert_disclosure row edge db))" "new = row\<lparr>d_id := next_disclosure_id db\<rparr>" "row_ok new"
    "disclosures (snd (insert_disclosure row edge db)) = disclosures db @ [new]"
    "next_disclosure_id (snd (insert_disclosure row edge db)) = next_disclosure_id db + 1"
    "d_offer_id row \<notin> d_offer_id ` set (disclosures db)"
    "event_by_id db (d_decision_event_id row) \<noteq> None"
  | (refused) "insert_disclosure row edge db =
      (False, db\<lparr>next_disclosure_id := next_disclosure_id db + 1\<rparr>)"
proof (cases "row_ok (row\<lparr>d_id := next_disclosure_id db\<rparr>) \<and> offer_by_id db (d_offer_id row) \<noteq> None \<and>
            event_by_id db (d_decision_event_id row) \<noteq> None \<and> disclosure_by_offer db (d_offer_id row) = None")
  case True
  then have "d_offer_id row \<notin> d_offer_id ` set (disclosures db)"
    by (auto simp: disclosure_by_offer_def find_None_iff)
  then show ?thesis using True by (intro inserted) (simp_all add: insert_disclosure_def Let_def)
next
  case False
  then show ?thesis by (intro refused) (simp only: insert_disclosure_def Let_def if_False)
qed

lemma insert_grows: "fresh_row sha row \<Longrightarrow> rows_grow sha db (snd (insert_disclosure row edge db))"
proof (cases rule: insert_cases [of row edge db])
  case (inserted new)
  assume "fresh_row sha row"
  then have "fresh_row sha new"
    by (auto simp: inserted(2) fresh_row_def fingerprint_ok_def document_agrees_def
        split: option.splits stored_document.splits)
  then show ?thesis
    unfolding rows_grow_def inserted(4,5) using inserted(2,3,6)
    by (intro conjI exI [of _ "disclosures db"] exI [of _ "[new]"]) (simp_all add: list_all2_same row_move_def)
next
  case refused
  then show ?thesis
    unfolding rows_grow_def by (intro conjI exI [of _ "disclosures db"] exI [of _ "[]"])
      (simp_all add: list_all2_same row_move_def)
qed

lemma next_commit_replay [simp]:
  "next_disclosure_id (snd (commit_replay did repaired edge db)) = next_disclosure_id db"
  by (simp add: commit_replay_def Let_def split: option.splits prod.splits)

lemma step_grows:
  assumes "disc_step sha db db'" "distinct (map d_id (disclosures db))"
  shows "rows_grow sha db db'"
  using assms(1)
proof (cases rule: disc_step.cases)
  case (step_insert row edge)
  then show ?thesis by (simp add: insert_grows)
next
  case (step_replay repaired did edge)
  then show ?thesis using commit_replay_moves [OF assms(2), of repaired did edge]
    by (intro rows_grow_moves) simp_all
next
  case (step_advance current target did)
  then show ?thesis using advance_moves [of current target db did]
    by (intro rows_grow_moves) (simp_all add: advance_def)
qed (simp_all add: rows_grow_same)

section \<open>Invariants\<close>

lemma moves_ids:
  "list_all2 row_move xs ys \<Longrightarrow> map d_id ys = map d_id xs \<and> map d_offer_id ys = map d_offer_id xs"
  by (induction rule: list_all2_induct) (auto dest: row_move_same simp: same_record_def)

lemma step_typed:
  assumes step: "disc_step sha db db'" and ok: "tables_typed sha db"
  shows "tables_typed sha db'"
proof -
  have "distinct (map d_id (disclosures db))" using ok by (simp add: tables_typed_def)
  then obtain rs new where g: "disclosures db' = rs @ new" "list_all2 row_move (disclosures db) rs"
    "next_disclosure_id db \<le> next_disclosure_id db'"
    "new = [] \<or> (\<exists>r. new = [r] \<and> row_ok r \<and> fresh_row sha r \<and> d_id r = next_disclosure_id db \<and>
           next_disclosure_id db' = next_disclosure_id db + 1 \<and>
           d_offer_id r \<notin> d_offer_id ` set (disclosures db))"
    using step_grows [OF step] unfolding rows_grow_def by blast
  note ids = moves_ids [OF g(2)]
  have old: "d_id r < next_disclosure_id db \<and> row_ok r \<and> fingerprint_ok sha r \<and> document_agrees r"
    if r: "r \<in> set rs" for r
  proof -
    obtain q where q: "q \<in> set (disclosures db)" "row_move q r"
      using list_all2_source [OF g(2) r] by blast
    then have o: "d_id q < next_disclosure_id db" "row_ok q" "fingerprint_ok sha q" "document_agrees q"
      using ok by (simp_all add: tables_typed_def)
    have s: "same_record q r" using q(2) by (rule row_move_same)
    show ?thesis
      using o s row_move_ok [OF q(2)] row_move_agrees [OF q(2)] same_record_fingerprint [OF s]
      by (simp add: same_record_def)
  qed
  have sets: "d_id ` set rs = d_id ` set (disclosures db)" "d_offer_id ` set rs = d_offer_id ` set (disclosures db)"
    using ids by (metis set_map)+
  have dist: "distinct (map d_id rs)" "distinct (map d_offer_id rs)"
    using ok unfolding ids [THEN conjunct1] ids [THEN conjunct2] by (simp_all add: tables_typed_def)
  have free: "next_disclosure_id db \<notin> d_id ` set (disclosures db)"
    using ok by (force simp: tables_typed_def)
  have old': "\<forall>r \<in> set rs. d_id r < next_disclosure_id db' \<and> row_ok r \<and> fingerprint_ok sha r \<and> document_agrees r"
    using old g(3) by (meson less_le_trans)
  from g(4) show ?thesis
  proof
    assume "new = []"
    then show ?thesis unfolding tables_typed_def g(1) using dist old' by simp
  next
    assume "\<exists>r. new = [r] \<and> row_ok r \<and> fresh_row sha r \<and> d_id r = next_disclosure_id db \<and>
           next_disclosure_id db' = next_disclosure_id db + 1 \<and>
           d_offer_id r \<notin> d_offer_id ` set (disclosures db)"
    then obtain r where r: "new = [r]" "row_ok r" "fresh_row sha r" "d_id r = next_disclosure_id db"
      "next_disclosure_id db' = next_disclosure_id db + 1"
      "d_offer_id r \<notin> d_offer_id ` set (disclosures db)" by blast
    have "distinct (map d_id (rs @ [r]))" "distinct (map d_offer_id (rs @ [r]))"
      using dist free r(4,6) sets by simp_all
    then show ?thesis unfolding tables_typed_def g(1) r(1) using old' r(2,3,4,5)
      by (simp add: fresh_row_def)
  qed
qed

text \<open>
  The interface of a property of the rows: a relation between the tables before and after that
  every step on typed tables establishes, and that composes, holds along every path.
\<close>

locale row_guarantee =
  fixes sha :: "string \<Rightarrow> string" and guarantee :: "disc_db \<Rightarrow> disc_db \<Rightarrow> bool"
  assumes stay: "guarantee db db"
    and step: "tables_typed sha db \<Longrightarrow> disc_step sha db db' \<Longrightarrow> guarantee db db'"
    and compose: "guarantee a b \<Longrightarrow> guarantee b c \<Longrightarrow> guarantee a c"
begin

lemma path: "disc_path sha db db' \<Longrightarrow> tables_typed sha db \<Longrightarrow> tables_typed sha db' \<and> guarantee db db'"
  by (induction rule: rtranclp_induct) (auto intro: stay step compose step_typed)

end

text \<open>Every row keeps its record, moves along the whitelist, and stays put once delivered.\<close>

definition rows_kept :: "disc_db \<Rightarrow> disc_db \<Rightarrow> bool" where
  "rows_kept db db' \<longleftrightarrow>
     (\<forall>r \<in> set (disclosures db). \<exists>r' \<in> set (disclosures db').
        same_record r r' \<and> (d_status r = ''delivered'' \<longrightarrow> r' = r))"

interpretation kept: row_guarantee sha rows_kept for sha
proof
  fix db show "rows_kept db db" unfolding rows_kept_def by (blast intro: same_record_refl)
next
  fix db db' assume "tables_typed sha db" "disc_step sha db db'"
  then have "rows_grow sha db db'" by (intro step_grows) (simp_all add: tables_typed_def)
  then obtain rs new where g: "disclosures db' = rs @ new" "list_all2 row_move (disclosures db) rs"
    unfolding rows_grow_def by blast
  show "rows_kept db db'" unfolding rows_kept_def
  proof
    fix r assume "r \<in> set (disclosures db)"
    then obtain r' where "r' \<in> set rs" "row_move r r'" using list_all2_partner [OF g(2)] by blast
    then show "\<exists>r' \<in> set (disclosures db'). same_record r r' \<and> (d_status r = ''delivered'' \<longrightarrow> r' = r)"
      using row_move_same by (intro bexI [of _ r']) (auto simp: g(1) row_move_def)
  qed
next
  fix a b c assume ab: "rows_kept a b" and bc: "rows_kept b c"
  show "rows_kept a c" unfolding rows_kept_def
  proof
    fix r assume "r \<in> set (disclosures a)"
    then obtain s where s: "s \<in> set (disclosures b)" "same_record r s" "d_status r = ''delivered'' \<longrightarrow> s = r"
      using ab unfolding rows_kept_def by blast
    then obtain t where t: "t \<in> set (disclosures c)" "same_record s t" "d_status s = ''delivered'' \<longrightarrow> t = s"
      using bc unfolding rows_kept_def by blast
    then show "\<exists>r' \<in> set (disclosures c). same_record r r' \<and> (d_status r = ''delivered'' \<longrightarrow> r' = r)"
      using s same_record_trans [of r s t] by (intro bexI [of _ t]) auto
  qed
qed

section \<open>Every handler run is a path\<close>

lemma path_trans: "disc_path sha a b \<Longrightarrow> disc_path sha b c \<Longrightarrow> disc_path sha a c"
  by (rule rtranclp_trans)

lemma path_then_step: "disc_path sha a b \<Longrightarrow> disc_step sha b c \<Longrightarrow> disc_path sha a c"
  by (rule rtranclp.rtrancl_into_rtrancl)

lemma path_others: "sessions_ok sha w \<Longrightarrow> disc_path sha a b \<Longrightarrow> disc_path sha a (w n b)"
  by (rule path_trans [OF _ sessions_okD])

lemma typed_others: "sessions_ok sha w \<Longrightarrow> tables_typed sha db \<Longrightarrow> tables_typed sha (w n db)"
  using kept.path sessions_okD by blast

lemma disclosure_by_idD: "disclosure_by_id db i = Some r \<Longrightarrow> r \<in> set (disclosures db) \<and> d_id r = i"
  by (auto simp: disclosure_by_id_def find_Some_iff)

lemma disclosure_by_offerD:
  "disclosure_by_offer db i = Some r \<Longrightarrow> r \<in> set (disclosures db) \<and> d_offer_id r = i"
  by (auto simp: disclosure_by_offer_def find_Some_iff)

lemma offer_by_idD: "offer_by_id db i = Some x \<Longrightarrow> x \<in> set (offers db) \<and> o_id x = i"
  by (auto simp: offer_by_id_def find_Some_iff)

text \<open>A row read earlier still has its figures.\<close>

lemma figures_persist:
  assumes "disc_path sha db db'" "tables_typed sha db" "r \<in> set (disclosures db)"
    "r' \<in> set (disclosures db')" "d_id r' = d_id r"
  shows "same_record r r'"
proof -
  have k: "tables_typed sha db'" "rows_kept db db'" using kept.path [OF assms(1,2)] by blast+
  then obtain q where q: "q \<in> set (disclosures db')" "same_record r q"
    using assms(3) unfolding rows_kept_def by blast
  have "inj_on d_id (set (disclosures db'))" using k(1) by (simp add: tables_typed_def distinct_map)
  moreover have "d_id q = d_id r'" using q(2) assms(5) by (simp add: same_record_def)
  ultimately have "q = r'" using q(1) assms(4) by (rule inj_onD)
  then show ?thesis using q(2) by simp
qed

lemma refuse_document_agrees:
  "refuse_if_document_disagrees (Some doc) f = Inr () \<Longrightarrow> document_ok doc \<Longrightarrow> agrees doc f"
  by (auto simp: refuse_if_document_disagrees_def agrees_def Let_def split: if_splits)

lemma repair_agrees:
  assumes "repair_missing_document row doc = Inr (Some u)" "\<And>d. doc = Some d \<Longrightarrow> document_ok d"
  shows "\<exists>d. doc = Some d \<and> fst u = Stored d \<and> agrees d (d_figures row)"
  using assms refuse_document_agrees
  by (auto simp: repair_missing_document_def bind_result_Inr_iff split: option.splits if_splits)

lemma replay_path:
  assumes w: "sessions_ok sha w" and ok: "tables_typed sha db" and r: "existing \<in> set (disclosures db)"
    and doc: "\<And>d. doc = Some d \<Longrightarrow> document_ok d"
  shows "disc_path sha db (snd (replay w off existing doc db))"
proof (cases "repair_missing_document existing doc")
  case (Inl e)
  then show ?thesis by (simp add: replay_def)
next
  case (Inr repaired)
  let ?edge = "if closes_edge off (Some (d_decision_event_id existing))
               then Some (o_id off, d_decision_event_id existing) else None"
  let ?c = "commit_replay (d_id existing) repaired ?edge (w 2 db)"
  have p: "disc_path sha db (w 2 db)" using w by (rule sessions_okD)
  have "disc_step sha (w 2 db) (snd ?c)"
  proof (rule step_replay)
    fix u assume "repaired = Some u"
    then obtain d where d: "fst u = Stored d" "agrees d (d_figures existing)"
      using repair_agrees Inr doc by blast
    have "agrees d (d_figures r)" if "r \<in> set (disclosures (w 2 db))" "d_id r = d_id existing" for r
      using figures_persist [OF p ok \<open>existing \<in> _\<close> that] d(2) by (simp add: same_record_def)
    then show "\<exists>doc. fst u = Stored doc \<and>
        (\<forall>r \<in> set (disclosures (w 2 db)). d_id r = d_id existing \<longrightarrow> agrees doc (d_figures r))"
      using d(1) by blast
  qed
  then have c: "disc_path sha db (snd ?c)" by (rule path_then_step [OF p])
  obtain okay db1 where e: "?c = (okay, db1)" by (cases ?c)
  have "disc_path sha db db1" "disc_path sha db (w 3 db1)" using c path_others [OF w c] unfolding e by simp_all
  then show ?thesis using Inr e by (simp add: replay_def Let_def split: bool.split)
qed

lemma replay_winner_path:
  assumes w: "sessions_ok sha w"
  shows "disc_path sha db (snd (replay_winner w i db))"
proof -
  have p4: "disc_path sha db (w 4 db)" using w by (rule sessions_okD)
  have "disc_path sha db (w 6 (set_edge i e (w 5 (w 4 db))))" for e
    by (intro path_others [OF w] path_then_step [OF _ step_edge] p4)
  then show ?thesis using p4 by (simp add: replay_winner_def Let_def split: option.split)
qed

lemma new_disclosure_fresh:
  assumes "new_disclosure sha sched b snap f = Inr row"
    and "refuse_if_document_disagrees (in_document b) f = Inr ()" "disclosure_in_ok b"
  shows "fresh_row sha row \<and> d_figures row = f \<and> d_snapshot row = snap \<and>
    d_offer_id row = in_offer_id b \<and> d_decision_event_id row = in_decision_event_id b \<and>
    d_document row = map_option Stored (in_document b)"
proof -
  obtain fp where fp: "compute_fingerprint sha (snapshot_payload snap) (version sched) apr_method_version
                    (outputs_payload f) = Inr fp"
    and row: "row = \<lparr>d_id = 0, d_offer_id = in_offer_id b, d_decision_event_id = in_decision_event_id b,
            d_status = ''draft'', d_figures = f, d_snapshot = snap,
            d_fee_schedule_version = version sched, d_apr_method_version = apr_method_version,
            d_fingerprint = fp, d_document = map_option Stored (in_document b),
            d_delivered_at = None\<rparr>"
    using assms(1) by (auto simp: new_disclosure_def bind_result_Inr_iff)
  have "agrees d f" if "in_document b = Some d" for d
    using assms(2,3) that refuse_document_agrees by (auto simp: disclosure_in_ok_def)
  then show ?thesis using fp
    by (cases "in_document b") (simp_all add: row fresh_row_def fingerprint_ok_def document_agrees_def)
qed

lemma derive_rowE:
  assumes "derive_row sha rules off b = Inr row"
  obtains sched computed snap f where "rules = Inr sched" "compute_figures rules b = Inr computed"
    "refuse_if_offer_disagrees off computed = Inr ()" "snapshot_of sched b = Some snap"
    "outputs_of computed = Some f" "refuse_if_document_disagrees (in_document b) f = Inr ()"
    "new_disclosure sha sched b snap f = Inr row"
  using assms unfolding derive_row_def
  by (auto simp: internal_error_def bind_result_Inr_iff split: sum.splits option.splits)

lemma derive_row_fresh:
  assumes "derive_row sha rules off b = Inr row" "disclosure_in_ok b"
  shows "fresh_row sha row"
  using derive_rowE [OF assms(1)] new_disclosure_fresh assms(2) by metis

lemma create_fresh_path:
  assumes w: "sessions_ok sha w" and b: "disclosure_in_ok b"
  shows "disc_path sha db (snd (create_fresh sha rules w off b db))"
proof -
  have p2: "disc_path sha db (w 2 db)" using w by (rule sessions_okD)
  then have p3: "disc_path sha db (w 3 (w 2 db))" by (rule path_others [OF w])
  show ?thesis
  proof (cases "bind_result (refuse_if_decision_event_invalid (w 2 db) (in_decision_event_id b) off)
                (\<lambda>_. derive_row sha rules off b)")
    case (Inl e)
    then show ?thesis using p2 by (simp add: create_fresh_def Let_def)
  next
    case (Inr row)
    then have "fresh_row sha row" using derive_row_fresh b by (auto simp: bind_result_Inr_iff)
    let ?i = "insert_disclosure row (closes_edge off (Some (in_decision_event_id b))) (w 3 (w 2 db))"
    have p: "disc_path sha db (snd ?i)" using \<open>fresh_row sha row\<close> by (intro path_then_step [OF p3] step_insert)
    obtain okay db3 where e: "?i = (okay, db3)" by (cases ?i)
    have "disc_path sha db db3" using p by (simp add: e)
    then have "disc_path sha db (w 6 db3)" "disc_path sha db (snd (replay_winner w (in_offer_id b) db3))"
      using path_others [OF w] path_trans replay_winner_path [OF w] by blast+
    then show ?thesis using Inr e by (simp add: create_fresh_def Let_def split: bool.split)
  qed
qed

lemma create_disclosure_path:
  assumes w: "sessions_ok sha w" and ok: "tables_typed sha db"
  shows "disc_path sha db (snd (create_disclosure sha rules token w b hdr db))"
proof (cases "disclosure_in_ok b \<and> disc_require_internal_caller token hdr = Inr ()")
  case True
  let ?d1 = "w 1 (w 0 db)"
  have p0: "disc_path sha db (w 0 db)" using w by (rule sessions_okD)
  then have p1: "disc_path sha db ?d1" by (rule path_others [OF w])
  have ok1: "tables_typed sha ?d1" by (rule typed_others [OF w typed_others [OF w ok]])
  have doc: "in_document b = Some d \<Longrightarrow> document_ok d" for d using True by (simp add: disclosure_in_ok_def)
  have r: "disc_path sha db (snd (replay w off existing (in_document b) ?d1))"
    if "disclosure_by_offer ?d1 (in_offer_id b) = Some existing" for off existing
    using path_trans [OF p1 replay_path [OF w ok1 _ doc]] disclosure_by_offerD [OF that] by blast
  have "disc_path sha db (snd (create_fresh sha rules w off b ?d1))" for off
    using path_trans [OF p1 create_fresh_path [OF w]] True by blast
  then show ?thesis using True p0 r
    by (simp add: create_disclosure_def Let_def split: option.split)
qed (auto simp: create_disclosure_def split: sum.split)

lemma delivery_guards_path:
  assumes w: "sessions_ok sha w"
  shows "disc_path sha db (snd (delivery_guards w row db))"
proof -
  have "disc_path sha db (w 1 db)" using w by (rule sessions_okD)
  moreover from this have "disc_path sha db (w 2 (w 1 db))" by (rule path_others [OF w])
  ultimately show ?thesis by (simp add: delivery_guards_def Let_def split: sum.split)
qed

text \<open>What ran when a transition got as far as its UPDATE.\<close>

lemma transition_cases:
  obtains (refused) e where "transition_disclosure token w did target reason hdr db = (Inl e, db)"
  | (early) e where "transition_disclosure token w did target reason hdr db = (Inl e, w 0 db)"
  | (guarded) e row where "transition_disclosure token w did target reason hdr db =
        (Inl e, snd (delivery_guards w row (w 0 db)))"
  | (updated) row db1 routed_to where "disclosure_by_id (w 0 db) did = Some row" "legal (d_status row) target"
      "reject_route target reason = Inr routed_to"
      "(if target = ''delivered'' then delivery_guards w row (w 0 db) else (Inr (), w 0 db)) = (Inr (), db1)"
      "transition_disclosure token w did target reason hdr db =
        (case advance did (d_status row) target (w 3 db1) of
           (False, db2) \<Rightarrow> (raise_http 409 ''disclosure changed status concurrently; re-read it'', db2)
         | (True, db2) \<Rightarrow> (bind_result (read_back did (w 4 db2))
              (\<lambda>out. Inr \<lparr>tr_disclosure = out, tr_routed_to = routed_to\<rparr>), w 4 db2))"
proof (cases "disc_require_internal_caller token hdr")
  case (Inl e)
  then show ?thesis by (intro refused [of e]) (simp add: transition_disclosure_def)
next
  case gate: (Inr u)
  show ?thesis
  proof (cases "disclosure_by_id (w 0 db) did")
    case None
    then show ?thesis using gate
      by (intro early [of "HttpError 404 ''disclosure not found''"])
        (simp add: transition_disclosure_def raise_http_def Let_def)
  next
    case row: (Some row)
    show ?thesis
    proof (cases "legal (d_status row) target")
      case False
      then show ?thesis using gate row
        by (intro early [of "HttpError 409 (''illegal transition '' @ d_status row @ '' -> '' @ target)"])
          (simp add: transition_disclosure_def raise_http_def Let_def)
    next
      case legal: True
      show ?thesis
      proof (cases "reject_route target reason")
        case (Inl e)
        then show ?thesis using gate row legal
          by (intro early [of e]) (simp add: transition_disclosure_def Let_def)
      next
        case route: (Inr routed_to)
        let ?g = "if target = ''delivered'' then delivery_guards w row (w 0 db) else (Inr (), w 0 db)"
        obtain res db1 where g: "?g = (res, db1)" by (cases ?g)
        have t: "transition_disclosure token w did target reason hdr db =
          (case (res, db1) of (Inl e, db1) \<Rightarrow> (Inl e, db1)
           | (Inr _, db1) \<Rightarrow> (case advance did (d_status row) target (w 3 db1) of
           (False, db2) \<Rightarrow> (raise_http 409 ''disclosure changed status concurrently; re-read it'', db2)
         | (True, db2) \<Rightarrow> (bind_result (read_back did (w 4 db2))
              (\<lambda>out. Inr \<lparr>tr_disclosure = out, tr_routed_to = routed_to\<rparr>), w 4 db2)))"
          using gate row legal route
          by (simp only: g [symmetric] transition_disclosure_def Let_def sum.case option.case not_True_eq_False if_False)
        show ?thesis
        proof (cases res)
          case (Inl e)
          then show ?thesis using t g by (intro guarded [of e row]) (auto split: if_splits)
        next
          case (Inr u)
          then show ?thesis using t g row legal route by (intro updated [of row routed_to db1]) simp_all
        qed
      qed
    qed
  qed
qed

lemma transition_path:
  assumes w: "sessions_ok sha w"
  shows "disc_path sha db (snd (transition_disclosure token w did target reason hdr db))"
proof -
  have p0: "disc_path sha db (w 0 db)" using w by (rule sessions_okD)
  have g: "disc_path sha db (snd (delivery_guards w row (w 0 db)))" for row
    using path_trans [OF p0 delivery_guards_path [OF w]] .
  show ?thesis
  proof (cases rule: transition_cases [of token w did target reason hdr db])
    case (updated row db1 routed_to)
    have "disc_path sha db db1"
      using updated(4) g [of row] p0 by (metis snd_conv)
    then have a: "disc_path sha db (snd (advance did (d_status row) target (w 3 db1)))"
      using path_then_step [OF path_others [OF w] step_advance [OF updated(2)]] by blast
    obtain okay db2 where e: "advance did (d_status row) target (w 3 db1) = (okay, db2)"
      by (cases "advance did (d_status row) target (w 3 db1)")
    show ?thesis using a path_others [OF w a, of 4] unfolding updated(5) e by (simp split: bool.split)
  qed (use p0 g in simp_all)
qed

end
