(* ===== verification/DisclosureProps.thy ===== *)
theory DisclosureProps
  imports DisclosureSteps
begin

text \<open>
  What the disclosure routes promise: typed tables and frozen deliveries under any interleaving,
  the conditions of a delivery, replays that never recompute, the disclosability of every offer
  the service priced itself, and the race in which a late repair replaces a reviewed document.
\<close>

section \<open>A complete chain\<close>

text \<open>The chain is whole: offer and record cite the same, approving decision of a real applicant.\<close>

definition chain_whole :: "disc_db \<Rightarrow> disclosure_row \<Rightarrow> bool" where
  "chain_whole db d \<longleftrightarrow>
     (\<exists>off ev a p. offer_by_id db (d_offer_id d) = Some off \<and>
        o_decision_event_id off = Some (d_decision_event_id d) \<and>
        event_by_id db (d_decision_event_id d) = Some ev \<and>
        (\<forall>oc. e_outcome ev = Some oc \<longrightarrow> lower oc = ''approve'') \<and>
        o_app_id off = Some a \<and> find (\<lambda>x. fst x = a) (applications db) = Some (a, Some p))"

lemma event_by_id_id: "event_by_id db i = Some ev \<Longrightarrow> e_id ev = i"
  by (auto simp: event_by_id_def find_Some_iff)

lemma find_fst: "find (\<lambda>x. fst x = a) xs = Some y \<Longrightarrow> fst y = a"
  by (auto simp: find_Some_iff)

lemma complete_chain_whole:
  assumes v: "provenance_by_disclosure db did = Some v" and c: "incomplete_edges v = []"
    and d: "disclosure_by_id db did = Some d"
  shows "chain_whole db d"
proof -
  obtain off where off: "offer_by_id db (d_offer_id d) = Some off" and ve: "v = view_row db off (Some d)"
    using v d by (auto simp: provenance_by_disclosure_def bind_option_def)
  have present: "pv_decision_event_id v \<noteq> None" "pv_application_id v \<noteq> None" "pv_applicant_id v \<noteq> None"
    and same: "\<And>x y. pv_decision_event_id v = Some x \<Longrightarrow> pv_disclosure_decision_event_id v = Some y \<Longrightarrow> x = y"
    and approved: "\<And>oc. pv_disclosure_decision_outcome v = Some oc \<Longrightarrow> lower oc = ''approve''"
    using c by (auto simp: incomplete_edges_def chain_edges_def split: if_splits option.splits)
  obtain e ev where ev: "o_decision_event_id off = Some e" "event_by_id db e = Some ev"
    using present(1) by (auto simp: ve view_row_def Let_def bind_option_def split: option.splits)
  then have "e_id ev = d_decision_event_id d" using same
    by (simp add: ve view_row_def Let_def bind_option_def)
  then have e: "e = d_decision_event_id d" using event_by_id_id [OF ev(2)] by simp
  obtain a x where x: "o_app_id off = Some a" "find (\<lambda>x. fst x = a) (applications db) = Some x" "snd x \<noteq> None"
    using present(2,3) by (auto simp: ve view_row_def Let_def bind_option_def split: option.splits)
  then obtain p where "x = (a, Some p)" using find_fst by (cases x) fastforce
  moreover have "\<forall>oc. e_outcome ev = Some oc \<longrightarrow> lower oc = ''approve''"
    using approved ev e by (simp add: ve view_row_def Let_def bind_option_def)
  ultimately show ?thesis using off ev e x unfolding chain_whole_def by blast
qed

section \<open>Deliveries\<close>

lemma chain_guard:
  assumes "refuse_if_chain_incomplete db did = Inr ()"
  shows "\<exists>v. provenance_by_disclosure db did = Some v \<and> incomplete_edges v = []"
  using assms by (auto simp: refuse_if_chain_incomplete_def Let_def chain_edges_def split: if_splits option.splits)

lemma document_guard:
  assumes "refuse_if_delivered_document_disagrees row = Inr ()"
  shows "\<exists>doc. d_document row = Some (Stored doc) \<and> agrees doc (d_figures row)"
  using assms refuse_document_agrees
  by (auto simp: refuse_if_delivered_document_disagrees_def bind_option_def model_validate_def
      split: option.splits stored_document.splits if_splits)

lemma delivery_guards_Inr:
  assumes "delivery_guards w row db = (Inr (), db1)"
  shows "db1 = w 2 (w 1 db) \<and> (\<exists>doc. d_document row = Some (Stored doc) \<and> agrees doc (d_figures row)) \<and>
    (\<exists>v. provenance_by_disclosure (w 1 db) (d_id row) = Some v \<and> incomplete_edges v = []) \<and>
    \<not> consummated (w 2 (w 1 db)) (d_offer_id row)"
proof -
  have n: "refuse_if_delivered_document_disagrees row = Inr ()"
    and c: "refuse_if_chain_incomplete (w 1 db) (d_id row) = Inr ()"
    and t: "refuse_if_already_consummated (w 2 (w 1 db)) (d_offer_id row) = Inr ()" and d: "db1 = w 2 (w 1 db)"
    using assms by (auto simp: delivery_guards_def Let_def bind_result_def split: sum.splits)
  then show ?thesis using document_guard [OF n] chain_guard [OF c]
    by (simp add: refuse_if_already_consummated_def split: if_splits)
qed

lemma delivered_out:
  assumes "transition_disclosure token w did ''delivered'' reason hdr db = (Inr out, db')"
  shows "\<exists>row. disclosure_by_id (w 0 db) did = Some row \<and> d_status row = ''approved'' \<and>
    (\<exists>doc. d_document row = Some (Stored doc) \<and> agrees doc (d_figures row)) \<and>
    (\<exists>v. provenance_by_disclosure (w 1 (w 0 db)) did = Some v \<and> incomplete_edges v = []) \<and>
    \<not> consummated (w 2 (w 1 (w 0 db))) (d_offer_id row) \<and>
    (\<exists>r \<in> set (disclosures (w 3 (w 2 (w 1 (w 0 db))))). d_id r = did \<and> d_status r = ''approved'') \<and>
    db' = w 4 (snd (advance did ''approved'' ''delivered'' (w 3 (w 2 (w 1 (w 0 db))))))"
proof (cases rule: transition_cases [of token w did "''delivered''" reason hdr db])
  case (updated row db1 routed_to)
  have s: "d_status row = ''approved''" using legal_cases [OF updated(2)] by simp
  have g: "delivery_guards w row (w 0 db) = (Inr (), db1)" using updated(4) by simp
  have i: "d_id row = did" using disclosure_by_idD updated(1) by blast
  obtain okay db2 where e: "advance did (d_status row) ''delivered'' (w 3 db1) = (okay, db2)"
    by (cases "advance did (d_status row) ''delivered'' (w 3 db1)")
  have ok: "okay" "db' = w 4 db2" using assms updated(5) e by (cases okay; simp)+
  then show ?thesis using delivery_guards_Inr [OF g] updated(1) s i e
    by (auto simp: advance_def)
qed (use assms in simp_all)

section \<open>Replays\<close>

lemma read_backE:
  assumes "read_back did db = Inr out"
  obtains r where "r \<in> set (disclosures db)" "d_id r = did" "out = disclosure_out_of r"
  using assms disclosure_by_idD by (auto simp: read_back_def internal_error_def split: option.splits)

text \<open>The answer carries the record of a stored row.\<close>

definition answers :: "disclosure_out \<Rightarrow> disclosure_row \<Rightarrow> bool" where
  "answers out r \<longleftrightarrow> out_id out = d_id r \<and> out_offer_id out = d_offer_id r \<and>
     out_decision_event_id out = d_decision_event_id r \<and> out_figures out = d_figures r \<and>
     out_fee_schedule_version out = d_fee_schedule_version r \<and>
     out_apr_method_version out = d_apr_method_version r \<and> out_fingerprint out = d_fingerprint r"

lemma answers_same: "same_record r q \<Longrightarrow> answers (disclosure_out_of q) r"
  by (simp add: answers_def same_record_def disclosure_out_of_def)

lemma replay_answers:
  assumes w: "sessions_ok sha w" and ok: "tables_typed sha db" and r: "existing \<in> set (disclosures db)"
    and doc: "\<And>d. doc = Some d \<Longrightarrow> document_ok d"
    and out: "replay w off existing doc db = (Inr out, db')"
  shows "answers out existing"
proof -
  have p: "disc_path sha db db'" using replay_path [where off = off and doc = doc, OF w ok r doc] out by simp
  obtain repaired where "repair_missing_document existing doc = Inr repaired"
    using out by (cases "repair_missing_document existing doc") (simp_all add: replay_def)
  then consider "out = disclosure_out_of existing" | "read_back (d_id existing) db' = Inr out"
    using out by (auto simp: replay_def Let_def internal_error_def split: if_splits prod.splits bool.splits)
  then show ?thesis
  proof cases
    case 2
    then obtain q where "q \<in> set (disclosures db')" "d_id q = d_id existing" "out = disclosure_out_of q"
      by (rule read_backE)
    then show ?thesis using answers_same figures_persist [OF p ok r] by blast
  qed (simp add: answers_same)
qed

lemma kept_offer_row:
  assumes p: "disc_path sha db db'" and ok: "tables_typed sha db" and r: "r \<in> set (disclosures db)"
    and q: "q \<in> set (disclosures db')" "d_offer_id q = d_offer_id r"
  shows "same_record r q"
proof -
  have k: "tables_typed sha db'" "rows_kept db db'" using kept.path [OF p ok] by blast+
  then obtain s where s: "s \<in> set (disclosures db')" "same_record r s"
    using r unfolding rows_kept_def by blast
  have "inj_on d_offer_id (set (disclosures db'))" using k(1) by (simp add: tables_typed_def distinct_map)
  moreover have "d_offer_id s = d_offer_id q" using s(2) q(2) by (simp add: same_record_def)
  ultimately have "s = q" using s(1) q(1) by (rule inj_onD)
  then show ?thesis using s(2) by simp
qed

lemma offer_still_disclosed:
  assumes p: "disc_path sha db db'" and ok: "tables_typed sha db" and r: "r \<in> set (disclosures db)"
  obtains q where "disclosure_by_offer db' (d_offer_id r) = Some q" "same_record r q"
proof -
  obtain s where s: "s \<in> set (disclosures db')" "same_record r s"
    using kept.path [OF p ok] r unfolding rows_kept_def by blast
  then have "disclosure_by_offer db' (d_offer_id r) \<noteq> None"
    by (auto simp: disclosure_by_offer_def find_None_iff same_record_def)
  then obtain q where q: "disclosure_by_offer db' (d_offer_id r) = Some q" by blast
  then show thesis using that kept_offer_row [OF p ok r] disclosure_by_offerD [OF q] by blast
qed

lemma create_on_disclosed_offer:
  assumes w: "sessions_ok sha w" and ok: "tables_typed sha db" and r: "r \<in> set (disclosures db)"
    and b: "d_offer_id r = in_offer_id b"
    and out: "create_disclosure sha' rules token w b hdr db = (Inr out, db')"
  shows "answers out r"
proof -
  have doc: "in_document b = Some d \<Longrightarrow> document_ok d" for d
    using out by (auto simp: create_disclosure_def disclosure_in_ok_def raise_http_def split: if_splits)
  let ?d1 = "w 1 (w 0 db)"
  have p: "disc_path sha db ?d1" using path_others [OF w sessions_okD [OF w]] .
  have ok1: "tables_typed sha ?d1" by (rule typed_others [OF w typed_others [OF w ok]])
  obtain q where q: "disclosure_by_offer ?d1 (in_offer_id b) = Some q" "same_record r q"
    using offer_still_disclosed [OF p ok r] b by metis
  obtain off where "replay w off q (in_document b) ?d1 = (Inr out, db')"
    using out q(1) by (auto simp: create_disclosure_def Let_def raise_http_def split: if_splits sum.splits option.splits)
  then have "answers out q" using replay_answers [OF w ok1 _ doc] disclosure_by_offerD [OF q(1)] by blast
  then show ?thesis using q(2) by (simp add: answers_def same_record_def)
qed

section \<open>A concrete pair of tables\<close>

definition sample_figures :: outputs where
  "sample_figures = \<lparr>out_apr = 9584, finance_charge_cents = 900, amount_financed_cents = 800,
     monthly_payment_cents = 500, total_of_payments_cents = 700\<rparr>"

definition sample_document :: "string \<Rightarrow> document" where
  "sample_document title = \<lparr>heading = title,
     figures = \<lparr>fig_apr = ''9.584'', fig_finance_charge = ''9.00'', fig_amount_financed = ''8.00'',
       fig_total_of_payments = ''7.00'', fig_monthly_payment = ''5.00''\<rparr>,
     payment_terms = ''monthly'', prepayment = ''none''\<rparr>"

definition sample_row :: "string \<Rightarrow> stored_document option \<Rightarrow> int option \<Rightarrow> disclosure_row" where
  "sample_row status doc at_time =
     \<lparr>d_id = 1, d_offer_id = 7, d_decision_event_id = 3, d_status = status, d_figures = sample_figures,
      d_snapshot = \<lparr>principal_cents = 100000, note_rate_pct = (799, -2), snap_term_months = 48, fee_pct = (3, -2)\<rparr>,
      d_fee_schedule_version = ''2024-11'', d_apr_method_version = apr_method_version,
      d_fingerprint = ''fp-1:digest'', d_document = doc, d_delivered_at = at_time\<rparr>"

definition sample_db :: "disclosure_row list \<Rightarrow> disc_db" where
  "sample_db rows =
     \<lparr>offers = [\<lparr>o_id = 7, o_app_id = Some 10, o_apr = Some 0, o_finance_charge = Some 0,
        o_monthly_payment = Some 0, o_amount_financed = Some 0, o_total_of_payments = Some 0,
        o_created_at = None, o_decision_event_id = Some 3\<rparr>],
      disclosures = rows,
      events = [\<lparr>e_id = 3, e_app_id = Some 10, e_outcome = Some ''approve'', e_policy_band = None,
        e_decided_at = None\<rparr>],
      applications = [(10, Some 100)], loan_apps = [], next_offer_id = 8, next_disclosure_id = 2, clock = 5\<rparr>"

abbreviation sample_sha :: "string \<Rightarrow> string" where
  "sample_sha \<equiv> \<lambda>_. ''digest''"

lemma sample_fingerprint: "fingerprint_ok sample_sha (sample_row s d t)"
  by (simp add: fingerprint_ok_def compute_fingerprint_def snapshot_payload_def outputs_payload_def
      sample_row_def fingerprint_version_def)

lemma sample_figures_ok [simp]: "figures_ok sample_figures"
  by (simp add: figures_ok_def sample_figures_def)

lemma dec28_whole: "\<bar>n\<bar> < 10 ^ 28 \<Longrightarrow> dec28 (of_int n) = of_int n"
  using dec28_exact [of n 0] by simp

lemma sample_document_agrees:
  assumes "prose_ok 120 title"
  shows "agrees (sample_document title) sample_figures"
proof -
  have p: "plain_decimal (strip ''9.584'') = Some (1198 / 125)" "plain_decimal (strip ''9.00'') = Some 9"
    "plain_decimal (strip ''8.00'') = Some 8" "plain_decimal (strip ''7.00'') = Some 7"
    "plain_decimal (strip ''5.00'') = Some 5"
    by code_simp+
  have q: "prose_ok 600 ''monthly''" "prose_ok 300 ''none''" by (simp_all add: prose_ok_def py_digit_def char_code_def)
  have d: "dec28 9 = 9" "dec28 8 = 8" "dec28 7 = 7" "dec28 5 = 5"
    using dec28_whole [of 9] dec28_whole [of 8] dec28_whole [of 7] dec28_whole [of 5] by simp_all
  show ?thesis using assms q
    by (simp add: agrees_def document_ok_def document_mismatches_def sample_document_def sample_figures_def
        parse_figure_def p d Let_def)
qed

lemma sample_typed:
  assumes "(s = ''delivered'') = (t \<noteq> None)" "s \<in> set statuses"
    "case d of None \<Rightarrow> True | Some b \<Rightarrow> \<exists>title. b = Stored (sample_document title) \<and> prose_ok 120 title"
  shows "tables_typed sample_sha (sample_db [sample_row s d t])"
proof -
  have "document_agrees (sample_row s d t)"
    using assms(3) sample_document_agrees
    by (auto simp: document_agrees_def sample_row_def split: option.splits)
  then show ?thesis using assms(1,2) sample_fingerprint
    by (simp add: tables_typed_def sample_db_def row_ok_def sample_row_def)
qed

section \<open>A repair that arrives during a review\<close>

abbreviation alone :: "nat \<Rightarrow> disc_db \<Rightarrow> disc_db" where
  "alone \<equiv> \<lambda>_ d. d"

definition on_row :: "int \<Rightarrow> (disclosure_row \<Rightarrow> disclosure_row) \<Rightarrow> disc_db \<Rightarrow> disc_db" where
  "on_row did f db = db\<lparr>disclosures := map (\<lambda>r. if d_id r = did then f r else r) (disclosures db)\<rparr>"

lemma on_row_by_id:
  "(\<And>r. d_id (f r) = d_id r) \<Longrightarrow>
   disclosure_by_id (on_row did f db) did = map_option f (disclosure_by_id db did)"
proof -
  assume f: "\<And>r. d_id (f r) = d_id r"
  have "disclosure_by_id (on_row did f db) did =
      map_option (\<lambda>r. if d_id r = did then f r else r) (disclosure_by_id db did)"
    unfolding disclosure_by_id_def on_row_def by (simp, intro find_map_upd) (simp add: f)
  then show ?thesis using disclosure_by_idD [of db did]
    by (cases "disclosure_by_id db did") auto
qed

lemma advance_on_row:
  assumes "tables_typed sha db" "disclosure_by_id db did = Some row" "target \<noteq> ''delivered''"
  shows "advance did (d_status row) target db = (True, on_row did (\<lambda>r. r\<lparr>d_status := target\<rparr>) db)"
proof -
  have r: "row \<in> set (disclosures db)" "d_id row = did" using disclosure_by_idD [OF assms(2)] by auto
  have "inj_on d_id (set (disclosures db))" using assms(1) by (simp add: tables_typed_def distinct_map)
  then have "x = row" if "x \<in> set (disclosures db)" "d_id x = did" for x
    using that r by (auto dest: inj_onD)
  then have "map (\<lambda>r. if d_id r = did \<and> d_status r = d_status row
           then r\<lparr>d_status := target,
                  d_delivered_at := (if target = ''delivered'' then Some (clock db) else d_delivered_at r)\<rparr>
           else r) (disclosures db)
      = map (\<lambda>r. if d_id r = did then r\<lparr>d_status := target\<rparr> else r) (disclosures db)"
    using assms(3) by (intro map_cong) auto
  then show ?thesis using r unfolding advance_def on_row_def by auto
qed

lemma transition_alone:
  assumes "tables_typed sha db" "disclosure_by_id db did = Some row" "legal (d_status row) target"
    "target \<notin> {''draft'', ''delivered''}" "token \<noteq> ''''"
  shows "snd (transition_disclosure token alone did target reason (Some token) db)
    = on_row did (\<lambda>r. r\<lparr>d_status := target\<rparr>) db"
proof -
  have "disc_require_internal_caller token (Some token) = Inr ()" using assms(5) by (rule disclosure_guard.match)
  then show ?thesis using assms advance_on_row [OF assms(1,2), of target]
    by (simp add: transition_disclosure_def reject_route_def Let_def)
qed

lemma create_backfills:
  assumes b: "disclosure_in_ok b" "token \<noteq> ''''" and d: "in_document b = Some doc" "agrees doc (d_figures row)"
    and off: "offer_by_id (w 0 db) (in_offer_id b) = Some off" "o_decision_event_id off \<noteq> None"
    and row: "disclosure_by_offer (w 1 (w 0 db)) (in_offer_id b) = Some row" "d_document row = None" "d_status row = ''draft''"
    and later: "disclosure_by_id (w 2 (w 1 (w 0 db))) (d_id row) = Some r2" "d_status r2 \<noteq> ''delivered''"
    and quiet: "w 3 = (\<lambda>d. d)"
  shows "create_disclosure sha rules token w b (Some token) db =
    (Inr (disclosure_out_of (r2\<lparr>d_document := Some (Stored doc)\<rparr>)),
     on_row (d_id row) (\<lambda>r. r\<lparr>d_document := Some (Stored doc)\<rparr>) (w 2 (w 1 (w 0 db))))"
proof -
  let ?db2 = "w 2 (w 1 (w 0 db))"
  let ?f = "\<lambda>r. r\<lparr>d_document := Some (Stored doc)\<rparr>"
  have gate: "disc_require_internal_caller token (Some token) = Inr ()" using b(2) by (rule disclosure_guard.match)
  have rep: "repair_missing_document row (Some doc) = Inr (Some (Stored doc, False))"
    using d(2) row(2,3) by (simp add: repair_missing_document_def refuse_if_document_disagrees_def agrees_def)
  have edge: "\<not> closes_edge off e" for e using off(2) by (simp add: closes_edge_def)
  have "r2 \<in> set (disclosures ?db2)" "d_id r2 = d_id row" using disclosure_by_idD [OF later(1)] by auto
  then have c: "commit_replay (d_id row) (Some (Stored doc, False)) None ?db2 = (True, on_row (d_id row) ?f ?db2)"
    using later(2) by (auto simp: commit_replay_def repaired_row_def on_row_def)
  have "disclosure_by_id (on_row (d_id row) ?f ?db2) (d_id row) = Some (?f r2)"
    using later(1) by (subst on_row_by_id) simp_all
  then have "replay w off row (in_document b) (w 1 (w 0 db)) =
      (Inr (disclosure_out_of (?f r2)), on_row (d_id row) ?f ?db2)"
    using c quiet later(1) by (simp add: replay_def rep d(1) edge read_back_def)
  then show ?thesis using b(1) gate off(1) row(1) by (simp add: create_disclosure_def)
qed

text \<open>Another caller records a document and two officers review and approve it.\<close>

definition recorded_and_approved ::
  "(string \<Rightarrow> string) \<Rightarrow> rules_error + fee_schedule \<Rightarrow> string \<Rightarrow> disclosure_in \<Rightarrow> int \<Rightarrow> disc_db \<Rightarrow> disc_db" where
  "recorded_and_approved sha rules token b did db =
     snd (transition_disclosure token alone did ''approved'' None (Some token)
       (snd (transition_disclosure token alone did ''in_review'' None (Some token)
         (snd (create_disclosure sha rules token alone b (Some token) db)))))"

lemma on_row_disclosures: "disclosures (on_row did f db) = map (\<lambda>r. if d_id r = did then f r else r) (disclosures db)"
  by (simp add: on_row_def)

lemma recorded_and_approved_row:
  assumes ok: "tables_typed sha db" and b: "disclosure_in_ok b" "token \<noteq> ''''"
    and d: "in_document b = Some doc" "agrees doc (d_figures row)"
    and off: "offer_by_id db (in_offer_id b) = Some off" "o_decision_event_id off \<noteq> None"
    and row: "disclosure_by_offer db (in_offer_id b) = Some row" "d_document row = None" "d_status row = ''draft''"
  shows "disclosure_by_id (recorded_and_approved sha rules token b (d_id row) db) (d_id row) =
    Some (row\<lparr>d_document := Some (Stored doc), d_status := ''approved''\<rparr>)"
proof -
  let ?i = "d_id row"
  have "row \<in> set (disclosures db)" using disclosure_by_offerD [OF row(1)] by blast
  then have "disclosure_by_id db ?i \<noteq> None" by (auto simp: disclosure_by_id_def find_None_iff)
  then obtain q where q: "disclosure_by_id db ?i = Some q" by blast
  have "q = row" using disclosure_by_idD [OF q] \<open>row \<in> _\<close> ok
    by (auto simp: tables_typed_def distinct_map dest: inj_onD)
  then have later: "disclosure_by_id db ?i = Some row" "d_status row \<noteq> ''delivered''" using q row(3) by simp_all
  let ?c = "create_disclosure sha rules token alone b (Some token) db"
  have c: "snd ?c = on_row ?i (\<lambda>r. r\<lparr>d_document := Some (Stored doc)\<rparr>) db"
    by (subst create_backfills [of b token doc row alone db off row]) (use b d off row later in simp_all)
  have typed_c: "tables_typed sha (snd ?c)"
    using kept.path [OF create_disclosure_path [OF sessions_ok_idle ok] ok] by blast
  have r1: "disclosure_by_id (snd ?c) ?i = Some (row\<lparr>d_document := Some (Stored doc)\<rparr>)"
    unfolding c by (subst on_row_by_id) (simp_all add: later(1))
  let ?t = "snd (transition_disclosure token alone ?i ''in_review'' None (Some token) (snd ?c))"
  have t: "?t = on_row ?i (\<lambda>r. r\<lparr>d_status := ''in_review''\<rparr>) (snd ?c)"
    by (rule transition_alone [OF typed_c r1 _ _ b(2)])
      (simp_all add: row(3) legal_def legal_transitions_def)
  have typed_t: "tables_typed sha ?t"
    using kept.path [OF transition_path [OF sessions_ok_idle] typed_c] by blast
  have r2: "disclosure_by_id ?t ?i = Some (row\<lparr>d_document := Some (Stored doc), d_status := ''in_review''\<rparr>)"
    unfolding t by (subst on_row_by_id) (simp_all add: r1)
  have u: "recorded_and_approved sha rules token b ?i db = on_row ?i (\<lambda>r. r\<lparr>d_status := ''approved''\<rparr>) ?t"
    unfolding recorded_and_approved_def
    by (rule transition_alone [OF typed_t r2 _ _ b(2)]) (simp_all add: legal_def legal_transitions_def)
  show ?thesis unfolding u by (subst on_row_by_id) (simp_all add: r2)
qed

section \<open>Properties\<close>

text \<open>C11. Whatever other sessions do between their statements, creating a disclosure and moving
  one through its lifecycle keep the tables well typed: unique ids and one record per offer,
  statuses of the vocabulary, a delivery time exactly on delivered rows, amounts in their
  ranges, every fingerprint recomputable from its own row, and every stored document
  well formed and in agreement with the figures beside it.\<close>

theorem handlers_keep_tables_typed:
  assumes "sessions_ok sha w" "tables_typed sha db"
  shows "tables_typed sha (snd (create_disclosure sha rules token w b hdr db)) \<and>
    tables_typed sha (snd (transition_disclosure token w did target reason hdr db))"
  using kept.path [OF create_disclosure_path [OF assms] assms(2)]
    kept.path [OF transition_path [OF assms(1)] assms(2)] by blast

theorem handlers_keep_tables_typed_witness:
  "tables_typed sample_sha (snd (transition_disclosure ''s'' alone 1 ''in_review'' None (Some ''s'')
     (sample_db [sample_row ''draft'' None None])))"
  by (rule handlers_keep_tables_typed [OF sessions_ok_idle sample_typed, THEN conjunct2])
    (simp_all add: statuses_def)

text \<open>C12. No record is ever rewritten. After any creation or transition, with any sessions in
  between, every disclosure of before still has its ids, figures, inputs, versions and
  fingerprint, and a delivered one is unchanged in every column, its document included.\<close>

theorem records_are_immutable:
  assumes "sessions_ok sha w" "tables_typed sha db" "r \<in> set (disclosures db)"
  shows "\<exists>c t. c \<in> set (disclosures (snd (create_disclosure sha rules token w b hdr db))) \<and>
    t \<in> set (disclosures (snd (transition_disclosure token w did target reason hdr db))) \<and>
    same_record r c \<and> same_record r t \<and> (d_status r = ''delivered'' \<longrightarrow> c = r \<and> t = r)"
proof -
  have "rows_kept db (snd (create_disclosure sha rules token w b hdr db))"
    "rows_kept db (snd (transition_disclosure token w did target reason hdr db))"
    using kept.path [OF create_disclosure_path [OF assms(1,2)] assms(2)]
      kept.path [OF transition_path [OF assms(1)] assms(2)] by blast+
  then show ?thesis using assms(3) unfolding rows_kept_def by blast
qed

theorem records_are_immutable_witness:
  "sample_row ''delivered'' None (Some 5) \<in> set (disclosures (snd (transition_disclosure ''s'' alone 1
     ''draft'' (Some ''wording'') (Some ''s'') (sample_db [sample_row ''delivered'' None (Some 5)]))))"
proof -
  have t: "tables_typed sample_sha (sample_db [sample_row ''delivered'' None (Some 5)])"
    by (rule sample_typed) (simp_all add: statuses_def)
  have r: "sample_row ''delivered'' None (Some 5) \<in> set (disclosures (sample_db [sample_row ''delivered'' None (Some 5)]))"
    "d_status (sample_row ''delivered'' None (Some 5)) = ''delivered''"
    by (simp_all add: sample_db_def sample_row_def)
  show ?thesis using records_are_immutable [OF sessions_ok_idle t r(1)] r(2) by blast
qed

text \<open>C13. A disclosure is delivered only after review and while it is whole. When a transition to
  delivered is answered, the row was approved when read and at the UPDATE, a well-formed
  document that agrees with its figures was stored, the offer and the record cited the same
  approving decision of an application with an applicant, and the loan was not boarded when that
  was checked.\<close>

theorem delivery_requires_review_and_chain:
  assumes "transition_disclosure token w did ''delivered'' reason hdr db = (Inr out, db')"
    and "disclosure_by_id (w 1 (w 0 db)) did = Some d"
  shows "\<exists>row. disclosure_by_id (w 0 db) did = Some row \<and> d_status row = ''approved'' \<and>
    (\<exists>doc. d_document row = Some (Stored doc) \<and> document_ok doc \<and> document_mismatches doc (d_figures row) = []) \<and>
    chain_whole (w 1 (w 0 db)) d \<and> \<not> consummated (w 2 (w 1 (w 0 db))) (d_offer_id row) \<and>
    (\<exists>r \<in> set (disclosures (w 3 (w 2 (w 1 (w 0 db))))). d_id r = did \<and> d_status r = ''approved'')"
proof -
  obtain row v where row: "disclosure_by_id (w 0 db) did = Some row" "d_status row = ''approved''"
    "\<exists>doc. d_document row = Some (Stored doc) \<and> agrees doc (d_figures row)"
    "\<not> consummated (w 2 (w 1 (w 0 db))) (d_offer_id row)"
    "\<exists>r \<in> set (disclosures (w 3 (w 2 (w 1 (w 0 db))))). d_id r = did \<and> d_status r = ''approved''"
    and v: "provenance_by_disclosure (w 1 (w 0 db)) did = Some v" "incomplete_edges v = []"
    using delivered_out [OF assms(1)] by blast
  then show ?thesis using complete_chain_whole [OF v assms(2)] unfolding agrees_def by blast
qed

lemma sample_delivery:
  "\<exists>out db'. transition_disclosure ''s'' alone 1 ''delivered'' None (Some ''s'')
     (sample_db [sample_row ''approved'' (Some (Stored (sample_document ''Notice''))) None]) = (Inr out, db')"
proof -
  let ?row = "sample_row ''approved'' (Some (Stored (sample_document ''Notice''))) None"
  let ?db = "sample_db [?row]"
  have gate: "disc_require_internal_caller ''s'' (Some ''s'') = Inr ()" by (rule disclosure_guard.match) simp
  have p: "prose_ok 120 ''Notice''" by code_simp
  have doc: "refuse_if_no_document ?row = Inr ()" "refuse_if_delivered_document_disagrees ?row = Inr ()"
    using sample_document_agrees [OF p]
    by (simp_all add: refuse_if_no_document_def refuse_if_delivered_document_disagrees_def agrees_def
        model_validate_def bind_option_def refuse_if_document_disagrees_def sample_row_def)
  have low: "lower ''approve'' = ''approve''" by code_simp
  have chain: "refuse_if_chain_incomplete ?db 1 = Inr ()"
    by (simp add: refuse_if_chain_incomplete_def provenance_by_disclosure_def disclosure_by_id_def
        offer_by_id_def event_by_id_def view_row_def incomplete_edges_def chain_edges_def bind_option_def
        sample_db_def sample_row_def low)
  have guards: "delivery_guards alone ?row ?db = (Inr (), ?db)"
  proof -
    have "refuse_if_already_consummated ?db (d_offer_id ?row) = Inr ()"
      by (simp add: refuse_if_already_consummated_def consummated_def sample_db_def)
    moreover have "d_id ?row = 1" by (simp add: sample_row_def)
    ultimately show ?thesis using doc chain by (simp add: delivery_guards_def)
  qed
  have adv: "\<exists>db'. advance 1 ''approved'' ''delivered'' ?db = (True, db') \<and> disclosure_by_id db' 1 \<noteq> None"
    by (simp add: advance_def sample_db_def sample_row_def disclosure_by_id_def)
  have row: "disclosure_by_id ?db 1 = Some ?row" "d_status ?row = ''approved''" "legal ''approved'' ''delivered''"
    by (simp_all add: disclosure_by_id_def sample_db_def sample_row_def legal_def legal_transitions_def)
  show ?thesis using gate guards adv row
    by (auto simp: transition_disclosure_def reject_route_def read_back_def)
qed

theorem delivery_requires_review_and_chain_witness:
  "chain_whole (sample_db [sample_row ''approved'' (Some (Stored (sample_document ''Notice''))) None])
     (sample_row ''approved'' (Some (Stored (sample_document ''Notice''))) None)"
proof -
  let ?row = "sample_row ''approved'' (Some (Stored (sample_document ''Notice''))) None"
  obtain out db' where t: "transition_disclosure ''s'' alone 1 ''delivered'' None (Some ''s'') (sample_db [?row])
      = (Inr out, db')" using sample_delivery by blast
  have "disclosure_by_id (sample_db [?row]) 1 = Some ?row"
    by (simp add: disclosure_by_id_def sample_db_def sample_row_def)
  then show ?thesis using delivery_requires_review_and_chain [OF t, of ?row] by blast
qed

text \<open>A retry is answered with the record that exists. Posting again for a disclosed offer,
  with any inputs, under any rules and any digest, and whatever other sessions do meanwhile,
  returns the ids, figures, versions and fingerprint of the first record, or an error.\<close>

theorem retry_returns_first_disclosure:
  assumes "sessions_ok sha w" "tables_typed sha db" "r \<in> set (disclosures db)"
    and "d_offer_id r = in_offer_id b"
    and "create_disclosure sha' rules token w b hdr db = (Inr out, db')"
  shows "out_id out = d_id r \<and> out_decision_event_id out = d_decision_event_id r \<and>
    out_figures out = d_figures r \<and> out_fee_schedule_version out = d_fee_schedule_version r \<and>
    out_fingerprint out = d_fingerprint r"
  using create_on_disclosed_offer [OF assms] by (simp add: answers_def)

definition sample_in :: "document option \<Rightarrow> disclosure_in" where
  "sample_in doc = \<lparr>in_offer_id = 7, in_decision_event_id = 3, in_principal = 20000, in_term_months = 36,
     in_annual_rate = 5, in_document = doc\<rparr>"

lemma sample_create:
  "\<exists>out. create_disclosure sha rules ''s'' alone (sample_in None) (Some ''s'') (sample_db [sample_row s d t])
     = (Inr out, sample_db [sample_row s d t])"
proof -
  have gate: "disc_require_internal_caller ''s'' (Some ''s'') = Inr ()" by (rule disclosure_guard.match) simp
  have "replay alone off (sample_row s d t) None (sample_db rows)
      = (Inr (disclosure_out_of (sample_row s d t)), sample_db rows)"
    if "o_decision_event_id off = Some 3" for off rows
    using that by (auto simp: replay_def repair_missing_document_def closes_edge_def split: option.splits)
  then show ?thesis using gate
    by (simp add: create_disclosure_def disclosure_in_ok_def sample_in_def offer_by_id_def
        disclosure_by_offer_def sample_db_def sample_row_def)
qed

theorem retry_returns_first_disclosure_witness:
  "\<exists>out db'. create_disclosure sample_sha (Inl Schedule_not_found) ''s'' alone (sample_in None) (Some ''s'')
     (sample_db [sample_row ''in_review'' None None]) = (Inr out, db') \<and> out_figures out = sample_figures"
proof -
  have t: "tables_typed sample_sha (sample_db [sample_row ''in_review'' None None])"
    by (rule sample_typed) (simp_all add: statuses_def)
  have r: "sample_row ''in_review'' None None \<in> set (disclosures (sample_db [sample_row ''in_review'' None None]))"
    "d_offer_id (sample_row ''in_review'' None None) = in_offer_id (sample_in None)"
    by (simp_all add: sample_db_def sample_row_def sample_in_def)
  obtain out db' where c: "create_disclosure sample_sha (Inl Schedule_not_found) ''s'' alone (sample_in None)
      (Some ''s'') (sample_db [sample_row ''in_review'' None None]) = (Inr out, db')"
    using sample_create by blast
  have "d_figures (sample_row ''in_review'' None None) = sample_figures" by (simp add: sample_row_def)
  then show ?thesis using retry_returns_first_disclosure [OF sessions_ok_idle t r c] c by metis
qed

text \<open>A late repair replaces a reviewed document. Two callers post a document for the same
  record that has none. The first reads the row as a draft and commits last; meanwhile the
  second records its document and the record is taken through review to approved. The first
  commit then stores its own document on the approved row and leaves it approved, so what can
  be delivered is a document nobody reviewed.\<close>

theorem late_repair_replaces_reviewed_document:
  assumes "tables_typed sha db" "token \<noteq> ''''" "disclosure_in_ok a" "disclosure_in_ok b"
    and "in_offer_id a = in_offer_id b"
    and "in_document a = Some doc_a" "agrees doc_a (d_figures row)"
    and "in_document b = Some doc_b" "agrees doc_b (d_figures row)"
    and "offer_by_id db (in_offer_id b) = Some off" "o_decision_event_id off \<noteq> None"
    and "disclosure_by_offer db (in_offer_id b) = Some row" "d_document row = None" "d_status row = ''draft''"
  shows "let meanwhile = recorded_and_approved sha rules token b (d_id row) in
    disclosure_by_id (meanwhile db) (d_id row) =
      Some (row\<lparr>d_document := Some (Stored doc_b), d_status := ''approved''\<rparr>) \<and>
    (\<exists>out db'. create_disclosure sha rules token (\<lambda>n d. if n = 2 then meanwhile d else d) a (Some token) db
        = (Inr out, db') \<and> out_status out = ''approved'' \<and>
      disclosure_by_id db' (d_id row) =
        Some (row\<lparr>d_document := Some (Stored doc_a), d_status := ''approved''\<rparr>))"
proof -
  let ?m = "recorded_and_approved sha rules token b (d_id row)"
  let ?w = "\<lambda>n d. if n = (2 :: nat) then ?m d else d"
  let ?r2 = "row\<lparr>d_document := Some (Stored doc_b), d_status := ''approved''\<rparr>"
  have m: "disclosure_by_id (?m db) (d_id row) = Some ?r2"
    by (rule recorded_and_approved_row [OF assms(1,4,2,8,9,10,11,12,13,14)])
  have c: "create_disclosure sha rules token ?w a (Some token) db =
    (Inr (disclosure_out_of (?r2\<lparr>d_document := Some (Stored doc_a)\<rparr>)),
     on_row (d_id row) (\<lambda>r. r\<lparr>d_document := Some (Stored doc_a)\<rparr>) (?m db))"
    using create_backfills [of a token doc_a row ?w db off ?r2] assms m by simp
  have "disclosure_by_id (on_row (d_id row) (\<lambda>r. r\<lparr>d_document := Some (Stored doc_a)\<rparr>) (?m db)) (d_id row)
      = Some (?r2\<lparr>d_document := Some (Stored doc_a)\<rparr>)"
    using m by (subst on_row_by_id) simp_all
  then show ?thesis using m c by (simp add: Let_def disclosure_out_of_def)
qed

theorem late_repair_replaces_reviewed_document_witness:
  "\<exists>w out db'. create_disclosure sample_sha (Inl Schedule_not_found) ''s'' w
      (sample_in (Some (sample_document ''First''))) (Some ''s'') (sample_db [sample_row ''draft'' None None])
      = (Inr out, db') \<and> out_status out = ''approved''"
proof -
  have t: "tables_typed sample_sha (sample_db [sample_row ''draft'' None None])"
    by (rule sample_typed) (simp_all add: statuses_def)
  have p: "prose_ok 120 ''First''" "prose_ok 120 ''Second''" by code_simp+
  have a: "agrees (sample_document ''First'') sample_figures" "agrees (sample_document ''Second'') sample_figures"
    using sample_document_agrees p by blast+
  then have ok: "disclosure_in_ok (sample_in (Some (sample_document ''First'')))"
    "disclosure_in_ok (sample_in (Some (sample_document ''Second'')))"
    by (simp_all add: disclosure_in_ok_def sample_in_def agrees_def)
  show ?thesis
    using late_repair_replaces_reviewed_document [OF t _ ok, of "''s''" "sample_document ''First''"
        "sample_row ''draft'' None None" "sample_document ''Second''" _ "Inl Schedule_not_found"] a
    by (simp add: sample_in_def sample_db_def sample_row_def offer_by_id_def disclosure_by_offer_def Let_def) blast
qed

end
