(* ===== verification/Offers.thy ===== *)
theory Offers
  imports DisclosureSteps
begin

text \<open>
  \<^verbatim>\<open>app/routers/offers.py\<close>: pricing an application into a persisted offer, idempotently per
  application, and reading it back. As in the disclosure handlers, other sessions run as \<open>w n\<close>
  before the \<open>n\<close>-th statement, and what no handler catches is a 500. \<open>today\<close> is the date the
  display schedule starts from.
\<close>

section \<open>Requests and answers\<close>

record offer_in =
  of_application_id :: int
  of_principal :: rat
  of_term_months :: int
  of_annual_rate :: rat
  of_decision_event_id :: "int option"

definition offer_in_ok :: "offer_in \<Rightarrow> bool" where
  "offer_in_ok b \<longleftrightarrow> 0 < of_principal b \<and> of_principal b \<le> 50000 \<and>
     12 \<le> of_term_months b \<and> of_term_months b \<le> 60 \<and>
     0 < of_annual_rate b \<and> of_annual_rate b \<le> 35"

record offer_response =
  rs_offer_id :: int
  rs_application_id :: int
  rs_box :: offer_box
  rs_schedule :: "schedule_row list"
  rs_decision_event_id :: "int option"

section \<open>Reading a persisted offer\<close>

text \<open>The truth test \<^verbatim>\<open>x or 0\<close> of a nullable float.\<close>

definition or_zero :: "rat option \<Rightarrow> rat" where
  "or_zero v = (case v of None \<Rightarrow> 0 | Some x \<Rightarrow> x)"

definition fallback_note_rate_pct :: rat where
  "fallback_note_rate_pct = fl (799 / 100)"

definition schedule_inputs ::
  "rules_error + fee_schedule \<Rightarrow> disc_db \<Rightarrow> int \<Rightarrow> rat \<Rightarrow> rules_error + rat \<times> rat" where
  "schedule_inputs rules db offer_id financed =
     (case disclosure_by_offer db offer_id of
        Some d \<Rightarrow> Inr (fl (of_int (principal_cents (d_snapshot d)) / 100), fl (dec_val (note_rate_pct (d_snapshot d))))
      | None \<Rightarrow>
          if financed = 0 then Inr (0, fallback_note_rate_pct)
          else bind_result rules (\<lambda>s.
            Inr (py_round2 (fl (financed / fl (1 - origination_fee_pct s))), fallback_note_rate_pct)))"

definition offer_response_from_persisted ::
  "rules_error + fee_schedule \<Rightarrow> ymd \<Rightarrow> offer_row \<Rightarrow> int \<Rightarrow> disc_db \<Rightarrow> offer_response response" where
  "offer_response_from_persisted rules today row application_id db =
     (let mp = or_zero (o_monthly_payment row); tp = or_zero (o_total_of_payments row);
          af = or_zero (o_amount_financed row);
          term = (if mp \<noteq> 0 then round_half_even (fl (tp / mp)) else 0)
      in case schedule_inputs rules db (o_id row) af of
           Inl e \<Rightarrow> internal_error
         | Inr (prin, rate) \<Rightarrow>
             (case (if term \<noteq> 0 then amortization (PFloat prin) (PFloat rate) term today else Inr []) of
                Inl e \<Rightarrow> internal_error
              | Inr rows \<Rightarrow>
                  Inr \<lparr>rs_offer_id = o_id row, rs_application_id = application_id,
                       rs_box = \<lparr>box_apr = or_zero (o_apr row),
                                 box_finance_charge = or_zero (o_finance_charge row),
                                 box_monthly_payment = mp, box_amount_financed = af,
                                 box_total_of_payments = tp\<rparr>,
                       rs_schedule = rows, rs_decision_event_id = o_decision_event_id row\<rparr>))"

section \<open>Creating an offer\<close>

definition require_decision_event_for_application :: "disc_db \<Rightarrow> int \<Rightarrow> int \<Rightarrow> unit response" where
  "require_decision_event_for_application db decision_event_id application_id =
     (case event_by_id db decision_event_id of
        None \<Rightarrow> raise_http 404 ''decision event not found''
      | Some ev \<Rightarrow>
          if e_app_id ev \<noteq> Some application_id
          then raise_http 409 ''decision_event_id does not belong to this application; refusing to persist''
          else Inr ())"

text \<open>\<^verbatim>\<open>SELECT ... FROM offers WHERE app_id = %s ORDER BY id LIMIT 1\<close>.\<close>

definition first_offer :: "disc_db \<Rightarrow> int \<Rightarrow> offer_row option" where
  "first_offer db application_id =
     (case filter (\<lambda>x. o_app_id x = Some application_id) (offers db) of
        [] \<Rightarrow> None | x # xs \<Rightarrow> Some (min_by o_id x xs))"

definition latest_offer :: "disc_db \<Rightarrow> int \<Rightarrow> offer_row option" where
  "latest_offer db application_id =
     (case filter (\<lambda>x. o_app_id x = Some application_id) (offers db) of
        [] \<Rightarrow> None | x # xs \<Rightarrow> Some (min_by (\<lambda>y. - o_id y) x xs))"

definition offer_row_of :: "offer_in \<Rightarrow> offer_box \<Rightarrow> disc_db \<Rightarrow> offer_row" where
  "offer_row_of b box db =
     \<lparr>o_id = next_offer_id db, o_app_id = Some (of_application_id b), o_apr = Some (box_apr box),
      o_finance_charge = Some (box_finance_charge box), o_monthly_payment = Some (box_monthly_payment box),
      o_amount_financed = Some (box_amount_financed box),
      o_total_of_payments = Some (box_total_of_payments box), o_created_at = Some (clock db),
      o_decision_event_id = of_decision_event_id b\<rparr>"

text \<open>The INSERT: \<^verbatim>\<open>uq_offers_app\<close> first, then the two foreign keys.\<close>

datatype insert_result = Inserted int | Unique_violation | Foreign_key_violation

definition insert_offer :: "offer_in \<Rightarrow> offer_box \<Rightarrow> disc_db \<Rightarrow> insert_result \<times> disc_db" where
  "insert_offer b box db =
     (let bump = db\<lparr>next_offer_id := next_offer_id db + 1\<rparr>
      in if first_offer db (of_application_id b) \<noteq> None then (Unique_violation, bump)
         else if of_application_id b \<notin> fst ` set (applications db) \<or>
                 (\<exists>e. of_decision_event_id b = Some e \<and> event_by_id db e = None)
         then (Foreign_key_violation, bump)
         else (Inserted (next_offer_id db), bump\<lparr>offers := offers db @ [offer_row_of b box db]\<rparr>))"

text \<open>From the first look on, when the application has no offer yet.\<close>

definition create_new_offer ::
  "rules_error + fee_schedule \<Rightarrow> ymd \<Rightarrow> (nat \<Rightarrow> disc_db \<Rightarrow> disc_db) \<Rightarrow> offer_in \<Rightarrow> disc_db \<Rightarrow>
   offer_response response \<times> disc_db" where
  "create_new_offer rules today w b db =
     (let db1 = (case of_decision_event_id b of None \<Rightarrow> db | Some _ \<Rightarrow> w 1 db);
          check = (case of_decision_event_id b of None \<Rightarrow> Inr ()
                   | Some e \<Rightarrow> require_decision_event_for_application db1 e (of_application_id b));
          prin = PFloat (of_principal b); annual = PFloat (of_annual_rate b); n = of_term_months b
      in case check of
           Inl e \<Rightarrow> (Inl e, db1)
         | Inr _ \<Rightarrow>
             (case (build_offer rules prin annual n, amortization prin annual n today) of
                (Inr box, Inr rows) \<Rightarrow>
                  (case insert_offer b box (w 2 db1) of
                     (Inserted i, db2) \<Rightarrow>
                       (Inr \<lparr>rs_offer_id = i, rs_application_id = of_application_id b, rs_box = box,
                             rs_schedule = rows, rs_decision_event_id = of_decision_event_id b\<rparr>, db2)
                   | (Unique_violation, db2) \<Rightarrow>
                       (let db3 = w 3 db2
                        in case first_offer db3 (of_application_id b) of
                             None \<Rightarrow> (raise_http 409 ''offer conflict without a retrievable offer'', db3)
                           | Some row \<Rightarrow>
                               (let db4 = w 4 db3
                                in (offer_response_from_persisted rules today row (of_application_id b) db4, db4)))
                   | (Foreign_key_violation, db2) \<Rightarrow> (internal_error, db2))
              | _ \<Rightarrow> (internal_error, db1)))"

definition create_offer ::
  "rules_error + fee_schedule \<Rightarrow> ymd \<Rightarrow> string \<Rightarrow> (nat \<Rightarrow> disc_db \<Rightarrow> disc_db) \<Rightarrow> offer_in \<Rightarrow>
   string option \<Rightarrow> disc_db \<Rightarrow> offer_response response \<times> disc_db" where
  "create_offer rules today token w b x_internal_service db =
     (if \<not> offer_in_ok b then (raise_http 422 ''validation error'', db)
      else case disc_require_internal_caller token x_internal_service of
        Inl e \<Rightarrow> (Inl e, db)
      | Inr _ \<Rightarrow>
          (let db0 = w 0 db
           in case first_offer db0 (of_application_id b) of
                Some row \<Rightarrow>
                  (let db4 = w 4 db0
                   in (offer_response_from_persisted rules today row (of_application_id b) db4, db4))
              | None \<Rightarrow> create_new_offer rules today w b db0))"

definition get_offer ::
  "rules_error + fee_schedule \<Rightarrow> ymd \<Rightarrow> string \<Rightarrow> int \<Rightarrow> string option \<Rightarrow> disc_db \<Rightarrow> offer_response response" where
  "get_offer rules today token application_id x_internal_service db =
     bind_result (disc_require_internal_caller token x_internal_service) (\<lambda>_.
       case latest_offer db application_id of
         None \<Rightarrow> raise_http 404 ''no offer for this application''
       | Some row \<Rightarrow> offer_response_from_persisted rules today row application_id db)"

section \<open>Lemmas\<close>

lemma insert_offer_step: "disc_step sha db (snd (insert_offer b box db))"
proof -
  have "\<exists>os n. snd (insert_offer b box db) = db\<lparr>offers := offers db @ os, next_offer_id := n\<rparr>"
  proof (cases "fst (insert_offer b box db)")
    case (Inserted i)
    then show ?thesis
      by (intro exI [of _ "[offer_row_of b box db]"] exI [of _ "next_offer_id db + 1"])
        (auto simp: insert_offer_def Let_def split: if_splits)
  qed (rule exI [of _ "[]"], rule exI [of _ "next_offer_id db + 1"],
       auto simp: insert_offer_def Let_def split: if_splits)+
  then show ?thesis using step_offer by metis
qed

lemma create_new_offer_path:
  assumes w: "sessions_ok sha w"
  shows "disc_path sha db (snd (create_new_offer rules today w b db))"
proof -
  define db1 where "db1 = (case of_decision_event_id b of None \<Rightarrow> db | Some _ \<Rightarrow> w 1 db)"
  have p1: "disc_path sha db db1" using sessions_okD [OF w] by (simp add: db1_def split: option.split)
  have p2: "disc_path sha db (snd (insert_offer b box (w 2 db1)))" for box
    by (rule path_then_step [OF path_others [OF w p1] insert_offer_step])
  have p3: "disc_path sha db (w 3 (snd (insert_offer b box (w 2 db1))))" for box
    by (rule path_others [OF w p2])
  have p4: "disc_path sha db (w 4 (w 3 (snd (insert_offer b box (w 2 db1)))))" for box
    by (rule path_others [OF w p3])
  show ?thesis
  proof (cases "case of_decision_event_id b of None \<Rightarrow> Inr ()
      | Some e \<Rightarrow> require_decision_event_for_application db1 e (of_application_id b)")
    case (Inl e)
    then show ?thesis using p1 by (simp add: create_new_offer_def Let_def db1_def [symmetric])
  next
    case (Inr u)
    note ok = this
    show ?thesis
    proof (cases "\<exists>box rows. build_offer rules (PFloat (of_principal b)) (PFloat (of_annual_rate b)) (of_term_months b) = Inr box
        \<and> amortization (PFloat (of_principal b)) (PFloat (of_annual_rate b)) (of_term_months b) today = Inr rows")
      case True
      then obtain box rows where priced:
        "build_offer rules (PFloat (of_principal b)) (PFloat (of_annual_rate b)) (of_term_months b) = Inr box"
        "amortization (PFloat (of_principal b)) (PFloat (of_annual_rate b)) (of_term_months b) today = Inr rows"
        by blast
      obtain r db2 where ins: "insert_offer b box (w 2 db1) = (r, db2)" by (rule prod.exhaust)
      show ?thesis using p2 [of box] p3 [of box] p4 [of box] ok
        by (cases r) (simp_all add: create_new_offer_def Let_def db1_def [symmetric] priced ins split: option.split)
    next
      case False
      then show ?thesis using p1 ok
        by (auto simp: create_new_offer_def Let_def db1_def [symmetric] split: sum.split)
    qed
  qed
qed

lemma create_offer_path:
  assumes w: "sessions_ok sha w"
  shows "disc_path sha db (snd (create_offer rules today token w b hdr db))"
proof -
  have p0: "disc_path sha db (w 0 db)" using w by (rule sessions_okD)
  have "disc_path sha db (w 4 (w 0 db))" by (rule path_others [OF w p0])
  moreover have "disc_path sha db (snd (create_new_offer rules today w b (w 0 db)))"
    by (rule path_trans [OF p0 create_new_offer_path [OF w]])
  ultimately show ?thesis
    by (simp add: create_offer_def Let_def split: sum.split option.split)
qed

end
