(* ===== verification/Scoring.thy ===== *)
theory Scoring
  imports Rounding
begin

text \<open>
  decision-service, \<^verbatim>\<open>app/model_vendor.py\<close> and \<^verbatim>\<open>app/reasons.py\<close>: the deterministic stand-in for
  the vendor risk model (score, ranked signed attributions, policy band) and the mapping of
  attributions to adverse-action reasons and data provenance. Floats are rationals rounded to 53
  bits after every operation, so they do not overflow and infinities are outside the model;
  \<^verbatim>\<open>sum\<close> is the compensated summation of the Python 3.12 the service runs on.
\<close>

section \<open>Compensated summation\<close>

definition sum_step :: "rat \<times> rat \<Rightarrow> rat \<Rightarrow> rat \<times> rat" where
  "sum_step s x =
     (let f = fst s; t = fl (f + x);
          e = (if \<bar>x\<bar> \<le> \<bar>f\<bar> then fl (fl (f - t) + x) else fl (fl (x - t) + f))
      in (t, fl (snd s + e)))"

fun py_sum :: "rat list \<Rightarrow> rat" where
  "py_sum [] = 0"
| "py_sum (x # xs) =
     (let s = foldl sum_step (x, 0) xs in if snd s = 0 then fst s else fl (fst s + snd s))"

section \<open>model_vendor.py\<close>

definition model_id :: string where
  "model_id = ''meridian-risk-stub''"

definition model_version :: string where
  "model_version = ''1''"

definition base_score :: rat where
  "base_score = 640"

definition approve_cutoff :: int where
  "approve_cutoff = 660"

definition deny_cutoff :: int where
  "deny_cutoff = 600"

definition model_signature :: string where
  "model_signature = model_id @ '':v'' @ model_version"

record scoring_inputs =
  bureau_score :: rat
  annual_income :: rat
  requested_amount :: rat
  sc_term_months :: int
  monthly_debt :: rat
  employment_years :: rat

definition payment_burden :: "scoring_inputs \<Rightarrow> rat" where
  "payment_burden i =
     (let term = (if sc_term_months i = 0 then 36 else sc_term_months i);
          monthly_income = fl (annual_income i / 12);
          new_payment = fl (requested_amount i / of_int term)
      in if 0 < monthly_income
         then let dti = fl (fl (monthly_debt i + new_payment) / monthly_income)
              in max (fl (fl (fl (35 / 100) - dti) * 120)) (- 80)
         else - 80)"

definition income_ratio :: "scoring_inputs \<Rightarrow> rat" where
  "income_ratio i =
     (if requested_amount i = 0 then 0 else fl (annual_income i / requested_amount i))"

definition feature_contributions :: "scoring_inputs \<Rightarrow> (string \<times> rat) list" where
  "feature_contributions i =
     [(''delinquency_history'', fl (fl (bureau_score i - base_score) / 2)),
      (''payment_burden'', payment_burden i),
      (''income_sufficiency'', fl (fl (min (income_ratio i) 5 * 8) - 20)),
      (''employment_tenure'', fl (fl (min (employment_years i) 10 * 2) - 8))]"

record model_output =
  score :: int
  attributions :: "(string \<times> rat) list"

definition score_application :: "scoring_inputs \<Rightarrow> model_output" where
  "score_application i =
     (let contributions = feature_contributions i
      in \<lparr>score = round_half_even (fl (base_score + py_sum (map snd contributions))),
          attributions = map (\<lambda>(name, v). (name, py_round2 v)) (sort_key snd contributions)\<rparr>)"

definition policy_band :: "int \<Rightarrow> string" where
  "policy_band s =
     (if approve_cutoff \<le> s then ''approve'' else if deny_cutoff \<le> s then ''refer'' else ''deny'')"

section \<open>reasons.py\<close>

definition reason_map :: "(string \<times> string \<times> string) list" where
  "reason_map =
     [(''delinquency_history'', ''R01'', ''Delinquent past or present credit obligations with others''),
      (''payment_burden'', ''R02'', ''Excessive obligations in relation to income''),
      (''income_sufficiency'', ''R03'', ''Income insufficient for amount of credit requested''),
      (''employment_tenure'', ''R04'', ''Length of employment'')]"

definition max_reasons :: nat where
  "max_reasons = 4"

definition credit_derived_features :: "string list" where
  "credit_derived_features = [''delinquency_history'']"

definition applicant_stated_features :: "string list" where
  "applicant_stated_features = [''payment_burden'', ''income_sufficiency'', ''employment_tenure'']"

definition credit_source_provenance :: "(string \<times> string) list" where
  "credit_source_provenance =
     [(''bureau'', ''bureau_verified''), (''synthetic'', ''synthetic_credit''),
      (''synthetic_after_bureau_failure'', ''synthetic_credit_bureau_failed'')]"

record principal_reason =
  reason_code :: string
  reason_text :: string
  reason_feature :: string

text \<open>\<open>None\<close> is \<^verbatim>\<open>UnmappedFeatureError\<close>.\<close>

definition principal_reasons :: "(string \<times> rat) list \<Rightarrow> principal_reason list option" where
  "principal_reasons attrs =
     (if \<exists>a \<in> set attrs. map_of reason_map (fst a) = None then None
      else Some (map (\<lambda>a. case the (map_of reason_map (fst a)) of (code, text) \<Rightarrow>
                     \<lparr>reason_code = code, reason_text = text, reason_feature = fst a\<rparr>)
             (take max_reasons (sort_key snd (filter (\<lambda>a. snd a < 0) attrs)))))"

definition feature_provenance ::
  "(string \<times> rat) list \<Rightarrow> string \<Rightarrow> (string \<times> string) list option" where
  "feature_provenance attrs credit_source =
     (case map_of credit_source_provenance credit_source of
        None \<Rightarrow> None
      | Some label \<Rightarrow>
          if \<exists>a \<in> set attrs. fst a \<notin> set credit_derived_features \<union> set applicant_stated_features
          then None
          else Some (map (\<lambda>a. (fst a,
                 if fst a \<in> set credit_derived_features then label else ''applicant_stated'')) attrs))"

section \<open>Rounding lemmas\<close>

lemma fl_le_int: "x \<le> of_int n \<Longrightarrow> \<bar>n\<bar> < 2 ^ 53 \<Longrightarrow> fl x \<le> of_int n"
  using fl_mono [of x "of_int n"] fl_exact_int [of n] by simp

lemma fl_ge_int: "of_int n \<le> x \<Longrightarrow> \<bar>n\<bar> < 2 ^ 53 \<Longrightarrow> of_int n \<le> fl x"
  using fl_mono [of "of_int n" x] fl_exact_int [of n] by simp

lemma fl_le_numeral: "x \<le> numeral k \<Longrightarrow> (numeral k :: int) < 2 ^ 53 \<Longrightarrow> fl x \<le> numeral k"
  using fl_le_int [of x "numeral k"] by simp

lemma fl_ge_neg_numeral: "- numeral k \<le> x \<Longrightarrow> (numeral k :: int) < 2 ^ 53 \<Longrightarrow> - numeral k \<le> fl x"
  using fl_ge_int [of "- numeral k" x] by simp

lemma fl_nonneg: "0 \<le> x \<Longrightarrow> 0 \<le> fl x"
  using fl_mono [of 0 x] by simp

text \<open>One operation errs by less than a \<open>10 ^ -12\<close> at the sizes met in a score.\<close>

lemma fl_close: "- 4000 \<le> x \<Longrightarrow> x \<le> 4000 \<Longrightarrow> fl x \<le> x + 1 / 2000000000000 \<and> x - 1 / 2000000000000 \<le> fl x"
proof -
  assume x: "- 4000 \<le> x" "x \<le> 4000"
  then have "\<bar>x\<bar> / 2 ^ 53 \<le> 4000 / 2 ^ 53" by (simp add: abs_le_iff divide_right_mono)
  then have "\<bar>fl x - x\<bar> \<le> 4000 / 2 ^ 53" using fl_near [of x] by (rule order.trans [rotated])
  also have "\<dots> \<le> 1 / 2000000000000" by simp
  finally show ?thesis unfolding abs_le_iff by linarith
qed

section \<open>The sum of the contributions\<close>

text \<open>What the running sum keeps: close to the exact sum, with a small compensation.\<close>

definition sums_to :: "nat \<Rightarrow> rat \<Rightarrow> rat \<times> rat \<Rightarrow> bool" where
  "sums_to n S s \<longleftrightarrow>
     - of_nat n / 100000000000 \<le> fst s - S \<and> fst s - S \<le> of_nat n / 100000000000 \<and>
     - of_nat n / 100000000000 \<le> snd s \<and> snd s \<le> of_nat n / 100000000000"

lemma sum_step_near:
  assumes s: "sums_to n S s" and n: "n \<le> 4" and S: "\<bar>S\<bar> \<le> 1600" and x: "\<bar>x\<bar> \<le> 400"
  shows "sums_to (Suc n) (S + x) (sum_step s x)"
proof -
  define f where "f = fst s"
  define t where "t = fl (f + x)"
  define e where "e = (if \<bar>x\<bar> \<le> \<bar>f\<bar> then fl (fl (f - t) + x) else fl (fl (x - t) + f))"
  have n': "(of_nat n :: rat) \<le> 4" using n by simp
  have f: "- of_nat n / 100000000000 \<le> f - S" "f - S \<le> of_nat n / 100000000000"
    and c: "- of_nat n / 100000000000 \<le> snd s" "snd s \<le> of_nat n / 100000000000"
    using s by (simp_all add: sums_to_def f_def)
  have b: "- 1601 \<le> f" "f \<le> 1601" using f n' S by (simp_all add: abs_le_iff)
  have x': "- 400 \<le> x" "x \<le> 400" using x by (simp_all add: abs_le_iff)
  have t: "t \<le> f + x + 1 / 2000000000000" "f + x - 1 / 2000000000000 \<le> t"
    using fl_close [of "f + x"] b x' by (simp_all add: t_def)
  have e1: "fl (f - t) \<le> f - t + 1 / 2000000000000" "f - t - 1 / 2000000000000 \<le> fl (f - t)"
    using fl_close [of "f - t"] t b x' by simp_all
  have e2: "fl (x - t) \<le> x - t + 1 / 2000000000000" "x - t - 1 / 2000000000000 \<le> fl (x - t)"
    using fl_close [of "x - t"] t b x' by simp_all
  have e3: "fl (fl (f - t) + x) \<le> 3 / 2000000000000" "- 3 / 2000000000000 \<le> fl (fl (f - t) + x)"
    using fl_close [of "fl (f - t) + x"] e1 t by simp_all
  have e4: "fl (fl (x - t) + f) \<le> 3 / 2000000000000" "- 3 / 2000000000000 \<le> fl (fl (x - t) + f)"
    using fl_close [of "fl (x - t) + f"] e2 t by simp_all
  have e: "e \<le> 3 / 2000000000000" "- 3 / 2000000000000 \<le> e" using e3 e4 by (simp_all add: e_def)
  have c': "fl (snd s + e) \<le> snd s + e + 1 / 2000000000000" "snd s + e - 1 / 2000000000000 \<le> fl (snd s + e)"
    using fl_close [of "snd s + e"] c e n' by simp_all
  have step: "sum_step s x = (t, fl (snd s + e))"
    by (simp add: sum_step_def Let_def f_def [symmetric] t_def e_def)
  show ?thesis unfolding sums_to_def step fst_conv snd_conv
    using f c t c' e by (simp add: field_simps)
qed

text \<open>Four contributions of at most 400 points: the sum and the score.\<close>

lemma py_sum_near:
  assumes x: "\<bar>a\<bar> \<le> 400" "\<bar>b\<bar> \<le> 400" "\<bar>c\<bar> \<le> 400" "\<bar>d\<bar> \<le> 400"
  shows "\<bar>py_sum [a, b, c, d] - (a + b + c + d)\<bar> \<le> 1 / 10000000000"
proof -
  have 0: "sums_to 0 a (a, 0)" by (simp add: sums_to_def)
  have 1: "sums_to 1 (a + b) (sum_step (a, 0) b)"
    using sum_step_near [OF 0] x by simp
  have 2: "sums_to 2 (a + b + c) (sum_step (sum_step (a, 0) b) c)"
    using sum_step_near [OF 1] x by (simp add: numeral_2_eq_2)
  have 3: "sums_to 3 (a + b + c + d) (sum_step (sum_step (sum_step (a, 0) b) c) d)"
    using sum_step_near [OF 2] x by (simp add: numeral_3_eq_3)
  define s where "s = sum_step (sum_step (sum_step (a, 0) b) c) d"
  have near: "- 3 / 100000000000 \<le> fst s - (a + b + c + d)" "fst s - (a + b + c + d) \<le> 3 / 100000000000"
    "- 3 / 100000000000 \<le> snd s" "snd s \<le> 3 / 100000000000"
    using 3 by (simp_all add: sums_to_def s_def)
  have "- 1600 \<le> a + b + c + d" "a + b + c + d \<le> 1600" using x by (simp_all add: abs_le_iff)
  then have "fl (fst s + snd s) \<le> fst s + snd s + 1 / 2000000000000"
    "fst s + snd s - 1 / 2000000000000 \<le> fl (fst s + snd s)"
    using fl_close [of "fst s + snd s"] near by simp_all
  moreover have "py_sum [a, b, c, d] = (if snd s = 0 then fst s else fl (fst s + snd s))"
    by (simp add: s_def Let_def)
  ultimately show ?thesis using near unfolding abs_le_iff by (cases "snd s = 0") simp_all
qed

section \<open>The size of the contributions\<close>

text \<open>Inputs the service admits, with a bureau score in \<open>0 .. 1000\<close>.\<close>

definition scorable :: "scoring_inputs \<Rightarrow> bool" where
  "scorable i \<longleftrightarrow> 0 \<le> bureau_score i \<and> bureau_score i \<le> 1000 \<and> 0 \<le> annual_income i \<and>
     0 < requested_amount i \<and> 0 < sc_term_months i \<and> 0 \<le> monthly_debt i \<and> 0 \<le> employment_years i"

lemma delinquency_bounds:
  assumes "scorable i"
  shows "- 320 \<le> fl (fl (bureau_score i - base_score) / 2)" "fl (fl (bureau_score i - base_score) / 2) \<le> 180"
proof -
  have "- 640 \<le> fl (bureau_score i - base_score)" "fl (bureau_score i - base_score) \<le> 360"
    using assms by (auto simp: scorable_def base_score_def intro!: fl_ge_neg_numeral fl_le_numeral)
  then show "- 320 \<le> fl (fl (bureau_score i - base_score) / 2)" "fl (fl (bureau_score i - base_score) / 2) \<le> 180"
    by (auto intro!: fl_ge_neg_numeral fl_le_numeral)
qed

lemma payment_burden_bounds:
  assumes "scorable i"
  shows "- 80 \<le> payment_burden i" "payment_burden i \<le> 42"
proof -
  show "- 80 \<le> payment_burden i" by (simp add: payment_burden_def Let_def)
  define np where "np = fl (requested_amount i / of_int (sc_term_months i))"
  define mi where "mi = fl (annual_income i / 12)"
  define dti where "dti = fl (fl (monthly_debt i + np) / mi)"
  have "0 \<le> np" "0 \<le> mi" using assms by (simp_all add: np_def mi_def scorable_def fl_nonneg)
  then have "0 \<le> dti" using assms by (simp add: dti_def scorable_def fl_nonneg)
  then have "fl (fl (35 / 100) - dti) \<le> fl (fl (35 / 100))" by (intro fl_mono) simp
  then have "fl (fl (fl (35 / 100) - dti) * 120) \<le> fl (fl (35 / 100) * 120)" by (intro fl_mono) simp
  also have "\<dots> = 42" by code_simp
  finally have "fl (fl (fl (35 / 100) - dti) * 120) \<le> 42" .
  then show "payment_burden i \<le> 42"
    using assms by (simp add: payment_burden_def Let_def np_def mi_def dti_def scorable_def)
qed

lemma income_ratio_nonneg: "scorable i \<Longrightarrow> 0 \<le> income_ratio i"
  by (simp add: income_ratio_def scorable_def fl_nonneg)

lemma income_sufficiency_bounds:
  assumes "scorable i"
  shows "- 20 \<le> fl (fl (min (income_ratio i) 5 * 8) - 20)" "fl (fl (min (income_ratio i) 5 * 8) - 20) \<le> 20"
proof -
  have "0 \<le> fl (min (income_ratio i) 5 * 8)" using income_ratio_nonneg [OF assms] by (intro fl_nonneg) simp
  moreover have "fl (min (income_ratio i) 5 * 8) \<le> 40" by (intro fl_le_numeral) simp_all
  ultimately show "- 20 \<le> fl (fl (min (income_ratio i) 5 * 8) - 20)"
    "fl (fl (min (income_ratio i) 5 * 8) - 20) \<le> 20"
    by (auto intro!: fl_ge_neg_numeral fl_le_numeral)
qed

lemma tenure_bounds:
  assumes "scorable i"
  shows "- 8 \<le> fl (fl (min (employment_years i) 10 * 2) - 8)" "fl (fl (min (employment_years i) 10 * 2) - 8) \<le> 12"
proof -
  have "0 \<le> fl (min (employment_years i) 10 * 2)" using assms by (intro fl_nonneg) (simp add: scorable_def)
  moreover have "fl (min (employment_years i) 10 * 2) \<le> 20" by (intro fl_le_numeral) simp_all
  ultimately show "- 8 \<le> fl (fl (min (employment_years i) 10 * 2) - 8)"
    "fl (fl (min (employment_years i) 10 * 2) - 8) \<le> 12"
    by (auto intro!: fl_ge_neg_numeral fl_le_numeral)
qed

lemmas contribution_bounds =
  delinquency_bounds payment_burden_bounds income_sufficiency_bounds tenure_bounds

text \<open>The exact total of the contributions, and the distance of the score from it.\<close>

definition points :: "scoring_inputs \<Rightarrow> rat" where
  "points i = (\<Sum>v\<leftarrow>map snd (feature_contributions i). v)"

lemma score_near:
  assumes i: "scorable i"
  shows "\<bar>of_int (score (score_application i)) - (640 + points i)\<bar> \<le> 1 / 2 + 1 / 1000000000"
proof -
  define r where "r = py_sum (map snd (feature_contributions i))"
  have r: "\<bar>r - points i\<bar> \<le> 1 / 10000000000"
    using py_sum_near [of "fl (fl (bureau_score i - base_score) / 2)" "payment_burden i"
        "fl (fl (min (income_ratio i) 5 * 8) - 20)" "fl (fl (min (employment_years i) 10 * 2) - 8)"]
      contribution_bounds [OF i]
    by (simp add: r_def points_def feature_contributions_def abs_le_iff add.assoc del: py_sum.simps)
  have p: "- 428 \<le> points i" "points i \<le> 254"
    using contribution_bounds [OF i] by (simp_all add: points_def feature_contributions_def)
  have "- 429 \<le> r" "r \<le> 255" using r p unfolding abs_le_iff by linarith+
  then have "fl (640 + r) \<le> 640 + r + 1 / 2000000000000" "640 + r - 1 / 2000000000000 \<le> fl (640 + r)"
    using fl_close [of "640 + r"] by simp_all
  moreover have "\<bar>of_int (round_half_even (fl (640 + r))) - fl (640 + r)\<bar> \<le> 1 / 2"
    by (rule round_half_even_near)
  moreover have "score (score_application i) = round_half_even (fl (640 + r))"
    by (simp add: score_application_def r_def base_score_def Let_def)
  ultimately show ?thesis using r unfolding abs_le_iff by linarith
qed

section \<open>Every contribution moves the right way\<close>

text \<open>\<open>better i j\<close>: in every declared field, \<open>j\<close> is at least as creditworthy as \<open>i\<close>.\<close>

definition better :: "scoring_inputs \<Rightarrow> scoring_inputs \<Rightarrow> bool" where
  "better i j \<longleftrightarrow> bureau_score i \<le> bureau_score j \<and> annual_income i \<le> annual_income j \<and>
     requested_amount j \<le> requested_amount i \<and> sc_term_months i \<le> sc_term_months j \<and>
     monthly_debt j \<le> monthly_debt i \<and> employment_years i \<le> employment_years j"

lemma divide_le_divide: "\<lbrakk>(x::rat) \<le> y; 0 \<le> y; 0 < b; b \<le> a\<rbrakk> \<Longrightarrow> x / a \<le> y / b"
  by (meson divide_left_mono divide_right_mono less_le_trans mult_pos_pos order.strict_implies_order order.trans)

lemma payment_burden_mono:
  assumes i: "scorable i" and j: "scorable j" and b: "better i j"
  shows "payment_burden i \<le> payment_burden j"
proof -
  define mi :: "scoring_inputs \<Rightarrow> rat" where "mi = (\<lambda>k. fl (annual_income k / 12))"
  define np :: "scoring_inputs \<Rightarrow> rat" where "np = (\<lambda>k. fl (requested_amount k / of_int (sc_term_months k)))"
  define dti :: "scoring_inputs \<Rightarrow> rat" where "dti = (\<lambda>k. fl (fl (monthly_debt k + np k) / mi k))"
  have pb: "payment_burden k = (if 0 < mi k then max (fl (fl (fl (35 / 100) - dti k) * 120)) (- 80) else - 80)"
    if "scorable k" for k :: scoring_inputs
    using that by (simp add: payment_burden_def Let_def mi_def np_def dti_def scorable_def)
  have mi: "mi i \<le> mi j" using b by (auto simp: mi_def better_def intro!: fl_mono)
  show ?thesis
  proof (cases "0 < mi i")
    case True
    have "np j \<le> np i" unfolding np_def
      using i j b by (intro fl_mono divide_le_divide) (auto simp: scorable_def better_def)
    then have debt: "fl (monthly_debt j + np j) \<le> fl (monthly_debt i + np i)"
      using b by (intro fl_mono) (simp add: better_def add_mono)
    have pos: "0 \<le> fl (monthly_debt i + np i)"
      using i by (intro fl_nonneg add_nonneg_nonneg) (simp_all add: np_def scorable_def fl_nonneg)
    have "dti j \<le> dti i" unfolding dti_def
      by (rule fl_mono [OF divide_le_divide [OF debt pos True mi]])
    then have "fl (fl (fl (35 / 100) - dti i) * 120) \<le> fl (fl (fl (35 / 100) - dti j) * 120)"
      by (intro fl_mono mult_right_mono) simp_all
    then show ?thesis using mi True pb [OF i] pb [OF j] by simp
  next
    case False
    then show ?thesis using pb [OF i] payment_burden_bounds(1) [OF j] by simp
  qed
qed

lemma income_ratio_mono:
  assumes "scorable i" "scorable j" "better i j"
  shows "income_ratio i \<le> income_ratio j"
  using assms by (auto simp: income_ratio_def scorable_def better_def intro!: fl_mono divide_le_divide)

lemma contributions_mono:
  assumes i: "scorable i" and j: "scorable j" and b: "better i j"
  shows "list_all2 (\<lambda>x y. fst x = fst y \<and> snd x \<le> snd y) (feature_contributions i) (feature_contributions j)"
proof -
  have "fl (fl (bureau_score i - base_score) / 2) \<le> fl (fl (bureau_score j - base_score) / 2)"
    using b by (intro fl_mono divide_right_mono) (simp_all add: better_def)
  moreover have "fl (fl (min (income_ratio i) 5 * 8) - 20) \<le> fl (fl (min (income_ratio j) 5 * 8) - 20)"
    using income_ratio_mono [OF assms] by (intro fl_mono diff_mono mult_right_mono) simp_all
  moreover have "fl (fl (min (employment_years i) 10 * 2) - 8) \<le> fl (fl (min (employment_years j) 10 * 2) - 8)"
    using b by (intro fl_mono diff_mono mult_right_mono min.mono) (simp_all add: better_def)
  ultimately show ?thesis
    using payment_burden_mono [OF assms] by (simp add: feature_contributions_def)
qed

lemma points_mono: "scorable i \<Longrightarrow> scorable j \<Longrightarrow> better i j \<Longrightarrow> points i \<le> points j"
  using contributions_mono [of i j] by (simp add: points_def feature_contributions_def)

lemma score_mono:
  assumes "scorable i" "scorable j" "better i j"
  shows "score (score_application i) \<le> score (score_application j) + 1"
proof -
  have "of_int (score (score_application i)) < (of_int (score (score_application j) + 2) :: rat)"
    using score_near [OF assms(1)] score_near [OF assms(2)] points_mono [OF assms]
    unfolding abs_le_iff by simp
  then show ?thesis by linarith
qed

section \<open>Denials are explained\<close>

lemma py_round2_negative: "x \<le> - 1 \<Longrightarrow> py_round2 x < 0"
proof -
  assume "x \<le> - 1"
  then have "round_half_even (x * 100) \<le> round_half_even (of_int (- 100))" by (intro round_half_even_mono) simp
  then have "fl (of_int (round_half_even (x * 100)) / 100) \<le> fl (of_int (- 1))"
    unfolding round_half_even_of_int by (intro fl_mono) simp
  then show ?thesis using fl_exact_int [of "- 1"] by (simp add: py_round2_def)
qed

lemma deny_points:
  assumes "scorable i" "policy_band (score (score_application i)) = ''deny''"
  shows "points i \<le> - 202 / 5"
proof -
  have "score (score_application i) \<le> 599"
    using assms(2) by (simp add: policy_band_def approve_cutoff_def deny_cutoff_def split: if_splits)
  then have "of_int (score (score_application i)) \<le> (599 :: rat)" by linarith
  then show ?thesis using score_near [OF assms(1)] unfolding abs_le_iff by linarith
qed

lemma deny_negative_driver:
  assumes i: "scorable i" and d: "policy_band (score (score_application i)) = ''deny''"
  shows "\<exists>a \<in> set (attributions (score_application i)). snd a < 0"
proof -
  have "\<exists>c \<in> set (feature_contributions i). snd c \<le> - 1"
  proof (rule ccontr)
    assume "\<not> ?thesis"
    then have "- 4 < points i" by (simp add: points_def feature_contributions_def)
    then show False using deny_points [OF i d] by simp
  qed
  then show ?thesis
    using py_round2_negative by (force simp: score_application_def Let_def)
qed

lemma attribution_features: "fst ` set (attributions (score_application i)) = set (map fst reason_map)"
  by (simp add: score_application_def Let_def image_image case_prod_unfold)
    (simp add: feature_contributions_def reason_map_def)

lemma reasons_mapped: "a \<in> set (attributions (score_application i)) \<Longrightarrow> map_of reason_map (fst a) \<noteq> None"
  using attribution_features [of i] by (auto simp: map_of_eq_None_iff)

lemma provenance_mapped:
  "a \<in> set (attributions (score_application i)) \<Longrightarrow>
   fst a \<in> set credit_derived_features \<union> set applicant_stated_features"
  using attribution_features [of i]
  by (auto simp: reason_map_def credit_derived_features_def applicant_stated_features_def)

text \<open>The reasons of a scored application, read off its attributions.\<close>

definition adverse :: "scoring_inputs \<Rightarrow> (string \<times> rat) list" where
  "adverse i = sort_key snd (filter (\<lambda>a. snd a < 0) (attributions (score_application i)))"

lemma length_attributions: "length (attributions (score_application i)) = 4"
  by (simp add: score_application_def Let_def) (simp add: feature_contributions_def)

lemma reasons_are_adverse:
  "principal_reasons (attributions (score_application i)) =
     Some (map (\<lambda>a. \<lparr>reason_code = fst (the (map_of reason_map (fst a))),
                       reason_text = snd (the (map_of reason_map (fst a))), reason_feature = fst a\<rparr>) (adverse i))"
proof -
  have "length (adverse i) \<le> max_reasons"
    using length_filter_le [of "\<lambda>a. snd a < 0" "attributions (score_application i)"]
    by (simp add: adverse_def length_attributions max_reasons_def)
  then have "take max_reasons (adverse i) = adverse i" by simp
  then show ?thesis
    using reasons_mapped by (auto simp: principal_reasons_def adverse_def case_prod_unfold)
qed

lemma adverse_sound:
  "sorted (map snd (adverse i)) \<and> set (adverse i) = {a \<in> set (attributions (score_application i)). snd a < 0}"
  by (auto simp: adverse_def)

section \<open>Properties\<close>

text \<open>Being more creditworthy never costs more than rounding. When no declared field of \<open>j\<close> is
  worse than in \<open>i\<close> (score and income and tenure and term not lower, amount and debt not higher),
  every single contribution to the score of \<open>j\<close> is at least that of \<open>i\<close>, in floating point, and
  the score itself, a sum rounded to an integer, is lower by at most one point.\<close>

theorem improvement_never_hurts:
  assumes "scorable i" and "scorable j" and "better i j"
  shows "list_all2 (\<lambda>x y. fst x = fst y \<and> snd x \<le> snd y) (feature_contributions i) (feature_contributions j)
    \<and> score (score_application i) \<le> score (score_application j) + 1"
  using contributions_mono [OF assms] score_mono [OF assms] by blast

definition sample_applicant :: scoring_inputs where
  "sample_applicant = \<lparr>bureau_score = 580, annual_income = 42000, requested_amount = 15000,
     sc_term_months = 36, monthly_debt = 1200, employment_years = 1\<rparr>"

lemma sample_scorable [simp]: "scorable sample_applicant"
  by (simp add: scorable_def sample_applicant_def)

theorem improvement_never_hurts_witness:
  "score (score_application sample_applicant)
     \<le> score (score_application (sample_applicant\<lparr>monthly_debt := 300\<rparr>)) + 1"
  by (rule conjunct2 [OF improvement_never_hurts])
    (simp_all add: scorable_def better_def sample_applicant_def)

text \<open>The bureau score bounds the band, whatever is stated about income, debt and tenure: with a
  bureau score of 530 or less nothing is approved, with 776 or more nothing is denied.\<close>

theorem bureau_score_bounds_band:
  assumes i: "scorable i"
  shows "(policy_band (score (score_application i)) = ''approve'' \<longrightarrow> 530 < bureau_score i) \<and>
         (policy_band (score (score_application i)) = ''deny'' \<longrightarrow> bureau_score i < 776)"
proof (intro conjI impI)
  define d where "d = fl (fl (bureau_score i - base_score) / 2)"
  have p: "points i \<le> d + 74" "d - 108 \<le> points i"
    using contribution_bounds [OF i] by (simp_all add: points_def feature_contributions_def d_def)
  have step: "fl (bureau_score i - base_score) \<le> bureau_score i - 640 + 1 / 2000000000000"
    "bureau_score i - 640 - 1 / 2000000000000 \<le> fl (bureau_score i - base_score)"
    using fl_close [of "bureau_score i - base_score"] i by (simp_all add: scorable_def base_score_def)
  have "- 4000 \<le> fl (bureau_score i - base_score) / 2" "fl (bureau_score i - base_score) / 2 \<le> 4000"
    using step i unfolding scorable_def by linarith+
  then have "d \<le> fl (bureau_score i - base_score) / 2 + 1 / 2000000000000"
    "fl (bureau_score i - base_score) / 2 - 1 / 2000000000000 \<le> d"
    using fl_close [of "fl (bureau_score i - base_score) / 2"] unfolding d_def by blast+
  with step have d: "2 * d \<le> bureau_score i - 640 + 1 / 500000000000" "bureau_score i - 640 - 1 / 500000000000 \<le> 2 * d"
    by simp_all
  {
    assume "policy_band (score (score_application i)) = ''approve''"
    then have "660 \<le> score (score_application i)"
      by (simp add: policy_band_def approve_cutoff_def split: if_splits)
    then have "660 \<le> (of_int (score (score_application i)) :: rat)" by linarith
    then have "77 / 2 \<le> 2 * points i" using score_near [OF i] unfolding abs_le_iff by linarith
    then show "530 < bureau_score i" using p d by simp
  }
  {
    assume "policy_band (score (score_application i)) = ''deny''"
    then show "bureau_score i < 776" using deny_points [OF i] p d by simp
  }
qed

theorem bureau_score_bounds_band_witness:
  "policy_band (score (score_application (sample_applicant\<lparr>bureau_score := 500\<rparr>))) \<noteq> ''approve'' \<and>
   policy_band (score (score_application (sample_applicant\<lparr>bureau_score := 800\<rparr>))) \<noteq> ''deny''"
  using bureau_score_bounds_band [of "sample_applicant\<lparr>bureau_score := 500\<rparr>"]
    bureau_score_bounds_band [of "sample_applicant\<lparr>bureau_score := 800\<rparr>"]
  by (auto simp: scorable_def sample_applicant_def)

text \<open>Every adverse decision has its specific reasons. Whatever the model scores, each of its
  features maps to a reason; the reasons are those of exactly the negative attributions, most
  negative first, four at most; and a denial always has one, so the rule that a deny without
  reasons is refused never stops a decision of this model.\<close>

theorem denials_are_explained:
  assumes i: "scorable i"
  shows "\<exists>rs negs. principal_reasons (attributions (score_application i)) = Some rs \<and>
    map reason_feature rs = map fst negs \<and> sorted (map snd negs) \<and>
    set negs = {a \<in> set (attributions (score_application i)). snd a < 0} \<and> length rs \<le> 4 \<and>
    (\<forall>r \<in> set rs. map_of reason_map (reason_feature r) = Some (reason_code r, reason_text r)) \<and>
    (policy_band (score (score_application i)) = ''deny'' \<longrightarrow> rs \<noteq> [])"
proof (intro exI conjI)
  let ?rs = "map (\<lambda>a. \<lparr>reason_code = fst (the (map_of reason_map (fst a))),
                       reason_text = snd (the (map_of reason_map (fst a))), reason_feature = fst a\<rparr>) (adverse i)"
  show "principal_reasons (attributions (score_application i)) = Some ?rs" by (rule reasons_are_adverse)
  show "map reason_feature ?rs = map fst (adverse i)" by simp
  show "sorted (map snd (adverse i))" using adverse_sound by blast
  show "set (adverse i) = {a \<in> set (attributions (score_application i)). snd a < 0}" using adverse_sound by blast
  show "length ?rs \<le> 4"
    using length_filter_le [of "\<lambda>a. snd a < 0" "attributions (score_application i)"]
    by (simp add: adverse_def length_attributions)
  show "\<forall>r \<in> set ?rs. map_of reason_map (reason_feature r) = Some (reason_code r, reason_text r)"
    using reasons_mapped adverse_sound by fastforce
  show "policy_band (score (score_application i)) = ''deny'' \<longrightarrow> ?rs \<noteq> []"
  proof
    assume "policy_band (score (score_application i)) = ''deny''"
    then obtain a where "a \<in> set (attributions (score_application i))" "snd a < 0"
      using deny_negative_driver [OF i] by blast
    then have "a \<in> set (adverse i)" using adverse_sound [of i] by simp
    then show "?rs \<noteq> []" by auto
  qed
qed

theorem denials_are_explained_witness:
  "\<exists>rs. principal_reasons (attributions (score_application sample_applicant)) = Some rs \<and> length rs \<le> 4"
  using denials_are_explained [OF sample_scorable] by blast

end
