(* ===== verification/Decision.thy ===== *)
theory Decision
  imports Scoring Authz
begin

text \<open>
  decision-service, \<^verbatim>\<open>app/decision.py\<close> with the settings it reads from \<^verbatim>\<open>app/config.py\<close>: credit
  pull, scoring, the checks on the record, the append-only event log with its current-outcome
  pointer, and the idempotent replay. HMAC-SHA256 (\<open>hmac key text\<close>) and the bureau are
  parameters. Other sessions run as \<open>w n\<close> before the \<open>n\<close>-th statement; a statement takes effect at
  one instant, and log lines are left out.
\<close>

section \<open>Settings\<close>

record dec_config =
  experian_key :: string
  environment :: string
  allow_synthetic_credit :: bool
  decision_fingerprint_pepper :: string

definition placeholder_peppers :: "string list" where
  "placeholder_peppers =
     ['''', ''demo-decision-fingerprint-pepper-change-me'', ''replace_with_fingerprint_pepper'',
      ''change-me'', ''changeme'', ''change_me'', ''placeholder'']"

definition fingerprint_pepper :: "dec_config \<Rightarrow> string option" where
  "fingerprint_pepper cfg =
     (let pepper = strip (decision_fingerprint_pepper cfg)
      in if lower pepper \<in> set placeholder_peppers then None else Some pepper)"

definition synthetic_credit_enabled :: "dec_config \<Rightarrow> bool" where
  "synthetic_credit_enabled cfg \<longleftrightarrow> environment cfg = ''development'' \<and> allow_synthetic_credit cfg"

section \<open>Errors\<close>

text \<open>\<open>Not_numeric\<close> is the \<^verbatim>\<open>ValueError\<close> of \<^verbatim>\<open>float()\<close>, which no handler catches.\<close>

datatype dec_error =
  Credit_pull_error | Decision_record_error | Decision_input_mismatch | Unmapped_feature_error | Not_numeric

section \<open>The credit pull\<close>

text \<open>
  What the bureau call comes to: an exception (connection, status, body, no score), or a score,
  \<open>None\<close> when \<^verbatim>\<open>float(score or 0)\<close> refuses it.
\<close>

datatype bureau_answer = Call_failed | Answered "rat option"

definition synthetic_score :: "string \<Rightarrow> rat" where
  "synthetic_score ssn = (if ssn \<noteq> '''' \<and> last ssn \<in> set ''02468'' then 680 else 612)"

definition pull_credit ::
  "dec_config \<Rightarrow> (string \<Rightarrow> bureau_answer) \<Rightarrow> string \<Rightarrow> dec_error + rat option \<times> string" where
  "pull_credit cfg bureau ssn =
     (if experian_key cfg = '''' then
        if synthetic_credit_enabled cfg then Inr (Some (synthetic_score ssn), ''synthetic'')
        else Inl Credit_pull_error
      else case bureau ssn of
        Answered s \<Rightarrow> Inr (s, ''bureau'')
      | Call_failed \<Rightarrow>
          if synthetic_credit_enabled cfg
          then Inr (Some (synthetic_score ssn), ''synthetic_after_bureau_failure'')
          else Inl Credit_pull_error)"

section \<open>The event record\<close>

text \<open>The values of the \<^verbatim>\<open>inputs\<close> column. No writer stores a figure as text.\<close>

datatype input_val = VNum rat | VText string | VProvenance "(string \<times> string) list"

type_synonym dec_inputs = "(string \<times> input_val) list"

record drivers =
  dr_model_id :: string
  dr_model_version :: string
  dr_model_score :: int
  dr_attributions :: "(string \<times> rat) list"
  dr_cutoff_approve :: int
  dr_cutoff_deny :: int

record dec_event =
  ev_id :: int
  ev_app_id :: int
  ev_outcome :: string
  ev_reasons :: "principal_reason list"
  ev_drivers :: "drivers option"
  ev_band :: string
  ev_inputs :: dec_inputs
  ev_decided_by :: string
  ev_request_id :: "string option"
  ev_decided_at :: int

text \<open>
  \<^verbatim>\<open>decision_events\<close>, the \<^verbatim>\<open>decisions\<close> pointer, the ids of \<^verbatim>\<open>applications\<close>, and how often the
  modelled requests called the bureau.
\<close>

record dec_db =
  dec_events :: "dec_event list"
  outcome_of :: "int \<Rightarrow> string option"
  dec_apps :: "int list"
  next_event_id :: int
  dec_clock :: int
  bureau_calls :: nat

definition has_negative_drivers :: "drivers \<Rightarrow> bool" where
  "has_negative_drivers d \<longleftrightarrow> (\<exists>a \<in> set (dr_attributions d). snd a < 0)"

definition validate_record ::
  "string \<Rightarrow> string \<Rightarrow> principal_reason list \<Rightarrow> drivers option \<Rightarrow> string \<Rightarrow> dec_error + unit" where
  "validate_record outc band reasons drv decided_by =
     (if outc = ''deny'' \<and> reasons = [] then Inl Decision_record_error
      else if outc = ''refer'' \<and> reasons = [] \<and>
              (case drv of None \<Rightarrow> False | Some d \<Rightarrow> has_negative_drivers d)
      then Inl Decision_record_error
      else if drv = None then Inl Decision_record_error
      else if outc \<noteq> band \<and> decided_by = model_signature then Inl Decision_record_error
      else Inr ())"

section \<open>Requests\<close>

record application =
  ap_app_id :: int
  ap_ssn :: string
  ap_income :: rat
  ap_amount :: rat
  ap_term_months :: int
  ap_monthly_debt :: rat
  ap_employment_years :: rat
  ap_request_id :: "string option"

definition ssn_fingerprint :: "(string \<Rightarrow> string \<Rightarrow> string) \<Rightarrow> dec_config \<Rightarrow> string \<Rightarrow> string option" where
  "ssn_fingerprint hmac cfg ssn =
     (case fingerprint_pepper cfg of
        None \<Rightarrow> None
      | Some pepper \<Rightarrow> if pepper = '''' \<or> ssn = '''' then None else Some (hmac pepper ssn))"

definition stated_inputs :: "application \<Rightarrow> dec_inputs" where
  "stated_inputs a =
     [(''annual_income'', VNum (ap_income a)), (''requested_amount'', VNum (ap_amount a)),
      (''term_months'', VNum (of_int (ap_term_months a))), (''monthly_debt'', VNum (ap_monthly_debt a)),
      (''employment_years'', VNum (ap_employment_years a))]"

definition fingerprint_entry :: "string option \<Rightarrow> dec_inputs" where
  "fingerprint_entry fp = (case fp of None \<Rightarrow> [] | Some x \<Rightarrow> [(''ssn_fingerprint'', VText x)])"

definition request_inputs ::
  "(string \<Rightarrow> string \<Rightarrow> string) \<Rightarrow> dec_config \<Rightarrow> application \<Rightarrow> dec_inputs" where
  "request_inputs hmac cfg a = stated_inputs a @ fingerprint_entry (ssn_fingerprint hmac cfg (ap_ssn a))"

text \<open>\<^verbatim>\<open>float(v or 0)\<close>.\<close>

fun num_of :: "input_val option \<Rightarrow> rat option" where
  "num_of None = Some 0"
| "num_of (Some (VNum r)) = Some r"
| "num_of (Some (VText s)) = (if s = '''' then Some 0 else None)"
| "num_of (Some (VProvenance p)) = (if p = [] then Some 0 else None)"

fun conflict_in :: "dec_inputs \<Rightarrow> dec_inputs \<Rightarrow> dec_error + bool" where
  "conflict_in stored [] = Inr False"
| "conflict_in stored ((k, cur) # rest) =
     (if k = ''ssn_fingerprint'' then
        (case map_of stored k of
           None \<Rightarrow> conflict_in stored rest
         | Some fp \<Rightarrow> if fp \<noteq> cur then Inr True else conflict_in stored rest)
      else case (num_of (map_of stored k), num_of (Some cur)) of
        (Some a, Some b) \<Rightarrow> if a \<noteq> b then Inr True else conflict_in stored rest
      | _ \<Rightarrow> Inl Not_numeric)"

definition inputs_conflict :: "dec_inputs \<Rightarrow> dec_inputs \<Rightarrow> dec_error + bool" where
  "inputs_conflict stored current = (if stored = [] then Inr False else conflict_in stored current)"

record dec_result =
  res_score :: "int option"
  res_decision :: string
  res_band :: string
  res_reasons :: "principal_reason list"
  res_decided_by :: string

definition result_from_event :: "dec_event \<Rightarrow> dec_result" where
  "result_from_event e =
     \<lparr>res_score = map_option dr_model_score (ev_drivers e), res_decision = ev_outcome e,
      res_band = ev_band e, res_reasons = ev_reasons e, res_decided_by = ev_decided_by e\<rparr>"

section \<open>The log\<close>

definition has_key :: "int \<Rightarrow> string \<Rightarrow> dec_event \<Rightarrow> bool" where
  "has_key app rid e \<longleftrightarrow> ev_app_id e = app \<and> ev_request_id e = Some rid"

definition find_event_by_request :: "int \<Rightarrow> string \<Rightarrow> dec_db \<Rightarrow> dec_event option" where
  "find_event_by_request app rid db = find (has_key app rid) (dec_events db)"

text \<open>The INSERT with its pointer upsert: \<open>None\<close> on a conflict of the unique index.\<close>

definition append_event :: "dec_event \<Rightarrow> dec_db \<Rightarrow> dec_db" where
  "append_event e db =
     db\<lparr>dec_events := dec_events db @ [e\<lparr>ev_id := next_event_id db, ev_decided_at := dec_clock db\<rparr>],
        outcome_of := (outcome_of db)(ev_app_id e \<mapsto> ev_outcome e),
        next_event_id := next_event_id db + 1\<rparr>"

definition burn_id :: "dec_db \<Rightarrow> dec_db" where
  "burn_id db = db\<lparr>next_event_id := next_event_id db + 1\<rparr>"

definition persist_event ::
  "(nat \<Rightarrow> dec_db \<Rightarrow> dec_db) \<Rightarrow> dec_event \<Rightarrow> dec_db \<Rightarrow> (dec_error + dec_event option) \<times> dec_db" where
  "persist_event w e db =
     (if (case ev_request_id e of None \<Rightarrow> False | Some rid \<Rightarrow> find_event_by_request (ev_app_id e) rid db \<noteq> None)
      then (let db1 = w 2 (burn_id db)
            in case ev_request_id e of
                 None \<Rightarrow> (Inl Decision_record_error, db1)
               | Some rid \<Rightarrow>
                   (case find_event_by_request (ev_app_id e) rid db1 of
                      None \<Rightarrow> (Inl Decision_record_error, db1)
                    | Some existing \<Rightarrow> (Inr (Some existing), db1)))
      else if ev_app_id e \<notin> set (dec_apps db) then (Inl Decision_record_error, burn_id db)
      else (Inr None, append_event e db))"

section \<open>Deciding\<close>

definition scoring_inputs_of :: "rat \<Rightarrow> application \<Rightarrow> scoring_inputs" where
  "scoring_inputs_of bureau a =
     \<lparr>bureau_score = bureau, annual_income = ap_income a, requested_amount = ap_amount a,
      sc_term_months = ap_term_months a, monthly_debt = ap_monthly_debt a,
      employment_years = ap_employment_years a\<rparr>"

text \<open>Everything between the pull and the INSERT: the event to record, or the refusal.\<close>

definition decision_event ::
  "(string \<Rightarrow> string \<Rightarrow> string) \<Rightarrow> dec_config \<Rightarrow> application \<Rightarrow> string option \<Rightarrow> rat \<Rightarrow> string \<Rightarrow>
   dec_error + dec_event" where
  "decision_event hmac cfg a rid bureau source =
     (let out = score_application (scoring_inputs_of bureau a);
          band = policy_band (score out); outc = band
      in case principal_reasons (attributions out) of
           None \<Rightarrow> Inl Unmapped_feature_error
         | Some mapped \<Rightarrow>
             (let reasons = (if outc = ''approve'' then [] else mapped)
              in case feature_provenance (attributions out) source of
                   None \<Rightarrow> Inl Unmapped_feature_error
                 | Some prov \<Rightarrow>
                     (let drv = \<lparr>dr_model_id = model_id, dr_model_version = model_version,
                            dr_model_score = score out, dr_attributions = attributions out,
                            dr_cutoff_approve = approve_cutoff, dr_cutoff_deny = deny_cutoff\<rparr>
                      in bind_result (validate_record outc band reasons (Some drv) model_signature) (\<lambda>_.
                         Inr \<lparr>ev_id = 0, ev_app_id = ap_app_id a, ev_outcome = outc, ev_reasons = reasons,
                              ev_drivers = Some drv, ev_band = band,
                              ev_inputs = (''bureau_score'', VNum bureau) # stated_inputs a @
                                fingerprint_entry (ssn_fingerprint hmac cfg (ap_ssn a)) @
                                [(''feature_provenance'', VProvenance prov)],
                              ev_decided_by = model_signature, ev_request_id = rid,
                              ev_decided_at = 0\<rparr>))))"

definition pull_and_score ::
  "(string \<Rightarrow> string \<Rightarrow> string) \<Rightarrow> dec_config \<Rightarrow> (string \<Rightarrow> bureau_answer) \<Rightarrow> application \<Rightarrow>
   string option \<Rightarrow> dec_error + dec_event" where
  "pull_and_score hmac cfg bureau a rid =
     bind_result (pull_credit cfg bureau (ap_ssn a)) (\<lambda>(s, source).
       case s of None \<Rightarrow> Inl Not_numeric | Some b \<Rightarrow> decision_event hmac cfg a rid b source)"

definition count_call :: "dec_config \<Rightarrow> dec_db \<Rightarrow> dec_db" where
  "count_call cfg db =
     (if experian_key cfg = '''' then db else db\<lparr>bureau_calls := bureau_calls db + 1\<rparr>)"

definition run_decision ::
  "(string \<Rightarrow> string \<Rightarrow> string) \<Rightarrow> dec_config \<Rightarrow> (string \<Rightarrow> bureau_answer) \<Rightarrow> (nat \<Rightarrow> dec_db \<Rightarrow> dec_db) \<Rightarrow>
   application \<Rightarrow> string option \<Rightarrow> dec_db \<Rightarrow> (dec_error + dec_result) \<times> dec_db" where
  "run_decision hmac cfg bureau w a rid db =
     (let db1 = count_call cfg db
      in case pull_and_score hmac cfg bureau a rid of
           Inl e \<Rightarrow> (Inl e, db1)
         | Inr ev \<Rightarrow>
             (case persist_event w ev (w 1 db1) of
                (Inl e, db2) \<Rightarrow> (Inl e, db2)
              | (Inr None, db2) \<Rightarrow> (Inr (result_from_event ev), db2)
              | (Inr (Some raced), db2) \<Rightarrow>
                  (bind_result (inputs_conflict (ev_inputs raced) (request_inputs hmac cfg a))
                     (\<lambda>c. if c then Inl Decision_input_mismatch else Inr (result_from_event raced)), db2)))"

definition decide ::
  "(string \<Rightarrow> string \<Rightarrow> string) \<Rightarrow> dec_config \<Rightarrow> (string \<Rightarrow> bureau_answer) \<Rightarrow> (nat \<Rightarrow> dec_db \<Rightarrow> dec_db) \<Rightarrow>
   application \<Rightarrow> dec_db \<Rightarrow> (dec_error + dec_result) \<times> dec_db" where
  "decide hmac cfg bureau w a db =
     (case ap_request_id a of
        None \<Rightarrow> run_decision hmac cfg bureau w a None db
      | Some rid \<Rightarrow>
          if rid = '''' then run_decision hmac cfg bureau w a None db
          else (let db0 = w 0 db
                in case find_event_by_request (ap_app_id a) rid db0 of
                     None \<Rightarrow> run_decision hmac cfg bureau w a (Some rid) db0
                   | Some existing \<Rightarrow>
                       (bind_result (inputs_conflict (ev_inputs existing) (request_inputs hmac cfg a))
                          (\<lambda>c. if c then Inl Decision_input_mismatch else Inr (result_from_event existing)), db0)))"

end
