(* ===== verification/DecisionRoutes.thy ===== *)
theory DecisionRoutes
  imports Decision
begin

text \<open>
  decision-service, \<^verbatim>\<open>app/routers/decisions.py\<close> and \<^verbatim>\<open>app/schemas.py\<close>: the decision POST and the
  record read, the steps of the decision log under concurrent requests, and the properties of
  the two. Only \<^verbatim>\<open>_persist_event\<close> writes the log, so the other sessions are runs of the same step.
\<close>

section \<open>Routes\<close>

definition dec_require_internal_caller :: "string \<Rightarrow> string option \<Rightarrow> unit response" where
  "dec_require_internal_caller expected x_internal_service =
     (if expected = '''' then raise_http 503 ''internal auth not configured''
      else case x_internal_service of
        None \<Rightarrow> raise_http 403 ''internal service identity required''
      | Some s \<Rightarrow> if s = '''' \<or> s \<noteq> expected then raise_http 403 ''internal service identity required''
                  else Inr ())"

interpretation decision_guard: internal_gate dec_require_internal_caller
  by unfold_locales (auto simp: dec_require_internal_caller_def split: option.splits)

record decision_in =
  di_application_id :: int
  di_name :: string
  di_ssn :: string
  di_requested_amount :: rat
  di_term_months :: int
  di_annual_income :: rat
  di_monthly_debt :: rat
  di_employment_years :: rat
  di_request_id :: "string option"

definition decision_in_ok :: "decision_in \<Rightarrow> bool" where
  "decision_in_ok b \<longleftrightarrow> 1 \<le> length (di_name b) \<and> 0 < di_requested_amount b \<and>
     12 \<le> di_term_months b \<and> di_term_months b \<le> 60 \<and> 0 \<le> di_annual_income b \<and>
     0 \<le> di_monthly_debt b \<and> 0 \<le> di_employment_years b \<and>
     (case di_request_id b of None \<Rightarrow> True | Some r \<Rightarrow> length r \<le> 64)"

record decision_out =
  do_application_id :: int
  do_outcome :: string
  do_score :: rat
  do_reason :: "string option"
  do_policy_band :: string
  do_principal_reasons :: "principal_reason list"
  do_decided_by :: string

definition application_from :: "decision_in \<Rightarrow> application" where
  "application_from b =
     \<lparr>ap_app_id = di_application_id b, ap_ssn = di_ssn b, ap_income = di_annual_income b,
      ap_amount = di_requested_amount b,
      ap_term_months = (if di_term_months b = 0 then 36 else di_term_months b),
      ap_monthly_debt = di_monthly_debt b, ap_employment_years = di_employment_years b,
      ap_request_id = di_request_id b\<rparr>"

fun dec_error_response :: "dec_error \<Rightarrow> 'a response" where
  "dec_error_response Decision_input_mismatch = raise_http 409 ''request_id reused with different decision inputs''"
| "dec_error_response Credit_pull_error = raise_http 503 ''credit bureau unavailable''"
| "dec_error_response Decision_record_error = raise_http 503 ''decision could not be recorded''"
| "dec_error_response Unmapped_feature_error =
     raise_http 503 ''decision refused: model feature or credit-score source is not mapped''"
| "dec_error_response Not_numeric = internal_error"

text \<open>A replayed event without drivers has no score, which \<^verbatim>\<open>DecisionOut\<close> refuses: a 500.\<close>

definition decision_out_of :: "decision_in \<Rightarrow> dec_result \<Rightarrow> decision_out response" where
  "decision_out_of b r =
     (case res_score r of
        None \<Rightarrow> internal_error
      | Some s \<Rightarrow> Inr
          \<lparr>do_application_id = di_application_id b, do_outcome = res_decision r, do_score = fl (of_int s),
           do_reason = (case res_reasons r of [] \<Rightarrow> None | x # xs \<Rightarrow> Some (reason_text x)),
           do_policy_band = res_band r, do_principal_reasons = res_reasons r,
           do_decided_by = res_decided_by r\<rparr>)"

definition post_decision ::
  "(string \<Rightarrow> string \<Rightarrow> string) \<Rightarrow> dec_config \<Rightarrow> (string \<Rightarrow> bureau_answer) \<Rightarrow> string \<Rightarrow>
   (nat \<Rightarrow> dec_db \<Rightarrow> dec_db) \<Rightarrow> decision_in \<Rightarrow> string option \<Rightarrow> dec_db \<Rightarrow> decision_out response \<times> dec_db" where
  "post_decision hmac cfg bureau token w b x_internal_service db =
     (if \<not> decision_in_ok b then (raise_http 422 ''validation error'', db)
      else case dec_require_internal_caller token x_internal_service of
        Inl e \<Rightarrow> (Inl e, db)
      | Inr _ \<Rightarrow>
          (case decide hmac cfg bureau w (application_from b) db of
             (Inl e, db') \<Rightarrow> (dec_error_response e, db')
           | (Inr r, db') \<Rightarrow> (decision_out_of b r, db')))"

record record_out =
  ro_application_id :: int
  ro_status :: string
  ro_outcome :: "string option"
  ro_principal_reasons :: "principal_reason list"
  ro_drivers :: "drivers option"
  ro_policy_band :: "string option"
  ro_decided_by :: "string option"
  ro_decided_at :: "int option"

text \<open>\<^verbatim>\<open>ORDER BY id DESC LIMIT 1\<close>.\<close>

definition latest_event :: "(dec_event \<Rightarrow> bool) \<Rightarrow> dec_db \<Rightarrow> dec_event option" where
  "latest_event sel db =
     (case filter sel (dec_events db) of [] \<Rightarrow> None | e # es \<Rightarrow> Some (min_by (\<lambda>e. - ev_id e) e es))"

definition recorded :: "int \<Rightarrow> dec_event \<Rightarrow> record_out" where
  "recorded app e =
     \<lparr>ro_application_id = app, ro_status = ''recorded'', ro_outcome = Some (ev_outcome e),
      ro_principal_reasons = ev_reasons e, ro_drivers = ev_drivers e, ro_policy_band = Some (ev_band e),
      ro_decided_by = Some (ev_decided_by e), ro_decided_at = Some (ev_decided_at e)\<rparr>"

definition get_decision_record ::
  "string \<Rightarrow> int \<Rightarrow> string option \<Rightarrow> string option \<Rightarrow> dec_db \<Rightarrow> record_out response" where
  "get_decision_record token app request_id x_internal_service db =
     bind_result
       (case request_id of
          Some r \<Rightarrow> if 64 < length r then raise_http 422 ''validation error'' else Inr ()
        | None \<Rightarrow> Inr ())
       (\<lambda>_. bind_result (dec_require_internal_caller token x_internal_service) (\<lambda>_.
       case request_id of
         Some rid \<Rightarrow>
           (case latest_event (has_key app rid) db of
              None \<Rightarrow> raise_http 404 ''no decision event for this request_id''
            | Some e \<Rightarrow> Inr (recorded app e))
       | None \<Rightarrow>
           (case latest_event (\<lambda>e. ev_app_id e = app) db of
              Some e \<Rightarrow> Inr (recorded app e)
            | None \<Rightarrow>
                (case outcome_of db app of
                   Some oc \<Rightarrow> Inr \<lparr>ro_application_id = app, ro_status = ''no_record_legacy'',
                       ro_outcome = Some oc, ro_principal_reasons = [], ro_drivers = None,
                       ro_policy_band = None, ro_decided_by = None, ro_decided_at = None\<rparr>
                 | None \<Rightarrow> raise_http 404 ''application was never decisioned''))))"

section \<open>Steps of the log\<close>

definition key_taken :: "dec_event \<Rightarrow> dec_db \<Rightarrow> bool" where
  "key_taken e db \<longleftrightarrow>
     (case ev_request_id e of None \<Rightarrow> False | Some rid \<Rightarrow> find_event_by_request (ev_app_id e) rid db \<noteq> None)"

inductive log_step :: "dec_db \<Rightarrow> dec_db \<Rightarrow> bool" where
  step_record: "\<not> key_taken e db \<Longrightarrow> ev_app_id e \<in> set (dec_apps db) \<Longrightarrow> log_step db (append_event e db)"
| step_burn: "log_step db (burn_id db)"
| step_application: "log_step db (db\<lparr>dec_apps := a # dec_apps db\<rparr>)"
| step_clock: "log_step db (db\<lparr>dec_clock := c\<rparr>)"

abbreviation log_path :: "dec_db \<Rightarrow> dec_db \<Rightarrow> bool" where
  "log_path \<equiv> log_step\<^sup>*\<^sup>*"

definition others_ok :: "(nat \<Rightarrow> dec_db \<Rightarrow> dec_db) \<Rightarrow> bool" where
  "others_ok w \<longleftrightarrow> (\<forall>n db. log_path db (w n db))"

definition log_sound :: "dec_db \<Rightarrow> bool" where
  "log_sound db \<longleftrightarrow>
     sorted_wrt (<) (map ev_id (dec_events db)) \<and>
     (\<forall>e \<in> set (dec_events db). ev_id e < next_event_id db \<and> ev_app_id e \<in> set (dec_apps db)) \<and>
     (\<forall>app rid. length (filter (has_key app rid) (dec_events db)) \<le> 1) \<and>
     (\<forall>app. filter (\<lambda>e. ev_app_id e = app) (dec_events db) \<noteq> [] \<longrightarrow>
        outcome_of db app = Some (ev_outcome (last (filter (\<lambda>e. ev_app_id e = app) (dec_events db)))))"

lemma append_event_sound:
  assumes s: "log_sound db" and k: "\<not> key_taken e db" and a: "ev_app_id e \<in> set (dec_apps db)"
  shows "log_sound (append_event e db)"
proof -
  have "filter (has_key (ev_app_id e) rid) (dec_events db) = []" if "ev_request_id e = Some rid" for rid
    using k that by (auto simp: key_taken_def find_event_by_request_def find_None_iff filter_empty_conv)
  then have "length (filter (has_key app rid) (dec_events (append_event e db))) \<le> 1" for app rid
    using s by (auto simp: log_sound_def append_event_def has_key_def)
  moreover have "sorted_wrt (<) (map ev_id (dec_events (append_event e db)))"
    using s by (auto simp: log_sound_def append_event_def sorted_wrt_append)
  moreover have "\<forall>x \<in> set (dec_events (append_event e db)).
      ev_id x < next_event_id (append_event e db) \<and> ev_app_id x \<in> set (dec_apps (append_event e db))"
    using s a by (auto simp: log_sound_def append_event_def)
  moreover have "\<forall>app. filter (\<lambda>e. ev_app_id e = app) (dec_events (append_event e db)) \<noteq> [] \<longrightarrow>
      outcome_of (append_event e db) app =
        Some (ev_outcome (last (filter (\<lambda>e. ev_app_id e = app) (dec_events (append_event e db)))))"
    using s by (auto simp: log_sound_def append_event_def)
  ultimately show ?thesis unfolding log_sound_def by blast
qed

lemma log_step_sound: "log_step db db' \<Longrightarrow> log_sound db \<Longrightarrow> log_sound db'"
proof (induction rule: log_step.induct)
  case (step_record e db)
  then show ?case using append_event_sound by blast
next
  case (step_burn db)
  then show ?case by (auto simp: log_sound_def burn_id_def)
qed (auto simp: log_sound_def)

lemma log_path_sound: "log_path db db' \<Longrightarrow> log_sound db \<Longrightarrow> log_sound db'"
  by (induction rule: rtranclp_induct) (auto intro: log_step_sound)

definition log_extends :: "dec_db \<Rightarrow> dec_db \<Rightarrow> bool" where
  "log_extends db db' \<longleftrightarrow> (\<exists>es. dec_events db' = dec_events db @ es)"

lemma log_path_extends: "log_path db db' \<Longrightarrow> log_extends db db'"
proof (induction rule: rtranclp_induct)
  case base
  show ?case by (simp add: log_extends_def)
next
  case (step y z)
  from step(2) have "\<exists>es. dec_events z = dec_events y @ es"
    by cases (simp_all add: append_event_def burn_id_def)
  with step(3) show ?case by (auto simp: log_extends_def)
qed

lemma log_path_calls: "log_path db db' \<Longrightarrow> bureau_calls db' = bureau_calls db"
proof (induction rule: rtranclp_induct)
  case (step y z)
  from step(2) have "bureau_calls z = bureau_calls y"
    by cases (simp_all add: append_event_def burn_id_def)
  with step(3) show ?case by simp
qed simp

section \<open>What a decision does to the log\<close>

lemma others_path: "others_ok w \<Longrightarrow> log_path db d \<Longrightarrow> log_path db (w n d)"
  unfolding others_ok_def by (meson rtranclp_trans)

lemma idle_ok [simp]: "others_ok (\<lambda>_ d. d)"
  by (simp add: others_ok_def)

lemma persist_path:
  assumes w: "others_ok w"
  shows "log_path db (snd (persist_event w e db))"
proof (cases "key_taken e db")
  case True
  have "log_path db (w 2 (burn_id db))"
    by (rule others_path [OF w r_into_rtranclp [of log_step, OF step_burn]])
  with True show ?thesis
    by (simp add: persist_event_def key_taken_def Let_def split: option.splits)
next
  case False
  show ?thesis
  proof (cases "ev_app_id e \<in> set (dec_apps db)")
    case True
    then show ?thesis using False step_record [OF False]
      by (auto simp: persist_event_def key_taken_def split: option.splits)
  next
    case absent: False
    then show ?thesis using False step_burn [of db]
      by (auto simp: persist_event_def key_taken_def split: option.splits)
  qed
qed

text \<open>What a recorded or replayed result rests on.\<close>

lemma find_event_by_requestD:
  "find_event_by_request app rid db = Some e \<Longrightarrow> e \<in> set (dec_events db) \<and> ev_app_id e = app \<and> ev_request_id e = Some rid"
  by (auto simp: find_event_by_request_def find_Some_iff has_key_def)

lemma persist_cases:
  assumes "persist_event w e db = (Inr r, db')"
  shows "case r of
      None \<Rightarrow> db' = append_event e db
    | Some x \<Rightarrow> x \<in> set (dec_events db') \<and> ev_app_id x = ev_app_id e \<and> ev_request_id x = ev_request_id e"
  using assms
  by (auto simp: persist_event_def Let_def split: if_splits option.splits dest: find_event_by_requestD)

lemma count_call_simps [simp]:
  "dec_events (count_call cfg db) = dec_events db" "outcome_of (count_call cfg db) = outcome_of db"
  "dec_apps (count_call cfg db) = dec_apps db" "next_event_id (count_call cfg db) = next_event_id db"
  by (simp_all add: count_call_def)

lemma count_call_sound [simp]: "log_sound (count_call cfg db) = log_sound db"
  by (simp add: log_sound_def)

lemma log_extends_trans: "log_extends a b \<Longrightarrow> log_extends b c \<Longrightarrow> log_extends a c"
  by (auto simp: log_extends_def)

lemma log_extends_count [simp]: "log_extends (count_call cfg db) d = log_extends db d"
  by (simp add: log_extends_def)

lemma run_decision_path:
  assumes w: "others_ok w"
  shows "log_path (count_call cfg db) (snd (run_decision hmac cfg bureau w a rid db))"
proof (cases "pull_and_score hmac cfg bureau a rid")
  case (Inl e)
  then show ?thesis by (simp add: run_decision_def)
next
  case (Inr ev)
  have "log_path (count_call cfg db) (snd (persist_event w ev (w 1 (count_call cfg db))))"
    using others_path [OF w rtranclp.rtrancl_refl] persist_path [OF w] by (rule rtranclp_trans)
  with Inr show ?thesis
    by (cases "persist_event w ev (w 1 (count_call cfg db))")
      (simp add: run_decision_def Let_def split: sum.split option.split)
qed

lemma decide_keeps:
  assumes w: "others_ok w"
  shows "log_extends db (snd (decide hmac cfg bureau w a db)) \<and>
         (log_sound db \<longrightarrow> log_sound (snd (decide hmac cfg bureau w a db)))"
proof -
  have run: "log_extends d (snd (run_decision hmac cfg bureau w a rid d)) \<and>
             (log_sound d \<longrightarrow> log_sound (snd (run_decision hmac cfg bureau w a rid d)))" for d rid
    using log_path_extends [OF run_decision_path [OF w]] log_path_sound [OF run_decision_path [OF w]]
    by (metis count_call_sound log_extends_count)
  have w0: "log_path db (w 0 db)" using w by (simp add: others_ok_def)
  show ?thesis
    using run log_path_extends [OF w0] log_path_sound [OF w0] log_extends_trans
    by (simp add: decide_def Let_def split: option.split)
qed

lemma result_from_stored [simp]:
  "result_from_event (e\<lparr>ev_id := i, ev_decided_at := t\<rparr>) = result_from_event e"
  by (simp add: result_from_event_def)

section \<open>The event of a decision\<close>

text \<open>With the shipped model every feature is mapped, so the event is determined.\<close>

definition model_drivers :: "scoring_inputs \<Rightarrow> drivers" where
  "model_drivers i =
     \<lparr>dr_model_id = model_id, dr_model_version = model_version,
      dr_model_score = score (score_application i), dr_attributions = attributions (score_application i),
      dr_cutoff_approve = approve_cutoff, dr_cutoff_deny = deny_cutoff\<rparr>"

definition band_of :: "scoring_inputs \<Rightarrow> string" where
  "band_of i = policy_band (score (score_application i))"

definition stated_reasons :: "scoring_inputs \<Rightarrow> principal_reason list" where
  "stated_reasons i =
     (if band_of i = ''approve'' then [] else the (principal_reasons (attributions (score_application i))))"

definition provenance_of :: "scoring_inputs \<Rightarrow> string \<Rightarrow> (string \<times> string) list" where
  "provenance_of i label =
     map (\<lambda>a. (fst a, if fst a \<in> set credit_derived_features then label else ''applicant_stated''))
       (attributions (score_application i))"

definition event_for ::
  "(string \<Rightarrow> string \<Rightarrow> string) \<Rightarrow> dec_config \<Rightarrow> application \<Rightarrow> string option \<Rightarrow> rat \<Rightarrow> string \<Rightarrow> dec_event" where
  "event_for hmac cfg a rid b label =
     (let i = scoring_inputs_of b a
      in \<lparr>ev_id = 0, ev_app_id = ap_app_id a, ev_outcome = band_of i, ev_reasons = stated_reasons i,
          ev_drivers = Some (model_drivers i), ev_band = band_of i,
          ev_inputs = (''bureau_score'', VNum b) # stated_inputs a @
            fingerprint_entry (ssn_fingerprint hmac cfg (ap_ssn a)) @
            [(''feature_provenance'', VProvenance (provenance_of i label))],
          ev_decided_by = model_signature, ev_request_id = rid, ev_decided_at = 0\<rparr>)"

lemma feature_provenance_scored:
  "map_of credit_source_provenance source = Some label \<Longrightarrow>
   feature_provenance (attributions (score_application i)) source = Some (provenance_of i label)"
  using provenance_mapped by (fastforce simp: feature_provenance_def provenance_of_def)

lemma decision_event_eq:
  assumes "map_of credit_source_provenance source = Some label"
  shows "decision_event hmac cfg a rid b source =
    (let i = scoring_inputs_of b a
     in bind_result (validate_record (band_of i) (band_of i) (stated_reasons i) (Some (model_drivers i)) model_signature)
          (\<lambda>_. Inr (event_for hmac cfg a rid b label)))"
  using feature_provenance_scored [OF assms, of "scoring_inputs_of b a"] reasons_are_adverse [of "scoring_inputs_of b a"]
  by (simp add: decision_event_def Let_def band_of_def stated_reasons_def model_drivers_def event_for_def)

lemma pull_source:
  "pull_credit cfg bureau ssn = Inr (s, source) \<Longrightarrow> \<exists>label. map_of credit_source_provenance source = Some label"
  by (auto simp: pull_credit_def credit_source_provenance_def split: if_splits bureau_answer.splits)

lemma pull_and_scoreE:
  assumes "pull_and_score hmac cfg bureau a rid = Inr ev"
  obtains b source label where "pull_credit cfg bureau (ap_ssn a) = Inr (Some b, source)"
    "map_of credit_source_provenance source = Some label" "ev = event_for hmac cfg a rid b label"
proof -
  obtain s source where pull: "pull_credit cfg bureau (ap_ssn a) = Inr (s, source)"
    using assms by (cases "pull_credit cfg bureau (ap_ssn a)") (auto simp: pull_and_score_def)
  then obtain label where label: "map_of credit_source_provenance source = Some label"
    using pull_source by blast
  obtain b where s: "s = Some b" using assms pull by (cases s) (auto simp: pull_and_score_def)
  have "ev = event_for hmac cfg a rid b label"
    using assms pull s decision_event_eq [OF label]
    by (auto simp: pull_and_score_def Let_def bind_result_Inr_iff)
  with pull label s show ?thesis using that by blast
qed

lemma pull_and_score_ids:
  "pull_and_score hmac cfg bureau a rid = Inr ev \<Longrightarrow> ev_app_id ev = ap_app_id a \<and> ev_request_id ev = rid"
  by (erule pull_and_scoreE) (simp add: event_for_def Let_def)

text \<open>A denial always passes the checks on its record.\<close>

lemma record_valid:
  assumes i: "scorable i"
  shows "validate_record (band_of i) (band_of i) (stated_reasons i) (Some (model_drivers i)) model_signature = Inr ()"
proof -
  have neg_reasons: "stated_reasons i \<noteq> []" if neg: "\<exists>a \<in> set (attributions (score_application i)). snd a < 0"
    and band: "band_of i \<noteq> ''approve''"
  proof -
    obtain a where "a \<in> set (adverse i)" using neg adverse_sound [of i] by blast
    then show ?thesis using band reasons_are_adverse [of i] by (auto simp: stated_reasons_def)
  qed
  show ?thesis
  proof (cases "band_of i = ''approve''")
    case True
    then show ?thesis by (simp add: validate_record_def)
  next
    case False
    have "stated_reasons i \<noteq> []" if "band_of i = ''deny''"
      using neg_reasons [OF _ False] deny_negative_driver [OF i] that by (simp add: band_of_def)
    moreover have "\<not> has_negative_drivers (model_drivers i)" if "stated_reasons i = []"
      using neg_reasons [OF _ False] that by (auto simp: has_negative_drivers_def model_drivers_def)
    ultimately show ?thesis by (auto simp: validate_record_def)
  qed
qed

section \<open>Replay\<close>

lemma conflict_in_self:
  assumes "\<And>k v. (k, v) \<in> set cur \<Longrightarrow> k = ''ssn_fingerprint'' \<or> (\<exists>r. v = VNum r)"
    and "\<And>k v. (k, v) \<in> set cur \<Longrightarrow> map_of stored k = Some v"
  shows "conflict_in stored cur = Inr False"
  using assms
proof (induction cur)
  case (Cons kv rest)
  obtain k v where kv: "kv = (k, v)" by (cases kv)
  have rest: "conflict_in stored rest = Inr False" using Cons by (metis list.set_intros(2))
  have "map_of stored k = Some v" "k = ''ssn_fingerprint'' \<or> (\<exists>r. v = VNum r)"
    using Cons.prems kv by auto
  then show ?case using rest kv by auto
qed simp

lemma event_no_conflict:
  "inputs_conflict (ev_inputs (event_for hmac cfg a rid b label)) (request_inputs hmac cfg a) = Inr False"
  unfolding inputs_conflict_def
  by (auto simp: event_for_def Let_def request_inputs_def stated_inputs_def fingerprint_entry_def
      intro!: conflict_in_self split: option.splits)


section \<open>Decisions and their events\<close>

lemma run_decision_recorded:
  assumes "run_decision hmac cfg bureau w a rid db = (Inr r, db')"
  shows "\<exists>e \<in> set (dec_events db'). ev_app_id e = ap_app_id a \<and> ev_request_id e = rid \<and> r = result_from_event e \<and>
    inputs_conflict (ev_inputs e) (request_inputs hmac cfg a) = Inr False"
proof -
  obtain ev where ev: "pull_and_score hmac cfg bureau a rid = Inr ev"
    using assms by (cases "pull_and_score hmac cfg bureau a rid") (auto simp: run_decision_def)
  obtain p db2 where p: "persist_event w ev (w 1 (count_call cfg db)) = (Inr p, db2)"
    using assms ev by (cases "persist_event w ev (w 1 (count_call cfg db))"; cases "fst (persist_event w ev (w 1 (count_call cfg db)))")
      (auto simp: run_decision_def Let_def)
  show ?thesis
  proof (cases p)
    case None
    then have "r = result_from_event ev" "db' = append_event ev (w 1 (count_call cfg db))"
      using assms ev p persist_cases [OF p] by (auto simp: run_decision_def Let_def)
    moreover have "inputs_conflict (ev_inputs ev) (request_inputs hmac cfg a) = Inr False"
      using ev by (rule pull_and_scoreE) (simp add: event_no_conflict)
    ultimately show ?thesis using pull_and_score_ids [OF ev]
      by (auto simp: append_event_def)
  next
    case (Some raced)
    then have "r = result_from_event raced" "db' = db2"
      "inputs_conflict (ev_inputs raced) (request_inputs hmac cfg a) = Inr False"
      using assms ev p by (auto simp: run_decision_def Let_def bind_result_Inr_iff split: if_splits)
    then show ?thesis using Some persist_cases [OF p] pull_and_score_ids [OF ev]
      by (intro bexI [of _ raced]) auto
  qed
qed

definition key_of :: "application \<Rightarrow> string option" where
  "key_of a = (if ap_request_id a = Some '''' then None else ap_request_id a)"

lemma decide_recorded:
  assumes "decide hmac cfg bureau w a db = (Inr r, db')"
  shows "\<exists>e \<in> set (dec_events db'). ev_app_id e = ap_app_id a \<and> ev_request_id e = key_of a \<and>
    r = result_from_event e \<and> inputs_conflict (ev_inputs e) (request_inputs hmac cfg a) = Inr False"
proof (cases "key_of a")
  case None
  then have "decide hmac cfg bureau w a db = run_decision hmac cfg bureau w a None db"
    by (auto simp: key_of_def decide_def split: if_splits option.splits)
  with None run_decision_recorded [of hmac cfg bureau w a None db r db'] assms show ?thesis by simp
next
  case (Some rid)
  then have rid: "ap_request_id a = Some rid" "rid \<noteq> ''''" by (auto simp: key_of_def split: if_splits)
  show ?thesis
  proof (cases "find_event_by_request (ap_app_id a) rid (w 0 db)")
    case None
    then show ?thesis
      using assms rid Some run_decision_recorded [of hmac cfg bureau w a "Some rid" "w 0 db" r db']
      by (simp add: decide_def Let_def)
  next
    case found: (Some e)
    then have "r = result_from_event e" "db' = w 0 db"
      "inputs_conflict (ev_inputs e) (request_inputs hmac cfg a) = Inr False"
      using assms rid by (auto simp: decide_def Let_def bind_result_Inr_iff split: if_splits)
    then show ?thesis using Some find_event_by_requestD [OF found] by (intro bexI [of _ e]) auto
  qed
qed

text \<open>Without a key the event is the one this call appended.\<close>

lemma decide_unkeyed_appends:
  assumes "decide hmac cfg bureau w a db = (Inr r, db')" "key_of a = None"
  shows "\<exists>es e. dec_events db' = es @ [e] \<and> ev_app_id e = ap_app_id a \<and> ev_request_id e = None \<and> r = result_from_event e"
proof -
  have run: "run_decision hmac cfg bureau w a None db = (Inr r, db')"
    using assms by (auto simp: key_of_def decide_def split: if_splits option.splits)
  obtain ev where ev: "pull_and_score hmac cfg bureau a None = Inr ev"
    using run by (cases "pull_and_score hmac cfg bureau a None") (auto simp: run_decision_def)
  note ids = pull_and_score_ids [OF ev]
  then have "r = result_from_event ev" "db' = append_event ev (w 1 (count_call cfg db))"
    using run ev by (auto simp: run_decision_def Let_def persist_event_def split: if_splits)
  then show ?thesis using ids by (simp add: append_event_def)
qed

lemma decide_event:
  assumes "decide hmac cfg bureau w a db = (Inr r, db')"
  shows "\<exists>e \<in> set (dec_events db'). ev_app_id e = ap_app_id a \<and> ev_request_id e = key_of a \<and> r = result_from_event e \<and>
    (key_of a = None \<longrightarrow> e = last (dec_events db'))"
proof (cases "key_of a")
  case None
  then show ?thesis using decide_unkeyed_appends [OF assms] by fastforce
qed (use decide_recorded [OF assms] in auto)

lemma post_decision_Inr:
  assumes "post_decision hmac cfg bureau token w b x db = (Inr out, db')"
  shows "decision_in_ok b \<and> dec_require_internal_caller token x = Inr () \<and>
    (\<exists>r. decide hmac cfg bureau w (application_from b) db = (Inr r, db') \<and> decision_out_of b r = Inr out)"
proof -
  have err: "dec_error_response e \<noteq> Inr out" for e by (cases e) (simp_all add: internal_error_def)
  show ?thesis using assms
    by (auto simp: post_decision_def err split: if_splits sum.splits prod.splits)
qed

lemma post_decision_state:
  "snd (post_decision hmac cfg bureau token w b x db) \<in>
     {db, snd (decide hmac cfg bureau w (application_from b) db)}"
  by (auto simp: post_decision_def split: sum.split prod.split)

text \<open>With a key, the event found is the only one.\<close>

lemma find_unique:
  assumes s: "log_sound db" and e: "e \<in> set (dec_events db)" "has_key app rid e"
  shows "find_event_by_request app rid db = Some e"
proof -
  have "length (filter (has_key app rid) (dec_events db)) \<le> 1" using s by (simp add: log_sound_def)
  moreover have "e \<in> set (filter (has_key app rid) (dec_events db))" using e by simp
  ultimately have fl: "filter (has_key app rid) (dec_events db) = [e]"
    by (cases "filter (has_key app rid) (dec_events db)") auto
  obtain x where x: "find_event_by_request app rid db = Some x"
    using e by (cases "find_event_by_request app rid db") (auto simp: find_event_by_request_def find_None_iff)
  then have "x \<in> set (filter (has_key app rid) (dec_events db))"
    by (auto simp: find_event_by_request_def find_Some_iff)
  with fl x show ?thesis by simp
qed

lemma map_of_tabulate: "map_of (map (\<lambda>a. (fst a, g (fst a))) xs) f = (if f \<in> fst ` set xs then Some (g f) else None)"
  by (induction xs) auto

text \<open>A request in good order, from the pull to the answer.\<close>

lemma scored_decision:
  assumes ok: "decision_in_ok b" and caller: "dec_require_internal_caller token x = Inr ()"
    and key: "case key_of (application_from b) of None \<Rightarrow> True
       | Some rid \<Rightarrow> find_event_by_request (di_application_id b) rid db = None"
    and bureau: "experian_key cfg \<noteq> ''''" "bureau (di_ssn b) = Answered (Some s)" "0 \<le> s" "s \<le> 1000"
    and app: "di_application_id b \<in> set (dec_apps db)"
  shows "\<exists>out. post_decision hmac cfg bureau token (\<lambda>_ d. d) b x db =
      (Inr out, append_event (event_for hmac cfg (application_from b) (key_of (application_from b)) s ''bureau_verified'')
         (count_call cfg db)) \<and>
    do_outcome out = policy_band (score (score_application (scoring_inputs_of s (application_from b)))) \<and>
    do_principal_reasons out = stated_reasons (scoring_inputs_of s (application_from b))"
proof -
  let ?a = "application_from b" and ?i = "scoring_inputs_of s (application_from b)"
  let ?e = "event_for hmac cfg ?a (key_of ?a) s ''bureau_verified''"
  have i: "scorable ?i"
    using ok bureau by (simp add: scorable_def scoring_inputs_of_def application_from_def decision_in_ok_def)
  have pull: "pull_credit cfg bureau (ap_ssn ?a) = Inr (Some s, ''bureau'')"
    using bureau by (simp add: pull_credit_def application_from_def)
  have label: "map_of credit_source_provenance ''bureau'' = Some ''bureau_verified''"
    by (simp add: credit_source_provenance_def)
  have ev: "pull_and_score hmac cfg bureau ?a (key_of ?a) = Inr ?e"
    using pull record_valid [OF i] decision_event_eq [OF label, of hmac cfg ?a "key_of ?a" s]
    by (simp add: pull_and_score_def Let_def)
  have a: "ap_app_id ?a = di_application_id b" by (simp add: application_from_def)
  have free: "\<not> key_taken ?e (count_call cfg db)"
    using key by (simp add: key_taken_def event_for_def Let_def a find_event_by_request_def split: option.splits)
  have "decide hmac cfg bureau (\<lambda>_ d. d) ?a db = run_decision hmac cfg bureau (\<lambda>_ d. d) ?a (key_of ?a) db"
    using key a by (auto simp: decide_def key_of_def Let_def split: if_splits option.splits)
  also have "\<dots> = (Inr (result_from_event ?e), append_event ?e (count_call cfg db))"
    using ev app free a by (simp add: run_decision_def Let_def persist_event_def key_taken_def event_for_def)
  finally show ?thesis
    using ok caller
    by (simp add: post_decision_def decision_out_of_def result_from_event_def event_for_def Let_def
        model_drivers_def band_of_def)
qed

section \<open>Properties\<close>

definition sample_request :: "string option \<Rightarrow> decision_in" where
  "sample_request key =
     \<lparr>di_application_id = 7, di_name = ''A'', di_ssn = ''1'', di_requested_amount = 15000,
      di_term_months = 36, di_annual_income = 42000, di_monthly_debt = 1200,
      di_employment_years = 1, di_request_id = key\<rparr>"

definition sample_config :: dec_config where
  "sample_config = \<lparr>experian_key = ''k'', environment = ''production'', allow_synthetic_credit = False,
     decision_fingerprint_pepper = ''''\<rparr>"

definition sample_log :: dec_db where
  "sample_log = \<lparr>dec_events = [], outcome_of = (\<lambda>_. None), dec_apps = [7], next_event_id = 1,
     dec_clock = 0, bureau_calls = 0\<rparr>"

lemma sample_log_sound: "log_sound sample_log"
  by (simp add: log_sound_def sample_log_def)

lemma sample_decision:
  "\<exists>out db'. post_decision (\<lambda>_ t. t) sample_config (\<lambda>_. Answered (Some 580)) ''t'' (\<lambda>_ d. d)
     (sample_request (Some ''r'')) (Some ''t'') sample_log = (Inr out, db')"
proof -
  let ?b = "sample_request (Some ''r'')"
  have free: "case key_of (application_from ?b) of None \<Rightarrow> True
      | Some rid \<Rightarrow> find_event_by_request (di_application_id ?b) rid sample_log = None"
    by (simp add: find_event_by_request_def sample_log_def split: option.split)
  have "decision_in_ok ?b" "dec_require_internal_caller ''t'' (Some ''t'') = Inr ()"
    "di_application_id ?b \<in> set (dec_apps sample_log)" "experian_key sample_config \<noteq> ''''"
    by (simp_all add: sample_request_def sample_config_def sample_log_def decision_in_ok_def dec_require_internal_caller_def)
  then show ?thesis
    using scored_decision [of ?b "''t''" "Some ''t''", OF _ _ free, of sample_config "\<lambda>_. Answered (Some 580)" 580 "\<lambda>_ t. t"]
    by fastforce
qed

text \<open>C14. No decision without its record. Whatever other requests do meanwhile, an answered decision
  is in the log at that moment: an event of the application, under the request id when one was
  given, with the same outcome, band, reasons and decider as the answer.\<close>

theorem no_decision_without_record:
  assumes "post_decision hmac cfg bureau token w b x db = (Inr out, db')"
  shows "\<exists>e \<in> set (dec_events db'). ev_app_id e = di_application_id b \<and>
    ev_request_id e = key_of (application_from b) \<and> ev_outcome e = do_outcome out \<and>
    ev_band e = do_policy_band out \<and> ev_reasons e = do_principal_reasons out \<and>
    ev_decided_by e = do_decided_by out"
proof -
  obtain r where r: "decide hmac cfg bureau w (application_from b) db = (Inr r, db')"
    "decision_out_of b r = Inr out"
    using post_decision_Inr [OF assms] by blast
  then obtain e where e: "e \<in> set (dec_events db')" "ev_app_id e = ap_app_id (application_from b)"
    "ev_request_id e = key_of (application_from b)" "r = result_from_event e"
    using decide_recorded by blast
  with r(2) show ?thesis
    by (intro bexI [of _ e])
      (auto simp: decision_out_of_def result_from_event_def application_from_def internal_error_def split: option.splits)
qed

theorem no_decision_without_record_witness:
  "\<exists>out db'. post_decision (\<lambda>_ t. t) sample_config (\<lambda>_. Answered (Some 580)) ''t'' (\<lambda>_ d. d)
     (sample_request (Some ''r'')) (Some ''t'') sample_log = (Inr out, db') \<and>
   (\<exists>e \<in> set (dec_events db'). ev_app_id e = 7 \<and> ev_outcome e = do_outcome out)"
proof -
  obtain out db' where d: "post_decision (\<lambda>_ t. t) sample_config (\<lambda>_. Answered (Some 580)) ''t'' (\<lambda>_ d. d)
     (sample_request (Some ''r'')) (Some ''t'') sample_log = (Inr out, db')" using sample_decision by blast
  then show ?thesis using no_decision_without_record [OF d] by (auto simp: sample_request_def)
qed

text \<open>A retry is a replay. After a keyed request was decided, and after any number of steps of
  other requests, the same request is answered the same, from the record: the bureau is not
  called, whatever it would answer now, and nothing is written.\<close>

theorem retried_decision_is_replayed:
  assumes s: "log_sound db" and w: "others_ok w" "others_ok w'"
    and key: "di_request_id b = Some rid" "rid \<noteq> ''''"
    and first: "post_decision hmac cfg bureau token w b x db = (Inr out, db')"
    and since: "log_path db' db''"
  shows "post_decision hmac cfg bureau' token w' b x db'' = (Inr out, w' 0 db'') \<and>
         bureau_calls (w' 0 db'') = bureau_calls db''"
proof -
  let ?a = "application_from b"
  obtain r where ok: "decision_in_ok b" "dec_require_internal_caller token x = Inr ()"
    and r: "decide hmac cfg bureau w ?a db = (Inr r, db')" "decision_out_of b r = Inr out"
    using post_decision_Inr [OF first] by blast
  have k: "key_of ?a = Some rid" "ap_request_id ?a = Some rid" using key by (simp_all add: key_of_def application_from_def)
  obtain e where e: "e \<in> set (dec_events db')" "ev_app_id e = ap_app_id ?a" "ev_request_id e = Some rid"
    "r = result_from_event e" "inputs_conflict (ev_inputs e) (request_inputs hmac cfg ?a) = Inr False"
    using decide_recorded [OF r(1)] k by auto
  have p: "log_path db' (w' 0 db'')" by (rule others_path [OF w(2) since])
  have "log_sound db'" using decide_keeps [OF w(1), of db hmac cfg bureau ?a] r(1) s by simp
  then have "log_sound (w' 0 db'')" using log_path_sound [OF p] by blast
  moreover have "e \<in> set (dec_events (w' 0 db''))" using log_path_extends [OF p] e(1) by (auto simp: log_extends_def)
  ultimately have "find_event_by_request (ap_app_id ?a) rid (w' 0 db'') = Some e"
    by (rule find_unique) (simp add: has_key_def e)
  then have "decide hmac cfg bureau' w' ?a db'' = (Inr r, w' 0 db'')"
    using k key e by (simp add: decide_def Let_def)
  then show ?thesis
    using ok r(2) log_path_calls [of db'' "w' 0 db''"] w(2) by (simp add: post_decision_def others_ok_def)
qed

theorem retried_decision_is_replayed_witness:
  "\<exists>out db'. post_decision (\<lambda>_ t. t) sample_config (\<lambda>_. Answered (Some 580)) ''t'' (\<lambda>_ d. d)
     (sample_request (Some ''r'')) (Some ''t'') sample_log = (Inr out, db') \<and>
   post_decision (\<lambda>_ t. t) sample_config (\<lambda>_. Call_failed) ''t'' (\<lambda>_ d. d)
     (sample_request (Some ''r'')) (Some ''t'') db' = (Inr out, db')"
proof -
  obtain out db' where d: "post_decision (\<lambda>_ t. t) sample_config (\<lambda>_. Answered (Some 580)) ''t'' (\<lambda>_ d. d)
     (sample_request (Some ''r'')) (Some ''t'') sample_log = (Inr out, db')" using sample_decision by blast
  have "di_request_id (sample_request (Some ''r'')) = Some ''r''" by (simp add: sample_request_def)
  from retried_decision_is_replayed [OF sample_log_sound idle_ok idle_ok this _ d rtranclp.rtrancl_refl, of "\<lambda>_. Call_failed"] d
  show ?thesis by auto
qed

text \<open>C15. The log stays sound. A decision request, with any others in between, only appends to the
  log, at most one event per application and request id, in the order of the ids; and the
  current outcome of a decided application is that of its last event.\<close>

theorem decision_log_stays_sound:
  assumes "others_ok w" and "log_sound db"
  shows "log_sound (snd (post_decision hmac cfg bureau token w b x db)) \<and>
         log_extends db (snd (post_decision hmac cfg bureau token w b x db))"
proof -
  have "log_extends db db" by (simp add: log_extends_def)
  then show ?thesis
    using post_decision_state [of hmac cfg bureau token w b x db] decide_keeps [OF assms(1), of db] assms(2) by auto
qed

theorem decision_log_stays_sound_witness:
  "log_sound (snd (post_decision (\<lambda>_ t. t) sample_config (\<lambda>_. Answered (Some 580)) ''t'' (\<lambda>_ d. d)
     (sample_request (Some ''r'')) (Some ''t'') sample_log))"
  by (rule conjunct1 [OF decision_log_stays_sound [OF idle_ok sample_log_sound]])

text \<open>A synthetic score is never passed off. In the record of a decision, the one feature computed
  from the credit score is labelled as verified by the bureau exactly when the bureau was asked
  and answered; the other three are labelled as stated by the applicant; and off a development
  environment a score that is not the bureau's decides nothing.\<close>

theorem synthetic_scores_are_labelled:
  assumes "pull_and_score hmac cfg bureau a rid = Inr ev"
  shows "\<exists>p. map_of (ev_inputs ev) ''feature_provenance'' = Some (VProvenance p) \<and>
    (map_of p ''delinquency_history'' = Some ''bureau_verified''
       \<longleftrightarrow> experian_key cfg \<noteq> '''' \<and> bureau (ap_ssn a) \<noteq> Call_failed) \<and>
    (\<forall>f \<in> set applicant_stated_features. map_of p f = Some ''applicant_stated'') \<and>
    (environment cfg \<noteq> ''development'' \<longrightarrow> map_of p ''delinquency_history'' = Some ''bureau_verified'')"
  using assms
proof (rule pull_and_scoreE)
  fix b source label
  assume pull: "pull_credit cfg bureau (ap_ssn a) = Inr (Some b, source)"
    and label: "map_of credit_source_provenance source = Some label"
    and ev: "ev = event_for hmac cfg a rid b label"
  let ?p = "provenance_of (scoring_inputs_of b a) label"
  have prov: "map_of ?p f = Some (if f \<in> set credit_derived_features then label else ''applicant_stated'')"
    if "f \<in> set (map fst reason_map)" for f
  proof -
    have "f \<in> fst ` set (attributions (score_application (scoring_inputs_of b a)))"
      using that attribution_features [of "scoring_inputs_of b a"] by simp
    then show ?thesis
      by (simp add: provenance_of_def map_of_tabulate [where g = "\<lambda>f. if f \<in> set credit_derived_features then label else ''applicant_stated''"])
  qed
  have "map_of (ev_inputs ev) ''feature_provenance'' = Some (VProvenance ?p)"
    by (simp add: ev event_for_def Let_def stated_inputs_def fingerprint_entry_def split: option.split)
  moreover have "label = ''bureau_verified'' \<longleftrightarrow> experian_key cfg \<noteq> '''' \<and> bureau (ap_ssn a) \<noteq> Call_failed"
    using pull label by (auto simp: pull_credit_def credit_source_provenance_def split: if_splits bureau_answer.splits)
  moreover have "label = ''bureau_verified''" if "environment cfg \<noteq> ''development''"
    using pull label that
    by (auto simp: pull_credit_def credit_source_provenance_def synthetic_credit_enabled_def split: if_splits bureau_answer.splits)
  ultimately show ?thesis
    using prov by (intro exI [of _ ?p])
      (auto simp: reason_map_def credit_derived_features_def applicant_stated_features_def)
qed

theorem synthetic_scores_are_labelled_witness:
  "\<exists>ev p. pull_and_score (\<lambda>_ t. t) sample_config (\<lambda>_. Answered (Some 580)) (application_from (sample_request None)) None = Inr ev \<and>
     map_of (ev_inputs ev) ''feature_provenance'' = Some (VProvenance p) \<and>
     map_of p ''delinquency_history'' = Some ''bureau_verified''"
proof -
  let ?a = "application_from (sample_request None)"
  have i: "scorable (scoring_inputs_of 580 ?a)"
    by (simp add: scorable_def scoring_inputs_of_def application_from_def sample_request_def)
  have label: "map_of credit_source_provenance ''bureau'' = Some ''bureau_verified''"
    by (simp add: credit_source_provenance_def)
  obtain ev where ev: "pull_and_score (\<lambda>_ t. t) sample_config (\<lambda>_. Answered (Some 580)) ?a None = Inr ev"
    using record_valid [OF i] decision_event_eq [OF label, of "\<lambda>_ t. t" sample_config ?a None 580]
    by (simp add: pull_and_score_def pull_credit_def sample_config_def Let_def)
  show ?thesis using ev synthetic_scores_are_labelled [OF ev] by (auto simp: sample_config_def)
qed

text \<open>An application in good order is decided. When the bureau answers a score between 0 and 1000
  for an existing application and no request id is used up, the request is answered with the
  band of its score and the reasons of its negative attributions, and exactly that is recorded.\<close>

theorem scored_application_is_decided:
  assumes ok: "decision_in_ok b" and caller: "dec_require_internal_caller token x = Inr ()"
    and key: "key_of (application_from b) = None"
    and bureau: "experian_key cfg \<noteq> ''''" "bureau (di_ssn b) = Answered (Some s)" "0 \<le> s" "s \<le> 1000"
    and app: "di_application_id b \<in> set (dec_apps db)"
  shows "\<exists>out. post_decision hmac cfg bureau token (\<lambda>_ d. d) b x db =
      (Inr out, append_event (event_for hmac cfg (application_from b) None s ''bureau_verified'') (count_call cfg db)) \<and>
    do_outcome out = policy_band (score (score_application (scoring_inputs_of s (application_from b)))) \<and>
    do_principal_reasons out = stated_reasons (scoring_inputs_of s (application_from b))"
  using scored_decision [of b token x db cfg bureau s hmac] assms by simp

theorem scored_application_is_decided_witness:
  "\<exists>out. fst (post_decision (\<lambda>_ t. t) sample_config (\<lambda>_. Answered (Some 580)) ''t'' (\<lambda>_ d. d)
     (sample_request None) (Some ''t'') sample_log) = Inr out"
  using scored_application_is_decided [of "sample_request None" "''t''" "Some ''t''" sample_config
      "\<lambda>_. Answered (Some 580)" 580 sample_log "\<lambda>_ t. t"]
  by (auto simp: sample_request_def sample_config_def sample_log_def decision_in_ok_def
      dec_require_internal_caller_def key_of_def application_from_def)

end
