(* ===== verification/Breaker.thy ===== *)
theory Breaker
  imports Prelude "HOL-Library.AList"
begin

text \<open>
  origination-service, \<^verbatim>\<open>app/clients.py\<close>: the calls to the other services behind one circuit
  breaker per base URL. The clock and what the network does are parameters; times are in
  microseconds. Each of the two breaker operations runs under the lock, so they are the steps
  of a run, and other calls may run between the two of one call.
\<close>

section \<open>State and operations\<close>

datatype breaker_state = Closed | Half_open | Open

record breaker =
  b_state :: breaker_state
  failures :: nat
  opened_at :: int

type_synonym breakers = "(string \<times> breaker) list"

definition breaker_failure_threshold :: nat where
  "breaker_failure_threshold = 5"

definition breaker_cooldown :: int where
  "breaker_cooldown = 30 * 1000000"

text \<open>\<^verbatim>\<open>setdefault\<close>.\<close>

definition breaker_for :: "string \<Rightarrow> breakers \<Rightarrow> breaker" where
  "breaker_for base_url bs =
     (case map_of bs base_url of
        Some b \<Rightarrow> b | None \<Rightarrow> \<lparr>b_state = Closed, failures = 0, opened_at = 0\<rparr>)"

definition before_call :: "int \<Rightarrow> breaker \<Rightarrow> breaker option" where
  "before_call now b =
     (case b_state b of
        Closed \<Rightarrow> Some b
      | Half_open \<Rightarrow> None
      | Open \<Rightarrow> if now - opened_at b < breaker_cooldown then None
                else Some (b\<lparr>b_state := Half_open\<rparr>))"

definition after_call :: "int \<Rightarrow> bool \<Rightarrow> breaker \<Rightarrow> breaker" where
  "after_call now ok b =
     (if ok then b\<lparr>b_state := Closed, failures := 0\<rparr>
      else if b_state b = Half_open then b\<lparr>b_state := Open, opened_at := now\<rparr>
      else let b' = b\<lparr>failures := failures b + 1\<rparr>
           in if breaker_failure_threshold \<le> failures b' then b'\<lparr>b_state := Open, opened_at := now\<rparr> else b')"

section \<open>Calls\<close>

text \<open>
  What the request comes to: a response, an \<^verbatim>\<open>httpx.HTTPError\<close> without one, or any other
  exception (a body that does not serialise, an invalid URL).
\<close>

datatype 'r transport = Response nat 'r | Http_error | Other_error

datatype client_error = Circuit_open | Status_error nat | Transport_error | Unhandled_error

text \<open>What the breaker is told: \<open>None\<close> when the exception passes both handlers.\<close>

fun verdict :: "'r transport \<Rightarrow> bool option" where
  "verdict (Response code r) = Some (code < 500)"
| "verdict Http_error = Some False"
| "verdict Other_error = None"

definition record_verdict :: "int \<Rightarrow> 'r transport \<Rightarrow> breaker \<Rightarrow> breaker" where
  "record_verdict now tr b = (case verdict tr of None \<Rightarrow> b | Some ok \<Rightarrow> after_call now ok b)"

fun raw_reply :: "'r transport \<Rightarrow> client_error + nat \<times> 'r" where
  "raw_reply (Response code r) = Inr (code, r)"
| "raw_reply Http_error = Inl Transport_error"
| "raw_reply Other_error = Inl Unhandled_error"

text \<open>
  One call between the times \<open>t1\<close> and \<open>t2\<close>; \<open>others\<close> is what the other calls do to the breaker
  in between. The flag tells whether the network was used.
\<close>

definition with_breaker ::
  "int \<Rightarrow> int \<Rightarrow> (breaker \<Rightarrow> breaker) \<Rightarrow> 'r transport \<Rightarrow> breaker \<Rightarrow>
   (client_error + nat \<times> 'r) \<times> bool \<times> breaker" where
  "with_breaker t1 t2 others tr b =
     (case before_call t1 b of
        None \<Rightarrow> (Inl Circuit_open, False, b)
      | Some b1 \<Rightarrow> (raw_reply tr, True, record_verdict t2 tr (others b1)))"

definition call_on ::
  "string \<Rightarrow> int \<Rightarrow> int \<Rightarrow> (breaker \<Rightarrow> breaker) \<Rightarrow> 'r transport \<Rightarrow> breakers \<Rightarrow>
   (client_error + nat \<times> 'r) \<times> breakers" where
  "call_on base_url t1 t2 others tr bs =
     (case with_breaker t1 t2 others tr (breaker_for base_url bs) of
        (r, used, b) \<Rightarrow> (r, AList.update base_url b bs))"

definition internal_headers :: "string \<Rightarrow> (string \<times> string) list" where
  "internal_headers token = (if token \<noteq> '''' then [(''X-Internal-Service'', token)] else [])"

text \<open>\<^verbatim>\<open>post\<close> raises on anything but a 2xx; \<^verbatim>\<open>post_raw\<close> and \<^verbatim>\<open>get\<close> hand the response back.\<close>

definition post ::
  "string \<Rightarrow> int \<Rightarrow> int \<Rightarrow> (breaker \<Rightarrow> breaker) \<Rightarrow> 'r transport \<Rightarrow> breakers \<Rightarrow>
   (client_error + 'r) \<times> breakers" where
  "post base_url t1 t2 others tr bs =
     (case call_on base_url t1 t2 others tr bs of
        (Inl e, bs') \<Rightarrow> (Inl e, bs')
      | (Inr (code, r), bs') \<Rightarrow> (if 200 \<le> code \<and> code < 300 then Inr r else Inl (Status_error code), bs'))"

definition post_raw ::
  "string \<Rightarrow> int \<Rightarrow> int \<Rightarrow> (breaker \<Rightarrow> breaker) \<Rightarrow> 'r transport \<Rightarrow> breakers \<Rightarrow>
   (client_error + nat \<times> 'r) \<times> breakers" where
  "post_raw = call_on"

section \<open>Runs\<close>

text \<open>
  The breaker of one service with its calls: \<open>in_flight\<close> were admitted and have not reported,
  \<open>lost\<close> never will, because an exception passed both handlers.
\<close>

record traffic =
  br :: breaker
  in_flight :: nat
  lost :: nat

inductive traffic_step :: "traffic \<Rightarrow> traffic \<Rightarrow> bool" where
  admit: "before_call now (br t) = Some b \<Longrightarrow> traffic_step t (t\<lparr>br := b, in_flight := in_flight t + 1\<rparr>)"
| refuse: "before_call now (br t) = None \<Longrightarrow> traffic_step t t"
| report: "0 < in_flight t \<Longrightarrow>
    traffic_step t (t\<lparr>br := after_call now ok (br t), in_flight := in_flight t - 1\<rparr>)"
| lose: "0 < in_flight t \<Longrightarrow>
    traffic_step t (t\<lparr>in_flight := in_flight t - 1, lost := lost t + 1\<rparr>)"

inductive_cases traffic_stepE: "traffic_step t t'"

definition idle_traffic :: traffic where
  "idle_traffic = \<lparr>br = breaker_for '''' [], in_flight = 0, lost = 0\<rparr>"

text \<open>Below the threshold while closed; a probe is out, or was lost, while half-open.\<close>

definition breaker_ok :: "traffic \<Rightarrow> bool" where
  "breaker_ok t \<longleftrightarrow>
     (b_state (br t) = Closed \<longrightarrow> failures (br t) < breaker_failure_threshold) \<and>
     (b_state (br t) \<noteq> Closed \<longrightarrow> breaker_failure_threshold \<le> failures (br t)) \<and>
     (b_state (br t) = Half_open \<longrightarrow> 0 < in_flight t + lost t)"

lemma before_call_cases:
  "before_call now b = Some b' \<Longrightarrow>
     (b_state b = Closed \<and> b' = b) \<or>
     (b_state b = Open \<and> opened_at b + breaker_cooldown \<le> now \<and> b' = b\<lparr>b_state := Half_open\<rparr>)"
  by (auto simp: before_call_def split: breaker_state.splits if_splits)

lemma traffic_step_ok: "traffic_step t t' \<Longrightarrow> breaker_ok t \<Longrightarrow> breaker_ok t'"
proof (induction rule: traffic_step.induct)
  case (admit now t b)
  then show ?case using before_call_cases [OF admit(1)] by (auto simp: breaker_ok_def)
next
  case (report t now ok)
  then show ?case by (auto simp: breaker_ok_def after_call_def Let_def breaker_failure_threshold_def)
qed (auto simp: breaker_ok_def)

lemma traffic_ok: "traffic_step\<^sup>*\<^sup>* t t' \<Longrightarrow> breaker_ok t \<Longrightarrow> breaker_ok t'"
  by (induction rule: rtranclp_induct) (auto intro: traffic_step_ok)

lemma idle_traffic_ok [simp]: "breaker_ok idle_traffic"
  by (simp add: breaker_ok_def idle_traffic_def breaker_for_def breaker_failure_threshold_def)

text \<open>Half-open with nothing in flight, nothing can happen any more.\<close>

lemma wedged_step: "traffic_step t t' \<Longrightarrow> b_state (br t) = Half_open \<Longrightarrow> in_flight t = 0 \<Longrightarrow> t' = t"
  by (erule traffic_stepE) (auto simp: before_call_def)

lemma wedged: "traffic_step\<^sup>*\<^sup>* t t' \<Longrightarrow> b_state (br t) = Half_open \<Longrightarrow> in_flight t = 0 \<Longrightarrow> t' = t"
  by (induction rule: rtranclp_induct) (auto dest: wedged_step)

section \<open>An outage under any traffic\<close>

text \<open>
  What happens to the breaker of a service that fails every call, in any interleaving: a call arrives
  and is admitted or refused, a call in flight reports its failure, or one raises something neither
  handler catches. A report without a call in flight does not happen.
\<close>

datatype outage_event = Arrives int | Fails int | Raises

fun event_time :: "outage_event \<Rightarrow> int option" where
  "event_time (Arrives now) = Some now"
| "event_time (Fails now) = Some now"
| "event_time Raises = None"

fun outage_step :: "outage_event \<Rightarrow> traffic \<Rightarrow> bool \<times> traffic" where
  "outage_step (Arrives now) t =
     (case before_call now (br t) of
        None \<Rightarrow> (False, t) | Some b \<Rightarrow> (True, t\<lparr>br := b, in_flight := in_flight t + 1\<rparr>))"
| "outage_step (Fails now) t =
     (if in_flight t = 0 then (False, t)
      else (False, t\<lparr>br := after_call now False (br t), in_flight := in_flight t - 1\<rparr>))"
| "outage_step Raises t =
     (if in_flight t = 0 then (False, t) else (False, t\<lparr>in_flight := in_flight t - 1, lost := lost t + 1\<rparr>))"

text \<open>The calls that reach the network, and the most that are in flight at once.\<close>

fun admitted :: "outage_event list \<Rightarrow> traffic \<Rightarrow> nat" where
  "admitted [] t = 0"
| "admitted (e # es) t = (case outage_step e t of (used, t') \<Rightarrow> (if used then 1 else 0) + admitted es t')"

fun crowd :: "outage_event list \<Rightarrow> traffic \<Rightarrow> nat" where
  "crowd [] t = in_flight t"
| "crowd (e # es) t = max (in_flight t) (crowd es (snd (outage_step e t)))"

definition raised :: "outage_event list \<Rightarrow> nat" where
  "raised es = length (filter (\<lambda>e. e = Raises) es)"

definition in_window :: "int \<Rightarrow> outage_event list \<Rightarrow> bool" where
  "in_window t0 es \<longleftrightarrow> list_all (\<lambda>e. case event_time e of None \<Rightarrow> True | Some t \<Rightarrow> t0 \<le> t \<and> t < t0 + breaker_cooldown) es"

text \<open>Each of these is a step of the traffic.\<close>

lemma outage_step_traffic: "traffic_step\<^sup>*\<^sup>* t (snd (outage_step e t))"
proof (cases e)
  case (Arrives now)
  then show ?thesis using admit [of now t] by (cases "before_call now (br t)") auto
next
  case (Fails now)
  then show ?thesis using report [of t now False] by (cases "in_flight t = 0") auto
next
  case Raises
  then show ?thesis using lose [of t] by (cases "in_flight t = 0") auto
qed

lemma in_window_Cons:
  "in_window t0 (e # es) \<longleftrightarrow> (case event_time e of None \<Rightarrow> True | Some t \<Rightarrow> t0 \<le> t \<and> t < t0 + breaker_cooldown) \<and> in_window t0 es"
  by (simp add: in_window_def)

lemma in_flight_crowd: "in_flight t \<le> crowd es t"
  by (cases es) simp_all

text \<open>Half-open, or opened in the window: no report opens it again before the window ends.\<close>

definition shut :: "int \<Rightarrow> traffic \<Rightarrow> bool" where
  "shut t0 t \<longleftrightarrow> breaker_failure_threshold \<le> failures (br t) \<and>
     (b_state (br t) = Half_open \<or> b_state (br t) = Open \<and> t0 \<le> opened_at (br t))"

lemma shut_step:
  assumes "shut t0 t" "in_window t0 [e]"
  shows "\<not> fst (outage_step e t) \<and> shut t0 (snd (outage_step e t))"
  using assms
  by (cases e) (auto simp: shut_def in_window_def before_call_def after_call_def Let_def split: option.splits)

lemma shut_admits_none: "shut t0 t \<Longrightarrow> in_window t0 es \<Longrightarrow> admitted es t = 0"
proof (induction es arbitrary: t)
  case (Cons e es)
  have "in_window t0 [e]" "in_window t0 es" using Cons.prems(2) by (simp_all add: in_window_Cons in_window_def [of _ "[]"])
  then show ?case using shut_step [OF Cons.prems(1), of e] Cons.IH [of "snd (outage_step e t)"]
    by (cases "outage_step e t") auto
qed simp

text \<open>While closed, every failure reported is one less to come.\<close>

lemma closed_admits:
  "b_state (br t) = Closed \<Longrightarrow> failures (br t) < breaker_failure_threshold \<Longrightarrow> in_window t0 es \<Longrightarrow>
   admitted es t + in_flight t + failures (br t) \<le> crowd es t + raised es + 4"
proof (induction es arbitrary: t)
  case Nil
  then show ?case by (simp add: raised_def breaker_failure_threshold_def)
next
  case (Cons e es)
  have w: "in_window t0 es" using Cons.prems(3) by (simp add: in_window_Cons)
  note f4 = Cons.prems(2) [unfolded breaker_failure_threshold_def]
  show ?case
  proof (cases e)
    case (Arrives now)
    let ?t = "t\<lparr>in_flight := in_flight t + 1\<rparr>"
    have s: "outage_step e t = (True, ?t)" using Arrives Cons.prems(1) by (simp add: before_call_def)
    then show ?thesis using Cons.IH [of ?t] Cons.prems(1,2) w Arrives by (simp add: raised_def)
  next
    case (Fails now)
    show ?thesis
    proof (cases "in_flight t = 0")
      case True
      then show ?thesis using Cons.IH [OF Cons.prems(1,2) w] Fails by (simp add: raised_def)
    next
      case busy: False
      let ?t = "t\<lparr>br := after_call now False (br t), in_flight := in_flight t - 1\<rparr>"
      have s: "outage_step e t = (False, ?t)" using Fails busy by simp
      show ?thesis
      proof (cases "failures (br t) = 4")
        case True
        then have "shut t0 ?t"
          using Cons.prems Fails by (simp add: shut_def after_call_def Let_def breaker_failure_threshold_def in_window_Cons)
        then have "admitted es ?t = 0" by (rule shut_admits_none [OF _ w])
        then show ?thesis using s True Fails by (simp add: raised_def)
      next
        case False
        then have b: "after_call now False (br t) = (br t)\<lparr>failures := failures (br t) + 1\<rparr>"
          using Cons.prems(1) f4 by (simp add: after_call_def Let_def breaker_failure_threshold_def)
        then show ?thesis
          using Cons.IH [of ?t] Cons.prems(1) f4 False w s Fails busy by (simp add: breaker_failure_threshold_def raised_def)
      qed
    qed
  next
    case Raises
    show ?thesis
    proof (cases "in_flight t = 0")
      case True
      then show ?thesis using Cons.IH [OF Cons.prems(1,2) w] Raises by (simp add: raised_def)
    next
      case False
      then show ?thesis
        using Cons.IH [of "t\<lparr>in_flight := in_flight t - 1, lost := lost t + 1\<rparr>"] Cons.prems(1,2) w Raises
        by (simp add: raised_def)
    qed
  qed
qed

text \<open>Open from before the window, one probe at most goes out.\<close>

lemma open_admits:
  "b_state (br t) = Open \<Longrightarrow> breaker_failure_threshold \<le> failures (br t) \<Longrightarrow> in_window t0 es \<Longrightarrow> admitted es t \<le> 1"
proof (induction es arbitrary: t)
  case (Cons e es)
  have w: "in_window t0 es" using Cons.prems(3) by (simp add: in_window_Cons)
  show ?case
  proof (cases e)
    case (Arrives now)
    show ?thesis
    proof (cases "before_call now (br t)")
      case None
      then show ?thesis using Cons.IH [OF Cons.prems(1,2) w] Arrives by simp
    next
      case (Some b)
      then have "shut t0 (t\<lparr>br := b, in_flight := in_flight t + 1\<rparr>)"
        using before_call_cases [OF Some] Cons.prems(1,2) by (auto simp: shut_def)
      then show ?thesis using shut_admits_none w Arrives Some by simp
    qed
  next
    case (Fails now)
    show ?thesis
    proof (cases "in_flight t = 0")
      case True
      then show ?thesis using Cons.IH [OF Cons.prems(1,2) w] Fails by simp
    next
      case False
      have "shut t0 (t\<lparr>br := after_call now False (br t), in_flight := in_flight t - 1\<rparr>)"
        using Cons.prems Fails by (simp add: shut_def after_call_def Let_def in_window_Cons)
      then show ?thesis using shut_admits_none w Fails False by simp
    qed
  next
    case Raises
    then show ?thesis using Cons.IH [of t] Cons.IH [of "t\<lparr>in_flight := in_flight t - 1, lost := lost t + 1\<rparr>"] Cons.prems w
      by simp
  qed
qed simp

section \<open>Properties\<close>

text \<open>C18. An outage costs a bounded number of calls, under any interleaving. While a service fails all its
  calls, within the thirty seconds of one cooldown the calls that reach the network number at most four more
  than the most that are ever in flight at once (five for a caller that makes them one after another),
  plus those that raised something the breaker is not told of; from whatever state the breaker was in,
  with calls admitted earlier still reporting.\<close>

theorem outage_calls_bounded:
  assumes "traffic_step\<^sup>*\<^sup>* idle_traffic t" and "in_window t0 es"
  shows "admitted es t \<le> max 1 (crowd es t) + 4 + raised es"
proof -
  have ok: "breaker_ok t" using traffic_ok [OF assms(1) idle_traffic_ok] .
  show ?thesis
  proof (cases "b_state (br t)")
    case Closed
    then show ?thesis using closed_admits [OF Closed _ assms(2)] ok by (simp add: breaker_ok_def)
  next
    case Half_open
    then have "shut t0 t" using ok by (simp add: breaker_ok_def shut_def)
    then show ?thesis using shut_admits_none assms(2) by simp
  next
    case Open
    then have "admitted es t \<le> 1" using open_admits assms(2) ok by (simp add: breaker_ok_def)
    then show ?thesis by simp
  qed
qed

text \<open>Three callers at once, nine calls each failing: seven reach the network.\<close>

theorem outage_calls_bounded_witness:
  "admitted (concat (replicate 9 [Arrives 100, Arrives 100, Arrives 100, Fails 101, Fails 101, Fails 101])) idle_traffic \<le> 7"
proof -
  let ?es = "concat (replicate 9 [Arrives 100, Arrives 100, Arrives 100, Fails 101, Fails 101, Fails 101])"
  have "in_window 100 ?es" by (simp add: in_window_def breaker_cooldown_def numeral_eq_Suc)
  moreover have "crowd ?es idle_traffic = 3" "raised ?es = 0" by code_simp+
  ultimately show ?thesis using outage_calls_bounded [OF rtranclp.rtrancl_refl, of 100 ?es] by simp
qed

text \<open>A lost probe wedges the breaker. When the one call let through after the cooldown raises
  something that is not an \<^verbatim>\<open>httpx.HTTPError\<close>, neither handler reports to the breaker: it stays
  half-open with nothing in flight, and from there no call is ever admitted again, at any time.\<close>

theorem lost_probe_wedges_breaker:
  assumes open_: "b_state (br t) = Open" and cooled: "opened_at (br t) + breaker_cooldown \<le> t1"
    and alone: "in_flight t = 0"
  shows "\<exists>b. with_breaker t1 t2 (\<lambda>x. x) Other_error (br t) = (Inl Unhandled_error, True, b) \<and>
    traffic_step\<^sup>*\<^sup>* t (t\<lparr>br := b, lost := lost t + 1\<rparr>) \<and>
    (\<forall>t'. traffic_step\<^sup>*\<^sup>* (t\<lparr>br := b, lost := lost t + 1\<rparr>) t' \<longrightarrow>
       br t' = b \<and> (\<forall>now. before_call now (br t') = None))"
proof (intro exI conjI allI impI)
  let ?b = "(br t)\<lparr>b_state := Half_open\<rparr>"
  have adm: "before_call t1 (br t) = Some ?b" using open_ cooled by (simp add: before_call_def)
  show "with_breaker t1 t2 (\<lambda>x. x) Other_error (br t) = (Inl Unhandled_error, True, ?b)"
    by (simp add: with_breaker_def adm record_verdict_def)
  have "traffic_step t (t\<lparr>br := ?b, in_flight := in_flight t + 1\<rparr>)" by (rule admit [OF adm])
  moreover have "traffic_step (t\<lparr>br := ?b, in_flight := in_flight t + 1\<rparr>) (t\<lparr>br := ?b, lost := lost t + 1\<rparr>)"
    using lose [of "t\<lparr>br := ?b, in_flight := in_flight t + 1\<rparr>"] alone by (cases t) simp
  ultimately show "traffic_step\<^sup>*\<^sup>* t (t\<lparr>br := ?b, lost := lost t + 1\<rparr>)" by simp
  fix t' assume "traffic_step\<^sup>*\<^sup>* (t\<lparr>br := ?b, lost := lost t + 1\<rparr>) t'"
  then have "t' = t\<lparr>br := ?b, lost := lost t + 1\<rparr>" by (rule wedged) (simp_all add: alone)
  then show "br t' = ?b" "before_call now (br t') = None" for now by (simp_all add: before_call_def)
qed

theorem lost_probe_wedges_breaker_witness:
  "\<exists>b. with_breaker 40000000 40000001 (\<lambda>x. x) (Other_error :: unit transport)
      \<lparr>b_state = Open, failures = 5, opened_at = 0\<rparr> = (Inl Unhandled_error, True, b) \<and>
    before_call 90000000 b = None"
  using lost_probe_wedges_breaker [of "\<lparr>br = \<lparr>b_state = Open, failures = 5, opened_at = 0\<rparr>, in_flight = 0, lost = 0\<rparr>"
      40000000 40000001]
  by (auto simp: breaker_cooldown_def)

text \<open>Recovery. Once a service answers again, the first call after the cooldown reaches it and
  closes the breaker, with the failure count at zero; while it is closed every call is made.\<close>

theorem recovered_service_is_called:
  assumes "b_state b = Open \<longrightarrow> opened_at b + breaker_cooldown \<le> t1" and "b_state b \<noteq> Half_open"
    and "code < 500"
  shows "\<exists>b'. with_breaker t1 t2 (\<lambda>x. x) (Response code r) b = (Inr (code, r), True, b') \<and>
    b_state b' = Closed \<and> failures b' = 0"
  using assms by (cases "b_state b") (auto simp: with_breaker_def before_call_def record_verdict_def after_call_def)

theorem recovered_service_is_called_witness:
  "\<exists>b'. with_breaker 40000000 40000001 (\<lambda>x. x) (Response 200 ())
      \<lparr>b_state = Open, failures = 5, opened_at = 0\<rparr> = (Inr (200, ()), True, b') \<and> failures b' = 0"
  using recovered_service_is_called [of "\<lparr>b_state = Open, failures = 5, opened_at = 0\<rparr>" 40000000 200 40000001 "()"]
  by (auto simp: breaker_cooldown_def)

end
