(* ===== verification/Coordinator.thy ===== *)
theory Coordinator
  imports Disclosures Breaker
begin

text \<open>
  origination-service, \<^verbatim>\<open>app/disclosure_coordinator.py\<close>: the disclosure pipeline, its stages as the
  nodes of a graph with one bounded cycle. What the class takes as arguments (the gathering of
  the context, the two service calls and the read of the chain, and the model client) are the
  fields of \<open>services\<close>, over an arbitrary world \<open>'w\<close>; so is the guard on the narration
  (\<^verbatim>\<open>_narration_is_grounded\<close>, regular expressions over prose). The graph library runs one node at
  a time and follows the edges of \<^verbatim>\<open>_build\<close>. Tracing and log lines are left out.
\<close>

section \<open>Constants\<close>

definition max_assemble_attempts :: nat where
  "max_assemble_attempts = 2"

definition pipeline_outcomes :: "string list" where
  "pipeline_outcomes = [''approve'']"

definition figure_fields :: "string list" where
  "figure_fields = [''apr'', ''finance_charge'', ''amount_financed'', ''total_of_payments'', ''monthly_payment'']"

definition figure_places :: "string \<Rightarrow> nat" where
  "figure_places field = (if field = ''apr'' then 3 else 2)"

definition render_mismatch :: string where "render_mismatch = ''render_mismatch''"
definition number_wrong :: string where "number_wrong = ''number_wrong''"
definition provenance_incomplete :: string where "provenance_incomplete = ''provenance_incomplete''"
definition retries_exhausted :: string where "retries_exhausted = ''retries_exhausted''"
definition not_approved :: string where "not_approved = ''not_approved''"

lemmas block_reasons =
  render_mismatch_def number_wrong_def provenance_incomplete_def retries_exhausted_def not_approved_def

definition retryable :: "string list" where
  "retryable = [render_mismatch]"

section \<open>Errors and replies\<close>

datatype coord_error =
  Application_not_found | Downstream_refused nat string | Llm_error | Http_failure | Other_exception

text \<open>A response body that is not JSON, or has no \<^verbatim>\<open>detail\<close>, has \<open>detail_of r = None\<close>.\<close>

definition post_or_raise ::
  "('r \<Rightarrow> string option) \<Rightarrow> client_error + nat \<times> 'r \<Rightarrow> coord_error + 'r" where
  "post_or_raise detail_of reply =
     (case reply of
        Inl Unhandled_error \<Rightarrow> Inl Other_exception
      | Inl _ \<Rightarrow> Inl Http_failure
      | Inr (code, r) \<Rightarrow>
          if 400 \<le> code \<and> code < 500
          then Inl (Downstream_refused code
                 (case detail_of r of None \<Rightarrow> ''disclosure request refused'' | Some d \<Rightarrow> d))
          else if 200 \<le> code \<and> code < 300 then Inr r else Inl Http_failure)"

section \<open>Figures as text\<close>

text \<open>\<^verbatim>\<open>f"{value:.{places}f}"\<close>: the exact binary value, rounded half to even.\<close>

definition format_f :: "nat \<Rightarrow> rat \<Rightarrow> string" where
  "format_f places x =
     (let digits = show_nat (nat \<bar>round_half_even (x * 10 ^ places)\<bar>);
          padded = replicate (places + 1 - length digits) (CHR ''0'') @ digits;
          n = length padded - places
      in (if x < 0 then ''-'' else '''') @ take n padded @ (if places = 0 then '''' else CHR ''.'' # drop n padded))"

text \<open>A JSON value of the reply: \<open>F_other\<close> carries its \<^verbatim>\<open>str()\<close>.\<close>

datatype fig_val = F_none | F_text string | F_float rat | F_other string

fun as_text :: "nat \<Rightarrow> fig_val \<Rightarrow> string option" where
  "as_text places F_none = None"
| "as_text places (F_text s) = Some s"
| "as_text places (F_float x) = Some (format_f places x)"
| "as_text places (F_other s) = Some s"

type_synonym figure_texts = "(string \<times> string) list"

section \<open>What the stages exchange\<close>

record run_context =
  cx_outcome :: string
  cx_decision_event_id :: "int option"
  cx_principal :: rat
  cx_term_months :: int
  cx_annual_rate :: rat

record offer_payload =
  op_application_id :: int
  op_principal :: rat
  op_annual_rate :: rat
  op_term_months :: int
  op_decision_event_id :: "int option"

text \<open>\<open>or_figures\<close> is \<^verbatim>\<open>offer.get("disclosure", offer)\<close>.\<close>

record offer_reply =
  or_figures :: "(string \<times> fig_val) list"
  or_offer_id :: "int option"
  or_decision_event_id :: "int option"

text \<open>The maker's document, of the shape the client's output schema admits.\<close>

record agent_document =
  ad_heading :: string
  ad_figures :: figure_texts
  ad_payment_terms :: string
  ad_prepayment :: string

record narration =
  na_summary :: string
  na_officer_action :: string

definition narration_unavailable :: narration where
  "narration_unavailable =
     \<lparr>na_summary = ''Narration unavailable for this disclosure. The figures were computed deterministically and matched the rendered document, and the record was written; only the officer brief is missing. Read the document before sending.'',
      na_officer_action = ''hold_for_compliance''\<rparr>"

record persist_payload =
  pp_offer_id :: "int option"
  pp_decision_event_id :: "int option"
  pp_principal :: rat
  pp_annual_rate :: rat
  pp_term_months :: int
  pp_document :: "agent_document option"

text \<open>\<open>narrate_call\<close> answers \<open>None\<close> when the client fell back to the canned brief.\<close>

record 'w services =
  gather :: "int \<Rightarrow> 'w \<Rightarrow> (coord_error + run_context) \<times> 'w"
  compute_offer :: "offer_payload \<Rightarrow> 'w \<Rightarrow> (coord_error + offer_reply) \<times> 'w"
  assemble_call :: "figure_texts \<Rightarrow> int \<Rightarrow> rat \<Rightarrow> 'w \<Rightarrow> (coord_error + agent_document) \<times> 'w"
  narrate_call :: "int \<Rightarrow> int \<Rightarrow> rat \<Rightarrow> nat \<Rightarrow> 'w \<Rightarrow> (coord_error + narration option) \<times> 'w"
  grounded :: "string \<Rightarrow> int \<Rightarrow> rat \<Rightarrow> bool"
  persist_disclosure :: "persist_payload \<Rightarrow> 'w \<Rightarrow> (coord_error + disclosure_out) \<times> 'w"
  read_chain :: "int \<Rightarrow> 'w \<Rightarrow> (coord_error + provenance_out) \<times> 'w"

section \<open>The state of a run\<close>

record disc_state =
  st_application_id :: int
  st_outcome :: string
  st_decision_event_id :: "int option"
  st_principal :: rat
  st_annual_rate :: rat
  st_term_months :: int
  st_offer_id :: "int option"
  st_figures :: figure_texts
  st_document :: "agent_document option"
  st_narration :: "narration option"
  st_narration_degraded :: bool
  st_disclosure :: "disclosure_out option"
  st_provenance :: "provenance_out option"
  st_attempts :: nat
  st_checks_passed :: nat
  st_blocked :: bool
  st_reason :: string
  st_detail :: string

definition initial_state :: "int \<Rightarrow> disc_state" where
  "initial_state application_id =
     \<lparr>st_application_id = application_id, st_outcome = '''', st_decision_event_id = None,
      st_principal = 0, st_annual_rate = 0, st_term_months = 0, st_offer_id = None, st_figures = [],
      st_document = None, st_narration = None, st_narration_degraded = False, st_disclosure = None,
      st_provenance = None, st_attempts = 0, st_checks_passed = 0, st_blocked = False,
      st_reason = '''', st_detail = ''''\<rparr>"

definition blocked_with :: "string \<Rightarrow> string \<Rightarrow> disc_state \<Rightarrow> disc_state" where
  "blocked_with reason detail s = s\<lparr>st_blocked := True, st_reason := reason, st_detail := detail\<rparr>"

text \<open>The texts of a list, separated by commas.\<close>

definition commas :: "string list \<Rightarrow> string" where
  "commas xs = (case xs of [] \<Rightarrow> '''' | x # ys \<Rightarrow> x @ concat (map (\<lambda>y. CHR '','' # y) ys))"

text \<open>An effect on the world whose error ends the run.\<close>

definition then_do ::
  "(coord_error + 'a) \<times> 'w \<Rightarrow> ('a \<Rightarrow> 'w \<Rightarrow> (coord_error + 'b) \<times> 'w) \<Rightarrow> (coord_error + 'b) \<times> 'w" where
  "then_do m f = (case m of (Inl e, w) \<Rightarrow> (Inl e, w) | (Inr x, w) \<Rightarrow> f x w)"

section \<open>Stages\<close>

definition routed :: "run_context \<Rightarrow> disc_state \<Rightarrow> disc_state" where
  "routed cx s =
     (let s1 = s\<lparr>st_outcome := cx_outcome cx, st_decision_event_id := cx_decision_event_id cx,
                 st_principal := cx_principal cx, st_term_months := cx_term_months cx,
                 st_annual_rate := cx_annual_rate cx\<rparr>
      in if cx_decision_event_id cx = None \<or> cx_decision_event_id cx = Some 0
         then blocked_with provenance_incomplete ''no decision event'' s1
         else if cx_outcome cx \<notin> set pipeline_outcomes
         then blocked_with not_approved (''outcome='' @ cx_outcome cx) s1
         else s1\<lparr>st_attempts := 0, st_blocked := False\<rparr>)"

definition route_stage :: "'w services \<Rightarrow> disc_state \<Rightarrow> 'w \<Rightarrow> (coord_error + disc_state) \<times> 'w" where
  "route_stage svc s w = then_do (gather svc (st_application_id s) w) (\<lambda>cx w1. (Inr (routed cx s), w1))"

definition figures_of :: "offer_reply \<Rightarrow> (string \<times> string option) list" where
  "figures_of reply =
     map (\<lambda>field. (field, as_text (figure_places field)
         (case map_of (or_figures reply) field of None \<Rightarrow> F_none | Some v \<Rightarrow> v))) figure_fields"

definition compute_stage :: "'w services \<Rightarrow> disc_state \<Rightarrow> 'w \<Rightarrow> (coord_error + disc_state) \<times> 'w" where
  "compute_stage svc s w =
     then_do (compute_offer svc
         \<lparr>op_application_id = st_application_id s, op_principal = st_principal s,
          op_annual_rate = st_annual_rate s, op_term_months = st_term_months s,
          op_decision_event_id = st_decision_event_id s\<rparr> w) (\<lambda>reply w1.
       let figs = figures_of reply;
           absent = map fst (filter (\<lambda>f. snd f = None) figs)
       in (Inr
           (if absent \<noteq> [] then blocked_with number_wrong (''missing='' @ commas absent) s
            else s\<lparr>st_figures := map (\<lambda>f. (fst f, the (snd f))) figs, st_offer_id := or_offer_id reply,
                   st_decision_event_id :=
                     (case or_decision_event_id reply of None \<Rightarrow> st_decision_event_id s | Some e \<Rightarrow> Some e)\<rparr>), w1))"

definition assemble_stage :: "'w services \<Rightarrow> disc_state \<Rightarrow> 'w \<Rightarrow> (coord_error + disc_state) \<times> 'w" where
  "assemble_stage svc s w =
     then_do (assemble_call svc (st_figures s) (st_term_months s) (st_annual_rate s) w) (\<lambda>doc w1.
       (Inr (s\<lparr>st_document := Some doc, st_attempts := st_attempts s + 1\<rparr>), w1))"

definition mismatched_fields :: "disc_state \<Rightarrow> string list" where
  "mismatched_fields s =
     (let rendered = (case st_document s of None \<Rightarrow> [] | Some d \<Rightarrow> ad_figures d)
      in filter (\<lambda>field. map_of rendered field \<noteq> map_of (st_figures s) field) figure_fields)"

definition verify_stage :: "disc_state \<Rightarrow> disc_state" where
  "verify_stage s =
     (let mismatched = mismatched_fields s
      in if mismatched \<noteq> [] then blocked_with render_mismatch (''fields='' @ commas mismatched) s
         else s\<lparr>st_blocked := False, st_reason := '''', st_checks_passed := length figure_fields\<rparr>)"

definition narrate_stage :: "'w services \<Rightarrow> disc_state \<Rightarrow> 'w \<Rightarrow> (coord_error + disc_state) \<times> 'w" where
  "narrate_stage svc s w =
     then_do (narrate_call svc (st_application_id s) (st_term_months s) (st_annual_rate s) (st_checks_passed s) w)
       (\<lambda>answer w1.
         let usable = (case answer of None \<Rightarrow> False
               | Some n \<Rightarrow> grounded svc (na_summary n) (st_term_months s) (st_annual_rate s))
         in (Inr (s\<lparr>st_narration := Some (if usable then the answer else narration_unavailable),
                    st_narration_degraded := \<not> usable\<rparr>), w1))"

definition persist_stage :: "'w services \<Rightarrow> disc_state \<Rightarrow> 'w \<Rightarrow> (coord_error + disc_state) \<times> 'w" where
  "persist_stage svc s w =
     then_do (persist_disclosure svc
         \<lparr>pp_offer_id = st_offer_id s, pp_decision_event_id = st_decision_event_id s,
          pp_principal = st_principal s, pp_annual_rate = st_annual_rate s,
          pp_term_months = st_term_months s, pp_document = st_document s\<rparr> w) (\<lambda>rec w1.
     then_do (read_chain svc (out_id rec) w1) (\<lambda>chain w2.
       let s1 = s\<lparr>st_disclosure := Some rec, st_provenance := Some chain\<rparr>
       in (Inr
           (if \<not> chain_complete chain
            then blocked_with provenance_incomplete
                   (''disclosure_id='' @ show_int (out_id rec) @ '' missing='' @
                    commas (if missing_edges chain = [] then [''unknown''] else missing_edges chain)) s1
            else s1), w2)))"

section \<open>The graph\<close>

datatype node = Route | Compute | Assemble | Verify | Narrate | Persist | End

fun run_node :: "'w services \<Rightarrow> node \<Rightarrow> disc_state \<Rightarrow> 'w \<Rightarrow> (coord_error + disc_state) \<times> 'w" where
  "run_node svc Route s w = route_stage svc s w"
| "run_node svc Compute s w = compute_stage svc s w"
| "run_node svc Assemble s w = assemble_stage svc s w"
| "run_node svc Verify s w = (Inr (verify_stage s), w)"
| "run_node svc Narrate s w = narrate_stage svc s w"
| "run_node svc Persist s w = persist_stage svc s w"
| "run_node svc End s w = (Inr s, w)"

definition after_verify :: "disc_state \<Rightarrow> node" where
  "after_verify s =
     (if \<not> st_blocked s then Narrate
      else if st_reason s \<in> set retryable \<and> st_attempts s < max_assemble_attempts then Assemble
      else End)"

fun next_node :: "node \<Rightarrow> disc_state \<Rightarrow> node" where
  "next_node Route s = (if st_blocked s then End else Compute)"
| "next_node Compute s = (if st_blocked s then End else Assemble)"
| "next_node Assemble s = Verify"
| "next_node Verify s = after_verify s"
| "next_node Narrate s = Persist"
| "next_node Persist s = End"
| "next_node End s = End"

section \<open>Running the graph\<close>

text \<open>
  How far a node is from the end, given the attempts made: what the termination of the run
  rests on. The one cycle goes up by an attempt each time.
\<close>

fun distance :: "node \<Rightarrow> nat \<Rightarrow> nat" where
  "distance Route a = 8"
| "distance Compute a = 7"
| "distance Assemble a = (if a < 2 then 2 * (2 - a) + 2 else 4)"
| "distance Verify a = (if a < 2 then 2 * (2 - a) + 3 else 3)"
| "distance Narrate a = 2"
| "distance Persist a = 1"
| "distance End a = 0"

lemma attempts_blocked [simp]: "st_attempts (blocked_with r d s) = st_attempts s"
  by (simp add: blocked_with_def)

lemma then_do_Inr: "then_do m f = (Inr y, w') \<Longrightarrow> \<exists>x w. m = (Inr x, w) \<and> f x w = (Inr y, w')"
  by (auto simp: then_do_def split: prod.splits sum.splits)

lemma assemble_attempts:
  "assemble_stage svc s w = (Inr s', w') \<Longrightarrow>
   st_attempts s' = st_attempts s + 1 \<and> st_figures s' = st_figures s"
  by (auto simp: assemble_stage_def dest!: then_do_Inr)

lemma verify_attempts [simp]: "st_attempts (verify_stage s) = st_attempts s"
  by (simp add: verify_stage_def Let_def)

lemma next_closer:
  "run_node svc n s w = (Inr s', w') \<Longrightarrow> n \<noteq> End \<Longrightarrow>
   distance (next_node n s') (st_attempts s') < distance n (st_attempts s)"
  by (cases n) (auto simp: after_verify_def max_assemble_attempts_def dest!: assemble_attempts)

text \<open>The run, with the nodes entered and the states they found.\<close>

function run_graph ::
  "'w services \<Rightarrow> node \<Rightarrow> disc_state \<Rightarrow> 'w \<Rightarrow> (coord_error + disc_state) \<times> (node \<times> disc_state) list \<times> 'w" where
  "run_graph svc n s w =
     (if n = End then (Inr s, [], w)
      else case run_node svc n s w of
        (Inl e, w') \<Rightarrow> (Inl e, [(n, s)], w')
      | (Inr s', w') \<Rightarrow>
          (case run_graph svc (next_node n s') s' w' of
             (r, trace, w'') \<Rightarrow> (r, (n, s) # trace, w'')))"
  by pat_completeness auto
termination
  by (relation "measure (\<lambda>(svc, n, s, w). distance n (st_attempts s))")
    (auto dest: next_closer [OF sym])

declare run_graph.simps [simp del]

record run_ok =
  rk_document :: "agent_document option"
  rk_narration :: "narration option"
  rk_narration_degraded :: bool
  rk_disclosure :: "disclosure_out option"
  rk_provenance :: "provenance_out option"
  rk_attempts :: nat

record run_blocked =
  rb_reason :: string
  rb_detail :: string
  rb_attempts :: nat
  rb_disclosure :: "disclosure_out option"
  rb_provenance :: "provenance_out option"

definition result_of :: "disc_state \<Rightarrow> run_blocked + run_ok" where
  "result_of final =
     (if st_blocked final
      then Inl \<lparr>rb_reason = (if st_reason final \<in> set retryable then retries_exhausted else st_reason final),
                rb_detail = st_detail final, rb_attempts = st_attempts final,
                rb_disclosure = st_disclosure final, rb_provenance = st_provenance final\<rparr>
      else Inr \<lparr>rk_document = st_document final, rk_narration = st_narration final,
                rk_narration_degraded = st_narration_degraded final,
                rk_disclosure = st_disclosure final, rk_provenance = st_provenance final,
                rk_attempts = st_attempts final\<rparr>)"

definition run_pipeline ::
  "'w services \<Rightarrow> int \<Rightarrow> 'w \<Rightarrow> (coord_error + (run_blocked + run_ok)) \<times> (node \<times> disc_state) list \<times> 'w" where
  "run_pipeline svc application_id w =
     (case run_graph svc Route (initial_state application_id) w of
        (r, trace, w') \<Rightarrow> (bind_result r (\<lambda>final. Inr (result_of final)), trace, w'))"

section \<open>Gathering the context\<close>

text \<open>
  \<^verbatim>\<open>gather_disclosure_context\<close>: the stored terms of the application, the latest decision event,
  and the policy rate.
\<close>

definition latest_decision :: "event_row list \<Rightarrow> int \<Rightarrow> event_row option" where
  "latest_decision evs app =
     (case filter (\<lambda>e. e_app_id e = Some app) evs of
        [] \<Rightarrow> None
      | e # es \<Rightarrow> Some (min_by (\<lambda>e. (case e_decided_at e of None \<Rightarrow> (0 :: int, 0) | Some t \<Rightarrow> (1, - t), - e_id e)) e es))"

definition gather_disclosure_context ::
  "(int \<Rightarrow> (rat \<times> int) option) \<Rightarrow> rat \<Rightarrow> event_row list \<Rightarrow> int \<Rightarrow> coord_error + run_context" where
  "gather_disclosure_context terms policy_rate evs app =
     (case terms app of
        None \<Rightarrow> Inl Application_not_found
      | Some (amount, term) \<Rightarrow>
          (let latest = latest_decision evs app
           in Inr \<lparr>cx_outcome = lower (case bind_option latest e_outcome of None \<Rightarrow> '''' | Some x \<Rightarrow> x),
                   cx_decision_event_id = map_option e_id latest, cx_principal = amount,
                   cx_term_months = term, cx_annual_rate = policy_rate\<rparr>))"


section \<open>Runs\<close>

lemma run_graph_End [simp]: "run_graph svc End s w = (Inr s, [], w)"
  by (subst run_graph.simps) simp

lemma run_graph_node:
  "n \<noteq> End \<Longrightarrow> run_graph svc n s w =
    (case run_node svc n s w of
       (Inl e, w') \<Rightarrow> (Inl e, [(n, s)], w')
     | (Inr s', w') \<Rightarrow>
         (case run_graph svc (next_node n s') s' w' of (r, trace, w'') \<Rightarrow> (r, (n, s) # trace, w'')))"
  by (subst run_graph.simps) simp

abbreviation entered :: "'r \<times> (node \<times> disc_state) list \<times> 'w \<Rightarrow> (node \<times> disc_state) list" where
  "entered x \<equiv> fst (snd x)"

text \<open>A run, node by node: the last entry, or one node and the rest.\<close>

lemma run_graph_cases [case_names stop error step]:
  assumes "n = End \<Longrightarrow> P"
    and "\<And>e w'. n \<noteq> End \<Longrightarrow> run_node svc n s w = (Inl e, w') \<Longrightarrow>
           run_graph svc n s w = (Inl e, [(n, s)], w') \<Longrightarrow> P"
    and "\<And>s' w'. n \<noteq> End \<Longrightarrow> run_node svc n s w = (Inr s', w') \<Longrightarrow>
           fst (run_graph svc n s w) = fst (run_graph svc (next_node n s') s' w') \<Longrightarrow>
           entered (run_graph svc n s w) = (n, s) # entered (run_graph svc (next_node n s') s' w') \<Longrightarrow> P"
  shows P
proof (cases "n = End")
  case False
  obtain r w' where run: "run_node svc n s w = (r, w')" by (rule prod.exhaust)
  show ?thesis
  proof (cases r)
    case (Inl e)
    then show ?thesis using False run by (intro assms(2)) (simp_all add: run_graph_node)
  next
    case (Inr s')
    then show ?thesis using False run
      by (intro assms(3)) (simp_all add: run_graph_node case_prod_unfold)
  qed
qed (rule assms(1))

text \<open>What holds where a node is entered and is handed on by every node holds at every entry.\<close>

lemma run_graph_invariant:
  assumes step: "\<And>n s w s' w'. I n s \<Longrightarrow> n \<noteq> End \<Longrightarrow> run_node svc n s w = (Inr s', w') \<Longrightarrow> I (next_node n s') s'"
  shows "I n s \<Longrightarrow> (\<forall>(m, t) \<in> set (entered (run_graph svc n s w)). I m t) \<and>
     (\<forall>t. fst (run_graph svc n s w) = Inr t \<longrightarrow> I End t)"
  using step
proof (induction svc n s w rule: run_graph.induct)
  case (1 svc n s w)
  note handed = 1(3) and here = 1(2)
  show ?case
  proof (cases rule: run_graph_cases [where n = n and svc = svc and s = s and w = w])
    case stop
    then show ?thesis using here by simp
  next
    case (error e w')
    then show ?thesis using here by simp
  next
    case (step s' w')
    have nxt: "I (next_node n s') s'" by (rule handed [OF here step(1,2)])
    show ?thesis using 1(1) [OF step(1) step(2) [symmetric] refl nxt handed] step(3,4) here by simp
  qed
qed

lemma run_graph_length: "length (entered (run_graph svc n s w)) \<le> distance n (st_attempts s)"
proof (induction svc n s w rule: run_graph.induct)
  case (1 svc n s w)
  show ?case
  proof (cases rule: run_graph_cases [where n = n and svc = svc and s = s and w = w])
    case (error e w')
    then show ?thesis by (cases n) auto
  next
    case (step s' w')
    have "length (entered (run_graph svc (next_node n s') s' w')) \<le> distance (next_node n s') (st_attempts s')"
      using 1 step(1,2) by auto
    then show ?thesis using next_closer [OF step(2,1)] step(4) by simp
  qed simp
qed

text \<open>How often the model may still be asked, and the record written.\<close>

fun asks_left :: "node \<Rightarrow> nat \<Rightarrow> nat" where
  "asks_left Route a = 2"
| "asks_left Compute a = 2"
| "asks_left Assemble a = max 1 (2 - a)"
| "asks_left Verify a = 2 - a"
| "asks_left n a = 0"

definition entries :: "node \<Rightarrow> (node \<times> disc_state) list \<Rightarrow> nat" where
  "entries n trace = length (filter (\<lambda>x. fst x = n) trace)"

lemma asks_step:
  "run_node svc n s w = (Inr s', w') \<Longrightarrow> n \<noteq> End \<Longrightarrow>
   asks_left (next_node n s') (st_attempts s') + (if n = Assemble then 1 else 0) \<le> asks_left n (st_attempts s)"
  by (cases n) (auto simp: after_verify_def max_assemble_attempts_def dest!: assemble_attempts)

lemma run_graph_asks: "entries Assemble (entered (run_graph svc n s w)) \<le> asks_left n (st_attempts s)"
proof (induction svc n s w rule: run_graph.induct)
  case (1 svc n s w)
  show ?case
  proof (cases rule: run_graph_cases [where n = n and svc = svc and s = s and w = w])
    case (error e w')
    then show ?thesis by (cases n) (auto simp: entries_def)
  next
    case (step s' w')
    have "entries Assemble (entered (run_graph svc (next_node n s') s' w')) \<le> asks_left (next_node n s') (st_attempts s')"
      using 1 step(1,2) by auto
    then show ?thesis using asks_step [OF step(2,1)] step(4) by (auto simp: entries_def split: if_splits)
  qed (simp add: entries_def)
qed

lemma run_graph_writes: "entries Persist (entered (run_graph svc n s w)) \<le> 1"
proof (induction svc n s w rule: run_graph.induct)
  case (1 svc n s w)
  show ?case
  proof (cases rule: run_graph_cases [where n = n and svc = svc and s = s and w = w])
    case (error e w')
    then show ?thesis by (simp add: entries_def)
  next
    case (step s' w')
    have "entries Persist (entered (run_graph svc (next_node n s') s' w')) \<le> 1"
      using 1 step(1,2) by auto
    then show ?thesis using step(4) by (cases n) (auto simp: entries_def)
  qed (simp add: entries_def)
qed


section \<open>What every stage finds\<close>

text \<open>The figures in the state are those the offer call answered, every one of them.\<close>

definition figures_from :: "'w services \<Rightarrow> disc_state \<Rightarrow> bool" where
  "figures_from svc s \<longleftrightarrow>
     (\<exists>payload w reply w'. compute_offer svc payload w = (Inr reply, w') \<and>
        op_application_id payload = st_application_id s \<and> op_principal payload = st_principal s \<and>
        op_annual_rate payload = st_annual_rate s \<and> op_term_months payload = st_term_months s \<and>
        st_offer_id s = or_offer_id reply \<and>
        (\<forall>f \<in> set figure_fields. \<exists>t. map_of (st_figures s) f = Some t \<and>
           as_text (figure_places f) (case map_of (or_figures reply) f of None \<Rightarrow> F_none | Some v \<Rightarrow> v) = Some t))"

definition approved :: "disc_state \<Rightarrow> bool" where
  "approved s \<longleftrightarrow> st_outcome s \<in> set pipeline_outcomes \<and> st_decision_event_id s \<noteq> None"

definition stage_ok :: "'w services \<Rightarrow> int \<Rightarrow> node \<Rightarrow> disc_state \<Rightarrow> bool" where
  "stage_ok svc app n s \<longleftrightarrow>
     st_application_id s = app \<and>
     (n \<in> {Compute, Assemble, Verify, Narrate, Persist} \<longrightarrow> approved s) \<and>
     (n \<in> {Assemble, Verify, Narrate, Persist} \<longrightarrow> figures_from svc s) \<and>
     (n = Compute \<longrightarrow> st_attempts s = 0 \<and> \<not> st_blocked s) \<and>
     (n = Assemble \<longrightarrow> st_attempts s < 2) \<and>
     (n = Verify \<longrightarrow> 1 \<le> st_attempts s \<and> st_attempts s \<le> 2) \<and>
     (n \<in> {Narrate, Persist} \<longrightarrow> mismatched_fields s = [] \<and> \<not> st_blocked s \<and>
        1 \<le> st_attempts s \<and> st_attempts s \<le> 2) \<and>
     (n = Persist \<longrightarrow> (\<exists>b. st_narration s = Some b \<and>
        (b = narration_unavailable \<or> grounded svc (na_summary b) (st_term_months s) (st_annual_rate s)))) \<and>
     (n = End \<longrightarrow> (if st_blocked s
        then st_reason s \<in> set retryable \<longrightarrow> st_attempts s = 2 \<and> st_disclosure s = None
        else mismatched_fields s = [] \<and> approved s \<and> figures_from svc s \<and>
             (\<exists>c. st_provenance s = Some c \<and> chain_complete c) \<and> st_disclosure s \<noteq> None)) \<and>
     (st_blocked s \<longrightarrow> st_reason s \<in> {render_mismatch, number_wrong, provenance_incomplete, not_approved}) \<and>
     (n \<noteq> End \<longrightarrow> st_disclosure s = None)"

lemma figures_from_frame [simp]:
  "figures_from svc (s\<lparr>st_document := d\<rparr>) = figures_from svc s"
  "figures_from svc (s\<lparr>st_attempts := a\<rparr>) = figures_from svc s"
  "figures_from svc (s\<lparr>st_blocked := b\<rparr>) = figures_from svc s"
  "figures_from svc (s\<lparr>st_reason := r\<rparr>) = figures_from svc s"
  "figures_from svc (s\<lparr>st_detail := r\<rparr>) = figures_from svc s"
  "figures_from svc (s\<lparr>st_checks_passed := k\<rparr>) = figures_from svc s"
  "figures_from svc (s\<lparr>st_narration := na\<rparr>) = figures_from svc s"
  "figures_from svc (s\<lparr>st_narration_degraded := b\<rparr>) = figures_from svc s"
  "figures_from svc (s\<lparr>st_disclosure := o1\<rparr>) = figures_from svc s"
  "figures_from svc (s\<lparr>st_provenance := o2\<rparr>) = figures_from svc s"
  by (simp_all add: figures_from_def)

lemma figures_complete:
  assumes "filter (\<lambda>f. snd f = None) (figures_of reply) = []" and "f \<in> set figure_fields"
  shows "\<exists>t. map_of (map (\<lambda>f. (fst f, the (snd f))) (figures_of reply)) f = Some t \<and>
    as_text (figure_places f) (case map_of (or_figures reply) f of None \<Rightarrow> F_none | Some v \<Rightarrow> v) = Some t"
  using assms by (auto simp: figures_of_def figure_fields_def split: if_splits)

lemma mismatched_frame [simp]:
  "mismatched_fields (s\<lparr>st_attempts := a\<rparr>) = mismatched_fields s"
  "mismatched_fields (s\<lparr>st_blocked := b\<rparr>) = mismatched_fields s"
  "mismatched_fields (s\<lparr>st_reason := r\<rparr>) = mismatched_fields s"
  "mismatched_fields (s\<lparr>st_detail := r\<rparr>) = mismatched_fields s"
  "mismatched_fields (s\<lparr>st_checks_passed := k\<rparr>) = mismatched_fields s"
  "mismatched_fields (s\<lparr>st_narration := na\<rparr>) = mismatched_fields s"
  "mismatched_fields (s\<lparr>st_narration_degraded := b\<rparr>) = mismatched_fields s"
  "mismatched_fields (s\<lparr>st_disclosure := o1\<rparr>) = mismatched_fields s"
  "mismatched_fields (s\<lparr>st_provenance := o2\<rparr>) = mismatched_fields s"
  by (simp_all add: mismatched_fields_def)

lemma approved_frame [simp]:
  "approved (s\<lparr>st_document := d\<rparr>) = approved s"
  "approved (s\<lparr>st_attempts := a\<rparr>) = approved s"
  "approved (s\<lparr>st_blocked := b\<rparr>) = approved s"
  "approved (s\<lparr>st_reason := r\<rparr>) = approved s"
  "approved (s\<lparr>st_detail := r\<rparr>) = approved s"
  "approved (s\<lparr>st_checks_passed := k\<rparr>) = approved s"
  "approved (s\<lparr>st_narration := na\<rparr>) = approved s"
  "approved (s\<lparr>st_narration_degraded := b\<rparr>) = approved s"
  "approved (s\<lparr>st_disclosure := o1\<rparr>) = approved s"
  "approved (s\<lparr>st_provenance := o2\<rparr>) = approved s"
  by (simp_all add: approved_def)

lemma then_doE:
  assumes "then_do m f = (Inr y, w')"
  obtains x w where "m = (Inr x, w)" "f x w = (Inr y, w')"
  using then_do_Inr [OF assms] that by blast

lemma route_ok:
  assumes ok: "stage_ok svc app Route s" and run: "run_node svc Route s w = (Inr s', w')"
  shows "stage_ok svc app (next_node Route s') s'"
proof -
  obtain cx where s': "s' = routed cx s"
    using run unfolding run_node.simps route_stage_def by (elim then_doE) auto
  show ?thesis
  proof (cases "st_blocked s'")
    case True
    then show ?thesis using ok unfolding s'
      by (auto simp: stage_ok_def routed_def Let_def blocked_with_def retryable_def block_reasons split: if_splits)
  next
    case False
    then have "approved s' \<and> st_attempts s' = 0 \<and> st_disclosure s' = st_disclosure s \<and>
        st_application_id s' = st_application_id s"
      unfolding s' by (simp add: routed_def Let_def blocked_with_def approved_def split: if_splits)
    then show ?thesis using ok False by (simp add: stage_ok_def)
  qed
qed

lemma compute_ok:
  assumes ok: "stage_ok svc app Compute s" and run: "run_node svc Compute s w = (Inr s', w')"
  shows "stage_ok svc app (next_node Compute s') s'"
proof -
  define payload where "payload = \<lparr>op_application_id = st_application_id s, op_principal = st_principal s,
      op_annual_rate = st_annual_rate s, op_term_months = st_term_months s,
      op_decision_event_id = st_decision_event_id s\<rparr>"
  obtain reply w1 where reply: "compute_offer svc payload w = (Inr reply, w1)"
    and s': "s' = (if map fst (filter (\<lambda>f. snd f = None) (figures_of reply)) \<noteq> []
      then blocked_with number_wrong (''missing='' @ commas (map fst (filter (\<lambda>f. snd f = None) (figures_of reply)))) s
      else s\<lparr>st_figures := map (\<lambda>f. (fst f, the (snd f))) (figures_of reply), st_offer_id := or_offer_id reply,
             st_decision_event_id := (case or_decision_event_id reply of None \<Rightarrow> st_decision_event_id s | Some e \<Rightarrow> Some e)\<rparr>)"
    using run by (auto simp: compute_stage_def payload_def [symmetric] Let_def dest!: then_do_Inr)
  show ?thesis
  proof (cases "filter (\<lambda>f. snd f = None) (figures_of reply) = []")
    case True
    then have "figures_from svc s'"
      unfolding figures_from_def using reply figures_complete [OF True]
      by (intro exI [of _ payload] exI [of _ w] exI [of _ reply] exI [of _ w1]) (simp add: s' payload_def)
    then show ?thesis using ok True by (auto simp: stage_ok_def s' approved_def split: option.split)
  next
    case False
    then show ?thesis using ok
      by (auto simp: stage_ok_def s' blocked_with_def retryable_def block_reasons)
  qed
qed

lemma assemble_ok:
  assumes ok: "stage_ok svc app Assemble s" and run: "run_node svc Assemble s w = (Inr s', w')"
  shows "stage_ok svc app (next_node Assemble s') s'"
proof -
  obtain doc where "s' = s\<lparr>st_document := Some doc, st_attempts := st_attempts s + 1\<rparr>"
    using run unfolding run_node.simps assemble_stage_def by (elim then_doE) auto
  then show ?thesis using ok by (simp add: stage_ok_def)
qed

lemma verify_ok:
  assumes ok: "stage_ok svc app Verify s"
  shows "stage_ok svc app (next_node Verify (verify_stage s)) (verify_stage s)"
proof (cases "mismatched_fields s = []")
  case True
  then show ?thesis using ok by (simp add: stage_ok_def verify_stage_def after_verify_def)
next
  case False
  then show ?thesis using ok
    by (auto simp: stage_ok_def verify_stage_def blocked_with_def after_verify_def max_assemble_attempts_def)
qed

lemma narrate_ok:
  assumes ok: "stage_ok svc app Narrate s" and run: "run_node svc Narrate s w = (Inr s', w')"
  shows "stage_ok svc app (next_node Narrate s') s'"
proof -
  obtain b d where "s' = s\<lparr>st_narration := Some b, st_narration_degraded := d\<rparr>"
    "b = narration_unavailable \<or> grounded svc (na_summary b) (st_term_months s) (st_annual_rate s)"
    using run unfolding run_node.simps narrate_stage_def Let_def
    by (elim then_doE) (auto split: option.splits if_splits)
  then show ?thesis using ok by (simp add: stage_ok_def)
qed

lemma persist_ok:
  assumes ok: "stage_ok svc app Persist s" and run: "run_node svc Persist s w = (Inr s', w')"
  shows "stage_ok svc app (next_node Persist s') s'"
proof -
  obtain rec chain detail where
    "s' = (if \<not> chain_complete chain
           then blocked_with provenance_incomplete detail (s\<lparr>st_disclosure := Some rec, st_provenance := Some chain\<rparr>)
           else s\<lparr>st_disclosure := Some rec, st_provenance := Some chain\<rparr>)"
    using run unfolding run_node.simps persist_stage_def Let_def by (elim then_doE) auto
  then show ?thesis using ok
    by (simp add: stage_ok_def blocked_with_def retryable_def block_reasons)
qed

lemma stage_ok_step:
  assumes ok: "stage_ok svc app n s" and n: "n \<noteq> End" and run: "run_node svc n s w = (Inr s', w')"
  shows "stage_ok svc app (next_node n s') s'"
  using ok run n
  by (cases n) (auto intro: route_ok compute_ok assemble_ok narrate_ok persist_ok verify_ok
      simp del: next_node.simps run_node.simps(1,2,3,5,6))

lemma pipeline_stages:
  assumes "run_pipeline svc app w = (r, trace, w')"
  shows "(\<forall>(m, t) \<in> set trace. stage_ok svc app m t) \<and>
    (\<forall>x. r = Inr x \<longrightarrow> (\<exists>final. x = result_of final \<and> stage_ok svc app End final))"
proof -
  have start: "stage_ok svc app Route (initial_state app)" by (simp add: stage_ok_def initial_state_def)
  have "(\<forall>(m, t) \<in> set (entered (run_graph svc Route (initial_state app) w)). stage_ok svc app m t) \<and>
    (\<forall>t. fst (run_graph svc Route (initial_state app) w) = Inr t \<longrightarrow> stage_ok svc app End t)"
    by (rule run_graph_invariant [OF stage_ok_step start])
  moreover obtain r0 where r0: "run_graph svc Route (initial_state app) w = (r0, trace, w')"
    and r: "r = bind_result r0 (\<lambda>final. Inr (result_of final))"
    using assms by (auto simp: run_pipeline_def split: prod.splits)
  ultimately have "(\<forall>(m, t) \<in> set trace. stage_ok svc app m t)" "\<And>t. r0 = Inr t \<Longrightarrow> stage_ok svc app End t"
    by simp_all
  moreover have "\<exists>final. x = result_of final \<and> r0 = Inr final" if "r = Inr x" for x
    using r that by (cases r0) simp_all
  ultimately show ?thesis by blast
qed

lemma pipeline_trace: "run_pipeline svc app w = (r, trace, w') \<Longrightarrow> trace = entered (run_graph svc Route (initial_state app) w)"
  by (auto simp: run_pipeline_def split: prod.splits)

section \<open>Properties\<close>

text \<open>C17. The pipeline ends. Whatever the model and the services answer, a run enters at most eight
  nodes (well within the 25 steps the graph library allows), asks the maker at most twice and
  writes at most one record.\<close>

theorem pipeline_terminates:
  "case run_pipeline svc app w of (r, trace, w') \<Rightarrow>
     length trace \<le> 8 \<and> entries Assemble trace \<le> 2 \<and> entries Persist trace \<le> 1"
  using run_graph_length [of svc Route "initial_state app" w] run_graph_asks [of svc Route "initial_state app" w]
    run_graph_writes [of svc Route "initial_state app" w]
  by (auto simp: run_pipeline_def split: prod.splits)

definition sample_record :: disclosure_out where
  "sample_record =
     \<lparr>out_id = 3, out_offer_id = 2, out_decision_event_id = 5, out_status = ''draft'', out_apr_text = ''9.584'',
      out_figures = \<lparr>out_apr = 9584, finance_charge_cents = 362871, amount_financed_cents = 1746000,
        monthly_payment_cents = 43935, total_of_payments_cents = 2108871\<rparr>,
      out_fee_schedule_version = ''2024-11'', out_apr_method_version = apr_method_version,
      out_fingerprint = '''', out_delivered_at = None\<rparr>"

definition sample_chain :: provenance_out where
  "sample_chain =
     (provenance_out_of (view_row
        \<lparr>offers = [], disclosures = [], events = [], applications = [], loan_apps = [],
         next_offer_id = 1, next_disclosure_id = 1, clock = 0\<rparr>
        \<lparr>o_id = 2, o_app_id = None, o_apr = None, o_finance_charge = None, o_monthly_payment = None,
         o_amount_financed = None, o_total_of_payments = None, o_created_at = None, o_decision_event_id = None\<rparr>
        None))\<lparr>chain_complete := True\<rparr>"

text \<open>A maker that gets one figure wrong on its first attempt; the world counts its attempts.\<close>

definition sample_services :: "nat services" where
  "sample_services =
     \<lparr>gather = (\<lambda>app w. (Inr \<lparr>cx_outcome = ''approve'', cx_decision_event_id = Some 5, cx_principal = 18000,
        cx_term_months = 48, cx_annual_rate = 8\<rparr>, w)),
      compute_offer = (\<lambda>p w. (Inr \<lparr>or_figures = map (\<lambda>f. (f, F_text ''1.00'')) figure_fields,
        or_offer_id = Some 2, or_decision_event_id = Some 5\<rparr>, w)),
      assemble_call = (\<lambda>figs term rate w. (Inr \<lparr>ad_heading = '''',
        ad_figures = (if w = 0 then (''apr'', ''1.0'') # figs else figs),
        ad_payment_terms = '''', ad_prepayment = ''''\<rparr>, w + 1)),
      narrate_call = (\<lambda>app term rate n w. (Inr None, w)), grounded = (\<lambda>s term rate. True),
      persist_disclosure = (\<lambda>p w. (Inr sample_record, w)), read_chain = (\<lambda>i w. (Inr sample_chain, w))\<rparr>"

lemma sample_run:
  "case run_pipeline sample_services 7 0 of
     (Inr (Inr x), trace, w) \<Rightarrow> rk_attempts x = 2 \<and> list_ex (\<lambda>e. fst e = Persist) trace | _ \<Rightarrow> False"
  by code_simp

lemma sample_run_reaches:
  obtains x trace w s where "run_pipeline sample_services 7 0 = (Inr (Inr x), trace, w)"
    "rk_attempts x = 2" "(Persist, s) \<in> set trace"
  using sample_run by (auto simp: list_ex_iff split: prod.splits sum.splits)

text \<open>C16. Nothing unverified is written. Where a run reaches its write, the decision approved the
  application, the figures are those the offer service answered for exactly the gathered terms,
  and the document about to be stored spells every one of them character for character, whatever
  the model produced; and what the officer is told is the canned brief or passed the guard.\<close>

theorem only_verified_documents_persisted:
  assumes "run_pipeline svc app w = (r, trace, w')" and "(Persist, s) \<in> set trace"
  shows "st_outcome s = ''approve'' \<and> st_decision_event_id s \<noteq> None \<and>
    (\<exists>payload w0 reply w1. compute_offer svc payload w0 = (Inr reply, w1) \<and>
       op_principal payload = st_principal s \<and> op_annual_rate payload = st_annual_rate s \<and>
       op_term_months payload = st_term_months s \<and> st_offer_id s = or_offer_id reply \<and>
       (\<exists>doc. st_document s = Some doc \<and> (\<forall>f \<in> set figure_fields. \<exists>t. map_of (ad_figures doc) f = Some t \<and>
          as_text (figure_places f) (case map_of (or_figures reply) f of None \<Rightarrow> F_none | Some v \<Rightarrow> v) = Some t))) \<and>
    (\<exists>b. st_narration s = Some b \<and>
       (b = narration_unavailable \<or> grounded svc (na_summary b) (st_term_months s) (st_annual_rate s)))"
proof -
  have ok: "stage_ok svc app Persist s" using pipeline_stages [OF assms(1)] assms(2) by auto
  then have same: "\<forall>f \<in> set figure_fields.
      map_of (case st_document s of None \<Rightarrow> [] | Some d \<Rightarrow> ad_figures d) f = map_of (st_figures s) f"
    by (auto simp: stage_ok_def mismatched_fields_def filter_empty_conv)
  obtain payload w0 reply w1 where from_offer: "compute_offer svc payload w0 = (Inr reply, w1)"
    "op_principal payload = st_principal s" "op_annual_rate payload = st_annual_rate s"
    "op_term_months payload = st_term_months s" "st_offer_id s = or_offer_id reply"
    "\<forall>f \<in> set figure_fields. \<exists>t. map_of (st_figures s) f = Some t \<and>
       as_text (figure_places f) (case map_of (or_figures reply) f of None \<Rightarrow> F_none | Some v \<Rightarrow> v) = Some t"
    using ok by (auto simp: stage_ok_def figures_from_def)
  have "''apr'' \<in> set figure_fields" by (simp add: figure_fields_def)
  then obtain doc where doc: "st_document s = Some doc" using same from_offer(6) by (cases "st_document s") fastforce+
  have "\<forall>f \<in> set figure_fields. \<exists>t. map_of (ad_figures doc) f = Some t \<and>
      as_text (figure_places f) (case map_of (or_figures reply) f of None \<Rightarrow> F_none | Some v \<Rightarrow> v) = Some t"
    using same from_offer(6) doc by simp
  with doc from_offer ok show ?thesis
    by (auto simp: stage_ok_def approved_def pipeline_outcomes_def)
qed

theorem only_verified_documents_persisted_witness:
  "\<exists>r trace w s doc. run_pipeline sample_services 7 0 = (r, trace, w) \<and> (Persist, s) \<in> set trace \<and>
     st_outcome s = ''approve'' \<and> st_document s = Some doc"
proof -
  obtain x trace w s where run: "run_pipeline sample_services 7 0 = (Inr (Inr x), trace, w)"
    and s: "(Persist, s) \<in> set trace" by (rule sample_run_reaches)
  show ?thesis using only_verified_documents_persisted [OF run s] run s by blast
qed

text \<open>What a run reports is so. An ok result has a stored record with a complete chain and a
  verified document, after one or two attempts; giving up on the maker is reported only after
  two attempts, with nothing written.\<close>

theorem pipeline_result_sound:
  assumes "run_pipeline svc app w = (Inr x, trace, w')"
  shows "case x of
      Inr ok \<Rightarrow> rk_disclosure ok \<noteq> None \<and> (\<exists>c. rk_provenance ok = Some c \<and> chain_complete c)
    | Inl b \<Rightarrow> rb_reason b \<noteq> render_mismatch \<and>
        (rb_reason b = retries_exhausted \<longrightarrow> rb_attempts b = 2 \<and> rb_disclosure b = None)"
proof -
  obtain final where final: "x = result_of final" "stage_ok svc app End final"
    using pipeline_stages [OF assms] by blast
  then show ?thesis
    by (auto simp: stage_ok_def result_of_def retryable_def block_reasons split: if_splits)
qed


theorem pipeline_result_sound_witness:
  "\<exists>x trace w. run_pipeline sample_services 7 0 = (Inr (Inr x), trace, w) \<and> rk_disclosure x \<noteq> None"
proof -
  obtain x trace w s where run: "run_pipeline sample_services 7 0 = (Inr (Inr x), trace, w)" by (rule sample_run_reaches)
  show ?thesis using pipeline_result_sound [OF run] run by auto
qed


end
