(* ===== verification/LosData.thy ===== *)
theory LosData
  imports DisclosureData Authz
begin

text \<open>
  The tables origination-service works on (\<^verbatim>\<open>app/models.py\<close>, \<^verbatim>\<open>db/init/001_schema.sql\<close>): users,
  applicants, applications, identity checks, the current decision of an application, loans and
  their balances, the audit log, and the offers, disclosures and decision events it shares with
  disclosure-service. \<open>disc_view\<close> is what disclosure-service sees of them. Instants are integers
  in microseconds; the instant of the database is the clock of the shared tables.
\<close>

section \<open>Rows\<close>

record user_row =
  u_id :: int
  u_applicant_id :: "int option"

record applicant_row =
  apl_id :: int
  apl_name :: string
  apl_dob :: "string option"
  apl_ssn :: "string option"
  apl_ssn_last4 :: "string option"
  apl_ein :: "string option"
  apl_is_entity :: bool
  apl_email :: "string option"
  apl_phone :: "string option"
  apl_address :: "string option"

record app_row =
  la_id :: int
  la_applicant_id :: "int option"
  la_amount :: rat
  la_term_months :: int
  la_purpose :: "string option"
  la_income :: "rat option"
  la_monthly_debt :: "rat option"
  la_employer :: "string option"
  la_job_title :: "string option"
  la_employment_years :: "rat option"
  la_status :: string
  la_token :: "string option"
  la_token_expires :: "int option"
  la_submitted_by :: "int option"

record kyc_row =
  kc_id :: int
  kc_applicant_id :: "int option"
  kc_name :: bool
  kc_dob :: bool
  kc_address :: bool
  kc_ssn :: bool

record loan_row =
  l_id :: int
  l_app_id :: "int option"
  l_applicant_name :: string
  l_principal :: rat
  l_apr :: rat
  l_note_rate :: rat
  l_term_months :: int
  l_opened_at :: int

record los_db =
  los_users :: "user_row list"
  los_applicants :: "applicant_row list"
  los_apps :: "app_row list"
  kyc_checks :: "kyc_row list"
  los_decisions :: "int \<rightharpoonup> string"
  shared :: disc_db
  los_loans :: "loan_row list"
  los_balances :: "int \<rightharpoonup> rat"
  audit_log :: "(string \<times> string \<times> string) list"
  next_applicant :: int
  next_app :: int
  next_check :: int
  next_loan :: int

section \<open>Reads\<close>

definition app_by_id :: "los_db \<Rightarrow> int \<Rightarrow> app_row option" where
  "app_by_id db i = find (\<lambda>a. la_id a = i) (los_apps db)"

definition applicant_by_id :: "los_db \<Rightarrow> int \<Rightarrow> applicant_row option" where
  "applicant_by_id db i = find (\<lambda>a. apl_id a = i) (los_applicants db)"

definition applicant_of_user :: "los_db \<Rightarrow> int \<Rightarrow> int option" where
  "applicant_of_user db i = bind_option (find (\<lambda>u. u_id u = i) (los_users db)) u_applicant_id"

definition now :: "los_db \<Rightarrow> int" where
  "now db = clock (shared db)"

text \<open>The first loan of an application.\<close>

definition first_loan :: "los_db \<Rightarrow> int \<Rightarrow> loan_row option" where
  "first_loan db app_id =
     (case filter (\<lambda>l. l_app_id l = Some app_id) (los_loans db) of
        [] \<Rightarrow> None | l # ls \<Rightarrow> Some (min_by l_id l ls))"

text \<open>What disclosure-service sees.\<close>

definition disc_view :: "los_db \<Rightarrow> disc_db" where
  "disc_view db = (shared db)
     \<lparr>applications := map (\<lambda>a. (la_id a, la_applicant_id a)) (los_apps db),
      loan_apps := map l_app_id (los_loans db)\<rparr>"

lemma disc_view_sel [simp]:
  "offers (disc_view db) = offers (shared db)"
  "disclosures (disc_view db) = disclosures (shared db)"
  "events (disc_view db) = events (shared db)"
  "clock (disc_view db) = clock (shared db)"
  "loan_apps (disc_view db) = map l_app_id (los_loans db)"
  "applications (disc_view db) = map (\<lambda>a. (la_id a, la_applicant_id a)) (los_apps db)"
  by (simp_all add: disc_view_def)

definition set_app :: "int \<Rightarrow> (app_row \<Rightarrow> app_row) \<Rightarrow> los_db \<Rightarrow> los_db" where
  "set_app i f db = db\<lparr>los_apps := map (\<lambda>a. if la_id a = i then f a else a) (los_apps db)\<rparr>"

definition audit :: "string \<Rightarrow> string \<Rightarrow> string \<Rightarrow> los_db \<Rightarrow> los_db" where
  "audit actor action detail db = db\<lparr>audit_log := audit_log db @ [(actor, action, detail)]\<rparr>"

end
