(* ===== verification/LosAuthz.thy ===== *)
theory LosAuthz
  imports LosData
begin

text \<open>
  origination-service, \<^verbatim>\<open>app/authz.py\<close> and the key set of \<^verbatim>\<open>app/config.py\<close>: the officer role, the
  owner of an application, the continuation token of an anonymous applicant (a bearer credential
  kept as a keyed digest with the version of its key), the replay-only use of a retired token,
  and the refusal of a decision on one's own application. The keyed digest is the argument
  \<open>hmac\<close> (key, message); the reads of one gate are taken at one state, log lines are left out.
\<close>

section \<open>Keys\<close>

record token_config =
  token_keys_text :: string
  token_environment :: string
  service_token :: string
  token_ttl_days :: int

fun split_on :: "char \<Rightarrow> string \<Rightarrow> string list" where
  "split_on c [] = [[]]"
| "split_on c (x # xs) =
     (if x = c then [] # split_on c xs
      else case split_on c xs of [] \<Rightarrow> [[x]] | y # ys \<Rightarrow> (x # y) # ys)"

text \<open>\<^verbatim>\<open>str.partition\<close>: the text before the first \<open>c\<close> and, if there is one, the text after it.\<close>

definition partition_on :: "char \<Rightarrow> string \<Rightarrow> string \<times> string option" where
  "partition_on c s =
     (takeWhile (\<lambda>x. x \<noteq> c) s,
      case dropWhile (\<lambda>x. x \<noteq> c) s of [] \<Rightarrow> None | _ # rest \<Rightarrow> Some rest)"

definition legacy_version :: string where
  "legacy_version = ''legacy''"

definition key_of_part :: "string \<Rightarrow> (string \<times> string) list" where
  "key_of_part part =
     (case partition_on (CHR '':'') (strip part) of
        (ver, None) \<Rightarrow> []
      | (ver, Some secret) \<Rightarrow>
          if strip ver \<noteq> '''' \<and> strip ver \<noteq> legacy_version \<and> secret \<noteq> ''''
          then [(strip ver, secret)] else [])"

definition continuation_token_keys :: "token_config \<Rightarrow> (string \<times> string) list" where
  "continuation_token_keys cfg = concat (map key_of_part (split_on (CHR '','') (token_keys_text cfg)))"

definition verify_keys :: "token_config \<Rightarrow> (string \<times> string) list" where
  "verify_keys cfg = continuation_token_keys cfg @
     (if service_token cfg \<noteq> '''' then [(legacy_version, service_token cfg)] else [])"

text \<open>The key a new token is hashed with; \<open>None\<close> is the \<^verbatim>\<open>RuntimeError\<close>.\<close>

definition issuing_key :: "token_config \<Rightarrow> (string \<times> string) option" where
  "issuing_key cfg =
     (case continuation_token_keys cfg of
        k # ks \<Rightarrow> Some k
      | [] \<Rightarrow> if token_environment cfg = ''development'' \<and> service_token cfg \<noteq> ''''
              then Some (legacy_version, service_token cfg) else None)"

definition hash_token :: "(string \<Rightarrow> string \<Rightarrow> string) \<Rightarrow> token_config \<Rightarrow> string \<Rightarrow> string option" where
  "hash_token hmac cfg raw =
     map_option (\<lambda>(ver, secret). ver @ '':'' @ hmac secret raw) (issuing_key cfg)"

definition verify_token :: "(string \<Rightarrow> string \<Rightarrow> string) \<Rightarrow> token_config \<Rightarrow> string \<Rightarrow> string \<Rightarrow> bool" where
  "verify_token hmac cfg raw stored =
     (if raw = '''' \<or> stored = '''' then False
      else case partition_on (CHR '':'') stored of
        (ver, Some digest) \<Rightarrow> list_ex (\<lambda>(v, s). v = ver \<and> hmac s raw = digest) (verify_keys cfg)
      | (ver, None) \<Rightarrow> list_ex (\<lambda>(v, s). hmac s raw = stored) (verify_keys cfg))"

section \<open>Gates\<close>

definition officer_roles :: "string set" where
  "officer_roles = {''underwriter'', ''admin''}"

definition orig_is_officer :: "string option \<Rightarrow> bool" where
  "orig_is_officer x_user_role \<longleftrightarrow>
     lower (strip (case x_user_role of None \<Rightarrow> '''' | Some r \<Rightarrow> r)) \<in> officer_roles"

definition orig_as_int :: "string option \<Rightarrow> int option" where
  "orig_as_int v = (case v of None \<Rightarrow> None | Some s \<Rightarrow> py_int s)"

definition require_officer :: "string option \<Rightarrow> unit response" where
  "require_officer x_user_role =
     (if \<not> orig_is_officer x_user_role then raise_http 403 ''officer role required'' else Inr ())"

definition expired :: "int \<Rightarrow> int option \<Rightarrow> bool" where
  "expired t expires_at = (case expires_at of None \<Rightarrow> True | Some e \<Rightarrow> e \<le> t)"

text \<open>An absent header and an empty one are alike.\<close>

definition present :: "string option \<Rightarrow> bool" where
  "present v \<longleftrightarrow> v \<noteq> None \<and> v \<noteq> Some ''''"

definition owns_application :: "los_db \<Rightarrow> app_row \<Rightarrow> int option \<Rightarrow> bool" where
  "owns_application db row user_id =
     (case bind_option user_id (applicant_of_user db) of
        None \<Rightarrow> False | Some caller \<Rightarrow> la_applicant_id row = Some caller)"

definition holds_token ::
  "(string \<Rightarrow> string \<Rightarrow> string) \<Rightarrow> token_config \<Rightarrow> int \<Rightarrow> app_row \<Rightarrow> string option \<Rightarrow> bool" where
  "holds_token hmac cfg t row x_application_token =
     (case (x_application_token, la_token row) of
        (Some raw, Some stored) \<Rightarrow>
          raw \<noteq> '''' \<and> stored \<noteq> '''' \<and> \<not> expired t (la_token_expires row) \<and> verify_token hmac cfg raw stored
      | _ \<Rightarrow> False)"

definition require_officer_or_owner ::
  "(string \<Rightarrow> string \<Rightarrow> string) \<Rightarrow> token_config \<Rightarrow> int \<Rightarrow> los_db \<Rightarrow> int \<Rightarrow> string option \<Rightarrow> string option \<Rightarrow>
   string option \<Rightarrow> unit response" where
  "require_officer_or_owner hmac cfg t db app_id x_user_role x_user_id x_application_token =
     (if orig_is_officer x_user_role then Inr ()
      else if orig_as_int x_user_id = None \<and> \<not> present x_application_token
      then raise_http 404 ''application not found''
      else case app_by_id db app_id of
        None \<Rightarrow> raise_http 404 ''application not found''
      | Some row \<Rightarrow>
          if owns_application db row (orig_as_int x_user_id) \<or> holds_token hmac cfg t row x_application_token
          then Inr () else raise_http 404 ''application not found'')"

definition terminal_accept_replay ::
  "(string \<Rightarrow> string \<Rightarrow> string) \<Rightarrow> token_config \<Rightarrow> los_db \<Rightarrow> int \<Rightarrow> string option \<Rightarrow> int option" where
  "terminal_accept_replay hmac cfg db app_id x_application_token =
     (case x_application_token of
        None \<Rightarrow> None
      | Some raw \<Rightarrow>
          if raw = '''' then None
          else case find (\<lambda>a. la_id a = app_id \<and> la_status a = ''funded'') (los_apps db) of
            None \<Rightarrow> None
          | Some row \<Rightarrow>
              (case la_token row of
                 None \<Rightarrow> None
               | Some stored \<Rightarrow>
                   if stored = '''' \<or> \<not> verify_token hmac cfg raw stored then None
                   else map_option l_id (first_loan db app_id)))"

definition deny_self_decision :: "los_db \<Rightarrow> int \<Rightarrow> string option \<Rightarrow> string option \<Rightarrow> unit response" where
  "deny_self_decision db app_id x_user_role x_user_id =
     (if \<not> orig_is_officer x_user_role then Inr ()
      else case orig_as_int x_user_id of
        None \<Rightarrow> Inr ()
      | Some user_id \<Rightarrow>
          (case app_by_id db app_id of
             None \<Rightarrow> Inr ()
           | Some row \<Rightarrow>
               if (applicant_of_user db user_id \<noteq> None \<and> la_applicant_id row = applicant_of_user db user_id) \<or>
                  la_submitted_by row = Some user_id
               then raise_http 403 ''a decision cannot be run by the applicant's own account; another officer must decision this application''
               else Inr ()))"

text \<open>The guard of \<^verbatim>\<open>routers/applications.py\<close>, origination's copy of the service-to-service check.\<close>

definition orig_require_internal_caller :: "string \<Rightarrow> string option \<Rightarrow> unit response" where
  "orig_require_internal_caller expected x_internal_service =
     (if expected = '''' then raise_http 503 ''internal auth not configured''
      else case x_internal_service of
        None \<Rightarrow> raise_http 403 ''internal service identity required''
      | Some s \<Rightarrow> if s = '''' \<or> s \<noteq> expected
                 then raise_http 403 ''internal service identity required'' else Inr ())"

interpretation origination_guard: internal_gate orig_require_internal_caller
  by unfold_locales (auto simp: orig_require_internal_caller_def split: option.splits)

section \<open>Tokens\<close>

lemma partition_on_append:
  "c \<notin> set v \<Longrightarrow> partition_on c (v @ c # rest) = (v, Some rest)"
  by (simp add: partition_on_def takeWhile_append dropWhile_append)

lemma set_strip: "set (strip s) \<subseteq> set s"
  by (auto simp: strip_def dest!: set_dropWhileD)

lemma key_version: "(v, s) \<in> set (continuation_token_keys cfg) \<Longrightarrow> CHR '':'' \<notin> set v"
proof -
  assume "(v, s) \<in> set (continuation_token_keys cfg)"
  then obtain part where "(v, s) \<in> set (key_of_part part)" by (auto simp: continuation_token_keys_def)
  then have "v = strip (takeWhile (\<lambda>x. x \<noteq> CHR '':'') (strip part))"
    by (auto simp: key_of_part_def partition_on_def split: if_splits list.splits)
  then have "set v \<subseteq> set (takeWhile (\<lambda>x. x \<noteq> CHR '':'') (strip part))" using set_strip by simp
  then show ?thesis using set_takeWhileD by fastforce
qed

lemma issuing_version: "issuing_key cfg = Some (v, s) \<Longrightarrow> CHR '':'' \<notin> set v"
proof (cases "continuation_token_keys cfg")
  case (Cons k ks)
  moreover assume "issuing_key cfg = Some (v, s)"
  ultimately have "(v, s) \<in> set (continuation_token_keys cfg)" by (simp add: issuing_key_def)
  then show ?thesis by (rule key_version)
qed (auto simp: issuing_key_def legacy_version_def split: if_splits)

text \<open>What a stored digest accepts: the digest under a configured key of its own version.\<close>

lemma verify_issued:
  assumes "hash_token hmac cfg0 raw0 = Some stored" and "issuing_key cfg0 = Some (v, s)"
  shows "verify_token hmac cfg raw stored \<longleftrightarrow>
    raw \<noteq> '''' \<and> (\<exists>s'. (v, s') \<in> set (verify_keys cfg) \<and> hmac s' raw = hmac s raw0)"
proof -
  have "stored = v @ CHR '':'' # hmac s raw0" using assms by (simp add: hash_token_def)
  then show ?thesis
    using partition_on_append [OF issuing_version [OF assms(2)], of "hmac s raw0"]
    by (auto simp: verify_token_def list_ex_iff)
qed

lemma issuing_key_accepted: "issuing_key cfg = Some k \<Longrightarrow> k \<in> set (verify_keys cfg)"
  by (auto simp: issuing_key_def verify_keys_def split: list.splits if_splits)

section \<open>The gate\<close>

lemma owner_gate_iff:
  "require_officer_or_owner hmac cfg t db app role uid tok = Inr () \<longleftrightarrow>
     orig_is_officer role \<or>
     (\<exists>row. app_by_id db app = Some row \<and>
        (owns_application db row (orig_as_int uid) \<or> holds_token hmac cfg t row tok))"
proof -
  have none: "\<not> owns_application db row (orig_as_int uid) \<and> \<not> holds_token hmac cfg t row tok"
    if "orig_as_int uid = None" "\<not> present tok" for row
    using that by (auto simp: owns_application_def bind_option_def holds_token_def present_def split: option.splits)
  show ?thesis
  proof (cases "orig_as_int uid = None \<and> \<not> present tok")
    case True
    then show ?thesis using none by (auto simp: require_officer_or_owner_def)
  next
    case False
    then show ?thesis by (cases "app_by_id db app") (auto simp: require_officer_or_owner_def)
  qed
qed

lemma owner_gate_denial:
  "require_officer_or_owner hmac cfg t db app role uid tok \<noteq> Inr () \<Longrightarrow>
   require_officer_or_owner hmac cfg t db app role uid tok = raise_http 404 ''application not found''"
  by (cases "app_by_id db app") (auto simp: require_officer_or_owner_def split: if_splits)

lemma funded_holds_no_token: "la_token_expires row = None \<Longrightarrow> \<not> holds_token hmac cfg t row tok"
  by (simp add: holds_token_def expired_def split: option.splits)

end
