(* ===== verification/Kyc.thy ===== *)
theory Kyc
  imports LosAuthz
begin

text \<open>
  Identity checks: kyc-service (\<^verbatim>\<open>app/kyc.py\<close>, \<^verbatim>\<open>app/routers/kyc.py\<close>), the call to it from intake
  (\<^verbatim>\<open>_run_kyc\<close> of origination's \<^verbatim>\<open>routers/applications.py\<close>) and the gate before every regulated
  step (\<^verbatim>\<open>app/kyc_gate.py\<close>). Both services work on the same tables.
\<close>

section \<open>kyc-service\<close>

record cip_in =
  ci_application_id :: int
  ci_applicant_id :: int
  ci_name :: string
  ci_dob :: "string option"
  ci_ssn :: "string option"
  ci_address :: "string option"
  ci_entity_type :: "string option"

record cip_result =
  cip_name :: bool
  cip_dob :: bool
  cip_address :: bool
  cip_ssn :: bool

definition run_cip :: "cip_in \<Rightarrow> cip_result" where
  "run_cip b =
     \<lparr>cip_name = ci_name b \<noteq> '''', cip_dob = present (ci_dob b), cip_address = present (ci_address b),
      cip_ssn = present (ci_ssn b)\<rparr>"

record cip_out =
  co_check_id :: int
  co_application_id :: int
  co_status :: string
  co_cip_passed :: bool

definition kyc_require_internal_caller :: "string \<Rightarrow> string option \<Rightarrow> unit response" where
  "kyc_require_internal_caller expected x_internal_service =
     (if expected = '''' then raise_http 503 ''internal auth not configured''
      else case x_internal_service of
        None \<Rightarrow> raise_http 403 ''internal service identity required''
      | Some s \<Rightarrow> if s = '''' \<or> s \<noteq> expected
                 then raise_http 403 ''internal service identity required'' else Inr ())"

interpretation kyc_guard: internal_gate kyc_require_internal_caller
  by unfold_locales (auto simp: kyc_require_internal_caller_def split: option.splits)

text \<open>
  The INSERT, refused by the foreign key of an applicant that does not exist; the database may
  also be down (\<open>up = False\<close>). Both are the 503.
\<close>

definition insert_check :: "int \<Rightarrow> cip_result \<Rightarrow> bool \<Rightarrow> los_db \<Rightarrow> int option \<times> los_db" where
  "insert_check applicant cip up db =
     (if \<not> up then (None, db)
      else if applicant_by_id db applicant = None then (None, db\<lparr>next_check := next_check db + 1\<rparr>)
      else (Some (next_check db),
        db\<lparr>kyc_checks := kyc_checks db @ [\<lparr>kc_id = next_check db, kc_applicant_id = Some applicant,
              kc_name = cip_name cip, kc_dob = cip_dob cip, kc_address = cip_address cip, kc_ssn = cip_ssn cip\<rparr>],
           next_check := next_check db + 1\<rparr>))"

definition kyc_check :: "string \<Rightarrow> bool \<Rightarrow> cip_in \<Rightarrow> string option \<Rightarrow> los_db \<Rightarrow> cip_out response \<times> los_db" where
  "kyc_check token up b x_internal_service db =
     (case kyc_require_internal_caller token x_internal_service of
        Inl e \<Rightarrow> (Inl e, db)
      | Inr _ \<Rightarrow>
          (let cip = run_cip b; passed = (cip_name cip \<and> cip_address cip)
           in case insert_check (ci_applicant_id b) cip up db of
                (None, db1) \<Rightarrow> (raise_http 503 ''could not persist identity verification result'', db1)
              | (Some i, db1) \<Rightarrow>
                  (Inr \<lparr>co_check_id = i, co_application_id = ci_application_id b,
                        co_status = (if passed then ''pass'' else ''fail''), co_cip_passed = passed\<rparr>, db1)))"

section \<open>The call from intake\<close>

text \<open>What intake puts on the wire; applicant and name may be missing there.\<close>

record kyc_payload =
  kp_application_id :: int
  kp_applicant_id :: "int option"
  kp_name :: "string option"
  kp_dob :: "string option"
  kp_ssn :: "string option"
  kp_address :: "string option"
  kp_entity_type :: "string option"

text \<open>The four booleans of the answer.\<close>

record kyc_out =
  ko_name :: bool
  ko_dob :: bool
  ko_address :: bool
  ko_ssn :: bool

definition all_unverified :: kyc_out where
  "all_unverified = \<lparr>ko_name = False, ko_dob = False, ko_address = False, ko_ssn = False\<rparr>"

text \<open>
  \<open>post_kyc\<close> is the client call: the class of the exception, or the \<^verbatim>\<open>cip_passed\<close> of the answer.
  The audit row of a failed call is best effort: \<open>audited\<close> tells whether it was written.
\<close>

definition run_kyc ::
  "(kyc_payload \<Rightarrow> los_db \<Rightarrow> (string + bool) \<times> los_db) \<Rightarrow> bool \<Rightarrow> kyc_payload \<Rightarrow> bool \<Rightarrow> los_db \<Rightarrow>
   (kyc_out \<times> bool) \<times> los_db" where
  "run_kyc post_kyc audited p is_entity db =
     (case post_kyc p db of
        (Inr passed, db1) \<Rightarrow>
          ((\<lparr>ko_name = passed, ko_dob = (passed \<and> \<not> is_entity), ko_address = passed,
             ko_ssn = (passed \<and> \<not> is_entity)\<rparr>, True), db1)
      | (Inl err, db1) \<Rightarrow>
          ((all_unverified, False),
           if audited
           then audit ''origination-service'' ''kyc_unavailable''
                  (''app_id='' @ show_int (kp_application_id p) @ '' error='' @ err) db1
           else db1))"

definition kyc_payload_of ::
  "int \<Rightarrow> int option \<Rightarrow> string option \<Rightarrow> string option \<Rightarrow> string option \<Rightarrow> string option \<Rightarrow> bool \<Rightarrow> kyc_payload" where
  "kyc_payload_of app_id applicant_id name dob last4 address is_entity =
     \<lparr>kp_application_id = app_id, kp_applicant_id = applicant_id, kp_name = name, kp_dob = dob,
      kp_ssn = last4, kp_address = address, kp_entity_type = (if is_entity then Some ''llc'' else None)\<rparr>"

text \<open>
  The call when kyc-service answers: the body has to fit \<^verbatim>\<open>CipCheckIn\<close>, and \<^verbatim>\<open>post\<close> raises on
  anything but a 2xx.
\<close>

definition kyc_service :: "string \<Rightarrow> bool \<Rightarrow> kyc_payload \<Rightarrow> los_db \<Rightarrow> (string + bool) \<times> los_db" where
  "kyc_service token up p db =
     (case (kp_applicant_id p, kp_name p) of
        (Some applicant, Some name) \<Rightarrow>
          (case kyc_check token up
              \<lparr>ci_application_id = kp_application_id p, ci_applicant_id = applicant, ci_name = name,
               ci_dob = kp_dob p, ci_ssn = kp_ssn p, ci_address = kp_address p,
               ci_entity_type = kp_entity_type p\<rparr>
              (if token = '''' then None else Some token) db of
             (Inl e, db1) \<Rightarrow> (Inl ''HTTPStatusError'', db1)
           | (Inr out, db1) \<Rightarrow> (Inr (co_cip_passed out), db1))
      | _ \<Rightarrow> (Inl ''HTTPStatusError'', db))"

section \<open>The gate\<close>

definition latest_check :: "los_db \<Rightarrow> int option \<Rightarrow> kyc_row option" where
  "latest_check db applicant =
     (case filter (\<lambda>k. applicant \<noteq> None \<and> kc_applicant_id k = applicant) (kyc_checks db) of
        [] \<Rightarrow> None | k # ks \<Rightarrow> Some (min_by (\<lambda>k. - kc_id k) k ks))"

definition kyc_passed :: "los_db \<Rightarrow> int \<Rightarrow> bool" where
  "kyc_passed db app_id =
     (case bind_option (bind_option (app_by_id db app_id) la_applicant_id) (applicant_by_id db) of
        None \<Rightarrow> False
      | Some ap \<Rightarrow>
          (case latest_check db (Some (apl_id ap)) of
             None \<Rightarrow> False
           | Some k \<Rightarrow> kc_name k \<and> kc_address k \<and>
               (if \<not> apl_is_entity ap then kc_dob k \<and> kc_ssn k
                else strip (case apl_ein ap of None \<Rightarrow> '''' | Some e \<Rightarrow> e) \<noteq> '''')))"

definition require_kyc_passed :: "los_db \<Rightarrow> int \<Rightarrow> unit response" where
  "require_kyc_passed db app_id =
     (if kyc_passed db app_id then Inr ()
      else raise_http 409 ''identity verification (KYC) has not passed for this application'')"

end
