(* ===== verification/Intake.thy ===== *)
theory Intake
  imports Kyc
begin

text \<open>
  Application intake of origination-service: the request models of \<^verbatim>\<open>app/schemas.py\<close>,
  \<^verbatim>\<open>app/intake.py\<close> and the intake routes of \<^verbatim>\<open>app/routers/applications.py\<close> (submit, KYC recheck,
  capture of the monthly debt, abandon). Other sessions run between the statements of a route:
  before its \<open>n\<close>-th one as \<open>w n\<close>. The random token of a submit is an argument, the date and the
  instant of the service too; a \<^verbatim>\<open>DATE\<close> is its ISO text.
\<close>

section \<open>Request models\<close>

record application_in =
  ain_name :: string
  ain_dob :: "string option"
  ain_ssn :: "string option"
  ain_ein :: "string option"
  ain_is_entity :: bool
  ain_email :: "string option"
  ain_phone :: "string option"
  ain_address :: "string option"
  ain_amount :: rat
  ain_term_months :: int
  ain_purpose :: "string option"
  ain_income :: "rat option"
  ain_monthly_debt :: rat
  ain_employer :: "string option"
  ain_job_title :: "string option"
  ain_employment_years :: "rat option"

definition digits_of_length :: "nat \<Rightarrow> string \<Rightarrow> bool" where
  "digits_of_length n s \<longleftrightarrow> length s = n \<and> list_all py_digit s"

text \<open>\<^verbatim>\<open>^(?:\d{9}|\d{3}-\d{2}-\d{4})$\<close>\<close>

definition ssn_format :: "string \<Rightarrow> bool" where
  "ssn_format s \<longleftrightarrow> digits_of_length 9 s \<or>
     (case split_on (CHR ''-'') s of
        [a, b, c] \<Rightarrow> digits_of_length 3 a \<and> digits_of_length 2 b \<and> digits_of_length 4 c
      | _ \<Rightarrow> False)"

definition validate_ssn :: "string option \<Rightarrow> string option option" where
  "validate_ssn v =
     (case v of None \<Rightarrow> Some None
      | Some s \<Rightarrow> if strip s \<noteq> '''' \<and> \<not> ssn_format (strip s) then None else Some (Some (strip s)))"

text \<open>\<open>None\<close> is the 422; the value that leaves the validator is stripped, blank is absent.\<close>

definition validate_dob :: "int \<Rightarrow> string option \<Rightarrow> string option option" where
  "validate_dob today v =
     (case v of None \<Rightarrow> Some None
      | Some s \<Rightarrow>
          if strip s = '''' then Some None
          else case split_on (CHR ''-'') (strip s) of
            [y, m, d] \<Rightarrow>
              if digits_of_length 4 y \<and> digits_of_length 2 m \<and> digits_of_length 2 d \<and>
                 ymd_ok (digits_val y) (digits_val m) (digits_val d) \<and> 1900 \<le> digits_val y \<and>
                 ord_of_ymd (digits_val y) (digits_val m) (digits_val d) \<le> today
              then Some (Some (strip s)) else None
          | _ \<Rightarrow> None)"

text \<open>
  \<^verbatim>\<open>^\+?1?[\s.-]?\(?\d{3}\)?[\s.-]?\d{3}[\s.-]?\d{4}$\<close>, as the texts that may be left after each part.
\<close>

definition skip_opt :: "(char \<Rightarrow> bool) \<Rightarrow> string list \<Rightarrow> string list" where
  "skip_opt p rests = rests @ map tl (filter (\<lambda>s. s \<noteq> [] \<and> p (hd s)) rests)"

definition skip_digits :: "nat \<Rightarrow> string list \<Rightarrow> string list" where
  "skip_digits n rests = map (drop n) (filter (\<lambda>s. digits_of_length n (take n s)) rests)"

definition phone_sep :: "char \<Rightarrow> bool" where
  "phone_sep c \<longleftrightarrow> py_space c \<or> c = CHR ''.'' \<or> c = CHR ''-''"

definition phone_format :: "string \<Rightarrow> bool" where
  "phone_format s \<longleftrightarrow>
     [] \<in> set (skip_digits 4 (skip_opt phone_sep (skip_digits 3 (skip_opt phone_sep
       (skip_opt (\<lambda>c. c = CHR '')'') (skip_digits 3 (skip_opt (\<lambda>c. c = CHR ''('') (skip_opt phone_sep
       (skip_opt (\<lambda>c. c = CHR ''1'') (skip_opt (\<lambda>c. c = CHR ''+'') [s]))))))))))"

definition validate_phone :: "string option \<Rightarrow> string option option" where
  "validate_phone v =
     (case v of None \<Rightarrow> Some None
      | Some s \<Rightarrow> if strip s \<noteq> '''' \<and> \<not> phone_format (strip s) then None else Some (Some (strip s)))"

definition entity_requires_ein :: "application_in \<Rightarrow> bool" where
  "entity_requires_ein b \<longleftrightarrow>
     ain_is_entity b \<longrightarrow> (case ain_ein b of None \<Rightarrow> False | Some e \<Rightarrow> strip e \<noteq> '''')"

definition nonneg_opt :: "rat option \<Rightarrow> bool" where
  "nonneg_opt x \<longleftrightarrow> (case x of None \<Rightarrow> True | Some v \<Rightarrow> 0 \<le> v)"

text \<open>The whole model: the normalized request, or \<open>None\<close> for the 422.\<close>

definition validated :: "int \<Rightarrow> application_in \<Rightarrow> application_in option" where
  "validated today b =
     (if ain_name b = '''' \<or> \<not> (0 < ain_amount b \<and> ain_amount b \<le> 50000) \<or>
         \<not> (12 \<le> ain_term_months b \<and> ain_term_months b \<le> 60) \<or> \<not> nonneg_opt (ain_income b) \<or>
         ain_monthly_debt b < 0 \<or> \<not> nonneg_opt (ain_employment_years b) \<or> \<not> entity_requires_ein b
      then None
      else bind_option (validate_ssn (ain_ssn b)) (\<lambda>ssn.
           bind_option (validate_dob today (ain_dob b)) (\<lambda>dob.
           bind_option (validate_phone (ain_phone b)) (\<lambda>phone.
             Some (b\<lparr>ain_ssn := ssn, ain_dob := dob, ain_phone := phone\<rparr>)))))"

section \<open>intake.py\<close>

definition ssn_last4 :: "string option \<Rightarrow> string option" where
  "ssn_last4 ssn =
     (case ssn of None \<Rightarrow> None | Some s \<Rightarrow> if s = '''' then None else Some (drop (length s - 4) s))"

definition applicant_of :: "application_in \<Rightarrow> applicant_row" where
  "applicant_of b =
     \<lparr>apl_id = 0, apl_name = ain_name b, apl_dob = ain_dob b, apl_ssn = ain_ssn b,
      apl_ssn_last4 = ssn_last4 (ain_ssn b), apl_ein = ain_ein b, apl_is_entity = ain_is_entity b,
      apl_email = None, apl_phone = None, apl_address = ain_address b\<rparr>"

definition application_of_intake :: "application_in \<Rightarrow> string \<Rightarrow> int \<Rightarrow> int option \<Rightarrow> app_row" where
  "application_of_intake b token_hash expires_at submitted_by =
     \<lparr>la_id = 0, la_applicant_id = None, la_amount = ain_amount b, la_term_months = ain_term_months b,
      la_purpose = ain_purpose b, la_income = ain_income b, la_monthly_debt = Some (ain_monthly_debt b),
      la_employer = None, la_job_title = None, la_employment_years = ain_employment_years b,
      la_status = ''submitted'', la_token = Some token_hash, la_token_expires = Some expires_at,
      la_submitted_by = submitted_by\<rparr>"

text \<open>The transaction; \<open>up = False\<close> is a database that fails it, which leaves no row.\<close>

definition insert_application :: "bool \<Rightarrow> applicant_row \<Rightarrow> app_row \<Rightarrow> los_db \<Rightarrow> int option \<times> los_db" where
  "insert_application up ap a db =
     (if \<not> up then (None, db)
      else (Some (next_app db),
        db\<lparr>los_applicants := los_applicants db @ [ap\<lparr>apl_id := next_applicant db\<rparr>],
           los_apps := los_apps db @ [a\<lparr>la_id := next_app db, la_applicant_id := Some (next_applicant db)\<rparr>],
           next_applicant := next_applicant db + 1, next_app := next_app db + 1\<rparr>))"

definition create_application ::
  "(string \<Rightarrow> string \<Rightarrow> string) \<Rightarrow> token_config \<Rightarrow> string \<Rightarrow> int \<Rightarrow> bool \<Rightarrow> application_in \<Rightarrow> int option \<Rightarrow>
   los_db \<Rightarrow> int option \<times> los_db" where
  "create_application hmac cfg raw t up b submitted_by db =
     (case hash_token hmac cfg raw of
        None \<Rightarrow> (None, db)
      | Some token_hash \<Rightarrow>
          insert_application up (applicant_of b)
            (application_of_intake b token_hash (t + token_ttl_days cfg * micros_per_day) submitted_by) db)"

section \<open>Routes\<close>

record application_created =
  ac_app_id :: int
  ac_status :: string
  ac_kyc :: kyc_out
  ac_kyc_checked :: bool
  ac_token :: "string option"

definition submit_application ::
  "(string \<Rightarrow> string \<Rightarrow> string) \<Rightarrow> token_config \<Rightarrow> (kyc_payload \<Rightarrow> los_db \<Rightarrow> (string + bool) \<times> los_db) \<Rightarrow>
   string \<Rightarrow> int \<Rightarrow> int \<Rightarrow> bool \<Rightarrow> bool \<Rightarrow> (nat \<Rightarrow> los_db \<Rightarrow> los_db) \<Rightarrow> application_in \<Rightarrow> string option \<Rightarrow> los_db \<Rightarrow>
   application_created response \<times> los_db" where
  "submit_application hmac cfg post_kyc raw t today up audited w body x_user_id db =
     (case validated today body of
        None \<Rightarrow> (raise_http 422 ''validation error'', db)
      | Some b \<Rightarrow>
          (case create_application hmac cfg raw t up b (orig_as_int x_user_id) (w 0 db) of
             (None, db1) \<Rightarrow> (internal_error, db1)
           | (Some app_id, db1) \<Rightarrow>
               (let db2 = w 1 db1;
                    applicant_id = bind_option (app_by_id db2 app_id) la_applicant_id
                in case run_kyc post_kyc audited
                     (kyc_payload_of app_id applicant_id (Some (ain_name b)) (ain_dob b)
                        (ssn_last4 (ain_ssn b)) (ain_address b) (ain_is_entity b))
                     (ain_is_entity b) (w 2 db2) of
                     ((cip, checked), db3) \<Rightarrow>
                       (Inr \<lparr>ac_app_id = app_id, ac_status = ''submitted'', ac_kyc = cip,
                             ac_kyc_checked = checked, ac_token = Some raw\<rparr>, db3))))"

definition recheck_kyc ::
  "(string \<Rightarrow> string \<Rightarrow> string) \<Rightarrow> token_config \<Rightarrow> (kyc_payload \<Rightarrow> los_db \<Rightarrow> (string + bool) \<times> los_db) \<Rightarrow>
   int \<Rightarrow> bool \<Rightarrow> (nat \<Rightarrow> los_db \<Rightarrow> los_db) \<Rightarrow> int \<Rightarrow> string option \<Rightarrow> string option \<Rightarrow> string option \<Rightarrow> los_db \<Rightarrow>
   application_created response \<times> los_db" where
  "recheck_kyc hmac cfg post_kyc t audited w app_id x_user_role x_user_id x_application_token db =
     (let db0 = w 0 db
      in case require_officer_or_owner hmac cfg t db0 app_id x_user_role x_user_id x_application_token of
           Inl e \<Rightarrow> (Inl e, db0)
         | Inr _ \<Rightarrow>
             (let db1 = w 1 db0
              in case bind_option (bind_option (app_by_id db1 app_id) la_applicant_id) (applicant_by_id db1) of
                   None \<Rightarrow> (raise_http 404 ''application not found'', db1)
                 | Some ap \<Rightarrow>
                     (case run_kyc post_kyc audited
                        (kyc_payload_of app_id (Some (apl_id ap)) (Some (apl_name ap)) (apl_dob ap)
                           (apl_ssn_last4 ap) (apl_address ap) (apl_is_entity ap))
                        (apl_is_entity ap) (w 2 db1) of
                        ((cip, checked), db2) \<Rightarrow>
                          (Inr \<lparr>ac_app_id = app_id, ac_status = ''submitted'', ac_kyc = cip,
                                ac_kyc_checked = checked, ac_token = x_application_token\<rparr>, db2))))"

text \<open>The guarded UPDATE of \<^verbatim>\<open>capture_monthly_debt\<close>; the flag is whether a row came back.\<close>

definition capture_debt :: "int \<Rightarrow> rat \<Rightarrow> los_db \<Rightarrow> bool \<times> los_db" where
  "capture_debt app_id debt db =
     (\<exists>a \<in> set (los_apps db). la_id a = app_id \<and> la_monthly_debt a = None,
      set_app app_id (\<lambda>a. if la_monthly_debt a = None then a\<lparr>la_monthly_debt := Some debt\<rparr> else a) db)"

text \<open>The value is also named in the audit row; \<open>shown\<close> is its text there.\<close>

definition capture_monthly_debt ::
  "string \<Rightarrow> (nat \<Rightarrow> los_db \<Rightarrow> los_db) \<Rightarrow> int \<Rightarrow> rat \<Rightarrow> string \<Rightarrow> string option \<Rightarrow> string option \<Rightarrow> los_db \<Rightarrow>
   (int \<times> rat) response \<times> los_db" where
  "capture_monthly_debt token w app_id debt shown x_internal_service x_user_id db =
     (if debt < 0 then (raise_http 422 ''validation error'', db)
      else case orig_require_internal_caller token x_internal_service of
        Inl e \<Rightarrow> (Inl e, db)
      | Inr _ \<Rightarrow>
          (let db0 = w 0 db
           in case app_by_id db0 app_id of
                None \<Rightarrow> (raise_http 404 ''application not found'', db0)
              | Some a \<Rightarrow>
                  if la_monthly_debt a \<noteq> None
                  then (raise_http 409 ''monthly_debt is already recorded for this application'', db0)
                  else case capture_debt app_id debt (w 1 db0) of
                    (False, db1) \<Rightarrow> (raise_http 409 ''monthly_debt is already recorded for this application'', db1)
                  | (True, db1) \<Rightarrow>
                      (Inr (app_id, debt),
                       audit (if present x_user_id then the x_user_id else ''internal-service'')
                         ''capture_monthly_debt''
                         (''app_id='' @ show_int app_id @ '' monthly_debt='' @ shown) (w 2 db1))))"

section \<open>Abandoning\<close>

text \<open>The up-front probe: nothing has happened to the application yet.\<close>

definition inert :: "los_db \<Rightarrow> int \<Rightarrow> bool" where
  "inert db app_id \<longleftrightarrow> los_decisions db app_id = None \<and>
     list_all (\<lambda>x. o_app_id x \<noteq> Some app_id) (offers (shared db)) \<and>
     list_all (\<lambda>l. l_app_id l \<noteq> Some app_id) (los_loans db)"

text \<open>Rows of other tables that reference the application with a restricting foreign key.\<close>

definition referenced :: "los_db \<Rightarrow> int \<Rightarrow> bool" where
  "referenced db app_id \<longleftrightarrow> los_decisions db app_id \<noteq> None \<or>
     list_ex (\<lambda>e. e_app_id e = Some app_id) (events (shared db)) \<or>
     list_ex (\<lambda>x. o_app_id x = Some app_id) (offers (shared db))"

text \<open>
  The deletes in one transaction: the application, then the applicant and its checks when no
  other application names it. A foreign key aborts all of it.
\<close>

definition delete_application :: "int \<Rightarrow> int option \<Rightarrow> los_db \<Rightarrow> bool \<times> los_db" where
  "delete_application app_id applicant_id db =
     (if app_by_id db app_id \<noteq> None \<and> referenced db app_id then (False, db)
      else (let db1 = db\<lparr>los_apps := filter (\<lambda>a. la_id a \<noteq> app_id) (los_apps db)\<rparr>
            in (True,
              if applicant_id \<noteq> None \<and> list_all (\<lambda>a. la_applicant_id a \<noteq> applicant_id) (los_apps db1)
              then db1\<lparr>kyc_checks := filter (\<lambda>k. kc_applicant_id k \<noteq> applicant_id) (kyc_checks db1),
                       los_applicants := filter (\<lambda>p. Some (apl_id p) \<noteq> applicant_id) (los_applicants db1)\<rparr>
              else db1)))"

definition abandon_application ::
  "string \<Rightarrow> (nat \<Rightarrow> los_db \<Rightarrow> los_db) \<Rightarrow> int \<Rightarrow> string option \<Rightarrow> los_db \<Rightarrow> int response \<times> los_db" where
  "abandon_application token w app_id x_internal_service db =
     (case orig_require_internal_caller token x_internal_service of
        Inl e \<Rightarrow> (Inl e, db)
      | Inr _ \<Rightarrow>
          (let db0 = w 0 db
           in case app_by_id db0 app_id of
                None \<Rightarrow> (raise_http 404 ''application not found'', db0)
              | Some a \<Rightarrow>
                  if \<not> inert db0 app_id
                  then (raise_http 409 ''application is not inert; refusing to abandon'', db0)
                  else case delete_application app_id (la_applicant_id a) (w 1 db0) of
                    (False, db1) \<Rightarrow> (raise_http 409 ''application is not inert; refusing to abandon'', db1)
                  | (True, db1) \<Rightarrow> (Inr app_id, db1)))"

end
