(* ===== verification/Boarding.thy ===== *)
theory Boarding
  imports Intake
begin

text \<open>
  Acceptance of an offer and the boarding of the loan: \<^verbatim>\<open>accept_offer\<close> of origination's
  \<^verbatim>\<open>app/routers/applications.py\<close>, \<^verbatim>\<open>board_to_servicing\<close> of \<^verbatim>\<open>app/intake.py\<close> and the \<^verbatim>\<open>/board\<close> route of
  \<^verbatim>\<open>app/main.py\<close>. Every query and update is one autocommitted statement; before the \<open>n\<close>-th one the
  other sessions run as \<open>w n\<close>. Rates and money are doubles. A stored document is an object or SQL
  NULL, as the write path stores it.
\<close>

section \<open>Statements\<close>

text \<open>The INSERT under \<^verbatim>\<open>uq_loans_app\<close>; \<open>None\<close> is the unique violation, which uses up an id.\<close>

definition insert_loan :: "loan_row \<Rightarrow> los_db \<Rightarrow> int option \<times> los_db" where
  "insert_loan l db =
     (let db0 = db\<lparr>next_loan := next_loan db + 1\<rparr>
      in if l_app_id l \<noteq> None \<and> list_ex (\<lambda>x. l_app_id x = l_app_id l) (los_loans db) then (None, db0)
         else (Some (next_loan db),
               db0\<lparr>los_loans := los_loans db @ [l\<lparr>l_id := next_loan db, l_opened_at := now db\<rparr>]\<rparr>))"

definition new_loan :: "int \<Rightarrow> string \<Rightarrow> rat \<Rightarrow> rat \<Rightarrow> int \<Rightarrow> rat option \<Rightarrow> loan_row" where
  "new_loan app_id applicant_name prin annual_rate_pct n_months note_rate =
     \<lparr>l_id = 0, l_app_id = Some app_id, l_applicant_name = applicant_name, l_principal = prin,
      l_apr = annual_rate_pct,
      l_note_rate = (case note_rate of None \<Rightarrow> annual_rate_pct | Some n \<Rightarrow> n),
      l_term_months = n_months, l_opened_at = 0\<rparr>"

text \<open>\<^verbatim>\<open>ON CONFLICT (loan_id) DO NOTHING\<close>.\<close>

definition insert_balance :: "int \<Rightarrow> rat \<Rightarrow> los_db \<Rightarrow> los_db" where
  "insert_balance loan_id prin db =
     (if los_balances db loan_id = None then db\<lparr>los_balances := (los_balances db)(loan_id \<mapsto> prin)\<rparr> else db)"

definition fund :: "int \<Rightarrow> los_db \<Rightarrow> los_db" where
  "fund app_id = set_app app_id (\<lambda>a. a\<lparr>la_status := ''funded'', la_token_expires := None\<rparr>)"

text \<open>The two inserts of the seam, statements \<open>n\<close> and \<open>n + 1\<close>.\<close>

definition board_to_servicing ::
  "(nat \<Rightarrow> los_db \<Rightarrow> los_db) \<Rightarrow> nat \<Rightarrow> loan_row \<Rightarrow> los_db \<Rightarrow> int option \<times> los_db" where
  "board_to_servicing w n l db =
     (case insert_loan l (w n db) of
        (None, db1) \<Rightarrow> (None, db1)
      | (Some i, db1) \<Rightarrow> (Some i, insert_balance i (l_principal l) (w (Suc n) db1)))"

section \<open>What boarding reads\<close>

record boarding_row =
  br_amount :: rat
  br_term_months :: int
  br_name :: "string option"
  br_apr :: "rat option"
  br_outcome :: "string option"
  br_status :: "string option"
  br_delivered_at :: "int option"
  br_snapshot :: "snapshot option"
  br_has_document :: bool
  br_offer_edge :: "int option"
  br_record_edge :: "int option"
  br_record_outcome :: "string option"

text \<open>The newest offer of the application.\<close>

definition newest_offer :: "disc_db \<Rightarrow> int \<Rightarrow> offer_row option" where
  "newest_offer d app_id =
     (case filter (\<lambda>x. o_app_id x = Some app_id) (offers d) of
        [] \<Rightarrow> None | x # xs \<Rightarrow> Some (min_by (\<lambda>x. - o_id x) x xs))"

definition boarding_query :: "los_db \<Rightarrow> int \<Rightarrow> boarding_row option" where
  "boarding_query db app_id =
     map_option (\<lambda>a.
       let d = shared db; off = newest_offer d app_id;
           ds = bind_option off (\<lambda>x. disclosure_by_offer d (o_id x))
       in \<lparr>br_amount = la_amount a, br_term_months = la_term_months a,
           br_name = map_option apl_name (bind_option (la_applicant_id a) (applicant_by_id db)),
           br_apr = bind_option off o_apr, br_outcome = los_decisions db app_id,
           br_status = map_option d_status ds, br_delivered_at = bind_option ds d_delivered_at,
           br_snapshot = map_option d_snapshot ds,
           br_has_document = (bind_option ds d_document \<noteq> None),
           br_offer_edge = bind_option off o_decision_event_id,
           br_record_edge = map_option d_decision_event_id ds,
           br_record_outcome = bind_option ds (\<lambda>r. bind_option (event_by_id d (d_decision_event_id r)) e_outcome)\<rparr>)
       (app_by_id db app_id)"

section \<open>Guards\<close>

definition note_rate_for_boarding :: "snapshot option \<Rightarrow> rat \<Rightarrow> rat response" where
  "note_rate_for_boarding snap apr =
     (case bind_option snap (\<lambda>s. plain_decimal (dec_str (note_rate_pct s))) of
        None \<Rightarrow> raise_http 409 ''the delivered TILA disclosure for this offer has no usable note rate; refusing to board a loan whose servicing rate cannot be determined''
      | Some v \<Rightarrow>
          if apr < fl v
          then raise_http 409 ''the disclosure note rate exceeds the offer APR; the offer and its disclosure disagree, refusing to board''
          else Inr (fl v))"

definition approved_outcome :: "string option \<Rightarrow> bool" where
  "approved_outcome v \<longleftrightarrow> lower (case v of None \<Rightarrow> '''' | Some x \<Rightarrow> x) = ''approve''"

text \<open>The refusals of the boarding branch, in order, and the rate to board at.\<close>

definition boarding_guards :: "boarding_row \<Rightarrow> rat \<Rightarrow> rat response" where
  "boarding_guards r apr =
     (if br_status r \<noteq> Some ''delivered'' \<or> br_delivered_at r = None
      then raise_http 409 ''no delivered TILA disclosure for this offer; the disclosure must be delivered before the loan is boarded''
      else if \<not> br_has_document r
      then raise_http 409 ''the delivered TILA disclosure for this offer has no recorded document; refusing to board a loan whose disclosure cannot be read''
      else if br_offer_edge r \<noteq> None \<and> br_record_edge r \<noteq> None \<and> br_offer_edge r \<noteq> br_record_edge r
      then raise_http 409 ''the delivered TILA disclosure's decision edge does not match the offer being boarded; refusing to board a split-brain provenance chain''
      else if br_record_edge r \<noteq> None \<and> \<not> approved_outcome (br_record_outcome r)
      then raise_http 409 ''the delivered TILA disclosure cites a non-approving decision; refusing to board a loan over an unapproved provenance chain''
      else note_rate_for_boarding (br_snapshot r) apr)"

section \<open>accept\<close>

text \<open>The reconciliation every path ends with.\<close>

definition reconcile_accept ::
  "(nat \<Rightarrow> los_db \<Rightarrow> los_db) \<Rightarrow> int \<Rightarrow> int \<Rightarrow> rat \<Rightarrow> los_db \<Rightarrow> int response \<times> los_db" where
  "reconcile_accept w app_id loan_id prin db =
     (Inr loan_id, fund app_id (w 7 (insert_balance loan_id prin (w 6 db))))"

definition board_fresh ::
  "(nat \<Rightarrow> los_db \<Rightarrow> los_db) \<Rightarrow> int \<Rightarrow> boarding_row \<Rightarrow> rat \<Rightarrow> los_db \<Rightarrow> int response \<times> los_db" where
  "board_fresh w app_id r apr db =
     (case boarding_guards r apr of
        Inl e \<Rightarrow> (Inl e, db)
      | Inr note_rate \<Rightarrow>
          (case board_to_servicing w 4
              (new_loan app_id (if present (br_name r) then the (br_name r) else ''Borrower'')
                 (br_amount r) apr (br_term_months r) (Some note_rate)) db of
             (Some i, db1) \<Rightarrow> reconcile_accept w app_id i (br_amount r) db1
           | (None, db1) \<Rightarrow>
               (let db2 = w 5 db1
                in case first_loan db2 app_id of
                     None \<Rightarrow> (raise_http 409 ''boarding conflict without a retrievable loan'', db2)
                   | Some l \<Rightarrow> reconcile_accept w app_id (l_id l) (l_principal l) db2)))"

definition accept_authorized ::
  "(nat \<Rightarrow> los_db \<Rightarrow> los_db) \<Rightarrow> int \<Rightarrow> los_db \<Rightarrow> int response \<times> los_db" where
  "accept_authorized w app_id db =
     (let db1 = w 1 db
      in case require_kyc_passed db1 app_id of
           Inl e \<Rightarrow> (Inl e, db1)
         | Inr _ \<Rightarrow>
             (let db2 = w 2 db1
              in case boarding_query db2 app_id of
                   None \<Rightarrow> (raise_http 404 ''application not found'', db2)
                 | Some r \<Rightarrow>
                     if \<not> approved_outcome (br_outcome r)
                     then (raise_http 409 ''application is not approved for boarding'', db2)
                     else case br_apr r of
                       None \<Rightarrow> (raise_http 409 ''no offer to accept for this application'', db2)
                     | Some apr \<Rightarrow>
                         (let db3 = w 3 db2
                          in case first_loan db3 app_id of
                               Some l \<Rightarrow> reconcile_accept w app_id (l_id l) (l_principal l) db3
                             | None \<Rightarrow> board_fresh w app_id r apr db3)))"

definition accept_offer ::
  "(string \<Rightarrow> string \<Rightarrow> string) \<Rightarrow> token_config \<Rightarrow> int \<Rightarrow> (nat \<Rightarrow> los_db \<Rightarrow> los_db) \<Rightarrow> int \<Rightarrow> string option \<Rightarrow>
   string option \<Rightarrow> string option \<Rightarrow> los_db \<Rightarrow> int response \<times> los_db" where
  "accept_offer hmac cfg t w app_id x_user_role x_user_id x_application_token db =
     (let db0 = w 0 db
      in case require_officer_or_owner hmac cfg t db0 app_id x_user_role x_user_id x_application_token of
           Inl e \<Rightarrow>
             (let db1 = w 1 db0
              in case terminal_accept_replay hmac cfg db1 app_id x_application_token of
                   None \<Rightarrow> (Inl e, db1)
                 | Some i \<Rightarrow> (Inr i, db1))
         | Inr _ \<Rightarrow> accept_authorized w app_id db0)"

section \<open>The operations hatch\<close>

record board_in =
  bi_app_id :: int
  bi_applicant_name :: string
  bi_principal :: rat
  bi_annual_rate_pct :: rat
  bi_term_months :: int

definition board ::
  "string \<Rightarrow> (nat \<Rightarrow> los_db \<Rightarrow> los_db) \<Rightarrow> board_in \<Rightarrow> string option \<Rightarrow> los_db \<Rightarrow> int response \<times> los_db" where
  "board token w b x_internal_service db =
     (case orig_require_internal_caller token x_internal_service of
        Inl e \<Rightarrow> (Inl e, db)
      | Inr _ \<Rightarrow>
          (case board_to_servicing w 0
              (new_loan (bi_app_id b) (bi_applicant_name b) (bi_principal b) (bi_annual_rate_pct b)
                 (bi_term_months b) None) db of
             (None, db1) \<Rightarrow> (internal_error, db1)
           | (Some i, db1) \<Rightarrow> (Inr i, db1)))"

end
