(* ===== verification/JsonValues.thy ===== *)
theory JsonValues
  imports Rounding
begin

text \<open>
  Decoded JSON as the Python code sees it (\<^verbatim>\<open>resp.json()\<close>, a JSONB column), with the reads the code
  makes of it: \<^verbatim>\<open>dict.get\<close>, the type tests, the truth test and the rounding of a score. A float is
  its exact value.
\<close>

datatype jv =
  VNull | VBool bool | VInt int | VFloat rat | VStr string | VList "jv list" | VObj "(string \<times> jv) list"

fun jfield :: "jv \<Rightarrow> string \<Rightarrow> jv option" where
  "jfield (VObj fs) k = map_of fs k"
| "jfield _ k = None"

fun is_object :: "jv \<Rightarrow> bool" where
  "is_object (VObj fs) = True"
| "is_object _ = False"

fun str_field :: "jv \<Rightarrow> string \<Rightarrow> string option" where
  "str_field v k = (case jfield v k of Some (VStr s) \<Rightarrow> Some s | _ \<Rightarrow> None)"

text \<open>\<^verbatim>\<open>int(round(x))\<close> of a number that is not a bool.\<close>

fun json_score :: "jv option \<Rightarrow> int option" where
  "json_score (Some (VInt i)) = Some i"
| "json_score (Some (VFloat x)) = Some (round_half_even x)"
| "json_score _ = None"

text \<open>The truth test of a decoded value.\<close>

fun jtruthy :: "jv \<Rightarrow> bool" where
  "jtruthy VNull = False"
| "jtruthy (VBool b) = b"
| "jtruthy (VInt i) = (i \<noteq> 0)"
| "jtruthy (VFloat x) = (x \<noteq> 0)"
| "jtruthy (VStr s) = (s \<noteq> [])"
| "jtruthy (VList xs) = (xs \<noteq> [])"
| "jtruthy (VObj fs) = (fs \<noteq> [])"

text \<open>\<^verbatim>\<open>{k: v for k, v in d.items() if k != key}\<close>.\<close>

fun jdrop :: "string \<Rightarrow> jv \<Rightarrow> jv" where
  "jdrop k (VObj fs) = VObj (filter (\<lambda>f. fst f \<noteq> k) fs)"
| "jdrop k v = v"

lemma jfield_drop [simp]: "jfield (jdrop k v) k' = (if k' = k then None else jfield v k')"
proof (cases v)
  case (VObj fs)
  have "map_of (filter (\<lambda>f. fst f \<noteq> k) fs) k' = (if k' = k then None else map_of fs k')"
    by (induction fs) auto
  then show ?thesis using VObj by simp
qed simp_all

end
