(* ===== verification/LosRoutes.thy ===== *)
theory LosRoutes
  imports Boarding Offers DecisionRoutes JsonValues
begin

text \<open>
  The routes of origination-service that price and decide an application through the other
  services (\<^verbatim>\<open>run_decision\<close>, \<^verbatim>\<open>decision_request_payload\<close>, \<^verbatim>\<open>summary_payload\<close> of
  \<^verbatim>\<open>app/routers/applications.py\<close>, \<^verbatim>\<open>app/routers/offers.py\<close>), and its reads (the queue and the
  detail of an application). A call to a service is an argument that may change the shared
  tables; \<open>decision_service\<close> and \<open>offer_service\<close> are those calls answered by the models of
  decision-service and disclosure-service. The answer of decision-service is JSON and parsed as the
  code parses it; that of disclosure-service is its typed response.
\<close>

section \<open>Principal reasons\<close>

record shown_reason =
  shown_code :: "string option"
  shown_text :: "string option"
  shown_feature :: "string option"

definition normalize_principal_reasons :: "jv option \<Rightarrow> shown_reason list" where
  "normalize_principal_reasons raw =
     filter (\<lambda>r. present (shown_text r))
       (map (\<lambda>item. \<lparr>shown_code = str_field item ''code'', shown_text = str_field item ''reason'',
                      shown_feature = str_field item ''feature''\<rparr>)
          (filter is_object (case raw of Some (VList items) \<Rightarrow> items | _ \<Rightarrow> [])))"

section \<open>The decision request\<close>

record decision_payload =
  dp_application_id :: int
  dp_applicant_id :: "int option"
  dp_name :: "string option"
  dp_ssn :: string
  dp_requested_amount :: rat
  dp_term_months :: int
  dp_annual_income :: rat
  dp_monthly_debt :: rat
  dp_employment_years :: rat
  dp_request_id :: "string option"

definition decision_request_payload :: "los_db \<Rightarrow> int \<Rightarrow> decision_payload option response" where
  "decision_request_payload db app_id =
     (case app_by_id db app_id of
        None \<Rightarrow> Inr None
      | Some a \<Rightarrow>
          let ap = bind_option (la_applicant_id a) (applicant_by_id db)
          in case la_monthly_debt a of
               None \<Rightarrow> raise_http 422 ''monthly_debt is not recorded for this application; it must be captured before a decision can be made''
             | Some debt \<Rightarrow>
                 Inr (Some
                   \<lparr>dp_application_id = app_id, dp_applicant_id = la_applicant_id a,
                    dp_name = map_option apl_name ap,
                    dp_ssn = (case bind_option ap apl_ssn of None \<Rightarrow> '''' | Some s \<Rightarrow> s),
                    dp_requested_amount = la_amount a, dp_term_months = la_term_months a,
                    dp_annual_income = or_zero (la_income a), dp_monthly_debt = debt,
                    dp_employment_years = or_zero (la_employment_years a), dp_request_id = None\<rparr>))"

text \<open>
  The officer summary: the columns that are not NULL, none of them an identity column. An
  application has at most one offer (\<^verbatim>\<open>uq_offers_app\<close>).
\<close>

definition present_columns :: "(string \<times> jv option) list \<Rightarrow> (string \<times> jv) list" where
  "present_columns cols = concat (map (\<lambda>(k, v). case v of None \<Rightarrow> [] | Some x \<Rightarrow> [(k, x)]) cols)"

definition summary_payload :: "los_db \<Rightarrow> int \<Rightarrow> (string \<times> jv) list option" where
  "summary_payload db app_id =
     map_option (\<lambda>a.
       let off = newest_offer (shared db) app_id; k = latest_check db (la_applicant_id a);
           fig = (\<lambda>f. map_option VFloat (bind_option off f)); flag = (\<lambda>f. map_option (\<lambda>r. VBool (f r)) k)
       in present_columns
            [(''amount'', Some (VFloat (la_amount a))), (''term_months'', Some (VInt (la_term_months a))),
             (''purpose'', map_option VStr (la_purpose a)), (''income'', map_option VFloat (la_income a)),
             (''monthly_debt'', map_option VFloat (la_monthly_debt a)),
             (''employer'', map_option VStr (la_employer a)), (''job_title'', map_option VStr (la_job_title a)),
             (''employment_years'', map_option VFloat (la_employment_years a)),
             (''status'', Some (VStr (la_status a))), (''apr'', fig o_apr),
             (''finance_charge'', fig o_finance_charge), (''monthly_payment'', fig o_monthly_payment),
             (''amount_financed'', fig o_amount_financed),
             (''total_of_payments'', fig o_total_of_payments),
             (''outcome'', map_option VStr (los_decisions db app_id)),
             (''name_verified'', flag kc_name), (''dob_verified'', flag kc_dob),
             (''address_verified'', flag kc_address), (''ssn_verified'', flag kc_ssn)])
       (app_by_id db app_id)"

section \<open>The decision route\<close>

text \<open>
  What \<^verbatim>\<open>clients.post\<close> does: an answer, an answer that is not a 2xx, no answer at all (which
  includes an open breaker), or any other exception.
\<close>

datatype client_result = Answer jv | Refused nat | No_answer | Broken

record decided =
  dd_app_id :: int
  dd_decision :: string
  dd_score :: "int option"
  dd_adverse_action_reason :: "string option"
  dd_principal_reasons :: "shown_reason list"

text \<open>\<open>None\<close> is an exception of the parse or of the response model.\<close>

definition decided_of :: "int \<Rightarrow> jv \<Rightarrow> decided option" where
  "decided_of app_id resp =
     (if \<not> is_object resp then None
      else case (jfield resp ''outcome'', jfield resp ''reason'') of
        (Some (VStr outc), r) \<Rightarrow>
          bind_option (case r of
             None \<Rightarrow> Some None
           | Some VNull \<Rightarrow> Some None
           | Some (VStr s) \<Rightarrow> Some (Some s)
           | _ \<Rightarrow> None) (\<lambda>reason.
           Some \<lparr>dd_app_id = app_id, dd_decision = outc, dd_score = json_score (jfield resp ''score''),
                 dd_adverse_action_reason = reason,
                 dd_principal_reasons = normalize_principal_reasons (jfield resp ''principal_reasons'')\<rparr>)
      | _ \<Rightarrow> None)"

definition key_ok :: "string option \<Rightarrow> bool" where
  "key_ok k \<longleftrightarrow> (case k of None \<Rightarrow> True | Some s \<Rightarrow> length s \<le> 64)"

text \<open>The gates before the call, statement by statement, and the payload they let through.\<close>

definition decision_gates ::
  "(string \<Rightarrow> string \<Rightarrow> string) \<Rightarrow> token_config \<Rightarrow> int \<Rightarrow> (nat \<Rightarrow> los_db \<Rightarrow> los_db) \<Rightarrow> int \<Rightarrow> string option \<Rightarrow>
   string option \<Rightarrow> string option \<Rightarrow> string option \<Rightarrow> los_db \<Rightarrow> decision_payload response \<times> los_db" where
  "decision_gates hmac cfg t w app_id idempotency_key x_user_role x_user_id x_application_token db =
     (let db0 = w 0 db; db1 = w 1 db0; db2 = w 2 db1; db3 = w 3 db2
      in case require_officer_or_owner hmac cfg t db0 app_id x_user_role x_user_id x_application_token of
           Inl e \<Rightarrow> (Inl e, db0)
         | Inr _ \<Rightarrow>
             (case deny_self_decision db1 app_id x_user_role x_user_id of
                Inl e \<Rightarrow> (Inl e, db1)
              | Inr _ \<Rightarrow>
                  (case require_kyc_passed db2 app_id of
                     Inl e \<Rightarrow> (Inl e, db2)
                   | Inr _ \<Rightarrow>
                       if \<not> key_ok idempotency_key
                       then (raise_http 400 ''Idempotency-Key must be at most 64 characters'', db2)
                       else (bind_result (decision_request_payload db3 app_id) (\<lambda>p.
                               case p of None \<Rightarrow> raise_http 404 ''application not found''
                               | Some q \<Rightarrow> Inr (if present idempotency_key
                                                then q\<lparr>dp_request_id := idempotency_key\<rparr> else q)), db3))))"

definition orig_run_decision ::
  "(string \<Rightarrow> string \<Rightarrow> string) \<Rightarrow> token_config \<Rightarrow> int \<Rightarrow> (decision_payload \<Rightarrow> los_db \<Rightarrow> client_result \<times> los_db) \<Rightarrow>
   (nat \<Rightarrow> los_db \<Rightarrow> los_db) \<Rightarrow> int \<Rightarrow> string option \<Rightarrow> string option \<Rightarrow> string option \<Rightarrow> string option \<Rightarrow>
   los_db \<Rightarrow> decided response \<times> los_db" where
  "orig_run_decision hmac cfg t post w app_id idempotency_key x_user_role x_user_id x_application_token db =
     (case decision_gates hmac cfg t w app_id idempotency_key x_user_role x_user_id x_application_token db of
        (Inl e, db1) \<Rightarrow> (Inl e, db1)
      | (Inr p, db1) \<Rightarrow>
          (case post p (w 4 db1) of
             (Answer resp, db2) \<Rightarrow>
               (case decided_of app_id resp of None \<Rightarrow> internal_error | Some d \<Rightarrow> Inr d, db2)
           | (Refused s, db2) \<Rightarrow>
               (if s = 409 then raise_http 409 ''Idempotency-Key reused with different decision inputs''
                else raise_http 503 ''decisioning unavailable'', db2)
           | (No_answer, db2) \<Rightarrow> (raise_http 503 ''decisioning unavailable'', db2)
           | (Broken, db2) \<Rightarrow> (internal_error, db2)))"

section \<open>The call answered by decision-service\<close>

text \<open>\<^verbatim>\<open>DecisionOut\<close> as JSON.\<close>

definition opt_json :: "string option \<Rightarrow> jv" where
  "opt_json v = (case v of None \<Rightarrow> VNull | Some s \<Rightarrow> VStr s)"

definition reason_json :: "principal_reason \<Rightarrow> jv" where
  "reason_json r = VObj [(''code'', VStr (reason_code r)), (''reason'', VStr (reason_text r)),
     (''feature'', VStr (reason_feature r))]"

definition decision_json :: "decision_out \<Rightarrow> jv" where
  "decision_json d = VObj
     [(''application_id'', VInt (do_application_id d)), (''outcome'', VStr (do_outcome d)),
      (''score'', VFloat (do_score d)), (''reason'', opt_json (do_reason d)),
      (''policy_band'', VStr (do_policy_band d)),
      (''principal_reasons'', VList (map reason_json (do_principal_reasons d))),
      (''decided_by'', VStr (do_decided_by d))]"

text \<open>The body has to fit \<^verbatim>\<open>DecisionIn\<close>, which requires an applicant and a name.\<close>

definition decision_in_of :: "decision_payload \<Rightarrow> decision_in option" where
  "decision_in_of p =
     (case (dp_applicant_id p, dp_name p) of
        (Some _, Some name) \<Rightarrow> Some
          \<lparr>di_application_id = dp_application_id p, di_name = name, di_ssn = dp_ssn p,
           di_requested_amount = dp_requested_amount p, di_term_months = dp_term_months p,
           di_annual_income = dp_annual_income p, di_monthly_debt = dp_monthly_debt p,
           di_employment_years = dp_employment_years p, di_request_id = dp_request_id p\<rparr>
      | _ \<Rightarrow> None)"

text \<open>
  decision-service reads and writes the shared decision tables: \<open>elog\<close> gives the full rows of
  \<^verbatim>\<open>decision_events\<close>, of which the tables of origination keep what origination reads.
\<close>

definition event_of :: "dec_event \<Rightarrow> event_row" where
  "event_of e = \<lparr>e_id = ev_id e, e_app_id = Some (ev_app_id e), e_outcome = Some (ev_outcome e),
     e_policy_band = Some (ev_band e), e_decided_at = Some (ev_decided_at e)\<rparr>"

definition write_log :: "dec_db \<Rightarrow> los_db \<Rightarrow> los_db" where
  "write_log d db = db\<lparr>los_decisions := outcome_of d,
     shared := (shared db)\<lparr>events := map event_of (dec_events d)\<rparr>\<rparr>"

definition decision_service ::
  "(string \<Rightarrow> string \<Rightarrow> string) \<Rightarrow> dec_config \<Rightarrow> (string \<Rightarrow> bureau_answer) \<Rightarrow> string \<Rightarrow>
   (nat \<Rightarrow> dec_db \<Rightarrow> dec_db) \<Rightarrow> (los_db \<Rightarrow> dec_db) \<Rightarrow> decision_payload \<Rightarrow> los_db \<Rightarrow> client_result \<times> los_db" where
  "decision_service hmac cfg bureau token v elog p db =
     (case decision_in_of p of
        None \<Rightarrow> (Refused 422, db)
      | Some b \<Rightarrow>
          (case post_decision hmac cfg bureau token v b (if token = '''' then None else Some token) (elog db) of
             (Inr d, d') \<Rightarrow> (Answer (decision_json d), write_log d' db)
           | (Inl e, d') \<Rightarrow> (Refused (http_status e), write_log d' db)))"

section \<open>Offers\<close>

definition policy_rate_pct :: rat where
  "policy_rate_pct = fl (799 / 100)"

record offer_out =
  oo_app_id :: int
  oo_box :: offer_box
  oo_schedule :: "schedule_row list"

definition to_offer_out :: "int \<Rightarrow> offer_response \<Rightarrow> offer_out" where
  "to_offer_out app_id r = \<lparr>oo_app_id = app_id, oo_box = rs_box r, oo_schedule = rs_schedule r\<rparr>"

text \<open>\<^verbatim>\<open>ORDER BY decided_at DESC, id DESC LIMIT 1\<close>; an event without an instant comes first.\<close>

definition newest_event :: "disc_db \<Rightarrow> int \<Rightarrow> event_row option" where
  "newest_event d app_id =
     (case filter (\<lambda>e. e_app_id e = Some app_id) (events d) of
        [] \<Rightarrow> None
      | e # es \<Rightarrow> Some (min_by (\<lambda>e. (case e_decided_at e of None \<Rightarrow> (0 :: int, 0 :: int) | Some t \<Rightarrow> (1, - t), - e_id e)) e es))"

definition make_offer ::
  "(string \<Rightarrow> string \<Rightarrow> string) \<Rightarrow> token_config \<Rightarrow> int \<Rightarrow>
   (offer_in \<Rightarrow> los_db \<Rightarrow> offer_response option \<times> los_db) \<Rightarrow> (nat \<Rightarrow> los_db \<Rightarrow> los_db) \<Rightarrow> int \<Rightarrow>
   string option \<Rightarrow> string option \<Rightarrow> string option \<Rightarrow> los_db \<Rightarrow> offer_out response \<times> los_db" where
  "make_offer hmac cfg t post_offer w app_id x_user_role x_user_id x_application_token db =
     (let db0 = w 0 db; db1 = w 1 db0; db2 = w 2 db1; db3 = w 3 db2; db4 = w 4 db3
      in case require_officer_or_owner hmac cfg t db0 app_id x_user_role x_user_id x_application_token of
           Inl e \<Rightarrow> (Inl e, db0)
         | Inr _ \<Rightarrow>
             (case require_kyc_passed db1 app_id of
                Inl e \<Rightarrow> (Inl e, db1)
              | Inr _ \<Rightarrow>
                  (case app_by_id db2 app_id of
                     None \<Rightarrow> (raise_http 404 ''application not found'', db2)
                   | Some a \<Rightarrow>
                       if \<not> approved_outcome (los_decisions db3 app_id)
                       then (raise_http 409 ''offer requires an approved decision'', db3)
                       else (case post_offer
                               \<lparr>of_application_id = app_id, of_principal = la_amount a,
                                of_term_months = la_term_months a, of_annual_rate = policy_rate_pct,
                                of_decision_event_id = map_option e_id (newest_event (shared db4) app_id)\<rparr>
                               (w 5 db4) of
                               (None, db5) \<Rightarrow> (internal_error, db5)
                             | (Some r, db5) \<Rightarrow> (Inr (to_offer_out app_id r), db5)))))"

text \<open>The call answered by disclosure-service; \<open>v\<close> are the sessions between its statements.\<close>

definition offer_service ::
  "rules_error + fee_schedule \<Rightarrow> ymd \<Rightarrow> string \<Rightarrow> (nat \<Rightarrow> disc_db \<Rightarrow> disc_db) \<Rightarrow> offer_in \<Rightarrow> los_db \<Rightarrow>
   offer_response option \<times> los_db" where
  "offer_service rules today token v b db =
     (case create_offer rules today token v b (if token = '''' then None else Some token) (disc_view db) of
        (Inr r, d) \<Rightarrow> (Some r, db\<lparr>shared := d\<rparr>)
      | (Inl e, d) \<Rightarrow> (None, db\<lparr>shared := d\<rparr>))"

definition orig_get_offer ::
  "(string \<Rightarrow> string \<Rightarrow> string) \<Rightarrow> token_config \<Rightarrow> int \<Rightarrow> (int \<Rightarrow> los_db \<Rightarrow> offer_response response) \<Rightarrow> int \<Rightarrow>
   string option \<Rightarrow> string option \<Rightarrow> string option \<Rightarrow> los_db \<Rightarrow> offer_out response" where
  "orig_get_offer hmac cfg t fetch app_id x_user_role x_user_id x_application_token db =
     (case require_officer_or_owner hmac cfg t db app_id x_user_role x_user_id x_application_token of
        Inl e \<Rightarrow> Inl e
      | Inr _ \<Rightarrow>
          (case fetch app_id db of
             Inr r \<Rightarrow> Inr (to_offer_out app_id r)
           | Inl e \<Rightarrow> if http_status e = 404 then raise_http 404 ''no offer for this application''
                      else internal_error))"

section \<open>Reads\<close>

record list_item =
  li_id :: int
  li_applicant_name :: "string option"
  li_amount :: rat
  li_term_months :: int
  li_purpose :: "string option"
  li_status :: string

record 'a page =
  pg_items :: "'a list"
  pg_total :: nat
  pg_limit :: nat
  pg_offset :: nat

definition list_item_of :: "los_db \<Rightarrow> app_row \<Rightarrow> list_item" where
  "list_item_of db a =
     \<lparr>li_id = la_id a, li_applicant_name = map_option apl_name (bind_option (la_applicant_id a) (applicant_by_id db)),
      li_amount = la_amount a, li_term_months = la_term_months a, li_purpose = la_purpose a,
      li_status = la_status a\<rparr>"

text \<open>The matching rows, newest id first.\<close>

definition queue_rows :: "los_db \<Rightarrow> string option \<Rightarrow> app_row list" where
  "queue_rows db status =
     rev (sort_key la_id (filter (\<lambda>a. \<not> present status \<or> Some (la_status a) = status) (los_apps db)))"

definition list_applications ::
  "los_db \<Rightarrow> string option \<Rightarrow> int \<Rightarrow> int \<Rightarrow> string option \<Rightarrow> list_item page response" where
  "list_applications db status page_size off x_user_role =
     (if \<not> (1 \<le> page_size \<and> page_size \<le> 200 \<and> 0 \<le> off) then raise_http 422 ''validation error''
      else bind_result (require_officer x_user_role) (\<lambda>_.
        Inr \<lparr>pg_items = map (list_item_of db) (take (nat page_size) (drop (nat off) (queue_rows db status))),
             pg_total = length (queue_rows db status), pg_limit = nat page_size, pg_offset = nat off\<rparr>))"

record applicant_out =
  ao_id :: int
  ao_name :: string
  ao_email :: "string option"
  ao_phone :: "string option"
  ao_address :: "string option"
  ao_is_entity :: bool

record application_detail =
  ad_id :: int
  ad_applicant :: "applicant_out option"
  ad_amount :: rat
  ad_term_months :: int
  ad_purpose :: "string option"
  ad_status :: string
  ad_employer :: "string option"
  ad_job_title :: "string option"
  ad_kyc :: "kyc_out option"
  ad_decision :: "string option"
  ad_score :: "int option"
  ad_adverse_action_reason :: "string option"
  ad_principal_reasons :: "shown_reason list"
  ad_offer :: "offer_box option"

definition applicant_out_of :: "applicant_row \<Rightarrow> applicant_out" where
  "applicant_out_of p =
     \<lparr>ao_id = apl_id p, ao_name = apl_name p, ao_email = apl_email p, ao_phone = apl_phone p,
      ao_address = apl_address p, ao_is_entity = apl_is_entity p\<rparr>"

definition box_of_offer :: "offer_row \<Rightarrow> offer_box" where
  "box_of_offer x =
     \<lparr>box_apr = or_zero (o_apr x), box_finance_charge = or_zero (o_finance_charge x),
      box_monthly_payment = or_zero (o_monthly_payment x), box_amount_financed = or_zero (o_amount_financed x),
      box_total_of_payments = or_zero (o_total_of_payments x)\<rparr>"

text \<open>
  \<open>json_of\<close> gives the two JSON columns of a decision event (reasons and drivers). The reads on
  the ORM session are taken at one state, the event at another (\<open>db'\<close>).
\<close>

definition get_application ::
  "(string \<Rightarrow> string \<Rightarrow> string) \<Rightarrow> token_config \<Rightarrow> int \<Rightarrow> (int \<Rightarrow> jv \<times> jv) \<Rightarrow> los_db \<Rightarrow> los_db \<Rightarrow> int \<Rightarrow>
   string option \<Rightarrow> string option \<Rightarrow> string option \<Rightarrow> application_detail response" where
  "get_application hmac cfg t json_of db db' app_id x_user_role x_user_id x_application_token =
     (case require_officer_or_owner hmac cfg t db app_id x_user_role x_user_id x_application_token of
        Inl e \<Rightarrow> Inl e
      | Inr _ \<Rightarrow>
          (case app_by_id db app_id of
             None \<Rightarrow> raise_http 404 ''application not found''
           | Some a \<Rightarrow>
               (let latest = newest_event (shared db') app_id;
                    reasons = normalize_principal_reasons (map_option (\<lambda>e. fst (json_of (e_id e))) latest);
                    drivers = map_option (\<lambda>e. snd (json_of (e_id e))) latest
                in Inr
                  \<lparr>ad_id = la_id a,
                   ad_applicant = map_option applicant_out_of (bind_option (la_applicant_id a) (applicant_by_id db)),
                   ad_amount = la_amount a, ad_term_months = la_term_months a, ad_purpose = la_purpose a,
                   ad_status = la_status a, ad_employer = la_employer a, ad_job_title = la_job_title a,
                   ad_kyc = map_option (\<lambda>k. \<lparr>ko_name = kc_name k, ko_dob = kc_dob k, ko_address = kc_address k,
                                             ko_ssn = kc_ssn k\<rparr>)
                              (if la_applicant_id a = Some 0 then None else latest_check db (la_applicant_id a)),
                   ad_decision = (case latest of Some e \<Rightarrow> e_outcome e | None \<Rightarrow> los_decisions db app_id),
                   ad_score = json_score (bind_option drivers (\<lambda>d. jfield d ''model_score'')),
                   ad_adverse_action_reason = (case reasons of [] \<Rightarrow> None | r # _ \<Rightarrow> shown_text r),
                   ad_principal_reasons = reasons,
                   ad_offer = map_option box_of_offer (newest_offer (shared db) app_id)\<rparr>)))"

end
