(* ===== verification/LosSteps.thy ===== *)
theory LosSteps
  imports Boarding DisclosureSteps
begin

text \<open>
  The tables of origination-service under any interleaving of the statements of the services that
  share them: a step relation with one rule per statement, what every step keeps, and the lemmas
  that every run of a boarding route, with any other sessions between its own statements, is a path
  of that relation. A statement of disclosure-service is a step of its own relation on \<open>disc_view\<close>.
  The flag \<open>hatch\<close> tells whether the operations hatch \<^verbatim>\<open>/board\<close>, which has no guard, is used.
\<close>

section \<open>Loans and their disclosures\<close>

text \<open>
  The loan is covered by a delivered disclosure of an offer of its application, with a recorded
  document, and carries the terms of both.
\<close>

definition covers :: "disc_db \<Rightarrow> disclosure_row \<Rightarrow> loan_row \<Rightarrow> bool" where
  "covers d r l \<longleftrightarrow> r \<in> set (disclosures d) \<and> d_status r = ''delivered'' \<and> d_document r \<noteq> None \<and>
     note_rate_for_boarding (Some (d_snapshot r)) (l_apr l) = Inr (l_note_rate l) \<and>
     (\<exists>off \<in> set (offers d). o_id off = d_offer_id r \<and> l_app_id l \<noteq> None \<and> o_app_id off = l_app_id l \<and>
        o_apr off = Some (l_apr l))"

definition disclosed :: "disc_db \<Rightarrow> loan_row \<Rightarrow> bool" where
  "disclosed d l \<longleftrightarrow> (\<exists>r. covers d r l)"

definition disclosed_in_time :: "disc_db \<Rightarrow> loan_row \<Rightarrow> bool" where
  "disclosed_in_time d l \<longleftrightarrow> (\<exists>r t. covers d r l \<and> d_delivered_at r = Some t \<and> t \<le> l_opened_at l)"

section \<open>Steps\<close>

definition references_ok :: "los_db \<Rightarrow> bool" where
  "references_ok db \<longleftrightarrow>
     dom (los_decisions db) \<subseteq> la_id ` set (los_apps db) \<and>
     (\<forall>x \<in> set (offers (shared db)). \<forall>i. o_app_id x = Some i \<longrightarrow> i \<in> la_id ` set (los_apps db)) \<and>
     (\<forall>e \<in> set (events (shared db)). \<forall>i. e_app_id e = Some i \<longrightarrow> i \<in> la_id ` set (los_apps db))"

inductive los_step :: "(string \<Rightarrow> string) \<Rightarrow> bool \<Rightarrow> los_db \<Rightarrow> los_db \<Rightarrow> bool" for sha hatch where
  ls_intake: "la_status a = ''submitted'' \<Longrightarrow> los_step sha hatch db (snd (insert_application up ap a db))"
| ls_check: "los_step sha hatch db (snd (insert_check i cip up db))"
| ls_audit: "los_step sha hatch db (audit actor action detail db)"
| ls_debt: "los_step sha hatch db (snd (capture_debt i debt db))"
| ls_delete: "los_step sha hatch db (snd (delete_application i ap db))"
| ls_board: "disclosed (shared db) l \<Longrightarrow> los_step sha hatch db (snd (insert_loan l db))"
| ls_hatch: "hatch \<Longrightarrow> los_step sha hatch db (snd (insert_loan l db))"
| ls_balance: "los_step sha hatch db (db\<lparr>los_balances := (los_balances db)(i \<mapsto> b)\<rparr>)"
| ls_fund: "first_loan db i \<noteq> None \<Longrightarrow> los_step sha hatch db (fund i db)"
| ls_decide: "app_by_id db i \<noteq> None \<Longrightarrow> e_app_id e = Some i \<Longrightarrow> e_outcome e = Some oc \<Longrightarrow>
    los_step sha hatch db
      (db\<lparr>los_decisions := (los_decisions db)(i \<mapsto> oc), shared := (shared db)\<lparr>events := events (shared db) @ [e]\<rparr>\<rparr>)"
| ls_shared: "disc_step sha (disc_view db) d \<Longrightarrow> references_ok (db\<lparr>shared := d\<rparr>) \<Longrightarrow>
    los_step sha hatch db (db\<lparr>shared := d\<rparr>)"
| ls_users: "los_step sha hatch db (db\<lparr>los_users := us\<rparr>)"

abbreviation los_path :: "(string \<Rightarrow> string) \<Rightarrow> bool \<Rightarrow> los_db \<Rightarrow> los_db \<Rightarrow> bool" where
  "los_path sha hatch \<equiv> (los_step sha hatch)\<^sup>*\<^sup>*"

definition los_sessions_ok :: "(string \<Rightarrow> string) \<Rightarrow> bool \<Rightarrow> (nat \<Rightarrow> los_db \<Rightarrow> los_db) \<Rightarrow> bool" where
  "los_sessions_ok sha hatch w \<longleftrightarrow> (\<forall>n db. los_path sha hatch db (w n db))"

lemma los_sessionsD: "los_sessions_ok sha hatch w \<Longrightarrow> los_path sha hatch db (w n db)"
  by (simp add: los_sessions_ok_def)

lemma los_sessions_idle [simp]: "los_sessions_ok sha hatch (\<lambda>_ d. d)"
  by (simp add: los_sessions_ok_def)

section \<open>What a statement leaves alone\<close>

lemma insert_application_frame [simp]:
  "shared (snd (insert_application up ap a db)) = shared db"
  "los_loans (snd (insert_application up ap a db)) = los_loans db"
  "next_loan (snd (insert_application up ap a db)) = next_loan db"
  "los_decisions (snd (insert_application up ap a db)) = los_decisions db"
  by (simp_all add: insert_application_def)

lemma insert_check_frame [simp]:
  "shared (snd (insert_check i cip up db)) = shared db"
  "los_loans (snd (insert_check i cip up db)) = los_loans db"
  "next_loan (snd (insert_check i cip up db)) = next_loan db"
  "los_decisions (snd (insert_check i cip up db)) = los_decisions db"
  "los_apps (snd (insert_check i cip up db)) = los_apps db"
  "next_app (snd (insert_check i cip up db)) = next_app db"
  by (simp_all add: insert_check_def)

lemma audit_frame [simp]:
  "shared (audit a c d db) = shared db" "los_loans (audit a c d db) = los_loans db"
  "next_loan (audit a c d db) = next_loan db" "los_decisions (audit a c d db) = los_decisions db"
  "los_apps (audit a c d db) = los_apps db" "next_app (audit a c d db) = next_app db"
  by (simp_all add: audit_def)

lemma set_app_frame [simp]:
  "shared (set_app i f db) = shared db" "los_loans (set_app i f db) = los_loans db"
  "next_loan (set_app i f db) = next_loan db" "los_decisions (set_app i f db) = los_decisions db"
  "next_app (set_app i f db) = next_app db"
  by (simp_all add: set_app_def)

lemma snd_capture_debt:
  "snd (capture_debt i debt db) =
   set_app i (\<lambda>a. if la_monthly_debt a = None then a\<lparr>la_monthly_debt := Some debt\<rparr> else a) db"
  by (simp add: capture_debt_def)

lemma delete_frame [simp]:
  "shared (snd (delete_application i ap db)) = shared db"
  "los_loans (snd (delete_application i ap db)) = los_loans db"
  "next_loan (snd (delete_application i ap db)) = next_loan db"
  "los_decisions (snd (delete_application i ap db)) = los_decisions db"
  "next_app (snd (delete_application i ap db)) = next_app db"
  by (simp_all add: delete_application_def Let_def)

lemma delete_apps:
  "los_apps (snd (delete_application i ap db)) =
     (if app_by_id db i \<noteq> None \<and> referenced db i then los_apps db
      else filter (\<lambda>a. la_id a \<noteq> i) (los_apps db))"
  by (simp add: delete_application_def Let_def)

lemma insert_loan_frame [simp]:
  "shared (snd (insert_loan l db)) = shared db"
  "los_decisions (snd (insert_loan l db)) = los_decisions db"
  "los_apps (snd (insert_loan l db)) = los_apps db" "next_app (snd (insert_loan l db)) = next_app db"
  by (simp_all add: insert_loan_def Let_def)

lemma insert_loan_cases:
  obtains (boarded) "insert_loan l db = (Some (next_loan db), snd (insert_loan l db))"
      "los_loans (snd (insert_loan l db)) = los_loans db @ [l\<lparr>l_id := next_loan db, l_opened_at := now db\<rparr>]"
      "next_loan (snd (insert_loan l db)) = next_loan db + 1"
      "l_app_id l = None \<or> (\<forall>x \<in> set (los_loans db). l_app_id x \<noteq> l_app_id l)"
    | (taken) "insert_loan l db = (None, snd (insert_loan l db))" "los_loans (snd (insert_loan l db)) = los_loans db"
      "next_loan (snd (insert_loan l db)) = next_loan db + 1" "l_app_id l \<noteq> None"
      "\<exists>x \<in> set (los_loans db). l_app_id x = l_app_id l"
  by (cases "l_app_id l \<noteq> None \<and> list_ex (\<lambda>x. l_app_id x = l_app_id l) (los_loans db)")
    (auto simp: insert_loan_def Let_def list_ex_iff)

section \<open>What a step of disclosure-service keeps\<close>

lemma step_offers:
  assumes "disc_step sha d d'"
  shows "(\<exists>os. offers d' = offers d @ os) \<or> (\<exists>i e. offers d' = offers (set_edge i e d))"
  using assms
proof (cases rule: disc_step.cases)
  case (step_insert row b)
  have "offers (snd (insert_disclosure row b d)) = offers d \<or>
      offers (snd (insert_disclosure row b d)) = offers (set_edge (d_offer_id row) (d_decision_event_id row) d)"
    by (simp add: insert_disclosure_def Let_def set_edge_def)
  then show ?thesis using step_insert(1) by (metis append_Nil2)
next
  case (step_replay repaired did b)
  show ?thesis
  proof (cases b)
    case None
    then have "offers d' = offers d"
      using step_replay(1) by (auto simp: commit_replay_def Let_def split: option.splits)
    then show ?thesis by (metis append_Nil2)
  next
    case (Some ie)
    obtain i e where "b = Some (i, e)" using Some by (cases ie) simp
    then have "offers d' = offers d \<or> offers d' = offers (set_edge i e d)"
      using step_replay(1) by (simp add: commit_replay_def Let_def split: option.splits)
    then show ?thesis by (metis append_Nil2)
  qed
qed (auto simp: advance_def)

lemma offers_kept:
  assumes "disc_step sha d d'" and x: "x \<in> set (offers d)"
  shows "\<exists>x' \<in> set (offers d'). o_id x' = o_id x \<and> o_app_id x' = o_app_id x \<and> o_apr x' = o_apr x"
proof -
  have "\<exists>x' \<in> set (offers (set_edge i e d)). o_id x' = o_id x \<and> o_app_id x' = o_app_id x \<and> o_apr x' = o_apr x"
    for i e using x unfolding set_edge_def
    by (intro bexI [of _ "if o_id x = i then x\<lparr>o_decision_event_id := Some e\<rparr> else x"]) auto
  then show ?thesis using step_offers [OF assms(1)] x by auto
qed

lemma clock_set_edge [simp]: "clock (set_edge i e d) = clock d"
  by (simp add: set_edge_def)

definition delivered_past :: "disc_db \<Rightarrow> bool" where
  "delivered_past d \<longleftrightarrow> (\<forall>r \<in> set (disclosures d). \<forall>t. d_delivered_at r = Some t \<longrightarrow> t \<le> clock d)"

lemma insert_clock [simp]: "clock (snd (insert_disclosure row b d)) = clock d"
  by (simp add: insert_disclosure_def Let_def set_edge_def)

lemma replay_clock [simp]: "clock (snd (commit_replay did rep b d)) = clock d"
  by (auto simp: commit_replay_def Let_def set_edge_def split: option.splits prod.splits)

lemma repaired_delivered [simp]: "d_delivered_at (repaired_row u r) = d_delivered_at r"
  by (simp add: repaired_row_def Let_def)

lemma delivered_past_step:
  assumes "disc_step sha d d'" and past: "delivered_past d"
  shows "delivered_past d'"
  using assms(1)
proof (cases rule: disc_step.cases)
  case (step_insert row b)
  then have "d_delivered_at row = None" by (simp add: fresh_row_def)
  then show ?thesis using past step_insert(1)
    by (cases rule: insert_cases [of row b d]) (auto simp: delivered_past_def)
next
  case (step_replay repaired did b)
  then show ?thesis using past
    by (auto simp: delivered_past_def commit_replay_def Let_def set_edge_def split: option.splits prod.splits)
next
  case (step_advance current target did)
  then show ?thesis using past by (auto simp: delivered_past_def advance_def split: if_splits)
next
  case (step_clock t)
  then show ?thesis using past by (force simp: delivered_past_def)
qed (use past in \<open>auto simp: delivered_past_def\<close>)

text \<open>A covered loan stays covered, by the very same record.\<close>

lemma covers_step:
  assumes step: "disc_step sha d d'" and typed: "tables_typed sha d" and c: "covers d r l"
  shows "covers d' r l"
proof -
  have "rows_kept d d'" using kept.step typed step by blast
  then have "r \<in> set (disclosures d')" using c by (force simp: rows_kept_def covers_def)
  then show ?thesis using c offers_kept [OF step] unfolding covers_def by metis
qed

lemma tables_typed_view [simp]:
  "tables_typed sha (d\<lparr>applications := x, loan_apps := y\<rparr>) = tables_typed sha d"
  by (simp add: tables_typed_def)

lemma covers_view [simp]: "covers (d\<lparr>applications := x, loan_apps := y\<rparr>) r l = covers d r l"
  by (simp add: covers_def)

lemma delivered_past_view [simp]:
  "delivered_past (d\<lparr>applications := x, loan_apps := y\<rparr>) = delivered_past d"
  by (simp add: delivered_past_def)

section \<open>The invariant\<close>

definition apps_ok :: "los_db \<Rightarrow> bool" where
  "apps_ok db \<longleftrightarrow> distinct (map la_id (los_apps db)) \<and> (\<forall>a \<in> set (los_apps db). la_id a < next_app db)"

definition loans_ok :: "los_db \<Rightarrow> bool" where
  "loans_ok db \<longleftrightarrow> (\<forall>l \<in> set (los_loans db). l_id l < next_loan db) \<and>
     pairwise (\<lambda>l l'. l_id l \<noteq> l_id l' \<and> (l_app_id l = None \<or> l_app_id l \<noteq> l_app_id l')) (set (los_loans db))"

text \<open>A funded application has its loan and no live token.\<close>

definition funded_ok :: "los_db \<Rightarrow> bool" where
  "funded_ok db \<longleftrightarrow> (\<forall>a \<in> set (los_apps db). la_status a = ''funded'' \<longrightarrow>
     la_token_expires a = None \<and> (\<exists>l \<in> set (los_loans db). l_app_id l = Some (la_id a)))"

definition shared_ok :: "(string \<Rightarrow> string) \<Rightarrow> disc_db \<Rightarrow> bool" where
  "shared_ok sha d \<longleftrightarrow> tables_typed sha d \<and> delivered_past d"

definition boarded_ok :: "bool \<Rightarrow> los_db \<Rightarrow> bool" where
  "boarded_ok hatch db \<longleftrightarrow> hatch \<or> (\<forall>l \<in> set (los_loans db). disclosed_in_time (shared db) l)"

definition los_ok :: "(string \<Rightarrow> string) \<Rightarrow> bool \<Rightarrow> los_db \<Rightarrow> bool" where
  "los_ok sha hatch db \<longleftrightarrow> shared_ok sha (shared db) \<and> apps_ok db \<and> loans_ok db \<and> funded_ok db \<and>
     references_ok db \<and> boarded_ok hatch db"

lemma shared_ok_step:
  assumes "los_step sha hatch db db'" "shared_ok sha (shared db)"
  shows "shared_ok sha (shared db')"
  using assms(1)
proof (cases rule: los_step.cases)
  case (ls_decide i e oc)
  then show ?thesis using assms(2) by (simp add: shared_ok_def tables_typed_def delivered_past_def)
next
  case (ls_shared d)
  then show ?thesis using assms(2) step_typed [of sha "disc_view db" d] delivered_past_step [of sha "disc_view db" d]
    by (simp add: shared_ok_def disc_view_def)
qed (use assms(2) in \<open>simp_all add: snd_capture_debt fund_def\<close>)

lemma map_set_app: "(\<And>a. la_id (f a) = la_id a) \<Longrightarrow> map la_id (los_apps (set_app i f db)) = map la_id (los_apps db)"
  by (auto simp: set_app_def)

lemma set_app_ids: "(\<And>a. la_id (f a) = la_id a) \<Longrightarrow> la_id ` set (los_apps (set_app i f db)) = la_id ` set (los_apps db)"
  by (simp flip: set_map add: map_set_app)

lemma apps_ok_keys: "map la_id (los_apps db') = map la_id (los_apps db) \<Longrightarrow> next_app db' = next_app db \<Longrightarrow>
  apps_ok db \<Longrightarrow> apps_ok db'"
proof -
  assume k: "map la_id (los_apps db') = map la_id (los_apps db)" "next_app db' = next_app db" and ok: "apps_ok db"
  have "\<forall>i \<in> set (map la_id (los_apps db)). i < next_app db" using ok by (simp add: apps_ok_def)
  then have "\<forall>i \<in> set (map la_id (los_apps db')). i < next_app db'" unfolding k .
  then have "\<forall>a \<in> set (los_apps db'). la_id a < next_app db'" by simp
  moreover have "distinct (map la_id (los_apps db'))" using ok unfolding k by (simp add: apps_ok_def)
  ultimately show "apps_ok db'" by (simp add: apps_ok_def)
qed

lemma apps_ok_step:
  assumes "los_step sha hatch db db'" and ok: "apps_ok db"
  shows "apps_ok db'"
  using assms(1)
proof (cases rule: los_step.cases)
  case (ls_intake a up ap)
  then show ?thesis using ok by (force simp: insert_application_def apps_ok_def)
next
  case (ls_debt i debt)
  then have "map la_id (los_apps db') = map la_id (los_apps db)" "next_app db' = next_app db"
    by (simp_all add: snd_capture_debt map_set_app)
  then show ?thesis using ok by (rule apps_ok_keys)
next
  case (ls_delete i ap)
  then show ?thesis using ok by (simp add: delete_apps apps_ok_def distinct_map_filter)
next
  case (ls_fund i)
  then have "map la_id (los_apps db') = map la_id (los_apps db)" "next_app db' = next_app db"
    by (simp_all add: fund_def map_set_app)
  then show ?thesis using ok by (rule apps_ok_keys)
qed (use ok in \<open>simp_all add: apps_ok_def\<close>)

lemma loans_ok_cong: "los_loans db' = los_loans db \<Longrightarrow> next_loan db \<le> next_loan db' \<Longrightarrow> loans_ok db \<Longrightarrow> loans_ok db'"
  by (fastforce simp: loans_ok_def)

lemma loans_ok_insert: "loans_ok db \<Longrightarrow> loans_ok (snd (insert_loan l db))"
proof (cases rule: insert_loan_cases [of l db])
  case boarded
  assume ok: "loans_ok db"
  obtain n where n: "los_loans (snd (insert_loan l db)) = los_loans db @ [n]" "l_id n = next_loan db"
    "l_app_id n = l_app_id l" by (rule that [OF boarded(2)]) simp_all
  have low: "\<forall>x \<in> set (los_loans db). l_id x < next_loan db" using ok by (simp add: loans_ok_def)
  have "\<forall>x \<in> set (los_loans db). l_id x \<noteq> l_id n \<and> (l_app_id n = None \<or> l_app_id x \<noteq> l_app_id n)"
  proof
    fix x assume x: "x \<in> set (los_loans db)"
    show "l_id x \<noteq> l_id n \<and> (l_app_id n = None \<or> l_app_id x \<noteq> l_app_id n)"
      using bspec [OF low x] boarded(4) x unfolding n(2,3) by auto
  qed
  then have apart: "l_id x \<noteq> l_id n" "l_app_id n = None \<or> l_app_id x \<noteq> l_app_id n" if "x \<in> set (los_loans db)" for x
    using that by blast+
  have "pairwise (\<lambda>l l'. l_id l \<noteq> l_id l' \<and> (l_app_id l = None \<or> l_app_id l \<noteq> l_app_id l')) (insert n (set (los_loans db)))"
    unfolding pairwise_insert
  proof (intro conjI allI impI)
    fix y assume "y \<in> set (los_loans db) \<and> y \<noteq> n"
    then have y: "y \<in> set (los_loans db)" by blast
    show "l_id n \<noteq> l_id y" "l_id y \<noteq> l_id n" using apart(1) [OF y] by simp_all
    show "l_app_id n = None \<or> l_app_id n \<noteq> l_app_id y" "l_app_id y = None \<or> l_app_id y \<noteq> l_app_id n"
      using apart(2) [OF y] by metis+
  next
    show "pairwise (\<lambda>l l'. l_id l \<noteq> l_id l' \<and> (l_app_id l = None \<or> l_app_id l \<noteq> l_app_id l')) (set (los_loans db))"
      using ok unfolding loans_ok_def by blast
  qed
  moreover have "\<forall>x \<in> insert n (set (los_loans db)). l_id x < next_loan db + 1" using low n(2) by fastforce
  ultimately show ?thesis unfolding loans_ok_def n(1) boarded(3) by simp
next
  case taken
  assume ok: "loans_ok db"
  show ?thesis by (rule loans_ok_cong [OF _ _ ok]) (simp_all add: taken(2,3))
qed

lemma loans_ok_step:
  assumes "los_step sha hatch db db'" and ok: "loans_ok db"
  shows "loans_ok db'"
  using assms(1)
proof (cases rule: los_step.cases)
  case (ls_board l)
  then show ?thesis using loans_ok_insert [OF ok] by simp
next
  case (ls_hatch l)
  then show ?thesis using loans_ok_insert [OF ok] by simp
qed (rule loans_ok_cong [OF _ _ ok], simp_all add: snd_capture_debt fund_def)+

text \<open>No loan is ever removed or rewritten.\<close>

lemma loans_kept: "los_step sha hatch db db' \<Longrightarrow> set (los_loans db) \<subseteq> set (los_loans db')"
proof (erule los_step.cases)
  fix dba l assume "db = dba" "db' = snd (insert_loan l dba)"
  then show "set (los_loans db) \<subseteq> set (los_loans db')" by (cases rule: insert_loan_cases [of l dba]) auto
next
  fix dba l assume "db = dba" "db' = snd (insert_loan l dba)"
  then show "set (los_loans db) \<subseteq> set (los_loans db')" by (cases rule: insert_loan_cases [of l dba]) auto
qed (simp_all add: snd_capture_debt fund_def)

lemma first_loanD: "first_loan db i = Some l \<Longrightarrow> l \<in> set (los_loans db) \<and> l_app_id l = Some i"
proof (cases "filter (\<lambda>l. l_app_id l = Some i) (los_loans db)")
  case (Cons x xs)
  assume "first_loan db i = Some l"
  then have "l = min_by l_id x xs" using Cons by (simp add: first_loan_def)
  then have "l \<in> set (filter (\<lambda>l. l_app_id l = Some i) (los_loans db))" using Cons min_by_in [of l_id x xs] by simp
  then show ?thesis by simp
qed (simp add: first_loan_def)

lemma first_loan_exists: "l \<in> set (los_loans db) \<Longrightarrow> l_app_id l = Some i \<Longrightarrow> first_loan db i \<noteq> None"
  by (force simp: first_loan_def filter_empty_conv split: list.split)

lemma apps_of_set: "a' \<in> set (los_apps (set_app i f db)) \<Longrightarrow>
  \<exists>a \<in> set (los_apps db). a' = (if la_id a = i then f a else a)"
  by (auto simp: set_app_def)

lemma funded_ok_cong:
  assumes "funded_ok db" and "set (los_loans db) \<subseteq> set (los_loans db')"
    and "\<And>a'. a' \<in> set (los_apps db') \<Longrightarrow> la_status a' = ''funded'' \<Longrightarrow>
      \<exists>a \<in> set (los_apps db). la_status a = ''funded'' \<and> la_id a' = la_id a \<and>
        (la_token_expires a = None \<longrightarrow> la_token_expires a' = None)"
  shows "funded_ok db'"
  using assms unfolding funded_ok_def by fastforce

lemma funded_ok_step:
  assumes step: "los_step sha hatch db db'" and ok: "funded_ok db"
  shows "funded_ok db'"
proof -
  note grow = loans_kept [OF step]
  show ?thesis using step
  proof (cases rule: los_step.cases)
    case (ls_intake a up ap)
    then show ?thesis using ok by (intro funded_ok_cong [OF ok grow]) (auto simp: insert_application_def split: if_splits)
  next
    case (ls_debt i debt)
    show ?thesis
    proof (rule funded_ok_cong [OF ok grow])
      fix a' assume "a' \<in> set (los_apps db')" "la_status a' = ''funded''"
      then show "\<exists>a \<in> set (los_apps db). la_status a = ''funded'' \<and> la_id a' = la_id a \<and>
          (la_token_expires a = None \<longrightarrow> la_token_expires a' = None)"
        unfolding ls_debt(1) snd_capture_debt by (auto dest!: apps_of_set split: if_splits)
    qed
  next
    case (ls_delete i ap)
    then show ?thesis by (intro funded_ok_cong [OF ok grow]) (auto simp: delete_apps split: if_splits)
  next
    case (ls_fund i)
    then obtain l where l: "l \<in> set (los_loans db)" "l_app_id l = Some i" using first_loanD by (metis option.exhaust)
    show ?thesis unfolding funded_ok_def
    proof (intro ballI impI)
      fix a' assume "a' \<in> set (los_apps db')" "la_status a' = ''funded''"
      then obtain a where a: "a \<in> set (los_apps db)"
        "a' = (if la_id a = i then a\<lparr>la_status := ''funded'', la_token_expires := None\<rparr> else a)"
        "la_status a' = ''funded''"
        using apps_of_set unfolding ls_fund(1) fund_def by blast
      show "la_token_expires a' = None \<and> (\<exists>l \<in> set (los_loans db'). l_app_id l = Some (la_id a'))"
      proof (cases "la_id a = i")
        case True
        then show ?thesis using a(2) l grow by auto
      next
        case False
        then show ?thesis using a ok grow unfolding funded_ok_def by auto
      qed
    qed
  qed (rule funded_ok_cong [OF ok grow], force)+
qed

lemma references_ok_step:
  assumes "los_step sha hatch db db'" and ok: "references_ok db"
  shows "references_ok db'"
  using assms(1)
proof (cases rule: los_step.cases)
  case (ls_intake a up ap)
  then show ?thesis using ok by (auto simp: references_ok_def insert_application_def)
next
  case (ls_debt i debt)
  then show ?thesis using ok by (simp add: references_ok_def snd_capture_debt set_app_ids)
next
  case (ls_fund i)
  then show ?thesis using ok by (simp add: references_ok_def fund_def set_app_ids)
next
  case (ls_delete i ap)
  show ?thesis
  proof (cases "app_by_id db i \<noteq> None \<and> referenced db i")
    case True
    then show ?thesis using ok ls_delete by (simp add: references_ok_def delete_apps)
  next
    case False
    then have "los_apps db' = filter (\<lambda>a. la_id a \<noteq> i) (los_apps db)" using ls_delete delete_apps [of i ap db] by argo
    then have ids: "la_id ` set (los_apps db') = la_id ` set (los_apps db) - {i}" by auto
    have "i \<in> la_id ` set (los_apps db) \<Longrightarrow> \<not> referenced db i"
      using False by (auto simp: app_by_id_def find_None_iff)
    then have "los_decisions db i = None" "\<forall>x \<in> set (offers (shared db)). o_app_id x \<noteq> Some i"
      "\<forall>e \<in> set (events (shared db)). e_app_id e \<noteq> Some i"
      using ok by (auto simp: references_ok_def referenced_def list_ex_iff)
    then show ?thesis using ok ids unfolding references_ok_def ls_delete(1) delete_frame by auto
  qed
next
  case (ls_decide i e oc)
  then have "i \<in> la_id ` set (los_apps db)" by (auto simp: app_by_id_def find_Some_iff)
  then show ?thesis using ok ls_decide by (auto simp: references_ok_def)
qed (use ok in \<open>simp_all add: references_ok_def\<close>)

lemma boarded_ok_step:
  assumes step: "los_step sha hatch db db'" and sh: "shared_ok sha (shared db)" and ok: "boarded_ok hatch db"
  shows "boarded_ok hatch db'"
proof (cases hatch)
  case False
  then have all: "\<forall>l \<in> set (los_loans db). disclosed_in_time (shared db) l" using ok by (simp add: boarded_ok_def)
  have "\<forall>l \<in> set (los_loans db'). disclosed_in_time (shared db') l" using step
  proof (cases rule: los_step.cases)
    case (ls_board l)
    obtain r where r: "covers (shared db) r l" using ls_board(2) by (auto simp: disclosed_def)
    then have "r \<in> set (disclosures (shared db))" "d_status r = ''delivered''" by (simp_all add: covers_def)
    then obtain t where t: "d_delivered_at r = Some t" "t \<le> now db"
      using sh by (auto simp: shared_ok_def tables_typed_def row_ok_def delivered_past_def now_def)
    show ?thesis
    proof (cases rule: insert_loan_cases [of l db])
      case boarded
      have "covers (shared db) r (l\<lparr>l_id := next_loan db, l_opened_at := now db\<rparr>)" using r by (simp add: covers_def)
      then have "disclosed_in_time (shared db) (l\<lparr>l_id := next_loan db, l_opened_at := now db\<rparr>)"
        using t unfolding disclosed_in_time_def by (intro exI [of _ r] exI [of _ t]) simp
      then show ?thesis using all ls_board(1) boarded(2) by simp
    next
      case taken
      then show ?thesis using all ls_board(1) by simp
    qed
  next
    case (ls_decide i e oc)
    then show ?thesis using all by (simp add: disclosed_in_time_def covers_def)
  next
    case (ls_shared d)
    have "covers d r l" if "covers (shared db) r l" for r l
      using covers_step [OF ls_shared(2)] sh that by (simp add: shared_ok_def disc_view_def)
    then show ?thesis using all ls_shared(1) unfolding disclosed_in_time_def by simp blast
  qed (use all False in \<open>simp_all add: snd_capture_debt fund_def\<close>)
  then show ?thesis by (simp add: boarded_ok_def)
qed (simp add: boarded_ok_def)

lemma los_ok_step: "los_step sha hatch db db' \<Longrightarrow> los_ok sha hatch db \<Longrightarrow> los_ok sha hatch db'"
  unfolding los_ok_def
  by (auto intro: shared_ok_step apps_ok_step loans_ok_step funded_ok_step references_ok_step boarded_ok_step)

lemma los_ok_path: "los_path sha hatch db db' \<Longrightarrow> los_ok sha hatch db \<Longrightarrow> los_ok sha hatch db'"
  by (induction rule: rtranclp_induct) (auto intro: los_ok_step)

section \<open>Along a path\<close>

lemma los_path_trans: "los_path sha hatch a b \<Longrightarrow> los_path sha hatch b c \<Longrightarrow> los_path sha hatch a c"
  by (rule rtranclp_trans)

lemma los_then_step: "los_path sha hatch a b \<Longrightarrow> los_step sha hatch b c \<Longrightarrow> los_path sha hatch a c"
  by (rule rtranclp.rtrancl_into_rtrancl)

lemma los_others: "los_sessions_ok sha hatch w \<Longrightarrow> los_path sha hatch a b \<Longrightarrow> los_path sha hatch a (w n b)"
  by (rule los_path_trans [OF _ los_sessionsD])

lemma loans_path: "los_path sha hatch db db' \<Longrightarrow> set (los_loans db) \<subseteq> set (los_loans db')"
  by (induction rule: rtranclp_induct) (auto dest: loans_kept)

lemma covers_los_step:
  assumes "los_step sha hatch db db'" and sh: "shared_ok sha (shared db)" and c: "covers (shared db) r l"
  shows "covers (shared db') r l"
  using assms(1)
proof (cases rule: los_step.cases)
  case (ls_decide i e oc)
  then show ?thesis using c by (simp add: covers_def)
next
  case (ls_shared d)
  then show ?thesis using covers_step [OF ls_shared(2)] sh c by (simp add: shared_ok_def disc_view_def)
qed (use c in \<open>simp_all add: snd_capture_debt fund_def\<close>)

lemma covers_path:
  "los_path sha hatch db db' \<Longrightarrow> shared_ok sha (shared db) \<Longrightarrow> covers (shared db) r l \<Longrightarrow>
   shared_ok sha (shared db') \<and> covers (shared db') r l"
  by (induction rule: rtranclp_induct) (auto intro: covers_los_step shared_ok_step)

section \<open>Every run of a boarding route is a path\<close>

lemma balance_step: "los_step sha hatch db (insert_balance i p db) \<or> insert_balance i p db = db"
  using ls_balance [of sha hatch db i p] by (simp add: insert_balance_def)

lemma balance_path: "los_path sha hatch a db \<Longrightarrow> los_path sha hatch a (insert_balance i p db)"
  using balance_step [of sha hatch db i p] by (auto intro: los_then_step)

lemma board_path:
  assumes w: "los_sessions_ok sha hatch w" and p: "los_path sha hatch a db"
    and ok: "hatch \<or> disclosed (shared (w n db)) l"
  shows "los_path sha hatch a (snd (board_to_servicing w n l db))"
proof -
  have p1: "los_path sha hatch a (w n db)" by (rule los_others [OF w p])
  have "los_step sha hatch (w n db) (snd (insert_loan l (w n db)))" using ok ls_hatch ls_board by blast
  then have p2: "los_path sha hatch a (snd (insert_loan l (w n db)))" by (rule los_then_step [OF p1])
  obtain i db1 where e: "insert_loan l (w n db) = (i, db1)" by (cases "insert_loan l (w n db)")
  have "los_path sha hatch a (insert_balance j x (w (Suc n) db1))" for j x
    using p2 unfolding e by (intro balance_path los_others [OF w]) simp
  then show ?thesis using p2 by (simp add: board_to_servicing_def e split: option.split)
qed

lemma first_loan_path:
  assumes "los_path sha hatch db db'" "first_loan db i \<noteq> None"
  shows "first_loan db' i \<noteq> None"
proof -
  obtain l where "l \<in> set (los_loans db)" "l_app_id l = Some i" using assms(2) first_loanD by fast
  then show ?thesis using loans_path [OF assms(1)] first_loan_exists by blast
qed

lemma reconcile_path:
  assumes w: "los_sessions_ok sha hatch w" and p: "los_path sha hatch a db" and l: "first_loan db app \<noteq> None"
  shows "los_path sha hatch a (snd (reconcile_accept w app i p' db))"
proof -
  let ?b = "w 7 (insert_balance i p' (w 6 db))"
  have "los_path sha hatch db ?b"
    by (intro los_others [OF w] balance_path rtranclp.rtrancl_refl)
  then have "los_path sha hatch a ?b" "first_loan ?b app \<noteq> None"
    using p l first_loan_path los_path_trans by blast+
  then have "los_path sha hatch a (fund app ?b)" by (intro los_then_step [OF _ ls_fund])
  then show ?thesis by (simp add: reconcile_accept_def)
qed

lemma newest_offerD: "newest_offer d i = Some x \<Longrightarrow> x \<in> set (offers d) \<and> o_app_id x = Some i"
proof (cases "filter (\<lambda>x. o_app_id x = Some i) (offers d)")
  case (Cons y ys)
  assume "newest_offer d i = Some x"
  then have "x = min_by (\<lambda>x. - o_id x) y ys" using Cons by (simp add: newest_offer_def)
  then have "x \<in> set (filter (\<lambda>x. o_app_id x = Some i) (offers d))"
    using Cons min_by_in [of "\<lambda>x. - o_id x" y ys] by simp
  then show ?thesis by simp
qed (simp add: newest_offer_def)

text \<open>What the guards of the boarding branch have seen.\<close>

lemma guards_Inr:
  "boarding_guards r apr = Inr nr \<longleftrightarrow>
     br_status r = Some ''delivered'' \<and> br_delivered_at r \<noteq> None \<and> br_has_document r \<and>
     \<not> (br_offer_edge r \<noteq> None \<and> br_record_edge r \<noteq> None \<and> br_offer_edge r \<noteq> br_record_edge r) \<and>
     (br_record_edge r \<noteq> None \<longrightarrow> approved_outcome (br_record_outcome r)) \<and>
     note_rate_for_boarding (br_snapshot r) apr = Inr nr"
  by (auto simp: boarding_guards_def)

lemma query_covers:
  assumes q: "boarding_query db app = Some r" and apr: "br_apr r = Some apr" and g: "boarding_guards r apr = Inr nr"
  shows "\<exists>x off. newest_offer (shared db) app = Some off \<and> disclosure_by_offer (shared db) (o_id off) = Some x \<and>
    covers (shared db) x (new_loan app name amount apr n (Some nr)) \<and>
    d_decision_event_id x = (case o_decision_event_id off of None \<Rightarrow> d_decision_event_id x | Some e \<Rightarrow> e) \<and>
    approved_outcome (bind_option (event_by_id (shared db) (d_decision_event_id x)) e_outcome)"
proof -
  let ?d = "shared db"
  obtain off where off: "newest_offer ?d app = Some off" "o_apr off = Some apr"
    using q apr by (auto simp: boarding_query_def Let_def bind_option_def split: option.splits)
  obtain x where x: "disclosure_by_offer ?d (o_id off) = Some x"
    using q g off(1) by (auto simp: boarding_query_def Let_def bind_option_def guards_Inr split: option.splits)
  have r: "br_status r = Some (d_status x)" "br_has_document r = (d_document x \<noteq> None)"
    "br_snapshot r = Some (d_snapshot x)" "br_record_edge r = Some (d_decision_event_id x)"
    "br_offer_edge r = o_decision_event_id off"
    "br_record_outcome r = bind_option (event_by_id ?d (d_decision_event_id x)) e_outcome"
    using q off(1) x by (auto simp: boarding_query_def Let_def bind_option_def)
  have "covers ?d x (new_loan app name amount apr n (Some nr))"
    using g r disclosure_by_offerD [OF x] newest_offerD [OF off(1)] off(2)
    unfolding covers_def by (auto simp: guards_Inr new_loan_def)
  moreover have "d_decision_event_id x = (case o_decision_event_id off of None \<Rightarrow> d_decision_event_id x | Some e \<Rightarrow> e)"
    using g r by (auto simp: guards_Inr split: option.splits)
  moreover have "approved_outcome (bind_option (event_by_id ?d (d_decision_event_id x)) e_outcome)"
    using g r by (simp add: guards_Inr)
  ultimately show ?thesis using off(1) x by blast
qed

lemma boarded_first_loan:
  assumes "insert_loan l db = (Some i, db')" "l_app_id l = Some app"
  shows "first_loan db' app \<noteq> None"
proof (cases rule: insert_loan_cases [of l db])
  case boarded
  obtain n where "n \<in> set (los_loans db')" "l_app_id n = Some app"
    by (rule that [of "l\<lparr>l_id := next_loan db, l_opened_at := now db\<rparr>"]) (use boarded(2) assms in simp_all)
  then show ?thesis by (rule first_loan_exists)
qed (use assms in simp)

lemma board_fresh_path:
  assumes w: "los_sessions_ok sha hatch w" and p: "los_path sha hatch a db"
    and ok: "\<And>name nr. boarding_guards r apr = Inr nr \<Longrightarrow>
        disclosed (shared (w 4 db)) (new_loan app name (br_amount r) apr (br_term_months r) (Some nr))"
  shows "los_path sha hatch a (snd (board_fresh w app r apr db))"
proof (cases "boarding_guards r apr")
  case (Inl e)
  then show ?thesis using p by (simp add: board_fresh_def)
next
  case (Inr nr)
  define l where "l = new_loan app (if present (br_name r) then the (br_name r) else ''Borrower'')
                 (br_amount r) apr (br_term_months r) (Some nr)"
  have path: "los_path sha hatch a (snd (board_to_servicing w 4 l db))"
    by (rule board_path [OF w p]) (simp add: l_def ok [OF Inr])
  obtain i db1 where e: "board_to_servicing w 4 l db = (i, db1)" by (cases "board_to_servicing w 4 l db")
  have p1: "los_path sha hatch a db1" using path e by simp
  show ?thesis
  proof (cases i)
    case None
    have p2: "los_path sha hatch a (w 5 db1)" by (rule los_others [OF w p1])
    show ?thesis
    proof (cases "first_loan (w 5 db1) app")
      case None
      then show ?thesis using p2 Inr e \<open>i = None\<close> by (simp add: board_fresh_def l_def Let_def)
    next
      case (Some x)
      then show ?thesis using reconcile_path [OF w p2, of app "l_id x" "l_principal x"] Inr e \<open>i = None\<close>
        by (simp add: board_fresh_def l_def Let_def)
    qed
  next
    case (Some j)
    have "insert_loan l (w 4 db) = (Some j, snd (insert_loan l (w 4 db)))"
      using e Some by (auto simp: board_to_servicing_def split: option.splits prod.splits)
    moreover have "l_app_id l = Some app" by (simp add: l_def new_loan_def)
    ultimately have "first_loan (snd (insert_loan l (w 4 db))) app \<noteq> None" by (rule boarded_first_loan)
    moreover have "db1 = insert_balance j (l_principal l) (w 5 (snd (insert_loan l (w 4 db))))"
      using e Some by (auto simp: board_to_servicing_def split: option.splits prod.splits)
    then have "los_path sha hatch (snd (insert_loan l (w 4 db))) db1"
      using balance_path [OF los_sessionsD [OF w]] by simp
    ultimately have "first_loan db1 app \<noteq> None" by (rule first_loan_path [rotated])
    then show ?thesis using reconcile_path [OF w p1, of app j "br_amount r"] Inr e Some
      by (simp add: board_fresh_def l_def)
  qed
qed

text \<open>Once the chain is read, the rest of the branch is a path from there.\<close>

lemma accept_read_path:
  assumes w: "los_sessions_ok sha hatch w" and sh: "shared_ok sha (shared m)"
    and r: "boarding_query m app = Some r" "br_apr r = Some apr"
  shows "los_path sha hatch m (snd (board_fresh w app r apr (w 3 m)))"
proof (rule board_fresh_path [OF w los_sessionsD [OF w]])
  have q: "los_path sha hatch m (w 4 (w 3 m))"
    by (intro los_others [OF w] rtranclp.rtrancl_refl)
  fix name nr assume "boarding_guards r apr = Inr nr"
  then obtain x where "covers (shared m) x (new_loan app name (br_amount r) apr (br_term_months r) (Some nr))"
    using query_covers [OF r] by blast
  then show "disclosed (shared (w 4 (w 3 m))) (new_loan app name (br_amount r) apr (br_term_months r) (Some nr))"
    using covers_path [OF q sh] unfolding disclosed_def by blast
qed

lemma shared_ok_path: "los_path sha hatch db db' \<Longrightarrow> shared_ok sha (shared db) \<Longrightarrow> shared_ok sha (shared db')"
  by (induction rule: rtranclp_induct) (auto intro: shared_ok_step)

lemma accept_authorized_path:
  assumes w: "los_sessions_ok sha hatch w" and p: "los_path sha hatch a db" and sh: "shared_ok sha (shared a)"
  shows "los_path sha hatch a (snd (accept_authorized w app db))"
proof -
  let ?m = "w 2 (w 1 db)"
  have p1: "los_path sha hatch a (w 1 db)" by (rule los_others [OF w p])
  have p2: "los_path sha hatch a ?m" by (rule los_others [OF w p1])
  have p3: "los_path sha hatch a (w 3 ?m)" by (rule los_others [OF w p2])
  have fresh: "los_path sha hatch a (snd (board_fresh w app r apr (w 3 ?m)))"
    if "boarding_query ?m app = Some r" "br_apr r = Some apr" for r apr
    using los_path_trans [OF p2 accept_read_path [OF w shared_ok_path [OF p2 sh] that]] .
  have replayed: "los_path sha hatch a (snd (reconcile_accept w app i p' (w 3 ?m)))"
    if "first_loan (w 3 ?m) app = Some l" for l i p'
    using reconcile_path [OF w p3] that by simp
  show ?thesis using p1 p2 fresh replayed
    by (simp add: accept_authorized_def Let_def split: sum.split option.split)
qed

lemma accept_path:
  assumes w: "los_sessions_ok sha hatch w" and sh: "shared_ok sha (shared db)"
  shows "los_path sha hatch db (snd (accept_offer hmac cfg t w app role uid tok db))"
proof -
  have p0: "los_path sha hatch db (w 0 db)" using w by (rule los_sessionsD)
  have p1: "los_path sha hatch db (w 1 (w 0 db))" by (rule los_others [OF w p0])
  show ?thesis using p1 accept_authorized_path [OF w p0 sh]
    by (simp add: accept_offer_def Let_def split: sum.split option.split)
qed

lemma hatch_path:
  assumes w: "los_sessions_ok sha True w"
  shows "los_path sha True db (snd (board token w b hdr db))"
proof -
  have "los_path sha True db (snd (board_to_servicing w 0 l db))" for l
    by (rule board_path [OF w rtranclp.rtrancl_refl]) simp
  then show ?thesis by (simp add: board_def split: sum.split prod.split option.split) (metis snd_conv)
qed

section \<open>The intake routes\<close>

lemma create_path:
  "los_path sha hatch a db \<Longrightarrow> los_path sha hatch a (snd (create_application hmac cfg raw t up b sub db))"
  by (auto simp: create_application_def application_of_intake_def split: option.split
      intro: los_then_step [OF _ ls_intake])

lemma kyc_service_path:
  assumes "los_path sha hatch a db"
  shows "los_path sha hatch a (snd (kyc_service token up p db))"
proof -
  have "los_path sha hatch a (snd (kyc_check token up b hdr db))" for b hdr
  proof -
    obtain i db1 where e: "insert_check (ci_applicant_id b) (run_cip b) up db = (i, db1)"
      by (cases "insert_check (ci_applicant_id b) (run_cip b) up db")
    have "los_path sha hatch a db1"
      using los_then_step [OF assms ls_check [of sha hatch db "ci_applicant_id b" "run_cip b" up]] e by simp
    then show ?thesis using assms e by (simp add: kyc_check_def Let_def split: sum.split option.split)
  qed
  then have "los_path sha hatch a db1" if "kyc_check token up b hdr db = (r, db1)" for b hdr r db1
    using that by (metis snd_conv)
  then show ?thesis using assms
    by (simp add: kyc_service_def split: option.split prod.split sum.split del: if_split)
qed

text \<open>A call that answers as kyc-service does, or fails on the way, is a path.\<close>

definition kyc_calls_ok :: "(string \<Rightarrow> string) \<Rightarrow> bool \<Rightarrow> (kyc_payload \<Rightarrow> los_db \<Rightarrow> (string + bool) \<times> los_db) \<Rightarrow> bool" where
  "kyc_calls_ok sha hatch call \<longleftrightarrow> (\<forall>p db. los_path sha hatch db (snd (call p db)))"

lemma run_kyc_path:
  assumes c: "kyc_calls_ok sha hatch call" and p: "los_path sha hatch a db"
  shows "los_path sha hatch a (snd (run_kyc call audited k ent db))"
proof -
  obtain r db1 where e: "call k db = (r, db1)" by (cases "call k db")
  have "los_path sha hatch db (snd (call k db))" using c unfolding kyc_calls_ok_def by blast
  then have p1: "los_path sha hatch a db1" using p e los_path_trans by simp
  then have "los_path sha hatch a (audit x y z db1)" for x y z by (rule los_then_step [OF _ ls_audit])
  then show ?thesis using p1 by (simp add: run_kyc_def e split: sum.split)
qed

lemma submit_path:
  assumes w: "los_sessions_ok sha hatch w" and c: "kyc_calls_ok sha hatch call"
  shows "los_path sha hatch db (snd (submit_application hmac cfg call raw t today up audited w body uid db))"
proof (cases "validated today body")
  case None
  then show ?thesis by (simp add: submit_application_def)
next
  case (Some b)
  have p0: "los_path sha hatch db (w 0 db)" using w by (rule los_sessionsD)
  obtain i db1 where e: "create_application hmac cfg raw t up b (orig_as_int uid) (w 0 db) = (i, db1)"
    by (cases "create_application hmac cfg raw t up b (orig_as_int uid) (w 0 db)")
  have p1: "los_path sha hatch db db1"
    using create_path [OF p0, of hmac cfg raw t up b "orig_as_int uid"] e by simp
  have "los_path sha hatch db (snd (run_kyc call audited k ent (w 2 (w 1 db1))))" for k ent
    by (intro run_kyc_path [OF c] los_others [OF w] p1)
  then show ?thesis using Some e p1
    by (simp add: submit_application_def Let_def split: option.split prod.split) (metis snd_conv)
qed

lemma abandon_path:
  assumes w: "los_sessions_ok sha hatch w"
  shows "los_path sha hatch db (snd (abandon_application token w app hdr db))"
proof -
  have p0: "los_path sha hatch db (w 0 db)" using w by (rule los_sessionsD)
  have p1: "los_path sha hatch db (w 1 (w 0 db))" by (rule los_others [OF w p0])
  have p2: "los_path sha hatch db (snd (delete_application app ap (w 1 (w 0 db))))" for ap
    by (rule los_then_step [OF p1 ls_delete])
  show ?thesis using p0 p2
    by (simp add: abandon_application_def Let_def split: sum.split option.split prod.split bool.split) (metis snd_conv)
qed

lemma capture_debt_path:
  assumes w: "los_sessions_ok sha hatch w"
  shows "los_path sha hatch db (snd (capture_monthly_debt token w app debt shown hdr uid db))"
proof -
  have p0: "los_path sha hatch db (w 0 db)" using w by (rule los_sessionsD)
  have p1: "los_path sha hatch db (w 1 (w 0 db))" by (rule los_others [OF w p0])
  obtain ok db2 where e: "capture_debt app debt (w (Suc 0) (w 0 db)) = (ok, db2)"
    by (cases "capture_debt app debt (w (Suc 0) (w 0 db))")
  have p2: "los_path sha hatch db db2"
    using los_then_step [OF p1 ls_debt [of sha hatch "w 1 (w 0 db)" app debt]] e by simp
  have "los_path sha hatch db (audit x y z (w 2 db2))" for x y z
    by (rule los_then_step [OF los_others [OF w p2] ls_audit])
  then show ?thesis using p0 p2
    by (cases ok) (simp_all add: capture_monthly_debt_def Let_def e split: sum.split option.split)
qed

lemma recheck_path:
  assumes w: "los_sessions_ok sha hatch w" and c: "kyc_calls_ok sha hatch call"
  shows "los_path sha hatch db (snd (recheck_kyc hmac cfg call t audited w app role uid tok db))"
proof -
  have p0: "los_path sha hatch db (w 0 db)" using w by (rule los_sessionsD)
  have p1: "los_path sha hatch db (w 1 (w 0 db))" by (rule los_others [OF w p0])
  have "los_path sha hatch db (snd (run_kyc call audited k ent (w 2 (w 1 (w 0 db)))))" for k ent
    by (intro run_kyc_path [OF c] los_others [OF w] p1)
  then show ?thesis using p0 p1
    by (simp add: recheck_kyc_def Let_def split: sum.split option.split prod.split) (metis snd_conv)
qed

end
