(* ===== verification/LosProps.thy ===== *)
theory LosProps
  imports LosSteps DisclosureProps
begin

text \<open>
  What origination-service promises about applications, loans and tokens: no loan before its
  disclosure, one loan per application, a funded application with its balance, tokens that open
  their own application until it is funded, a monthly debt that is recorded once, and identity
  checks that gate what follows.
\<close>

section \<open>One application along a path\<close>

text \<open>
  What every later row of an application has kept. Status and expiry move only by funding, a
  recorded debt never moves.
\<close>

definition row_kept :: "app_row \<Rightarrow> app_row \<Rightarrow> bool" where
  "row_kept a b \<longleftrightarrow> la_id b = la_id a \<and> la_token b = la_token a \<and> la_applicant_id b = la_applicant_id a \<and>
     (la_monthly_debt a \<noteq> None \<longrightarrow> la_monthly_debt b = la_monthly_debt a) \<and>
     (la_status b = ''funded'' \<or> la_status b = la_status a \<and> la_token_expires b = la_token_expires a)"

lemma row_kept_refl [simp]: "row_kept a a"
  by (simp add: row_kept_def)

lemma row_kept_trans: "row_kept a b \<Longrightarrow> row_kept b c \<Longrightarrow> row_kept a c"
  unfolding row_kept_def by (elim conjE disjE) simp_all

lemma apps_step:
  assumes "los_step sha hatch db db'" "b \<in> set (los_apps db')"
  shows "(\<exists>a \<in> set (los_apps db). row_kept a b) \<or> la_id b = next_app db"
  using assms(1)
proof (cases rule: los_step.cases)
  case (ls_intake a up ap)
  then show ?thesis using assms(2) by (auto simp: insert_application_def intro: row_kept_refl split: if_splits)
next
  case (ls_debt i debt)
  then obtain a where a: "a \<in> set (los_apps db)"
      "b = (if la_id a = i then if la_monthly_debt a = None then a\<lparr>la_monthly_debt := Some debt\<rparr> else a else a)"
    using assms(2) apps_of_set unfolding snd_capture_debt by blast
  then have "row_kept a b" by (simp add: row_kept_def)
  then show ?thesis using a(1) by blast
next
  case (ls_delete i ap)
  then have "b \<in> set (los_apps db)" using assms(2) by (simp add: delete_apps split: if_splits)
  then show ?thesis using row_kept_refl by blast
next
  case (ls_fund i)
  then obtain a where a: "a \<in> set (los_apps db)"
      "b = (if la_id a = i then a\<lparr>la_status := ''funded'', la_token_expires := None\<rparr> else a)"
    using assms(2) apps_of_set unfolding fund_def by blast
  then have "row_kept a b" by (simp add: row_kept_def)
  then show ?thesis using a(1) by blast
qed (use assms(2) in \<open>auto intro!: bexI [of _ b]\<close>)

lemma next_app_step: "los_step sha hatch db db' \<Longrightarrow> next_app db \<le> next_app db'"
  by (erule los_step.cases) (simp_all add: insert_application_def snd_capture_debt fund_def)

lemma row_of_id:
  "distinct (map la_id xs) \<Longrightarrow> a \<in> set xs \<Longrightarrow> b \<in> set xs \<Longrightarrow> la_id a = la_id b \<Longrightarrow> a = b"
  by (metis distinct_map inj_onD)

text \<open>A row that was there determines every later row of its id.\<close>

lemma rows_path:
  assumes "los_path sha hatch db db'" "apps_ok db" "\<forall>b \<in> set (los_apps db). la_id b = i \<longrightarrow> row_kept a b" "i < next_app db"
  shows "apps_ok db' \<and> i < next_app db' \<and> (\<forall>b \<in> set (los_apps db'). la_id b = i \<longrightarrow> row_kept a b)"
  using assms(1)
proof (induction rule: rtranclp_induct)
  case base
  then show ?case using assms by simp
next
  case (step y z)
  have "row_kept a c" if c: "c \<in> set (los_apps z)" "la_id c = i" for c
  proof -
    have "\<not> la_id c = next_app y" using step.IH c(2) by simp
    then obtain b where b: "b \<in> set (los_apps y)" "row_kept b c" using apps_step [OF step.hyps(2) c(1)] by blast
    then have "la_id b = i" using c(2) by (simp add: row_kept_def)
    then show ?thesis using step.IH b row_kept_trans by blast
  qed
  then show ?case using apps_ok_step [OF step.hyps(2)] next_app_step [OF step.hyps(2)] step.IH by fastforce
qed

lemma app_by_idD: "app_by_id db i = Some a \<Longrightarrow> a \<in> set (los_apps db) \<and> la_id a = i"
  by (auto simp: app_by_id_def find_Some_iff)

lemma app_by_id_row: "apps_ok db \<Longrightarrow> a \<in> set (los_apps db) \<Longrightarrow> la_id a = i \<Longrightarrow> app_by_id db i = Some a"
proof -
  assume ok: "apps_ok db" and a: "a \<in> set (los_apps db)" "la_id a = i"
  obtain b where b: "app_by_id db i = Some b"
    using a by (cases "app_by_id db i") (auto simp: app_by_id_def find_None_iff)
  then have "b = a" using app_by_idD [OF b] a row_of_id ok unfolding apps_ok_def by metis
  then show "app_by_id db i = Some a" using b by simp
qed

lemma app_path:
  assumes "los_path sha hatch db db'" "apps_ok db" "app_by_id db i = Some a" "app_by_id db' i = Some b"
  shows "row_kept a b"
proof -
  have a: "a \<in> set (los_apps db)" "la_id a = i" using app_by_idD [OF assms(3)] by simp_all
  have "\<forall>b \<in> set (los_apps db). la_id b = i \<longrightarrow> row_kept a b"
    using assms(2) a row_of_id unfolding apps_ok_def by fastforce
  moreover have "i < next_app db" using assms(2) a by (auto simp: apps_ok_def)
  ultimately show ?thesis using rows_path [OF assms(1,2)] app_by_idD [OF assms(4)] by blast
qed

lemma apps_ok_path: "los_path sha hatch db db' \<Longrightarrow> apps_ok db \<Longrightarrow> apps_ok db'"
  by (induction rule: rtranclp_induct) (auto intro: apps_ok_step)

lemma loans_ok_path: "los_path sha hatch db db' \<Longrightarrow> loans_ok db \<Longrightarrow> loans_ok db'"
  by (induction rule: rtranclp_induct) (auto intro: loans_ok_step)

lemma loan_of_app:
  assumes "loans_ok db" "l \<in> set (los_loans db)" "l' \<in> set (los_loans db)" "l_app_id l = Some i" "l_app_id l' = Some i"
  shows "l = l'"
  using assms unfolding loans_ok_def pairwise_def by (metis option.distinct(1))

lemma balances_step: "los_step sha hatch db db' \<Longrightarrow> dom (los_balances db) \<subseteq> dom (los_balances db')"
  by (erule los_step.cases)
    (auto simp: insert_application_def insert_check_def audit_def snd_capture_debt set_app_def
      delete_application_def insert_loan_def fund_def Let_def)

lemma balances_path: "los_path sha hatch db db' \<Longrightarrow> dom (los_balances db) \<subseteq> dom (los_balances db')"
  by (induction rule: rtranclp_induct) (simp_all add: subset_trans [OF _ balances_step])

section \<open>What an accepted offer leaves\<close>

definition loan_present :: "los_db \<Rightarrow> int \<Rightarrow> int \<Rightarrow> bool" where
  "loan_present db i app \<longleftrightarrow> (\<exists>l \<in> set (los_loans db). l_id l = i \<and> l_app_id l = Some app)"

lemma loan_present_path: "los_path sha hatch db db' \<Longrightarrow> loan_present db i app \<Longrightarrow> loan_present db' i app"
  unfolding loan_present_def using loans_path by blast

lemma first_loan_present: "first_loan db app = Some l \<Longrightarrow> loan_present db (l_id l) app"
  unfolding loan_present_def using first_loanD by blast

lemma inserted_loan_present:
  assumes "insert_loan l db = (Some i, db')" "l_app_id l = Some app"
  shows "loan_present db' i app"
proof (cases rule: insert_loan_cases [of l db])
  case boarded
  then have "l\<lparr>l_id := next_loan db, l_opened_at := now db\<rparr> \<in> set (los_loans db')" "i = next_loan db"
    using assms(1) by simp_all
  then show ?thesis unfolding loan_present_def using assms(2)
    by (intro bexI [of _ "l\<lparr>l_id := next_loan db, l_opened_at := now db\<rparr>"]) simp_all
qed (use assms in simp)

lemma board_fresh_Inr:
  assumes w: "los_sessions_ok sha hatch w" and e: "board_fresh w app r apr db = (Inr i, db')"
  shows "\<exists>m prin. db' = snd (reconcile_accept w app i prin m) \<and> loan_present m i app"
proof -
  obtain nr where g: "boarding_guards r apr = Inr nr" using e by (cases "boarding_guards r apr") (auto simp: board_fresh_def)
  define l where "l = new_loan app (if present (br_name r) then the (br_name r) else ''Borrower'')
      (br_amount r) apr (br_term_months r) (Some nr)"
  obtain j db1 where ins: "insert_loan l (w 4 db) = (j, db1)" by (cases "insert_loan l (w 4 db)")
  show ?thesis
  proof (cases j)
    case None
    have "\<exists>x. first_loan (w 5 db1) app = Some x \<and> reconcile_accept w app (l_id x) (l_principal x) (w 5 db1) = (Inr i, db')"
      using e g ins None
      by (auto simp: board_fresh_def board_to_servicing_def Let_def raise_http_def simp flip: l_def split: option.splits)
    then obtain x where x: "first_loan (w 5 db1) app = Some x"
      "reconcile_accept w app (l_id x) (l_principal x) (w 5 db1) = (Inr i, db')" by blast
    then have "l_id x = i" by (simp add: reconcile_accept_def)
    then show ?thesis using first_loan_present [OF x(1)] x(2)
      by (intro exI [of _ "w 5 db1"] exI [of _ "l_principal x"]) simp
  next
    case (Some k)
    define m where "m = insert_balance k (l_principal l) (w (Suc 4) db1)"
    have r: "reconcile_accept w app k (br_amount r) m = (Inr i, db')"
      using e g ins Some by (simp add: board_fresh_def board_to_servicing_def m_def flip: l_def)
    then have k: "k = i" by (simp add: reconcile_accept_def)
    have "loan_present db1 k app" using inserted_loan_present ins Some by (simp add: l_def new_loan_def)
    moreover have "los_path sha hatch db1 m" unfolding m_def by (rule balance_path [OF los_sessionsD [OF w]])
    ultimately have "loan_present m i app" using loan_present_path k by blast
    then show ?thesis using r k by (intro exI [of _ m] exI [of _ "br_amount r"]) simp
  qed
qed

lemma reconciled:
  assumes w: "los_sessions_ok sha hatch w" and l: "loan_present m i app"
    and e: "db' = snd (reconcile_accept w app i prin m)"
  shows "loan_present db' i app" "los_balances db' i \<noteq> None"
    "\<forall>a \<in> set (los_apps db'). la_id a = app \<longrightarrow> la_status a = ''funded'' \<and> la_token_expires a = None"
proof -
  let ?b = "insert_balance i prin (w 6 m)"
  have d: "db' = fund app (w 7 ?b)" using e by (simp add: reconcile_accept_def)
  have p: "los_path sha hatch m (w 6 m)" "los_path sha hatch m (w 7 ?b)" "los_path sha hatch ?b (w 7 ?b)"
    by (intro los_others [OF w] balance_path rtranclp.rtrancl_refl)+
  show "loan_present db' i app"
    using loan_present_path [OF p(2) l] by (simp add: d fund_def loan_present_def)
  have "i \<in> dom (los_balances ?b)" by (auto simp: insert_balance_def)
  then have "i \<in> dom (los_balances (w 7 ?b))" using balances_path [OF p(3)] by blast
  then show "los_balances db' i \<noteq> None" by (auto simp: d fund_def set_app_def)
  show "\<forall>a \<in> set (los_apps db'). la_id a = app \<longrightarrow> la_status a = ''funded'' \<and> la_token_expires a = None"
    unfolding d fund_def by (auto dest!: apps_of_set split: if_splits)
qed

lemma offered_path:
  assumes "los_path sha hatch db db'" "\<exists>x \<in> set (offers (shared db)). o_app_id x = Some i"
  shows "\<exists>x \<in> set (offers (shared db')). o_app_id x = Some i"
  using assms(1)
proof (induction rule: rtranclp_induct)
  case (step y z)
  show ?case using step.hyps(2)
  proof (cases rule: los_step.cases)
    case (ls_shared d)
    obtain x where "x \<in> set (offers (shared y))" "o_app_id x = Some i" using step.IH by blast
    then show ?thesis using offers_kept [OF ls_shared(2), of x] ls_shared(1) by (simp add: disc_view_def) metis
  qed (use step.IH in \<open>simp_all add: snd_capture_debt fund_def\<close>)
qed (rule assms(2))

lemma authorized_Inr:
  assumes w: "los_sessions_ok sha hatch w" and sh: "shared_ok sha (shared db)"
    and e: "accept_authorized w app db = (Inr i, db')"
  shows "\<exists>m prin. db' = snd (reconcile_accept w app i prin m) \<and> loan_present m i app \<and>
    (\<exists>x \<in> set (offers (shared db')). o_app_id x = Some app)"
proof -
  let ?m = "w 2 (w 1 db)"
  have p2: "los_path sha hatch db ?m" by (intro los_others [OF w] rtranclp.rtrancl_refl)
  have p3: "los_path sha hatch ?m (w 3 ?m)" using w by (rule los_sessionsD)
  obtain r apr where r: "boarding_query ?m app = Some r" "br_apr r = Some apr"
    and c: "(case first_loan (w 3 ?m) app of Some l \<Rightarrow> reconcile_accept w app (l_id l) (l_principal l) (w 3 ?m)
             | None \<Rightarrow> board_fresh w app r apr (w 3 ?m)) = (Inr i, db')"
    using e by (auto simp: accept_authorized_def Let_def raise_http_def split: sum.splits option.splits if_splits)
  obtain x where "newest_offer (shared ?m) app = Some x"
    using r by (auto simp: boarding_query_def Let_def bind_option_def split: option.splits)
  then have offered: "\<exists>x \<in> set (offers (shared ?m)). o_app_id x = Some app" using newest_offerD by blast
  show ?thesis
  proof (cases "first_loan (w 3 ?m) app")
    case None
    then have f: "board_fresh w app r apr (w 3 ?m) = (Inr i, db')" using c by simp
    then have "los_path sha hatch ?m db'"
      using accept_read_path [OF w shared_ok_path [OF p2 sh] r] by simp
    then show ?thesis using board_fresh_Inr [OF w f] offered_path offered by blast
  next
    case (Some l)
    then have f: "reconcile_accept w app (l_id l) (l_principal l) (w 3 ?m) = (Inr i, db')" using c by simp
    then have "l_id l = i" by (simp add: reconcile_accept_def)
    moreover have "los_path sha hatch ?m db'"
      using reconcile_path [OF w p3, of app "l_id l" "l_principal l"] f Some by simp
    ultimately show ?thesis using offered_path offered first_loan_present [OF Some] f
      by (intro exI [of _ "w 3 ?m"] exI [of _ "l_principal l"]) (metis snd_conv)
  qed
qed

lemma replay_Some:
  assumes "terminal_accept_replay hmac cfg db app tok = Some i"
  shows "loan_present db i app" "\<exists>a \<in> set (los_apps db). la_id a = app \<and> la_status a = ''funded''"
  using assms first_loan_present
  by (auto simp: terminal_accept_replay_def find_Some_iff split: option.splits if_splits)

lemma accept_Inr:
  assumes w: "los_sessions_ok sha hatch w" and sh: "shared_ok sha (shared db)"
    and e: "accept_offer hmac cfg t w app role uid tok db = (Inr i, db')"
  obtains (replayed) "require_officer_or_owner hmac cfg t (w 0 db) app role uid tok \<noteq> Inr ()"
      "db' = w 1 (w 0 db)" "terminal_accept_replay hmac cfg db' app tok = Some i"
    | (funded) m prin where "db' = snd (reconcile_accept w app i prin m)" "loan_present m i app"
      "\<exists>x \<in> set (offers (shared db')). o_app_id x = Some app"
      "require_officer_or_owner hmac cfg t (w 0 db) app role uid tok = Inr ()"
proof (cases "require_officer_or_owner hmac cfg t (w 0 db) app role uid tok")
  case (Inl x)
  then show ?thesis using e replayed by (auto simp: accept_offer_def Let_def split: option.splits)
next
  case (Inr x)
  have "shared_ok sha (shared (w 0 db))" using shared_ok_path [OF los_sessionsD [OF w] sh] .
  moreover have "accept_authorized w app (w 0 db) = (Inr i, db')" using e Inr by (simp add: accept_offer_def)
  ultimately obtain m prin where "db' = snd (reconcile_accept w app i prin m)" "loan_present m i app"
      "\<exists>x \<in> set (offers (shared db')). o_app_id x = Some app"
    using authorized_Inr [OF w] by blast
  then show ?thesis using funded Inr by simp
qed

lemma accepted_loan:
  assumes "los_sessions_ok sha hatch w" "shared_ok sha (shared db)"
    and "accept_offer hmac cfg t w app role uid tok db = (Inr i, db')"
  shows "loan_present db' i app"
  using assms
proof (cases rule: accept_Inr)
  case replayed
  then show ?thesis using replay_Some(1) by simp
next
  case (funded m prin)
  then show ?thesis using reconciled(1) [OF assms(1)] by blast
qed

section \<open>Properties\<close>

definition sample_app :: app_row where
  "sample_app = \<lparr>la_id = 10, la_applicant_id = Some 100, la_amount = 8000, la_term_months = 48, la_purpose = None,
     la_income = Some 60000, la_monthly_debt = None, la_employer = None, la_job_title = None,
     la_employment_years = None, la_status = ''submitted'', la_token = Some ''k:secretraw'',
     la_token_expires = Some 1000, la_submitted_by = None\<rparr>"

definition sample_los :: "disclosure_row list \<Rightarrow> loan_row list \<Rightarrow> los_db" where
  "sample_los rows loans =
     \<lparr>los_users = [], los_applicants = [\<lparr>apl_id = 100, apl_name = ''Ada'', apl_dob = Some ''1990-01-01'',
        apl_ssn = None, apl_ssn_last4 = Some ''1234'', apl_ein = None, apl_is_entity = False,
        apl_email = None, apl_phone = None, apl_address = Some ''1 Main''\<rparr>],
      los_apps = [sample_app],
      kyc_checks = [\<lparr>kc_id = 1, kc_applicant_id = Some 100, kc_name = True, kc_dob = True, kc_address = True,
        kc_ssn = True\<rparr>],
      los_decisions = [10 \<mapsto> ''approve''],
      shared = (sample_db rows)\<lparr>offers := map (\<lambda>x. x\<lparr>o_apr := Some 100\<rparr>) (offers (sample_db rows))\<rparr>,
      los_loans = loans, los_balances = Map.empty, audit_log = [], next_applicant = 101, next_app = 11,
      next_check = 2, next_loan = 1\<rparr>"

abbreviation sample_delivered :: disclosure_row where
  "sample_delivered \<equiv> sample_row ''delivered'' (Some (Stored (sample_document ''Ready''))) (Some 4)"

abbreviation los_alone :: "nat \<Rightarrow> los_db \<Rightarrow> los_db" where
  "los_alone \<equiv> \<lambda>_ d. d"

abbreviation toy_hmac :: "string \<Rightarrow> string \<Rightarrow> string" where
  "toy_hmac \<equiv> \<lambda>k m. k @ m"

definition sample_keys :: token_config where
  "sample_keys = \<lparr>token_keys_text = ''k:secret'', token_environment = ''production'', service_token = ''s'',
     token_ttl_days = 30\<rparr>"

lemma sample_los_ok: "los_ok sample_sha False (sample_los [sample_delivered] [])"
proof -
  have "prose_ok 120 ''Ready''" by code_simp
  then have "tables_typed sample_sha (sample_db [sample_delivered])"
    by (intro sample_typed) (auto simp: statuses_def)
  then have "shared_ok sample_sha (shared (sample_los [sample_delivered] []))"
    by (simp add: shared_ok_def tables_typed_def delivered_past_def sample_los_def sample_db_def sample_row_def)
  then show ?thesis
    by (simp add: los_ok_def apps_ok_def loans_ok_def funded_ok_def references_ok_def boarded_ok_def
        sample_los_def sample_db_def sample_app_def)
qed

lemma sample_note_rate: "note_rate_for_boarding (Some (d_snapshot sample_delivered)) 100 = Inr (fl (799 / 100))"
proof -
  have "plain_decimal (dec_str (799, -2)) = Some (799 / 100)" by code_simp
  moreover have "fl (799 / 100) \<le> 100" using fl_mono [of "799 / 100" "of_int 100"] fl_exact_int [of 100] by simp
  ultimately show ?thesis by (simp add: note_rate_for_boarding_def bind_option_def sample_row_def)
qed

lemma sample_query:
  "\<exists>r. boarding_query (sample_los [sample_delivered] []) 10 = Some r \<and> br_apr r = Some 100 \<and>
     br_outcome r = Some ''approve'' \<and> boarding_guards r 100 = Inr (fl (799 / 100))"
proof -
  have lo: "lower ''approve'' = ''approve''" by code_simp
  obtain r where r: "boarding_query (sample_los [sample_delivered] []) 10 = Some r" "br_apr r = Some 100"
    "br_outcome r = Some ''approve''" "br_status r = Some ''delivered''" "br_delivered_at r = Some 4" "br_has_document r"
    "br_snapshot r = Some (d_snapshot sample_delivered)" "br_offer_edge r = Some 3" "br_record_edge r = Some 3"
    "br_record_outcome r = Some ''approve''"
    by (simp add: boarding_query_def Let_def bind_option_def sample_los_def sample_db_def app_by_id_def
        sample_app_def newest_offer_def disclosure_by_offer_def event_by_id_def sample_row_def)
  have "boarding_guards r 100 = Inr (fl (799 / 100))"
    by (simp add: boarding_guards_def r(4-10) approved_outcome_def lo sample_note_rate)
  then show ?thesis using r(1-3) by blast
qed

lemma sample_accept:
  "\<exists>db' l. accept_offer toy_hmac sample_keys 0 los_alone 10 (Some ''admin'') None None
     (sample_los [sample_delivered] []) = (Inr 1, db') \<and> l \<in> set (los_loans db')"
proof -
  let ?db = "sample_los [sample_delivered] []"
  have gate: "require_officer_or_owner toy_hmac sample_keys 0 ?db 10 (Some ''admin'') None None = Inr ()"
    by code_simp
  have kyc: "require_kyc_passed ?db 10 = Inr ()" by code_simp
  obtain r where r: "boarding_query ?db 10 = Some r" "br_apr r = Some 100" "br_outcome r = Some ''approve''"
    "boarding_guards r 100 = Inr (fl (799 / 100))" using sample_query by blast
  have none: "first_loan ?db 10 = None" by (simp add: first_loan_def sample_los_def)
  have app: "approved_outcome (Some ''approve'')" by code_simp
  define l where "l = new_loan 10 (if present (br_name r) then the (br_name r) else ''Borrower'')
                 (br_amount r) 100 (br_term_months r) (Some (fl (799 / 100)))"
  obtain db1 where ins: "insert_loan l ?db = (Some 1, db1)" "los_loans db1 = [l\<lparr>l_id := 1, l_opened_at := now ?db\<rparr>]"
    by (simp add: insert_loan_def Let_def sample_los_def now_def)
  have "accept_offer toy_hmac sample_keys 0 los_alone 10 (Some ''admin'') None None ?db
      = reconcile_accept los_alone 10 1 (br_amount r) (insert_balance 1 (l_principal l) db1)"
    by (simp add: accept_offer_def accept_authorized_def board_fresh_def board_to_servicing_def gate kyc r none app
        ins(1) flip: l_def)
  then show ?thesis using ins(2) by (simp add: reconcile_accept_def fund_def set_app_def insert_balance_def)
qed

text \<open>C19. No loan is boarded before its disclosure. As long as the operations hatch is not used,
  accepting an offer, with any other sessions between its statements, keeps the tables sound, and
  every loan then has a delivered disclosure of an offer of its application, delivered no later
  than the loan was opened, with a recorded document and the very rates the loan is boarded at.\<close>

theorem no_loan_before_disclosure:
  assumes "los_sessions_ok sha False w" "los_ok sha False db"
    and "accept_offer hmac cfg t w app role uid tok db = (out, db')"
  shows "los_ok sha False db' \<and> (\<forall>l \<in> set (los_loans db'). disclosed_in_time (shared db') l)"
proof -
  have "los_path sha False db db'"
    using accept_path [OF assms(1), of db hmac cfg t app role uid tok] assms(2,3) by (simp add: los_ok_def)
  then have "los_ok sha False db'" using assms(2) by (rule los_ok_path)
  then show ?thesis by (simp add: los_ok_def boarded_ok_def)
qed

theorem no_loan_before_disclosure_witness:
  "\<exists>db' l. accept_offer toy_hmac sample_keys 0 los_alone 10 (Some ''admin'') None None
     (sample_los [sample_delivered] []) = (Inr 1, db') \<and> l \<in> set (los_loans db') \<and> disclosed_in_time (shared db') l"
proof -
  obtain db' l where a: "accept_offer toy_hmac sample_keys 0 los_alone 10 (Some ''admin'') None None
      (sample_los [sample_delivered] []) = (Inr 1, db')" "l \<in> set (los_loans db')"
    using sample_accept by blast
  then show ?thesis using no_loan_before_disclosure [OF los_sessions_idle sample_los_ok a(1)] a by blast
qed

definition sample_loan :: loan_row where
  "sample_loan = \<lparr>l_id = 0, l_app_id = Some 10, l_applicant_name = ''Ada'', l_principal = 8000, l_apr = 100,
     l_note_rate = 100, l_term_months = 48, l_opened_at = 5\<rparr>"

abbreviation sample_boarded :: los_db where
  "sample_boarded \<equiv> sample_los [] [sample_loan]"

abbreviation sample_accepts :: "los_db \<Rightarrow> int response \<times> los_db" where
  "sample_accepts \<equiv> accept_offer toy_hmac sample_keys 0 los_alone 10 (Some ''admin'') None None"

lemma sample_boarded_ok: "los_ok sample_sha True sample_boarded"
  by (simp add: los_ok_def shared_ok_def tables_typed_def delivered_past_def apps_ok_def loans_ok_def funded_ok_def
      references_ok_def boarded_ok_def sample_los_def sample_loan_def sample_db_def sample_app_def)

lemma sample_accepts:
  "fst (sample_accepts sample_boarded) = Inr 0" "fst (sample_accepts (snd (sample_accepts sample_boarded))) = Inr 0"
  by code_simp+

lemma los_ok_shared: "los_ok sha hatch db \<Longrightarrow> shared_ok sha (shared db)"
  by (simp add: los_ok_def)

lemma accept_result_path:
  assumes "los_sessions_ok sha hatch w" "los_ok sha hatch db"
    and "accept_offer hmac cfg t w app role uid tok db = (out, db')"
  shows "los_path sha hatch db db'" "los_ok sha hatch db'"
proof -
  show p: "los_path sha hatch db db'"
    using accept_path [OF assms(1) los_ok_shared [OF assms(2)], of hmac cfg t app role uid tok] assms(3) by simp
  show "los_ok sha hatch db'" by (rule los_ok_path [OF p assms(2)])
qed

text \<open>C20. One loan per application. When an offer was accepted, then after any steps of any session,
  every later accept of that application that succeeds, by anyone, answers with the same loan,
  and the application has no other.\<close>

theorem one_loan_per_application:
  assumes "los_sessions_ok sha hatch w" "los_sessions_ok sha hatch w'" "los_ok sha hatch db"
    and "accept_offer hmac cfg t w app role uid tok db = (Inr i, db1)"
    and "los_path sha hatch db1 db2"
    and "accept_offer hmac' cfg' t' w' app role' uid' tok' db2 = (Inr j, db3)"
  shows "j = i \<and> (\<exists>l. l_id l = i \<and> {x \<in> set (los_loans db3). l_app_id x = Some app} = {l})"
proof -
  note a = accept_result_path [OF assms(1,3,4)]
  have ok2: "los_ok sha hatch db2" by (rule los_ok_path [OF assms(5) a(2)])
  note b = accept_result_path [OF assms(2) ok2 assms(6)]
  have "loan_present db1 i app" by (rule accepted_loan [OF assms(1) los_ok_shared [OF assms(3)] assms(4)])
  then have "loan_present db3 i app" using loan_present_path assms(5) b(1) by blast
  moreover have "loan_present db3 j app" by (rule accepted_loan [OF assms(2) los_ok_shared [OF ok2] assms(6)])
  moreover have "loans_ok db3" using b(2) by (simp add: los_ok_def)
  ultimately obtain l l' where l: "l \<in> set (los_loans db3)" "l_app_id l = Some app" "l_id l = i"
    and l': "l' \<in> set (los_loans db3)" "l_app_id l' = Some app" "l_id l' = j" and ok: "loans_ok db3"
    unfolding loan_present_def by blast
  have "x = l" if "x \<in> set (los_loans db3)" "l_app_id x = Some app" for x
    by (rule loan_of_app [OF ok that(1) l(1) that(2) l(2)])
  then show ?thesis using l l' by (intro conjI exI [of _ l]) auto
qed

theorem one_loan_per_application_witness:
  "\<exists>db3. sample_accepts (snd (sample_accepts sample_boarded)) = (Inr 0, db3) \<and>
     (\<exists>l. {x \<in> set (los_loans db3). l_app_id x = Some 10} = {l})"
proof -
  obtain db1 where a: "sample_accepts sample_boarded = (Inr 0, db1)" using sample_accepts(1) by (metis prod.collapse)
  obtain db3 where b: "sample_accepts db1 = (Inr 0, db3)" using sample_accepts(2) a by (metis prod.collapse snd_conv)
  show ?thesis using one_loan_per_application [OF los_sessions_idle los_sessions_idle sample_boarded_ok a
        rtranclp.rtrancl_refl b] a b by auto
qed

text \<open>An accepted offer is funded. A successful accept leaves the loan of the application on the
  books and the application funded with no live token; unless the answer came from the replay of
  a retired token, the loan has its balance too. This holds for every accept, so one that finds
  a half-boarded loan repairs it.\<close>

theorem accepted_offer_is_funded:
  assumes "los_sessions_ok sha hatch w" "los_ok sha hatch db"
    and "accept_offer hmac cfg t w app role uid tok db = (Inr i, db')"
  shows "(\<exists>l \<in> set (los_loans db'). l_id l = i \<and> l_app_id l = Some app) \<and>
    (\<exists>a. app_by_id db' app = Some a \<and> la_status a = ''funded'' \<and> la_token_expires a = None) \<and>
    (require_officer_or_owner hmac cfg t (w 0 db) app role uid tok = Inr () \<longrightarrow> los_balances db' i \<noteq> None)"
proof -
  note p = accept_result_path [OF assms]
  have apps: "apps_ok db'" "funded_ok db'" "references_ok db'" using p(2) by (simp_all add: los_ok_def)
  note found = app_by_id_row [OF apps(1)]
  have loan: "\<exists>l \<in> set (los_loans db'). l_id l = i \<and> l_app_id l = Some app"
    using accepted_loan [OF assms(1) los_ok_shared [OF assms(2)] assms(3)] by (simp add: loan_present_def)
  show ?thesis
  proof (cases rule: accept_Inr [OF assms(1) los_ok_shared [OF assms(2)] assms(3)])
    case 1
    then obtain a where "a \<in> set (los_apps db')" "la_id a = app" "la_status a = ''funded''"
      using replay_Some(2) by blast
    then show ?thesis using loan found apps(2) 1(1)
      by (simp add: funded_ok_def)
  next
    case (2 m prin)
    note r = reconciled [OF assms(1) 2(2,1)]
    obtain a where a: "a \<in> set (los_apps db')" "la_id a = app" using 2(3) apps(3) by (fastforce simp: references_ok_def)
    then show ?thesis using loan r(2,3) found [OF a]
      by blast
  qed
qed


theorem accepted_offer_is_funded_witness:
  "\<exists>db'. sample_accepts sample_boarded = (Inr 0, db') \<and> los_balances db' 0 \<noteq> None"
proof -
  obtain db' where a: "sample_accepts sample_boarded = (Inr 0, db')" using sample_accepts(1) by (metis prod.collapse)
  have "require_officer_or_owner toy_hmac sample_keys 0 sample_boarded 10 (Some ''admin'') None None = Inr ()"
    by code_simp
  then show ?thesis using accepted_offer_is_funded [OF los_sessions_idle sample_boarded_ok a] a by blast
qed

end
