(* ===== verification/LosRouteProps.thy ===== *)
theory LosRouteProps
  imports LosRoutes LosProps
begin

text \<open>
  What the composed routes of origination promise: a decision answered to the caller passed every
  gate and is in the log, an offer is priced from the stored application under its newest
  decision, and the pages of the queue partition it.
\<close>

section \<open>Decisions\<close>

lemma deny_self_iff:
  "deny_self_decision db app role uid = Inr () \<longleftrightarrow>
     \<not> (orig_is_officer role \<and> (\<exists>u a. orig_as_int uid = Some u \<and> app_by_id db app = Some a \<and>
        (applicant_of_user db u \<noteq> None \<and> la_applicant_id a = applicant_of_user db u \<or> la_submitted_by a = Some u)))"
  by (auto simp: deny_self_decision_def split: option.splits)

lemma kyc_gate_iff: "require_kyc_passed db app = Inr () \<longleftrightarrow> kyc_passed db app"
  by (simp add: require_kyc_passed_def)

definition shown_of :: "principal_reason \<Rightarrow> shown_reason" where
  "shown_of r = \<lparr>shown_code = Some (reason_code r), shown_text = Some (reason_text r),
     shown_feature = Some (reason_feature r)\<rparr>"

text \<open>Reasons survive the wire: only those without a text are dropped.\<close>

lemma normalize_reasons:
  "normalize_principal_reasons (Some (VList (map reason_json rs))) =
   map shown_of (filter (\<lambda>r. reason_text r \<noteq> '''') rs)"
  by (induction rs)
    (simp_all add: normalize_principal_reasons_def reason_json_def shown_of_def present_def)

lemma decided_of_json:
  "decided_of app (decision_json d) = Some
     \<lparr>dd_app_id = app, dd_decision = do_outcome d, dd_score = Some (round_half_even (do_score d)),
      dd_adverse_action_reason = do_reason d,
      dd_principal_reasons = map shown_of (filter (\<lambda>r. reason_text r \<noteq> '''') (do_principal_reasons d))\<rparr>"
  by (simp add: decided_of_def decision_json_def opt_json_def normalize_reasons bind_option_def split: option.split)

lemma gates_Inr:
  assumes "decision_gates hmac cfg t w app key role uid tok db = (Inr p, db')"
  shows "require_officer_or_owner hmac cfg t (w 0 db) app role uid tok = Inr ()"
    "deny_self_decision (w 1 (w 0 db)) app role uid = Inr ()" "kyc_passed (w 2 (w 1 (w 0 db))) app"
    "\<forall>s. key = Some s \<longrightarrow> length s \<le> 64" "db' = w 3 (w 2 (w 1 (w 0 db)))"
    "\<exists>q. decision_request_payload db' app = Inr (Some q) \<and>
       p = (if present key then q\<lparr>dp_request_id := key\<rparr> else q)"
  using assms
  by (auto simp: decision_gates_def Let_def raise_http_def bind_result_Inr_iff kyc_gate_iff key_ok_def
      split: sum.splits if_splits option.splits)

lemma payload_Some:
  assumes "decision_request_payload db app = Inr (Some q)"
  obtains a debt where "app_by_id db app = Some a" "la_monthly_debt a = Some debt" "dp_application_id q = app"
    "dp_requested_amount q = la_amount a" "dp_term_months q = la_term_months a" "dp_monthly_debt q = debt"
    "dp_annual_income q = or_zero (la_income a)" "dp_request_id q = None"
  using assms by (auto simp: decision_request_payload_def raise_http_def Let_def split: option.splits)

lemma decision_service_Answer:
  assumes "decision_service hmac cfg bureau token v elog p db = (Answer resp, db')"
  shows "\<exists>d d' e. resp = decision_json d \<and> db' = write_log d' db \<and> e \<in> set (dec_events d') \<and>
    ev_app_id e = dp_application_id p \<and> ev_request_id e = (if present (dp_request_id p) then dp_request_id p else None) \<and>
    (\<not> present (dp_request_id p) \<longrightarrow> e = last (dec_events d')) \<and>
    (\<exists>b. di_application_id b = dp_application_id p \<and> decision_out_of b (result_from_event e) = Inr d)"
proof -
  obtain b d d' where b: "decision_in_of p = Some b" "resp = decision_json d" "db' = write_log d' db"
    and r: "post_decision hmac cfg bureau token v b (if token = '''' then None else Some token) (elog db) = (Inr d, d')"
    using assms by (auto simp: decision_service_def split: option.splits prod.splits sum.splits)
  obtain x where x: "decide hmac cfg bureau v (application_from b) (elog db) = (Inr x, d')" "decision_out_of b x = Inr d"
    using post_decision_Inr [OF r] by blast
  then obtain e where e: "e \<in> set (dec_events d')" "ev_app_id e = ap_app_id (application_from b)" "x = result_from_event e"
    "ev_request_id e = key_of (application_from b)" "key_of (application_from b) = None \<longrightarrow> e = last (dec_events d')"
    using decide_event by blast
  have b': "di_application_id b = dp_application_id p" "di_request_id b = dp_request_id p"
    using b(1) by (auto simp: decision_in_of_def split: option.splits)
  then have "key_of (application_from b) = (if present (dp_request_id p) then dp_request_id p else None)"
    by (auto simp: key_of_def application_from_def present_def)
  then show ?thesis using b e x(2) b'
    by (intro exI [of _ d] exI [of _ d'] exI [of _ e]) (auto simp: application_from_def)
qed

text \<open>The answer that shows an event: every field is the event's.\<close>

definition shown_decision :: "int \<Rightarrow> dec_event \<Rightarrow> decided" where
  "shown_decision app e =
     \<lparr>dd_app_id = app, dd_decision = ev_outcome e,
      dd_score = map_option (\<lambda>d. round_half_even (fl (of_int (dr_model_score d)))) (ev_drivers e),
      dd_adverse_action_reason = (case ev_reasons e of [] \<Rightarrow> None | r # rs \<Rightarrow> Some (reason_text r)),
      dd_principal_reasons = map shown_of (filter (\<lambda>r. reason_text r \<noteq> '''') (ev_reasons e))\<rparr>"

lemma decided_shows_event:
  assumes "decision_out_of b (result_from_event e) = Inr d"
  shows "decided_of app (decision_json d) = Some (shown_decision app e) \<and> ev_drivers e \<noteq> None"
proof (cases "ev_drivers e")
  case None
  then show ?thesis using assms by (simp add: decision_out_of_def result_from_event_def internal_error_def)
next
  case (Some dr)
  then show ?thesis using assms
    by (auto simp: decided_of_json decision_out_of_def result_from_event_def shown_decision_def)
qed

text \<open>C23. A decision reaches the caller only through every gate, and is on record. When origination answers
  with a decision of decision-service, whatever runs in between, the caller was an officer, the
  owner or the holder of the token, was not an officer deciding an application of their own, the
  identity check had passed, an idempotency key was at most 64 characters and the monthly debt was
  recorded; and the log holds an event of that application, under the caller's key, or the last of the
  log for a call without one, of which every field of the answer is the projection: outcome, score, first
  reason, and the reasons apart from those without a text.\<close>

theorem decided_application_is_gated_and_recorded:
  assumes "orig_run_decision hmac cfg t (decision_service hmac' dcfg bureau token v elog) w app key role uid tok db
      = (Inr out, db')"
  shows "require_officer_or_owner hmac cfg t (w 0 db) app role uid tok = Inr () \<and>
    \<not> (orig_is_officer role \<and> (\<exists>u a. orig_as_int uid = Some u \<and> app_by_id (w 1 (w 0 db)) app = Some a \<and>
        (applicant_of_user (w 1 (w 0 db)) u \<noteq> None \<and> la_applicant_id a = applicant_of_user (w 1 (w 0 db)) u \<or>
         la_submitted_by a = Some u))) \<and>
    kyc_passed (w 2 (w 1 (w 0 db))) app \<and>
    (\<forall>s. key = Some s \<longrightarrow> length s \<le> 64) \<and>
    (\<exists>a. app_by_id (w 3 (w 2 (w 1 (w 0 db)))) app = Some a \<and> la_monthly_debt a \<noteq> None) \<and>
    (\<exists>d' e. db' = write_log d' (w 4 (w 3 (w 2 (w 1 (w 0 db))))) \<and> e \<in> set (dec_events d') \<and> ev_app_id e = app \<and>
       ev_request_id e = (if present key then key else None) \<and> (\<not> present key \<longrightarrow> e = last (dec_events d')) \<and>
       ev_drivers e \<noteq> None \<and> out = shown_decision app e)"
proof -
  obtain p db3 where g: "decision_gates hmac cfg t w app key role uid tok db = (Inr p, db3)"
    using assms by (auto simp: orig_run_decision_def split: prod.splits sum.splits)
  note gates = gates_Inr [OF g]
  obtain resp where s: "decision_service hmac' dcfg bureau token v elog p (w 4 db3) = (Answer resp, db')"
    "decided_of app resp = Some out"
    using assms g by (auto simp: orig_run_decision_def raise_http_def internal_error_def
        split: prod.splits client_result.splits option.splits if_splits)
  obtain q where q: "decision_request_payload db3 app = Inr (Some q)"
    "p = (if present key then q\<lparr>dp_request_id := key\<rparr> else q)" using gates(6) by blast
  from q(1) obtain a debt where a: "app_by_id db3 app = Some a" "la_monthly_debt a = Some debt" "dp_application_id q = app"
    "dp_request_id q = None" by (rule payload_Some)
  have p: "dp_application_id p = app" "present (dp_request_id p) = present key" "present key \<Longrightarrow> dp_request_id p = key"
    using q(2) a(3,4) by (auto simp: present_def)
  obtain b d d' e where e: "resp = decision_json d" "db' = write_log d' (w 4 db3)" "e \<in> set (dec_events d')"
    "ev_app_id e = app" "ev_request_id e = (if present key then key else None)"
    "\<not> present key \<longrightarrow> e = last (dec_events d')" "decision_out_of b (result_from_event e) = Inr d"
    using decision_service_Answer [OF s(1)] p by auto
  have "out = shown_decision app e \<and> ev_drivers e \<noteq> None"
    using decided_shows_event [OF e(7), of app] s(2) e(1) by simp
  then have "\<exists>d' e. db' = write_log d' (w 4 db3) \<and> e \<in> set (dec_events d') \<and> ev_app_id e = app \<and>
       ev_request_id e = (if present key then key else None) \<and> (\<not> present key \<longrightarrow> e = last (dec_events d')) \<and>
       ev_drivers e \<noteq> None \<and> out = shown_decision app e"
    using e by (intro exI [of _ d'] exI [of _ e]) simp
  then show ?thesis using gates(1-5) a(1,2) by (simp add: deny_self_iff)
qed

definition sample_event :: dec_event where
  "sample_event = \<lparr>ev_id = 3, ev_app_id = 10, ev_outcome = ''refer'',
     ev_reasons = [\<lparr>reason_code = ''R02'', reason_text = ''Debt'', reason_feature = ''dti''\<rparr>],
     ev_drivers = Some \<lparr>dr_model_id = ''m'', dr_model_version = ''1'', dr_model_score = 600, dr_attributions = [],
       dr_cutoff_approve = 660, dr_cutoff_deny = 580\<rparr>,
     ev_band = ''refer'', ev_inputs = [], ev_decided_by = ''m'', ev_request_id = Some ''r'', ev_decided_at = 1\<rparr>"

abbreviation sample_history :: "los_db \<Rightarrow> dec_db" where
  "sample_history \<equiv> \<lambda>_. \<lparr>dec_events = [sample_event], outcome_of = [10 \<mapsto> ''refer''], dec_apps = [10], next_event_id = 4,
     dec_clock = 5, bureau_calls = 0\<rparr>"

definition sample_dec :: dec_config where
  "sample_dec = \<lparr>experian_key = ''k'', environment = ''production'', allow_synthetic_credit = False,
     decision_fingerprint_pepper = ''p''\<rparr>"

definition sample_ready :: los_db where
  "sample_ready = (sample_los [] [])\<lparr>los_apps := [sample_app\<lparr>la_monthly_debt := Some 0\<rparr>]\<rparr>"

abbreviation sample_decides :: "string option \<Rightarrow> los_db \<Rightarrow> decided response \<times> los_db" where
  "sample_decides uid \<equiv> orig_run_decision toy_hmac sample_keys 0
     (decision_service toy_hmac sample_dec (\<lambda>_. Call_failed) ''s'' (\<lambda>_ d. d) sample_history) los_alone 10 (Some ''r'')
     (Some ''admin'') uid None"

theorem decided_application_is_gated_and_recorded_witness:
  "\<exists>out db'. sample_decides None sample_ready = (Inr out, db') \<and> dd_decision out = ''refer'' \<and>
     (\<exists>d' e. db' = write_log d' sample_ready \<and> e \<in> set (dec_events d') \<and> ev_outcome e = ''refer'')"
proof -
  have gate: "require_officer_or_owner toy_hmac sample_keys 0 sample_ready 10 (Some ''admin'') None None = Inr ()"
    "deny_self_decision sample_ready 10 (Some ''admin'') None = Inr ()" "require_kyc_passed sample_ready 10 = Inr ()"
    by code_simp+
  obtain p where p: "decision_request_payload sample_ready 10 = Inr (Some p)" "dp_application_id p = 10"
    "dp_applicant_id p = Some 100" "dp_name p = Some ''Ada''" "dp_requested_amount p = 8000" "dp_term_months p = 48"
    "dp_annual_income p = 60000" "dp_monthly_debt p = 0" "dp_employment_years p = 0"
    by (simp add: decision_request_payload_def app_by_id_def applicant_by_id_def bind_option_def Let_def or_zero_def
        sample_ready_def sample_los_def sample_app_def)
  have call: "dec_require_internal_caller ''s'' (Some ''s'') = Inr ()" by (rule decision_guard.match) simp
  obtain resp db' where s: "decision_service toy_hmac sample_dec (\<lambda>_. Call_failed) ''s'' (\<lambda>_ d. d) sample_history
      (p\<lparr>dp_request_id := Some ''r''\<rparr>) sample_ready = (Answer (decision_json resp), db')" "do_outcome resp = ''refer''"
    using p call
    by (simp add: decision_service_def decision_in_of_def post_decision_def decision_in_ok_def decide_def
        application_from_def find_event_by_request_def has_key_def inputs_conflict_def result_from_event_def
        decision_out_of_def sample_event_def)
  have g: "decision_gates toy_hmac sample_keys 0 los_alone 10 (Some ''r'') (Some ''admin'') None None sample_ready
      = (Inr (p\<lparr>dp_request_id := Some ''r''\<rparr>), sample_ready)"
    using gate p(1) by (simp add: decision_gates_def key_ok_def present_def)
  obtain out where a: "sample_decides None sample_ready = (Inr out, db')" "dd_decision out = ''refer''"
    using s by (simp add: orig_run_decision_def g decided_of_json)
  obtain d' e where "db' = write_log d' sample_ready" "e \<in> set (dec_events d')" "out = shown_decision 10 e"
    using decided_application_is_gated_and_recorded [OF a(1)] by auto
  then show ?thesis using a by (auto simp: shown_decision_def)
qed

section \<open>Offers\<close>

lemma first_offer_view [simp]: "first_offer (disc_view db) i = first_offer (shared db) i"
  by (simp add: first_offer_def)

text \<open>Alone, the offer route of disclosure-service does at most its one INSERT.\<close>

lemma create_offer_alone:
  assumes "create_offer rules today token (\<lambda>_ d. d) b hdr d = (out, d')"
  obtains (unchanged) "d' = d" "\<And>r. out = Inr r \<Longrightarrow> first_offer d (of_application_id b) \<noteq> None"
    | (inserting) box where "build_offer rules (PFloat (of_principal b)) (PFloat (of_annual_rate b)) (of_term_months b) = Inr box"
      "d' = snd (insert_offer b box d)" "first_offer d (of_application_id b) = None"
      "\<And>r. out = Inr r \<Longrightarrow> rs_box r = box \<and>
         amortization (PFloat (of_principal b)) (PFloat (of_annual_rate b)) (of_term_months b) today = Inr (rs_schedule r) \<and>
         (\<exists>i. fst (insert_offer b box d) = Inserted i) \<and>
         (\<forall>e. of_decision_event_id b = Some e \<longrightarrow> (\<exists>ev. event_by_id d e = Some ev \<and> e_app_id ev = Some (of_application_id b)))"
proof (cases "d' = d \<and> (\<forall>r. out = Inr r \<longrightarrow> first_offer d (of_application_id b) \<noteq> None)")
  case True
  then show thesis using unchanged by blast
next
  case False
  let ?check = "case of_decision_event_id b of None \<Rightarrow> Inr ()
      | Some e \<Rightarrow> require_decision_event_for_application d e (of_application_id b)"
  have none: "first_offer d (of_application_id b) = None"
    and new: "create_new_offer rules today (\<lambda>_ d. d) b d = (out, d')"
    using assms False by (auto simp: create_offer_def raise_http_def split: if_splits sum.splits option.splits)
  have check: "?check = Inr ()"
    using new False by (cases ?check) (auto simp: create_new_offer_def Let_def split: option.splits)
  obtain box rows where priced:
    "build_offer rules (PFloat (of_principal b)) (PFloat (of_annual_rate b)) (of_term_months b) = Inr box"
    "amortization (PFloat (of_principal b)) (PFloat (of_annual_rate b)) (of_term_months b) today = Inr rows"
    using new False check
    by (auto simp: create_new_offer_def Let_def internal_error_def raise_http_def split: sum.splits option.splits)
  obtain r d2 where ins: "insert_offer b box d = (r, d2)" by (rule prod.exhaust)
  have nouv: "r \<noteq> Unique_violation" using ins none by (auto simp: insert_offer_def Let_def split: if_splits)
  have e: "\<forall>e. of_decision_event_id b = Some e \<longrightarrow> (\<exists>ev. event_by_id d e = Some ev \<and> e_app_id ev = Some (of_application_id b))"
    using check by (auto simp: require_decision_event_for_application_def raise_http_def split: option.splits if_splits)
  have cases: "(\<exists>i. r = Inserted i \<and> out = Inr \<lparr>rs_offer_id = i, rs_application_id = of_application_id b, rs_box = box,
                             rs_schedule = rows, rs_decision_event_id = of_decision_event_id b\<rparr> \<and> d' = d2) \<or>
      out = internal_error \<and> d' = d2"
    using new check priced ins nouv
    by (cases r; cases "of_decision_event_id b") (simp_all add: create_new_offer_def Let_def)
  show thesis
    by (rule inserting [OF priced(1) _ none]) (use cases ins priced(2) e in \<open>auto simp: internal_error_def raise_http_def\<close>)
qed

lemma insert_offer_Inserted:
  assumes "fst (insert_offer b box d) = Inserted i"
  shows "offers (snd (insert_offer b box d)) = offers d @ [offer_row_of b box d]"
    "of_application_id b \<in> fst ` set (applications d)"
  using assms by (auto simp: insert_offer_def Let_def split: if_splits)

lemma insert_offer_other:
  assumes "\<nexists>i. fst (insert_offer b box d) = Inserted i"
  shows "offers (snd (insert_offer b box d)) = offers d"
  using assms by (auto simp: insert_offer_def Let_def split: if_splits)

lemma insert_offer_events [simp]: "events (snd (insert_offer b box d)) = events d"
  by (simp add: insert_offer_def Let_def)

lemma offer_service_path:
  assumes "references_ok db"
  shows "los_path sha hatch db (snd (offer_service rules today token (\<lambda>_ d. d) b db))"
proof -
  obtain out d where c: "create_offer rules today token (\<lambda>_ d. d) b (if token = '''' then None else Some token) (disc_view db)
      = (out, d)" by (rule prod.exhaust)
  have "disc_step sha (disc_view db) d \<and> references_ok (db\<lparr>shared := d\<rparr>)"
  proof (cases rule: create_offer_alone [OF c])
    case 1
    have "(disc_view db)\<lparr>events := events (disc_view db) @ []\<rparr> = disc_view db" by (simp add: disc_view_def)
    then have "disc_step sha (disc_view db) (disc_view db)" using step_events [of sha "disc_view db" "[]"] by argo
    then show ?thesis using 1(1) assms by (simp add: references_ok_def)
  next
    case (2 box)
    have "offers d = offers (shared db) \<or> offers d = offers (shared db) @ [offer_row_of b box (disc_view db)] \<and>
        of_application_id b \<in> fst ` set (applications (disc_view db))"
    proof (cases "\<exists>i. fst (insert_offer b box (disc_view db)) = Inserted i")
      case True
      then obtain i where "fst (insert_offer b box (disc_view db)) = Inserted i" ..
      then show ?thesis using insert_offer_Inserted 2(2) by fastforce
    next
      case False
      then show ?thesis using insert_offer_other 2(2) by fastforce
    qed
    moreover have "fst ` set (applications (disc_view db)) = la_id ` set (los_apps db)" by force
    moreover have "events d = events (shared db)" using 2(2) by simp
    moreover have "o_app_id (offer_row_of b box (disc_view db)) = Some (of_application_id b)" by (simp add: offer_row_of_def)
    ultimately have "references_ok (db\<lparr>shared := d\<rparr>)" using assms unfolding references_ok_def by auto
    then show ?thesis using 2(2) insert_offer_step by simp
  qed
  then have "los_path sha hatch db (db\<lparr>shared := d\<rparr>)" by (intro los_then_step [OF rtranclp.rtrancl_refl ls_shared]) blast+
  then show ?thesis by (simp add: offer_service_def c split: sum.split)
qed

lemma make_offer_path:
  assumes w: "los_sessions_ok sha hatch w" and ok: "los_ok sha hatch db"
  shows "los_path sha hatch db (snd (make_offer hmac cfg t (offer_service rules today token (\<lambda>_ d. d)) w app role uid tok db))"
proof -
  have p0: "los_path sha hatch db (w 0 db)" using w by (rule los_sessionsD)
  have p1: "los_path sha hatch db (w 1 (w 0 db))" by (rule los_others [OF w p0])
  have p2: "los_path sha hatch db (w 2 (w 1 (w 0 db)))" by (rule los_others [OF w p1])
  have p3: "los_path sha hatch db (w 3 (w 2 (w 1 (w 0 db))))" by (rule los_others [OF w p2])
  let ?m = "w 5 (w 4 (w 3 (w 2 (w 1 (w 0 db)))))"
  have p5: "los_path sha hatch db ?m" by (intro los_others [OF w] p3)
  have "references_ok ?m" using los_ok_path [OF p5 ok] by (simp add: los_ok_def)
  then have call: "los_path sha hatch db (snd (offer_service rules today token (\<lambda>_ d. d) b ?m))" for b
    using los_path_trans [OF p5 offer_service_path] by blast
  then have "los_path sha hatch db d" if "offer_service rules today token (\<lambda>_ d. d) b ?m = (r, d)" for b r d
    using that by (metis snd_conv)
  then show ?thesis using p0 p1 p2 p3
    by (simp add: make_offer_def Let_def split: sum.split option.split prod.split)
qed

text \<open>An offer carries the stored terms. When origination answers with an offer of disclosure-service, the
  caller was authorized, the identity check had passed and the current decision approved. If the
  application had no offer, exactly one row is added: for this application, citing its newest
  decision, with the figures priced from the stored amount and term at the policy rate, which are
  the figures and the schedule of the answer; if it had one, no offer is added.\<close>

theorem offer_binds_stored_terms:
  assumes "make_offer hmac cfg t (offer_service rules today token (\<lambda>_ d. d)) w app role uid tok db = (Inr out, db')"
    and "m = w 4 (w 3 (w 2 (w 1 (w 0 db))))"
  shows "require_officer_or_owner hmac cfg t (w 0 db) app role uid tok = Inr () \<and> kyc_passed (w 1 (w 0 db)) app \<and>
    approved_outcome (los_decisions (w 3 (w 2 (w 1 (w 0 db)))) app) \<and>
    (\<exists>a. app_by_id (w 2 (w 1 (w 0 db))) app = Some a \<and>
      (case first_offer (shared (w 5 m)) app of
         Some _ \<Rightarrow> offers (shared db') = offers (shared (w 5 m))
       | None \<Rightarrow> \<exists>row. offers (shared db') = offers (shared (w 5 m)) @ [row] \<and> o_app_id row = Some app \<and>
           o_decision_event_id row = map_option e_id (newest_event (shared m) app) \<and>
           build_offer rules (PFloat (la_amount a)) (PFloat policy_rate_pct) (la_term_months a) = Inr (oo_box out) \<and>
           amortization (PFloat (la_amount a)) (PFloat policy_rate_pct) (la_term_months a) today = Inr (oo_schedule out) \<and>
           o_apr row = Some (box_apr (oo_box out)) \<and> o_monthly_payment row = Some (box_monthly_payment (oo_box out))))"
proof -
  obtain a where a: "app_by_id (w 2 (w 1 (w 0 db))) app = Some a"
    and gates: "require_officer_or_owner hmac cfg t (w 0 db) app role uid tok = Inr ()" "kyc_passed (w 1 (w 0 db)) app"
      "approved_outcome (los_decisions (w 3 (w 2 (w 1 (w 0 db)))) app)"
    using assms(1)
    by (auto simp: make_offer_def Let_def raise_http_def kyc_gate_iff split: sum.splits option.splits if_splits)
  have kyc: "require_kyc_passed (w 1 (w 0 db)) app = Inr ()" using gates(2) by (simp add: kyc_gate_iff)
  define b where "b = \<lparr>of_application_id = app, of_principal = la_amount a, of_term_months = la_term_months a,
      of_annual_rate = policy_rate_pct, of_decision_event_id = map_option e_id (newest_event (shared m) app)\<rparr>"
  obtain r where r: "offer_service rules today token (\<lambda>_ d. d) b (w 5 m) = (Some r, db')" "out = to_offer_out app r"
    using assms a gates(1,3) kyc
    by (auto simp: make_offer_def Let_def b_def internal_error_def raise_http_def split: prod.splits option.splits)
  obtain d where c: "create_offer rules today token (\<lambda>_ d. d) b (if token = '''' then None else Some token)
      (disc_view (w 5 m)) = (Inr r, d)" and d: "db' = (w 5 m)\<lparr>shared := d\<rparr>"
    using r(1) by (auto simp: offer_service_def split: prod.splits sum.splits)
  have "case first_offer (shared (w 5 m)) app of
         Some _ \<Rightarrow> offers (shared db') = offers (shared (w 5 m))
       | None \<Rightarrow> \<exists>row. offers (shared db') = offers (shared (w 5 m)) @ [row] \<and> o_app_id row = Some app \<and>
           o_decision_event_id row = map_option e_id (newest_event (shared m) app) \<and>
           build_offer rules (PFloat (la_amount a)) (PFloat policy_rate_pct) (la_term_months a) = Inr (oo_box out) \<and>
           amortization (PFloat (la_amount a)) (PFloat policy_rate_pct) (la_term_months a) today = Inr (oo_schedule out) \<and>
           o_apr row = Some (box_apr (oo_box out)) \<and> o_monthly_payment row = Some (box_monthly_payment (oo_box out))"
  proof (cases rule: create_offer_alone [OF c])
    case 1
    then show ?thesis using d by (auto simp: b_def split: option.split)
  next
    case (2 box)
    obtain i where "fst (insert_offer b box (disc_view (w 5 m))) = Inserted i" using 2(4) by blast
    then have "offers d = offers (shared (w 5 m)) @ [offer_row_of b box (disc_view (w 5 m))]"
      using insert_offer_Inserted(1) 2(2) by fastforce
    then show ?thesis using 2 d r(2) by (auto simp: b_def offer_row_of_def to_offer_out_def)
  qed
  then show ?thesis using gates a by blast
qed

lemma policy_rate: "to_decimal (PFloat policy_rate_pct) = 799 / 100"
proof -
  have "sig_repr 10 15 (of_int 799 / of_nat 10 ^ 2)" by (rule sig_repr_of_int_div) simp_all
  then show ?thesis using py_repr_round_trip [of "799 / 100"] by (simp add: policy_rate_pct_def)
qed

lemma offered_amount_exact: "to_decimal (PFloat 8000) = 8000"
proof -
  have "sig_repr 10 15 (of_int 8000 / of_nat 10 ^ 0)" by (rule sig_repr_of_int_div) simp_all
  then have "py_repr (fl 8000) = 8000" using py_repr_round_trip by simp
  then show ?thesis using fl_exact_int [of 8000] by simp
qed

definition sample_unoffered :: los_db where
  "sample_unoffered = (sample_los [] [])\<lparr>shared := (sample_db [])\<lparr>offers := []\<rparr>\<rparr>"

theorem offer_binds_stored_terms_witness:
  "\<exists>out db' row. make_offer toy_hmac sample_keys 0 (offer_service (Inr sample_schedule) (2024, 1, 31) ''s'' (\<lambda>_ d. d))
     los_alone 10 (Some ''admin'') None None sample_unoffered = (Inr out, db') \<and>
     offers (shared db') = [row] \<and> o_app_id row = Some 10 \<and> o_decision_event_id row = Some 3"
proof -
  let ?db = "sample_unoffered"
  obtain box where box: "build_offer (Inr sample_schedule) (PFloat 8000) (PFloat policy_rate_pct) 48 = Inr box"
    using build_offer_ok [OF sample_schedule_ok, of "PFloat 8000" "PFloat policy_rate_pct" 48]
    unfolding policy_rate offered_amount_exact by auto
  have "ymd_ok 2024 1 31" by code_simp
  then obtain rows where rows: "amortization (PFloat 8000) (PFloat policy_rate_pct) 48 (2024, 1, 31) = Inr rows"
    using amortization_cents [of "PFloat 8000" 800000 "PFloat policy_rate_pct" 48 2024 1 31]
    unfolding policy_rate offered_amount_exact by auto
  have gate: "require_officer_or_owner toy_hmac sample_keys 0 ?db 10 (Some ''admin'') None None = Inr ()"
    "require_kyc_passed ?db 10 = Inr ()" "approved_outcome (los_decisions ?db 10)"
    by code_simp+
  have call: "disc_require_internal_caller ''s'' (Some ''s'') = Inr ()" by (rule disclosure_guard.match) simp
  have rate: "0 < policy_rate_pct" "policy_rate_pct \<le> 35"
    using fl_mono [of "1" "799 / 100"] fl_mono [of "799 / 100" "35"] fl_exact_int [of 1] fl_exact_int [of 35]
    by (simp_all add: policy_rate_pct_def)
  have db: "app_by_id ?db 10 = Some sample_app" "first_offer (disc_view ?db) 10 = None"
    "newest_event (shared ?db) 10 = Some \<lparr>e_id = 3, e_app_id = Some 10, e_outcome = Some ''approve'', e_policy_band = None,
        e_decided_at = None\<rparr>"
    by (simp_all add: app_by_id_def first_offer_def newest_event_def sample_unoffered_def sample_los_def sample_app_def
        sample_db_def)
  have ev: "event_by_id (disc_view ?db) 3 = Some \<lparr>e_id = 3, e_app_id = Some 10, e_outcome = Some ''approve'',
      e_policy_band = None, e_decided_at = None\<rparr>" "(10, Some 100) \<in> set (applications (disc_view ?db))"
    by (simp_all add: event_by_id_def sample_unoffered_def sample_los_def sample_db_def sample_app_def)
  define b where "b = \<lparr>of_application_id = 10, of_principal = 8000, of_term_months = 48, of_annual_rate = policy_rate_pct,
    of_decision_event_id = Some 3\<rparr>"
  have app: "(10 :: int) \<in> fst ` set (applications (disc_view ?db))" using ev(2) by force
  have "\<exists>r d. create_offer (Inr sample_schedule) (2024, 1, 31) ''s'' (\<lambda>_ d. d) b (Some ''s'') (disc_view ?db) = (Inr r, d)"
    using box rows db(2) ev(1) app rate call
    by (simp add: create_offer_def create_new_offer_def offer_in_ok_def b_def require_decision_event_for_application_def
        insert_offer_def Let_def)
  then obtain out db' where m: "make_offer toy_hmac sample_keys 0
      (offer_service (Inr sample_schedule) (2024, 1, 31) ''s'' (\<lambda>_ d. d)) los_alone 10 (Some ''admin'') None None ?db
      = (Inr out, db')"
    using gate db(1,3) by (auto simp: make_offer_def offer_service_def sample_app_def b_def)
  have none: "first_offer (shared ?db) 10 = None" using db(2) by simp
  have "offers (shared ?db) = []" by (simp add: sample_unoffered_def)
  then show ?thesis
    using offer_binds_stored_terms [OF m refl] none db(3) m by auto
qed

end
