(* ===== verification/Gateway.thy ===== *)
theory Gateway
  imports LosAuthz JsonValues "HOL-Library.AList"
begin

text \<open>
  The gateway (\<^verbatim>\<open>app/auth.py\<close>, \<^verbatim>\<open>app/main.py\<close>): password check and migration, sessions and resume
  sessions in Redis, the header filter of the proxy, and the routes. PBKDF2 and SHA-256 are
  arguments, random ids and salts too. The \<open>n\<close>-th call of a handler to Redis or to the database
  is made at the instant \<open>clk n\<close> and succeeds when \<open>up n\<close>; one that fails has changed nothing. A
  downstream service is a function on its own state that answers a status and a body, decoded JSON
  or a text that is none; \<open>None\<close> is an exception of the client. \<open>None\<close> as an answer of the gateway is an
  exception no handler catches, a 500.
\<close>

section \<open>Text\<close>

definition strip_of :: "(char \<Rightarrow> bool) \<Rightarrow> string \<Rightarrow> string" where
  "strip_of p s = rev (dropWhile p (rev (dropWhile p s)))"

text \<open>\<^verbatim>\<open>str.split(sep, n)\<close>.\<close>

fun split_max :: "nat \<Rightarrow> char \<Rightarrow> string \<Rightarrow> string list" where
  "split_max 0 c s = [s]"
| "split_max (Suc n) c s =
     (case partition_on c s of (a, None) \<Rightarrow> [a] | (a, Some rest) \<Rightarrow> a # split_max n c rest)"

definition nibble_char :: "nat \<Rightarrow> char" where
  "nibble_char n = ''0123456789abcdef'' ! n"

definition to_hex :: "string \<Rightarrow> string" where
  "to_hex s = concat (map (\<lambda>c. [nibble_char (char_code c div 16), nibble_char (char_code c mod 16)]) s)"

definition hex_nibble :: "char \<Rightarrow> nat option" where
  "hex_nibble c =
     (let n = char_code c
      in if 48 \<le> n \<and> n \<le> 57 then Some (n - 48)
         else if 97 \<le> n \<and> n \<le> 102 then Some (n - 87)
         else if 65 \<le> n \<and> n \<le> 70 then Some (n - 55) else None)"

definition ascii_space :: "char \<Rightarrow> bool" where
  "ascii_space c \<longleftrightarrow> char_code c = 32 \<or> (9 \<le> char_code c \<and> char_code c \<le> 13)"

text \<open>\<^verbatim>\<open>bytes.fromhex\<close>: blanks between the pairs are skipped.\<close>

fun from_hex :: "string \<Rightarrow> string option" where
  "from_hex [] = Some []"
| "from_hex (c # cs) =
     (if ascii_space c then from_hex cs
      else case cs of
        [] \<Rightarrow> None
      | d # ds \<Rightarrow>
          (case (hex_nibble c, hex_nibble d) of
             (Some a, Some b) \<Rightarrow> map_option (\<lambda>r. char_of (16 * a + b) # r) (from_hex ds)
           | _ \<Rightarrow> None))"

section \<open>Passwords\<close>

definition pbkdf2_prefix :: string where
  "pbkdf2_prefix = ''pbkdf2_sha256$''"

definition pbkdf2_iterations :: int where
  "pbkdf2_iterations = 600000"

definition hash_password :: "(string \<Rightarrow> string \<Rightarrow> int \<Rightarrow> string) \<Rightarrow> string \<Rightarrow> string \<Rightarrow> string" where
  "hash_password pbkdf2 password salt =
     pbkdf2_prefix @ show_int pbkdf2_iterations @ ''$'' @ to_hex salt @ ''$'' @
     to_hex (pbkdf2 password salt pbkdf2_iterations)"

definition is_ascii :: "string \<Rightarrow> bool" where
  "is_ascii s \<longleftrightarrow> list_all (\<lambda>c. char_code c < 128) s"

text \<open>
  \<open>sha\<close> is the hex digest of the old scheme. An iteration count PBKDF2 refuses and a comparison
  with a text that is not ASCII raise outside the \<^verbatim>\<open>try\<close>: \<open>None\<close>.
\<close>

definition verify_password ::
  "(string \<Rightarrow> string \<Rightarrow> int \<Rightarrow> string) \<Rightarrow> (string \<Rightarrow> string) \<Rightarrow> string \<Rightarrow> string \<Rightarrow> bool option" where
  "verify_password pbkdf2 sha password stored_hash =
     (if take (length pbkdf2_prefix) stored_hash = pbkdf2_prefix
      then case split_max 3 (CHR ''$'') stored_hash of
        [algo, rounds, salt_hex, hash_hex] \<Rightarrow>
          (case (from_hex salt_hex, py_int rounds) of
             (Some salt, Some n) \<Rightarrow>
               if n < 1 \<or> 2 ^ 31 \<le> n \<or> \<not> is_ascii hash_hex then None
               else Some (to_hex (pbkdf2 password salt n) = hash_hex)
           | _ \<Rightarrow> Some False)
      | _ \<Rightarrow> Some False
      else if is_ascii stored_hash then Some (sha password = stored_hash) else None)"

record account =
  us_id :: int
  us_username :: string
  us_role :: string
  us_display_name :: "string option"
  us_password_hash :: string
  us_active :: bool

text \<open>The user as it is stored in a session.\<close>

record gw_user =
  gu_id :: int
  gu_username :: string
  gu_role :: string
  gu_name :: "string option"

datatype stored_value = Session_data gw_user | Resume_data jv jv

text \<open>A key of Redis holds a value up to an instant.\<close>

record gw_state =
  gw_accounts :: "account list"
  redis :: "string \<Rightarrow> (stored_value \<times> int) option"

definition session_user :: "account \<Rightarrow> gw_user" where
  "session_user a = \<lparr>gu_id = us_id a, gu_username = us_username a, gu_role = us_role a, gu_name = us_display_name a\<rparr>"

text \<open>\<open>None\<close> is an exception, \<open>Some None\<close> a refusal.\<close>

definition authenticate ::
  "(string \<Rightarrow> string \<Rightarrow> int \<Rightarrow> string) \<Rightarrow> (string \<Rightarrow> string) \<Rightarrow> (nat \<Rightarrow> bool) \<Rightarrow> string \<Rightarrow> string \<Rightarrow> string \<Rightarrow>
   gw_state \<Rightarrow> gw_user option option \<times> gw_state" where
  "authenticate pbkdf2 sha up salt username password st =
     (if \<not> up 0 then (None, st)
      else case find (\<lambda>a. us_username a = username) (gw_accounts st) of
        None \<Rightarrow> (Some None, st)
      | Some a \<Rightarrow>
          if \<not> us_active a then (Some None, st)
          else (case verify_password pbkdf2 sha password (us_password_hash a) of
             None \<Rightarrow> (None, st)
           | Some False \<Rightarrow> (Some None, st)
           | Some True \<Rightarrow>
               if take (length pbkdf2_prefix) (us_password_hash a) = pbkdf2_prefix then (Some (Some (session_user a)), st)
               else if \<not> up 1 then (None, st)
               else (Some (Some (session_user a)),
                     st\<lparr>gw_accounts := map (\<lambda>x. if us_id x = us_id a
                          then x\<lparr>us_password_hash := hash_password pbkdf2 password salt\<rparr> else x) (gw_accounts st)\<rparr>)))"

section \<open>Redis\<close>

definition redis_get :: "int \<Rightarrow> string \<Rightarrow> gw_state \<Rightarrow> stored_value option" where
  "redis_get t key st =
     (case redis st key of None \<Rightarrow> None | Some (v, expires) \<Rightarrow> if t < expires then Some v else None)"

definition redis_set :: "int \<Rightarrow> string \<Rightarrow> int \<Rightarrow> stored_value \<Rightarrow> gw_state \<Rightarrow> gw_state" where
  "redis_set t key ttl v st = st\<lparr>redis := (redis st)(key \<mapsto> (v, t + ttl * 1000000))\<rparr>"

definition redis_delete :: "string \<Rightarrow> gw_state \<Rightarrow> gw_state" where
  "redis_delete key st = st\<lparr>redis := (redis st)(key := None)\<rparr>"

record gw_config =
  session_ttl_seconds :: int
  resume_ttl_seconds :: int
  gw_internal_token :: string

text \<open>\<^verbatim>\<open>setex\<close> refuses a lifetime that is not positive.\<close>

definition create_session :: "gw_config \<Rightarrow> int \<Rightarrow> bool \<Rightarrow> string \<Rightarrow> gw_user \<Rightarrow> gw_state \<Rightarrow> string option \<times> gw_state" where
  "create_session cfg t ok token user st =
     (if \<not> ok \<or> session_ttl_seconds cfg \<le> 0 then (None, st)
      else (Some token, redis_set t (''session:'' @ token) (session_ttl_seconds cfg) (Session_data user) st))"

text \<open>A token that is absent or empty is not looked up.\<close>

definition get_session :: "int \<Rightarrow> bool \<Rightarrow> string option \<Rightarrow> gw_state \<Rightarrow> gw_user option option" where
  "get_session t ok token st =
     (case token of
        None \<Rightarrow> Some None
      | Some tok \<Rightarrow>
          if tok = '''' then Some None
          else if \<not> ok then None
          else (case redis_get t (''session:'' @ tok) st of Some (Session_data u) \<Rightarrow> Some (Some u) | _ \<Rightarrow> Some None))"

definition delete_session :: "bool \<Rightarrow> string option \<Rightarrow> gw_state \<Rightarrow> unit option \<times> gw_state" where
  "delete_session ok token st =
     (case token of
        None \<Rightarrow> (Some (), st)
      | Some tok \<Rightarrow> if tok = '''' then (Some (), st)
                    else if \<not> ok then (None, st) else (Some (), redis_delete (''session:'' @ tok) st))"

definition create_resume_session ::
  "gw_config \<Rightarrow> int \<Rightarrow> bool \<Rightarrow> string \<Rightarrow> jv \<Rightarrow> jv \<Rightarrow> gw_state \<Rightarrow> string option \<times> gw_state" where
  "create_resume_session cfg t ok sid app_id token st =
     (if \<not> ok \<or> resume_ttl_seconds cfg \<le> 0 then (None, st)
      else (Some sid, redis_set t (''resume:'' @ sid) (resume_ttl_seconds cfg) (Resume_data app_id token) st))"

definition resolve_resume :: "int \<Rightarrow> bool \<Rightarrow> string option \<Rightarrow> gw_state \<Rightarrow> (jv \<times> jv) option option" where
  "resolve_resume t ok sid st =
     (case sid of
        None \<Rightarrow> Some None
      | Some s \<Rightarrow>
          if s = '''' then Some None
          else if \<not> ok then None
          else (case redis_get t (''resume:'' @ s) st of Some (Resume_data a k) \<Rightarrow> Some (Some (a, k)) | _ \<Rightarrow> Some None))"

definition clear_resume :: "bool \<Rightarrow> string \<Rightarrow> gw_state \<Rightarrow> gw_state" where
  "clear_resume ok sid st = (if ok then redis_delete (''resume:'' @ sid) st else st)"

definition bearer_token :: "string option \<Rightarrow> string option" where
  "bearer_token authorization =
     (case authorization of
        None \<Rightarrow> None
      | Some a \<Rightarrow>
          if a = '''' then None
          else (case split_max 1 (CHR '' '') a of
             [scheme, rest] \<Rightarrow> if lower scheme = ''bearer'' then Some (strip rest) else Some (strip a)
           | _ \<Rightarrow> Some (strip a)))"

section \<open>Auth routes\<close>

definition login ::
  "(string \<Rightarrow> string \<Rightarrow> int \<Rightarrow> string) \<Rightarrow> (string \<Rightarrow> string) \<Rightarrow> gw_config \<Rightarrow> int \<Rightarrow> (nat \<Rightarrow> bool) \<Rightarrow> string \<Rightarrow> string \<Rightarrow>
   string \<Rightarrow> string \<Rightarrow> gw_state \<Rightarrow> (string \<times> gw_user) response \<times> gw_state" where
  "login pbkdf2 sha cfg t up salt token username password st =
     (case authenticate pbkdf2 sha up salt username password st of
        (None, st1) \<Rightarrow> (raise_http 503 ''auth backend unavailable'', st1)
      | (Some None, st1) \<Rightarrow> (raise_http 401 ''invalid username or password'', st1)
      | (Some (Some u), st1) \<Rightarrow>
          (case create_session cfg t (up 2) token u st1 of
             (None, st2) \<Rightarrow> (internal_error, st2)
           | (Some tok, st2) \<Rightarrow> (Inr (tok, u), st2)))"

definition logout :: "bool \<Rightarrow> string option \<Rightarrow> gw_state \<Rightarrow> unit response \<times> gw_state" where
  "logout ok authorization st =
     (case delete_session ok (bearer_token authorization) st of
        (None, st1) \<Rightarrow> (internal_error, st1) | (Some _, st1) \<Rightarrow> (Inr (), st1))"

text \<open>\<^verbatim>\<open>_require_user\<close>, which is also the whole of \<^verbatim>\<open>/auth/me\<close>.\<close>

definition require_user :: "int \<Rightarrow> bool \<Rightarrow> string option \<Rightarrow> gw_state \<Rightarrow> gw_user response" where
  "require_user t ok authorization st =
     (case get_session t ok (bearer_token authorization) st of
        None \<Rightarrow> internal_error
      | Some None \<Rightarrow> raise_http 401 ''not authenticated''
      | Some (Some u) \<Rightarrow> Inr u)"

section \<open>Forwarding\<close>

record gw_request =
  rq_method :: string
  rq_headers :: "(string \<times> string) list"
  rq_authorization :: "string option"
  rq_cookie :: "string option"
  rq_query :: string
  rq_body :: string

record forwarded =
  fw_base :: string
  fw_method :: string
  fw_path :: string
  fw_headers :: "(string \<times> string) list"
  fw_query :: string
  fw_body :: string

definition stripped_headers :: "string list" where
  "stripped_headers = [''host'', ''content-length'', ''authorization'', ''x-user-id'', ''x-user-role'',
     ''x-internal-service'', ''x-application-token'']"

text \<open>A dict built from pairs: a later value of a name replaces the earlier one.\<close>

definition dict_of :: "(string \<times> string) list \<Rightarrow> (string \<times> string) list" where
  "dict_of hs = foldl (\<lambda>d (k, v). AList.update k v d) [] hs"

definition forward_headers :: "gw_user option \<Rightarrow> string option \<Rightarrow> (string \<times> string) list \<Rightarrow> (string \<times> string) list" where
  "forward_headers user inject_token hs =
     dict_of (filter (\<lambda>h. lower (fst h) \<notin> set stripped_headers) hs) @
     (case user of None \<Rightarrow> [] | Some u \<Rightarrow> [(''X-User-Id'', show_int (gu_id u)), (''X-User-Role'', gu_role u)]) @
     (case inject_token of None \<Rightarrow> [] | Some tok \<Rightarrow> if tok = '''' then [] else [(''X-Application-Token'', tok)])"

definition forward_request ::
  "string \<Rightarrow> string \<Rightarrow> gw_request \<Rightarrow> gw_user option \<Rightarrow> string option \<Rightarrow> forwarded" where
  "forward_request base path r user inject_token =
     \<lparr>fw_base = base, fw_method = rq_method r, fw_path = path,
      fw_headers = forward_headers user inject_token (rq_headers r), fw_query = rq_query r, fw_body = rq_body r\<rparr>"

text \<open>How a service reads a header: by its name in any case.\<close>

definition header_value :: "string \<Rightarrow> (string \<times> string) list \<Rightarrow> string option" where
  "header_value name hs = map_option snd (find (\<lambda>h. lower (fst h) = lower name) hs)"

datatype cookie_action = Keep_cookie | Set_cookie string | Delete_cookie

record gw_response =
  gr_status :: nat
  gr_content :: jv
  gr_cookie :: cookie_action

type_synonym gw_reply = "(nat \<times> (jv + string)) option"

definition reply_content :: "jv + string \<Rightarrow> jv" where
  "reply_content body = (case body of Inl v \<Rightarrow> v | Inr s \<Rightarrow> VObj [(''raw'', VStr s)])"

definition relayed :: "gw_reply \<Rightarrow> gw_response option" where
  "relayed = map_option (\<lambda>(s, c). \<lparr>gr_status = s, gr_content = reply_content c, gr_cookie = Keep_cookie\<rparr>)"

definition refused :: "http_error \<Rightarrow> gw_response option" where
  "refused e = (if e = HttpError 500 ''internal error'' then None
     else Some \<lparr>gr_status = http_status e, gr_content = VObj [(''detail'', VStr (http_detail e))], gr_cookie = Keep_cookie\<rparr>)"

section \<open>The LOS route\<close>

text \<open>\<^verbatim>\<open>applications/<id>/...\<close> or \<^verbatim>\<open>applications/<id>\<close>.\<close>

definition app_id_in_path :: "string \<Rightarrow> string option" where
  "app_id_in_path path =
     (case split_on (CHR ''/'') (strip_of (\<lambda>c. c = CHR ''/'') path) of
        head # i # _ \<Rightarrow> if head = ''applications'' \<and> i \<noteq> '''' \<and> list_all py_digit i then Some i else None
      | _ \<Rightarrow> None)"

text \<open>\<^verbatim>\<open>str(v) == i\<close> for a text \<open>i\<close> of digits, which only the texts of integers and strings can be.\<close>

fun shows_as :: "jv \<Rightarrow> string \<Rightarrow> bool" where
  "shows_as (VInt n) i = (show_int n = i)"
| "shows_as (VStr s) i = (s = i)"
| "shows_as _ i = False"

definition gw_officer_roles :: "string set" where
  "gw_officer_roles = {''underwriter'', ''admin''}"

definition gw_is_officer :: "gw_user option \<Rightarrow> bool" where
  "gw_is_officer user \<longleftrightarrow> (case user of None \<Rightarrow> False | Some u \<Rightarrow> lower (strip (gu_role u)) \<in> gw_officer_roles)"

definition resume_unavailable :: gw_response where
  "resume_unavailable = \<lparr>gr_status = 503,
     gr_content = VObj [(''detail'', VStr ''resume session store unavailable; please retry'')], gr_cookie = Keep_cookie\<rparr>"

text \<open>The token of the resume session, for its own application or for the offer route.\<close>

definition token_for :: "string \<Rightarrow> (jv \<times> jv) option \<Rightarrow> jv option" where
  "token_for path sess =
     (case sess of
        None \<Rightarrow> None
      | Some (a, k) \<Rightarrow>
          if (case app_id_in_path path of None \<Rightarrow> False | Some i \<Rightarrow> shows_as a i) then Some k
          else if strip_of (\<lambda>c. c = CHR ''/'') path = ''offer'' then Some k else None)"

text \<open>Three attempts, each under a fresh id.\<close>

definition create_resume_with_retry ::
  "gw_config \<Rightarrow> (nat \<Rightarrow> int) \<Rightarrow> (nat \<Rightarrow> bool) \<Rightarrow> (nat \<Rightarrow> string) \<Rightarrow> jv \<Rightarrow> jv \<Rightarrow> gw_state \<Rightarrow> string option \<times> gw_state" where
  "create_resume_with_retry cfg clk up sid app_id token st =
     (case find (\<lambda>i. fst (create_resume_session cfg (clk i) (up i) (sid i) app_id token st) \<noteq> None) [0, 1, 2] of
        None \<Rightarrow> (None, st)
      | Some i \<Rightarrow> create_resume_session cfg (clk i) (up i) (sid i) app_id token st)"

text \<open>The compensation is best effort, and not attempted without the internal token.\<close>

definition abandon_submit :: "gw_config \<Rightarrow> (string \<Rightarrow> jv \<Rightarrow> 's \<Rightarrow> 's) \<Rightarrow> jv \<Rightarrow> 's \<Rightarrow> 's" where
  "abandon_submit cfg post_abandon app_id s =
     (if gw_internal_token cfg = '''' then s else post_abandon (gw_internal_token cfg) app_id s)"

definition is_submit_path :: "string \<Rightarrow> gw_request \<Rightarrow> bool" where
  "is_submit_path path r \<longleftrightarrow> rq_method r = ''POST'' \<and> strip_of (\<lambda>c. c = CHR ''/'') path = ''applications''"

definition is_accept_path :: "string \<Rightarrow> gw_request \<Rightarrow> bool" where
  "is_accept_path path r \<longleftrightarrow> rq_method r = ''POST'' \<and>
     (case app_id_in_path path of
        None \<Rightarrow> False
      | Some i \<Rightarrow> (let p = strip_of (\<lambda>c. c = CHR ''/'') path; suff = ''applications/'' @ i @ ''/accept''
                   in drop (length p - length suff) p = suff))"

text \<open>The resume session of a request; without Redis only an officer goes on, without one.\<close>

definition resume_for ::
  "int \<Rightarrow> bool \<Rightarrow> gw_request \<Rightarrow> gw_user option \<Rightarrow> gw_state \<Rightarrow> (jv \<times> jv) option option" where
  "resume_for t ok r user st =
     (case resolve_resume t ok (rq_cookie r) st of
        None \<Rightarrow> if gw_is_officer user then Some None else None
      | Some sess \<Rightarrow> Some sess)"

text \<open>A header value that is not a text is an exception of the client.\<close>

definition attach_token ::
  "string \<Rightarrow> string \<Rightarrow> gw_request \<Rightarrow> gw_user option \<Rightarrow> jv option \<Rightarrow> forwarded option" where
  "attach_token base path r user token =
     (case token of
        None \<Rightarrow> Some (forward_request base path r user None)
      | Some v \<Rightarrow>
          if \<not> jtruthy v then Some (forward_request base path r user None)
          else (case v of VStr w \<Rightarrow> Some (forward_request base path r user (Some w)) | _ \<Rightarrow> None))"

text \<open>What the gateway sends to origination, or its own answer before that.\<close>

definition los_prepare ::
  "(nat \<Rightarrow> int) \<Rightarrow> (nat \<Rightarrow> bool) \<Rightarrow> string \<Rightarrow> string \<Rightarrow> gw_request \<Rightarrow> gw_state \<Rightarrow>
   gw_response option + forwarded \<times> gw_user option" where
  "los_prepare clk up base path r st =
     (case get_session (clk 0) (up 0) (bearer_token (rq_authorization r)) st of
        None \<Rightarrow> Inl None
      | Some user \<Rightarrow>
          if is_submit_path path r \<and> \<not> gw_is_officer user \<and> \<not> up 1 then Inl (Some resume_unavailable)
          else case resume_for (clk 2) (up 2) r user st of
            None \<Rightarrow> Inl (Some resume_unavailable)
          | Some sess \<Rightarrow>
              (case attach_token base (CHR ''/'' # path) r user (token_for path sess) of
                 None \<Rightarrow> Inl None
               | Some f \<Rightarrow> Inr (f, user)))"

definition los_finish ::
  "gw_config \<Rightarrow> (nat \<Rightarrow> int) \<Rightarrow> (nat \<Rightarrow> bool) \<Rightarrow> (nat \<Rightarrow> string) \<Rightarrow> (string \<Rightarrow> jv \<Rightarrow> 's \<Rightarrow> 's) \<Rightarrow> string \<Rightarrow> gw_request \<Rightarrow>
   gw_user option \<Rightarrow> nat \<Rightarrow> jv \<Rightarrow> gw_state \<Rightarrow> 's \<Rightarrow> gw_response option \<times> gw_state \<times> 's" where
  "los_finish cfg clk up sid post_abandon path r user status content st s =
     (let raw = (case jfield content ''continuation_token'' of None \<Rightarrow> VNull | Some v \<Rightarrow> v);
          app = (case jfield content ''app_id'' of None \<Rightarrow> VNull | Some v \<Rightarrow> v);
          shown = (if jtruthy raw then jdrop ''continuation_token'' content else content);
          answer = \<lparr>gr_status = status, gr_content = shown, gr_cookie = Keep_cookie\<rparr>
      in if is_submit_path path r \<and> status = 200 \<and> \<not> gw_is_officer user \<and> jtruthy raw \<and> app \<noteq> VNull
         then case create_resume_with_retry cfg (\<lambda>i. clk (3 + i)) (\<lambda>i. up (3 + i)) sid app raw st of
             (None, st1) \<Rightarrow> (Some resume_unavailable, st1, abandon_submit cfg post_abandon app s)
           | (Some k, st1) \<Rightarrow> (Some (answer\<lparr>gr_cookie := Set_cookie k\<rparr>), st1, s)
         else if is_accept_path path r \<and> status = 200 \<and> present (rq_cookie r)
         then (Some (answer\<lparr>gr_cookie := Delete_cookie\<rparr>), clear_resume (up 6) (the (rq_cookie r)) st, s)
         else (Some answer, st, s))"

definition los ::
  "gw_config \<Rightarrow> (nat \<Rightarrow> int) \<Rightarrow> (nat \<Rightarrow> bool) \<Rightarrow> (nat \<Rightarrow> string) \<Rightarrow> (forwarded \<Rightarrow> 's \<Rightarrow> gw_reply \<times> 's) \<Rightarrow>
   (string \<Rightarrow> jv \<Rightarrow> 's \<Rightarrow> 's) \<Rightarrow> string \<Rightarrow> string \<Rightarrow> gw_request \<Rightarrow> gw_state \<Rightarrow> 's \<Rightarrow>
   gw_response option \<times> gw_state \<times> 's" where
  "los cfg clk up sid send post_abandon base path r st s =
     (case los_prepare clk up base path r st of
        Inl out \<Rightarrow> (out, st, s)
      | Inr (f, user) \<Rightarrow>
          (case send f s of
             (None, s1) \<Rightarrow> (None, st, s1)
           | (Some (status, body), s1) \<Rightarrow>
               los_finish cfg clk up sid post_abandon path r user status (reply_content body) st s1))"

section \<open>The other routes\<close>

text \<open>Servicing and payments require a session.\<close>

definition authenticated_proxy ::
  "int \<Rightarrow> bool \<Rightarrow> (forwarded \<Rightarrow> 's \<Rightarrow> gw_reply \<times> 's) \<Rightarrow> string \<Rightarrow> string \<Rightarrow> gw_request \<Rightarrow> gw_state \<Rightarrow> 's \<Rightarrow>
   gw_response option \<times> 's" where
  "authenticated_proxy t ok send base path r st s =
     (case require_user t ok (rq_authorization r) st of
        Inl e \<Rightarrow> (refused e, s)
      | Inr u \<Rightarrow> (case send (forward_request base path r (Some u) None) s of (answer, s1) \<Rightarrow> (relayed answer, s1)))"

definition lss ::
  "int \<Rightarrow> bool \<Rightarrow> (forwarded \<Rightarrow> 's \<Rightarrow> gw_reply \<times> 's) \<Rightarrow> string \<Rightarrow> string \<Rightarrow> gw_request \<Rightarrow> gw_state \<Rightarrow> 's \<Rightarrow>
   gw_response option \<times> 's" where
  "lss t ok send base path r st s = authenticated_proxy t ok send base (CHR ''/'' # path) r st s"

text \<open>The bare mount point goes to the charge route, anything below it loses the mount point.\<close>

definition payments_route ::
  "int \<Rightarrow> bool \<Rightarrow> (forwarded \<Rightarrow> 's \<Rightarrow> gw_reply \<times> 's) \<Rightarrow> string \<Rightarrow> string option \<Rightarrow> gw_request \<Rightarrow> gw_state \<Rightarrow> 's \<Rightarrow>
   gw_response option \<times> 's" where
  "payments_route t ok send base sub r st s =
     (case sub of
        None \<Rightarrow> authenticated_proxy t ok send base ''/payments'' r st s
      | Some path \<Rightarrow> authenticated_proxy t ok send base (CHR ''/'' # path) r st s)"

text \<open>kyc, decision and disclosure forward a session when there is one.\<close>

definition open_proxy ::
  "int \<Rightarrow> bool \<Rightarrow> (forwarded \<Rightarrow> 's \<Rightarrow> gw_reply \<times> 's) \<Rightarrow> string \<Rightarrow> string \<Rightarrow> gw_request \<Rightarrow> gw_state \<Rightarrow> 's \<Rightarrow>
   gw_response option \<times> 's" where
  "open_proxy t ok send base path r st s =
     (case get_session t ok (bearer_token (rq_authorization r)) st of
        None \<Rightarrow> (None, s)
      | Some user \<Rightarrow> (case send (forward_request base (CHR ''/'' # path) r user None) s of (answer, s1) \<Rightarrow> (relayed answer, s1)))"

end
