(* ===== verification/IntakeProps.thy ===== *)
theory IntakeProps
  imports LosProps
begin

text \<open>
  Intake and the token: a token opens the application it was issued for, until it expires or the
  application is funded, and then only replays the answer of the accept; a monthly debt is
  recorded once; abandoning leaves nothing behind unless the operations hatch is used meanwhile;
  and what a submit says of the identity check against what the gate then demands.
\<close>

section \<open>The state a submit leaves\<close>

lemma created_row:
  assumes "create_application hmac cfg raw t up b sub db = (Some i, db')"
  obtains stored where "hash_token hmac cfg raw = Some stored" "i = next_app db" "up"
    "db' = db\<lparr>los_applicants := los_applicants db @ [(applicant_of b)\<lparr>apl_id := next_applicant db\<rparr>],
       los_apps := los_apps db @ [(application_of_intake b stored (t + token_ttl_days cfg * micros_per_day) sub)
         \<lparr>la_id := next_app db, la_applicant_id := Some (next_applicant db)\<rparr>],
       next_applicant := next_applicant db + 1, next_app := next_app db + 1\<rparr>"
  using assms by (auto simp: create_application_def insert_application_def split: option.splits if_splits)

lemma submit_Inr:
  assumes w: "los_sessions_ok sha hatch w" and c: "kyc_calls_ok sha hatch call"
    and e: "submit_application hmac cfg call raw t today up audited w body uid db = (Inr out, db')"
  obtains b db1 where "validated today body = Some b"
    "create_application hmac cfg raw t up b (orig_as_int uid) (w 0 db) = (Some (ac_app_id out), db1)"
    "ac_token out = Some raw" "los_path sha hatch db1 db'"
proof -
  obtain b where b: "validated today body = Some b" using e by (auto simp: submit_application_def split: option.splits)
  obtain i db1 where i: "create_application hmac cfg raw t up b (orig_as_int uid) (w 0 db) = (Some i, db1)"
    using e b by (auto simp: submit_application_def internal_error_def raise_http_def split: option.splits prod.splits)
  let ?k = "kyc_payload_of i (bind_option (app_by_id (w 1 db1) i) la_applicant_id) (Some (ain_name b)) (ain_dob b)
              (ssn_last4 (ain_ssn b)) (ain_address b) (ain_is_entity b)"
  obtain r db3 where r: "run_kyc call audited ?k (ain_is_entity b) (w 2 (w 1 db1)) = (r, db3)"
    by (cases "run_kyc call audited ?k (ain_is_entity b) (w 2 (w 1 db1))")
  have "los_path sha hatch db1 (snd (run_kyc call audited ?k (ain_is_entity b) (w 2 (w 1 db1))))"
    by (intro run_kyc_path [OF c] los_others [OF w] rtranclp.rtrancl_refl)
  moreover have "ac_app_id out = i" "ac_token out = Some raw" "db' = db3"
    using e b i r by (auto simp: submit_application_def Let_def split: prod.splits)
  ultimately show thesis using that [OF b] i r by simp
qed

section \<open>Tokens\<close>

lemma stored_nonempty: "hash_token hmac cfg raw = Some stored \<Longrightarrow> stored \<noteq> ''''"
  by (auto simp: hash_token_def)

lemma submitted_row:
  assumes "create_application hmac cfg raw t up b sub db = (Some i, db1)" "apps_ok db"
    and "los_path sha hatch db1 db2" "apps_ok db1" "app_by_id db2 i = Some row"
  shows "hash_token hmac cfg raw = la_token row"
    "la_status row = ''funded'' \<or> la_token_expires row = Some (t + token_ttl_days cfg * micros_per_day)"
proof -
  from assms(1) obtain stored where s: "hash_token hmac cfg raw = Some stored" "i = next_app db"
    "db1 = db\<lparr>los_applicants := los_applicants db @ [(applicant_of b)\<lparr>apl_id := next_applicant db\<rparr>],
       los_apps := los_apps db @ [(application_of_intake b stored (t + token_ttl_days cfg * micros_per_day) sub)
         \<lparr>la_id := next_app db, la_applicant_id := Some (next_applicant db)\<rparr>],
       next_applicant := next_applicant db + 1, next_app := next_app db + 1\<rparr>"
    by (rule created_row)
  let ?a = "(application_of_intake b stored (t + token_ttl_days cfg * micros_per_day) sub)
         \<lparr>la_id := next_app db, la_applicant_id := Some (next_applicant db)\<rparr>"
  have "?a \<in> set (los_apps db1)" "la_id ?a = i" using s by simp_all
  then have "app_by_id db1 i = Some ?a" by (rule app_by_id_row [OF assms(4)])
  then have "row_kept ?a row" using app_path [OF assms(3,4) _ assms(5)] by blast
  then show "hash_token hmac cfg raw = la_token row"
    "la_status row = ''funded'' \<or> la_token_expires row = Some (t + token_ttl_days cfg * micros_per_day)"
    using s(1) by (auto simp: row_kept_def application_of_intake_def)
qed

lemma issued_token_opens:
  assumes "los_sessions_ok sha hatch w" "kyc_calls_ok sha hatch call" "apps_ok db"
    and "submit_application hmac cfg call raw t today up audited w body uid db = (Inr out, db1)"
    and "issuing_key cfg = Some (v, s)"
    and "los_path sha hatch db1 db2" "app_by_id db2 (ac_app_id out) = Some row" "la_status row \<noteq> ''funded''"
    and "\<not> orig_is_officer role" "\<not> owns_application db2 row (orig_as_int uid')"
  shows "require_officer_or_owner hmac cfg' t' db2 (ac_app_id out) role uid' (Some raw') = Inr () \<longleftrightarrow>
    t' < t + token_ttl_days cfg * micros_per_day \<and> raw' \<noteq> '''' \<and>
    (\<exists>s'. (v, s') \<in> set (verify_keys cfg') \<and> hmac s' raw' = hmac s raw)"
proof -
  from submit_Inr [OF assms(1,2,4)] obtain b m where
    m: "create_application hmac cfg raw t up b (orig_as_int uid) (w 0 db) = (Some (ac_app_id out), m)"
    "los_path sha hatch m db1" by metis
  have ok0: "apps_ok (w 0 db)" using apps_ok_path [OF los_sessionsD [OF assms(1)] assms(3)] .
  have "apps_ok m"
    using apps_ok_path [OF create_path [OF rtranclp.rtrancl_refl [of "los_step sha hatch" "w 0 db"],
          of hmac cfg raw t up b "orig_as_int uid"] ok0] m(1) by simp
  note k = submitted_row [OF m(1) ok0 los_path_trans [OF m(2) assms(6)] this assms(7)]
  obtain stored where st: "hash_token hmac cfg raw = Some stored" "la_token row = Some stored"
    using k(1) assms(5) by (auto simp: hash_token_def)
  have "la_token_expires row = Some (t + token_ttl_days cfg * micros_per_day)" using k(2) assms(8) by simp
  then have "holds_token hmac cfg' t' row (Some raw') \<longleftrightarrow>
      t' < t + token_ttl_days cfg * micros_per_day \<and> raw' \<noteq> '''' \<and> verify_token hmac cfg' raw' stored"
    using st stored_nonempty [OF st(1)] by (auto simp: holds_token_def expired_def)
  then show ?thesis using verify_issued [OF st(1) assms(5)] assms(7,9,10) by (auto simp: owner_gate_iff)
qed

text \<open>C21. A resume token opens its own application and nothing else does. After a submit, and after any
  steps of any session, a caller who is neither an officer nor the owner passes the gate of the
  application, while it is not funded, exactly before the expiry and with a token whose digest
  under a configured key of the issuing version is that of the issued token. So the issued token
  works as long as its key stays configured, under a newer issuing key too.\<close>

theorem resume_token_opens_its_application:
  assumes "los_sessions_ok sha hatch w" "kyc_calls_ok sha hatch call" "apps_ok db"
    and "submit_application hmac cfg call raw t today up audited w body uid db = (Inr out, db1)"
    and "issuing_key cfg = Some (v, s)"
    and "los_path sha hatch db1 db2" "app_by_id db2 (ac_app_id out) = Some row" "la_status row \<noteq> ''funded''"
    and "\<not> orig_is_officer role" "\<not> owns_application db2 row (orig_as_int uid')"
  shows "require_officer_or_owner hmac cfg' t' db2 (ac_app_id out) role uid' (Some raw') = Inr () \<longleftrightarrow>
    t' < t + token_ttl_days cfg * micros_per_day \<and> raw' \<noteq> '''' \<and>
    (\<exists>s'. (v, s') \<in> set (verify_keys cfg') \<and> hmac s' raw' = hmac s raw)"
  by (rule issued_token_opens [OF assms])

definition sample_intake :: application_in where
  "sample_intake = \<lparr>ain_name = ''Bo'', ain_dob = None, ain_ssn = None, ain_ein = None, ain_is_entity = False,
     ain_email = None, ain_phone = None, ain_address = Some ''1 Main'', ain_amount = 9000, ain_term_months = 24,
     ain_purpose = None, ain_income = None, ain_monthly_debt = 0, ain_employer = None, ain_job_title = None,
     ain_employment_years = None\<rparr>"

abbreviation no_kyc :: "kyc_payload \<Rightarrow> los_db \<Rightarrow> (string + bool) \<times> los_db" where
  "no_kyc \<equiv> \<lambda>_ db. (Inl ''ConnectError'', db)"

abbreviation sample_submit :: "application_created response \<times> los_db" where
  "sample_submit \<equiv> submit_application toy_hmac sample_keys no_kyc ''tok'' 0 739000 True False los_alone sample_intake
     None sample_boarded"

lemma sample_submit:
  "map_sum id ac_app_id (fst sample_submit) = Inr 11"
  "map_option la_status (app_by_id (snd sample_submit) 11) = Some ''submitted''"
  by code_simp+

theorem resume_token_opens_its_application_witness:
  "\<exists>db1. snd sample_submit = db1 \<and>
     require_officer_or_owner toy_hmac sample_keys 1 db1 11 None None (Some ''tok'') = Inr ()"
proof -
  obtain out where out: "sample_submit = (Inr out, snd sample_submit)" "ac_app_id out = 11"
    using sample_submit(1) by (cases "fst sample_submit") (auto simp: prod_eq_iff)
  obtain row where row: "app_by_id (snd sample_submit) (ac_app_id out) = Some row" "la_status row = ''submitted''"
    using sample_submit(2) out(2) by auto
  have key: "issuing_key sample_keys = Some (''k'', ''secret'')" "(''k'', ''secret'') \<in> set (verify_keys sample_keys)"
    by code_simp+
  have ok: "apps_ok sample_boarded" using sample_boarded_ok by (simp add: los_ok_def)
  have call: "kyc_calls_ok sample_sha True no_kyc" by (simp add: kyc_calls_ok_def)
  have o: "\<not> orig_is_officer None" by code_simp
  have nf: "la_status row \<noteq> ''funded''" using row(2) by simp
  have no: "\<not> owns_application (snd sample_submit) row (orig_as_int None)"
    by (simp add: owns_application_def orig_as_int_def bind_option_def)
  show ?thesis
    using resume_token_opens_its_application [OF los_sessions_idle call ok out(1) key(1) rtranclp.rtrancl_refl row(1) nf o no,
        where cfg' = sample_keys and t' = 1 and raw' = "''tok''"] key(2) out(2)
    by (auto simp: sample_keys_def micros_per_day_def)
qed

text \<open>C22. A retired token only replays. Once an application is funded, every other route refuses a
  caller who is neither officer nor owner with the 404 of an unknown application, whatever token
  they show; accept changes nothing for them and answers that 404 or, to the issued token, the
  loan on the books.\<close>

theorem retired_token_only_replays:
  assumes "los_sessions_ok sha hatch w" "los_ok sha hatch db"
    and "app_by_id (w 0 db) app = Some row" "la_status row = ''funded''"
    and "\<not> orig_is_officer role" "\<not> owns_application (w 0 db) row (orig_as_int uid)"
  shows "require_officer_or_owner hmac cfg t (w 0 db) app role uid tok = raise_http 404 ''application not found'' \<and>
    (accept_offer hmac cfg t w app role uid tok db = (raise_http 404 ''application not found'', w 1 (w 0 db)) \<or>
     (\<exists>i stored raw. accept_offer hmac cfg t w app role uid tok db = (Inr i, w 1 (w 0 db)) \<and>
        (\<exists>l \<in> set (los_loans (w 1 (w 0 db))). l_id l = i \<and> l_app_id l = Some app) \<and>
        la_token row = Some stored \<and> tok = Some raw \<and> verify_token hmac cfg raw stored))"
proof -
  let ?d1 = "w 1 (w 0 db)"
  have ok0: "los_ok sha hatch (w 0 db)" using los_ok_path [OF los_sessionsD [OF assms(1)] assms(2)] .
  have "row \<in> set (los_apps (w 0 db))" using app_by_idD [OF assms(3)] by simp
  then have "la_token_expires row = None" using ok0 assms(4) by (simp add: los_ok_def funded_ok_def)
  then have gate: "require_officer_or_owner hmac cfg t (w 0 db) app role uid tok = raise_http 404 ''application not found''"
    using assms(3,5,6) funded_holds_no_token by (intro owner_gate_denial) (simp add: owner_gate_iff)
  show ?thesis
  proof (cases "terminal_accept_replay hmac cfg ?d1 app tok")
    case None
    then have "accept_offer hmac cfg t w app role uid tok db = (raise_http 404 ''application not found'', ?d1)"
      using gate by (simp add: accept_offer_def Let_def raise_http_def)
    then show ?thesis using gate by blast
  next
    case (Some i)
    then have a: "accept_offer hmac cfg t w app role uid tok db = (Inr i, ?d1)"
      using gate by (simp add: accept_offer_def Let_def raise_http_def)
    obtain raw r stored where r: "tok = Some raw" "find (\<lambda>a. la_id a = app \<and> la_status a = ''funded'') (los_apps ?d1) = Some r"
      "la_token r = Some stored" "verify_token hmac cfg raw stored"
      using Some by (auto simp: terminal_accept_replay_def split: option.splits if_splits)
    then have "r \<in> set (los_apps ?d1)" "la_id r = app" by (auto simp: find_Some_iff)
    moreover have ok1: "apps_ok ?d1" "apps_ok (w 0 db)"
      using ok0 los_ok_path [OF los_sessionsD [OF assms(1)] ok0] by (auto simp: los_ok_def)
    ultimately have "app_by_id ?d1 app = Some r" using app_by_id_row by blast
    then have "row_kept row r" using app_path [OF los_sessionsD [OF assms(1)] ok1(2) assms(3)] by blast
    then have "la_token row = Some stored" using r(3) by (simp add: row_kept_def)
    then show ?thesis using gate a r(1,4) replay_Some(1) [OF Some] unfolding loan_present_def by blast
  qed
qed

abbreviation sample_funded :: los_db where
  "sample_funded \<equiv> snd (sample_accepts sample_boarded)"

lemma sample_funded_ok: "los_ok sample_sha True sample_funded"
proof -
  obtain db1 where a: "sample_accepts sample_boarded = (Inr 0, db1)" using sample_accepts(1) by (metis prod.collapse)
  show ?thesis using accept_result_path(2) [OF los_sessions_idle sample_boarded_ok a] a by simp
qed

theorem retired_token_only_replays_witness:
  "require_officer_or_owner toy_hmac sample_keys 0 sample_funded 10 None None (Some ''raw'')
     = raise_http 404 ''application not found'' \<and>
   accept_offer toy_hmac sample_keys 0 los_alone 10 None None (Some ''raw'') sample_funded = (Inr 0, sample_funded)"
proof -
  have "map_option la_status (app_by_id sample_funded 10) = Some ''funded''"
    "fst (accept_offer toy_hmac sample_keys 0 los_alone 10 None None (Some ''raw'') sample_funded) = Inr 0"
    by code_simp+
  then obtain row where row: "app_by_id sample_funded 10 = Some row" "la_status row = ''funded''"
    and f: "fst (accept_offer toy_hmac sample_keys 0 los_alone 10 None None (Some ''raw'') sample_funded) = Inr 0"
    by auto
  have o: "\<not> orig_is_officer None" by code_simp
  have no: "\<not> owns_application sample_funded row (orig_as_int None)"
    by (simp add: owns_application_def orig_as_int_def bind_option_def)
  show ?thesis
    using retired_token_only_replays [OF los_sessions_idle sample_funded_ok row o no, of toy_hmac sample_keys 0
        "Some ''raw''"] f by (auto simp: raise_http_def)
qed

section \<open>Monthly debt\<close>

lemma captured:
  assumes "apps_ok db" "capture_debt i debt db = (True, db')"
  shows "\<exists>a. app_by_id db' i = Some a \<and> la_monthly_debt a = Some debt"
proof -
  obtain a where a: "a \<in> set (los_apps db)" "la_id a = i" "la_monthly_debt a = None"
    and db': "db' = snd (capture_debt i debt db)" using assms(2) by (auto simp: capture_debt_def)
  then have "a\<lparr>la_monthly_debt := Some debt\<rparr> \<in> set (los_apps db')"
    unfolding db' snd_capture_debt set_app_def by force
  moreover have "apps_ok db'" using apps_ok_step [OF ls_debt assms(1)] unfolding db' .
  ultimately show ?thesis using app_by_id_row a(2) by fastforce
qed

lemma capture_Inr:
  assumes "capture_monthly_debt token w app debt shown hdr uid db = (Inr r, db')"
  obtains m where "capture_debt app debt (w 1 (w 0 db)) = (True, m)" "los_path sha hatch (w 2 m) db'"
    "r = (app, debt)"
proof -
  obtain ok m where m: "capture_debt app debt (w 1 (w 0 db)) = (ok, m)" by (cases "capture_debt app debt (w 1 (w 0 db))")
  have r: "ok" "r = (app, debt)" "\<exists>x y z. db' = audit x y z (w 2 m)"
    using assms m
    by (cases ok; auto simp: capture_monthly_debt_def Let_def raise_http_def split: if_splits sum.splits option.splits)+
  then obtain x y z where "db' = audit x y z (w 2 m)" by blast
  then have "los_path sha hatch (w 2 m) db'" using los_then_step [OF rtranclp.rtrancl_refl ls_audit] by simp
  then show thesis using that [of m] m r(1,2) by simp
qed

text \<open>A monthly debt is recorded once. After a successful capture, and after any steps of any
  session, the application still carries that debt, and every further capture is refused.\<close>

theorem monthly_debt_recorded_once:
  assumes "los_sessions_ok sha hatch w" "los_sessions_ok sha hatch w'" "apps_ok db"
    and "capture_monthly_debt token w app debt shown hdr uid db = (Inr r, db1)"
    and "los_path sha hatch db1 db2"
  shows "(\<forall>a. app_by_id db2 app = Some a \<longrightarrow> la_monthly_debt a = Some debt) \<and>
    (\<exists>e. fst (capture_monthly_debt token' w' app debt' shown' hdr' uid' db2) = Inl e)"
proof -
  from assms(4) obtain m where m: "capture_debt app debt (w 1 (w 0 db)) = (True, m)" "los_path sha hatch (w 2 m) db1"
    by (rule capture_Inr)
  have ok: "apps_ok (w 1 (w 0 db))"
    by (rule apps_ok_path [OF los_others [OF assms(1) los_sessionsD [OF assms(1)]] assms(3)])
  have okm: "apps_ok m" using apps_ok_step [OF ls_debt ok, of app debt] m(1) by simp
  obtain a where a: "app_by_id m app = Some a" "la_monthly_debt a = Some debt" using captured [OF ok m(1)] by blast
  have p: "los_path sha hatch m db2"
    using los_path_trans [OF los_path_trans [OF los_sessionsD [OF assms(1)] m(2)] assms(5)] .
  have kept: "la_monthly_debt b = Some debt" if "los_path sha hatch db2 x" "app_by_id x app = Some b" for x b
    using app_path [OF los_path_trans [OF p that(1)] okm a(1) that(2)] a(2) by (simp add: row_kept_def)
  have "\<not> (\<exists>r d. capture_monthly_debt token' w' app debt' shown' hdr' uid' db2 = (Inr r, d))"
    using kept [OF los_sessionsD [OF assms(2)], of 0]
    by (auto simp: capture_monthly_debt_def Let_def raise_http_def split: if_splits sum.splits option.splits)
  then have "\<exists>e. fst (capture_monthly_debt token' w' app debt' shown' hdr' uid' db2) = Inl e"
    by (metis prod.collapse sum.exhaust)
  then show ?thesis using kept [OF rtranclp.rtrancl_refl] by blast
qed

theorem monthly_debt_recorded_once_witness:
  "fst (capture_monthly_debt ''s'' los_alone 10 500 ''500'' (Some ''s'') None sample_boarded) = Inr (10, 500) \<and>
   map_option la_monthly_debt (app_by_id (snd (capture_monthly_debt ''s'' los_alone 10 500 ''500'' (Some ''s'') None
     sample_boarded)) 10) = Some (Some 500)"
proof -
  let ?c = "capture_monthly_debt ''s'' los_alone 10 500 ''500'' (Some ''s'') None sample_boarded"
  have f: "fst ?c = Inr (10, 500)" "app_by_id (snd ?c) 10 \<noteq> None" by code_simp+
  then obtain db1 where c: "?c = (Inr (10, 500), db1)" by (metis prod.collapse)
  have ok: "apps_ok sample_boarded" using sample_boarded_ok by (simp add: los_ok_def)
  show ?thesis
    using monthly_debt_recorded_once [OF los_sessions_idle los_sessions_idle ok c rtranclp.rtrancl_refl] f c by auto
qed

section \<open>Abandoning\<close>

lemma abandon_Inr:
  assumes "abandon_application token w app hdr db = (Inr i, db')"
  shows "i = app \<and> (\<exists>ap. delete_application app ap (w 1 (w 0 db)) = (True, db'))"
  using assms
  by (auto simp: abandon_application_def Let_def raise_http_def split: sum.splits option.splits if_splits prod.splits bool.splits)

lemma deleted_gone: "delete_application app ap db = (True, db') \<Longrightarrow> app \<notin> la_id ` set (los_apps db')"
  by (auto simp: delete_application_def Let_def split: if_splits)

text \<open>Abandoning leaves nothing behind. As long as the operations hatch is not used, a successful
  abandon, with any other sessions between its statements, removes the application and leaves no
  decision, event, offer or loan of it.\<close>

theorem abandoned_leaves_nothing:
  assumes "los_sessions_ok sha False w" "los_ok sha False db"
    and "abandon_application token w app hdr db = (Inr i, db')"
  shows "i = app \<and> app_by_id db' app = None \<and> los_decisions db' app = None \<and>
    (\<forall>e \<in> set (events (shared db')). e_app_id e \<noteq> Some app) \<and>
    (\<forall>x \<in> set (offers (shared db')). o_app_id x \<noteq> Some app) \<and>
    (\<forall>l \<in> set (los_loans db'). l_app_id l \<noteq> Some app)"
proof -
  obtain ap where d: "i = app" "delete_application app ap (w 1 (w 0 db)) = (True, db')"
    using abandon_Inr [OF assms(3)] by blast
  have "los_path sha False db db'" using abandon_path [OF assms(1), of db token app hdr] assms(3) by simp
  then have ok: "los_ok sha False db'" using assms(2) by (rule los_ok_path)
  have gone: "app \<notin> la_id ` set (los_apps db')" using deleted_gone [OF d(2)] .
  then have offers: "\<forall>x \<in> set (offers (shared db')). o_app_id x \<noteq> Some app" and "los_decisions db' app = None"
    and "\<forall>e \<in> set (events (shared db')). e_app_id e \<noteq> Some app"
    using ok by (auto simp: los_ok_def references_ok_def)
  moreover have "l_app_id l \<noteq> Some app" if l: "l \<in> set (los_loans db')" for l
  proof -
    obtain r t where "covers (shared db') r l" using ok l by (auto simp: los_ok_def boarded_ok_def disclosed_in_time_def)
    then show ?thesis using offers by (auto simp: covers_def)
  qed
  moreover have "app_by_id db' app = None" using gone by (auto simp: app_by_id_def find_None_iff)
  ultimately show ?thesis using d(1) by blast
qed

definition sample_inert :: los_db where
  "sample_inert = (sample_los [] [])\<lparr>los_decisions := Map.empty,
     shared := (sample_db [])\<lparr>offers := [], events := []\<rparr>\<rparr>"

lemma sample_inert_ok: "los_ok sample_sha False sample_inert"
  by (simp add: los_ok_def shared_ok_def tables_typed_def delivered_past_def apps_ok_def loans_ok_def funded_ok_def
      references_ok_def boarded_ok_def sample_inert_def sample_los_def sample_db_def sample_app_def)

theorem abandoned_leaves_nothing_witness:
  "\<exists>db'. abandon_application ''s'' los_alone 10 (Some ''s'') sample_inert = (Inr 10, db') \<and> app_by_id db' 10 = None"
proof -
  have "fst (abandon_application ''s'' los_alone 10 (Some ''s'') sample_inert) = Inr 10" by code_simp
  then obtain db' where a: "abandon_application ''s'' los_alone 10 (Some ''s'') sample_inert = (Inr 10, db')"
    by (metis prod.collapse)
  show ?thesis using abandoned_leaves_nothing [OF los_sessions_idle sample_inert_ok a] a by blast
qed

text \<open>The hatch boards what is being abandoned. When the operations hatch boards a loan between the
  check and the delete of an abandon, both calls succeed: the application is gone and its loan is
  on the books.\<close>

theorem hatch_boards_abandoned:
  assumes "token \<noteq> ''''" "app_by_id db app = Some a" "inert db app" "\<not> referenced db app" "bi_app_id b = app"
  shows "\<exists>db'. abandon_application token
      (\<lambda>n d. if n = 1 then snd (board token los_alone b (Some token) d) else d) app (Some token) db = (Inr app, db') \<and>
    fst (board token los_alone b (Some token) db) = Inr (next_loan db) \<and>
    app_by_id db' app = None \<and> (\<exists>l \<in> set (los_loans db'). l_app_id l = Some app)"
proof -
  let ?l = "new_loan (bi_app_id b) (bi_applicant_name b) (bi_principal b) (bi_annual_rate_pct b) (bi_term_months b) None"
  have gate: "orig_require_internal_caller token (Some token) = Inr ()" by (rule origination_guard.match) (rule assms(1))
  have "list_all (\<lambda>l. l_app_id l \<noteq> Some app) (los_loans db)" using assms(3) by (simp add: inert_def)
  then have ins: "insert_loan ?l db = (Some (next_loan db), db\<lparr>next_loan := next_loan db + 1,
      los_loans := los_loans db @ [?l\<lparr>l_id := next_loan db, l_opened_at := now db\<rparr>]\<rparr>)"
    using assms(5) by (auto simp: insert_loan_def Let_def list_ex_iff list_all_iff new_loan_def)
  obtain db1 where b: "board token los_alone b (Some token) db = (Inr (next_loan db), db1)"
    "los_apps db1 = los_apps db" "los_decisions db1 = los_decisions db" "shared db1 = shared db"
    "?l\<lparr>l_id := next_loan db, l_opened_at := now db\<rparr> \<in> set (los_loans db1)"
    by (simp add: board_def gate board_to_servicing_def ins insert_balance_def)
  have "\<not> referenced db1 app" using assms(4) b(2-4) by (simp add: referenced_def)
  then obtain db2 where d: "delete_application app (la_applicant_id a) db1 = (True, db2)" "los_loans db2 = los_loans db1"
    using delete_frame(2) [of app "la_applicant_id a" db1] by (auto simp: delete_application_def Let_def)
  have "app_by_id db2 app = None" using deleted_gone [OF d(1)] by (auto simp: app_by_id_def find_None_iff)
  moreover have "\<exists>l \<in> set (los_loans db2). l_app_id l = Some app"
    using b(5) assms(5) d(2) by (intro bexI [of _ "?l\<lparr>l_id := next_loan db, l_opened_at := now db\<rparr>"]) (simp_all add: new_loan_def)
  moreover have "abandon_application token (\<lambda>n d. if n = 1 then snd (board token los_alone b (Some token) d) else d)
      app (Some token) db = (Inr app, db2)"
    by (simp add: abandon_application_def gate assms(2,3) b(1) d(1))
  ultimately show ?thesis using b(1) by (intro exI [of _ db2]) simp
qed

theorem hatch_boards_abandoned_witness:
  "\<exists>w db'. abandon_application ''s'' w 10 (Some ''s'') sample_inert = (Inr 10, db') \<and> app_by_id db' 10 = None \<and>
     (\<exists>l \<in> set (los_loans db'). l_app_id l = Some 10)"
proof -
  define b where "b = \<lparr>bi_app_id = 10, bi_applicant_name = ''Ada'', bi_principal = 8000, bi_annual_rate_pct = 9,
    bi_term_months = 48\<rparr>"
  have "app_by_id sample_inert 10 = Some sample_app" "inert sample_inert 10" "\<not> referenced sample_inert 10"
    by (simp_all add: app_by_id_def inert_def referenced_def sample_inert_def sample_los_def sample_db_def sample_app_def)
  then show ?thesis using hatch_boards_abandoned [of "''s''" sample_inert 10 sample_app b] by (simp add: b_def) blast
qed

section \<open>Identity checks\<close>

lemma validated_facts:
  assumes "validated today body = Some b"
  shows "ain_name b \<noteq> ''''" "ain_is_entity b \<Longrightarrow> strip (case ain_ein b of None \<Rightarrow> '''' | Some e \<Rightarrow> e) \<noteq> ''''"
  using assms
  by (auto simp: validated_def bind_option_def entity_requires_ein_def split: if_splits option.splits)

lemma present_last4 [simp]: "present (ssn_last4 v) = present v"
proof -
  have "drop (length s - 4) s \<noteq> ''''" if "s \<noteq> ''''" for s :: string using that by (cases s) auto
  then show ?thesis by (auto simp: present_def ssn_last4_def split: option.splits)
qed

definition ids_fresh :: "los_db \<Rightarrow> bool" where
  "ids_fresh db \<longleftrightarrow> apps_ok db \<and> (\<forall>p \<in> set (los_applicants db). apl_id p < next_applicant db) \<and>
     (\<forall>k \<in> set (kyc_checks db). kc_applicant_id k \<noteq> Some (next_applicant db))"

lemma find_snoc: "(\<And>x. x \<in> set xs \<Longrightarrow> \<not> P x) \<Longrightarrow> P y \<Longrightarrow> find P (xs @ [y]) = Some y"
  by (induction xs) auto

text \<open>The check as kyc-service makes it right after the insert.\<close>

lemma kyc_service_new:
  assumes "token \<noteq> ''''" "applicant_by_id db i = Some ap"
  shows "kyc_service token True (kyc_payload_of a (Some i) (Some n) dob l4 addr ent) db =
    (Inr (n \<noteq> '''' \<and> present addr),
     db\<lparr>kyc_checks := kyc_checks db @ [\<lparr>kc_id = next_check db, kc_applicant_id = Some i, kc_name = (n \<noteq> ''''),
          kc_dob = present dob, kc_address = present addr, kc_ssn = present l4\<rparr>],
        next_check := next_check db + 1\<rparr>)"
proof -
  have "kyc_require_internal_caller token (Some token) = Inr ()" by (rule kyc_guard.match) (rule assms(1))
  then show ?thesis using assms
    by (simp add: kyc_service_def kyc_payload_of_def kyc_check_def run_cip_def insert_check_def Let_def)
qed

text \<open>What a submit answers and what the gate demands. For a submit nothing interrupts, with
  kyc-service up, the answer calls date of birth and SSN verified for every natural person with
  an address, while the gate of every later step lets exactly those with an address through who
  are an entity or gave both a date of birth and an SSN. So an applicant without them is told
  they are verified and is then refused.\<close>

theorem submit_answer_and_gate:
  assumes "token \<noteq> ''''" "validated today body = Some b" "hash_token hmac cfg raw = Some h" "ids_fresh db"
  shows "\<exists>out db'. submit_application hmac cfg (kyc_service token True) raw t today True audited los_alone body uid db
      = (Inr out, db') \<and> ac_kyc_checked out \<and>
    ko_dob (ac_kyc out) = (present (ain_address b) \<and> \<not> ain_is_entity b) \<and>
    ko_ssn (ac_kyc out) = (present (ain_address b) \<and> \<not> ain_is_entity b) \<and>
    kyc_passed db' (ac_app_id out) =
      (present (ain_address b) \<and> (ain_is_entity b \<or> present (ain_dob b) \<and> present (ain_ssn b)))"
proof -
  note v = validated_facts [OF assms(2)]
  define p where "p = (applicant_of b)\<lparr>apl_id := next_applicant db\<rparr>"
  define a where "a = (application_of_intake b h (t + token_ttl_days cfg * micros_per_day) (orig_as_int uid))
    \<lparr>la_id := next_app db, la_applicant_id := Some (next_applicant db)\<rparr>"
  define db1 where "db1 = db\<lparr>los_applicants := los_applicants db @ [p], los_apps := los_apps db @ [a],
    next_applicant := next_applicant db + 1, next_app := next_app db + 1\<rparr>"
  define k where "k = \<lparr>kc_id = next_check db, kc_applicant_id = Some (next_applicant db), kc_name = True,
    kc_dob = present (ain_dob b), kc_address = present (ain_address b), kc_ssn = present (ain_ssn b)\<rparr>"
  define db2 where "db2 = db1\<lparr>kyc_checks := kyc_checks db @ [k], next_check := next_check db + 1\<rparr>"
  have fresh: "\<forall>x \<in> set (los_apps db). la_id x < next_app db" "\<forall>x \<in> set (los_applicants db). apl_id x < next_applicant db"
    "\<forall>x \<in> set (kyc_checks db). kc_applicant_id x \<noteq> Some (next_applicant db)"
    using assms(4) by (simp_all add: ids_fresh_def apps_ok_def)
  have "find (\<lambda>x. la_id x = next_app db) (los_apps db @ [a]) = Some a"
    using fresh(1) by (intro find_snoc) (auto simp: a_def)
  then have app: "app_by_id db1 (next_app db) = Some a" by (simp add: app_by_id_def db1_def)
  have "find (\<lambda>x. apl_id x = next_applicant db) (los_applicants db @ [p]) = Some p"
    using fresh(2) by (intro find_snoc) (auto simp: p_def)
  then have ap: "applicant_by_id db1 (next_applicant db) = Some p" by (simp add: applicant_by_id_def db1_def)
  have created: "create_application hmac cfg raw t True b (orig_as_int uid) db = (Some (next_app db), db1)"
    by (simp add: create_application_def assms(3) insert_application_def db1_def a_def p_def)
  have check: "kyc_service token True (kyc_payload_of (next_app db) (Some (next_applicant db)) (Some (ain_name b))
      (ain_dob b) (ssn_last4 (ain_ssn b)) (ain_address b) (ain_is_entity b)) db1 = (Inr (present (ain_address b)), db2)"
    using kyc_service_new [OF assms(1) ap] v(1) by (simp add: db2_def k_def db1_def)
  have same: "app_by_id db2 = app_by_id db1" "applicant_by_id db2 = applicant_by_id db1"
    by (simp_all add: fun_eq_iff app_by_id_def applicant_by_id_def db2_def)
  have la: "la_applicant_id a = Some (next_applicant db)" by (simp add: a_def)
  have "filter (\<lambda>x. kc_applicant_id x = Some (next_applicant db)) (kyc_checks db) = []"
    using fresh(3) by (simp add: filter_empty_conv)
  then have latest: "latest_check db2 (Some (next_applicant db)) = Some k"
    by (simp add: latest_check_def db2_def k_def)
  have pa: "apl_id p = next_applicant db" "apl_is_entity p = ain_is_entity b" "apl_ein p = ain_ein b"
    by (simp_all add: p_def applicant_of_def)
  have "kyc_passed db2 (next_app db) =
      (present (ain_address b) \<and> (ain_is_entity b \<or> present (ain_dob b) \<and> present (ain_ssn b)))"
    using v(2) by (auto simp: kyc_passed_def same app ap la latest bind_option_def pa k_def)
  then show ?thesis using assms(2) created app check la
    by (simp add: submit_application_def run_kyc_def bind_option_def)
qed

theorem submit_answer_and_gate_witness:
  "\<exists>out db'. submit_application toy_hmac sample_keys (kyc_service ''s'' True) ''tok'' 0 739000 True True los_alone
     sample_intake None sample_inert = (Inr out, db') \<and> ko_dob (ac_kyc out) \<and> \<not> kyc_passed db' (ac_app_id out)"
proof -
  have v: "validated 739000 sample_intake = Some sample_intake" "hash_token toy_hmac sample_keys ''tok'' = Some ''k:secrettok''"
    by code_simp+
  have "ids_fresh sample_inert"
    by (simp add: ids_fresh_def apps_ok_def sample_inert_def sample_los_def sample_app_def)
  then show ?thesis
    using submit_answer_and_gate [OF _ v, of "''s''" sample_inert 0 True None]
    by (fastforce simp: sample_intake_def present_def)
qed

end
