(* ===== verification/GatewayProps.thy ===== *)
theory GatewayProps
  imports Gateway IntakeProps
begin

text \<open>
  Properties of the gateway: the stored form of a password and its migration, who a forwarded
  request can speak for, the way of a continuation token through the gateway, and the submit and
  resume journeys with the model of origination behind the proxy.
\<close>

section \<open>Hexadecimal text\<close>

lemma char_code_less: "char_code c < 256"
  by (simp add: char_code_def)

lemma hex_digit_cases:
  "n < 16 \<Longrightarrow> nibble_char n \<in> set ''0123456789abcdef''"
  by (simp add: nibble_char_def nth_mem del: set_simps)

lemma hex_nibble_digit: "n < 16 \<Longrightarrow> hex_nibble (nibble_char n) = Some n"
proof -
  have "list_all (\<lambda>k. hex_nibble (nibble_char k) = Some k) [0..<16]" by code_simp
  then show "n < 16 \<Longrightarrow> hex_nibble (nibble_char n) = Some n" by (simp add: list_all_iff)
qed

lemma hex_digit_plain:
  "n < 16 \<Longrightarrow> \<not> ascii_space (nibble_char n) \<and> nibble_char n \<noteq> CHR ''$'' \<and> char_code (nibble_char n) < 128"
proof -
  have "list_all (\<lambda>k. \<not> ascii_space (nibble_char k) \<and> nibble_char k \<noteq> CHR ''$'' \<and> char_code (nibble_char k) < 128) [0..<16]"
    by code_simp
  then show "n < 16 \<Longrightarrow> ?thesis" by (simp add: list_all_iff)
qed

lemma from_to_hex [simp]: "from_hex (to_hex s) = Some s"
proof (induction s)
  case (Cons c s)
  have d: "char_code c div 16 < 16" "char_code c mod 16 < 16" using char_code_less [of c] by simp_all
  have "char_of (16 * (char_code c div 16) + char_code c mod 16) = c" by (simp add: char_code_def)
  then show ?case
    using Cons d hex_digit_plain hex_nibble_digit by (simp add: to_hex_def)
qed (simp add: to_hex_def)

lemma to_hex_inj: "to_hex a = to_hex b \<longleftrightarrow> a = b"
  using from_to_hex by (metis option.inject)

lemma to_hex_chars:
  assumes "c \<in> set (to_hex s)"
  shows "c \<noteq> CHR ''$'' \<and> char_code c < 128"
proof -
  note assms
  then obtain d where "c = nibble_char (char_code d div 16) \<or> c = nibble_char (char_code d mod 16)"
    by (auto simp: to_hex_def)
  moreover have "char_code d div 16 < 16" "char_code d mod 16 < 16" using char_code_less [of d] by simp_all
  ultimately show ?thesis using hex_digit_plain by metis
qed

lemma is_ascii_hex [simp]: "is_ascii (to_hex s)"
  using to_hex_chars by (auto simp: is_ascii_def list_all_iff)

lemma split_max_append:
  "c \<notin> set a \<Longrightarrow> split_max (Suc n) c (a @ c # rest) = a # split_max n c rest"
  by (simp add: partition_on_append)

lemma split_max_last: "c \<notin> set a \<Longrightarrow> split_max n c a = [a]"
proof (cases n)
  case (Suc m)
  moreover assume c: "c \<notin> set a"
  have "takeWhile (\<lambda>x. x \<noteq> c) a = a" "dropWhile (\<lambda>x. x \<noteq> c) a = []" using c by (auto simp: takeWhile_eq_all_conv)
  then have "partition_on c a = (a, None)" unfolding partition_on_def by (metis list.simps(4))
  ultimately show ?thesis by simp
qed simp

section \<open>Integers as text\<close>


lemma digits_body: "s \<noteq> [] \<Longrightarrow> list_all py_digit s \<Longrightarrow> int_body_ok s"
proof (induction s rule: int_body_ok.induct)
  case (3 c d cs)
  then have "d \<noteq> CHR ''_''" by (auto simp: py_digit_def char_code_def)
  then show ?case using 3 by simp
qed simp_all

lemma int_char_plain: "int_char c \<Longrightarrow> \<not> py_space c \<and> c \<noteq> CHR ''$'' \<and> c \<noteq> CHR ''+''"
  by (auto simp: int_char_def py_digit_def py_space_def Let_def char_code_def)

lemma py_int_show_int [simp]: "py_int (show_int i) = Some i"
proof -
  have "strip (show_int i) = show_int i"
    using show_int_chars(1) [of i] int_char_plain by (intro strip_none) (auto simp: list_all_iff)
  moreover have d: "list_all py_digit (show_nat n)" "show_nat n \<noteq> []" for n
    by (rule show_nat_digits show_nat_nonempty)+
  then have "hd (show_nat n) \<noteq> CHR ''-''" "hd (show_nat n) \<noteq> CHR ''+''" for n
    using d [of n] by (cases "show_nat n"; fastforce simp: py_digit_def char_code_def)+
  moreover have "filter py_digit (show_nat n) = show_nat n" for n using d(1) [of n] by (simp add: list_all_iff)
  ultimately show ?thesis using d by (simp add: py_int_def Let_def show_int_def digits_body)
qed

section \<open>Passwords\<close>

lemma prefix_parts: "pbkdf2_prefix = ''pbkdf2_sha256'' @ [CHR ''$'']"
  by (simp add: pbkdf2_prefix_def)


lemma hash_parts:
  "split_max 3 (CHR ''$'') (hash_password pbkdf2 p salt) =
     [''pbkdf2_sha256'', show_int pbkdf2_iterations, to_hex salt, to_hex (pbkdf2 p salt pbkdf2_iterations)]"
proof -
  have three: "3 = Suc (Suc (Suc 0))" by simp
  have h: "CHR ''$'' \<notin> set (to_hex x)" for x using to_hex_chars [of "CHR ''$''" x] by argo
  have t: "CHR ''$'' \<notin> set ''pbkdf2_sha256''" by code_simp
  have n: "CHR ''$'' \<notin> set (show_int i)" for i
    using show_int_chars(1) [of i] int_char_plain by (auto simp: list_all_iff)
  have "hash_password pbkdf2 p salt = ''pbkdf2_sha256'' @ CHR ''$'' # (show_int pbkdf2_iterations @ CHR ''$'' #
      (to_hex salt @ CHR ''$'' # to_hex (pbkdf2 p salt pbkdf2_iterations)))"
    by (simp add: hash_password_def prefix_parts)
  then show ?thesis unfolding three
    by (simp only: split_max_append [OF t] split_max_append [OF n] split_max_append [OF h] split_max_last [OF h])
qed

lemma hash_prefix [simp]: "take (length pbkdf2_prefix) (hash_password pbkdf2 p salt) = pbkdf2_prefix"
  by (simp add: hash_password_def)

text \<open>What a stored hash accepts. The hash the gateway stores for a password verifies exactly the
  passwords with the same PBKDF2 digest under its salt, and no check of it raises.\<close>

lemma stored_password_verifies:
  "verify_password pbkdf2 sha q (hash_password pbkdf2 p salt) =
     Some (pbkdf2 q salt pbkdf2_iterations = pbkdf2 p salt pbkdf2_iterations)"
proof -
  have "1 \<le> pbkdf2_iterations" "pbkdf2_iterations < 2 ^ 31" by (simp_all add: pbkdf2_iterations_def)
  then show ?thesis by (simp add: verify_password_def hash_parts to_hex_inj)
qed

text \<open>Accounts drain to the salted hash. When an account still holds its old digest, one
  login with the old password stores a salted hash of that password and changes no other
  account; from then on a password logs in exactly when it has the same PBKDF2 digest, and a login
  changes nothing any more. A password with another digest changes nothing at any time.\<close>

theorem legacy_account_migrates:
  assumes "find (\<lambda>a. us_username a = name) (gw_accounts st) = Some a" "us_active a"
    and "take (length pbkdf2_prefix) (us_password_hash a) \<noteq> pbkdf2_prefix" "us_password_hash a = sha p"
    and "is_ascii (us_password_hash a)" "distinct (map us_id (gw_accounts st))" "up 0" "up (Suc 0)" "up' 0"
  shows "\<exists>st1 a1. authenticate pbkdf2 sha up salt name p st = (Some (Some (session_user a)), st1) \<and>
    redis st1 = redis st \<and> filter (\<lambda>x. us_id x \<noteq> us_id a) (gw_accounts st1) = filter (\<lambda>x. us_id x \<noteq> us_id a) (gw_accounts st) \<and>
    a1 = a\<lparr>us_password_hash := hash_password pbkdf2 p salt\<rparr> \<and>
    find (\<lambda>x. us_username x = name) (gw_accounts st1) = Some a1 \<and>
    authenticate pbkdf2 sha up' salt' name q st1 =
      (Some (if pbkdf2 q salt pbkdf2_iterations = pbkdf2 p salt pbkdf2_iterations then Some (session_user a) else None), st1) \<and>
    (sha q \<noteq> sha p \<longrightarrow> authenticate pbkdf2 sha up' salt' name q st = (Some None, st))"
proof -
  let ?new = "\<lambda>x. if us_id x = us_id a then x\<lparr>us_password_hash := hash_password pbkdf2 p salt\<rparr> else x"
  let ?a1 = "a\<lparr>us_password_hash := hash_password pbkdf2 p salt\<rparr>"
  let ?st1 = "st\<lparr>gw_accounts := map ?new (gw_accounts st)\<rparr>"
  have old: "verify_password pbkdf2 sha x (us_password_hash a) = Some (sha x = sha p)" for x
    using assms(3-5) by (simp add: verify_password_def)
  have first: "authenticate pbkdf2 sha up salt name p st = (Some (Some (session_user a)), ?st1)"
    using assms(1-3,7,8) old by (simp add: authenticate_def)
  have found: "find (\<lambda>x. us_username x = name) (map ?new xs) = Some ?a1"
    if "find (\<lambda>x. us_username x = name) xs = Some a" for xs using that by (induction xs) (auto split: if_splits)
  have others: "filter (\<lambda>x. us_id x \<noteq> us_id a) (map ?new xs) = filter (\<lambda>x. us_id x \<noteq> us_id a) xs" for xs
    by (induction xs) auto
  have user: "session_user ?a1 = session_user a" by (simp add: session_user_def)
  have again: "authenticate pbkdf2 sha up' salt' name q ?st1 =
      (Some (if pbkdf2 q salt pbkdf2_iterations = pbkdf2 p salt pbkdf2_iterations then Some (session_user a) else None), ?st1)"
    using assms(2,9) found [OF assms(1)] by (simp add: authenticate_def stored_password_verifies user)
  have wrong: "sha q \<noteq> sha p \<longrightarrow> authenticate pbkdf2 sha up' salt' name q st = (Some None, st)"
    using assms(1,2,9) old by (simp add: authenticate_def)
  show ?thesis using first again wrong found [OF assms(1)] others by (intro exI [of _ ?st1] exI [of _ ?a1]) simp
qed


theorem legacy_account_migrates_witness:
  "\<exists>st1. authenticate (\<lambda>p s n. p @ s) (\<lambda>p. p @ ''!'') (\<lambda>_. True) ''s'' ''ada'' ''pw''
     \<lparr>gw_accounts = [\<lparr>us_id = 1, us_username = ''ada'', us_role = ''admin'', us_display_name = None,
        us_password_hash = ''pw!'', us_active = True\<rparr>], redis = Map.empty\<rparr>
     = (Some (Some \<lparr>gu_id = 1, gu_username = ''ada'', gu_role = ''admin'', gu_name = None\<rparr>), st1) \<and>
   fst (authenticate (\<lambda>p s n. p @ s) (\<lambda>p. p @ ''!'') (\<lambda>_. True) ''t'' ''ada'' ''no'' st1) = Some None"
proof -
  let ?a = "\<lparr>us_id = 1, us_username = ''ada'', us_role = ''admin'', us_display_name = None,
        us_password_hash = ''pw!'', us_active = True\<rparr>"
  let ?st = "\<lparr>gw_accounts = [?a], redis = Map.empty\<rparr>"
  have f: "find (\<lambda>a. us_username a = ''ada'') (gw_accounts ?st) = Some ?a" "us_active ?a"
    "take (length pbkdf2_prefix) (us_password_hash ?a) \<noteq> pbkdf2_prefix" "us_password_hash ?a = ''pw'' @ ''!''"
    "is_ascii (us_password_hash ?a)" "distinct (map us_id (gw_accounts ?st))"
    by (simp_all add: pbkdf2_prefix_def is_ascii_def char_code_def)
  obtain st1 where "authenticate (\<lambda>p s n. p @ s) (\<lambda>p. p @ ''!'') (\<lambda>_. True) ''s'' ''ada'' ''pw'' ?st
      = (Some (Some (session_user ?a)), st1)"
    "authenticate (\<lambda>p s n. p @ s) (\<lambda>p. p @ ''!'') (\<lambda>_. True) ''t'' ''ada'' ''no'' st1 = (Some None, st1)"
    using legacy_account_migrates [OF f(1-3), of "\<lambda>p. p @ ''!''" "''pw''" "\<lambda>_. True" "\<lambda>_. True" "\<lambda>p s n. p @ s" "''s''" "''t''" "''no''"]
      f(4-6) by auto
  then show ?thesis by (simp add: session_user_def)
qed

section \<open>Who a forwarded request speaks for\<close>

lemma dict_of_keys: "fst ` set (dict_of hs) \<subseteq> fst ` set hs"
proof -
  have *: "fst ` set (foldl (\<lambda>d (k, v). AList.update k v d) d hs) \<subseteq> fst ` set d \<union> fst ` set hs" for d
  proof (induction hs arbitrary: d)
    case (Cons h hs)
    obtain k v where h: "h = (k, v)" by (cases h)
    show ?case using Cons [of "AList.update k v d"] h by (auto simp: dom_update)
  qed simp
  show ?thesis using * [of "[]"] by (simp add: dict_of_def)
qed

lemma header_absent:
  "lower name \<notin> lower ` fst ` set hs \<Longrightarrow> header_value name hs = None"
  unfolding header_value_def map_option_is_None find_None_iff by (metis image_eqI)

lemma header_value_append:
  "header_value name (hs @ hs') = (case header_value name hs of None \<Rightarrow> header_value name hs' | Some v \<Rightarrow> Some v)"
proof -
  have "find P (xs @ ys) = (case find P xs of None \<Rightarrow> find P ys | Some x \<Rightarrow> Some x)" for P and xs ys :: "(string \<times> string) list"
    by (induction xs) auto
  then show ?thesis by (simp add: header_value_def split: option.splits)
qed

lemma trust_header_dropped:
  assumes "lower name \<in> set stripped_headers"
  shows "header_value name (dict_of (filter (\<lambda>h. lower (fst h) \<notin> set stripped_headers) hs)) = None"
  using assms dict_of_keys by (intro header_absent) fastforce

lemma trust_names:
  "lower ''X-User-Id'' = ''x-user-id''" "lower ''X-User-Role'' = ''x-user-role''"
  "lower ''X-Application-Token'' = ''x-application-token''" "lower ''X-Internal-Service'' = ''x-internal-service''"
  by code_simp+

lemma forwarded_trust [simp]:
  "header_value ''X-User-Id'' (forward_headers user tok hs) = map_option (\<lambda>u. show_int (gu_id u)) user"
  "header_value ''X-User-Role'' (forward_headers user tok hs) = map_option gu_role user"
  "header_value ''X-Application-Token'' (forward_headers user tok hs) = (if present tok then tok else None)"
  "header_value ''X-Internal-Service'' (forward_headers user tok hs) = None"
proof -
  note d = trust_header_dropped [of _ hs]
  have s: "''x-user-id'' \<in> set stripped_headers" "''x-user-role'' \<in> set stripped_headers"
    "''x-application-token'' \<in> set stripped_headers" "''x-internal-service'' \<in> set stripped_headers"
    by (simp_all add: stripped_headers_def)
  show "header_value ''X-User-Id'' (forward_headers user tok hs) = map_option (\<lambda>u. show_int (gu_id u)) user"
    "header_value ''X-User-Role'' (forward_headers user tok hs) = map_option gu_role user"
    "header_value ''X-Application-Token'' (forward_headers user tok hs) = (if present tok then tok else None)"
    "header_value ''X-Internal-Service'' (forward_headers user tok hs) = None"
    using d [of "''X-User-Id''"] d [of "''X-User-Role''"] d [of "''X-Application-Token''"] d [of "''X-Internal-Service''"] s
    by (simp_all add: forward_headers_def header_value_append trust_names present_def)
      (auto simp: header_value_def trust_names split: option.splits)
qed

lemma los_prepare_Inr:
  assumes "los_prepare clk up base path r st = Inr (f, user)"
  obtains sess where "get_session (clk 0) (up 0) (bearer_token (rq_authorization r)) st = Some user"
    "resume_for (clk 2) (up 2) r user st = Some sess"
    "attach_token base (CHR ''/'' # path) r user (token_for path sess) = Some f"
  using assms by (auto simp: los_prepare_def split: option.splits if_splits)

lemma attach_token_Some:
  assumes "attach_token base path r user token = Some f"
  obtains tok where "f = forward_request base path r user tok" "present tok \<Longrightarrow> token = Some (VStr (the tok))"
  using assms by (cases "the token") (auto simp: attach_token_def present_def split: option.splits if_splits)

lemma resolve_resumeD:
  assumes "resolve_resume t ok sid st = Some (Some (a, k))"
  obtains s where "sid = Some s" "s \<noteq> ''''" "redis_get t (''resume:'' @ s) st = Some (Resume_data a k)"
  using assms by (auto simp: resolve_resume_def split: option.splits if_splits stored_value.splits)

lemma token_for_Some:
  "token_for path (Some (a, k)) = Some v \<Longrightarrow>
   v = k \<and> ((\<exists>i. app_id_in_path path = Some i \<and> shows_as a i) \<or> strip_of (\<lambda>c. c = CHR ''/'') path = ''offer'')"
  by (auto simp: token_for_def split: if_splits option.splits)

text \<open>A downstream service that records what it is sent.\<close>

definition recorder :: "(forwarded \<Rightarrow> gw_reply) \<Rightarrow> forwarded \<Rightarrow> forwarded list \<Rightarrow> gw_reply \<times> forwarded list" where
  "recorder answer f sent = (answer f, sent @ [f])"

lemma los_sends:
  assumes "los cfg clk up sid (recorder answer) (\<lambda>_ _ log. log) base path r st [] = (out, st', sent)"
  shows "sent = (case los_prepare clk up base path r st of Inl _ \<Rightarrow> [] | Inr (f, user) \<Rightarrow> [f])"
  using assms
  by (auto simp: los_def los_finish_def recorder_def abandon_submit_def Let_def
      split: sum.splits prod.splits option.splits if_splits)

text \<open>C24. Only the stored session speaks for a caller. Whatever headers, cookie and body a client sends,
  and whatever origination answers, each request the gateway forwards to origination carries as
  user id and role those of the live session of the presented bearer token and none without one,
  never a service-to-service secret, and a continuation token only when a live resume session of
  the presented cookie holds it, for the application named in the path or for the offer route.\<close>

theorem only_sessions_speak:
  assumes "los cfg clk up sid (recorder answer) (\<lambda>_ _ log. log) base path r st [] = (out, st', sent)"
    and "f \<in> set sent"
  shows "\<exists>user. get_session (clk 0) (up 0) (bearer_token (rq_authorization r)) st = Some user \<and>
    header_value ''X-User-Id'' (fw_headers f) = map_option (\<lambda>u. show_int (gu_id u)) user \<and>
    header_value ''X-User-Role'' (fw_headers f) = map_option gu_role user \<and>
    header_value ''X-Internal-Service'' (fw_headers f) = None \<and>
    (\<forall>tok. header_value ''X-Application-Token'' (fw_headers f) = Some tok \<longrightarrow>
       (\<exists>s a. rq_cookie r = Some s \<and> redis_get (clk 2) (''resume:'' @ s) st = Some (Resume_data a (VStr tok)) \<and>
          ((\<exists>i. app_id_in_path path = Some i \<and> shows_as a i) \<or> strip_of (\<lambda>c. c = CHR ''/'') path = ''offer'')))"
proof -
  obtain user where p: "los_prepare clk up base path r st = Inr (f, user)"
    using los_sends [OF assms(1)] assms(2) by (auto split: sum.splits)
  obtain sess where s: "get_session (clk 0) (up 0) (bearer_token (rq_authorization r)) st = Some user"
    "resume_for (clk 2) (up 2) r user st = Some sess"
    "attach_token base (CHR ''/'' # path) r user (token_for path sess) = Some f" using p by (rule los_prepare_Inr)
  obtain tok where f: "f = forward_request base (CHR ''/'' # path) r user tok"
    "present tok \<Longrightarrow> token_for path sess = Some (VStr (the tok))" using s(3) by (rule attach_token_Some) blast
  have h: "fw_headers f = forward_headers user tok (rq_headers r)" using f(1) by (simp add: forward_request_def)
  have "\<exists>s a. rq_cookie r = Some s \<and> redis_get (clk 2) (''resume:'' @ s) st = Some (Resume_data a (VStr w)) \<and>
      ((\<exists>i. app_id_in_path path = Some i \<and> shows_as a i) \<or> strip_of (\<lambda>c. c = CHR ''/'') path = ''offer'')"
    if w: "header_value ''X-Application-Token'' (fw_headers f) = Some w" for w
  proof -
    have "present tok" "the tok = w" using w h by (auto split: if_splits)
    then have t: "token_for path sess = Some (VStr w)" using f(2) by simp
    then obtain a k where sess: "sess = Some (a, k)" by (auto simp: token_for_def split: option.splits)
    then have r: "resolve_resume (clk 2) (up 2) (rq_cookie r) st = Some (Some (a, k))"
      using s(2) by (auto simp: resume_for_def split: option.splits if_splits)
    note tk = token_for_Some [OF t [unfolded sess]]
    obtain c where "rq_cookie r = Some c" "redis_get (clk 2) (''resume:'' @ c) st = Some (Resume_data a k)"
      using r by (rule resolve_resumeD)
    then show ?thesis using tk by blast
  qed
  then show ?thesis using s(1) h by auto
qed

definition forged_request :: gw_request where
  "forged_request = \<lparr>rq_method = ''GET'', rq_headers = [(''x-user-role'', ''admin''), (''X-Internal-Service'', ''s'')],
     rq_authorization = None, rq_cookie = None, rq_query = '''', rq_body = ''''\<rparr>"

definition empty_gateway :: gw_state where
  "empty_gateway = \<lparr>gw_accounts = [], redis = Map.empty\<rparr>"

theorem only_sessions_speak_witness:
  "\<exists>f. los \<lparr>session_ttl_seconds = 1, resume_ttl_seconds = 1, gw_internal_token = ''s''\<rparr> (\<lambda>_. 0) (\<lambda>_. True) (\<lambda>_. ''c'')
     (recorder (\<lambda>_. None)) (\<lambda>_ _ log. log) ''http://o'' ''applications/7'' forged_request empty_gateway []
     = (None, empty_gateway, [f]) \<and>
   header_value ''X-User-Role'' (fw_headers f) = None \<and> header_value ''X-Internal-Service'' (fw_headers f) = None"
proof -
  define f where "f = forward_request ''http://o'' ''/applications/7'' forged_request None None"
  have p: "los_prepare (\<lambda>_. 0) (\<lambda>_. True) ''http://o'' ''applications/7'' forged_request empty_gateway = Inr (f, None)"
    by (simp add: los_prepare_def get_session_def bearer_token_def is_submit_path_def forged_request_def resume_for_def
        resolve_resume_def token_for_def attach_token_def f_def)
  have l: "los \<lparr>session_ttl_seconds = 1, resume_ttl_seconds = 1, gw_internal_token = ''s''\<rparr> (\<lambda>_. 0) (\<lambda>_. True) (\<lambda>_. ''c'')
      (recorder (\<lambda>_. None)) (\<lambda>_ _ log. log) ''http://o'' ''applications/7'' forged_request empty_gateway []
      = (None, empty_gateway, [f])"
    by (simp add: los_def p recorder_def)
  have "get_session 0 True (bearer_token (rq_authorization forged_request)) empty_gateway = Some None"
    by (simp add: get_session_def bearer_token_def forged_request_def)
  then show ?thesis using only_sessions_speak [OF l, of f] l by auto
qed

lemma get_session_Some:
  assumes "get_session t ok tok st = Some (Some u)"
  obtains w where "tok = Some w" "w \<noteq> ''''" "ok" "redis_get t (''session:'' @ w) st = Some (Session_data u)"
  using assms by (auto simp: get_session_def split: option.splits if_splits stored_value.splits)

text \<open>Servicing and payments need a live session. The routes to servicing and to payments
  forward nothing without a live session of the presented token: they answer 401, or 500 when the
  sessions cannot be read. With one they forward exactly one request, which speaks for its user,
  carries neither a service secret nor a continuation token, and relay the answer.\<close>

theorem money_routes_need_a_session:
  "authenticated_proxy t ok (recorder answer) base path r st sent =
     (case get_session t ok (bearer_token (rq_authorization r)) st of
        Some (Some u) \<Rightarrow> (relayed (answer (forward_request base path r (Some u) None)), sent @ [forward_request base path r (Some u) None])
      | Some None \<Rightarrow> (Some \<lparr>gr_status = 401, gr_content = VObj [(''detail'', VStr ''not authenticated'')], gr_cookie = Keep_cookie\<rparr>, sent)
      | None \<Rightarrow> (None, sent)) \<and>
   header_value ''X-User-Id'' (fw_headers (forward_request base path r (Some u) None)) = Some (show_int (gu_id u)) \<and>
   header_value ''X-User-Role'' (fw_headers (forward_request base path r (Some u) None)) = Some (gu_role u) \<and>
   header_value ''X-Internal-Service'' (fw_headers (forward_request base path r (Some u) None)) = None \<and>
   header_value ''X-Application-Token'' (fw_headers (forward_request base path r (Some u) None)) = None"
  by (auto simp: authenticated_proxy_def require_user_def internal_error_def raise_http_def refused_def recorder_def
      forward_request_def present_def split: option.splits)

section \<open>Where a continuation token goes\<close>

lemma los_cases:
  assumes "los cfg clk up sid send ab base path r st s = (Some resp, st', s')"
  obtains (own) "los_prepare clk up base path r st = Inl (Some resp)" "st' = st" "s' = s"
    | (sent) f user status body s1 where "los_prepare clk up base path r st = Inr (f, user)"
      "send f s = (Some (status, body), s1)"
      "los_finish cfg clk up sid ab path r user status (reply_content body) st s1 = (Some resp, st', s')"
  using assms by (auto simp: los_def split: sum.splits prod.splits option.splits)

lemma prepare_own:
  "los_prepare clk up base path r st = Inl (Some resp) \<Longrightarrow> resp = resume_unavailable"
  by (auto simp: los_prepare_def split: option.splits if_splits)

lemma retry_session:
  assumes "create_resume_with_retry cfg clk up sid a k st = (Some c, st')"
  shows "\<exists>i < 3. c = sid i \<and> up i \<and> st' = redis_set (clk i) (''resume:'' @ c) (resume_ttl_seconds cfg) (Resume_data a k) st"
proof -
  obtain i where i: "find (\<lambda>i. fst (create_resume_session cfg (clk i) (up i) (sid i) a k st) \<noteq> None) [0, 1, 2] = Some i"
    "create_resume_session cfg (clk i) (up i) (sid i) a k st = (Some c, st')"
    using assms by (auto simp: create_resume_with_retry_def split: option.splits)
  then have "i \<in> set [0, 1, 2]" unfolding find_Some_iff by (metis nth_mem)
  then have "i < 3" by auto
  then show ?thesis using i(2) by (intro exI [of _ i]) (auto simp: create_resume_session_def split: if_splits)
qed

lemma retry_sid: "create_resume_with_retry cfg clk up sid a k st = (Some c, st') \<Longrightarrow> \<exists>i < 3. c = sid i"
  using retry_session by blast

lemma retry_none: "create_resume_with_retry cfg clk up sid a k st = (None, st') \<Longrightarrow> st' = st"
  by (auto simp: create_resume_with_retry_def create_resume_session_def find_Some_iff split: option.splits if_splits)

text \<open>C25. The continuation token never reaches the browser. No answer of the origination route has
  a continuation token at its top level, and the cookie of an answer is the fresh id of a
  resume session, never the token.\<close>

theorem token_stays_behind:
  assumes "los cfg clk up sid send ab base path r st s = (Some resp, st', s')"
  shows "\<not> (\<exists>v. jfield (gr_content resp) ''continuation_token'' = Some v \<and> jtruthy v) \<and>
    (\<forall>c. gr_cookie resp = Set_cookie c \<longrightarrow> (\<exists>i < 3. c = sid i))"
  using assms
proof (cases rule: los_cases)
  case own
  then have "resp = resume_unavailable" using prepare_own by blast
  then show ?thesis by (simp add: resume_unavailable_def)
next
  case (sent f user status body s1)
  then show ?thesis
    by (auto simp: los_finish_def Let_def resume_unavailable_def split: prod.splits option.splits if_splits intro: retry_sid)
qed
end
