(* ===== verification/Journey.thy ===== *)
theory Journey
  imports GatewayProps
begin

text \<open>
  The anonymous applicant's way through the gateway with the model of origination-service behind
  it: a submit leaves either an application with its resume session or nothing, except where an
  answer or the compensating call is lost, and the cookie it sets opens the application later. The
  request body is decoded by the argument \<open>parse\<close>, routes other than the submit are the argument \<open>rest\<close>.
\<close>

section \<open>Origination behind the proxy\<close>

definition http_reply :: "('a \<Rightarrow> jv) \<Rightarrow> 'a response \<Rightarrow> gw_reply" where
  "http_reply enc result =
     (case result of
        Inr a \<Rightarrow> Some (200, Inl (enc a))
      | Inl e \<Rightarrow> if e = HttpError 500 ''internal error'' then Some (500, Inr ''Internal Server Error'')
                 else Some (http_status e, Inl (VObj [(''detail'', VStr (http_detail e))])))"

definition created_json :: "application_created \<Rightarrow> jv" where
  "created_json c = VObj
     [(''app_id'', VInt (ac_app_id c)), (''status'', VStr (ac_status c)),
      (''kyc'', VObj [(''name_verified'', VBool (ko_name (ac_kyc c))), (''dob_verified'', VBool (ko_dob (ac_kyc c))),
                      (''address_verified'', VBool (ko_address (ac_kyc c))), (''ssn_verified'', VBool (ko_ssn (ac_kyc c)))]),
      (''kyc_checked'', VBool (ac_kyc_checked c)),
      (''continuation_token'', case ac_token c of None \<Rightarrow> VNull | Some w \<Rightarrow> VStr w)]"

definition origination_submit ::
  "(string \<Rightarrow> application_in option) \<Rightarrow>
   (application_in \<Rightarrow> string option \<Rightarrow> los_db \<Rightarrow> application_created response \<times> los_db) \<Rightarrow>
   (forwarded \<Rightarrow> los_db \<Rightarrow> gw_reply \<times> los_db) \<Rightarrow> forwarded \<Rightarrow> los_db \<Rightarrow> gw_reply \<times> los_db" where
  "origination_submit parse submit rest f db =
     (if fw_method f = ''POST'' \<and> fw_path f = ''/applications''
      then case parse (fw_body f) of
        None \<Rightarrow> (Some (422, Inl (VObj [(''detail'', VStr ''validation error'')])), db)
      | Some b \<Rightarrow>
          (case submit b (header_value ''X-User-Id'' (fw_headers f)) db of
             (result, db1) \<Rightarrow> (http_reply created_json result, db1))
      else rest f db)"

definition origination_abandon ::
  "string \<Rightarrow> (nat \<Rightarrow> los_db \<Rightarrow> los_db) \<Rightarrow> string \<Rightarrow> jv \<Rightarrow> los_db \<Rightarrow> los_db" where
  "origination_abandon token w x_internal_service app_id db =
     (case app_id of VInt i \<Rightarrow> snd (abandon_application token w i (Some x_internal_service) db) | _ \<Rightarrow> db)"

section \<open>A submit and its undoing\<close>

text \<open>Ids are fresh in every table that names them.\<close>

definition rows_fresh :: "los_db \<Rightarrow> bool" where
  "rows_fresh db \<longleftrightarrow> ids_fresh db \<and>
     (\<forall>a \<in> set (los_apps db). la_applicant_id a \<noteq> Some (next_applicant db))"

definition same_rows :: "los_db \<Rightarrow> los_db \<Rightarrow> bool" where
  "same_rows db db' \<longleftrightarrow> los_apps db' = los_apps db \<and> los_applicants db' = los_applicants db \<and>
     kyc_checks db' = kyc_checks db"

text \<open>The tables after an accepted submit: one application of one applicant, and at most checks of
  that applicant.\<close>

definition one_more :: "los_db \<Rightarrow> int \<Rightarrow> los_db \<Rightarrow> bool" where
  "one_more db i db' \<longleftrightarrow> i = next_app db \<and>
     (\<exists>a p ks. los_apps db' = los_apps db @ [a] \<and> la_id a = next_app db \<and> la_applicant_id a = Some (next_applicant db) \<and>
        los_applicants db' = los_applicants db @ [p] \<and> apl_id p = next_applicant db \<and>
        kyc_checks db' = kyc_checks db @ ks \<and> (\<forall>k \<in> set ks. kc_applicant_id k = Some (next_applicant db))) \<and>
     los_decisions db' = los_decisions db \<and> shared db' = shared db \<and> los_loans db' = los_loans db"

lemma kyc_service_one_more:
  assumes "one_more db i db1" "kp_applicant_id p = Some (next_applicant db)"
  shows "one_more db i (snd (kyc_service token up p db1))"
  using assms
  by (auto simp: one_more_def kyc_service_def kyc_check_def insert_check_def Let_def split: option.splits sum.splits prod.splits)

lemma run_kyc_one_more:
  assumes "one_more db i db1" "kp_applicant_id p = Some (next_applicant db)"
  shows "one_more db i (snd (run_kyc (kyc_service token up) audited p ent db1))"
proof -
  have "one_more db i d \<Longrightarrow> one_more db i (audit x y z d)" for x y z d by (simp add: one_more_def audit_def)
  then show ?thesis using kyc_service_one_more [OF assms, of token up]
    by (cases "kyc_service token up p db1") (auto simp: run_kyc_def split: sum.splits)
qed

lemma submit_rows:
  assumes "submit_application hmac tcfg (kyc_service token upk) raw t today up audited los_alone b uid db = (result, db')"
    and "ids_fresh db"
  shows "case result of Inl e \<Rightarrow> same_rows db db' | Inr c \<Rightarrow> one_more db (ac_app_id c) db' \<and> ac_token c = Some raw"
proof (cases "validated today b")
  case None
  then show ?thesis using assms(1) by (auto simp: submit_application_def raise_http_def same_rows_def)
next
  case (Some v)
  obtain r db1 where c: "create_application hmac tcfg raw t up v (orig_as_int uid) db = (r, db1)" by fastforce
  show ?thesis
  proof (cases r)
    case None
    then have "db1 = db" using c by (auto simp: create_application_def insert_application_def split: option.splits if_splits)
    then show ?thesis using assms(1) Some c None
      by (auto simp: submit_application_def internal_error_def raise_http_def same_rows_def)
  next
    case (Some i)
    then obtain stored where s: "i = next_app db" "db1 = db\<lparr>los_applicants := los_applicants db @ [(applicant_of v)\<lparr>apl_id := next_applicant db\<rparr>],
       los_apps := los_apps db @ [(application_of_intake v stored (t + token_ttl_days tcfg * micros_per_day) (orig_as_int uid))
         \<lparr>la_id := next_app db, la_applicant_id := Some (next_applicant db)\<rparr>],
       next_applicant := next_applicant db + 1, next_app := next_app db + 1\<rparr>"
      using created_row c by metis
    have "\<forall>x \<in> set (los_apps db). la_id x \<noteq> next_app db" using assms(2) by (auto simp: ids_fresh_def apps_ok_def)
    then have "bind_option (app_by_id db1 i) la_applicant_id = Some (next_applicant db)"
      by (simp add: s app_by_id_def bind_option_def find_snoc)
    moreover have "one_more db i db1" by (simp add: one_more_def s)
    ultimately have "one_more db i (snd (run_kyc (kyc_service token upk) audited
        (kyc_payload_of i (bind_option (app_by_id db1 i) la_applicant_id) (Some (ain_name v)) (ain_dob v)
           (ssn_last4 (ain_ssn v)) (ain_address v) (ain_is_entity v)) (ain_is_entity v) db1))"
      by (intro run_kyc_one_more) (simp_all add: kyc_payload_of_def)
    then show ?thesis using assms(1) \<open>validated today b = Some v\<close> c Some
      by (auto simp: submit_application_def Let_def split: prod.splits)
  qed
qed


lemma abandon_one_more:
  assumes "one_more db i db1" "rows_fresh db" "los_ok sha False db" "token \<noteq> ''''"
  shows "same_rows db (snd (abandon_application token los_alone i (Some token) db1))"
proof -
  obtain a p ks where r: "i = next_app db" "los_apps db1 = los_apps db @ [a]" "la_id a = next_app db"
    "la_applicant_id a = Some (next_applicant db)" "los_applicants db1 = los_applicants db @ [p]"
    "apl_id p = next_applicant db" "kyc_checks db1 = kyc_checks db @ ks"
    "\<forall>k \<in> set ks. kc_applicant_id k = Some (next_applicant db)"
    and same: "los_decisions db1 = los_decisions db" "shared db1 = shared db" "los_loans db1 = los_loans db"
    using assms(1) by (auto simp: one_more_def)
  have fresh: "\<forall>x \<in> set (los_apps db). la_id x \<noteq> i" "\<forall>x \<in> set (los_apps db). la_applicant_id x \<noteq> Some (next_applicant db)"
    "\<forall>x \<in> set (los_applicants db). apl_id x \<noteq> next_applicant db"
    "\<forall>k \<in> set (kyc_checks db). kc_applicant_id k \<noteq> Some (next_applicant db)"
    using assms(2) r(1) by (auto simp: rows_fresh_def ids_fresh_def apps_ok_def)
  have app: "app_by_id db1 i = Some a" unfolding app_by_id_def r(2) using fresh(1) r(1,3) by (intro find_snoc) auto
  have gone: "i \<notin> la_id ` set (los_apps db)" using fresh(1) by auto
  then have none: "los_decisions db i = None" "\<forall>x \<in> set (offers (shared db)). o_app_id x \<noteq> Some i"
    "\<forall>e \<in> set (events (shared db)). e_app_id e \<noteq> Some i"
    using assms(3) by (auto simp: los_ok_def references_ok_def)
  have "l_app_id l \<noteq> Some i" if l: "l \<in> set (los_loans db)" for l
  proof -
    obtain x where "covers (shared db) x l"
      using assms(3) l unfolding los_ok_def boarded_ok_def disclosed_in_time_def by blast
    then show ?thesis using none(2) by (auto simp: covers_def)
  qed
  then have "inert db1 i" "\<not> referenced db1 i"
    using none same by (auto simp: inert_def referenced_def list_all_iff list_ex_iff)
  then have d: "abandon_application token los_alone i (Some token) db1 =
      (case delete_application i (la_applicant_id a) db1 of
        (False, d) \<Rightarrow> (raise_http 409 ''application is not inert; refusing to abandon'', d) | (True, d) \<Rightarrow> (Inr i, d))"
    using app origination_guard.match [OF assms(4)] by (simp add: abandon_application_def)
  have "filter (\<lambda>x. la_id x \<noteq> i) (los_apps db1) = los_apps db"
    using fresh(1) r(1-3) by (simp add: filter_id_conv)
  moreover have "filter (\<lambda>x. Some (apl_id x) \<noteq> la_applicant_id a) (los_applicants db1) = los_applicants db"
    using fresh(3) r(4-6) by (simp add: filter_id_conv)
  moreover have "filter (\<lambda>k. kc_applicant_id k \<noteq> la_applicant_id a) (kyc_checks db1) = kyc_checks db"
    using fresh(4) r(4,7,8) by (simp add: filter_id_conv filter_empty_conv)
  ultimately show ?thesis using d \<open>\<not> referenced db1 i\<close> fresh(2) r(4)
    by (simp add: delete_application_def Let_def same_rows_def list_all_iff)
qed

lemma same_rows_refl [simp]: "same_rows db db"
  by (simp add: same_rows_def)

lemma own_unavailable:
  "los_prepare clk up base path r st = Inl (Some resp) \<Longrightarrow> gr_status resp = 503 \<and> gr_cookie resp = Keep_cookie"
  using prepare_own by (fastforce simp: resume_unavailable_def)

lemma failed_reply:
  "http_status e \<noteq> 200 \<Longrightarrow> \<exists>n body. http_reply enc (Inl e) = Some (n, body) \<and> n \<noteq> 200"
  by (simp add: http_reply_def)

lemma finish_not_200:
  "n \<noteq> 200 \<Longrightarrow> \<exists>v. los_finish cfg clk up sid ab path r user n content st s =
     (Some \<lparr>gr_status = n, gr_content = v, gr_cookie = Keep_cookie\<rparr>, st, s)"
  by (simp add: los_finish_def)

lemma los_not_200:
  assumes "los_prepare clk up base path r st = Inr (f, user)" "send f s = (Some (n, body), s1)" "n \<noteq> 200"
    and "los cfg clk up sid send ab base path r st s = (out, st', s')"
  shows "s' = s1 \<and> (\<forall>resp. out = Some resp \<longrightarrow> gr_status resp \<noteq> 200 \<and> gr_cookie resp = Keep_cookie)"
proof -
  obtain v where "los_finish cfg clk up sid ab path r user n (reply_content body) st s1 =
      (Some \<lparr>gr_status = n, gr_content = v, gr_cookie = Keep_cookie\<rparr>, st, s1)"
    using finish_not_200 [OF assms(3), of cfg clk up sid ab path r user "reply_content body" st s1] by auto
  then have "out = Some \<lparr>gr_status = n, gr_content = v, gr_cookie = Keep_cookie\<rparr>" "s' = s1"
    using assms(1,2,4) by (simp_all add: los_def)
  then show ?thesis using assms(3) by simp
qed

lemma submit_error_status:
  "submit_application hmac tcfg call raw t today up audited w b uid db = (Inl e, db') \<Longrightarrow> http_status e \<noteq> 200"
  by (auto simp: submit_application_def raise_http_def internal_error_def Let_def split: option.splits prod.splits)

lemma created_fields [simp]:
  "jfield (created_json c) ''app_id'' = Some (VInt (ac_app_id c))"
  "jfield (created_json c) ''continuation_token'' = Some (case ac_token c of None \<Rightarrow> VNull | Some w \<Rightarrow> VStr w)"
  by (simp_all add: created_json_def)

lemma finish_submit:
  assumes "is_submit_path path r" "\<not> gw_is_officer user" "ac_token c = Some raw" "raw \<noteq> ''''"
  shows "los_finish cfg clk up sid ab path r user 200 (created_json c) st s =
    (case create_resume_with_retry cfg (\<lambda>i. clk (3 + i)) (\<lambda>i. up (3 + i)) sid (VInt (ac_app_id c)) (VStr raw) st of
       (None, st1) \<Rightarrow> (Some resume_unavailable, st1, abandon_submit cfg ab (VInt (ac_app_id c)) s)
     | (Some k, st1) \<Rightarrow>
         (Some \<lparr>gr_status = 200, gr_content = jdrop ''continuation_token'' (created_json c), gr_cookie = Set_cookie k\<rparr>, st1, s))"
  using assms by (simp add: los_finish_def Let_def split: prod.splits option.splits)

text \<open>Calls that fail: an answer lost on its way back, after origination did its work, and a compensating
  call that does not get through.\<close>

definition lossy :: "bool \<Rightarrow> (forwarded \<Rightarrow> los_db \<Rightarrow> gw_reply \<times> los_db) \<Rightarrow> forwarded \<Rightarrow> los_db \<Rightarrow> gw_reply \<times> los_db" where
  "lossy lost send f db = (case send f db of (reply, db1) \<Rightarrow> (if lost then None else reply, db1))"

definition reaching :: "bool \<Rightarrow> (string \<Rightarrow> jv \<Rightarrow> los_db \<Rightarrow> los_db) \<Rightarrow> string \<Rightarrow> jv \<Rightarrow> los_db \<Rightarrow> los_db" where
  "reaching reached abandon token app_id db = (if reached then abandon token app_id db else db)"

definition can_undo :: "gw_config \<Rightarrow> string \<Rightarrow> bool \<Rightarrow> bool \<Rightarrow> bool" where
  "can_undo cfg token lost reached \<longleftrightarrow> \<not> lost \<and> reached \<and> gw_internal_token cfg = token \<and> token \<noteq> ''''"

lemma undo_cases:
  assumes "one_more db i db1" "rows_fresh db" "los_ok sha False db"
  shows "if can_undo cfg token False reached
    then same_rows db (abandon_submit cfg (reaching reached (origination_abandon token los_alone)) (VInt i) db1)
    else abandon_submit cfg (reaching reached (origination_abandon token los_alone)) (VInt i) db1 = db1"
proof (cases "can_undo cfg token False reached")
  case True
  then show ?thesis using abandon_one_more [OF assms, of token]
    by (simp add: can_undo_def abandon_submit_def reaching_def origination_abandon_def)
next
  case False
  have "snd (abandon_application token los_alone i (Some x) db1) = db1" if "\<not> (x = token \<and> token \<noteq> '''')" for x
  proof -
    have "orig_require_internal_caller token (Some x) \<noteq> Inr ()" using that origination_guard.passes_iff by auto
    then show ?thesis by (cases "orig_require_internal_caller token (Some x)") (auto simp: abandon_application_def)
  qed
  then show ?thesis using False
    by (auto simp: can_undo_def abandon_submit_def reaching_def origination_abandon_def)
qed

text \<open>C26. A self-service submit is all or nothing, as far as the compensation gets. For a caller who is not
  an officer, with nothing else writing meanwhile and whatever calls to Redis fail, a submit through
  the gateway has one of three outcomes. It answers 200 with a cookie whose resume session holds the
  application it created and the issued token. Or it leaves applications, applicants and
  identity checks exactly as they were and sets no cookie. Or it leaves one application more and sets no
  cookie, and that only when the answer of origination was lost, or the compensating call could not be
  made: it did not get through, or the two services do not share a secret.\<close>

theorem submit_is_all_or_nothing:
  assumes "los_ok sha False db" "rows_fresh db" "raw \<noteq> ''''"
    and "rq_method r = ''POST''" "get_session (clk 0) (up 0) (bearer_token (rq_authorization r)) st = Some user"
    and "\<not> gw_is_officer user"
    and "los cfg clk up sid
        (lossy lost (origination_submit parse
           (submit_application hmac tcfg (kyc_service token upk) raw t today upd audited los_alone) rest))
        (reaching reached (origination_abandon token los_alone)) base ''applications'' r st db = (out, st', db')"
  shows "(\<exists>resp c i e row. out = Some resp \<and> gr_status resp = 200 \<and> gr_cookie resp = Set_cookie c \<and>
       redis st' (''resume:'' @ c) = Some (Resume_data (VInt i) (VStr raw), e) \<and>
       los_apps db' = los_apps db @ [row] \<and> la_id row = i) \<or>
     (\<forall>resp. out = Some resp \<longrightarrow> gr_status resp \<noteq> 200 \<and> gr_cookie resp = Keep_cookie) \<and>
     (same_rows db db' \<or> \<not> can_undo cfg token lost reached \<and> (\<exists>i. one_more db i db'))"
proof -
  let ?submit = "submit_application hmac tcfg (kyc_service token upk) raw t today upd audited los_alone"
  let ?send = "origination_submit parse ?submit rest"
  let ?undo = "reaching reached (origination_abandon token los_alone)"
  have sub: "is_submit_path ''applications'' r" using assms(4) by (simp add: is_submit_path_def strip_of_def)
  show ?thesis
  proof (cases "los_prepare clk up base ''applications'' r st")
    case (Inl o')
    then have "out = o'" "db' = db" using assms(7) by (simp_all add: los_def)
    then show ?thesis using Inl own_unavailable by fastforce
  next
    case (Inr fu)
    then obtain f where p: "los_prepare clk up base ''applications'' r st = Inr (f, user)"
      and f: "fw_method f = ''POST''" "fw_path f = ''/applications''" "fw_body f = rq_body r"
      using assms(4,5) by (cases fu) (auto elim!: los_prepare_Inr attach_token_Some simp: forward_request_def)
    obtain reply db1 where sent: "?send f db = (reply, db1)" by fastforce
    have made: "case reply of
        Some (n, body) \<Rightarrow> if n \<noteq> 200 then same_rows db db1
          else \<exists>c. one_more db (ac_app_id c) db1 \<and> ac_token c = Some raw \<and> body = Inl (created_json c)
      | None \<Rightarrow> False"
    proof (cases "parse (rq_body r)")
      case None
      then show ?thesis using f sent by (auto simp: origination_submit_def)
    next
      case (Some b)
      obtain result where s: "?submit b (header_value ''X-User-Id'' (fw_headers f)) db = (result, db1)"
        and reply: "reply = http_reply created_json result"
        using f Some sent by (auto simp: origination_submit_def split: prod.splits)
      note rows = submit_rows [OF s] assms(2) [unfolded rows_fresh_def]
      show ?thesis
      proof (cases result)
        case (Inl e)
        then have "same_rows db db1" "http_status e \<noteq> 200" using rows s submit_error_status by auto
        then show ?thesis using failed_reply [of e created_json] reply Inl by auto
      next
        case (Inr c)
        then show ?thesis using rows reply by (auto simp: http_reply_def)
      qed
    qed
    show ?thesis
    proof (cases lost)
      case True
      then have "lossy lost ?send f db = (None, db1)" by (simp add: lossy_def sent)
      then have "out = None" "db' = db1" using assms(7) p by (simp_all add: los_def)
      then show ?thesis using made True by (auto simp: can_undo_def split: option.splits prod.splits if_splits)
    next
      case False
      obtain n body where r: "reply = Some (n, body)" using made by (auto split: option.splits)
      have send: "lossy lost ?send f db = (Some (n, body), db1)" using False r by (simp add: lossy_def sent)
      show ?thesis
      proof (cases "n = 200")
        case False
        from los_not_200 [OF p send False assms(7)] show ?thesis using made r False by simp
      next
        case True
        then obtain c where c: "one_more db (ac_app_id c) db1" "ac_token c = Some raw" "body = Inl (created_json c)"
          using made r by auto
        have fin: "los_finish cfg clk up sid ?undo ''applications'' r user 200 (created_json c) st db1 = (out, st', db')"
          using assms(7) p send True c(3) by (simp add: los_def reply_content_def)
        obtain row where row: "los_apps db1 = los_apps db @ [row]" "la_id row = ac_app_id c"
          using c(1) by (auto simp: one_more_def)
        let ?retry = "create_resume_with_retry cfg (\<lambda>i. clk (3 + i)) (\<lambda>i. up (3 + i)) sid (VInt (ac_app_id c)) (VStr raw) st"
        note fin' = fin [unfolded finish_submit [OF sub assms(6) c(2) assms(3)]]
        show ?thesis
        proof (cases "fst ?retry")
          case None
          then obtain st1 where "?retry = (None, st1)" by (cases ?retry) auto
          then have "out = Some resume_unavailable" "db' = abandon_submit cfg ?undo (VInt (ac_app_id c)) db1"
            using fin' by simp_all
          then show ?thesis using undo_cases [OF c(1) assms(2,1), of cfg token reached] c(1) \<open>\<not> lost\<close>
            by (auto simp: resume_unavailable_def split: if_splits)
        next
          case (Some k)
          then obtain st1 where kept: "?retry = (Some k, st1)" by (cases ?retry) auto
          obtain e where "redis st1 (''resume:'' @ k) = Some (Resume_data (VInt (ac_app_id c)) (VStr raw), e)"
            using retry_session [OF kept] by (auto simp: redis_set_def)
          moreover have "out = Some \<lparr>gr_status = 200, gr_content = jdrop ''continuation_token'' (created_json c), gr_cookie = Set_cookie k\<rparr>"
            "st' = st1" "db' = db1"
            using fin' [unfolded kept] by simp_all
          ultimately show ?thesis using row by auto
        qed
      qed
    qed
  qed
qed

section \<open>The cookie later\<close>

lemma cookie_token:
  assumes "los_prepare clk up base path r st = Inr (f, user)" "rq_cookie r = Some c" "c \<noteq> ''''" "up 2"
    and "redis st (''resume:'' @ c) = Some (Resume_data (VInt i) (VStr raw), e)" "clk 2 < e" "raw \<noteq> ''''"
    and "app_id_in_path path = Some (show_int i)"
  shows "header_value ''X-Application-Token'' (fw_headers f) = Some raw"
proof -
  have "resolve_resume (clk 2) (up 2) (rq_cookie r) st = Some (Some (VInt i, VStr raw))"
    using assms(2-6) by (simp add: resolve_resume_def redis_get_def)
  then have "resume_for (clk 2) (up 2) r user st = Some (Some (VInt i, VStr raw))" by (simp add: resume_for_def)
  moreover have "token_for path (Some (VInt i, VStr raw)) = Some (VStr raw)" using assms(8) by (simp add: token_for_def)
  ultimately have "attach_token base (CHR ''/'' # path) r user (Some (VStr raw)) = Some f"
    using assms(1) by (elim los_prepare_Inr) auto
  then show ?thesis using assms(7) by (auto simp: attach_token_def forward_request_def present_def)
qed

text \<open>The resume cookie opens its application. After a submit, and after any steps of any session,
  a request for the application that shows the cookie whose resume session holds the issued token is
  forwarded so that origination lets it through, until the session or the token expires or
  the application is funded, whatever other headers and session the request has, and across a
  rotation that keeps the issuing key.\<close>

theorem resume_cookie_opens_the_application:
  assumes "los_sessions_ok sha hatch w" "kyc_calls_ok sha hatch call" "apps_ok db"
    and "submit_application hmac tcfg call raw t today upd audited w b uid db = (Inr created, db1)" "raw \<noteq> ''''"
    and "issuing_key tcfg = Some (v, s)" "(v, s) \<in> set (verify_keys tcfg')"
    and "los_path sha hatch db1 db2" "app_by_id db2 (ac_app_id created) = Some row" "la_status row \<noteq> ''funded''"
    and "redis st (''resume:'' @ c) = Some (Resume_data (VInt (ac_app_id created)) (VStr raw), e)" "c \<noteq> ''''"
    and "rq_cookie r = Some c" "app_id_in_path path = Some (show_int (ac_app_id created))" "up 2" "clk 2 < e"
    and "los_prepare clk up base path r st = Inr (f, user)" "t' < t + token_ttl_days tcfg * micros_per_day"
  shows "require_officer_or_owner hmac tcfg' t' db2 (ac_app_id created) (header_value ''X-User-Role'' (fw_headers f))
    (header_value ''X-User-Id'' (fw_headers f)) (header_value ''X-Application-Token'' (fw_headers f)) = Inr ()"
proof -
  let ?role = "header_value ''X-User-Role'' (fw_headers f)" and ?uid = "header_value ''X-User-Id'' (fw_headers f)"
  have tok: "header_value ''X-Application-Token'' (fw_headers f) = Some raw"
    by (rule cookie_token [where clk = clk and up = up, OF assms(17,13,12,15,11,16,5,14)])
  show ?thesis
  proof (cases "orig_is_officer ?role \<or> owns_application db2 row (orig_as_int ?uid)")
    case True
    then show ?thesis using assms(9) by (auto simp: owner_gate_iff)
  next
    case False
    then have "require_officer_or_owner hmac tcfg' t' db2 (ac_app_id created) ?role ?uid (Some raw) = Inr ()"
      using issued_token_opens [OF assms(1-4,6,8-10), of ?role ?uid tcfg' t' raw] assms(5,7,18) by auto
    then show ?thesis by (simp add: tok)
  qed
qed

section \<open>Concrete runs\<close>

theorem token_stays_behind_witness:
  "\<exists>resp st' s'. los \<lparr>session_ttl_seconds = 1, resume_ttl_seconds = 1, gw_internal_token = ''s''\<rparr> (\<lambda>_. 0) (\<lambda>_. True) (\<lambda>_. ''c'')
     (\<lambda>f s. (Some (200, Inl (VObj [(''continuation_token'', VStr ''t''), (''app_id'', VInt 7)])), s)) (\<lambda>_ _ s. s)
     ''http://o'' ''applications/7'' forged_request empty_gateway () = (Some resp, st', s') \<and>
   \<not> (\<exists>v. jfield (gr_content resp) ''continuation_token'' = Some v \<and> jtruthy v)"
proof -
  define f where "f = forward_request ''http://o'' ''/applications/7'' forged_request None None"
  have p: "los_prepare (\<lambda>_. 0) (\<lambda>_. True) ''http://o'' ''applications/7'' forged_request empty_gateway = Inr (f, None)"
    by (simp add: los_prepare_def get_session_def bearer_token_def is_submit_path_def forged_request_def resume_for_def
        resolve_resume_def token_for_def attach_token_def f_def)
  have get: "\<not> is_submit_path ''applications/7'' forged_request" "\<not> is_accept_path ''applications/7'' forged_request"
    by (simp_all add: is_submit_path_def is_accept_path_def forged_request_def)
  obtain resp st' s' where l: "los \<lparr>session_ttl_seconds = 1, resume_ttl_seconds = 1, gw_internal_token = ''s''\<rparr> (\<lambda>_. 0) (\<lambda>_. True) (\<lambda>_. ''c'')
      (\<lambda>f s. (Some (200, Inl (VObj [(''continuation_token'', VStr ''t''), (''app_id'', VInt 7)])), s)) (\<lambda>_ _ s. s)
      ''http://o'' ''applications/7'' forged_request empty_gateway () = (Some resp, st', s')"
    by (simp add: los_def p los_finish_def get Let_def)
  then show ?thesis using token_stays_behind [OF l] by blast
qed

definition sample_request :: "string option \<Rightarrow> gw_request" where
  "sample_request cookie = \<lparr>rq_method = ''POST'', rq_headers = [], rq_authorization = None, rq_cookie = cookie,
     rq_query = '''', rq_body = ''{}''\<rparr>"

definition sample_gateway :: gw_config where
  "sample_gateway = \<lparr>session_ttl_seconds = 60, resume_ttl_seconds = 60, gw_internal_token = ''s''\<rparr>"

theorem submit_is_all_or_nothing_witness:
  "\<exists>out st' db'. los sample_gateway (\<lambda>_. 0) (\<lambda>n. n < 3) (\<lambda>_. ''c'')
       (lossy False (origination_submit (\<lambda>_. Some sample_intake)
          (submit_application toy_hmac sample_keys (kyc_service ''s'' True) ''tok'' 0 739000 True True los_alone) (\<lambda>_ db. (None, db))))
       (reaching True (origination_abandon ''s'' los_alone)) ''http://o'' ''applications'' (sample_request None) empty_gateway
       sample_inert = (out, st', db') \<and>
     ((\<exists>resp c i e row. out = Some resp \<and> gr_status resp = 200 \<and> gr_cookie resp = Set_cookie c \<and>
         redis st' (''resume:'' @ c) = Some (Resume_data (VInt i) (VStr ''tok''), e) \<and>
         los_apps db' = los_apps sample_inert @ [row] \<and> la_id row = i) \<or>
      (same_rows sample_inert db' \<and> (\<forall>resp. out = Some resp \<longrightarrow> gr_status resp \<noteq> 200 \<and> gr_cookie resp = Keep_cookie)))"
proof -
  have fresh: "rows_fresh sample_inert"
    by (simp add: rows_fresh_def ids_fresh_def apps_ok_def sample_inert_def sample_los_def sample_app_def)
  have session: "get_session 0 True (bearer_token (rq_authorization (sample_request None))) empty_gateway = Some None"
    by (simp add: get_session_def bearer_token_def sample_request_def)
  obtain out st' db' where l: "los sample_gateway (\<lambda>_. 0) (\<lambda>n. n < 3) (\<lambda>_. ''c'')
       (lossy False (origination_submit (\<lambda>_. Some sample_intake)
          (submit_application toy_hmac sample_keys (kyc_service ''s'' True) ''tok'' 0 739000 True True los_alone) (\<lambda>_ db. (None, db))))
       (reaching True (origination_abandon ''s'' los_alone)) ''http://o'' ''applications'' (sample_request None) empty_gateway
       sample_inert = (out, st', db')"
    by (metis prod_cases3)
  have "can_undo sample_gateway ''s'' False True" by (simp add: can_undo_def sample_gateway_def)
  then show ?thesis
    using submit_is_all_or_nothing [OF sample_inert_ok fresh _ _ _ _ l] session l
    by (simp add: sample_request_def gw_is_officer_def) blast
qed

theorem resume_cookie_opens_the_application_witness:
  "\<exists>f. los_prepare (\<lambda>_. 1) (\<lambda>_. True) ''http://o'' ''applications/11/accept'' (sample_request (Some ''c''))
       \<lparr>gw_accounts = [], redis = [''resume:c'' \<mapsto> (Resume_data (VInt 11) (VStr ''tok''), 5)]\<rparr> = Inr (f, None) \<and>
     require_officer_or_owner toy_hmac sample_keys 1 (snd sample_submit) 11 (header_value ''X-User-Role'' (fw_headers f))
       (header_value ''X-User-Id'' (fw_headers f)) (header_value ''X-Application-Token'' (fw_headers f)) = Inr ()"
proof -
  let ?st = "\<lparr>gw_accounts = [], redis = [''resume:c'' \<mapsto> (Resume_data (VInt 11) (VStr ''tok''), 5)]\<rparr>"
  let ?r = "sample_request (Some ''c'')"
  obtain out where out: "sample_submit = (Inr out, snd sample_submit)" "ac_app_id out = 11"
    using sample_submit(1) by (cases "fst sample_submit") (auto simp: prod_eq_iff)
  obtain row where row: "app_by_id (snd sample_submit) (ac_app_id out) = Some row" "la_status row \<noteq> ''funded''"
    using sample_submit(2) out(2) by auto
  have key: "issuing_key sample_keys = Some (''k'', ''secret'')" "(''k'', ''secret'') \<in> set (verify_keys sample_keys)"
    by code_simp+
  have ok: "apps_ok sample_boarded" using sample_boarded_ok by (simp add: los_ok_def)
  have call: "kyc_calls_ok sample_sha True no_kyc" by (simp add: kyc_calls_ok_def)
  have i: "app_id_in_path ''applications/11/accept'' = Some ''11''" "show_int 11 = ''11''" by code_simp+
  define f where "f = forward_request ''http://o'' ''/applications/11/accept'' ?r None (Some ''tok'')"
  have p: "los_prepare (\<lambda>_. 1) (\<lambda>_. True) ''http://o'' ''applications/11/accept'' ?r ?st = Inr (f, None)"
    by (simp add: los_prepare_def get_session_def bearer_token_def resume_for_def resolve_resume_def redis_get_def
        sample_request_def token_for_def i attach_token_def f_def)
  have "redis ?st (''resume:'' @ ''c'') = Some (Resume_data (VInt (ac_app_id out)) (VStr ''tok''), 5)" using out(2) by simp
  from resume_cookie_opens_the_application [OF los_sessions_idle call ok out(1) _ key rtranclp.rtrancl_refl row this _ _ _ _ _ p, of 1] i
  show ?thesis using p out(2) by (simp add: sample_request_def sample_keys_def micros_per_day_def)
qed
end
