(* ===== verification/Probes.thy ===== *)
theory Probes
  imports Prelude
begin

text \<open>
  The health probes of the services' \<^verbatim>\<open>app/config.py\<close> (\<^verbatim>\<open>database_reachable\<close>, \<^verbatim>\<open>redis_reachable\<close>): one
  cached result per process, read without a lock while it is fresh, and a lock under which a
  stale one is probed again. Threads are numbered, each is at one program point, and any number of
  them run interleaved; \<open>now\<close> is the monotonic clock.
\<close>

section \<open>One probe\<close>

type_synonym probe_result = "bool \<times> string option"

text \<open>\<open>connect\<close> is what the driver did: \<open>Inl\<close> the class name of its exception. An unset DSN is not tried.\<close>

definition run_database_probe :: "string \<Rightarrow> string + unit \<Rightarrow> probe_result" where
  "run_database_probe url connect =
     (if url = '''' then (False, Some ''DATABASE_URL not set'')
      else case connect of Inl e \<Rightarrow> (False, Some e) | Inr _ \<Rightarrow> (True, None))"

definition run_redis_probe :: "string + unit \<Rightarrow> probe_result" where
  "run_redis_probe ping = (case ping of Inl e \<Rightarrow> (False, Some e) | Inr _ \<Rightarrow> (True, None))"

section \<open>The cache\<close>

text \<open>\<^verbatim>\<open>_probe_state\<close>, written and read as one tuple.\<close>

record probe_state =
  ps_key :: "string option"
  ps_at :: int
  ps_result :: probe_result

definition initial_probe :: probe_state where
  "initial_probe = \<lparr>ps_key = None, ps_at = 0, ps_result = (False, None)\<rparr>"

definition warm :: "int \<Rightarrow> string \<Rightarrow> int \<Rightarrow> probe_state \<Rightarrow> bool" where
  "warm ttl url t p \<longleftrightarrow> ps_key p = Some url \<and> t - ps_at p < ttl"

section \<open>Threads\<close>

text \<open>
  A thread has read the tuple (\<open>Reading\<close>), waits for the lock, holds it, runs the probe it
  started at an instant, or has answered, with the instant of its last look at the clock.
\<close>

datatype point =
  Idle | Reading probe_state | Waiting | Holding | Probing int | Answered int probe_result

record probes =
  cell :: probe_state
  lock :: "nat option"
  points :: "nat \<Rightarrow> point"
  now :: int
  runs :: "(int \<times> int \<times> probe_result) list"

definition at_point :: "nat \<Rightarrow> point \<Rightarrow> probes \<Rightarrow> probes" where
  "at_point i p w = w\<lparr>points := (points w)(i := p)\<rparr>"

inductive probe_step :: "int \<Rightarrow> string \<Rightarrow> probes \<Rightarrow> probes \<Rightarrow> bool" for ttl url where
  pr_tick: "0 \<le> d \<Longrightarrow> probe_step ttl url w (w\<lparr>now := now w + d\<rparr>)"
| pr_read: "points w i = Idle \<Longrightarrow> probe_step ttl url w (at_point i (Reading (cell w)) w)"
| pr_warm: "points w i = Reading p \<Longrightarrow> warm ttl url (now w) p \<Longrightarrow>
    probe_step ttl url w (at_point i (Answered (now w) (ps_result p)) w)"
| pr_miss: "points w i = Reading p \<Longrightarrow> \<not> warm ttl url (now w) p \<Longrightarrow> probe_step ttl url w (at_point i Waiting w)"
| pr_lock: "points w i = Waiting \<Longrightarrow> lock w = None \<Longrightarrow> probe_step ttl url w (at_point i Holding (w\<lparr>lock := Some i\<rparr>))"
| pr_again: "points w i = Holding \<Longrightarrow> warm ttl url (now w) (cell w) \<Longrightarrow>
    probe_step ttl url w (at_point i (Answered (now w) (ps_result (cell w))) (w\<lparr>lock := None\<rparr>))"
| pr_start: "points w i = Holding \<Longrightarrow> \<not> warm ttl url (now w) (cell w) \<Longrightarrow>
    probe_step ttl url w (at_point i (Probing (now w)) w)"
| pr_done: "points w i = Probing t \<Longrightarrow>
    probe_step ttl url w (at_point i (Answered (now w) r)
      (w\<lparr>cell := \<lparr>ps_key = Some url, ps_at = now w, ps_result = r\<rparr>, lock := None, runs := runs w @ [(t, now w, r)]\<rparr>))"
| pr_next: "points w i = Answered t r \<Longrightarrow> probe_step ttl url w (at_point i Idle w)"

definition probes_at :: "int \<Rightarrow> probes" where
  "probes_at t = \<lparr>cell = initial_probe, lock = None, points = (\<lambda>_. Idle), now = t, runs = []\<rparr>"

abbreviation probe_path :: "int \<Rightarrow> string \<Rightarrow> probes \<Rightarrow> probes \<Rightarrow> bool" where
  "probe_path ttl url \<equiv> (probe_step ttl url)\<^sup>*\<^sup>*"

section \<open>The invariant\<close>

text \<open>Each run starts at least the lifetime of a result after the end of the one before.\<close>

fun spaced :: "int \<Rightarrow> (int \<times> int \<times> probe_result) list \<Rightarrow> bool" where
  "spaced ttl (a # b # rest) \<longleftrightarrow> fst a \<le> fst (snd a) \<and> fst (snd a) + ttl \<le> fst b \<and> spaced ttl (b # rest)"
| "spaced ttl [a] \<longleftrightarrow> fst a \<le> fst (snd a)"
| "spaced ttl [] \<longleftrightarrow> True"

definition run_end :: "int \<times> int \<times> probe_result \<Rightarrow> int" where
  "run_end r = fst (snd r)"

lemma spaced_snoc:
  "spaced ttl xs \<Longrightarrow> (xs \<noteq> [] \<Longrightarrow> run_end (last xs) + ttl \<le> t) \<Longrightarrow> t \<le> e \<Longrightarrow> spaced ttl (xs @ [(t, e, r)])"
  by (induction ttl xs rule: spaced.induct) (auto simp: run_end_def)

definition holds_lock :: "point \<Rightarrow> bool" where
  "holds_lock p \<longleftrightarrow> p = Holding \<or> (\<exists>t. p = Probing t)"

text \<open>A cell or a tuple read from it is the initial one or the result of a run.\<close>

definition from_run :: "string \<Rightarrow> (int \<times> int \<times> probe_result) list \<Rightarrow> probe_state \<Rightarrow> bool" where
  "from_run url rs p \<longleftrightarrow> ps_key p = None \<or> ps_key p = Some url \<and> (\<exists>t. (t, ps_at p, ps_result p) \<in> set rs)"

definition point_ok :: "int \<Rightarrow> string \<Rightarrow> probes \<Rightarrow> point \<Rightarrow> bool" where
  "point_ok ttl url w p \<longleftrightarrow>
     (case p of
        Reading q \<Rightarrow> from_run url (runs w) q
      | Probing t \<Rightarrow> t \<le> now w \<and> (runs w \<noteq> [] \<longrightarrow> run_end (last (runs w)) + ttl \<le> t)
      | Answered t r \<Rightarrow> t \<le> now w \<and> (\<exists>s e. (s, e, r) \<in> set (runs w) \<and> t - e < ttl)
      | _ \<Rightarrow> True)"

definition probes_ok :: "int \<Rightarrow> string \<Rightarrow> probes \<Rightarrow> bool" where
  "probes_ok ttl url w \<longleftrightarrow>
     (\<forall>i. holds_lock (points w i) \<longleftrightarrow> lock w = Some i) \<and>
     (\<forall>i. point_ok ttl url w (points w i)) \<and> spaced ttl (runs w) \<and> from_run url (runs w) (cell w) \<and>
     (runs w \<noteq> [] \<longrightarrow> ps_key (cell w) = Some url \<and> ps_at (cell w) = run_end (last (runs w)))"

lemmas probe_simps = at_point_def probes_ok_def

lemma probes_ok_initial: "probes_ok ttl url (probes_at t)"
  by (simp add: probes_ok_def probes_at_def holds_lock_def point_ok_def from_run_def initial_probe_def)


lemma from_run_mono: "from_run url rs p \<Longrightarrow> from_run url (rs @ xs) p"
  by (auto simp: from_run_def)

lemma probes_okD:
  assumes "probes_ok ttl url w"
  shows "holds_lock (points w i) \<longleftrightarrow> lock w = Some i" "point_ok ttl url w (points w i)" "spaced ttl (runs w)"
    "from_run url (runs w) (cell w)"
    "runs w \<noteq> [] \<Longrightarrow> ps_key (cell w) = Some url \<and> ps_at (cell w) = run_end (last (runs w))"
  using assms by (auto simp: probes_ok_def)

text \<open>A step of one thread that runs no probe: only its point, and maybe the lock, changes.\<close>

lemma ok_moved:
  assumes "probes_ok ttl url w" "\<And>j. j \<noteq> i \<Longrightarrow> lk = Some j \<longleftrightarrow> lock w = Some j" "holds_lock p \<longleftrightarrow> lk = Some i"
    and "point_ok ttl url w p"
  shows "probes_ok ttl url (at_point i p (w\<lparr>lock := lk\<rparr>))"
proof -
  have "point_ok ttl url (at_point i p (w\<lparr>lock := lk\<rparr>)) q = point_ok ttl url w q" for q
    by (cases q) (simp_all add: point_ok_def at_point_def)
  then show ?thesis using assms by (simp add: probes_ok_def) (simp add: at_point_def)
qed

lemma lock_same: "w\<lparr>lock := lock w\<rparr> = w"
  by simp

lemma ok_step:
  assumes "probe_step ttl url w w'" "probes_ok ttl url w" "0 < ttl"
  shows "probes_ok ttl url w'"
  using assms(1)
proof cases
  case (pr_tick d)
  have "point_ok ttl url w q \<Longrightarrow> point_ok ttl url w' q" for q
    using pr_tick by (cases q) (auto simp: point_ok_def)
  then show ?thesis using pr_tick assms(2) by (simp add: probes_ok_def)
next
  case (pr_read i)
  have "probes_ok ttl url (at_point i (Reading (cell w)) (w\<lparr>lock := lock w\<rparr>))"
    using pr_read(2) probes_okD(1) [OF assms(2), of i] probes_okD(4) [OF assms(2)] by (intro ok_moved [OF assms(2)]) (auto simp: holds_lock_def point_ok_def)
  then show ?thesis using pr_read(1) by simp
next
  case (pr_warm i p)
  have f: "from_run url (runs w) p" using probes_okD(2) [OF assms(2), of i] pr_warm(2) by (simp add: point_ok_def)
  have "probes_ok ttl url (at_point i (Answered (now w) (ps_result p)) (w\<lparr>lock := lock w\<rparr>))"
    using pr_warm(2,3) probes_okD(1) [OF assms(2), of i] f
    by (intro ok_moved [OF assms(2)]) (auto simp: holds_lock_def point_ok_def from_run_def warm_def)
  then show ?thesis using pr_warm(1) by simp
next
  case (pr_miss i p)
  have "probes_ok ttl url (at_point i Waiting (w\<lparr>lock := lock w\<rparr>))"
    using pr_miss(2) probes_okD(1) [OF assms(2), of i] by (intro ok_moved [OF assms(2)]) (auto simp: holds_lock_def point_ok_def)
  then show ?thesis using pr_miss(1) by simp
next
  case (pr_lock i)
  show ?thesis unfolding pr_lock(1)
    using pr_lock(3) by (intro ok_moved [OF assms(2)]) (auto simp: holds_lock_def point_ok_def)
next
  case (pr_again i)
  have l: "lock w = Some i" using probes_okD(1) [OF assms(2), of i] pr_again(2) by (simp add: holds_lock_def)
  show ?thesis unfolding pr_again(1)
    using pr_again(3) l probes_okD(4) [OF assms(2)]
    by (intro ok_moved [OF assms(2)]) (auto simp: holds_lock_def point_ok_def from_run_def warm_def)
next
  case (pr_start i)
  have l: "lock w = Some i" using probes_okD(1) [OF assms(2), of i] pr_start(2) by (simp add: holds_lock_def)
  have "probes_ok ttl url (at_point i (Probing (now w)) (w\<lparr>lock := lock w\<rparr>))"
    using pr_start(3) l probes_okD(5) [OF assms(2)]
    by (intro ok_moved [OF assms(2)]) (auto simp: holds_lock_def point_ok_def warm_def)
  then show ?thesis using pr_start(1) by simp
next
  case (pr_done i t r)
  have l: "lock w = Some i" using probes_okD(1) [OF assms(2), of i] pr_done(2) by (simp add: holds_lock_def)
  have t: "t \<le> now w" "runs w \<noteq> [] \<Longrightarrow> run_end (last (runs w)) + ttl \<le> t"
    using probes_okD(2) [OF assms(2), of i] pr_done(2) by (auto simp: point_ok_def)
  have others: "point_ok ttl url w' (points w j)" if "j \<noteq> i" for j
  proof -
    have "\<not> holds_lock (points w j)" using probes_okD(1) [OF assms(2), of j] l that by simp
    then show ?thesis using probes_okD(2) [OF assms(2), of j] pr_done(1)
      by (cases "points w j") (auto simp: point_ok_def holds_lock_def at_point_def from_run_mono)
  qed
  have w: "runs w' = runs w @ [(t, now w, r)]" "lock w' = None" "now w' = now w"
    "cell w' = \<lparr>ps_key = Some url, ps_at = now w, ps_result = r\<rparr>" "points w' = (points w)(i := Answered (now w) r)"
    using pr_done(1) by (simp_all add: at_point_def)
  have "\<not> holds_lock (points w' j)" for j
    using probes_okD(1) [OF assms(2), of j] l w(5) by (auto simp: holds_lock_def)
  moreover have "point_ok ttl url w' (points w' j)" for j
  proof (cases "j = i")
    case True
    have "\<exists>s e. (s, e, r) \<in> set (runs w') \<and> now w - e < ttl" using w(1) assms(3) by (intro exI [of _ t] exI [of _ "now w"]) simp
    then show ?thesis using w True by (simp add: point_ok_def)
  next
    case False
    then show ?thesis using others w(5) by simp
  qed
  moreover have "spaced ttl (runs w')" unfolding w(1) using probes_okD(3) [OF assms(2)] t by (intro spaced_snoc) auto
  ultimately show ?thesis using w by (auto simp: probes_ok_def from_run_def run_end_def)
next
  case (pr_next i t r)
  have "probes_ok ttl url (at_point i Idle (w\<lparr>lock := lock w\<rparr>))"
    using pr_next(2) probes_okD(1) [OF assms(2), of i] by (intro ok_moved [OF assms(2)]) (auto simp: holds_lock_def point_ok_def)
  then show ?thesis using pr_next(1) by simp
qed
lemma ok_path:
  assumes "probe_path ttl url w w'" "probes_ok ttl url w" "0 < ttl"
  shows "probes_ok ttl url w'"
  using assms by (induction rule: rtranclp_induct) (auto intro: ok_step)

lemma clock_path:
  assumes "probe_path ttl url (probes_at t0) w"
  shows "t0 \<le> now w \<and> (\<forall>(s, e, r) \<in> set (runs w). t0 \<le> s \<and> e \<le> now w) \<and> (\<forall>i t. points w i = Probing t \<longrightarrow> t0 \<le> t)"
  using assms
proof (induction rule: rtranclp_induct)
  case base
  then show ?case by (simp add: probes_at_def)
next
  case (step w w')
  show ?case using step(2,3) by (cases rule: probe_step.cases) (fastforce simp: at_point_def split: if_splits)+
qed

section \<open>What the probes promise\<close>

text \<open>Runs spaced by the lifetime: the n-th ends no earlier than n - 1 lifetimes after the first begins.\<close>

lemma spaced_count:
  assumes "spaced ttl rs" "rs \<noteq> []" "0 \<le> ttl" "\<forall>(s, e, r) \<in> set rs. t0 \<le> s"
  shows "t0 + (int (length rs) - 1) * ttl \<le> run_end (last rs)"
  using assms
proof (induction rs arbitrary: t0 rule: rev_induct)
  case (snoc x xs)
  obtain s e r where x: "x = (s, e, r)" by (cases x) auto
  have cut: "spaced ttl xs \<and> (xs \<noteq> [] \<longrightarrow> run_end (last xs) + ttl \<le> s) \<and> s \<le> e" if "spaced ttl (xs @ [x])"
    using that unfolding x by (induction ttl xs rule: spaced.induct) (auto simp: run_end_def)
  show ?case
  proof (cases "xs = []")
    case True
    then show ?thesis using snoc.prems x by (auto simp: run_end_def)
  next
    case False
    have "t0 + (int (length xs) - 1) * ttl \<le> run_end (last xs)"
      using snoc.IH [of t0] snoc.prems cut False by auto
    moreover have "run_end (last xs) + ttl \<le> e" using cut snoc.prems(1) False by auto
    moreover have "(int (length xs) - 1) * ttl + ttl = (int (length (xs @ [x])) - 1) * ttl" by (simp add: algebra_simps)
    ultimately show ?thesis by (simp add: x run_end_def)
  qed
qed simp

text \<open>C27. Health checks do not amplify. However many threads ask and however they interleave, runs of
  a probe never overlap, the next starts no earlier than one lifetime after the last ended, so that
  in the time since start at most one run per lifetime and one more has happened; and every answer
  given is the result of a run that ended less than one lifetime before.\<close>

theorem probes_are_single_flight:
  assumes "probe_path ttl url (probes_at t0) w" "0 < ttl"
  shows "spaced ttl (runs w) \<and> (\<forall>i j s t. points w i = Probing s \<longrightarrow> points w j = Probing t \<longrightarrow> i = j) \<and>
    (int (length (runs w)) - 1) * ttl \<le> now w - t0 \<and>
    (\<forall>i t r. points w i = Answered t r \<longrightarrow> (\<exists>s e. (s, e, r) \<in> set (runs w) \<and> t - e < ttl))"
proof -
  have ok: "probes_ok ttl url w" by (rule ok_path [OF assms(1) probes_ok_initial assms(2)])
  have "i = j" if "points w i = Probing s" "points w j = Probing t" for i j s t
    using probes_okD(1) [OF ok, of i] probes_okD(1) [OF ok, of j] that by (simp add: holds_lock_def)
  moreover have "(int (length (runs w)) - 1) * ttl \<le> now w - t0"
  proof (cases "runs w = []")
    case True
    then show ?thesis using clock_path [OF assms(1)] assms(2) by simp
  next
    case False
    have "t0 + (int (length (runs w)) - 1) * ttl \<le> run_end (last (runs w))"
      using spaced_count [OF probes_okD(3) [OF ok] False, of t0] clock_path [OF assms(1)] assms(2) by auto
    moreover have "run_end (last (runs w)) \<le> now w"
      using clock_path [OF assms(1)] last_in_set [OF False] by (auto simp: run_end_def)
    ultimately show ?thesis by simp
  qed
  moreover have "\<exists>s e. (s, e, r) \<in> set (runs w) \<and> t - e < ttl" if "points w i = Answered t r" for i t r
    using probes_okD(2) [OF ok, of i] that by (simp add: point_ok_def)
  ultimately show ?thesis using probes_okD(3) [OF ok] by blast
qed


lemma step_then: "probe_step ttl url a b \<Longrightarrow> probe_path ttl url b c \<Longrightarrow> probe_path ttl url a c"
  by (rule converse_rtranclp_into_rtranclp)

theorem probes_are_single_flight_witness:
  "\<exists>w. probe_path 5 ''d'' (probes_at 0) w \<and> length (runs w) = 1 \<and> points w 0 = Answered 0 (True, None) \<and> spaced 5 (runs w)"
proof -
  let ?w0 = "probes_at 0"
  let ?w1 = "at_point 0 (Reading (cell ?w0)) ?w0"
  let ?w2 = "at_point 0 Waiting ?w1"
  let ?w3 = "at_point 0 Holding (?w2\<lparr>lock := Some 0\<rparr>)"
  let ?w4 = "at_point 0 (Probing (now ?w3)) ?w3"
  let ?w5 = "at_point 0 (Answered (now ?w4) (True, None)) (?w4\<lparr>cell := \<lparr>ps_key = Some ''d'', ps_at = now ?w4, ps_result = (True, None)\<rparr>,
    lock := None, runs := runs ?w4 @ [(now ?w3, now ?w4, (True, None))]\<rparr>)"
  note simps = at_point_def probes_at_def initial_probe_def warm_def
  have s1: "probe_step 5 ''d'' ?w0 ?w1" by (rule pr_read) (simp add: simps)
  have s2: "probe_step 5 ''d'' ?w1 ?w2" by (rule pr_miss [where p = initial_probe]) (simp_all add: simps)
  have s3: "probe_step 5 ''d'' ?w2 ?w3" by (rule pr_lock) (simp_all add: simps)
  have s4: "probe_step 5 ''d'' ?w3 ?w4" by (rule pr_start) (simp_all add: simps)
  have s5: "probe_step 5 ''d'' ?w4 ?w5" by (rule pr_done) (simp add: simps)
  have "probe_path 5 ''d'' ?w4 ?w5" by (rule r_into_rtranclp, rule s5)
  then have "probe_path 5 ''d'' ?w3 ?w5" by (rule step_then [rotated], intro s4)
  then have "probe_path 5 ''d'' ?w2 ?w5" by (rule step_then [rotated], intro s3)
  then have "probe_path 5 ''d'' ?w1 ?w5" by (rule step_then [rotated], intro s2)
  then have p: "probe_path 5 ''d'' (probes_at 0) ?w5" by (rule step_then [rotated], intro s1)
  have "spaced 5 (runs ?w5)" by (rule probes_are_single_flight [OF p, THEN conjunct1]) simp
  moreover have "length (runs ?w5) = 1" "points ?w5 0 = Answered 0 (True, None)" by (simp_all add: simps)
  ultimately show ?thesis using p by blast
qed
end
