(* ===== verification/RateLimit.thy ===== *)
theory RateLimit
  imports Prelude
begin

text \<open>
  The soft rate limit on model calls (origination-service, \<^verbatim>\<open>app/rate_limit.py\<close>): per user a queue of
  the instants of the calls let through, in units of the monotonic clock, shared by every route
  that calls a model. The lock makes one check one step.
\<close>

definition window_seconds :: int where
  "window_seconds = 60"

definition max_calls :: nat where
  "max_calls = 10"

type_synonym call_windows = "string \<Rightarrow> int list"

definition limit_key :: "string option \<Rightarrow> string" where
  "limit_key user_id = (case user_id of None \<Rightarrow> ''_no_user_id'' | Some u \<Rightarrow> if u = '''' then ''_no_user_id'' else u)"

text \<open>\<^verbatim>\<open>while window and now - window[0] > _WINDOW_SECONDS: window.popleft()\<close>.\<close>

fun pop_old :: "int \<Rightarrow> int list \<Rightarrow> int list" where
  "pop_old t [] = []"
| "pop_old t (x # xs) = (if t - x > window_seconds then pop_old t xs else x # xs)"

definition check_llm_rate_limit :: "int \<Rightarrow> string option \<Rightarrow> call_windows \<Rightarrow> unit response \<times> call_windows" where
  "check_llm_rate_limit t user_id calls =
     (let key = limit_key user_id; window = pop_old t (calls key)
      in if max_calls \<le> length window
         then (raise_http 429 ''assistant rate limit exceeded: max 10 calls per 60s'', calls(key := window))
         else (Inr (), calls(key := window @ [t])))"

definition reset_limits :: call_windows where
  "reset_limits = (\<lambda>_. [])"

text \<open>A sequence of checks, each at its instant, and the instants of those let through.\<close>

fun run_checks :: "(int \<times> string option) list \<Rightarrow> call_windows \<Rightarrow> unit response list \<times> call_windows" where
  "run_checks [] calls = ([], calls)"
| "run_checks ((t, u) # rest) calls =
     (case check_llm_rate_limit t u calls of
        (r, calls1) \<Rightarrow> (case run_checks rest calls1 of (rs, calls2) \<Rightarrow> (r # rs, calls2)))"

section \<open>The reference\<close>

text \<open>A full history of the calls let through, and the rule read off it: fewer than ten of the last
  sixty seconds.\<close>

definition recent :: "int \<Rightarrow> int list \<Rightarrow> int list" where
  "recent t h = filter (\<lambda>x. t - x \<le> window_seconds) h"

fun reference :: "(int \<times> string option) list \<Rightarrow> call_windows \<Rightarrow> unit response list \<times> call_windows" where
  "reference [] h = ([], h)"
| "reference ((t, u) # rest) h =
     (let ok = (length (recent t (h (limit_key u))) < max_calls);
          r = (if ok then Inr () else raise_http 429 ''assistant rate limit exceeded: max 10 calls per 60s'');
          h1 = (if ok then h(limit_key u := h (limit_key u) @ [t]) else h)
      in (case reference rest h1 of (rs, h2) \<Rightarrow> (r # rs, h2)))"

section \<open>Lemmas\<close>

lemma pop_old_sorted: "sorted xs \<Longrightarrow> pop_old t xs = recent t xs"
proof (induction xs)
  case (Cons x xs)
  have "recent t (x # xs) = x # xs" if "t - x \<le> window_seconds"
    using Cons.prems that unfolding recent_def by (intro filter_True) auto
  then show ?case using Cons by (auto simp: recent_def)
qed (simp add: recent_def)

lemma recent_recent: "s \<le> t \<Longrightarrow> recent t (recent s xs) = recent t xs"
  unfolding recent_def filter_filter by (rule filter_cong) auto

text \<open>The queue of a key is the recent part of its history, up to instants already past.\<close>

definition tracks :: "int \<Rightarrow> call_windows \<Rightarrow> call_windows \<Rightarrow> bool" where
  "tracks s calls h \<longleftrightarrow>
     (\<forall>k. sorted (h k) \<and> sorted (calls k) \<and> (\<forall>x \<in> set (h k) \<union> set (calls k). x \<le> s) \<and>
          (\<forall>t \<ge> s. recent t (calls k) = recent t (h k)))"

lemma tracksD:
  assumes "tracks s calls h"
  shows "sorted (h k)" "sorted (calls k)" "x \<in> set (h k) \<union> set (calls k) \<Longrightarrow> x \<le> s"
    "s \<le> t \<Longrightarrow> recent t (calls k) = recent t (h k)"
  using assms by (auto simp: tracks_def)

lemma recent_snoc: "recent t (xs @ ys) = recent t xs @ recent t ys"
  by (simp add: recent_def)

lemma tracks_update:
  assumes "tracks s calls h" "s \<le> t" "w = recent t (h k) @ xs" "xs = [] \<or> xs = [t]"
  shows "tracks t (calls(k := w)) (h(k := h k @ xs))"
proof -
  have le: "x \<in> set (h j) \<Longrightarrow> x \<le> t" "x \<in> set (calls j) \<Longrightarrow> x \<le> t" for x j
    using tracksD(3) [OF assms(1), of x j] assms(2) by auto
  have "sorted (recent t (h k))" using tracksD(1) [OF assms(1)] by (simp add: recent_def sorted_wrt_filter)
  moreover have "set (recent t (h k)) \<subseteq> set (h k)" by (simp add: recent_def)
  ultimately have "sorted w" "\<forall>x \<in> set w. x \<le> t" using assms(3,4) le(1) [of _ k] by (auto simp: sorted_append)
  moreover have "sorted (h k @ xs)" using tracksD(1) [OF assms(1)] assms(4) le(1) [of _ k] by (auto simp: sorted_append)
  moreover have "recent t' w = recent t' (h k @ xs)" if "t \<le> t'" for t'
    using that by (simp add: assms(3) recent_snoc recent_recent)
  moreover have "recent t' (calls j) = recent t' (h j)" if "t \<le> t'" for j t'
    using tracksD(4) [OF assms(1)] that assms(2) by simp
  moreover have "\<forall>x \<in> set (h k @ xs). x \<le> t" using assms(4) le(1) by auto
  ultimately show ?thesis using tracksD(1,2) [OF assms(1)] le unfolding tracks_def by (simp, blast)
qed

lemma check_refines:
  assumes "tracks s calls h" "s \<le> t"
  shows "\<exists>r h1 calls1. reference ((t, u) # rest) h = (case reference rest h1 of (rs, h2) \<Rightarrow> (r # rs, h2)) \<and>
    check_llm_rate_limit t u calls = (r, calls1) \<and> tracks t calls1 h1"
proof -
  let ?k = "limit_key u"
  have w: "pop_old t (calls ?k) = recent t (h ?k)"
    using pop_old_sorted tracksD(2,4) [OF assms(1)] assms(2) by metis
  show ?thesis
  proof (cases "length (recent t (h ?k)) < max_calls")
    case True
    then show ?thesis
      using w tracks_update [OF assms refl, of "[t]" ?k]
      by - (rule exI [where x = "Inr ()"], rule exI [where x = "h(?k := h ?k @ [t])"],
          rule exI [where x = "calls(?k := recent t (h ?k) @ [t])"], simp add: check_llm_rate_limit_def Let_def)
  next
    case False
    then show ?thesis
      using w tracks_update [OF assms refl, of "[]" ?k]
      by - (rule exI [where x = "raise_http 429 ''assistant rate limit exceeded: max 10 calls per 60s''"],
          rule exI [where x = h], rule exI [where x = "calls(?k := recent t (h ?k))"],
          simp add: check_llm_rate_limit_def Let_def)
  qed
qed

lemma tracks_reset: "tracks s reset_limits (\<lambda>_. [])"
  by (simp add: tracks_def reset_limits_def)

lemma run_refines:
  "tracks s calls h \<Longrightarrow> sorted (s # map fst cs) \<Longrightarrow>
   fst (run_checks cs calls) = fst (reference cs h) \<and> (\<exists>t. tracks t (snd (run_checks cs calls)) (snd (reference cs h)))"
proof (induction cs arbitrary: s calls h)
  case (Cons c cs)
  obtain t u where c: "c = (t, u)" by (cases c)
  have "s \<le> t" using Cons.prems(2) c by simp
  from check_refines [OF Cons.prems(1) this, of u cs]
  obtain r h1 calls1 where s: "reference ((t, u) # cs) h = (case reference cs h1 of (rs, h2) \<Rightarrow> (r # rs, h2))"
    "check_llm_rate_limit t u calls = (r, calls1)" "tracks t calls1 h1" by blast
  have "sorted (t # map fst cs)" using Cons.prems(2) c by simp
  from Cons.IH [OF s(3) this] show ?case
    using s(1,2) unfolding c by (cases "reference cs h1"; cases "run_checks cs calls1") (simp del: reference.simps)
qed auto

section \<open>The promise\<close>

text \<open>The eleventh of the calls let through for a user comes more than a window after the first.\<close>

definition limited :: "call_windows \<Rightarrow> bool" where
  "limited h \<longleftrightarrow> (\<forall>k i. i + max_calls < length (h k) \<longrightarrow> h k ! (i + max_calls) - h k ! i > window_seconds)"

lemma recent_suffix:
  assumes "sorted h" "\<forall>x \<in> set h. x \<le> t" "length (recent t h) < max_calls" "max_calls \<le> length h"
  shows "t - h ! (length h - max_calls) > window_seconds"
proof (rule ccontr)
  assume a: "\<not> ?thesis"
  have "t - x \<le> window_seconds" if "x \<in> set (drop (length h - max_calls) h)" for x
  proof -
    from that obtain i where "i < max_calls" "x = h ! (length h - max_calls + i)"
      using assms(4) by (auto simp: in_set_conv_nth)
    then have "h ! (length h - max_calls) \<le> x" using assms(1,4) by (auto intro: sorted_nth_mono)
    then show ?thesis using a by simp
  qed
  then have "recent t (drop (length h - max_calls) h) = drop (length h - max_calls) h"
    unfolding recent_def by (intro filter_True) auto
  moreover have "length (recent t (drop (length h - max_calls) h)) \<le> length (recent t h)"
    using recent_snoc [of t "take (length h - max_calls) h" "drop (length h - max_calls) h"] by simp
  ultimately show False using assms(3,4) by simp
qed

lemma limited_snoc:
  assumes "limited h" "sorted (h k)" "\<forall>x \<in> set (h k). x \<le> t" "length (recent t (h k)) < max_calls"
  shows "limited (h(k := h k @ [t]))"
  unfolding limited_def
proof (intro allI impI)
  fix j i
  assume i: "i + max_calls < length ((h(k := h k @ [t])) j)"
  show "(h(k := h k @ [t])) j ! (i + max_calls) - (h(k := h k @ [t])) j ! i > window_seconds"
  proof (cases "j = k \<and> i + max_calls = length (h k)")
    case True
    then have "i = length (h k) - max_calls" "max_calls \<le> length (h k)" by auto
    moreover have "0 < max_calls" by (simp add: max_calls_def)
    ultimately show ?thesis using recent_suffix [OF assms(2-4)] True by (simp add: nth_append)
  next
    case False
    then show ?thesis using assms(1) i by (cases "j = k") (auto simp: limited_def nth_append)
  qed
qed

lemma reference_limited:
  "limited h \<Longrightarrow> \<forall>k. sorted (h k) \<and> (\<forall>x \<in> set (h k). x \<le> s) \<Longrightarrow> sorted (s # map fst cs) \<Longrightarrow> limited (snd (reference cs h))"
proof (induction cs arbitrary: s h)
  case (Cons c cs)
  obtain t u where c: "c = (t, u)" by (cases c)
  let ?k = "limit_key u"
  have st: "s \<le> t" "sorted (t # map fst cs)" using Cons.prems(3) c by auto
  then have below: "\<forall>k. sorted (h k) \<and> (\<forall>x \<in> set (h k). x \<le> t)" using Cons.prems(2) by force
  show ?case
  proof (cases "length (recent t (h ?k)) < max_calls")
    case True
    have "limited (h(?k := h ?k @ [t]))" using limited_snoc [OF Cons.prems(1)] below True by blast
    moreover have "\<forall>k. sorted ((h(?k := h ?k @ [t])) k) \<and> (\<forall>x \<in> set ((h(?k := h ?k @ [t])) k). x \<le> t)"
      using below by (auto simp: sorted_append)
    ultimately have "limited (snd (reference cs (h(?k := h ?k @ [t]))))" using Cons.IH [OF _ _ st(2)] by blast
    then show ?thesis using True by (cases "reference cs (h(?k := h ?k @ [t]))") (simp add: c)
  next
    case False
    then show ?thesis using Cons.IH [OF Cons.prems(1) below st(2)] by (cases "reference cs h") (simp add: c)
  qed
qed simp

text \<open>C28. The rate limit is an exact sliding window. From a reset on, and with the clock not running
  backwards, every check decides as the rule on the full history does: refused exactly when ten
  calls of the user were let through in the last sixty seconds. So of any eleven calls let
  through for a user the last comes more than sixty seconds after the first.\<close>

theorem rate_limit_is_a_sliding_window:
  assumes "sorted (map fst cs)"
  shows "fst (run_checks cs reset_limits) = fst (reference cs (\<lambda>_. [])) \<and> limited (snd (reference cs (\<lambda>_. [])))"
proof (cases cs)
  case Nil
  then show ?thesis by (simp add: limited_def)
next
  case (Cons c rest)
  then have s: "sorted (fst c # map fst cs)" using assms by auto
  have "limited (snd (reference cs (\<lambda>_. [])))"
    by (rule reference_limited [OF _ _ s]) (simp_all add: limited_def)
  then show ?thesis using run_refines [OF tracks_reset s] by simp
qed

theorem rate_limit_is_a_sliding_window_witness:
  "fst (run_checks (replicate 11 (0, Some ''u'')) reset_limits) = fst (reference (replicate 11 (0, Some ''u'')) (\<lambda>_. [])) \<and>
   last (fst (run_checks (replicate 11 (0, Some ''u'')) reset_limits))
     = raise_http 429 ''assistant rate limit exceeded: max 10 calls per 60s''"
proof -
  have "sorted (map fst (replicate 11 (0 :: int, Some ''u'')))" by (simp add: sorted_replicate)
  moreover have "last (fst (run_checks (replicate 11 (0, Some ''u'')) reset_limits))
     = raise_http 429 ''assistant rate limit exceeded: max 10 calls per 60s''" by code_simp
  ultimately show ?thesis using rate_limit_is_a_sliding_window by blast
qed

end
