(* ===== verification/Regex.thy ===== *)
theory Regex
  imports Prelude
begin

text \<open>
  Python's \<^verbatim>\<open>re\<close>, as far as the redactor and the request builder use it: a backtracking matcher that
  returns every way to match at a position in the order the engine tries them, and \<^verbatim>\<open>re.sub\<close> with a
  function. A character below 256 stands for its code point, except that code \<open>0x95\<close> stands for the
  mask glyph U+2022; texts with other characters, or with U+0095 itself, are outside the model.
\<close>

section \<open>Character classes\<close>

definition mask_dot :: char where
  "mask_dot = CHR 0x95"

definition re_space :: "char \<Rightarrow> bool" where
  "re_space c \<longleftrightarrow> py_space c \<or> char_code c = 133 \<or> char_code c = 160"

definition ascii_alpha :: "char \<Rightarrow> bool" where
  "ascii_alpha c \<longleftrightarrow> (65 \<le> char_code c \<and> char_code c \<le> 90) \<or> (97 \<le> char_code c \<and> char_code c \<le> 122)"

text \<open>\<^verbatim>\<open>str.isalpha\<close>, \<^verbatim>\<open>str.isdigit\<close> and \<^verbatim>\<open>str.isalnum\<close> of one character of Latin-1.\<close>

definition is_alpha :: "char \<Rightarrow> bool" where
  "is_alpha c \<longleftrightarrow> ascii_alpha c \<or> char_code c \<in> {170, 181, 186} \<or>
     (192 \<le> char_code c \<and> char_code c \<noteq> 215 \<and> char_code c \<noteq> 247)"

definition is_digit :: "char \<Rightarrow> bool" where
  "is_digit c \<longleftrightarrow> py_digit c \<or> char_code c \<in> {178, 179, 185}"

definition is_alnum :: "char \<Rightarrow> bool" where
  "is_alnum c \<longleftrightarrow> is_alpha c \<or> is_digit c \<or> char_code c \<in> {188, 189, 190}"

definition re_word :: "char \<Rightarrow> bool" where
  "re_word c \<longleftrightarrow> is_alnum c \<or> c = CHR ''_''"

section \<open>Expressions\<close>

text \<open>
  \<open>Rep n k r\<close> is \<^verbatim>\<open>r{n,n+k}\<close>, \<open>Star\<close> and \<open>Lazy\<close> are \<^verbatim>\<open>*\<close> and \<^verbatim>\<open>*?\<close>. A state is the text before the
  position, read backwards, the text after it, and the groups captured so far.
\<close>

datatype rx =
  Eps | Sat "char \<Rightarrow> bool" | Seq rx rx | Alt rx rx | Rep nat nat rx | Star rx | Lazy rx
  | Grp nat rx | Back nat | Ahead rx | Not_ahead rx | Word_edge | At_end

type_synonym captures = "(nat \<times> string) list"
type_synonym rx_state = "string \<times> string \<times> captures"

definition then_all :: "(rx_state \<Rightarrow> rx_state list) \<Rightarrow> rx_state list \<Rightarrow> rx_state list" where
  "then_all m ss = concat (map m ss)"

text \<open>An iteration that consumes nothing ends a repetition.\<close>

definition progress :: "rx_state \<Rightarrow> rx_state \<Rightarrow> bool" where
  "progress s s' \<longleftrightarrow> length (fst (snd s')) < length (fst (snd s))"

primrec rep_exact :: "nat \<Rightarrow> (rx_state \<Rightarrow> rx_state list) \<Rightarrow> rx_state \<Rightarrow> rx_state list" where
  "rep_exact 0 m s = [s]"
| "rep_exact (Suc n) m s = then_all (rep_exact n m) (m s)"

primrec rep_upto :: "nat \<Rightarrow> (rx_state \<Rightarrow> rx_state list) \<Rightarrow> rx_state \<Rightarrow> rx_state list" where
  "rep_upto 0 m s = [s]"
| "rep_upto (Suc n) m s = then_all (rep_upto n m) (filter (progress s) (m s)) @ [s]"

primrec rep_lazy :: "nat \<Rightarrow> (rx_state \<Rightarrow> rx_state list) \<Rightarrow> rx_state \<Rightarrow> rx_state list" where
  "rep_lazy 0 m s = [s]"
| "rep_lazy (Suc n) m s = s # then_all (rep_lazy n m) (filter (progress s) (m s))"

definition word_at :: "string \<Rightarrow> bool" where
  "word_at s \<longleftrightarrow> (case s of [] \<Rightarrow> False | c # cs \<Rightarrow> re_word c)"

primrec rx_match :: "rx \<Rightarrow> rx_state \<Rightarrow> rx_state list" where
  "rx_match Eps s = [s]"
| "rx_match (Sat p) s =
     (case fst (snd s) of [] \<Rightarrow> [] | c # cs \<Rightarrow> if p c then [(c # fst s, cs, snd (snd s))] else [])"
| "rx_match (Seq a b) s = then_all (rx_match b) (rx_match a s)"
| "rx_match (Alt a b) s = rx_match a s @ rx_match b s"
| "rx_match (Rep n k r) s = then_all (rep_upto k (rx_match r)) (rep_exact n (rx_match r) s)"
| "rx_match (Star r) s = rep_upto (length (fst (snd s))) (rx_match r) s"
| "rx_match (Lazy r) s = rep_lazy (length (fst (snd s))) (rx_match r) s"
| "rx_match (Grp n r) s =
     map (\<lambda>s'. (fst s', fst (snd s'),
                (n, take (length (fst (snd s)) - length (fst (snd s'))) (fst (snd s))) # snd (snd s')))
       (rx_match r s)"
| "rx_match (Back n) s =
     (case map_of (snd (snd s)) n of
        None \<Rightarrow> []
      | Some w \<Rightarrow> if take (length w) (fst (snd s)) = w
                  then [(rev w @ fst s, drop (length w) (fst (snd s)), snd (snd s))] else [])"
| "rx_match (Ahead r) s = (if rx_match r s = [] then [] else [s])"
| "rx_match (Not_ahead r) s = (if rx_match r s = [] then [s] else [])"
| "rx_match Word_edge s = (if word_at (fst s) \<noteq> word_at (fst (snd s)) then [s] else [])"
| "rx_match At_end s = (if fst (snd s) = [] \<or> fst (snd s) = [CHR 0x0A] then [s] else [])"

text \<open>The match at a position: the text consumed and the groups.\<close>

definition first_match :: "rx \<Rightarrow> string \<Rightarrow> string \<Rightarrow> (string \<times> captures) option" where
  "first_match r pre s =
     (case rx_match r (pre, s, []) of
        [] \<Rightarrow> None
      | (pre', s', caps) # _ \<Rightarrow> Some (take (length s - length s') s, caps))"

text \<open>\<^verbatim>\<open>re.sub\<close> with a function of the match and its groups, for patterns that match no empty text.\<close>

function sub_from :: "rx \<Rightarrow> (string \<Rightarrow> captures \<Rightarrow> string) \<Rightarrow> string \<Rightarrow> string \<Rightarrow> string" where
  "sub_from r f pre [] = []"
| "sub_from r f pre (c # cs) =
     (case first_match r pre (c # cs) of
        None \<Rightarrow> c # sub_from r f (c # pre) cs
      | Some (w, caps) \<Rightarrow>
          if w = [] then c # sub_from r f (c # pre) cs
          else f w caps @ sub_from r f (rev w @ pre) (drop (length w) (c # cs)))"
  by pat_completeness auto
termination
  by (relation "measure (\<lambda>(r, f, pre, s). length s)") auto

definition re_sub :: "rx \<Rightarrow> (string \<Rightarrow> captures \<Rightarrow> string) \<Rightarrow> string \<Rightarrow> string" where
  "re_sub r f s = sub_from r f [] s"

definition re_search :: "rx \<Rightarrow> string \<Rightarrow> bool" where
  "re_search r s \<longleftrightarrow> list_ex (\<lambda>i. first_match r (rev (take i s)) (drop i s) \<noteq> None) [0..<Suc (length s)]"

definition group :: "captures \<Rightarrow> nat \<Rightarrow> string" where
  "group caps n = (case map_of caps n of None \<Rightarrow> [] | Some w \<Rightarrow> w)"

section \<open>Notation of patterns\<close>

primrec lit :: "string \<Rightarrow> rx" where
  "lit [] = Eps"
| "lit (c # cs) = Seq (Sat (\<lambda>x. x = c)) (lit cs)"

primrec ilit :: "string \<Rightarrow> rx" where
  "ilit [] = Eps"
| "ilit (c # cs) = Seq (Sat (\<lambda>x. lower_char x = lower_char c)) (ilit cs)"

primrec seqs :: "rx list \<Rightarrow> rx" where
  "seqs [] = Eps"
| "seqs (r # rs) = Seq r (seqs rs)"

fun alts :: "rx list \<Rightarrow> rx" where
  "alts [] = Sat (\<lambda>_. False)"
| "alts [r] = r"
| "alts (r # rs) = Alt r (alts rs)"

definition opt :: "rx \<Rightarrow> rx" where
  "opt r = Rep 0 1 r"

definition plus :: "rx \<Rightarrow> rx" where
  "plus r = Seq r (Star r)"

definition one_of :: "string \<Rightarrow> rx" where
  "one_of s = Sat (\<lambda>c. c \<in> set s)"

definition none_of :: "string \<Rightarrow> rx" where
  "none_of s = Sat (\<lambda>c. c \<notin> set s)"

definition any_char :: rx where
  "any_char = Sat (\<lambda>c. c \<noteq> CHR 0x0A)"

definition digit :: rx where
  "digit = Sat py_digit"

definition digits :: "nat \<Rightarrow> rx" where
  "digits n = Rep n 0 digit"

definition space :: rx where
  "space = Sat re_space"

section \<open>What a match consumes\<close>

definition consumed :: "rx_state \<Rightarrow> rx_state \<Rightarrow> string \<Rightarrow> bool" where
  "consumed s s' w \<longleftrightarrow> fst (snd s) = w @ fst (snd s') \<and> fst s' = rev w @ fst s"

lemma consumed_refl [simp]: "consumed s s w \<longleftrightarrow> w = []"
  by (auto simp: consumed_def)

lemma consumed_trans: "consumed s t v \<Longrightarrow> consumed t u w \<Longrightarrow> consumed s u (v @ w)"
  by (simp add: consumed_def)

definition advances :: "(rx_state \<Rightarrow> rx_state list) \<Rightarrow> bool" where
  "advances m \<longleftrightarrow> (\<forall>s s'. s' \<in> set (m s) \<longrightarrow> (\<exists>w. consumed s s' w))"

lemma advancesD: "advances m \<Longrightarrow> s' \<in> set (m s) \<Longrightarrow> \<exists>w. consumed s s' w"
  unfolding advances_def by blast

lemma advancesI: "(\<And>s s'. s' \<in> set (m s) \<Longrightarrow> \<exists>w. consumed s s' w) \<Longrightarrow> advances m"
  unfolding advances_def by blast

lemma advances_step:
  "advances m \<Longrightarrow> advances k \<Longrightarrow> t \<in> set (m s) \<Longrightarrow> s' \<in> set (k t) \<Longrightarrow> \<exists>w. consumed s s' w"
  by (meson advancesD consumed_trans)

lemma set_then_all [simp]: "set (then_all m ss) = (\<Union>s \<in> set ss. set (m s))"
  by (simp add: then_all_def)

lemma advances_self: "advances (\<lambda>s. [s])"
  by (rule advancesI) simp

lemma advances_exact:
  assumes "advances m"
  shows "advances (rep_exact n m)"
proof (induction n)
  case (Suc n)
  show ?case
  proof (rule advancesI)
    fix s s'
    assume "s' \<in> set (rep_exact (Suc n) m s)"
    then obtain t where "t \<in> set (m s)" "s' \<in> set (rep_exact n m t)" by force
    then show "\<exists>w. consumed s s' w" using advances_step [OF assms Suc] by blast
  qed
qed (use advances_self in simp)

lemma advances_upto:
  assumes "advances m"
  shows "advances (rep_upto n m)"
proof (induction n)
  case (Suc n)
  show ?case
  proof (rule advancesI)
    fix s s'
    assume "s' \<in> set (rep_upto (Suc n) m s)"
    then consider "s' = s" | t where "t \<in> set (m s)" "s' \<in> set (rep_upto n m t)" by force
    then show "\<exists>w. consumed s s' w" using advances_step [OF assms Suc] by cases (simp, blast)
  qed
qed (use advances_self in simp)

lemma advances_lazy:
  assumes "advances m"
  shows "advances (rep_lazy n m)"
proof (induction n)
  case (Suc n)
  show ?case
  proof (rule advancesI)
    fix s s'
    assume "s' \<in> set (rep_lazy (Suc n) m s)"
    then consider "s' = s" | t where "t \<in> set (m s)" "s' \<in> set (rep_lazy n m t)" by force
    then show "\<exists>w. consumed s s' w" using advances_step [OF assms Suc] by cases (simp, blast)
  qed
qed (use advances_self in simp)

lemma rx_advances: "advances (rx_match r)"
proof (induction r)
  case (Sat p)
  show ?case
  proof (rule advancesI)
    fix s s'
    assume "s' \<in> set (rx_match (Sat p) s)"
    then obtain c cs where "fst (snd s) = c # cs" "s' = (c # fst s, cs, snd (snd s))"
      by (cases "fst (snd s)") (auto split: if_splits)
    then show "\<exists>w. consumed s s' w" by (intro exI [of _ "[c]"]) (simp add: consumed_def)
  qed
next
  case (Seq a b)
  show ?case
  proof (rule advancesI)
    fix s s'
    assume "s' \<in> set (rx_match (Seq a b) s)"
    then obtain t where "t \<in> set (rx_match a s)" "s' \<in> set (rx_match b t)" by force
    then show "\<exists>w. consumed s s' w" using advances_step [OF Seq] by blast
  qed
next
  case (Rep n k r)
  show ?case
  proof (rule advancesI)
    fix s s'
    assume "s' \<in> set (rx_match (Rep n k r) s)"
    then obtain t where "t \<in> set (rep_exact n (rx_match r) s)" "s' \<in> set (rep_upto k (rx_match r) t)" by force
    then show "\<exists>w. consumed s s' w"
      using advances_step [OF advances_exact [OF Rep] advances_upto [OF Rep]] by blast
  qed
next
  case (Grp n r)
  show ?case
  proof (rule advancesI)
    fix s s'
    assume "s' \<in> set (rx_match (Grp n r) s)"
    then obtain t where "t \<in> set (rx_match r s)" "fst s' = fst t" "fst (snd s') = fst (snd t)" by force
    then show "\<exists>w. consumed s s' w" using advancesD [OF Grp] by (metis consumed_def)
  qed
next
  case (Back n)
  show ?case
  proof (rule advancesI)
    fix s s'
    assume "s' \<in> set (rx_match (Back n) s)"
    then obtain w where "take (length w) (fst (snd s)) = w"
      "s' = (rev w @ fst s, drop (length w) (fst (snd s)), snd (snd s))"
      by (auto split: option.splits if_splits)
    moreover have "fst (snd s) = take (length w) (fst (snd s)) @ drop (length w) (fst (snd s))" by simp
    ultimately have "consumed s s' w" by (simp add: consumed_def)
    then show "\<exists>w. consumed s s' w" ..
  qed
next
  case (Star r)
  show ?case by (rule advancesI, simp only: rx_match.simps, erule advancesD [OF advances_upto [OF Star]])
next
  case (Lazy r)
  show ?case by (rule advancesI, simp only: rx_match.simps, erule advancesD [OF advances_lazy [OF Lazy]])
next
  case (Alt a b)
  show ?case
    by (rule advancesI, simp only: rx_match.simps set_append, elim UnE advancesD [OF Alt(1)] advancesD [OF Alt(2)])
qed (rule advancesI, simp split: if_splits)+

end
