(* ===== verification/Redactor.thy ===== *)
theory Redactor
  imports Regex
begin

text \<open>
  \<^verbatim>\<open>app/redactor.py\<close> (the same file in seven services): the masking of card numbers, security codes,
  social security numbers, e-mail addresses, telephone and bank numbers in a text, as the sequence
  of substitutions the code makes. The patterns are those of the code, in the notation of Regex.
\<close>

section \<open>Masks\<close>

definition dots :: "nat \<Rightarrow> string" where
  "dots n = replicate n mask_dot"

definition mask_with_last_4 :: "string \<Rightarrow> string" where
  "mask_with_last_4 s = (if length s \<le> 4 then dots (length s) else dots (length s - 4) @ drop (length s - 4) s)"

text \<open>\<^verbatim>\<open>re.sub(r"\D", "", value)\<close>.\<close>

definition only_digits :: "string \<Rightarrow> string" where
  "only_digits s = filter py_digit s"

definition mask_pan_value :: "string \<Rightarrow> string" where
  "mask_pan_value v =
     (if length (only_digits v) < 13 then v else mask_with_last_4 (only_digits v) @ '' (PAN)'')"

fun luhn_from :: "nat \<Rightarrow> string \<Rightarrow> int" where
  "luhn_from i [] = 0"
| "luhn_from i (c # cs) =
     (let d = digit_val c; e = (if odd i then (if 2 * d > 9 then 2 * d - 9 else 2 * d) else d)
      in e + luhn_from (Suc i) cs)"

definition luhn_valid :: "string \<Rightarrow> bool" where
  "luhn_valid s \<longleftrightarrow> luhn_from 0 (rev s) mod 10 = 0"

definition redact_if_pan :: "string \<Rightarrow> string" where
  "redact_if_pan raw =
     (let ds = only_digits raw
      in if 13 \<le> length ds \<and> length ds \<le> 19 \<and> luhn_valid ds then mask_with_last_4 ds @ '' (PAN)'' else raw)"

definition mask_bank_value :: "string \<Rightarrow> string" where
  "mask_bank_value v =
     (if mask_dot \<in> set v then v
      else if length (only_digits v) < 4 then v else mask_with_last_4 (only_digits v))"

definition max_separator_run :: nat where
  "max_separator_run = 8"

definition pan_in_value :: rx where
  "pan_in_value = Seq digit (Rep 12 6 (Seq (Rep 0 max_separator_run (Sat (\<lambda>c. \<not> py_digit c))) digit))"

definition mask_pan_in_value :: "string \<Rightarrow> string" where
  "mask_pan_in_value v =
     (if length (filter is_digit v) < 13 then v else re_sub pan_in_value (\<lambda>w _. redact_if_pan w) v)"

definition hex_value :: "char \<Rightarrow> nat" where
  "hex_value c =
     (let n = char_code c in if n \<le> 57 then n - 48 else if n \<le> 70 then n - 55 else n - 87)"

definition hex_class :: rx where
  "hex_class = one_of ''0123456789abcdefABCDEF''"

definition percent_decode :: "string \<Rightarrow> string" where
  "percent_decode = re_sub (seqs [lit ''%'', Grp 1 (Rep 2 0 hex_class)])
     (\<lambda>_ caps. case group caps 1 of [a, b] \<Rightarrow> [char_of (16 * hex_value a + hex_value b)] | _ \<Rightarrow> [])"

definition mask_pan_token :: "string \<Rightarrow> string" where
  "mask_pan_token token =
     (let decoded = percent_decode token; masked = mask_pan_in_value decoded
      in if decoded \<noteq> token \<and> masked \<noteq> decoded then masked else mask_pan_in_value token)"

section \<open>Patterns\<close>

definition quote :: rx where
  "quote = one_of [CHR 0x22, CHR 0x27]"

definition sep :: rx where
  "sep = opt (one_of ''_ '')"

definition number_word :: rx where
  "number_word = alts [ilit ''number'', ilit ''no'', ilit ''num'']"

definition pan_key :: rx where
  "pan_key = alts [ilit ''pan'', seqs [ilit ''card'', sep, number_word], seqs [ilit ''cc'', sep, number_word],
     seqs [ilit ''credit'', sep, ilit ''card''], seqs [ilit ''account'', sep, number_word],
     seqs [ilit ''acct'', sep, number_word],
     seqs [ilit ''primary'', sep, ilit ''account'', sep, ilit ''number'']]"

definition bank_key :: rx where
  "bank_key = seqs [Word_edge,
     alts [seqs [ilit ''bank'', sep, ilit ''account''], ilit ''account'', ilit ''acct'', ilit ''dda'',
           seqs [ilit ''ach'', opt (seqs [sep, ilit ''account''])], ilit ''routing'', ilit ''aba'',
           ilit ''rtn'', ilit ''transit'', ilit ''iban''],
     opt (seqs [sep, number_word])]"

text \<open>A field name, its optional quotes and the \<^verbatim>\<open>:\<close> or \<^verbatim>\<open>=\<close> after it.\<close>

definition assigned :: "rx \<Rightarrow> rx" where
  "assigned key = seqs [opt quote, key, opt quote, Star space, one_of '':='', Star space]"

definition value_end :: rx where
  "value_end = Ahead (Alt (Sat (\<lambda>c. re_space c \<or> c \<in> set '',;}])'')) At_end)"

definition quoted_field :: "rx \<Rightarrow> rx" where
  "quoted_field key = seqs [Grp 1 (assigned key), Grp 2 quote, Grp 3 (Lazy any_char), Back 2, value_end]"

definition unquoted_field :: "rx \<Rightarrow> rx" where
  "unquoted_field key = seqs [Grp 1 (assigned key),
     Grp 2 (plus (Sat (\<lambda>c. \<not> re_space c \<and> c \<notin> set ([CHR 0x22, CHR 0x27] @ '',;}])&''))))]"

definition request_line :: rx where
  "request_line = seqs [Word_edge,
     Grp 1 (alts [ilit ''GET'', ilit ''POST'', ilit ''PUT'', ilit ''PATCH'', ilit ''DELETE'', ilit ''HEAD'', ilit ''OPTIONS'']),
     Grp 2 (plus space), Grp 3 (plus (Sat (\<lambda>c. \<not> re_space c))), Grp 4 (seqs [plus space, ilit ''HTTP/'', digit])]"

definition mask_request_target_query :: "string \<Rightarrow> captures \<Rightarrow> string" where
  "mask_request_target_query w m =
     (if CHR ''?'' \<notin> set (group m 3) then w
      else group m 1 @ group m 2 @ takeWhile (\<lambda>c. c \<noteq> CHR ''?'') (group m 3) @ ''?'' @ dots 3 @ group m 4)"

definition free_pan :: rx where
  "free_pan = seqs [Word_edge, digit,
     Rep 12 6 (Seq (Alt (Rep 0 3 (Sat (\<lambda>c. \<not> py_digit c \<and> \<not> ascii_alpha c))) (Sat ascii_alpha)) digit), Word_edge]"

definition dotted_pan :: rx where
  "dotted_pan = seqs [Word_edge, digits 4, Rep 2 0 (Seq (lit ''.'') (digits 4)), lit ''.'', Rep 1 6 digit, Word_edge]"

definition quoted_value :: rx where
  "quoted_value = seqs [Grp 1 quote,
     Grp 2 (Star (Alt (Seq (Not_ahead (Back 1)) (none_of [CHR 0x5C])) (Seq (lit [CHR 0x5C]) any_char))), Back 1]"

definition plain_token :: rx where
  "plain_token = plus (Sat (\<lambda>c. \<not> re_space c \<and> c \<notin> set ([CHR 0x22, CHR 0x27] @ ''?&=/#;,:'')))"

definition cvv_field :: rx where
  "cvv_field = seqs
     [Grp 1 (seqs [opt quote,
        alts [ilit ''cvv2'', ilit ''cvv'', ilit ''cvc'', ilit ''cid'',
              seqs [ilit ''card'', sep, ilit ''security'', sep, ilit ''code''], seqs [ilit ''security'', sep, ilit ''code'']],
        opt quote, Star space, one_of '':='', Star space, opt quote]),
      Grp 2 (Rep 3 1 digit), Grp 3 (opt quote)]"

definition dashed_ssn :: rx where
  "dashed_ssn = seqs [Word_edge, digits 3, lit ''-'', digits 2, lit ''-'', Grp 1 (digits 4), Word_edge]"

definition spaced_ssn :: rx where
  "spaced_ssn = seqs [Word_edge, digits 3,
     Alt (seqs [Grp 1 (one_of ''./''), digits 2, Back 1])
         (seqs [plus (one_of [CHR '' '', CHR 0x09]), digits 2, plus (one_of [CHR '' '', CHR 0x09])]),
     Grp 2 (digits 4), Word_edge]"

text \<open>A label with an optional number word and plural, and what may stand before its value.\<close>

definition labelled :: "rx \<Rightarrow> rx" where
  "labelled name = seqs [opt quote, name, opt (seqs [sep, alts [ilit ''no'', ilit ''num'', ilit ''number'']]), opt (ilit ''s''),
     opt quote, Star space, one_of '':='', Star space, opt (Seq quote (Star space))]"

definition group_sep :: rx where
  "group_sep = Star (Sat (\<lambda>c. c \<in> set ''-./'' \<or> re_space c))"

definition ssn_field :: rx where
  "ssn_field = seqs
     [Grp 1 (labelled (alts [ilit ''ssn'', seqs [ilit ''social'', sep, ilit ''security''], seqs [ilit ''tax'', sep, ilit ''id''], ilit ''tin''])),
      digits 3, group_sep, digits 2, group_sep, Grp 2 (digits 4), Word_edge]"

definition email :: rx where
  "email = seqs [Word_edge, plus (Sat (\<lambda>c. ascii_alpha c \<or> py_digit c \<or> c \<in> set ''._%+-'')), lit ''@'',
     Grp 1 (seqs [plus (Sat (\<lambda>c. ascii_alpha c \<or> py_digit c \<or> c \<in> set ''.-'')), lit ''.'',
                  Rep 2 0 (Sat ascii_alpha), Star (Sat ascii_alpha)]), Word_edge]"

definition phone_sep :: rx where
  "phone_sep = Sat (\<lambda>c. re_space c \<or> c \<in> set ''.-'')"

definition phone_field :: rx where
  "phone_field = seqs
     [Grp 1 (labelled (alts [ilit ''phone'', ilit ''telephone'', ilit ''tel'', ilit ''mobile'', ilit ''cell'', ilit ''fax''])),
      opt (lit ''+''), opt (lit ''1''), opt phone_sep, opt (lit ''(''), digits 3, opt (lit '')''), opt phone_sep,
      digits 3, opt phone_sep, Grp 2 (digits 4), Word_edge]"

definition free_phone :: rx where
  "free_phone = seqs
     [opt (seqs [lit ''+'', Rep 1 2 digit, phone_sep]),
      Alt (seqs [opt (lit ''(''), digits 3, phone_sep]) (seqs [opt (lit ''(''), digits 3, lit '')'', opt phone_sep]),
      digits 3, opt phone_sep, Grp 1 (digits 4), Word_edge]"

definition free_iban :: rx where
  "free_iban = seqs [Word_edge,
     Grp 1 (seqs [Rep 2 0 (Sat (\<lambda>c. 65 \<le> char_code c \<and> char_code c \<le> 90)), digits 2,
                  Rep 11 19 (Sat (\<lambda>c. ascii_alpha c \<or> py_digit c))]), Word_edge]"

section \<open>The passes\<close>

definition mask_quoted :: "(string \<Rightarrow> string) \<Rightarrow> string \<Rightarrow> captures \<Rightarrow> string" where
  "mask_quoted f w m = group m 1 @ group m 2 @ f (group m 3) @ group m 2"

definition mask_unquoted :: "(string \<Rightarrow> string) \<Rightarrow> string \<Rightarrow> captures \<Rightarrow> string" where
  "mask_unquoted f w m = group m 1 @ f (group m 2)"

definition ssn_mask :: string where
  "ssn_mask = dots 3 @ ''-'' @ dots 2 @ ''-''"

definition phone_mask :: string where
  "phone_mask = dots 3 @ ''-'' @ dots 3 @ ''-''"

definition mask_pans :: "string \<Rightarrow> string" where
  "mask_pans s =
     re_sub plain_token (\<lambda>w _. mask_pan_token w)
      (re_sub quoted_value (\<lambda>_ m. group m 1 @ mask_pan_in_value (group m 2) @ group m 1)
       (re_sub dotted_pan (\<lambda>w _. redact_if_pan w)
        (re_sub free_pan (\<lambda>w _. redact_if_pan w)
         (re_sub (unquoted_field (Seq Word_edge pan_key)) (mask_unquoted mask_pan_value)
          (re_sub (quoted_field (Seq Word_edge pan_key)) (mask_quoted mask_pan_value) s)))))"

definition mask_cvvs :: "string \<Rightarrow> string" where
  "mask_cvvs = re_sub cvv_field (\<lambda>_ m. group m 1 @ dots 4 @ group m 3)"

definition mask_dashed_ssns :: "string \<Rightarrow> string" where
  "mask_dashed_ssns = re_sub dashed_ssn (\<lambda>_ m. ssn_mask @ group m 1)"

definition mask_ssns :: "string \<Rightarrow> string" where
  "mask_ssns s =
     re_sub ssn_field (\<lambda>_ m. group m 1 @ ssn_mask @ group m 2)
      (re_sub spaced_ssn (\<lambda>_ m. ssn_mask @ group m 2) (mask_dashed_ssns s))"

definition mask_contacts :: "string \<Rightarrow> string" where
  "mask_contacts s =
     re_sub free_phone (\<lambda>_ m. phone_mask @ group m 1)
      (re_sub phone_field (\<lambda>_ m. group m 1 @ phone_mask @ group m 2)
       (re_sub email (\<lambda>_ m. dots 4 @ ''@'' @ group m 1) s))"

definition mask_banks :: "string \<Rightarrow> string" where
  "mask_banks s =
     re_sub free_iban (\<lambda>_ m. mask_with_last_4 (group m 1))
      (re_sub (unquoted_field bank_key) (mask_unquoted mask_bank_value)
       (re_sub (quoted_field bank_key) (mask_quoted mask_bank_value) s))"

definition redact :: "string \<Rightarrow> string" where
  "redact s =
     (if s = '''' then s
      else mask_banks (mask_contacts (mask_ssns (mask_cvvs (mask_pans
             (re_sub request_line mask_request_target_query s))))))"

end
