(* ===== verification/RedactorProps.thy ===== *)
theory RedactorProps
  imports Redactor
begin

text \<open>
  What the redactor's passes achieve: no dashed social security number survives its pass, and a card
  number split by separators inside one value is masked whole. The lemmas before the properties say
  what the patterns match, so that the proofs about \<^verbatim>\<open>re.sub\<close> are about texts and not about engines.
\<close>

section \<open>Which texts a pattern of fixed shape matches\<close>

lemma seqs_cons [simp]: "rx_match (seqs (r # rs)) s = then_all (rx_match (seqs rs)) (rx_match r s)"
  by simp

lemma then_all_nil [simp]: "then_all m [] = []"
  by (simp add: then_all_def)

lemma then_all_one [simp]: "then_all m [s] = m s"
  by (simp add: then_all_def)

lemma then_all_cons: "then_all m (s # ss) = m s @ then_all m ss"
  by (simp add: then_all_def)

lemma sat_nil [simp]: "rx_match (Sat p) (pre, [], caps) = []"
  by simp

lemma sat_cons [simp]: "rx_match (Sat p) (pre, c # cs, caps) = (if p c then [(c # pre, cs, caps)] else [])"
  by simp

declare rx_match.simps(2) [simp del]

lemma exact_class:
  "rep_exact n (rx_match (Sat p)) (pre, s, caps) =
     (if n \<le> length s \<and> list_all p (take n s) then [(rev (take n s) @ pre, drop n s, caps)] else [])"
proof (induction n arbitrary: pre s)
  case (Suc n)
  show ?case by (cases s) (auto simp: Suc)
qed simp

lemma digits_match [simp]:
  "rx_match (digits n) (pre, s, caps) =
     (if n \<le> length s \<and> list_all py_digit (take n s) then [(rev (take n s) @ pre, drop n s, caps)] else [])"
  by (simp add: digits_def digit_def exact_class)

lemma lit_match [simp]:
  "rx_match (lit [a]) (pre, s, caps) =
     (if 1 \<le> length s \<and> s ! 0 = a then [(a # pre, drop 1 s, caps)] else [])"
  by (cases s) auto

declare lit.simps [simp del]

lemma digit_is_word: "py_digit c \<Longrightarrow> re_word c"
  by (simp add: re_word_def is_alnum_def is_digit_def)

lemma dash_not_digit [simp]: "\<not> py_digit (CHR ''-'')" "\<not> re_word (CHR ''-'')"
  by (simp_all add: py_digit_def re_word_def is_alnum_def is_digit_def is_alpha_def ascii_alpha_def char_code_def)

section \<open>A dashed number does not survive\<close>

definition dashed_shape :: "string \<Rightarrow> bool" where
  "dashed_shape w \<longleftrightarrow> length w = 11 \<and>
     list_all py_digit (take 3 w) \<and> w ! 3 = CHR ''-'' \<and> list_all py_digit (take 2 (drop 4 w)) \<and>
     w ! 6 = CHR ''-'' \<and> list_all py_digit (drop 7 w)"

definition dashed_at :: "string \<Rightarrow> string \<Rightarrow> bool" where
  "dashed_at pre s \<longleftrightarrow> \<not> word_at pre \<and> dashed_shape (take 11 s) \<and> \<not> word_at (drop 11 s)"

lemma dashed_chars:
  assumes "dashed_shape w"
  obtains a b c d e p q r t where "w = [a, b, c, CHR ''-'', d, e, CHR ''-'', p, q, r, t]"
    "list_all py_digit [a, b, c, d, e, p, q, r, t]"
proof -
  obtain a b c x d e y p q r t where w: "w = [a, b, c, x, d, e, y, p, q, r, t]"
    using assms by (auto simp: dashed_shape_def length_Suc_conv eval_nat_numeral)
  show ?thesis using assms w that by (simp add: dashed_shape_def)
qed

lemma dashed_match:
  assumes "dashed_at pre s"
  shows "first_match dashed_ssn pre s = Some (take 11 s, [(1, take 4 (drop 7 s))])"
proof -
  obtain a b c d e p q r t where w: "take 11 s = [a, b, c, CHR ''-'', d, e, CHR ''-'', p, q, r, t]"
    "list_all py_digit [a, b, c, d, e, p, q, r, t]"
    using dashed_chars [of "take 11 s"] assms unfolding dashed_at_def by metis
  have s: "s = [a, b, c, CHR ''-'', d, e, CHR ''-'', p, q, r, t] @ drop 11 s"
    using w(1) append_take_drop_id by metis
  obtain r' where r': "s = [a, b, c, CHR ''-'', d, e, CHR ''-'', p, q, r, t] @ r'" "\<not> word_at r'"
    using s assms by (metis dashed_at_def)
  show ?thesis
    using w(2) r' assms by (simp add: first_match_def dashed_ssn_def dashed_at_def word_at_def digit_is_word)
qed

lemma word_at_digits: "0 < n \<Longrightarrow> n \<le> length s \<Longrightarrow> list_all py_digit (take n s) \<Longrightarrow> word_at s"
  by (cases s; cases n) (auto simp: word_at_def digit_is_word)

lemma word_at_rev_digits: "0 < length w \<Longrightarrow> list_all py_digit w \<Longrightarrow> word_at (rev w @ pre)"
  by (cases w rule: rev_cases) (auto simp: word_at_def digit_is_word)

lemma dashed_match_only:
  assumes "first_match dashed_ssn pre s \<noteq> None"
  shows "dashed_at pre s"
proof -
  have l: "3 \<le> length s" "list_all py_digit (take 3 s)" and e: "\<not> word_at pre"
    using assms word_at_digits [of 3 s] by (auto simp: first_match_def dashed_ssn_def split: if_splits)
  have "word_at s" using l word_at_digits [of 3 s] by simp
  then have "11 \<le> length s \<and> s ! 3 = CHR ''-'' \<and> list_all py_digit (take 2 (drop 4 s)) \<and> s ! 6 = CHR ''-'' \<and>
      list_all py_digit (take 4 (drop 7 s)) \<and> \<not> word_at (drop 11 s)"
    using assms l e word_at_rev_digits [of "take 4 (drop 7 s)"]
    by (auto simp: first_match_def dashed_ssn_def split: if_splits)
  then show ?thesis using l e by (auto simp: dashed_at_def dashed_shape_def drop_take)
qed

lemma sub_from_step:
  "first_match r pre s = Some (w, m) \<Longrightarrow> w \<noteq> [] \<Longrightarrow>
    sub_from r f pre s = f w m @ sub_from r f (rev w @ pre) (drop (length w) s)"
  by (cases s) (auto simp: first_match_def split: list.splits prod.splits)

lemma sub_from_skip:
  "first_match r pre (c # cs) = None \<Longrightarrow> sub_from r f pre (c # cs) = c # sub_from r f (c # pre) cs"
  by simp

text \<open>Where the output of a substitution shows no mask, it is the input.\<close>

lemma sub_from_unmasked:
  assumes masks: "\<And>w m. \<exists>u. f w m = mask_dot # u"
  shows "mask_dot \<notin> set (take n (sub_from r f pre s)) \<Longrightarrow>
    take n (sub_from r f pre s) = take n s \<and>
    drop n (sub_from r f pre s) = sub_from r f (rev (take n s) @ pre) (drop n s)"
proof (induction n arbitrary: pre s)
  case (Suc n)
  show ?case
  proof (cases s)
    case (Cons c cs)
    have keep: "sub_from r f pre s = c # sub_from r f (c # pre) cs"
    proof (cases "first_match r pre s")
      case (Some p)
      obtain w m where p: "p = (w, m)" by (cases p)
      obtain u where u: "f w m = mask_dot # u" using masks by blast
      have "w = []" using Suc.prems Cons Some p u by (cases "w = []") simp_all
      then show ?thesis using Cons Some p by simp
    qed (use Cons in simp)
    then show ?thesis using Suc Cons by simp
  qed simp
qed simp

primrec undashed :: "string \<Rightarrow> string \<Rightarrow> bool" where
  "undashed pre [] = True"
| "undashed pre (c # cs) = (\<not> dashed_at pre (c # cs) \<and> undashed (c # pre) cs)"

lemma all_from_zero: "(\<forall>i. Q i) \<longleftrightarrow> Q 0 \<and> (\<forall>i. Q (Suc i))" for Q :: "nat \<Rightarrow> bool"
  by (rule iffI, blast, rule allI, case_tac i) simp_all

lemma undashed_shifted:
  "undashed pre s \<longleftrightarrow> (\<forall>i. \<not> dashed_at (rev (take i s) @ pre) (drop i s))"
proof (induction s arbitrary: pre)
  case Nil
  show ?case by (simp add: dashed_at_def dashed_shape_def)
next
  case (Cons c cs)
  show ?case by (subst all_from_zero) (simp add: Cons)
qed

lemma dashed_has_no_mask: "dashed_shape w \<Longrightarrow> mask_dot \<notin> set w"
  by (elim dashed_chars) (auto simp: mask_dot_def py_digit_def char_code_def)

lemma dashed_ends_in_word: "dashed_shape (take 11 s) \<Longrightarrow> word_at (rev (take 11 s) @ pre)"
  by (elim dashed_chars) (auto simp: word_at_def digit_is_word)

definition ssn_with_mask :: "string \<Rightarrow> captures \<Rightarrow> string" where
  "ssn_with_mask w m = ssn_mask @ group m 1"

lemma ssn_with_mask_dots: "\<exists>u. ssn_with_mask w m = mask_dot # u"
  by (simp add: ssn_with_mask_def ssn_mask_def dots_def numeral_3_eq_3)

lemma dashed_output_is_input:
  assumes out: "out = sub_from dashed_ssn ssn_with_mask pre s" and d: "dashed_at pre' out"
    and w: "word_at pre' = word_at pre"
  shows "dashed_at pre s"
proof -
  have shape: "dashed_shape (take 11 out)" and edge: "\<not> word_at (drop 11 out)" "\<not> word_at pre"
    using d w by (simp_all add: dashed_at_def)
  have eq: "take 11 out = take 11 s"
      "drop 11 out = sub_from dashed_ssn ssn_with_mask (rev (take 11 s) @ pre) (drop 11 s)"
    using sub_from_unmasked [OF ssn_with_mask_dots, where n = 11 and r = dashed_ssn and pre = pre and s = s] dashed_has_no_mask [OF shape] out by auto
  have "first_match dashed_ssn (rev (take 11 s) @ pre) (drop 11 s) = None"
    using dashed_match_only dashed_ends_in_word shape eq(1) by (metis dashed_at_def)
  then have "\<not> word_at (drop 11 s)"
    using edge(1) eq(2) by (cases "drop 11 s") (simp_all add: word_at_def)
  then show ?thesis using shape edge eq by (simp add: dashed_at_def)
qed

lemma mask_not_digit [simp]: "\<not> py_digit mask_dot"
  by (simp add: mask_dot_def py_digit_def char_code_def)

lemma no_dashed [simp]:
  "\<not> py_digit c \<Longrightarrow> \<not> dashed_at pre (c # s)"
  "py_digit p \<Longrightarrow> \<not> dashed_at (p # pre) s"
  "py_digit t \<Longrightarrow> \<not> dashed_at pre (p # q # r # t # s)"
  by (simp_all add: dashed_at_def dashed_shape_def word_at_def digit_is_word) (metis dash_not_digit(1))

lemma undashed_context: "word_at pre = word_at pre' \<Longrightarrow> undashed pre s = undashed pre' s"
proof (induction s arbitrary: pre pre')
  case (Cons c cs)
  have "word_at (c # pre) = word_at (c # pre')" by (simp add: word_at_def)
  then have "undashed (c # pre) cs = undashed (c # pre') cs" by (rule Cons.IH)
  then show ?case using Cons.prems by (simp add: dashed_at_def)
qed simp

lemma ssn_mask_eq:
  "ssn_mask = [mask_dot, mask_dot, mask_dot, CHR ''-'', mask_dot, mask_dot, CHR ''-'']"
  by (simp add: ssn_mask_def dots_def numeral_eq_Suc)

lemma undashed_mask:
  assumes "list_all py_digit [p, q, r, t]" and "undashed (t # rest) s"
  shows "undashed pre (ssn_mask @ [p, q, r, t] @ s)"
proof -
  have "undashed (t # x) s" for x
    using assms(2) undashed_context [of "t # rest" "t # x"] by (simp add: word_at_def)
  then show ?thesis using assms(1) by (simp add: ssn_mask_eq)
qed

lemma dashed_step:
  assumes "dashed_at pre s"
  obtains p q r t where "list_all py_digit [p, q, r, t]"
    "sub_from dashed_ssn ssn_with_mask pre s =
       ssn_mask @ [p, q, r, t] @ sub_from dashed_ssn ssn_with_mask (rev (take 11 s) @ pre) (drop 11 s)"
    "\<exists>rest. rev (take 11 s) @ pre = t # rest" "11 \<le> length s"
proof -
  obtain a b c d e p q r t where w: "take 11 s = [a, b, c, CHR ''-'', d, e, CHR ''-'', p, q, r, t]"
    "list_all py_digit [a, b, c, d, e, p, q, r, t]"
    using dashed_chars [of "take 11 s"] assms unfolding dashed_at_def by metis
  have s: "s = [a, b, c, CHR ''-'', d, e, CHR ''-'', p, q, r, t] @ drop 11 s"
    using w(1) append_take_drop_id by metis
  have tail: "take 4 (drop 7 s) = [p, q, r, t]" by (subst s) simp
  have n: "11 \<le> length s" by (subst s) simp
  have "sub_from dashed_ssn ssn_with_mask pre s =
      ssn_with_mask (take 11 s) [(1, take 4 (drop 7 s))] @
      sub_from dashed_ssn ssn_with_mask (rev (take 11 s) @ pre) (drop (length (take 11 s)) s)"
    by (rule sub_from_step [OF dashed_match [OF assms]]) (simp add: w)
  then have eq: "sub_from dashed_ssn ssn_with_mask pre s =
       ssn_mask @ [p, q, r, t] @ sub_from dashed_ssn ssn_with_mask (rev (take 11 s) @ pre) (drop 11 s)"
    using n by (simp add: tail ssn_with_mask_def group_def)
  show ?thesis by (rule that [OF _ eq]) (use w n in simp_all)
qed

lemma undashed_output:
  "word_at pre' = word_at pre \<Longrightarrow> undashed pre' (sub_from dashed_ssn ssn_with_mask pre s)"
proof (induction s arbitrary: pre pre' rule: length_induct)
  case (1 s)
  show ?case
  proof (cases "dashed_at pre s")
    case True
    then obtain p q r t where m: "list_all py_digit [p, q, r, t]"
      "sub_from dashed_ssn ssn_with_mask pre s =
         ssn_mask @ [p, q, r, t] @ sub_from dashed_ssn ssn_with_mask (rev (take 11 s) @ pre) (drop 11 s)"
      "\<exists>rest. rev (take 11 s) @ pre = t # rest" "11 \<le> length s"
      by (rule dashed_step)
    then have "undashed (rev (take 11 s) @ pre)
        (sub_from dashed_ssn ssn_with_mask (rev (take 11 s) @ pre) (drop 11 s))"
      using 1(1) by simp
    then show ?thesis using m undashed_mask by metis
  next
    case False
    have out: "\<not> dashed_at pre' (sub_from dashed_ssn ssn_with_mask pre s)"
      using dashed_output_is_input 1(2) False by blast
    show ?thesis
    proof (cases s)
      case (Cons c cs)
      have "first_match dashed_ssn pre s = None" using dashed_match_only False by blast
      then have "sub_from dashed_ssn ssn_with_mask pre s = c # sub_from dashed_ssn ssn_with_mask (c # pre) cs"
        using Cons by simp
      moreover have "undashed (c # pre') (sub_from dashed_ssn ssn_with_mask (c # pre) cs)"
        using 1(1) Cons by (simp add: word_at_def)
      ultimately show ?thesis using out by simp
    qed simp
  qed
qed

lemma undashed_has_none: "undashed [] s \<Longrightarrow> \<not> re_search dashed_ssn s"
  using dashed_match_only unfolding re_search_def list_ex_iff undashed_shifted by (metis append_Nil2)

lemma mask_dashed_ssns_eq: "mask_dashed_ssns s = sub_from dashed_ssn ssn_with_mask [] s"
  by (simp add: mask_dashed_ssns_def re_sub_def ssn_with_mask_def [abs_def])

text \<open>
  After the pass for dashed social security numbers, no substring of the text that the code's
  pattern recognises as a dashed number is left: the pass does not stop early, the mask it writes does
  not combine with the text around it into a new number, and two numbers in a row are both masked.
\<close>

theorem no_dashed_ssn_is_left: "\<not> re_search dashed_ssn (mask_dashed_ssns s)"
  using undashed_has_none undashed_output mask_dashed_ssns_eq by simp

section \<open>A card number inside one value\<close>

text \<open>Digits, each after a gap: the way a card number hides in a value.\<close>

definition gapped :: "(string \<times> char) list \<Rightarrow> string" where
  "gapped gs = concat (map (\<lambda>(gap, d). gap @ [d]) gs)"

definition gap_ok :: "string \<times> char \<Rightarrow> bool" where
  "gap_ok g \<longleftrightarrow> list_all (\<lambda>c. \<not> py_digit c) (fst g) \<and> length (fst g) \<le> max_separator_run \<and> py_digit (snd g)"

lemma gapped_simps [simp]:
  "gapped [] = []"
  "gapped (g # gs) = fst g @ snd g # gapped gs"
  by (auto simp: gapped_def split: prod.splits)

definition separators :: "nat \<Rightarrow> rx_state \<Rightarrow> rx_state list" where
  "separators k = rep_upto k (rx_match (Sat (\<lambda>c. \<not> py_digit c)))"

definition next_digit :: "rx_state \<Rightarrow> rx_state list" where
  "next_digit s = then_all (rx_match digit) (separators max_separator_run s)"

lemma then_all_append: "then_all m (xs @ ys) = then_all m xs @ then_all m ys"
  by (simp add: then_all_def)

lemma digit_match [simp]:
  "rx_match digit (pre, c # cs, caps) = (if py_digit c then [(c # pre, cs, caps)] else [])"
  "rx_match digit (pre, [], caps) = []"
  by (simp_all add: digit_def)

lemma separators_simps [simp]:
  "separators 0 s = [s]"
  "separators (Suc k) (pre, [], caps) = [(pre, [], caps)]"
  "separators (Suc k) (pre, c # cs, caps) =
     (if py_digit c then [(pre, c # cs, caps)] else separators k (c # pre, cs, caps) @ [(pre, c # cs, caps)])"
  by (simp_all add: separators_def progress_def)

lemma gap_then_digit:
  "list_all (\<lambda>c. \<not> py_digit c) gap \<Longrightarrow> length gap \<le> k \<Longrightarrow> py_digit d \<Longrightarrow>
    then_all (rx_match digit) (separators k (pre, gap @ d # rest, caps)) = [(d # rev gap @ pre, rest, caps)]"
proof (induction gap arbitrary: k pre)
  case Nil
  then show ?case by (cases k) simp_all
next
  case (Cons g gap)
  then show ?case by (cases k) (simp_all add: then_all_append)
qed

lemma gap_without_digit:
  "list_all (\<lambda>c. \<not> py_digit c) s \<Longrightarrow> then_all (rx_match digit) (separators k (pre, s, caps)) = []"
proof (induction s arbitrary: k pre)
  case Nil
  then show ?case by (cases k) simp_all
next
  case (Cons c s)
  then show ?case by (cases k) (simp_all add: then_all_append)
qed

lemma next_digit_gap: "gap_ok g \<Longrightarrow>
    next_digit (pre, fst g @ snd g # rest, caps) = [(snd g # rev (fst g) @ pre, rest, caps)]"
  by (simp add: next_digit_def gap_ok_def gap_then_digit)

lemma next_digit_none: "list_all (\<lambda>c. \<not> py_digit c) s \<Longrightarrow> next_digit (pre, s, caps) = []"
  by (simp add: next_digit_def gap_without_digit)

lemma exact_digits:
  "list_all gap_ok gs \<Longrightarrow>
    rep_exact (length gs) next_digit (pre, gapped gs @ rest, caps) = [(rev (gapped gs) @ pre, rest, caps)]"
  by (induction gs arbitrary: pre) (simp_all add: next_digit_gap)

lemma upto_digits:
  assumes "list_all (\<lambda>c. \<not> py_digit c) post"
  shows "list_all gap_ok gs \<Longrightarrow> length gs \<le> k \<Longrightarrow>
    \<exists>more. rep_upto k next_digit (pre, gapped gs @ post, caps) = (rev (gapped gs) @ pre, post, caps) # more"
proof (induction gs arbitrary: k pre)
  case Nil
  then show ?case by (cases k) (simp_all add: next_digit_none assms)
next
  case (Cons g gs)
  obtain j where k: "k = Suc j" using Cons.prems by (cases k) auto
  obtain more where
    "rep_upto j next_digit (snd g # rev (fst g) @ pre, gapped gs @ post, caps) =
       (rev (gapped gs) @ snd g # rev (fst g) @ pre, post, caps) # more"
    using Cons k by fastforce
  then show ?case using Cons.prems k by (simp add: next_digit_gap progress_def)
qed

lemma pan_in_value_match:
  "rx_match pan_in_value (pre, d # s, caps) =
     (if py_digit d then then_all (rep_upto 6 next_digit) (rep_exact 12 next_digit (d # pre, s, caps)) else [])"
proof -
  have "rx_match (Seq (Rep 0 max_separator_run (Sat (\<lambda>c. \<not> py_digit c))) digit) = next_digit"
    by (rule ext) (simp add: next_digit_def separators_def)
  then show ?thesis by (simp add: pan_in_value_def)
qed

lemma card_match:
  assumes "py_digit d" "list_all gap_ok gs" "12 \<le> length gs" "length gs \<le> 18"
    "list_all (\<lambda>c. \<not> py_digit c) post"
  shows "first_match pan_in_value pre ((d # gapped gs) @ post) = Some (d # gapped gs, [])"
proof -
  define a b where "a = take 12 gs" and "b = drop 12 gs"
  have gs: "gapped gs = gapped a @ gapped b"
    unfolding a_def b_def gapped_def by (metis append_take_drop_id concat_append map_append)
  have ab: "list_all gap_ok a" "list_all gap_ok b" "length a = 12" "length b \<le> 6"
    using assms by (auto simp: a_def b_def list_all_iff dest: in_set_takeD in_set_dropD)
  have "rep_exact 12 next_digit (d # pre, gapped a @ gapped b @ post, []) =
      [(rev (gapped a) @ d # pre, gapped b @ post, [])]"
    using exact_digits [OF ab(1)] ab(3) by metis
  moreover obtain more where
    "rep_upto 6 next_digit (rev (gapped a) @ d # pre, gapped b @ post, []) =
       (rev (gapped b) @ rev (gapped a) @ d # pre, post, []) # more"
    using upto_digits [OF assms(5) ab(2) ab(4)] by blast
  ultimately show ?thesis
    using assms(1) by (simp add: first_match_def pan_in_value_match gs)
qed

lemma no_card_without_digit: "\<not> py_digit c \<Longrightarrow> first_match pan_in_value pre (c # cs) = None"
  by (simp add: first_match_def pan_in_value_match)

lemma sub_from_no_digits:
  "list_all (\<lambda>c. \<not> py_digit c) s \<Longrightarrow> sub_from pan_in_value f pre (s @ t) = s @ sub_from pan_in_value f (rev s @ pre) t"
  by (induction s arbitrary: pre) (simp_all add: no_card_without_digit)

lemma sub_from_no_digits_at_all:
  "list_all (\<lambda>c. \<not> py_digit c) s \<Longrightarrow> sub_from pan_in_value f pre s = s"
  using sub_from_no_digits [where s = s and t = "[]"] by simp

lemma only_digits_gapped: "list_all gap_ok gs \<Longrightarrow> only_digits (gapped gs) = map snd gs"
proof (induction gs)
  case (Cons g gs)
  have "filter py_digit (fst g) = []" using Cons by (simp add: gap_ok_def filter_empty_conv list_all_iff)
  then show ?case using Cons by (simp add: only_digits_def gap_ok_def)
qed (simp add: only_digits_def)

lemma only_digits_simps [simp]:
  "only_digits [] = []"
  "only_digits (c # s) = (if py_digit c then c # only_digits s else only_digits s)"
  "only_digits (s @ t) = only_digits s @ only_digits t"
  by (simp_all add: only_digits_def)

lemma enough_digits: "length (only_digits s) \<le> length (filter is_digit s)"
  by (induction s) (auto simp: only_digits_def is_digit_def)

text \<open>C33. 
  A card number hidden in one value is masked whatever separates its digits: if the value holds 13
  to 19 digits that pass the Luhn check, each at most eight other characters after the one before, and no
  further digit, then the digits and everything between them are replaced by the mask with the last four
  digits, and the text before and after them stays.
\<close>

theorem card_in_a_value_is_masked:
  assumes "py_digit d" "list_all gap_ok gs" "12 \<le> length gs" "length gs \<le> 18"
    and "list_all (\<lambda>c. \<not> py_digit c) before" "list_all (\<lambda>c. \<not> py_digit c) after"
    and "luhn_valid (d # map snd gs)"
  shows "mask_pan_in_value (before @ d # gapped gs @ after) =
    before @ dots (length gs - 3) @ drop (length gs - 4) (map snd gs) @ '' (PAN)'' @ after"
proof -
  let ?v = "before @ d # gapped gs @ after"
  have ds: "only_digits (d # gapped gs) = d # map snd gs" using assms by (simp add: only_digits_gapped)
  have "13 \<le> length (only_digits ?v)" using assms by (simp add: only_digits_gapped)
  then have long: "\<not> length (filter is_digit ?v) < 13" using enough_digits [of ?v] by linarith
  have "drop (length gs - 3) (d # map snd gs) = drop (length gs - 4) (map snd gs)"
    using assms(3) by (subst drop_Cons') simp
  then have mask: "redact_if_pan (d # gapped gs) =
      dots (length gs - 3) @ drop (length gs - 4) (map snd gs) @ '' (PAN)''"
    using assms unfolding redact_if_pan_def ds Let_def by (simp add: mask_with_last_4_def)
  have "mask_pan_in_value ?v = before @ sub_from pan_in_value (\<lambda>w _. redact_if_pan w) (rev before) (d # gapped gs @ after)"
    using long assms(5) by (simp add: mask_pan_in_value_def re_sub_def sub_from_no_digits)
  also have "sub_from pan_in_value (\<lambda>w _. redact_if_pan w) (rev before) (d # gapped gs @ after) =
      redact_if_pan (d # gapped gs) @ after"
    using sub_from_step [OF card_match [OF assms(1-4) assms(6)]] assms(6)
    by (simp add: sub_from_no_digits_at_all)
  finally show ?thesis using mask by simp
qed

lemma card_in_a_value_is_masked_witness:
  "mask_pan_in_value ''call 4111 and 1111 or 1111 xx 1111 now'' =
     ''call '' @ dots 12 @ ''1111'' @ '' (PAN)'' @ '' now''"
proof -
  let ?g = "([]::string)"
  let ?gs = "[(?g, CHR ''1''), (?g, CHR ''1''), (?g, CHR ''1''), ('' and '', CHR ''1''), (?g, CHR ''1''), (?g, CHR ''1''),
    (?g, CHR ''1''), ('' or '', CHR ''1''), (?g, CHR ''1''), (?g, CHR ''1''), (?g, CHR ''1''),
    ('' xx '', CHR ''1''), (?g, CHR ''1''), (?g, CHR ''1''), (?g, CHR ''1'')]"
  have "py_digit (CHR ''4'')" "list_all gap_ok ?gs" "luhn_valid (CHR ''4'' # map snd ?gs)"
    "list_all (\<lambda>c. \<not> py_digit c) ''call ''" "list_all (\<lambda>c. \<not> py_digit c) '' now''" by code_simp+
  then show ?thesis using card_in_a_value_is_masked [of "CHR ''4''" ?gs "''call ''" "'' now''"] by (simp add: numeral_eq_Suc)
qed

end
