(* ===== verification/RequestRedaction.thy ===== *)
theory RequestRedaction
  imports Redactor Json JsonValues
begin

text \<open>
  \<^verbatim>\<open>app/llm/request_builder.py\<close>, first half: the structural redaction of a JSON document before it leaves
  for the model provider. A document is a decoded value; \<open>show_float\<close> is Python's \<^verbatim>\<open>repr\<close> of a float. Field
  names are compared after \<^verbatim>\<open>lower()\<close> with ASCII words only, so the lower case of ASCII letters suffices.
\<close>

section \<open>Text helpers\<close>

text \<open>\<^verbatim>\<open>str.strip()\<close> and \<^verbatim>\<open>in\<close>, \<^verbatim>\<open>startswith\<close>, \<^verbatim>\<open>endswith\<close>.\<close>

definition strip_space :: "string \<Rightarrow> string" where
  "strip_space s = rev (dropWhile re_space (rev (dropWhile re_space s)))"

definition starts_with :: "string \<Rightarrow> string \<Rightarrow> bool" where
  "starts_with s p \<longleftrightarrow> take (length p) s = p"

definition ends_with :: "string \<Rightarrow> string \<Rightarrow> bool" where
  "ends_with s p \<longleftrightarrow> starts_with (rev s) (rev p)"

definition contains :: "string \<Rightarrow> string \<Rightarrow> bool" where
  "contains s p \<longleftrightarrow> list_ex (\<lambda>i. starts_with (drop i s) p) [0..<Suc (length s)]"

section \<open>Serialization\<close>

text \<open>\<^verbatim>\<open>json.dumps\<close> of a scalar: the mask glyph is not ASCII, its escape is the one of U+2022.\<close>

definition escaped_char :: "char \<Rightarrow> string" where
  "escaped_char c = (if c = mask_dot then CHR 0x5C # ''u2022'' else json_char c)"

definition escaped_string :: "string \<Rightarrow> string" where
  "escaped_string s = CHR 0x22 # concat (map escaped_char s) @ [CHR 0x22]"

text \<open>With \<^verbatim>\<open>ensure_ascii=False\<close> only the quote, the backslash and control characters are escaped.\<close>

definition plain_char :: "char \<Rightarrow> string" where
  "plain_char c = (if 127 \<le> char_code c then [c] else json_char c)"

definition plain_string :: "string \<Rightarrow> string" where
  "plain_string s = CHR 0x22 # concat (map plain_char s) @ [CHR 0x22]"

definition comma_sep :: "string list \<Rightarrow> string" where
  "comma_sep xs = (case xs of [] \<Rightarrow> [] | x # ys \<Rightarrow> x @ concat (map (\<lambda>y. '', '' @ y) ys))"

fun dumps_with :: "(string \<Rightarrow> string) \<Rightarrow> (rat \<Rightarrow> string) \<Rightarrow> jv \<Rightarrow> string" where
  "dumps_with str_text show_float VNull = ''null''"
| "dumps_with str_text show_float (VBool b) = (if b then ''true'' else ''false'')"
| "dumps_with str_text show_float (VInt i) = show_int i"
| "dumps_with str_text show_float (VFloat x) = show_float x"
| "dumps_with str_text show_float (VStr s) = str_text s"
| "dumps_with str_text show_float (VList vs) = CHR ''['' # comma_sep (map (dumps_with str_text show_float) vs) @ '']''"
| "dumps_with str_text show_float (VObj fs) =
     CHR ''{'' # comma_sep (map (\<lambda>(k, v). str_text k @ '': '' @ dumps_with str_text show_float v) fs) @ ''}''"

definition json_dumps :: "(rat \<Rightarrow> string) \<Rightarrow> jv \<Rightarrow> string" where
  "json_dumps = dumps_with escaped_string"

definition json_dumps_plain :: "(rat \<Rightarrow> string) \<Rightarrow> jv \<Rightarrow> string" where
  "json_dumps_plain = dumps_with plain_string"

section \<open>Masks and vocabularies\<close>

definition identity_mask :: string where
  "identity_mask = dots 4 @ '' (redacted)''"

definition freetext_mask :: string where
  "freetext_mask = dots 4 @ '' (free text redacted)''"

definition key_mask :: string where
  "key_mask = dots 4 @ '' (key redacted)''"

definition safe_categorical :: "(string \<times> string list) list" where
  "safe_categorical =
    [(''purpose'', [''auto'', ''debt_consolidation'', ''home_improvement'', ''personal'', ''working_capital'']),
     (''action'', [''tool'', ''final'']),
     (''tool'', [''score_application'', ''get_decision_record'', ''search_policy'']),
     (''task'', [''decision'', ''explain'']),
     (''policy_topic'', [''fee_schedule'', ''apr_finance_charge'', ''interest_rate'', ''eligibility_rules'',
        ''credit_decisioning'', ''adverse_action'', ''debt_to_income'', ''records_retention'']),
     (''outcome'', [''approve'', ''refer'', ''deny'', ''counteroffer'']),
     (''policy_band'', [''approve'', ''refer'', ''deny'']),
     (''status'', [''recorded'', ''no_record_legacy'', ''not_found'', ''policy_hit'', ''policy_abstain'']),
     (''reason_codes'', [''r01'', ''r02'', ''r03'', ''r04''])]"

definition safe_code :: "string \<Rightarrow> string \<Rightarrow> bool" where
  "safe_code key s \<longleftrightarrow>
     (case map_of safe_categorical (lower (strip_space key)) of
        None \<Rightarrow> False | Some codes \<Rightarrow> lower (strip_space s) \<in> set codes)"

section \<open>Field names\<close>

definition squeezed :: "string \<Rightarrow> string" where
  "squeezed key = filter (\<lambda>c. c \<notin> set ''_- '') (lower (strip_space key))"

definition is_identity_key :: "string \<Rightarrow> bool" where
  "is_identity_key key \<longleftrightarrow>
     (let kn = squeezed key in
        kn = ''name'' \<or> ends_with kn ''name'' \<or> kn = ''surname'' \<or>
        kn \<in> {''firstname'', ''lastname'', ''middlename'', ''fullname'', ''maidenname''} \<or>
        kn = ''dob'' \<or> contains kn ''birth'' \<or>
        contains kn ''address'' \<or> list_ex (starts_with kn) [''street'', ''zip'', ''postal'', ''postcode''] \<or> kn = ''city'' \<or>
        kn = ''ein'' \<or> ends_with kn ''ein'' \<or> starts_with kn ''employer'' \<or> kn = ''company'' \<or>
        contains kn ''jobtitle'' \<or> kn = ''title'')"

definition is_numeric_identity_key :: "string \<Rightarrow> bool" where
  "is_numeric_identity_key key \<longleftrightarrow>
     (let kn = squeezed key in
        list_ex (contains kn) [''socialsecurity'', ''taxpayer'', ''taxid'', ''itin'', ''nationalid''] \<or>
        kn = ''ssn'' \<or> starts_with kn ''ssn'' \<or> ends_with kn ''ssn'' \<or>
        kn = ''tin'' \<or> starts_with kn ''tin'' \<or> kn \<in> {''sin'', ''sinnumber''})"

fun looks_like_numeric_identity :: "jv \<Rightarrow> bool" where
  "looks_like_numeric_identity (VInt i) =
     (let ds = show_nat (nat \<bar>i\<bar>); n = length ds in
        if n = 9 then True
        else if n = 8 then
          (let year = digits_val (take 4 ds); month = digits_val (take 2 (drop 4 ds)); day = digits_val (drop 6 ds)
           in 1900 \<le> year \<and> year \<le> 2099 \<and> 1 \<le> month \<and> month \<le> 12 \<and> 1 \<le> day \<and> day \<le> 31)
        else if n = 10 then ds ! 0 \<in> set ''23456789'' \<and> ds ! 3 \<in> set ''23456789''
        else False)"
| "looks_like_numeric_identity v = False"

definition is_field_name :: "string \<Rightarrow> bool" where
  "is_field_name s \<longleftrightarrow>
     (case s of [] \<Rightarrow> False
      | c # cs \<Rightarrow> (is_alpha c \<or> c = CHR ''_'') \<and> list_all (\<lambda>x. is_alnum x \<or> x \<in> set ''_-'') s)"

definition redact_key :: "string \<Rightarrow> string" where
  "redact_key key = (if is_field_name (redact key) then redact key else key_mask)"

section \<open>Scalars\<close>

definition strip_fragment_digits :: "string \<Rightarrow> string" where
  "strip_fragment_digits s = map (\<lambda>c. if is_digit c then mask_dot else c) s"

definition unquoted :: "string \<Rightarrow> string" where
  "unquoted s = (if 2 \<le> length s \<and> hd s = CHR 0x22 \<and> last s = CHR 0x22 then butlast (tl s) else s)"

text \<open>What the pattern pass makes of a single token under its label; \<open>None\<close> when it finds nothing.\<close>

definition labelled_pass :: "(rat \<Rightarrow> string) \<Rightarrow> string \<Rightarrow> jv \<Rightarrow> string option" where
  "labelled_pass show_float key v =
     (let prefix = CHR 0x22 # key @ CHR 0x22 # '': ''; probe = prefix @ json_dumps show_float v; redacted = redact probe in
        if redacted = probe then None
        else if \<not> starts_with redacted prefix
        then Some (redact (case v of VStr s \<Rightarrow> s | _ \<Rightarrow> json_dumps show_float v))
        else Some (unquoted (drop (length prefix) redacted)))"

definition redact_token :: "(rat \<Rightarrow> string) \<Rightarrow> string \<Rightarrow> jv \<Rightarrow> jv" where
  "redact_token show_float key v =
     (case labelled_pass show_float key v of
        Some masked \<Rightarrow> VStr (strip_fragment_digits masked)
      | None \<Rightarrow>
          (case v of
             VStr s \<Rightarrow> if s \<noteq> [] then VStr freetext_mask else v
           | _ \<Rightarrow> if is_numeric_identity_key key \<or> looks_like_numeric_identity v then VStr identity_mask else v))"

fun redact_scalar :: "(rat \<Rightarrow> string) \<Rightarrow> string \<Rightarrow> jv \<Rightarrow> jv" where
  "redact_scalar show_float key (VStr s) =
     (if safe_code key s then VStr s
      else if list_ex re_space s then VStr freetext_mask
      else redact_token show_float key (VStr s))"
| "redact_scalar show_float key (VInt i) = redact_token show_float key (VInt i)"
| "redact_scalar show_float key (VFloat x) = redact_token show_float key (VFloat x)"
| "redact_scalar show_float key v = v"

section \<open>Documents\<close>

text \<open>A key that is already taken gets the first free number from 2 on.\<close>

definition numbered_key :: "string \<Rightarrow> nat \<Rightarrow> string" where
  "numbered_key k n = k @ '' ('' @ show_nat n @ '')''"

definition free_key :: "string list \<Rightarrow> string \<Rightarrow> string" where
  "free_key taken k =
     (if k \<in> set taken
      then (case find (\<lambda>n. numbered_key k n \<notin> set taken) [2..<length taken + 3] of
              Some n \<Rightarrow> numbered_key k n | None \<Rightarrow> k)
      else k)"

function (sequential) redact_node :: "(rat \<Rightarrow> string) \<Rightarrow> string \<Rightarrow> jv \<Rightarrow> jv"
  and redact_list :: "(rat \<Rightarrow> string) \<Rightarrow> string \<Rightarrow> jv list \<Rightarrow> jv list"
  and redact_fields :: "(rat \<Rightarrow> string) \<Rightarrow> (string \<times> jv) list \<Rightarrow> (string \<times> jv) list \<Rightarrow> (string \<times> jv) list" where
  "redact_node sf key (VObj fs) = VObj (redact_fields sf [] fs)"
| "redact_node sf key (VList vs) = VList (redact_list sf key vs)"
| "redact_node sf key v = redact_scalar sf key v"
| "redact_list sf key [] = []"
| "redact_list sf key (v # vs) = redact_node sf key v # redact_list sf key vs"
| "redact_fields sf out [] = out"
| "redact_fields sf out ((k, v) # fs) =
     redact_fields sf
       (out @ [(free_key (map fst out) (redact_key k),
                if is_identity_key k then VStr identity_mask else redact_node sf k v)]) fs"
  by pat_completeness auto
termination
  by (relation "measure (\<lambda>x. case x of
        Inl (sf, key, v) \<Rightarrow> size v
      | Inr (Inl (sf, key, vs)) \<Rightarrow> size_list size vs
      | Inr (Inr (sf, out, fs)) \<Rightarrow> size_list (size_prod (\<lambda>_. 0) size) fs)") auto

definition redact_json :: "(rat \<Rightarrow> string) \<Rightarrow> (string \<Rightarrow> jv option) \<Rightarrow> string \<Rightarrow> string" where
  "redact_json show_float loads s =
     (case loads s of None \<Rightarrow> redact s | Some v \<Rightarrow> json_dumps_plain show_float (redact_node show_float [] v))"

end
