(* ===== verification/RequestBuilder.thy ===== *)
theory RequestBuilder
  imports RequestRedaction "HOL-Library.AList"
begin

text \<open>
  \<^verbatim>\<open>app/llm/request_builder.py\<close>, second half, with \<^verbatim>\<open>app/prompts/__init__.py\<close> and \<^verbatim>\<open>app/llm/errors.py\<close>: history
  turns, tool blocks and tool schemas are validated and redacted, the prompt is rendered, and the request
  is fitted into the token budget. Arguments of the model: \<open>loads\<close> is \<^verbatim>\<open>json.loads\<close> (\<open>None\<close> where it raises),
  \<open>show_float\<close> the \<^verbatim>\<open>repr\<close> of a float and \<open>show_value\<close> the \<^verbatim>\<open>str\<close> of a value that is not a string.
\<close>

section \<open>Errors\<close>

text \<open>The exceptions a completion can raise; a message is kept as a short name of its raise statement.\<close>

datatype llm_error =
  Llm_error string | Token_budget_exceeded | Llm_timeout | Llm_http_error int bool | Validation_failed string
  | Key_error string

section \<open>Parsed documents\<close>

definition json_object :: "(string \<Rightarrow> jv option) \<Rightarrow> string \<Rightarrow> bool" where
  "json_object loads s \<longleftrightarrow> (case loads s of Some (VObj fs) \<Rightarrow> True | _ \<Rightarrow> False)"

definition redact_json_var ::
  "(rat \<Rightarrow> string) \<Rightarrow> (string \<Rightarrow> jv option) \<Rightarrow> string \<Rightarrow> string \<Rightarrow> llm_error + string" where
  "redact_json_var show_float loads name s =
     (if \<not> json_object loads s then Inl (Llm_error ''not a JSON object'') else Inr (redact_json show_float loads s))"

section \<open>History turns\<close>

datatype content = Text string | Blocks "jv list"

record message =
  msg_role :: string
  msg_content :: content

definition turn_role :: "jv \<Rightarrow> llm_error + string" where
  "turn_role turn =
     (case jfield turn ''role'' of
        None \<Rightarrow> Inr ''user''
      | Some (VStr r) \<Rightarrow> if r = ''user'' \<or> r = ''assistant'' then Inr r else Inl (Llm_error ''role'')
      | Some _ \<Rightarrow> Inl (Llm_error ''role''))"

text \<open>The id and name patterns end in \<^verbatim>\<open>$\<close>, which also matches before a final newline.\<close>

definition id_pattern :: "nat \<Rightarrow> rx" where
  "id_pattern n = seqs [Rep 1 (n - 1) (Sat (\<lambda>c. ascii_alpha c \<or> py_digit c \<or> c \<in> set ''_-'')), At_end]"

definition is_tool_use_id :: "jv option \<Rightarrow> bool" where
  "is_tool_use_id v \<longleftrightarrow> (case v of Some (VStr s) \<Rightarrow> first_match (id_pattern 128) [] s \<noteq> None | _ \<Rightarrow> False)"

definition is_tool_name :: "jv option \<Rightarrow> bool" where
  "is_tool_name v \<longleftrightarrow> (case v of Some (VStr s) \<Rightarrow> first_match (id_pattern 64) [] s \<noteq> None | _ \<Rightarrow> False)"

definition block_type_by_role :: "string \<Rightarrow> string" where
  "block_type_by_role role = (if role = ''assistant'' then ''tool_use'' else ''tool_result'')"

definition block_keys :: "string \<Rightarrow> string list" where
  "block_keys t =
     (if t = ''tool_use'' then [''type'', ''id'', ''name'', ''input'']
      else [''type'', ''tool_use_id'', ''content'', ''is_error''])"

definition get_or :: "jv \<Rightarrow> string \<Rightarrow> jv \<Rightarrow> jv" where
  "get_or v k d = (case jfield v k of None \<Rightarrow> d | Some x \<Rightarrow> x)"

definition redacted_tool_use :: "(rat \<Rightarrow> string) \<Rightarrow> jv \<Rightarrow> llm_error + jv" where
  "redacted_tool_use show_float block =
     (if \<not> is_tool_use_id (jfield block ''id'') then Inl (Llm_error ''tool_use id'')
      else if \<not> is_tool_name (jfield block ''name'') then Inl (Llm_error ''tool_use name'')
      else if \<not> is_object (get_or block ''input'' (VObj [])) then Inl (Llm_error ''tool_use input'')
      else Inr (VObj [(''type'', VStr ''tool_use''), (''id'', the (jfield block ''id'')),
                      (''name'', the (jfield block ''name'')),
                      (''input'', redact_node show_float [] (get_or block ''input'' (VObj [])))]))"

definition result_content :: "(string \<Rightarrow> jv option) \<Rightarrow> jv option \<Rightarrow> llm_error + jv" where
  "result_content loads v =
     (case v of
        Some (VStr s) \<Rightarrow>
          if json_object loads s then Inr (the (loads s)) else Inl (Llm_error ''tool_result content'')
      | Some (VObj fs) \<Rightarrow> Inr (VObj fs)
      | _ \<Rightarrow> Inl (Llm_error ''tool_result content''))"

definition redacted_tool_result :: "(rat \<Rightarrow> string) \<Rightarrow> (string \<Rightarrow> jv option) \<Rightarrow> jv \<Rightarrow> llm_error + jv" where
  "redacted_tool_result show_float loads block =
     (if \<not> is_tool_use_id (jfield block ''tool_use_id'') then Inl (Llm_error ''tool_use_id'')
      else case result_content loads (jfield block ''content'') of
        Inl e \<Rightarrow> Inl e
      | Inr c \<Rightarrow>
          (let out = [(''type'', VStr ''tool_result''), (''tool_use_id'', the (jfield block ''tool_use_id'')),
                      (''content'', VStr (json_dumps_plain show_float (redact_node show_float [] c)))]
           in case jfield block ''is_error'' of
                None \<Rightarrow> Inr (VObj out)
              | Some (VBool b) \<Rightarrow> Inr (VObj (out @ [(''is_error'', VBool b)]))
              | Some _ \<Rightarrow> Inl (Llm_error ''is_error'')))"

fun keys_of :: "jv \<Rightarrow> string list" where
  "keys_of (VObj fs) = map fst fs"
| "keys_of v = []"

definition redacted_block ::
  "(rat \<Rightarrow> string) \<Rightarrow> (string \<Rightarrow> jv option) \<Rightarrow> string \<Rightarrow> jv \<Rightarrow> llm_error + jv" where
  "redacted_block show_float loads role block =
     (let expected = block_type_by_role role in
      if \<not> is_object block then Inl (Llm_error ''content block'')
      else if jfield block ''type'' \<noteq> Some (VStr expected) then Inl (Llm_error ''block type'')
      else if \<not> set (keys_of block) \<subseteq> set (block_keys expected) then Inl (Llm_error ''block keys'')
      else if expected = ''tool_use'' then redacted_tool_use show_float block
      else redacted_tool_result show_float loads block)"

text \<open>A list comprehension stops at the first element that raises.\<close>

primrec map_until :: "('a \<Rightarrow> 'e + 'b) \<Rightarrow> 'a list \<Rightarrow> 'e + 'b list" where
  "map_until f [] = Inr []"
| "map_until f (x # xs) =
     (case f x of Inl e \<Rightarrow> Inl e
      | Inr y \<Rightarrow> (case map_until f xs of Inl e \<Rightarrow> Inl e | Inr ys \<Rightarrow> Inr (y # ys)))"

definition redacted_blocks ::
  "(rat \<Rightarrow> string) \<Rightarrow> (string \<Rightarrow> jv option) \<Rightarrow> string \<Rightarrow> jv list \<Rightarrow> llm_error + jv list" where
  "redacted_blocks show_float loads role blocks =
     (if blocks = [] then Inl (Llm_error ''no block'') else map_until (redacted_block show_float loads role) blocks)"

definition redacted_turn :: "(rat \<Rightarrow> string) \<Rightarrow> (string \<Rightarrow> jv option) \<Rightarrow> jv \<Rightarrow> llm_error + message" where
  "redacted_turn show_float loads turn =
     (case jfield turn ''content'' of
        None \<Rightarrow> Inl (Llm_error ''turn'')
      | Some (VList blocks) \<Rightarrow>
          (case turn_role turn of Inl e \<Rightarrow> Inl e
           | Inr role \<Rightarrow>
               (case redacted_blocks show_float loads role blocks of Inl e \<Rightarrow> Inl e
                | Inr bs \<Rightarrow> Inr \<lparr>msg_role = role, msg_content = Blocks bs\<rparr>))
      | Some (VStr s) \<Rightarrow>
          if \<not> json_object loads s then Inl (Llm_error ''turn content'')
          else (case turn_role turn of Inl e \<Rightarrow> Inl e
                | Inr role \<Rightarrow> Inr \<lparr>msg_role = role, msg_content = Text (redact_json show_float loads s)\<rparr>)
      | Some _ \<Rightarrow> Inl (Llm_error ''turn content''))"

section \<open>Tool schemas\<close>

definition validated_tool :: "string list \<Rightarrow> jv \<Rightarrow> llm_error + (string \<times> jv)" where
  "validated_tool seen tool =
     (if \<not> is_object tool then Inl (Llm_error ''tool'')
      else if \<not> set (keys_of tool) \<subseteq> {''name'', ''description'', ''input_schema''} then Inl (Llm_error ''tool keys'')
      else if \<not> is_tool_name (jfield tool ''name'') then Inl (Llm_error ''tool name'')
      else if the (str_field tool ''name'') \<in> set seen then Inl (Llm_error ''duplicate tool'')
      else case (str_field tool ''description'', jfield tool ''input_schema'') of
        (Some d, schema) \<Rightarrow>
          if strip_space d = [] then Inl (Llm_error ''tool description'')
          else (case schema of
              Some (VObj fs) \<Rightarrow>
                if map_of fs ''type'' \<noteq> Some (VStr ''object'') then Inl (Llm_error ''tool input_schema type'')
                else Inr (the (str_field tool ''name''),
                          VObj [(''name'', the (jfield tool ''name'')), (''description'', VStr d), (''input_schema'', VObj fs)])
            | _ \<Rightarrow> Inl (Llm_error ''tool input_schema''))
      | (None, _) \<Rightarrow> Inl (Llm_error ''tool description''))"

primrec validated_from :: "string list \<Rightarrow> jv list \<Rightarrow> llm_error + jv list" where
  "validated_from seen [] = Inr []"
| "validated_from seen (t # ts) =
     (case validated_tool seen t of Inl e \<Rightarrow> Inl e
      | Inr (name, schema) \<Rightarrow>
          (case validated_from (name # seen) ts of Inl e \<Rightarrow> Inl e | Inr ss \<Rightarrow> Inr (schema # ss)))"

definition validated_tools :: "jv option \<Rightarrow> llm_error + jv list" where
  "validated_tools tools =
     (case tools of None \<Rightarrow> Inr [] | Some VNull \<Rightarrow> Inr [] | Some (VList ts) \<Rightarrow> validated_from [] ts
      | Some _ \<Rightarrow> Inl (Llm_error ''tools''))"

section \<open>Templates\<close>

datatype template_part = Fixed string | Field string

record prompt_template =
  pt_name :: string
  pt_version :: string
  pt_system :: string
  pt_user :: "template_part list"
  pt_required :: "string list"
  pt_json_vars :: "string list"
  pt_examples :: "(string \<times> string) list"
  pt_output_schema :: "jv option"

definition shown :: "(jv \<Rightarrow> string) \<Rightarrow> jv \<Rightarrow> string" where
  "shown show_value v = (case v of VStr s \<Rightarrow> s | _ \<Rightarrow> show_value v)"

definition format_part :: "(jv \<Rightarrow> string) \<Rightarrow> (string \<times> jv) list \<Rightarrow> template_part \<Rightarrow> llm_error + string" where
  "format_part show_value vars p =
     (case p of Fixed s \<Rightarrow> Inr s
      | Field k \<Rightarrow> (case map_of vars k of None \<Rightarrow> Inl (Key_error k) | Some v \<Rightarrow> Inr (shown show_value v)))"

definition render_user :: "(jv \<Rightarrow> string) \<Rightarrow> prompt_template \<Rightarrow> (string \<times> jv) list \<Rightarrow> llm_error + string" where
  "render_user show_value t vars =
     (case find (\<lambda>v. map_of vars v = None) (pt_required t) of
        Some v \<Rightarrow> Inl (Key_error v)
      | None \<Rightarrow> (case map_until (format_part show_value vars) (pt_user t) of
                   Inl e \<Rightarrow> Inl e | Inr parts \<Rightarrow> Inr (concat parts)))"

text \<open>The declared JSON variables are replaced one after the other.\<close>

primrec redact_vars ::
  "(rat \<Rightarrow> string) \<Rightarrow> (string \<Rightarrow> jv option) \<Rightarrow> string list \<Rightarrow> (string \<times> jv) list \<Rightarrow> llm_error + (string \<times> jv) list" where
  "redact_vars show_float loads [] vars = Inr vars"
| "redact_vars show_float loads (x # xs) vars =
     (case map_of vars x of
        None \<Rightarrow> redact_vars show_float loads xs vars
      | Some v \<Rightarrow>
          (case redact_json_var show_float loads x (case v of VStr s \<Rightarrow> s | _ \<Rightarrow> json_dumps show_float v) of
             Inl e \<Rightarrow> Inl e
           | Inr s \<Rightarrow> redact_vars show_float loads xs (AList.update x (VStr s) vars)))"

section \<open>The budget\<close>

definition chars_per_token :: nat where
  "chars_per_token = 4"

definition estimate_tokens :: "string \<Rightarrow> nat" where
  "estimate_tokens s = (length s + chars_per_token - 1) div chars_per_token"

definition content_tokens :: "(rat \<Rightarrow> string) \<Rightarrow> content \<Rightarrow> nat" where
  "content_tokens show_float c =
     (case c of Text s \<Rightarrow> estimate_tokens s | Blocks bs \<Rightarrow> estimate_tokens (json_dumps_plain show_float (VList bs)))"

definition schema_tokens :: "(rat \<Rightarrow> string) \<Rightarrow> jv \<Rightarrow> nat" where
  "schema_tokens show_float t = estimate_tokens (json_dumps_plain show_float t)"

definition history_tokens :: "(rat \<Rightarrow> string) \<Rightarrow> message list \<Rightarrow> nat" where
  "history_tokens show_float ms = sum_list (map (content_tokens show_float \<circ> msg_content) ms)"

text \<open>The oldest turns are dropped until the rest fits: the number dropped and what is kept.\<close>

fun trim_history :: "(rat \<Rightarrow> string) \<Rightarrow> int \<Rightarrow> int \<Rightarrow> message list \<Rightarrow> nat \<times> message list" where
  "trim_history show_float needed budget [] = (0, [])"
| "trim_history show_float needed budget (m # ms) =
     (if needed + int (history_tokens show_float (m # ms)) \<le> budget then (0, m # ms)
      else (let (n, kept) = trim_history show_float needed budget ms in (Suc n, kept)))"

definition expand_examples :: "(string \<times> string) list \<Rightarrow> message list" where
  "expand_examples exs = concat (map (\<lambda>(u, a).
     [\<lparr>msg_role = ''user'', msg_content = Text u\<rparr>, \<lparr>msg_role = ''assistant'', msg_content = Text a\<rparr>]) exs)"

record completion_request =
  rq_system :: string
  rq_messages :: "message list"
  rq_model :: string
  rq_max_tokens :: int
  rq_idempotency_key :: string
  rq_tools :: "jv list"

record built_request =
  br_request :: completion_request
  br_estimated_input_tokens :: nat
  br_trimmed_history_turns :: nat

record builder_config =
  bc_model :: string
  bc_max_tokens :: int
  bc_token_budget :: int

definition fixed_tokens ::
  "(rat \<Rightarrow> string) \<Rightarrow> prompt_template \<Rightarrow> string \<Rightarrow> jv list \<Rightarrow> nat" where
  "fixed_tokens show_float t user schemas =
     estimate_tokens (pt_system t) + history_tokens show_float (expand_examples (pt_examples t)) +
     estimate_tokens user + sum_list (map (schema_tokens show_float) schemas)"

definition fit_request ::
  "(rat \<Rightarrow> string) \<Rightarrow> builder_config \<Rightarrow> prompt_template \<Rightarrow> string \<Rightarrow> message list \<Rightarrow> jv list \<Rightarrow> string \<Rightarrow>
   llm_error + built_request" where
  "fit_request show_float cfg t key history schemas user =
     (let fixed = fixed_tokens show_float t user schemas in
      if bc_token_budget cfg < int fixed + bc_max_tokens cfg then Inl Token_budget_exceeded
      else (let (trimmed, kept) = trim_history show_float (int fixed + bc_max_tokens cfg) (bc_token_budget cfg) history in
        Inr \<lparr>br_request =
               \<lparr>rq_system = pt_system t,
                rq_messages = expand_examples (pt_examples t) @ kept @ [\<lparr>msg_role = ''user'', msg_content = Text user\<rparr>],
                rq_model = bc_model cfg, rq_max_tokens = bc_max_tokens cfg, rq_idempotency_key = key, rq_tools = schemas\<rparr>,
             br_estimated_input_tokens = fixed + history_tokens show_float kept,
             br_trimmed_history_turns = trimmed\<rparr>))"

text \<open>The order of the steps decides which error is raised.\<close>

definition build_request ::
  "(rat \<Rightarrow> string) \<Rightarrow> (jv \<Rightarrow> string) \<Rightarrow> (string \<Rightarrow> jv option) \<Rightarrow> builder_config \<Rightarrow> prompt_template \<Rightarrow>
   jv list \<Rightarrow> string \<Rightarrow> jv option \<Rightarrow> (string \<times> jv) list \<Rightarrow> llm_error + built_request" where
  "build_request show_float show_value loads cfg t history key tools vars =
     (case map_until (redacted_turn show_float loads) history of Inl e \<Rightarrow> Inl e
      | Inr turns \<Rightarrow>
     (case validated_tools tools of Inl e \<Rightarrow> Inl e
      | Inr schemas \<Rightarrow>
     (case redact_vars show_float loads (pt_json_vars t) vars of Inl e \<Rightarrow> Inl e
      | Inr safe_vars \<Rightarrow>
     (case render_user show_value t safe_vars of Inl e \<Rightarrow> Inl e
      | Inr user \<Rightarrow> fit_request show_float cfg t key turns schemas (redact user)))))"

end
