(* ===== verification/RedactorFrame.thy ===== *)
theory RedactorFrame
  imports RedactorProps
begin

text \<open>
  What the redactor does not touch: patterns that can only match a text with some character in it, groups
  that add up to the match, and from both that a text without digits passes every substitution but the
  one for e-mail addresses.
\<close>

section \<open>Patterns that need a character\<close>

text \<open>Whether every text a pattern matches has a character in a class.\<close>

primrec needs :: "(char \<Rightarrow> bool) \<Rightarrow> rx \<Rightarrow> bool" where
  "needs P Eps \<longleftrightarrow> False"
| "needs P (Sat q) \<longleftrightarrow> (\<forall>c. q c \<longrightarrow> P c)"
| "needs P (Seq a b) \<longleftrightarrow> needs P a \<or> needs P b"
| "needs P (Alt a b) \<longleftrightarrow> needs P a \<and> needs P b"
| "needs P (Rep n k r) \<longleftrightarrow> 0 < n \<and> needs P r"
| "needs P (Star r) \<longleftrightarrow> False"
| "needs P (Lazy r) \<longleftrightarrow> False"
| "needs P (Grp n r) \<longleftrightarrow> needs P r"
| "needs P (Back n) \<longleftrightarrow> False"
| "needs P (Ahead r) \<longleftrightarrow> False"
| "needs P (Not_ahead r) \<longleftrightarrow> False"
| "needs P Word_edge \<longleftrightarrow> False"
| "needs P At_end \<longleftrightarrow> False"

definition lacks :: "(char \<Rightarrow> bool) \<Rightarrow> rx_state \<Rightarrow> bool" where
  "lacks P s \<longleftrightarrow> list_all (\<lambda>c. \<not> P c) (fst (snd s))"

lemma lacks_later: "lacks P s \<Longrightarrow> t \<in> set (rx_match r s) \<Longrightarrow> lacks P t"
  using advancesD [OF rx_advances] by (fastforce simp: lacks_def consumed_def)

lemma then_all_empty: "(\<And>t. t \<in> set ss \<Longrightarrow> m t = []) \<Longrightarrow> then_all m ss = []"
  by (simp add: then_all_def)

lemma needs_no_match: "needs P r \<Longrightarrow> lacks P s \<Longrightarrow> rx_match r s = []"
proof (induction r arbitrary: s)
  case (Sat q)
  then show ?case by (cases "fst (snd s)") (auto simp: lacks_def rx_match.simps)
next
  case (Seq a b)
  show ?case
  proof (cases "needs P a")
    case False
    then have "rx_match b t = []" if "t \<in> set (rx_match a s)" for t
      using Seq lacks_later that by auto
    then show ?thesis by (simp add: then_all_empty)
  qed (use Seq in simp)
next
  case (Rep n k r)
  then obtain m where "n = Suc m" by (cases n) auto
  then show ?case using Rep by simp
qed auto

lemma sub_from_needs:
  "needs P r \<Longrightarrow> list_all (\<lambda>c. \<not> P c) s \<Longrightarrow> sub_from r f pre s = s"
proof (induction s arbitrary: pre)
  case (Cons c s)
  then have "first_match r pre (c # s) = None"
    using needs_no_match [of P r "(pre, c # s, [])"] by (simp add: first_match_def lacks_def)
  then show ?case using Cons by simp
qed simp

lemma re_sub_needs: "needs P r \<Longrightarrow> list_all (\<lambda>c. \<not> P c) s \<Longrightarrow> re_sub r f s = s"
  by (simp add: re_sub_def sub_from_needs)

lemma needs_seqs [simp]: "needs P (seqs rs) \<longleftrightarrow> list_ex (needs P) rs"
  by (induction rs) simp_all

lemma needs_digit [simp]:
  "needs py_digit digit" "0 < n \<Longrightarrow> needs py_digit (digits n)"
  by (simp_all add: digit_def digits_def)

lemma digit_patterns:
  "needs py_digit request_line" "needs py_digit free_pan" "needs py_digit dotted_pan" "needs py_digit pan_in_value"
  "needs py_digit cvv_field" "needs py_digit dashed_ssn" "needs py_digit spaced_ssn" "needs py_digit ssn_field"
  "needs py_digit phone_field" "needs py_digit free_phone" "needs py_digit free_iban"
  by (simp_all add: request_line_def free_pan_def dotted_pan_def pan_in_value_def cvv_field_def dashed_ssn_def
      spaced_ssn_def ssn_field_def phone_field_def free_phone_def free_iban_def)

section \<open>Captured groups\<close>

primrec group_free :: "rx \<Rightarrow> bool" where
  "group_free Eps \<longleftrightarrow> True"
| "group_free (Sat q) \<longleftrightarrow> True"
| "group_free (Seq a b) \<longleftrightarrow> group_free a \<and> group_free b"
| "group_free (Alt a b) \<longleftrightarrow> group_free a \<and> group_free b"
| "group_free (Rep n k r) \<longleftrightarrow> group_free r"
| "group_free (Star r) \<longleftrightarrow> group_free r"
| "group_free (Lazy r) \<longleftrightarrow> group_free r"
| "group_free (Grp n r) \<longleftrightarrow> False"
| "group_free (Back n) \<longleftrightarrow> True"
| "group_free (Ahead r) \<longleftrightarrow> True"
| "group_free (Not_ahead r) \<longleftrightarrow> True"
| "group_free Word_edge \<longleftrightarrow> True"
| "group_free At_end \<longleftrightarrow> True"

definition keeps_groups :: "(rx_state \<Rightarrow> rx_state list) \<Rightarrow> bool" where
  "keeps_groups m \<longleftrightarrow> (\<forall>s. \<forall>t \<in> set (m s). snd (snd t) = snd (snd s))"

lemma keeps_groupsD: "keeps_groups m \<Longrightarrow> t \<in> set (m s) \<Longrightarrow> snd (snd t) = snd (snd s)"
  unfolding keeps_groups_def by blast

lemma keeps_groupsI: "(\<And>s t. t \<in> set (m s) \<Longrightarrow> snd (snd t) = snd (snd s)) \<Longrightarrow> keeps_groups m"
  unfolding keeps_groups_def by blast

lemma keeps_groups_then: "keeps_groups m \<Longrightarrow> keeps_groups k \<Longrightarrow> keeps_groups (\<lambda>s. then_all k (m s))"
  by (rule keeps_groupsI, simp only: set_then_all, elim UN_E) (simp only: keeps_groupsD)

lemma keeps_groups_exact: "keeps_groups m \<Longrightarrow> keeps_groups (rep_exact n m)"
proof (induction n)
  case (Suc n)
  note D = keeps_groupsD [OF keeps_groups_then [OF Suc.prems Suc.IH [OF Suc.prems]]]
  show ?case by (rule keeps_groupsI, simp only: rep_exact.simps, erule D)
qed (simp add: keeps_groups_def)

lemma keeps_groups_filtered: "keeps_groups m \<Longrightarrow> keeps_groups (\<lambda>s. filter (progress s) (m s))"
  by (rule keeps_groupsI) (simp only: set_filter mem_Collect_eq keeps_groupsD)

lemma keeps_groups_upto: "keeps_groups m \<Longrightarrow> keeps_groups (rep_upto n m)"
proof (induction n)
  case (Suc n)
  note D = keeps_groupsD [OF keeps_groups_then [OF keeps_groups_filtered [OF Suc.prems] Suc.IH [OF Suc.prems]]]
  show ?case by (rule keeps_groupsI, simp only: rep_upto.simps set_append, erule UnE, erule D) simp
qed (simp add: keeps_groups_def)

lemma keeps_groups_lazy: "keeps_groups m \<Longrightarrow> keeps_groups (rep_lazy n m)"
proof (induction n)
  case (Suc n)
  note D = keeps_groupsD [OF keeps_groups_then [OF keeps_groups_filtered [OF Suc.prems] Suc.IH [OF Suc.prems]]]
  show ?case by (rule keeps_groupsI, simp only: rep_lazy.simps list.set, erule insertE, simp, erule D)
qed (simp add: keeps_groups_def)

lemma group_free_keeps: "group_free r \<Longrightarrow> keeps_groups (rx_match r)"
proof (induction r)
  case (Sat q)
  show ?case by (rule keeps_groupsI) (auto simp: rx_match.simps split: list.splits if_splits)
next
  case (Rep n k r)
  then have "keeps_groups (rx_match r)" by simp
  note D = keeps_groupsD [OF keeps_groups_then [OF keeps_groups_exact [OF this] keeps_groups_upto [OF this]]]
  show ?case by (rule keeps_groupsI, simp only: rx_match.simps, erule D)
next
  case (Star r)
  then have "keeps_groups (rep_upto n (rx_match r))" for n by (simp add: keeps_groups_upto)
  note D = keeps_groupsD [OF this]
  show ?case by (rule keeps_groupsI, simp only: rx_match.simps, erule D)
next
  case (Lazy r)
  then have "keeps_groups (rep_lazy n (rx_match r))" for n by (simp add: keeps_groups_lazy)
  note D = keeps_groupsD [OF this]
  show ?case by (rule keeps_groupsI, simp only: rx_match.simps, erule D)
next
  case (Seq a b)
  then have "keeps_groups (rx_match a)" "keeps_groups (rx_match b)" by simp_all
  note D = keeps_groupsD [OF keeps_groups_then [OF this]]
  show ?case by (rule keeps_groupsI, simp only: rx_match.simps, erule D)
next
  case (Alt a b)
  then have "keeps_groups (rx_match a)" "keeps_groups (rx_match b)" by simp_all
  note D = keeps_groupsD [OF this(1)] keeps_groupsD [OF this(2)]
  show ?case by (rule keeps_groupsI, simp only: rx_match.simps set_append) (elim UnE D)
next
  case (Back n)
  show ?case by (rule keeps_groupsI) (auto split: option.splits if_splits)
qed (simp_all add: keeps_groups_def)

text \<open>One step of a match: what it consumes and what it captures.\<close>

lemma group_step:
  assumes "t \<in> set (rx_match (Grp n r) s)" "group_free r"
  obtains w where "consumed s t w" "snd (snd t) = (n, w) # snd (snd s)"
proof -
  obtain u where u: "u \<in> set (rx_match r s)" "fst t = fst u" "fst (snd t) = fst (snd u)"
    "snd (snd t) = (n, take (length (fst (snd s)) - length (fst (snd u))) (fst (snd s))) # snd (snd u)"
    using assms(1) by force
  obtain w where w: "consumed s u w" using advancesD [OF rx_advances u(1)] by blast
  have "snd (snd u) = snd (snd s)" by (rule keeps_groupsD [OF group_free_keeps [OF assms(2)] u(1)])
  then show ?thesis using that [of w] w u by (simp add: consumed_def)
qed

lemma back_step:
  assumes "t \<in> set (rx_match (Back n) s)"
  obtains w where "consumed s t w" "map_of (snd (snd s)) n = Some w" "snd (snd t) = snd (snd s)"
proof -
  obtain w where w: "map_of (snd (snd s)) n = Some w" "take (length w) (fst (snd s)) = w"
    "t = (rev w @ fst s, drop (length w) (fst (snd s)), snd (snd s))"
    using assms by (auto split: option.splits if_splits)
  then have "consumed s t w" using append_take_drop_id [of "length w" "fst (snd s)"] by (simp add: consumed_def)
  then show ?thesis using w that by simp
qed

lemma first_matchE:
  assumes "first_match r pre s = Some (w, m)"
  obtains t where "t \<in> set (rx_match r (pre, s, []))" "consumed (pre, s, []) t w" "snd (snd t) = m"
proof -
  obtain t ts where t: "rx_match r (pre, s, []) = t # ts" "w = take (length s - length (fst (snd t))) s" "m = snd (snd t)"
    using assms by (auto simp: first_match_def split: list.splits)
  obtain v where v: "consumed (pre, s, []) t v" using advancesD [OF rx_advances] t(1) by (metis list.set_intros(1))
  then have "v = w" using t(2) by (simp add: consumed_def)
  then have "consumed (pre, s, []) t w" using v by simp
  then show ?thesis using that [of t] t(1,3) by (metis list.set_intros(1))
qed

lemma consumed_unique: "consumed s t v \<Longrightarrow> consumed s t w \<Longrightarrow> v = w"
  by (simp add: consumed_def)

lemma group_cons [simp]: "group ((k, w) # m) n = (if n = k then w else group m n)"
  by (simp add: group_def)

lemma quoted_field_match:
  assumes "first_match (quoted_field key) pre s = Some (w, m)" and "group_free key"
  shows "w = group m 1 @ group m 2 @ group m 3 @ group m 2"
proof -
  let ?s = "(pre, s, []) :: rx_state"
  obtain t where t: "t \<in> set (rx_match (quoted_field key) ?s)" "consumed ?s t w" "snd (snd t) = m"
    using assms(1) by (rule first_matchE)
  obtain a b c d where steps: "a \<in> set (rx_match (Grp 1 (assigned key)) ?s)" "b \<in> set (rx_match (Grp 2 quote) a)"
    "c \<in> set (rx_match (Grp 3 (Lazy any_char)) b)" "d \<in> set (rx_match (Back 2) c)" "t \<in> set (rx_match value_end d)"
    using t(1) unfolding quoted_field_def
    by (simp only: seqs_cons seqs.simps(1) set_then_all UN_iff) (auto simp del: rx_match.simps simp: rx_match.simps(1))
  have free: "group_free (assigned key)" "group_free quote" "group_free (Lazy any_char)"
    using assms(2) by (simp_all add: assigned_def quote_def one_of_def space_def any_char_def opt_def)
  obtain k where k: "consumed ?s a k" "snd (snd a) = (1, k) # []" using group_step [OF steps(1) free(1)] by auto
  obtain q where q: "consumed a b q" "snd (snd b) = (2, q) # snd (snd a)" using group_step [OF steps(2) free(2)] by blast
  obtain v where v: "consumed b c v" "snd (snd c) = (3, v) # snd (snd b)" using group_step [OF steps(3) free(3)] by blast
  obtain e where e: "consumed c d e" "map_of (snd (snd c)) 2 = Some e" "snd (snd d) = snd (snd c)"
    using back_step [OF steps(4)] by blast
  have "t = d" using steps(5) by (simp add: value_end_def split: if_splits)
  moreover have "e = q" using e v q by simp
  ultimately have "consumed ?s t (k @ q @ v @ q)" "m = [(3, v), (2, q), (1, k)]"
    using consumed_trans [OF consumed_trans [OF consumed_trans [OF k(1) q(1)] v(1)] e(1)] k q v e t(3) by simp_all
  then show ?thesis using consumed_unique [OF t(2)] by simp
qed

lemma unquoted_field_match:
  assumes "first_match (unquoted_field key) pre s = Some (w, m)" and "group_free key"
  shows "w = group m 1 @ group m 2"
proof -
  let ?s = "(pre, s, []) :: rx_state"
  let ?v = "plus (Sat (\<lambda>c. \<not> re_space c \<and> c \<notin> set ([CHR 0x22, CHR 0x27] @ '',;}])&'')))"
  obtain t where t: "t \<in> set (rx_match (unquoted_field key) ?s)" "consumed ?s t w" "snd (snd t) = m"
    using assms(1) by (rule first_matchE)
  obtain a where steps: "a \<in> set (rx_match (Grp 1 (assigned key)) ?s)" "t \<in> set (rx_match (Grp 2 ?v) a)"
    using t(1) unfolding unquoted_field_def
    by (simp only: seqs_cons seqs.simps(1) set_then_all UN_iff) (auto simp del: rx_match.simps simp: rx_match.simps(1))
  have free: "group_free (assigned key)" "group_free ?v"
    using assms(2) by (simp_all add: assigned_def quote_def one_of_def space_def opt_def plus_def)
  obtain k where k: "consumed ?s a k" "snd (snd a) = (1, k) # []" using group_step [OF steps(1) free(1)] by auto
  obtain v where v: "consumed a t v" "snd (snd t) = (2, v) # snd (snd a)" using group_step [OF steps(2) free(2)] by blast
  have "w = k @ v" by (rule consumed_unique [OF t(2) consumed_trans [OF k(1) v(1)]])
  then show ?thesis using k v t(3) by auto
qed

lemma quoted_value_match:
  assumes "first_match quoted_value pre s = Some (w, m)"
  shows "w = group m 1 @ group m 2 @ group m 1"
proof -
  let ?s = "(pre, s, []) :: rx_state"
  let ?v = "Star (Alt (Seq (Not_ahead (Back 1)) (none_of [CHR 0x5C])) (Seq (lit [CHR 0x5C]) any_char))"
  obtain t where t: "t \<in> set (rx_match quoted_value ?s)" "consumed ?s t w" "snd (snd t) = m"
    using assms by (rule first_matchE)
  obtain a b where steps: "a \<in> set (rx_match (Grp 1 quote) ?s)" "b \<in> set (rx_match (Grp 2 ?v) a)"
    "t \<in> set (rx_match (Back 1) b)"
    using t(1) unfolding quoted_value_def
    by (simp only: seqs_cons seqs.simps(1) set_then_all UN_iff) (auto simp del: rx_match.simps simp: rx_match.simps(1))
  have free: "group_free quote" "group_free ?v"
    by (simp_all add: quote_def one_of_def none_of_def any_char_def lit.simps)
  obtain q where q: "consumed ?s a q" "snd (snd a) = (1, q) # []" using group_step [OF steps(1) free(1)] by auto
  obtain v where v: "consumed a b v" "snd (snd b) = (2, v) # snd (snd a)" using group_step [OF steps(2) free(2)] by blast
  obtain e where e: "consumed b t e" "map_of (snd (snd b)) 1 = Some e" "snd (snd t) = snd (snd b)"
    using back_step [OF steps(3)] by blast
  have "w = q @ v @ e" 
    using consumed_unique [OF t(2) consumed_trans [OF consumed_trans [OF q(1) v(1)] e(1)]] by simp
  then show ?thesis using q v e t(3) by auto
qed

section \<open>Texts the redactor leaves alone\<close>

lemma matched_part:
  assumes "first_match r pre s = Some (w, m)"
  shows "s = w @ drop (length w) s"
proof -
  obtain t where "consumed (pre, s, []) t w" using assms by (rule first_matchE)
  then have "s = w @ fst (snd t)" by (simp add: consumed_def)
  then show ?thesis by (metis append_eq_conv_conj)
qed

lemma sub_from_same:
  assumes "\<And>pre t w m. first_match r pre t = Some (w, m) \<Longrightarrow> set w \<subseteq> S \<Longrightarrow> f w m = w"
  shows "set s \<subseteq> S \<Longrightarrow> sub_from r f pre s = s"
proof (induction s arbitrary: pre rule: length_induct)
  case (1 s)
  show ?case
  proof (cases s)
    case (Cons c cs)
    have tail: "sub_from r f (c # pre) cs = cs" using 1 Cons by simp
    show ?thesis
    proof (cases "first_match r pre s")
      case (Some p)
      obtain w m where p: "p = (w, m)" by (cases p)
      show ?thesis
      proof (cases "w = []")
        case False
        have w: "s = w @ drop (length w) s" using matched_part Some p by simp
        then have sub: "set w \<subseteq> S" "set (drop (length w) s) \<subseteq> S" using 1(2) by (metis le_supE set_append)+
        have "sub_from r f (rev w @ pre) (drop (length w) s) = drop (length w) s"
          using 1(1) sub(2) False Cons by simp
        then show ?thesis using sub_from_step [of r pre s w m f] assms [of pre s w m] Some p False sub w by simp
      qed (use Cons Some p tail in simp)
    qed (use Cons tail in simp)
  qed simp
qed

lemma re_sub_same:
  assumes "\<And>pre t w m. first_match r pre t = Some (w, m) \<Longrightarrow> list_all P w \<Longrightarrow> f w m = w" and "list_all P s"
  shows "re_sub r f s = s"
  unfolding re_sub_def
  by (rule sub_from_same [where S = "Collect P"]) (use assms in \<open>auto simp: list_all_iff subset_iff\<close>)

definition digitless :: "string \<Rightarrow> bool" where
  "digitless s \<longleftrightarrow> list_all (\<lambda>c. \<not> py_digit c) s \<and> CHR ''%'' \<notin> set s"

lemma digitless_parts [simp]: "digitless (s @ t) \<longleftrightarrow> digitless s \<and> digitless t"
  by (auto simp: digitless_def)

lemma digitless_iff: "digitless s \<longleftrightarrow> list_all (\<lambda>c. \<not> py_digit c \<and> c \<noteq> CHR ''%'') s"
  by (auto simp: digitless_def list_all_iff)

lemma only_digits_none: "digitless s \<Longrightarrow> only_digits s = []"
  by (simp add: digitless_def only_digits_def filter_empty_conv list_all_iff)

lemma digitless_values [simp]:
  "digitless v \<Longrightarrow> mask_pan_value v = v"
  "digitless v \<Longrightarrow> mask_bank_value v = v"
  "digitless v \<Longrightarrow> mask_pan_in_value v = v"
  using re_sub_needs [OF digit_patterns(4)]
  by (simp_all add: mask_pan_value_def mask_bank_value_def mask_pan_in_value_def only_digits_none) (simp add: digitless_def)

lemma digitless_token: "digitless v \<Longrightarrow> mask_pan_token v = v"
proof -
  assume v: "digitless v"
  have "percent_decode v = v"
    unfolding percent_decode_def
    by (rule re_sub_needs [where P = "\<lambda>c. c = CHR ''%''"]) (use v in \<open>auto simp: digitless_def lit.simps list_all_iff\<close>)
  then show ?thesis using v by (simp add: mask_pan_token_def)
qed

lemma digitless_fields:
  assumes "digitless s" and "group_free key" and "\<And>v. digitless v \<Longrightarrow> f v = v"
  shows "re_sub (quoted_field key) (mask_quoted f) s = s" "re_sub (unquoted_field key) (mask_unquoted f) s = s"
proof -
  let ?P = "\<lambda>c. \<not> py_digit c \<and> c \<noteq> CHR ''%''"
  have s: "list_all ?P s" using assms(1) by (simp add: digitless_iff)
  show "re_sub (quoted_field key) (mask_quoted f) s = s"
  proof (rule re_sub_same [OF _ s])
    fix pre t w m
    assume m: "first_match (quoted_field key) pre t = Some (w, m)" and p: "list_all ?P w"
    have w: "w = group m 1 @ group m 2 @ group m 3 @ group m 2" by (rule quoted_field_match [OF m assms(2)])
    then have "digitless (group m 3)" using p by (metis digitless_iff list_all_append)
    then show "mask_quoted f w m = w" using assms(3) w by (simp add: mask_quoted_def)
  qed
  show "re_sub (unquoted_field key) (mask_unquoted f) s = s"
  proof (rule re_sub_same [OF _ s])
    fix pre t w m
    assume m: "first_match (unquoted_field key) pre t = Some (w, m)" and p: "list_all ?P w"
    have w: "w = group m 1 @ group m 2" by (rule unquoted_field_match [OF m assms(2)])
    then have "digitless (group m 2)" using p by (metis digitless_iff list_all_append)
    then show "mask_unquoted f w m = w" using assms(3) w by (simp add: mask_unquoted_def)
  qed
qed

lemma group_free_seqs [simp]: "group_free (seqs rs) \<longleftrightarrow> list_all group_free rs"
  by (induction rs) simp_all

lemma group_free_ilit [simp]: "group_free (ilit s)"
  by (induction s) simp_all

lemma group_free_keys: "group_free (Seq Word_edge pan_key)" "group_free bank_key"
  by (simp_all add: pan_key_def bank_key_def sep_def number_word_def opt_def one_of_def)

lemma digitless_needs: "needs py_digit r \<Longrightarrow> digitless s \<Longrightarrow> re_sub r f s = s"
  by (rule re_sub_needs [where P = py_digit]) (simp_all add: digitless_def)

lemma digitless_quotes: "digitless s \<Longrightarrow>
    re_sub quoted_value (\<lambda>_ m. group m 1 @ mask_pan_in_value (group m 2) @ group m 1) s = s"
proof (rule re_sub_same [where P = "\<lambda>c. \<not> py_digit c \<and> c \<noteq> CHR ''%''"])
  fix pre t w m
  assume m: "first_match quoted_value pre t = Some (w, m)" and p: "list_all (\<lambda>c. \<not> py_digit c \<and> c \<noteq> CHR ''%'') w"
  have w: "w = group m 1 @ group m 2 @ group m 1" by (rule quoted_value_match [OF m])
  then have "digitless (group m 2)" using p by (metis digitless_iff list_all_append)
  then show "group m 1 @ mask_pan_in_value (group m 2) @ group m 1 = w" using w by simp
qed (simp add: digitless_iff)

lemma digitless_tokens: "digitless s \<Longrightarrow> re_sub plain_token (\<lambda>w _. mask_pan_token w) s = s"
  by (rule re_sub_same [where P = "\<lambda>c. \<not> py_digit c \<and> c \<noteq> CHR ''%''"])
    (simp_all add: digitless_token digitless_iff [symmetric])

lemma digitless_passes:
  assumes "digitless s"
  shows "mask_pans s = s" "mask_cvvs s = s" "mask_ssns s = s" "mask_banks s = s"
  using assms digitless_fields [OF assms group_free_keys(1), of mask_pan_value]
    digitless_fields [OF assms group_free_keys(2), of mask_bank_value]
  by (simp_all add: mask_pans_def mask_cvvs_def mask_ssns_def mask_dashed_ssns_def mask_banks_def
      digitless_needs digit_patterns digitless_quotes [unfolded One_nat_def] digitless_tokens)

lemma sub_from_all:
  assumes "\<And>pre t w m. first_match r pre t = Some (w, m) \<Longrightarrow> list_all P w \<Longrightarrow> list_all P (f w m)"
  shows "list_all P s \<Longrightarrow> list_all P (sub_from r f pre s)"
proof (induction s arbitrary: pre rule: length_induct)
  case (1 s)
  show ?case
  proof (cases s)
    case (Cons c cs)
    have tail: "list_all P (sub_from r f (c # pre) cs)" using 1 Cons by simp
    show ?thesis
    proof (cases "first_match r pre s")
      case (Some p)
      obtain w m where p: "p = (w, m)" by (cases p)
      show ?thesis
      proof (cases "w = []")
        case False
        have w: "s = w @ drop (length w) s" using matched_part Some p by simp
        then have sub: "list_all P w" "list_all P (drop (length w) s)" using 1(2) by (metis list_all_append)+
        have "list_all P (sub_from r f (rev w @ pre) (drop (length w) s))"
          using 1(1) sub(2) False Cons by simp
        then show ?thesis using sub_from_step [of r pre s w m f] assms [of pre s w m] Some p False sub by simp
      qed (use Cons Some p tail 1(2) in simp)
    qed (use Cons tail 1(2) in simp)
  qed simp
qed

lemma digitless_sub:
  assumes "\<And>pre t w m. first_match r pre t = Some (w, m) \<Longrightarrow> digitless w \<Longrightarrow> digitless (f w m)" and "digitless s"
  shows "digitless (re_sub r f s)"
  using assms unfolding digitless_iff re_sub_def by (metis (no_types, lifting) sub_from_all)

definition mask_email :: "string \<Rightarrow> captures \<Rightarrow> string" where
  "mask_email w m = dots 4 @ ''@'' @ group m 1"

lemma email_match:
  assumes "first_match email pre s = Some (w, m)"
  shows "\<exists>u. w = u @ group m 1 \<and> u \<noteq> []"
proof -
  let ?s = "(pre, s, []) :: rx_state"
  let ?d = "seqs [plus (Sat (\<lambda>c. ascii_alpha c \<or> py_digit c \<or> c \<in> set ''.-'')), lit ''.'',
                  Rep 2 0 (Sat ascii_alpha), Star (Sat ascii_alpha)]"
  obtain t where t: "t \<in> set (rx_match email ?s)" "consumed ?s t w" "snd (snd t) = m"
    using assms by (rule first_matchE)
  obtain a b c d where steps: "a \<in> set (rx_match Word_edge ?s)"
    "b \<in> set (rx_match (plus (Sat (\<lambda>c. ascii_alpha c \<or> py_digit c \<or> c \<in> set ''._%+-''))) a)"
    "c \<in> set (rx_match (lit ''@'') b)" "d \<in> set (rx_match (Grp 1 ?d) c)" "t \<in> set (rx_match Word_edge d)"
    using t(1) unfolding email_def
    by (simp only: seqs_cons seqs.simps(1) set_then_all UN_iff) (auto simp del: rx_match.simps simp: rx_match.simps(1))
  have free: "group_free ?d" by (simp add: plus_def lit.simps)
  obtain g where g: "consumed c d g" "snd (snd d) = (1, g) # snd (snd c)" using group_step [OF steps(4) free] by blast
  have "t = d" using steps(5) by (simp split: if_splits)
  obtain x y z where xyz: "consumed ?s a x" "consumed a b y" "consumed b c z"
    using advancesD [OF rx_advances] steps by meson
  then have "consumed ?s t (x @ y @ z @ g)"
    using g \<open>t = d\<close> by (simp add: consumed_def)
  then have "w = (x @ y @ z) @ g" using consumed_unique [OF t(2)] by simp
  moreover have "group m 1 = g" using g(2) t(3) \<open>t = d\<close> by (simp flip: t(3))
  moreover have "z \<noteq> []"
    using steps(3) \<open>consumed b c z\<close> by (cases b) (auto simp: consumed_def split: if_splits)
  ultimately show ?thesis by (metis append_is_Nil_conv)
qed

lemma digitless_email: "digitless s \<Longrightarrow> digitless (re_sub email mask_email s)"
proof (rule digitless_sub)
  fix pre t w m
  assume "first_match email pre t = Some (w, m)" "digitless w"
  then have "digitless (group m 1)" using email_match by fastforce
  moreover have "digitless (dots 4)" "digitless ''@''" by code_simp+
  ultimately show "digitless (mask_email w m)" unfolding mask_email_def digitless_parts by blast
qed

lemma redact_digitless: "digitless s \<Longrightarrow> redact s = re_sub email mask_email s"
proof -
  assume s: "digitless s"
  have contacts: "mask_contacts s = re_sub email mask_email s"
    using digitless_email [OF s] by (simp add: mask_contacts_def mask_email_def [abs_def] digitless_needs digit_patterns)
  have "re_sub request_line mask_request_target_query s = s" by (simp add: s digitless_needs digit_patterns)
  then show ?thesis
    using s digitless_email [OF s] by (simp add: redact_def digitless_passes contacts re_sub_def)
qed

text \<open>
  The redactor leaves ordinary prose alone: a text without a digit, a percent sign or an at sign is
  returned as it was, whatever field names, quotes, keywords or request lines it contains, so a mask in a
  log line or a prompt always stands for something that had the shape of customer data.
\<close>

theorem prose_is_left_alone:
  assumes "digitless s" "CHR ''@'' \<notin> set s"
  shows "redact s = s"
proof -
  have "needs (\<lambda>c. c = CHR ''@'') email" by (simp add: email_def lit.simps)
  then have "re_sub email mask_email s = s"
    using assms(2) by (auto intro: re_sub_needs simp: list_all_iff)
  then show ?thesis using assms(1) by (simp add: redact_digitless)
qed

lemma prose_is_left_alone_witness:
  "redact ''GET /apply?name=Jane HTTP/x {account: savings, cvv: none}'' =
     ''GET /apply?name=Jane HTTP/x {account: savings, cvv: none}''"
proof -
  have "digitless ''GET /apply?name=Jane HTTP/x {account: savings, cvv: none}''" by code_simp
  then show ?thesis using prose_is_left_alone by simp
qed

end
