(* ===== verification/RedactionProps.thy ===== *)
theory RedactionProps
  imports RequestRedaction RedactorFrame
begin

text \<open>
  What leaves for the model provider: the redacted document is a function of the document without
  its identity fields and free texts, what it still contains is safe to send, no field is lost,
  and the one way found by which a bare name gets through.
\<close>

section \<open>Every field keeps its value\<close>

lemma show_nat_inj: "show_nat m = show_nat n \<Longrightarrow> m = n"
  by (metis digits_val_show_nat of_nat_eq_iff)

lemma numbered_key_inj: "numbered_key k m = numbered_key k n \<longleftrightarrow> m = n"
  by (auto simp: numbered_key_def dest: show_nat_inj)

lemma free_key_fresh: "free_key taken k \<notin> set taken"
proof (cases "k \<in> set taken")
  case True
  let ?ns = "[2..<length taken + 3]"
  have "find (\<lambda>n. numbered_key k n \<notin> set taken) ?ns \<noteq> None"
  proof
    assume "find (\<lambda>n. numbered_key k n \<notin> set taken) ?ns = None"
    then have "set (map (numbered_key k) ?ns) \<subseteq> set taken" by (auto simp: find_None_iff)
    then have "card (set (map (numbered_key k) ?ns)) \<le> length taken"
      by (meson List.finite_set card_length card_mono order_trans)
    moreover have "distinct (map (numbered_key k) ?ns)"
      by (simp add: distinct_map inj_on_def numbered_key_inj)
    then have "card (set (map (numbered_key k) ?ns)) = length taken + 1"
      by (simp only: distinct_card length_map) simp
    ultimately show False by simp
  qed
  then obtain n where n: "find (\<lambda>n. numbered_key k n \<notin> set taken) ?ns = Some n" by blast
  then have "numbered_key k n \<notin> set taken" by (auto simp: find_Some_iff)
  then show ?thesis using True unfolding free_key_def n by simp
qed (simp add: free_key_def)

definition shown_value :: "(rat \<Rightarrow> string) \<Rightarrow> string \<times> jv \<Rightarrow> jv" where
  "shown_value sf f = (if is_identity_key (fst f) then VStr identity_mask else redact_node sf (fst f) (snd f))"

lemma redact_fields_keys: "distinct (map fst out) \<Longrightarrow> distinct (map fst (redact_fields sf out fs))"
proof (induction fs arbitrary: out)
  case (Cons f fs)
  obtain k v where "f = (k, v)" by (cases f)
  moreover have "free_key (map fst out) (redact_key k) \<notin> fst ` set out" using free_key_fresh by (metis list.set_map)
  ultimately show ?case using Cons by simp
qed simp

lemma redact_fields_values: "map snd (redact_fields sf out fs) = map snd out @ map (shown_value sf) fs"
  by (induction fs arbitrary: out) (auto simp: shown_value_def)

text \<open>
  Redacting an object loses no field: the result has one field for each field of the object, in the
  same order, with the mask or the redacted value in it, and no two of its keys are equal although
  different keys may be masked to the same text.
\<close>

theorem no_field_is_lost:
  "distinct (map fst (redact_fields sf [] fs)) \<and> map snd (redact_fields sf [] fs) = map (shown_value sf) fs"
  by (simp add: redact_fields_keys redact_fields_values)

section \<open>What the provider cannot see\<close>

text \<open>A document without what must not leave: identity fields emptied, free texts blanked.\<close>

function (sequential) blinded :: "string \<Rightarrow> jv \<Rightarrow> jv"
  and blinded_list :: "string \<Rightarrow> jv list \<Rightarrow> jv list"
  and blinded_fields :: "(string \<times> jv) list \<Rightarrow> (string \<times> jv) list" where
  "blinded key (VObj fs) = VObj (blinded_fields fs)"
| "blinded key (VList vs) = VList (blinded_list key vs)"
| "blinded key (VStr s) = (if \<not> safe_code key s \<and> list_ex re_space s then VStr '' '' else VStr s)"
| "blinded key v = v"
| "blinded_list key [] = []"
| "blinded_list key (v # vs) = blinded key v # blinded_list key vs"
| "blinded_fields [] = []"
| "blinded_fields ((k, v) # fs) = (k, if is_identity_key k then VNull else blinded k v) # blinded_fields fs"
  by pat_completeness auto
termination
  by (relation "measure (\<lambda>x. case x of
        Inl (key, v) \<Rightarrow> size v
      | Inr (Inl (key, vs)) \<Rightarrow> size_list size vs
      | Inr (Inr fs) \<Rightarrow> size_list (size_prod (\<lambda>_. 0) size) fs)") auto

lemma blank_is_free_text: "\<not> safe_code key '' ''" "re_space (CHR '' '')"
proof -
  have "lower (strip_space '' '') = []" "list_all (\<lambda>f. [] \<notin> set (snd f)) safe_categorical" by code_simp+
  then show "\<not> safe_code key '' ''"
    by (auto simp: safe_code_def list_all_iff split: option.splits dest!: map_of_SomeD)
  show "re_space (CHR '' '')" by code_simp
qed

lemma redact_blinded:
  "redact_node sf key (blinded key v) = redact_node sf key v"
  "redact_list sf key (blinded_list key vs) = redact_list sf key vs"
  "redact_fields sf out (blinded_fields fs) = redact_fields sf out fs"
  by (induction key v and key vs and fs arbitrary: and and out rule: blinded_blinded_list_blinded_fields.induct)
    (simp_all add: blank_is_free_text)

text \<open>
  The provider learns nothing from identity fields and free text: two documents that differ only
  in what stands under a name, birth date, address, employer or title key, or in strings with white space
  that are not operational codes, leave the trust boundary as the same document.
\<close>

theorem identity_does_not_leave:
  assumes "blinded key v = blinded key w"
  shows "redact_node sf key v = redact_node sf key w"
  by (metis assms redact_blinded(1))

lemma identity_does_not_leave_witness:
  "redact_node sf [] (VObj [(''first_name'', VStr ''Jane''), (''amount'', VInt 5000), (''note'', VStr ''call Jane'')]) =
   redact_node sf [] (VObj [(''first_name'', VInt 7), (''amount'', VInt 5000), (''note'', VStr ''x y'')])"
proof -
  have "blinded [] (VObj [(''first_name'', VStr ''Jane''), (''amount'', VInt 5000), (''note'', VStr ''call Jane'')]) =
    blinded [] (VObj [(''first_name'', VInt 7), (''amount'', VInt 5000), (''note'', VStr ''x y'')])" by code_simp
  then show ?thesis by (rule identity_does_not_leave)
qed

section \<open>What still leaves\<close>

definition operational_code :: "string \<Rightarrow> bool" where
  "operational_code s \<longleftrightarrow> list_ex (\<lambda>f. lower (strip_space s) \<in> set (snd f)) safe_categorical"

fun may_leave :: "jv \<Rightarrow> bool" where
  "may_leave (VStr s) = (operational_code s \<or> \<not> list_ex is_digit s)"
| "may_leave (VList vs) = list_all may_leave vs"
| "may_leave (VObj fs) = list_all (\<lambda>(k, v). may_leave v) fs"
| "may_leave v = (\<not> looks_like_numeric_identity v)"

lemma safe_code_operational: "safe_code key s \<Longrightarrow> operational_code s"
  by (force simp: safe_code_def operational_code_def list_ex_iff split: option.splits dest!: map_of_SomeD)

lemma masks_may_leave [simp]: "\<not> list_ex is_digit identity_mask" "\<not> list_ex is_digit freetext_mask"
  by code_simp+

lemma stripped_may_leave: "\<not> list_ex is_digit (strip_fragment_digits s)"
proof -
  have "\<not> is_digit mask_dot" by code_simp
  then show ?thesis by (induction s) (simp_all add: strip_fragment_digits_def)
qed

lemma token_may_leave: "may_leave (redact_token sf key v) \<or> (\<exists>vs. v = VList vs) \<or> (\<exists>fs. v = VObj fs)"
  by (cases v) (auto simp: redact_token_def stripped_may_leave split: option.splits)

lemma scalar_may_leave: "may_leave (redact_scalar sf key v) \<or> (\<exists>vs. v = VList vs) \<or> (\<exists>fs. v = VObj fs)"
  using token_may_leave [of sf key v] by (cases v) (auto simp: safe_code_operational)

lemma nodes_may_leave:
  "may_leave (redact_node sf key v)"
  "list_all may_leave (redact_list sf key vs)"
  "list_all (may_leave \<circ> snd) out \<Longrightarrow> list_all (may_leave \<circ> snd) (redact_fields sf out fs)"
proof (induction sf key v and sf key vs and sf out fs rule: redact_node_redact_list_redact_fields.induct)
  case (1 sf key fs)
  then show ?case by (simp add: comp_def case_prod_beta')
qed (use scalar_may_leave in \<open>auto simp del: redact_scalar.simps\<close>)

text \<open>C30. 
  Whatever document is redacted, its values carry no identifier of these kinds: every string value is an
  operational code of the closed vocabularies or has no digit at all, so no fragment of a card,
  account or social security number, and no integer value has the shape of a social security number,
  a birth date or a telephone number. The keys of the document are not covered, nor is what else a
  request carries: the rendered prompt, ids and tool schemas.
\<close>

theorem redacted_document_may_leave: "may_leave (redact_node sf key v)"
  by (rule nodes_may_leave)

section \<open>A bare name that leaves\<close>

lemma star_step:
  "rx_match (Star (Sat p)) (pre, c # cs, caps) =
     (if p c then rx_match (Star (Sat p)) (c # pre, cs, caps) @ [(pre, c # cs, caps)] else [(pre, c # cs, caps)])"
  by (simp add: progress_def)

lemma bare_name_chars:
  "ascii_alpha (CHR ''a'')" "ascii_alpha (CHR ''b'')" "ascii_alpha (CHR ''c'')" "ascii_alpha (CHR ''o'')"
  "ascii_alpha (CHR ''m'')" "\<not> ascii_alpha (CHR ''.'')" "\<not> ascii_alpha (CHR ''@'')" "\<not> ascii_alpha (CHR 0x22)"
  "\<not> py_digit (CHR ''@'')" "\<not> py_digit (CHR 0x22)" "\<not> py_digit (CHR ''.'')"
  "re_word (CHR ''a'')" "re_word (CHR ''m'')" "\<not> re_word (CHR 0x22)" "\<not> re_word (CHR ''.'')"
  by code_simp+

lemma email_matches: "rx_match email ([CHR 0x22], ''a@b.com'' @ CHR 0x22 # rest, []) \<noteq> []"
  by (simp add: email_def plus_def star_step bare_name_chars word_at_def then_all_append then_all_cons
      exact_class numeral_2_eq_2 del: rx_match.simps(6))

lemma email_at_start:
  assumes "rest \<noteq> []"
  shows "\<exists>out. sub_from email mask_email [] (CHR 0x22 # ''a@b.com'' @ CHR 0x22 # rest) = CHR 0x22 # mask_dot # out"
proof -
  let ?s = "''a@b.com'' @ CHR 0x22 # rest"
  have "first_match email [] (CHR 0x22 # ?s) = None"
    by (simp add: first_match_def email_def word_at_def bare_name_chars)
  then have skip: "sub_from email mask_email [] (CHR 0x22 # ?s) = CHR 0x22 # sub_from email mask_email [CHR 0x22] ?s"
    by (rule sub_from_skip)
  obtain w m where m: "first_match email [CHR 0x22] ?s = Some (w, m)"
    using email_matches [of rest] by (cases "rx_match email ([CHR 0x22], ?s, [])") (auto simp: first_match_def)
  then have "w \<noteq> []" using email_match by blast
  then have "sub_from email mask_email [CHR 0x22] ?s =
      mask_email w m @ sub_from email mask_email (rev w @ [CHR 0x22]) (drop (length w) ?s)"
    by (rule sub_from_step [OF m])
  then show ?thesis using skip by (simp add: mask_email_def dots_def numeral_eq_Suc)
qed

lemma letters:
  assumes "list_all ascii_alpha s"
  shows "digitless s" "CHR ''@'' \<notin> set s" "\<not> list_ex re_space s" "concat (map escaped_char s) = s"
proof -
  have c: "\<not> py_digit c \<and> c \<noteq> CHR ''%'' \<and> c \<noteq> CHR ''@'' \<and> \<not> re_space c \<and> escaped_char c = [c]" if "ascii_alpha c" for c
    using that
    by (auto simp: ascii_alpha_def py_digit_def re_space_def py_space_def Let_def escaped_char_def mask_dot_def json_char_def
        short_escapes_def char_code_def)
  show "digitless s" "CHR ''@'' \<notin> set s" "\<not> list_ex re_space s"
    using c assms by (auto simp: digitless_def list_all_iff list_ex_iff)
  show "concat (map escaped_char s) = s" using c assms by (induction s) auto
qed

lemma letters_unstripped: "list_all ascii_alpha s \<Longrightarrow> strip_fragment_digits s = s"
  unfolding strip_fragment_digits_def list_all_iff
  by (rule map_idI) (auto simp: ascii_alpha_def is_digit_def py_digit_def)

lemma email_only: "CHR ''@'' \<notin> set s \<Longrightarrow> re_sub email f s = s"
  by (rule re_sub_needs [where P = "\<lambda>c. c = CHR ''@''"]) (auto simp: email_def lit.simps list_all_iff)

lemma bare_name_masked_under_a_plain_key:
  assumes "list_all ascii_alpha s" "s \<noteq> []"
  shows "redact_node sf [] (VObj [(''note'', VStr s)]) = VObj [(''note'', VStr freetext_mask)]"
proof -
  have evals: "\<not> is_identity_key ''note''" "map_of safe_categorical (lower (strip_space ''note'')) = None"
    "is_field_name ''note''" "digitless ''note''" "CHR ''@'' \<notin> set ''note''"
    "digitless (CHR 0x22 # ''note'' @ CHR 0x22 # '': '' @ [CHR 0x22])" "digitless [CHR 0x22]" by code_simp+
  let ?probe = "CHR 0x22 # ''note'' @ CHR 0x22 # '': '' @ json_dumps sf (VStr s)"
  have probe: "?probe = CHR 0x22 # ''note'' @ CHR 0x22 # '': '' @ CHR 0x22 # s @ [CHR 0x22]"
    using letters(4) [OF assms(1)] by (simp add: json_dumps_def escaped_string_def)
  have "digitless ?probe" "CHR ''@'' \<notin> set ?probe"
    unfolding probe using letters(1,2) [OF assms(1)] evals(6,7) by (simp_all add: digitless_def)
  then have "redact ?probe = ?probe" using email_only redact_digitless by metis
  then have "labelled_pass sf ''note'' (VStr s) = None" by (simp add: labelled_pass_def)
  moreover have "redact_key ''note'' = ''note''"
    using evals(3) redact_digitless [OF evals(4)] email_only [OF evals(5)] by (simp add: redact_key_def)
  ultimately show ?thesis
    using letters(3) [OF assms(1)] evals(1,2) assms(2) by (simp add: free_key_def redact_token_def safe_code_def)
qed

text \<open>C32. 
  A bare name is not stopped when its key has the shape of customer data: under the key
  \<open>a@b.com\<close> any word of letters leaves the trust boundary unmasked, because the mask of the key
  shifts the probed text and the value is then redacted without its label and without the final rule that
  masks every other string. Under a plain key the same word is masked.
\<close>

theorem bare_name_leaves_under_a_shaped_key:
  assumes "list_all ascii_alpha s" "s \<noteq> []"
  shows "redact_node sf [] (VObj [(''a@b.com'', VStr s)]) = VObj [(key_mask, VStr s)] \<and>
    redact_node sf [] (VObj [(''note'', VStr s)]) = VObj [(''note'', VStr freetext_mask)]"
proof -
  have evals: "\<not> is_identity_key ''a@b.com''" "map_of safe_categorical (lower (strip_space ''a@b.com'')) = None"
    "digitless ''a@b.com''" "digitless (CHR 0x22 # ''a@b.com'' @ CHR 0x22 # '': '')" by code_simp+
  let ?prefix = "CHR 0x22 # ''a@b.com'' @ CHR 0x22 # '': ''"
  let ?probe = "?prefix @ json_dumps sf (VStr s)"
  have probe: "?probe = CHR 0x22 # ''a@b.com'' @ CHR 0x22 # '': '' @ CHR 0x22 # s @ [CHR 0x22]"
    using letters(4) [OF assms(1)] by (simp add: json_dumps_def escaped_string_def)
  have "digitless (CHR 0x22 # ''a@b.com'' @ CHR 0x22 # '': '' @ [CHR 0x22])" "digitless [CHR 0x22]" by code_simp+
  then have "digitless ?probe" unfolding probe using letters(1) [OF assms(1)] by (simp add: digitless_def)
  then obtain out where out: "redact ?probe = CHR 0x22 # mask_dot # out"
    using email_at_start [of "'': '' @ CHR 0x22 # s @ [CHR 0x22]"] probe redact_digitless unfolding re_sub_def by auto
  have ne: "mask_dot \<noteq> CHR ''a''" by code_simp
  have "redact s = s" using letters(1,2) [OF assms(1)] email_only by (simp add: redact_digitless)
  then have "labelled_pass sf ''a@b.com'' (VStr s) = Some s"
    using out ne probe by (simp add: labelled_pass_def Let_def starts_with_def)
  then have shown: "redact_node sf ''a@b.com'' (VStr s) = VStr s"
    using letters(3) [OF assms(1)] evals(2) letters_unstripped [OF assms(1)]
    by (simp add: redact_token_def)
  have "redact_key ''a@b.com'' = key_mask"
  proof -
    have "re_sub email mask_email ''a@b.com'' = dots 4 @ ''@b.com''" by code_simp
    then have "redact ''a@b.com'' = dots 4 @ ''@b.com''" using redact_digitless [OF evals(3)] by simp
    moreover have "\<not> is_field_name (dots 4 @ ''@b.com'')" by code_simp
    ultimately show ?thesis by (simp add: redact_key_def)
  qed
  then have "redact_node sf [] (VObj [(''a@b.com'', VStr s)]) = VObj [(key_mask, VStr s)]"
    using shown evals(1) by (simp add: free_key_def)
  then show ?thesis using bare_name_masked_under_a_plain_key [OF assms] by blast
qed

lemma bare_name_leaves_under_a_shaped_key_witness:
  "redact_node (\<lambda>_. []) [] (VObj [(''a@b.com'', VStr ''JaneSmith'')]) = VObj [(key_mask, VStr ''JaneSmith'')]"
proof -
  have "list_all ascii_alpha ''JaneSmith''" by code_simp
  then show ?thesis using bare_name_leaves_under_a_shaped_key [of "''JaneSmith''" "\<lambda>_. []"] by simp
qed

end
