(* ===== verification/RequestProps.thy ===== *)
theory RequestProps
  imports RequestBuilder RedactionProps
begin

text \<open>
  The request that is sent: it fits the token budget with room for the answer and drops no more history
  than it must, and it is the same request for callers whose documents differ only in what identifies
  the applicant.
\<close>

section \<open>The budget\<close>

lemma trim_history_result:
  assumes "trim_history sf needed budget ms = (n, kept)"
  shows "kept = drop n ms" "n \<le> length ms"
    "kept = [] \<or> needed + int (history_tokens sf kept) \<le> budget"
    "\<And>i. i < n \<Longrightarrow> budget < needed + int (history_tokens sf (drop i ms))"
proof -
  have "kept = drop n ms \<and> n \<le> length ms \<and> (kept = [] \<or> needed + int (history_tokens sf kept) \<le> budget) \<and>
      (\<forall>i < n. budget < needed + int (history_tokens sf (drop i ms)))"
    using assms
  proof (induction ms arbitrary: n kept)
    case (Cons m ms)
    show ?case
    proof (cases "needed + int (history_tokens sf (m # ms)) \<le> budget")
      case False
      obtain j k where jk: "trim_history sf needed budget ms = (j, k)" by fastforce
      then have n: "n = Suc j" "kept = k" using Cons.prems False by auto
      show ?thesis using Cons.IH [OF jk] False n by (auto simp: less_Suc_eq_0_disj)
    qed (use Cons.prems in auto)
  qed simp
  then show "kept = drop n ms" "n \<le> length ms" "kept = [] \<or> needed + int (history_tokens sf kept) \<le> budget"
    "\<And>i. i < n \<Longrightarrow> budget < needed + int (history_tokens sf (drop i ms))" by blast+
qed

lemma history_tokens_simps [simp]:
  "history_tokens sf [] = 0"
  "history_tokens sf (m # ms) = content_tokens sf (msg_content m) + history_tokens sf ms"
  "history_tokens sf (ms @ ns) = history_tokens sf ms + history_tokens sf ns"
  by (simp_all add: history_tokens_def)

text \<open>The tokens of everything a request carries.\<close>

definition request_tokens :: "(rat \<Rightarrow> string) \<Rightarrow> completion_request \<Rightarrow> nat" where
  "request_tokens sf r =
     estimate_tokens (rq_system r) + history_tokens sf (rq_messages r) + sum_list (map (schema_tokens sf) (rq_tools r))"

definition sends :: "(rat \<Rightarrow> string) \<Rightarrow> builder_config \<Rightarrow> prompt_template \<Rightarrow> message list \<Rightarrow> built_request \<Rightarrow> bool" where
  "sends sf cfg t turns b \<longleftrightarrow>
     (let r = br_request b; n = br_trimmed_history_turns b in
        (\<exists>user. rq_messages r = expand_examples (pt_examples t) @ drop n turns @ [\<lparr>msg_role = ''user'', msg_content = Text user\<rparr>]) \<and>
        br_estimated_input_tokens b = request_tokens sf r \<and>
        int (request_tokens sf r) + rq_max_tokens r \<le> bc_token_budget cfg \<and>
        (\<forall>i < n. bc_token_budget cfg <
           int (request_tokens sf r + history_tokens sf (drop i turns) - history_tokens sf (drop n turns)) + rq_max_tokens r))"

lemma fit_request_sends:
  assumes "fit_request sf cfg t key turns schemas user = Inr b"
  shows "sends sf cfg t turns b"
proof -
  let ?fixed = "fixed_tokens sf t user schemas" and ?budget = "bc_token_budget cfg" and ?max = "bc_max_tokens cfg"
  obtain n kept where trim: "trim_history sf (int ?fixed + ?max) ?budget turns = (n, kept)" by fastforce
  have fits: "int ?fixed + ?max \<le> ?budget"
    using assms by (auto simp: fit_request_def Let_def split: if_splits)
  have b: "b = \<lparr>br_request =
               \<lparr>rq_system = pt_system t,
                rq_messages = expand_examples (pt_examples t) @ kept @ [\<lparr>msg_role = ''user'', msg_content = Text user\<rparr>],
                rq_model = bc_model cfg, rq_max_tokens = ?max, rq_idempotency_key = key, rq_tools = schemas\<rparr>,
             br_estimated_input_tokens = ?fixed + history_tokens sf kept, br_trimmed_history_turns = n\<rparr>"
    using assms fits trim by (simp add: fit_request_def Let_def)
  have tokens: "request_tokens sf (br_request b) = ?fixed + history_tokens sf kept"
    by (simp add: b request_tokens_def fixed_tokens_def content_tokens_def)
  show ?thesis
    using trim_history_result [OF trim] fits unfolding sends_def Let_def tokens
    by (auto simp: b ac_simps)
qed

text \<open>C31. 
  A request that is built fits: the estimate of everything it carries, schemas included, together with
  the room reserved for the answer is within the budget, the reported estimate is that sum, the history
  it carries is what remains of the redacted turns after the oldest were dropped, and with any
  turn fewer dropped it would not have fitted.
\<close>

theorem built_request_fits:
  assumes "build_request sf sv loads cfg t history key tools vars = Inr b"
  shows "\<exists>turns. map_until (redacted_turn sf loads) history = Inr turns \<and> sends sf cfg t turns b"
  using assms fit_request_sends by (fastforce simp: build_request_def split: sum.splits)

definition sample_template :: prompt_template where
  "sample_template = \<lparr>pt_name = ''sample'', pt_version = ''v'', pt_system = ''You help'', pt_user = [Fixed ''explain''],
     pt_required = [], pt_json_vars = [], pt_examples = [], pt_output_schema = None\<rparr>"

definition sample_config :: builder_config where
  "sample_config = \<lparr>bc_model = ''m'', bc_max_tokens = 4, bc_token_budget = 10\<rparr>"

definition sample_turn :: "string \<Rightarrow> jv" where
  "sample_turn s = VObj [(''role'', VStr ''user''), (''content'', VStr s)]"

lemma built_request_fits_witness:
  "\<exists>b turns. build_request (\<lambda>_. []) (\<lambda>_. []) (\<lambda>s. if s = ''{}'' then Some (VObj []) else None) sample_config sample_template
       [sample_turn ''{}'', sample_turn ''{}'', sample_turn ''{}''] ''k'' None [] = Inr b \<and>
     br_trimmed_history_turns b = 1 \<and> sends (\<lambda>_. []) sample_config sample_template turns b"
proof -
  let ?loads = "\<lambda>s. if s = ''{}'' then Some (VObj []) else None"
  let ?h = "[sample_turn ''{}'', sample_turn ''{}'', sample_turn ''{}'']"
  have "digitless ''explain''" by code_simp
  then have r: "redact ''explain'' = ''explain''" using redact_digitless email_only by simp
  have turns: "map_until (redacted_turn (\<lambda>_. []) ?loads) ?h = Inr (replicate 3 \<lparr>msg_role = ''user'', msg_content = Text ''{}''\<rparr>)"
    by code_simp
  have "build_request (\<lambda>_. []) (\<lambda>_. []) ?loads sample_config sample_template ?h ''k'' None [] =
      fit_request (\<lambda>_. []) sample_config sample_template ''k''
        (replicate 3 \<lparr>msg_role = ''user'', msg_content = Text ''{}''\<rparr>) [] ''explain''"
    unfolding build_request_def turns by (simp add: validated_tools_def sample_template_def render_user_def format_part_def r)
  moreover obtain b where b: "fit_request (\<lambda>_. []) sample_config sample_template ''k''
        (replicate 3 \<lparr>msg_role = ''user'', msg_content = Text ''{}''\<rparr>) [] ''explain'' = Inr b"
    "br_trimmed_history_turns b = 1"
    by (rule that [of "projr (fit_request (\<lambda>_. []) sample_config sample_template ''k''
        (replicate 3 \<lparr>msg_role = ''user'', msg_content = Text ''{}''\<rparr>) [] ''explain'')"]) code_simp+
  ultimately have "build_request (\<lambda>_. []) (\<lambda>_. []) ?loads sample_config sample_template ?h ''k'' None [] = Inr b"
    by simp
  from built_request_fits [OF this] show ?thesis using \<open>build_request _ _ _ _ _ _ _ _ _ = Inr b\<close> b(2) by blast
qed

section \<open>Callers the provider cannot tell apart\<close>

definition same_document :: "(string \<Rightarrow> jv option) \<Rightarrow> string \<Rightarrow> string \<Rightarrow> bool" where
  "same_document loads s s' \<longleftrightarrow>
     s = s' \<or> (\<exists>fs fs'. loads s = Some (VObj fs) \<and> loads s' = Some (VObj fs') \<and> blinded [] (VObj fs) = blinded [] (VObj fs'))"

fun alike_text :: "(string \<Rightarrow> jv option) \<Rightarrow> jv \<Rightarrow> jv \<Rightarrow> bool" where
  "alike_text loads (VStr s) (VStr s') = same_document loads s s'"
| "alike_text loads v w = (v = w)"

fun alike_value :: "(string \<Rightarrow> jv option) \<Rightarrow> jv \<Rightarrow> jv \<Rightarrow> bool" where
  "alike_value loads (VStr s) (VStr s') = same_document loads s s'"
| "alike_value loads (VObj fs) (VObj fs') = (blinded [] (VObj fs) = blinded [] (VObj fs'))"
| "alike_value loads v w = (v = w)"

definition alike_block :: "(string \<Rightarrow> jv option) \<Rightarrow> jv \<Rightarrow> jv \<Rightarrow> bool" where
  "alike_block loads b c \<longleftrightarrow>
     is_object b = is_object c \<and> keys_of b = keys_of c \<and>
     (\<forall>k. k \<noteq> ''input'' \<and> k \<noteq> ''content'' \<longrightarrow> jfield b k = jfield c k) \<and>
     rel_option (alike_value loads) (jfield b ''input'') (jfield c ''input'') \<and>
     rel_option (alike_value loads) (jfield b ''content'') (jfield c ''content'')"

fun alike_content :: "(string \<Rightarrow> jv option) \<Rightarrow> jv \<Rightarrow> jv \<Rightarrow> bool" where
  "alike_content loads (VList bs) (VList cs) = list_all2 (alike_block loads) bs cs"
| "alike_content loads v w = alike_text loads v w"

definition alike_turn :: "(string \<Rightarrow> jv option) \<Rightarrow> jv \<Rightarrow> jv \<Rightarrow> bool" where
  "alike_turn loads t u \<longleftrightarrow>
     jfield t ''role'' = jfield u ''role'' \<and>
     rel_option (alike_content loads) (jfield t ''content'') (jfield u ''content'')"

lemma redact_same_blinded: "blinded key v = blinded key w \<Longrightarrow> redact_node sf key v = redact_node sf key w"
  by (metis redact_blinded(1))

lemma redact_same_fields: "blinded_fields fs = blinded_fields gs \<Longrightarrow> redact_fields sf [] fs = redact_fields sf [] gs"
  by (metis redact_blinded(3))

lemma same_document_redacted:
  assumes "same_document loads s s'"
  shows "redact_json sf loads s = redact_json sf loads s'" "json_object loads s = json_object loads s'"
proof -
  consider "s = s'" | fs fs' where "loads s = Some (VObj fs)" "loads s' = Some (VObj fs')"
    "redact_fields sf [] fs = redact_fields sf [] fs'"
    using assms redact_same_fields unfolding same_document_def blinded.simps jv.inject by metis
  then show "redact_json sf loads s = redact_json sf loads s'" "json_object loads s = json_object loads s'"
    by (cases; simp add: redact_json_def json_object_def)+
qed

lemma alike_value_cases:
  assumes "alike_value loads v w"
  obtains "v = w" | s s' where "v = VStr s" "w = VStr s'" "same_document loads s s'"
    | fs fs' where "v = VObj fs" "w = VObj fs'" "\<And>sf. redact_fields sf [] fs = redact_fields sf [] fs'"
  using assms by (cases v; cases w) (auto dest: redact_same_fields)

lemma alike_fieldE:
  assumes "rel_option (alike_value loads) a b"
  obtains "a = None" "b = None" | v w where "a = Some v" "b = Some w" "alike_value loads v w"
  using assms by (cases a; cases b) auto

lemma alike_input:
  assumes "alike_block loads b c"
  shows "is_object (get_or b ''input'' (VObj [])) = is_object (get_or c ''input'' (VObj []))"
    "is_object (get_or b ''input'' (VObj [])) \<Longrightarrow>
     redact_node sf [] (get_or b ''input'' (VObj [])) = redact_node sf [] (get_or c ''input'' (VObj []))"
proof -
  have "rel_option (alike_value loads) (jfield b ''input'') (jfield c ''input'')"
    using assms by (simp add: alike_block_def)
  then have "is_object (get_or b ''input'' (VObj [])) = is_object (get_or c ''input'' (VObj [])) \<and>
    (is_object (get_or b ''input'' (VObj [])) \<longrightarrow>
     redact_node sf [] (get_or b ''input'' (VObj [])) = redact_node sf [] (get_or c ''input'' (VObj [])))"
  proof (cases rule: alike_fieldE)
    case (2 v w)
    from 2(3) show ?thesis by (cases rule: alike_value_cases) (simp_all add: get_or_def 2(1,2))
  qed (simp add: get_or_def)
  then show "is_object (get_or b ''input'' (VObj [])) = is_object (get_or c ''input'' (VObj []))"
    "is_object (get_or b ''input'' (VObj [])) \<Longrightarrow>
     redact_node sf [] (get_or b ''input'' (VObj [])) = redact_node sf [] (get_or c ''input'' (VObj []))"
    by blast+
qed

lemma alike_result_content:
  assumes "alike_block loads b c"
  shows "(\<exists>e. result_content loads (jfield b ''content'') = Inl e \<and> result_content loads (jfield c ''content'') = Inl e) \<or>
    (\<exists>v w. result_content loads (jfield b ''content'') = Inr v \<and> result_content loads (jfield c ''content'') = Inr w \<and>
       redact_node sf [] v = redact_node sf [] w)"
proof -
  have "rel_option (alike_value loads) (jfield b ''content'') (jfield c ''content'')"
    using assms by (simp add: alike_block_def)
  then show ?thesis
  proof (cases rule: alike_fieldE)
    case (2 v w)
    from 2(3) show ?thesis
    proof (cases rule: alike_value_cases)
      case (2 s s')
      consider "s = s'" | fs fs' where "loads s = Some (VObj fs)" "loads s' = Some (VObj fs')"
        "redact_fields sf [] fs = redact_fields sf [] fs'"
        using 2(3) redact_same_fields unfolding same_document_def blinded.simps jv.inject by metis
      then show ?thesis
        by cases (simp_all add: result_content_def json_object_def \<open>jfield b ''content'' = Some v\<close>
            \<open>jfield c ''content'' = Some w\<close> 2(1,2))
    qed (use 2 in \<open>auto simp: result_content_def split: jv.splits\<close>)
  qed (simp add: result_content_def)
qed

lemma alike_block_redacted:
  assumes "alike_block loads b c"
  shows "redacted_block sf loads role b = redacted_block sf loads role c"
proof -
  have same: "is_object b = is_object c" "keys_of b = keys_of c"
    "jfield b ''type'' = jfield c ''type''" "jfield b ''id'' = jfield c ''id''" "jfield b ''name'' = jfield c ''name''"
    "jfield b ''tool_use_id'' = jfield c ''tool_use_id''" "jfield b ''is_error'' = jfield c ''is_error''"
    using assms by (simp_all add: alike_block_def)
  have use: "redacted_tool_use sf b = redacted_tool_use sf c"
    using alike_input(1) [OF assms] alike_input(2) [OF assms, of sf] same by (auto simp: redacted_tool_use_def)
  have result: "redacted_tool_result sf loads b = redacted_tool_result sf loads c"
    using alike_result_content [OF assms, of sf] same by (auto simp: redacted_tool_result_def)
  show ?thesis using use result same by (simp only: redacted_block_def Let_def)
qed

lemma map_until_same: "list_all2 R xs ys \<Longrightarrow> (\<And>x y. R x y \<Longrightarrow> f x = f y) \<Longrightarrow> map_until f xs = map_until f ys"
  by (induction rule: list_all2_induct) (simp_all cong: sum.case_cong)

lemma alike_turn_redacted:
  assumes "alike_turn loads t u"
  shows "redacted_turn sf loads t = redacted_turn sf loads u"
proof -
  have role: "turn_role t = turn_role u" using assms by (simp add: alike_turn_def turn_role_def)
  have rel: "rel_option (alike_content loads) (jfield t ''content'') (jfield u ''content'')"
    using assms by (simp add: alike_turn_def)
  have blocks: "redacted_blocks sf loads r bs = redacted_blocks sf loads r cs" if "list_all2 (alike_block loads) bs cs" for r bs cs
    using map_until_same [OF that, of "redacted_block sf loads r"] alike_block_redacted that
    by (auto simp: redacted_blocks_def)
  show ?thesis
  proof (cases "jfield t ''content''")
    case None
    then show ?thesis using rel by (simp add: redacted_turn_def)
  next
    case (Some v)
    then obtain w where w: "jfield u ''content'' = Some w" "alike_content loads v w"
      using rel by (auto simp: option_rel_Some1)
    consider "v = w" | s s' where "v = VStr s" "w = VStr s'" "same_document loads s s'"
      | bs cs where "v = VList bs" "w = VList cs" "list_all2 (alike_block loads) bs cs"
      using w(2) by (cases v; cases w) auto
    then show ?thesis
    proof cases
      case (2 s s')
      show ?thesis using Some w(1) role 2 same_document_redacted(1) [OF 2(3), of sf] same_document_redacted(2) [OF 2(3)]
        by (simp add: redacted_turn_def cong: sum.case_cong)
    next
      case (3 bs cs)
      show ?thesis using Some w(1) role 3 blocks [OF 3(3)] by (simp add: redacted_turn_def cong: sum.case_cong)
    qed (simp only: redacted_turn_def Some w(1) role)
  qed
qed

definition alike_vars :: "(string \<Rightarrow> jv option) \<Rightarrow> string list \<Rightarrow> (string \<times> jv) list \<Rightarrow> (string \<times> jv) list \<Rightarrow> bool" where
  "alike_vars loads xs vars vars' \<longleftrightarrow>
     (\<forall>k. if k \<in> set xs then rel_option (alike_text loads) (map_of vars k) (map_of vars' k)
          else map_of vars k = map_of vars' k)"

lemma alike_text_redacted:
  "alike_text loads v w \<Longrightarrow>
    redact_json_var sf loads x (case v of VStr s \<Rightarrow> s | _ \<Rightarrow> json_dumps sf v) =
    redact_json_var sf loads x (case w of VStr s \<Rightarrow> s | _ \<Rightarrow> json_dumps sf w)"
  by (cases v; cases w) (auto simp: redact_json_var_def dest: same_document_redacted)

lemma alike_text_refl: "alike_text loads v v"
  by (cases v) (simp_all add: same_document_def)

lemma redact_vars_same:
  "alike_vars loads xs vars vars' \<Longrightarrow>
    (\<exists>e. redact_vars sf loads xs vars = Inl e \<and> redact_vars sf loads xs vars' = Inl e) \<or>
    (\<exists>r r'. redact_vars sf loads xs vars = Inr r \<and> redact_vars sf loads xs vars' = Inr r' \<and> map_of r = map_of r')"
proof (induction xs arbitrary: vars vars')
  case Nil
  then show ?case by (auto simp: alike_vars_def)
next
  case (Cons x xs)
  have rel: "rel_option (alike_text loads) (map_of vars x) (map_of vars' x)"
    using Cons.prems unfolding alike_vars_def by (metis list.set_intros(1))
  show ?case
  proof (cases "map_of vars x")
    case None
    then have "map_of vars' x = None" using rel by simp
    moreover have "alike_vars loads xs vars vars'"
      unfolding alike_vars_def
    proof
      fix k
      show "if k \<in> set xs then rel_option (alike_text loads) (map_of vars k) (map_of vars' k)
          else map_of vars k = map_of vars' k"
        using Cons.prems None calculation unfolding alike_vars_def by (cases "k = x") (auto dest: spec [of _ k])
    qed
    ultimately show ?thesis using Cons.IH None by simp
  next
    case (Some v)
    then obtain w where w: "map_of vars' x = Some w" "alike_text loads v w"
      using rel by (auto simp: option_rel_Some1)
    have step: "alike_vars loads xs (AList.update x s vars) (AList.update x s vars')" for s
      using Cons.prems unfolding alike_vars_def
      by (simp add: update_conv' alike_text_refl)
    show ?thesis
      using Some w(1) alike_text_redacted [OF w(2)] Cons.IH [OF step] by (simp split: sum.split)
  qed
qed

lemma render_user_same: "map_of r = map_of r' \<Longrightarrow> render_user sv t r = render_user sv t r'"
proof -
  assume eq: "map_of r = map_of r'"
  have "format_part sv r = format_part sv r'" by (rule ext) (simp only: format_part_def eq)
  then show ?thesis by (simp only: render_user_def eq)
qed

text \<open>C29. 
  The provider cannot tell two applicants apart by who they are: if the histories and the prompt
  variables of two calls differ only in documents that are equal once their identity fields and
  free texts are blanked, then the same request is sent, or the same error is raised.
\<close>

theorem requests_are_blind_to_identity:
  assumes "list_all2 (alike_turn loads) history history'"
    and "alike_vars loads (pt_json_vars t) vars vars'"
  shows "build_request sf sv loads cfg t history key tools vars = build_request sf sv loads cfg t history' key tools vars'"
proof -
  have same: "map_until (redacted_turn sf loads) history = map_until (redacted_turn sf loads) history'"
    by (rule map_until_same [OF assms(1)]) (rule alike_turn_redacted)
  then show ?thesis
    using redact_vars_same [OF assms(2), of sf]
  proof (elim disjE exE conjE)
    fix r r'
    assume r: "redact_vars sf loads (pt_json_vars t) vars = Inr r"
      "redact_vars sf loads (pt_json_vars t) vars' = Inr r'" and eq: "map_of r = map_of r'"
    show ?thesis unfolding build_request_def same r by (simp add: render_user_same [OF eq] cong: sum.case_cong)
  next
    fix e
    assume e: "redact_vars sf loads (pt_json_vars t) vars = Inl e"
      "redact_vars sf loads (pt_json_vars t) vars' = Inl e"
    show ?thesis unfolding build_request_def same e by simp
  qed
qed

lemma requests_are_blind_to_identity_witness:
  "build_request (\<lambda>_. []) (\<lambda>_. []) (\<lambda>s. Some (VObj [(''last_name'', VStr s), (''amount'', VInt 9)])) sample_config
     sample_template [sample_turn ''Jane''] ''k'' None [] =
   build_request (\<lambda>_. []) (\<lambda>_. []) (\<lambda>s. Some (VObj [(''last_name'', VStr s), (''amount'', VInt 9)])) sample_config
     sample_template [sample_turn ''Bob''] ''k'' None []"
proof -
  let ?loads = "\<lambda>s. Some (VObj [(''last_name'', VStr s), (''amount'', VInt 9)])"
  have "blinded [] (VObj [(''last_name'', VStr ''Jane''), (''amount'', VInt 9)]) =
    blinded [] (VObj [(''last_name'', VStr ''Bob''), (''amount'', VInt 9)])" by code_simp
  then have "alike_turn ?loads (sample_turn ''Jane'') (sample_turn ''Bob'')"
    by (simp add: alike_turn_def sample_turn_def same_document_def)
  moreover have "alike_vars ?loads (pt_json_vars sample_template) [] []" by (simp add: alike_vars_def)
  ultimately show ?thesis by (intro requests_are_blind_to_identity) simp_all
qed

end
