(* ===== verification/LlmClient.thy ===== *)
theory LlmClient
  imports RequestBuilder
begin

text \<open>
  One model call of origination-service: \<^verbatim>\<open>app/llm/adapter.py\<close> (errors and tool calls of the provider's SDK),
  \<^verbatim>\<open>app/llm/transport.py\<close> (bounded retries), \<^verbatim>\<open>app/llm/validator.py\<close> (guards and schema check) and
  \<^verbatim>\<open>ClaudeClient.complete\<close> of \<^verbatim>\<open>app/llm/client.py\<close>. What the provider does at each attempt is an
  argument, as are \<open>loads\<close> (\<^verbatim>\<open>json.loads\<close>) and \<open>re_match\<close>, the \<^verbatim>\<open>re.match\<close> of a schema's own pattern.
\<close>

section \<open>The provider\<close>

datatype sdk_error = Api_timeout | Api_status int | Api_connection

definition translate_anthropic_error :: "sdk_error \<Rightarrow> llm_error" where
  "translate_anthropic_error e =
     (case e of
        Api_timeout \<Rightarrow> Llm_timeout
      | Api_connection \<Rightarrow> Llm_http_error 0 True
      | Api_status s \<Rightarrow> Llm_http_error s (s = 429 \<or> 500 \<le> s \<and> s < 600))"

record completion =
  cp_text :: string
  cp_tool_calls :: "jv list"

text \<open>The content blocks of an answer are objects; a block that is not a tool call is passed over.\<close>

definition tool_call :: "jv \<Rightarrow> llm_error + jv" where
  "tool_call block =
     (case str_field block ''id'' of
        None \<Rightarrow> Inl (Llm_error ''tool_use id'')
      | Some i \<Rightarrow>
          if i = [] then Inl (Llm_error ''tool_use id'')
          else (case str_field block ''name'' of
              None \<Rightarrow> Inl (Llm_error ''tool_use name'')
            | Some n \<Rightarrow>
                if n = [] then Inl (Llm_error ''tool_use name'')
                else (let raw = get_or block ''input'' VNull; input = (if raw = VNull then VObj [] else raw)
                      in if \<not> is_object input then Inl (Llm_error ''tool_use input'')
                         else Inr (VObj [(''id'', VStr i), (''name'', VStr n), (''input'', input)]))))"

definition tool_calls :: "jv list \<Rightarrow> llm_error + jv list" where
  "tool_calls content = map_until tool_call (filter (\<lambda>b. jfield b ''type'' = Some (VStr ''tool_use'')) content)"

definition block_text :: "jv \<Rightarrow> string" where
  "block_text b = (case str_field b ''text'' of Some t \<Rightarrow> t | None \<Rightarrow> [])"

definition adapter_complete :: "sdk_error + jv list \<Rightarrow> llm_error + completion" where
  "adapter_complete answer =
     (case answer of
        Inl e \<Rightarrow> Inl (translate_anthropic_error e)
      | Inr content \<Rightarrow>
          (case tool_calls content of Inl e \<Rightarrow> Inl e
           | Inr calls \<Rightarrow>
               Inr \<lparr>cp_text = concat (map block_text (filter (\<lambda>b. jfield b ''type'' = Some (VStr ''text'')) content)),
                    cp_tool_calls = calls\<rparr>))"

section \<open>Retries\<close>

definition backoff_base :: rat where
  "backoff_base = 2"

definition backoff_delay :: "nat \<Rightarrow> rat \<Rightarrow> rat" where
  "backoff_delay attempt r = (let ceiling = backoff_base ^ attempt in ceiling / 2 + r * (ceiling / 2))"

fun retryable :: "llm_error \<Rightarrow> bool" where
  "retryable (Llm_http_error s r) = r"
| "retryable e = False"

text \<open>The result and the delays slept; \<open>answers n\<close> is what attempt \<open>n\<close> returns, \<open>rng n\<close> the draw after it.\<close>

function call_with_retry ::
  "(nat \<Rightarrow> llm_error + completion) \<Rightarrow> (nat \<Rightarrow> rat) \<Rightarrow> int \<Rightarrow> nat \<Rightarrow> (llm_error + completion) \<times> rat list" where
  "call_with_retry answers rng max_retries attempt =
     (case answers attempt of
        Inr c \<Rightarrow> (Inr c, [])
      | Inl e \<Rightarrow>
          if \<not> retryable e \<or> max_retries \<le> int attempt then (Inl e, [])
          else (let (r, ds) = call_with_retry answers rng max_retries (Suc attempt)
                in (r, backoff_delay attempt (rng attempt) # ds)))"
  by auto
termination
  by (relation "measure (\<lambda>(answers, rng, m, attempt). nat (m - int attempt))") auto

declare call_with_retry.simps [simp del]

section \<open>Guards and the schema\<close>

definition max_output_chars :: nat where
  "max_output_chars = 20000"

definition upper :: rx where
  "upper = Sat (\<lambda>c. 65 \<le> char_code c \<and> char_code c \<le> 90)"

definition lower_class :: rx where
  "lower_class = Sat (\<lambda>c. 97 \<le> char_code c \<and> char_code c \<le> 122)"

definition street_address :: rx where
  "street_address = seqs [Word_edge, Rep 1 5 digit, plus space,
     Rep 1 3 (seqs [upper, Star (Sat (\<lambda>c. ascii_alpha c \<or> c \<in> set ([CHR 0x27] @ ''.-''))), plus space]),
     alts (map lit [''Street'', ''St'', ''Avenue'', ''Ave'', ''Road'', ''Rd'', ''Boulevard'', ''Blvd'', ''Lane'', ''Ln'', ''Drive'',
       ''Dr'', ''Court'', ''Ct'', ''Way'', ''Place'', ''Pl'', ''Terrace'', ''Ter'', ''Circle'', ''Cir'', ''Highway'', ''Hwy'',
       ''Parkway'', ''Pkwy'', ''Trail'', ''Trl'', ''Square'', ''Sq'', ''Loop'', ''Alley'', ''Aly'']),
     Word_edge, opt (lit ''.'')]"

definition labeled_name :: rx where
  "labeled_name = seqs [Word_edge,
     alts [ilit ''applicant'', ilit ''borrower'', seqs [ilit ''co'', opt (lit ''-''), ilit ''borrower''],
       seqs [ilit ''co'', opt (lit ''-''), ilit ''applicant''], ilit ''customer'', ilit ''guarantor'',
       seqs [ilit ''co'', opt (lit ''-''), ilit ''signer''], ilit ''cosigner'',
       seqs [ilit ''full'', opt (one_of '' _-''), ilit ''name''], ilit ''name''],
     Word_edge, plus (Sat (\<lambda>c. c = CHR '':'' \<or> re_space c)),
     upper, plus lower_class, Rep 0 2 (seqs [plus space, upper, opt (lit ''.'')]),
     plus (seqs [plus space, upper, plus lower_class])]"

definition guard_output :: "string \<Rightarrow> llm_error option" where
  "guard_output s =
     (if strip_space s = [] then Some (Validation_failed ''empty'')
      else if max_output_chars < length s then Some (Validation_failed ''too long'')
      else if redact s \<noteq> s then Some (Validation_failed ''PII'')
      else if re_search street_address s then Some (Validation_failed ''street address'')
      else if re_search labeled_name s then Some (Validation_failed ''labeled name'')
      else None)"

definition fence_open :: rx where
  "fence_open = seqs [lit ''```'', Star (Sat (\<lambda>c. ascii_alpha c \<or> py_digit c \<or> c \<in> set ''_-'')),
     Star (one_of [CHR '' '', CHR 0x09]), opt (lit [CHR 0x0A])]"

definition fence_close :: rx where
  "fence_close = seqs [opt (lit [CHR 0x0A]), lit ''```'', At_end]"

definition drop_fences :: "string \<Rightarrow> string" where
  "drop_fences s =
     (let cleaned = strip_space s in
      if \<not> starts_with cleaned ''```'' then cleaned
      else (let inner = (case first_match fence_open [] cleaned of None \<Rightarrow> cleaned | Some (w, m) \<Rightarrow> drop (length w) cleaned)
            in strip_space (re_sub fence_close (\<lambda>_ _. []) inner)))"

definition parse_json :: "(string \<Rightarrow> jv option) \<Rightarrow> string \<Rightarrow> llm_error + jv" where
  "parse_json loads s =
     (case loads (drop_fences s) of
        None \<Rightarrow> Inl (Validation_failed ''not JSON'')
      | Some v \<Rightarrow> if is_object v then Inr v else Inl (Validation_failed ''not an object''))"

text \<open>Python's \<^verbatim>\<open>==\<close> on scalars: numbers and truth values are compared by their value.\<close>

fun number_of :: "jv \<Rightarrow> rat option" where
  "number_of (VInt i) = Some (of_int i)"
| "number_of (VFloat x) = Some x"
| "number_of (VBool b) = Some (if b then 1 else 0)"
| "number_of v = None"

definition py_equal :: "jv \<Rightarrow> jv \<Rightarrow> bool" where
  "py_equal v w \<longleftrightarrow>
     (case (number_of v, number_of w) of (Some x, Some y) \<Rightarrow> x = y | (None, None) \<Rightarrow> v = w | _ \<Rightarrow> False)"

fun fields_of :: "jv \<Rightarrow> (string \<times> jv) list" where
  "fields_of (VObj fs) = fs"
| "fields_of v = []"

fun items_of :: "jv \<Rightarrow> jv list" where
  "items_of (VList vs) = vs"
| "items_of v = []"

definition keyword :: "jv \<Rightarrow> string \<Rightarrow> bool" where
  "keyword schema t \<longleftrightarrow> jfield schema ''type'' = Some (VStr t)"

definition enum_ok :: "jv \<Rightarrow> jv \<Rightarrow> bool" where
  "enum_ok schema v \<longleftrightarrow>
     (case jfield schema ''enum'' of None \<Rightarrow> True | Some e \<Rightarrow> list_ex (py_equal v) (items_of e))"

text \<open>The tests of one node, without those below it.\<close>

definition kind_ok :: "(string \<Rightarrow> string \<Rightarrow> bool) \<Rightarrow> jv \<Rightarrow> jv \<Rightarrow> bool" where
  "kind_ok re_match schema v =
     (if keyword schema ''object'' then
        is_object v \<and>
        list_all (\<lambda>k. case k of VStr s \<Rightarrow> s \<in> set (keys_of v) | _ \<Rightarrow> False) (items_of (get_or schema ''required'' (VList []))) \<and>
        (jfield schema ''additionalProperties'' = Some (VBool False) \<longrightarrow>
           set (keys_of v) \<subseteq> set (keys_of (get_or schema ''properties'' (VObj []))))
      else if keyword schema ''array'' then (case v of VList vs \<Rightarrow> True | _ \<Rightarrow> False)
      else if keyword schema ''string'' then
        (case v of VStr s \<Rightarrow>
           (case jfield schema ''pattern'' of Some (VStr p) \<Rightarrow> re_match p s | _ \<Rightarrow> True) | _ \<Rightarrow> False)
      else if keyword schema ''number'' then (case v of VInt i \<Rightarrow> True | VFloat x \<Rightarrow> True | _ \<Rightarrow> False)
      else if keyword schema ''integer'' then (case v of VInt i \<Rightarrow> True | _ \<Rightarrow> False)
      else if keyword schema ''boolean'' then (case v of VBool b \<Rightarrow> True | _ \<Rightarrow> False)
      else True)"

function (sequential) check :: "(string \<Rightarrow> string \<Rightarrow> bool) \<Rightarrow> jv \<Rightarrow> jv \<Rightarrow> bool"
  and check_fields :: "(string \<Rightarrow> string \<Rightarrow> bool) \<Rightarrow> jv \<Rightarrow> (string \<times> jv) list \<Rightarrow> bool"
  and check_items :: "(string \<Rightarrow> string \<Rightarrow> bool) \<Rightarrow> jv \<Rightarrow> jv list \<Rightarrow> bool" where
  "check m schema (VObj fs) =
     (kind_ok m schema (VObj fs) \<and> enum_ok schema (VObj fs) \<and>
      (keyword schema ''object'' \<longrightarrow> check_fields m (get_or schema ''properties'' (VObj [])) fs))"
| "check m schema (VList vs) =
     (kind_ok m schema (VList vs) \<and> enum_ok schema (VList vs) \<and>
      (keyword schema ''array'' \<longrightarrow> jtruthy (get_or schema ''items'' VNull) \<longrightarrow>
         check_items m (get_or schema ''items'' VNull) vs))"
| "check m schema v = (kind_ok m schema v \<and> enum_ok schema v)"
| "check_fields m props [] = True"
| "check_fields m props ((k, x) # fs) =
     ((case jfield props k of None \<Rightarrow> True | Some sub \<Rightarrow> check m sub x) \<and> check_fields m props fs)"
| "check_items m schema [] = True"
| "check_items m schema (x # xs) = (check m schema x \<and> check_items m schema xs)"
  by pat_completeness auto
termination
  by (relation "measure (\<lambda>a. case a of
        Inl (m, schema, v) \<Rightarrow> size v
      | Inr (Inl (m, props, fs)) \<Rightarrow> size_list (size_prod (\<lambda>_. 0) size) fs
      | Inr (Inr (m, schema, vs)) \<Rightarrow> size_list size vs)") auto

definition validate_structured ::
  "(rat \<Rightarrow> string) \<Rightarrow> (string \<Rightarrow> jv option) \<Rightarrow> (string \<Rightarrow> string \<Rightarrow> bool) \<Rightarrow> string \<Rightarrow> jv \<Rightarrow> llm_error + jv" where
  "validate_structured show_float loads re_match s schema =
     (case guard_output s of Some e \<Rightarrow> Inl e
      | None \<Rightarrow>
     (case parse_json loads s of Inl e \<Rightarrow> Inl e
      | Inr v \<Rightarrow>
     (case guard_output (json_dumps_plain show_float v) of Some e \<Rightarrow> Inl e
      | None \<Rightarrow> if check re_match schema v then Inr v else Inl (Validation_failed ''schema''))))"

section \<open>One completion\<close>

definition is_text_tool_action :: "(string \<Rightarrow> jv option) \<Rightarrow> string \<Rightarrow> bool" where
  "is_text_tool_action loads s \<longleftrightarrow>
     strip_space s \<noteq> [] \<and>
     (case loads s of None \<Rightarrow> False | Some v \<Rightarrow> is_object v \<and> jfield v ''action'' = Some (VStr ''tool''))"

definition tool_action :: "jv list \<Rightarrow> jv list \<Rightarrow> llm_error + jv" where
  "tool_action calls sent =
     (if 1 < length calls then Inl (Llm_error ''several tool calls'')
      else (let call = hd calls in
        if jfield call ''name'' \<notin> set (map (\<lambda>t. jfield t ''name'') sent) then Inl (Llm_error ''tool not bound'')
        else Inr (VObj [(''action'', VStr ''tool''), (''tool'', get_or call ''name'' VNull),
                        (''input'', if jtruthy (get_or call ''input'' VNull) then get_or call ''input'' VNull else VObj []),
                        (''tool_use_id'', get_or call ''id'' VNull)])))"

text \<open>How a completion was served, which the code stamps on its span.\<close>

datatype served = Tool_turn | Answered | Fell_back

record client_config = builder_config +
  cc_max_retries :: int

record client_env =
  ce_show_float :: "rat \<Rightarrow> string"
  ce_show_value :: "jv \<Rightarrow> string"
  ce_loads :: "string \<Rightarrow> jv option"
  ce_re_match :: "string \<Rightarrow> string \<Rightarrow> bool"
  ce_registry :: "(string \<times> prompt_template) list"
  ce_provider :: "completion_request \<Rightarrow> nat \<Rightarrow> sdk_error + jv list"
  ce_rng :: "nat \<Rightarrow> rat"

definition served_output :: "client_env \<Rightarrow> prompt_template \<Rightarrow> jv option \<Rightarrow> string \<Rightarrow> llm_error + served \<times> jv" where
  "served_output env t fallback s =
     (let result =
        (case pt_output_schema t of
           Some schema \<Rightarrow>
             if jtruthy schema then validate_structured (ce_show_float env) (ce_loads env) (ce_re_match env) s schema
             else (case guard_output s of Some e \<Rightarrow> Inl e | None \<Rightarrow> Inr (VStr s))
         | None \<Rightarrow> (case guard_output s of Some e \<Rightarrow> Inl e | None \<Rightarrow> Inr (VStr s)))
      in case result of
           Inr v \<Rightarrow> Inr (Answered, v)
         | Inl e \<Rightarrow> (case fallback of Some f \<Rightarrow> Inr (Fell_back, f) | None \<Rightarrow> Inl e))"

definition transport :: "client_env \<Rightarrow> client_config \<Rightarrow> completion_request \<Rightarrow> (llm_error + completion) \<times> rat list" where
  "transport env cfg r =
     call_with_retry (\<lambda>n. adapter_complete (ce_provider env r n)) (ce_rng env) (cc_max_retries cfg) 0"

definition complete ::
  "client_env \<Rightarrow> client_config \<Rightarrow> string \<Rightarrow> jv list \<Rightarrow> string \<Rightarrow> jv option \<Rightarrow> jv option \<Rightarrow>
   (string \<times> jv) list \<Rightarrow> llm_error + served \<times> jv" where
  "complete env cfg name history key fallback tools vars =
     (case map_of (ce_registry env) name of
        None \<Rightarrow> Inl (Key_error name)
      | Some t \<Rightarrow>
     (case build_request (ce_show_float env) (ce_show_value env) (ce_loads env) (builder_config.truncate cfg)
             t history key tools vars of
        Inl e \<Rightarrow> Inl e
      | Inr b \<Rightarrow>
     (case fst (transport env cfg (br_request b)) of
        Inl e \<Rightarrow> Inl e
      | Inr c \<Rightarrow>
          if cp_tool_calls c \<noteq> [] then
            (case tool_action (cp_tool_calls c) (rq_tools (br_request b)) of Inl e \<Rightarrow> Inl e | Inr v \<Rightarrow> Inr (Tool_turn, v))
          else if rq_tools (br_request b) \<noteq> [] \<and> is_text_tool_action (ce_loads env) (cp_text c)
          then Inl (Llm_error ''tool call as text'')
          else served_output env t fallback (cp_text c))))"

end
