(* ===== verification/LlmProps.thy ===== *)
theory LlmProps
  imports LlmClient RequestProps
begin

text \<open>
  What one model call guarantees: a bounded number of attempts, retried only after errors that may pass,
  and an answer that went through every guard, or the caller's own fallback.
\<close>

section \<open>Retries\<close>

lemma call_with_retry_run:
  assumes "call_with_retry answers rng m a = (r, ds)"
  shows "r = answers (a + length ds)" "length ds \<le> nat (m - int a)"
    "\<And>i. i < length ds \<Longrightarrow> \<exists>e. answers (a + i) = Inl e \<and> retryable e"
    "\<And>i. i < length ds \<Longrightarrow> ds ! i = backoff_delay (a + i) (rng (a + i))"
    "\<And>e. r = Inl e \<Longrightarrow> retryable e \<Longrightarrow> length ds = nat (m - int a)"
proof -
  have "r = answers (a + length ds) \<and> length ds \<le> nat (m - int a) \<and>
      (\<forall>i < length ds. (\<exists>e. answers (a + i) = Inl e \<and> retryable e) \<and> ds ! i = backoff_delay (a + i) (rng (a + i))) \<and>
      (\<forall>e. r = Inl e \<longrightarrow> retryable e \<longrightarrow> length ds = nat (m - int a))"
    using assms
  proof (induction answers rng m a arbitrary: r ds rule: call_with_retry.induct)
    case (1 answers rng m a)
    show ?case
    proof (cases "answers a")
      case (Inr c)
      then show ?thesis using 1(2) by (auto simp: call_with_retry.simps [of answers])
    next
      case (Inl e)
      show ?thesis
      proof (cases "\<not> retryable e \<or> m \<le> int a")
        case True
        then show ?thesis using 1(2) Inl by (auto simp: call_with_retry.simps [of answers])
      next
        case False
        obtain r' ds' where rest: "call_with_retry answers rng m (Suc a) = (r', ds')" by fastforce
        have eqs: "r = r'" "ds = backoff_delay a (rng a) # ds'"
          using 1(2) Inl False rest by (simp_all add: call_with_retry.simps [of answers _ _ a])
        have IH: "r' = answers (Suc a + length ds')" "length ds' \<le> nat (m - int (Suc a))"
          "\<forall>i < length ds'. (\<exists>e. answers (Suc a + i) = Inl e \<and> retryable e) \<and> ds' ! i = backoff_delay (Suc a + i) (rng (Suc a + i))"
          "\<forall>e. r' = Inl e \<longrightarrow> retryable e \<longrightarrow> length ds' = nat (m - int (Suc a))"
          using 1(1) [OF Inl False rest] by blast+
        have "(\<exists>e. answers (a + i) = Inl e \<and> retryable e) \<and> ds ! i = backoff_delay (a + i) (rng (a + i))" if "i < length ds" for i
          using that IH(3) Inl False eqs(2) by (cases i) auto
        then show ?thesis using IH(1,2,4) False eqs by auto
      qed
    qed
  qed
  then show "r = answers (a + length ds)" "length ds \<le> nat (m - int a)"
    "\<And>i. i < length ds \<Longrightarrow> \<exists>e. answers (a + i) = Inl e \<and> retryable e"
    "\<And>i. i < length ds \<Longrightarrow> ds ! i = backoff_delay (a + i) (rng (a + i))"
    "\<And>e. r = Inl e \<Longrightarrow> retryable e \<Longrightarrow> length ds = nat (m - int a)" by blast+
qed

lemma backoff_bounds:
  assumes "0 \<le> r" "r < 1"
  shows "2 ^ n / 2 \<le> backoff_delay n r" "backoff_delay n r < 2 ^ n"
  using assms by (simp_all add: backoff_delay_def backoff_base_def Let_def field_simps)

lemma retryable_answer:
  assumes "adapter_complete a = Inl e" "retryable e"
  shows "a = Inl Api_connection \<or> (\<exists>s. a = Inl (Api_status s) \<and> (s = 429 \<or> 500 \<le> s \<and> s < 600))"
proof (cases a)
  case (Inl x)
  then show ?thesis using assms by (cases x) (auto simp: adapter_complete_def translate_anthropic_error_def)
next
  case (Inr content)
  have "\<not> retryable e'" if "tool_call b = Inl e'" for b e'
    using that by (auto simp: tool_call_def Let_def split: option.splits if_splits)
  then have "\<not> retryable e'" if "map_until tool_call bs = Inl e'" for bs e'
    using that by (induction bs) (auto split: sum.splits)
  then show ?thesis using assms Inr by (auto simp: adapter_complete_def tool_calls_def split: sum.splits)
qed

text \<open>C35. 
  A model call makes at most one attempt more than the configured retries and returns what the last
  attempt returned; every attempt but the last failed with a lost connection, a 429 or a 5xx answer; the
  pause after attempt \<open>i\<close> is between \<open>2 ^ i / 2\<close> and \<open>2 ^ i\<close> seconds; and an error of that kind is returned only
  when all retries are used up.
\<close>

theorem retries_are_bounded:
  assumes "transport env cfg rq = (r, ds)" and "\<forall>n. 0 \<le> ce_rng env n \<and> ce_rng env n < 1"
  shows "length ds \<le> nat (cc_max_retries cfg) \<and> r = adapter_complete (ce_provider env rq (length ds)) \<and>
    (\<forall>i < length ds. 2 ^ i / 2 \<le> ds ! i \<and> ds ! i < 2 ^ i \<and>
       (ce_provider env rq i = Inl Api_connection \<or>
        (\<exists>s. ce_provider env rq i = Inl (Api_status s) \<and> (s = 429 \<or> 500 \<le> s \<and> s < 600)))) \<and>
    (\<forall>s. r = Inl (Llm_http_error s True) \<longrightarrow> length ds = nat (cc_max_retries cfg))"
proof -
  note run = call_with_retry_run [OF assms(1) [unfolded transport_def]]
  have "2 ^ i / 2 \<le> ds ! i \<and> ds ! i < 2 ^ i" if "i < length ds" for i
    using run(4) [OF that] backoff_bounds assms(2) by simp
  moreover have "ce_provider env rq i = Inl Api_connection \<or>
      (\<exists>s. ce_provider env rq i = Inl (Api_status s) \<and> (s = 429 \<or> 500 \<le> s \<and> s < 600))" if "i < length ds" for i
    using run(3) [OF that] retryable_answer by auto
  ultimately show ?thesis using run(1,2,5) by auto
qed

definition llm_env :: "(nat \<Rightarrow> sdk_error + jv list) \<Rightarrow> client_env" where
  "llm_env provider = \<lparr>ce_show_float = (\<lambda>_. []), ce_show_value = (\<lambda>_. []), ce_loads = (\<lambda>_. None), ce_re_match = (\<lambda>_ _. True),
     ce_registry = [], ce_provider = (\<lambda>_. provider), ce_rng = (\<lambda>_. 1 / 2)\<rparr>"

definition busy_then_done :: "nat \<Rightarrow> sdk_error + jv list" where
  "busy_then_done n =
     (if n = 0 then Inl (Api_status 529) else if n = 1 then Inl Api_connection
      else Inr [VObj [(''type'', VStr ''text''), (''text'', VStr ''ok'')]])"

definition llm_config :: client_config where
  "llm_config = \<lparr>bc_model = ''m'', bc_max_tokens = 4, bc_token_budget = 10, cc_max_retries = 3\<rparr>"

definition empty_request :: completion_request where
  "empty_request = \<lparr>rq_system = [], rq_messages = [], rq_model = ''m'', rq_max_tokens = 4, rq_idempotency_key = [], rq_tools = []\<rparr>"

lemma retries_are_bounded_witness:
  "\<exists>r ds. transport (llm_env busy_then_done) llm_config empty_request = (r, ds) \<and> length ds = 2 \<and>
     r = Inr \<lparr>cp_text = ''ok'', cp_tool_calls = []\<rparr> \<and> 2 ^ 1 / 2 \<le> ds ! 1 \<and> ds ! 1 < 2 ^ 1"
proof -
  have run: "transport (llm_env busy_then_done) llm_config empty_request =
      (Inr \<lparr>cp_text = ''ok'', cp_tool_calls = []\<rparr>, [3 / 4, 3 / 2])"
    by (simp add: transport_def llm_env_def llm_config_def call_with_retry.simps busy_then_done_def adapter_complete_def
        translate_anthropic_error_def tool_calls_def block_text_def backoff_delay_def backoff_base_def Let_def)
  have "\<forall>n. 0 \<le> ce_rng (llm_env busy_then_done) n \<and> ce_rng (llm_env busy_then_done) n < 1" by (simp add: llm_env_def)
  from retries_are_bounded [OF run this] have "2 ^ 1 / 2 \<le> [3 / 4, 3 / 2 :: rat] ! 1 \<and> [3 / 4, 3 / 2 :: rat] ! 1 < 2 ^ 1"
    by (metis (no_types, lifting) One_nat_def length_Cons lessI list.size(3))
  then show ?thesis using run by auto
qed

section \<open>What an answer went through\<close>

text \<open>A schema read as a specification: what a value must look like, key by key and item by item.\<close>

function (sequential) conforms :: "(string \<Rightarrow> string \<Rightarrow> bool) \<Rightarrow> jv \<Rightarrow> jv \<Rightarrow> bool" where
  "conforms m schema (VObj fs) \<longleftrightarrow>
     kind_ok m schema (VObj fs) \<and> enum_ok schema (VObj fs) \<and>
     (keyword schema ''object'' \<longrightarrow>
        (\<forall>(k, x) \<in> set fs. \<forall>sub. jfield (get_or schema ''properties'' (VObj [])) k = Some sub \<longrightarrow> conforms m sub x))"
| "conforms m schema (VList vs) \<longleftrightarrow>
     kind_ok m schema (VList vs) \<and> enum_ok schema (VList vs) \<and>
     (keyword schema ''array'' \<longrightarrow> jtruthy (get_or schema ''items'' VNull) \<longrightarrow>
        (\<forall>x \<in> set vs. conforms m (get_or schema ''items'' VNull) x))"
| "conforms m schema v \<longleftrightarrow> kind_ok m schema v \<and> enum_ok schema v"
  by pat_completeness auto
termination
proof (relation "measure (\<lambda>(m, schema, v). size v)")
  fix fs :: "(string \<times> jv) list" and k x and f :: "string \<times> jv" and m schema sub
  assume f: "f \<in> set fs" "(k, x) = f"
  have "size x \<le> size_prod (\<lambda>_. 0) size f" using f(2) by (cases f) auto
  then have "size x \<le> size_list (size_prod (\<lambda>_. 0) size) fs" by (rule size_list_estimation' [OF f(1)])
  then show "((m, sub, x), m, schema, VObj fs) \<in> measure (\<lambda>(m, schema, v). size v)" by simp
next
  fix vs :: "jv list" and x m sub schema
  assume "x \<in> set vs"
  then have "size x \<le> size_list size vs" by (intro size_list_estimation' [of x _ "size x"]) simp_all
  then show "((m, sub, x), m, schema, VList vs) \<in> measure (\<lambda>(m, schema, v). size v)" by simp
qed simp

lemma check_conforms:
  "check m schema v = conforms m schema v"
  "check_fields m props fs = (\<forall>(k, x) \<in> set fs. \<forall>sub. jfield props k = Some sub \<longrightarrow> conforms m sub x)"
  "check_items m schema vs = (\<forall>x \<in> set vs. conforms m schema x)"
  by (induction m schema v and m props fs and m schema vs rule: check_check_fields_check_items.induct)
    (auto split: option.splits)

text \<open>A text that passed the guards.\<close>

definition guarded :: "string \<Rightarrow> bool" where
  "guarded s \<longleftrightarrow> strip_space s \<noteq> [] \<and> length s \<le> max_output_chars \<and> redact s = s \<and>
     \<not> re_search street_address s \<and> \<not> re_search labeled_name s"

lemma guard_output_None: "guard_output s = None \<longleftrightarrow> guarded s"
  by (auto simp: guard_output_def guarded_def)

lemma validate_structured_Inr:
  "validate_structured sf loads m s schema = Inr v \<longleftrightarrow>
    guarded s \<and> loads (drop_fences s) = Some v \<and> is_object v \<and> guarded (json_dumps_plain sf v) \<and> conforms m schema v"
  by (auto simp: validate_structured_def parse_json_def guard_output_None [symmetric] check_conforms
      split: option.splits)

text \<open>A text that may be passed on, as the value that is passed on: guarded, and for a structured prompt
  the object it parses to, which conforms to the schema and passes the guards once its escapes are decoded.\<close>

definition passes :: "client_env \<Rightarrow> prompt_template \<Rightarrow> string \<Rightarrow> jv \<Rightarrow> bool" where
  "passes env t s v \<longleftrightarrow> guarded s \<and>
     (case pt_output_schema t of
        Some schema \<Rightarrow>
          if jtruthy schema
          then ce_loads env (drop_fences s) = Some v \<and> is_object v \<and>
               guarded (json_dumps_plain (ce_show_float env) v) \<and> conforms (ce_re_match env) schema v
          else v = VStr s
      | None \<Rightarrow> v = VStr s)"

definition served_ok :: "client_env \<Rightarrow> prompt_template \<Rightarrow> jv option \<Rightarrow> jv list \<Rightarrow> completion \<Rightarrow> served \<Rightarrow> jv \<Rightarrow> bool" where
  "served_ok env t fallback tools c how v \<longleftrightarrow>
     (case how of
        Tool_turn \<Rightarrow>
          (\<exists>i n input. cp_tool_calls c = [VObj [(''id'', VStr i), (''name'', VStr n), (''input'', input)]] \<and> is_object input \<and>
             v = VObj [(''action'', VStr ''tool''), (''tool'', VStr n), (''input'', input), (''tool_use_id'', VStr i)] \<and>
             (\<exists>tool \<in> set tools. jfield tool ''name'' = Some (VStr n)))
      | Answered \<Rightarrow>
          cp_tool_calls c = [] \<and> \<not> (tools \<noteq> [] \<and> is_text_tool_action (ce_loads env) (cp_text c)) \<and> passes env t (cp_text c) v
      | Fell_back \<Rightarrow>
          cp_tool_calls c = [] \<and> \<not> (tools \<noteq> [] \<and> is_text_tool_action (ce_loads env) (cp_text c)) \<and>
          fallback = Some v \<and> (\<forall>x. \<not> passes env t (cp_text c) x))"

lemma served_output_ok:
  assumes "served_output env t fallback (cp_text c) = Inr (how, v)" "cp_tool_calls c = []"
    "\<not> (tools \<noteq> [] \<and> is_text_tool_action (ce_loads env) (cp_text c))"
  shows "served_ok env t fallback tools c how v"
proof -
  let ?checked = "case pt_output_schema t of
      Some schema \<Rightarrow>
        if jtruthy schema
        then validate_structured (ce_show_float env) (ce_loads env) (ce_re_match env) (cp_text c) schema
        else (case guard_output (cp_text c) of Some e \<Rightarrow> Inl e | None \<Rightarrow> Inr (VStr (cp_text c)))
    | None \<Rightarrow> (case guard_output (cp_text c) of Some e \<Rightarrow> Inl e | None \<Rightarrow> Inr (VStr (cp_text c)))"
  have checked: "?checked = Inr x \<longleftrightarrow> passes env t (cp_text c) x" for x
    by (auto simp: passes_def validate_structured_Inr guard_output_None [symmetric] split: option.splits)
  show ?thesis
  proof (cases ?checked)
    case (Inl e)
    then have "\<not> passes env t (cp_text c) x" for x using checked [of x] by simp
    then show ?thesis using assms Inl
      by (auto simp: served_output_def served_ok_def Let_def split: option.splits)
  next
    case (Inr x)
    then show ?thesis using assms checked [of x] by (auto simp: served_output_def served_ok_def Let_def)
  qed
qed

lemma map_until_Inr: "map_until f xs = Inr ys \<Longrightarrow> y \<in> set ys \<Longrightarrow> \<exists>x \<in> set xs. f x = Inr y"
  by (induction xs arbitrary: ys) (auto split: sum.splits)

text \<open>The calls the adapter hands on are well formed.\<close>

lemma tool_call_shape:
  assumes "tool_call b = Inr call"
  shows "\<exists>i n input. call = VObj [(''id'', VStr i), (''name'', VStr n), (''input'', input)] \<and> is_object input"
  using assms by (auto simp: tool_call_def Let_def split: option.splits if_splits)

lemma adapter_calls_shape:
  assumes "adapter_complete answer = Inr c" "call \<in> set (cp_tool_calls c)"
  shows "\<exists>i n input. call = VObj [(''id'', VStr i), (''name'', VStr n), (''input'', input)] \<and> is_object input"
proof -
  obtain content calls where content: "answer = Inr content" "tool_calls content = Inr calls"
    using assms(1) by (cases answer; cases "tool_calls (projr answer)") (simp_all add: adapter_complete_def)
  then have "calls = cp_tool_calls c" using assms(1) by (auto simp: adapter_complete_def)
  then obtain b where "tool_call b = Inr call"
    using assms(2) map_until_Inr [OF content(2) [unfolded tool_calls_def]] by blast
  then show ?thesis by (rule tool_call_shape)
qed

lemma tool_action_ok:
  assumes "adapter_complete answer = Inr c" "tool_action (cp_tool_calls c) tools = Inr v" "cp_tool_calls c \<noteq> []"
  shows "served_ok env t fallback tools c Tool_turn v"
proof -
  obtain call rest where calls: "cp_tool_calls c = call # rest" using assms(3) by (cases "cp_tool_calls c") auto
  then have "rest = []" using assms(2) by (cases rest) (auto simp: tool_action_def)
  moreover obtain i n input where call: "call = VObj [(''id'', VStr i), (''name'', VStr n), (''input'', input)]" "is_object input"
    using adapter_calls_shape [OF assms(1), of call] calls by auto
  moreover have input: "(if jtruthy input then input else VObj []) = input" using call(2) by (cases input) auto
  moreover have "Some (VStr n) \<in> set (map (\<lambda>t. jfield t ''name'') tools) \<and>
      v = VObj [(''action'', VStr ''tool''), (''tool'', VStr n), (''input'', input), (''tool_use_id'', VStr i)]"
    using assms(2) calls \<open>rest = []\<close> input by (auto simp: call(1) tool_action_def get_or_def Let_def split: if_splits)
  moreover from this obtain tool where "tool \<in> set tools" "jfield tool ''name'' = Some (VStr n)" by force
  ultimately show ?thesis using calls by (auto simp: served_ok_def)
qed

text \<open>C34. 
  Nothing a model says is passed on unchecked: what a completion returns is one call, with its name and
  its input object, of a tool that was bound to this very request, or a text that passed every guard,
  which for a structured prompt also parses to an object that conforms to the schema and passes the guards
  again once its escapes are decoded, or, only where the text did not pass, the caller's own fallback. The
  text and the call are those of the provider's answer to the request that was built.
\<close>

theorem only_checked_output_is_returned:
  assumes "complete env cfg name history key fallback tools vars = Inr (how, v)"
  shows "\<exists>t b n c. map_of (ce_registry env) name = Some t \<and>
    build_request (ce_show_float env) (ce_show_value env) (ce_loads env) (builder_config.truncate cfg)
      t history key tools vars = Inr b \<and>
    adapter_complete (ce_provider env (br_request b) n) = Inr c \<and>
    served_ok env t fallback (rq_tools (br_request b)) c how v"
proof -
  obtain t b where t: "map_of (ce_registry env) name = Some t"
    and b: "build_request (ce_show_float env) (ce_show_value env) (ce_loads env) (builder_config.truncate cfg)
      t history key tools vars = Inr b"
    using assms by (auto simp: complete_def split: option.splits sum.splits)
  obtain r ds where run: "transport env cfg (br_request b) = (r, ds)" by fastforce
  obtain c where c: "r = Inr c" using assms t b run by (cases r) (auto simp: complete_def)
  have answer: "adapter_complete (ce_provider env (br_request b) (length ds)) = Inr c"
    using call_with_retry_run(1) [OF run [unfolded transport_def]] c by simp
  moreover have "served_ok env t fallback (rq_tools (br_request b)) c how v"
  proof (cases "cp_tool_calls c = []")
    case True
    then show ?thesis using assms t b run c by (auto simp: complete_def split: if_splits intro!: served_output_ok)
  next
    case False
    then have "tool_action (cp_tool_calls c) (rq_tools (br_request b)) = Inr v \<and> how = Tool_turn"
      using assms t b run c by (auto simp: complete_def split: sum.splits)
    then show ?thesis using tool_action_ok [OF answer _ False] by simp
  qed
  ultimately show ?thesis using t b by blast
qed

definition done_env :: client_env where
  "done_env = llm_env busy_then_done \<lparr>ce_registry := [(''sample'', sample_template)]\<rparr>"

lemma plain_word: "digitless s \<Longrightarrow> CHR ''@'' \<notin> set s \<Longrightarrow> redact s = s"
  by (simp add: redact_digitless email_only)

lemma re_search_needs: "needs P r \<Longrightarrow> list_all (\<lambda>c. \<not> P c) s \<Longrightarrow> \<not> re_search r s"
proof -
  assume r: "needs P r" and s: "list_all (\<lambda>c. \<not> P c) s"
  have "first_match r pre (drop i s) = None" for pre i
  proof -
    have "list_all (\<lambda>c. \<not> P c) (drop i s)" using s by (auto simp: list_all_iff dest: in_set_dropD)
    then show ?thesis
      using needs_no_match [OF r, of "(pre, drop i s, [])"] by (simp add: first_match_def lacks_def)
  qed
  then show ?thesis by (simp add: re_search_def list_ex_iff)
qed

lemma needs_member: "needs P r \<Longrightarrow> r \<in> set rs \<Longrightarrow> needs P (seqs rs)"
  by (auto simp: list_ex_iff)

lemma done_guarded: "guarded ''ok''"
proof -
  let ?upper = "\<lambda>c. 65 \<le> char_code c \<and> char_code c \<le> 90"
  have "digitless ''ok''" by code_simp
  then have "redact ''ok'' = ''ok''" by (simp add: plain_word)
  moreover have "strip_space ''ok'' \<noteq> []" by code_simp
  moreover have "length ''ok'' \<le> max_output_chars" by (simp add: max_output_chars_def)
  moreover have "\<not> re_search street_address ''ok''"
  proof (rule re_search_needs)
    show "needs py_digit street_address" unfolding street_address_def
      by (rule needs_member [of _ "Rep 1 5 digit"]) (simp, intro list.set_intros)
    show "list_all (\<lambda>c. \<not> py_digit c) ''ok''" by code_simp
  qed
  moreover have "\<not> re_search labeled_name ''ok''"
  proof (rule re_search_needs)
    show "needs ?upper labeled_name" unfolding labeled_name_def
      by (rule needs_member [of _ upper]) (simp add: upper_def, intro list.set_intros)
    show "list_all (\<lambda>c. \<not> ?upper c) ''ok''" by code_simp
  qed
  ultimately show ?thesis by (simp add: guarded_def)
qed

lemma done_built: "\<exists>b. build_request (\<lambda>_. []) (\<lambda>_. []) (\<lambda>_. None) sample_config sample_template [] ''k'' None [] = Inr b \<and>
    rq_tools (br_request b) = []"
proof -
  have "digitless ''explain''" by code_simp
  then have r: "redact ''explain'' = ''explain''" by (simp add: plain_word)
  have "build_request (\<lambda>_. []) (\<lambda>_. []) (\<lambda>_. None) sample_config sample_template [] ''k'' None [] =
      fit_request (\<lambda>_. []) sample_config sample_template ''k'' [] [] ''explain''"
    by (simp add: build_request_def validated_tools_def sample_template_def render_user_def format_part_def r)
  then show ?thesis
    by (simp add: fit_request_def Let_def sample_config_def sample_template_def fixed_tokens_def estimate_tokens_def
        chars_per_token_def history_tokens_def expand_examples_def)
qed

lemma only_checked_output_is_returned_witness:
  "complete done_env llm_config ''sample'' [] ''k'' None None [] = Inr (Answered, VStr ''ok'') \<and>
   (\<exists>t (b :: built_request) n c. map_of (ce_registry done_env) ''sample'' = Some t \<and>
     adapter_complete (ce_provider done_env (br_request b) n) = Inr c \<and>
     served_ok done_env t None (rq_tools (br_request b)) c Answered (VStr ''ok''))"
proof -
  obtain b where b: "build_request (\<lambda>_. []) (\<lambda>_. []) (\<lambda>_. None) sample_config sample_template [] ''k'' None [] = Inr b"
    "rq_tools (br_request b) = []" using done_built by blast
  have cfg: "builder_config.truncate llm_config = sample_config"
    by (simp add: llm_config_def sample_config_def builder_config.defs)
  have "fst (transport done_env llm_config r) = Inr \<lparr>cp_text = ''ok'', cp_tool_calls = []\<rparr>" for r
    by (simp add: transport_def done_env_def llm_env_def llm_config_def call_with_retry.simps busy_then_done_def
        adapter_complete_def translate_anthropic_error_def tool_calls_def block_text_def Let_def)
  moreover have schema: "pt_output_schema sample_template = None" by (simp add: sample_template_def)
  ultimately have run: "complete done_env llm_config ''sample'' [] ''k'' None None [] = Inr (Answered, VStr ''ok'')"
    using b done_guarded [folded guard_output_None]
    by (simp add: complete_def cfg done_env_def llm_env_def served_output_def schema)
  from only_checked_output_is_returned [OF this] show ?thesis using run by fast
qed

end
