(* ===== verification/Assistant.thy ===== *)
theory Assistant
  imports LosRoutes RequestBuilder
begin

text \<open>
  The decisioning assistant of origination-service (\<^verbatim>\<open>app/assistant.py\<close>) with the search of
  \<^verbatim>\<open>app/policy_retrieval.py\<close>: the tools a run hands to the agent, the run itself, and the answer
  built from the decision record. The agent (the graph library's loop over the model) is an argument: what it does
  next is any function of the tool results so far. Other sessions run as \<open>w n\<close> before the \<open>n\<close>-th statement.
  Character \<open>0x97\<close> stands for the dash U+2014 of the officer's text.
\<close>

section \<open>Policy search\<close>

record policy_answer =
  pa_status :: string
  pa_score :: rat
  pa_chunk_id :: string
  pa_text :: string
  pa_reason :: string

definition is_hit :: "policy_answer \<Rightarrow> bool" where
  "is_hit a \<longleftrightarrow> pa_status a = ''policy_hit''"

definition abstain :: "string \<Rightarrow> rat \<Rightarrow> policy_answer" where
  "abstain reason sc =
     \<lparr>pa_status = ''policy_abstain'', pa_score = sc, pa_chunk_id = [], pa_text = [], pa_reason = reason\<rparr>"

text \<open>
  What the search works with: the threshold, whether the harness could be imported, whether there is an
  index, the best chunk for a query (\<open>None\<close> where the embedding fails or nothing is found) and the texts.
\<close>

record policy_index =
  pi_threshold :: "rat option"
  pi_harness :: bool
  pi_ready :: bool
  pi_best :: "string \<Rightarrow> (string \<times> rat) option"
  pi_text :: "string \<Rightarrow> string"

definition search :: "policy_index \<Rightarrow> string \<Rightarrow> policy_answer" where
  "search ix query =
     (case pi_threshold ix of
        None \<Rightarrow> abstain ''threshold_unset'' 0
      | Some threshold \<Rightarrow>
          if strip_space query = [] then abstain ''empty_query'' 0
          else if \<not> pi_harness ix then abstain ''harness_unavailable'' 0
          else if \<not> pi_ready ix then abstain ''corpus_unavailable'' 0
          else (case pi_best ix query of
              None \<Rightarrow> abstain ''corpus_unavailable'' 0
            | Some (chunk, sc) \<Rightarrow>
                if sc < threshold then abstain ''below_threshold'' sc
                else \<lparr>pa_status = ''policy_hit'', pa_score = sc, pa_chunk_id = chunk, pa_text = pi_text ix chunk,
                      pa_reason = []\<rparr>))"

definition policy_topics :: "string list" where
  "policy_topics = [''fee_schedule'', ''apr_finance_charge'', ''interest_rate'', ''eligibility_rules'',
     ''credit_decisioning'', ''adverse_action'', ''debt_to_income'', ''records_retention'']"

definition search_policy :: "policy_index \<Rightarrow> string \<Rightarrow> string \<Rightarrow> policy_answer" where
  "search_policy ix query task =
     (if task = ''decision'' then abstain ''refused_on_decision_task'' 0 else search ix query)"

text \<open>\<^verbatim>\<open>round(x, 4)\<close> of a score.\<close>

definition round4 :: "rat \<Rightarrow> rat" where
  "round4 x = fl (of_int (round_half_even (x * 10000)) / 10000)"

definition tool_result :: "policy_answer \<Rightarrow> (string \<times> jv) list" where
  "tool_result a = [(''status'', VStr (pa_status a)), (''score'', VFloat (round4 (pa_score a)))]"

section \<open>The tools\<close>

text \<open>
  What reading a decision record gives: its body, 404, another error status, or an exception of the
  client. An error of the assistant carries whether a decision had been scored.
\<close>

datatype record_reply = Record jv | Not_found | Error_status nat | Unreachable

datatype assistant_error =
  Assistant_error string bool | Application_not_found | Never_decisioned | Http_refusal nat string
  | Client_failed client_result | Client_down | Model_failed llm_error | Malformed

record assistant_env =
  ae_post :: "string \<Rightarrow> decision_payload \<Rightarrow> los_db \<Rightarrow> client_result \<times> los_db"
  ae_record :: "int \<Rightarrow> string option \<Rightarrow> los_db \<Rightarrow> record_reply"
  ae_index :: policy_index
  ae_world :: "nat \<Rightarrow> los_db \<Rightarrow> los_db"

text \<open>The state of a run; \<open>st_posts\<close> records the decisions asked for (\<^verbatim>\<open>POST /decisions\<close>; reads of
  the record are not in it), \<open>st_stmt\<close> counts statements.\<close>

record run_state =
  st_db :: los_db
  st_stmt :: nat
  st_score :: "jv option"
  st_citations :: "policy_answer list"
  st_searches :: "policy_answer list"
  st_posts :: "(string \<times> decision_payload) list"

definition elapse :: "assistant_env \<Rightarrow> run_state \<Rightarrow> run_state" where
  "elapse env s = s\<lparr>st_db := ae_world env (st_stmt s) (st_db s), st_stmt := Suc (st_stmt s)\<rparr>"

text \<open>\<^verbatim>\<open>[r["code"] for r in xs or []]\<close>; \<open>None\<close> where an element has no code.\<close>

definition codes_of :: "jv \<Rightarrow> jv list option" where
  "codes_of reasons =
     (if \<not> jtruthy reasons then Some []
      else (case reasons of
          VList rs \<Rightarrow> if list_all (\<lambda>r. jfield r ''code'' \<noteq> None) rs then Some (map (\<lambda>r. the (jfield r ''code'')) rs) else None
        | _ \<Rightarrow> None))"

text \<open>\<^verbatim>\<open>(body.get("drivers") or {}).get("model_score")\<close>; \<open>None\<close> where the drivers are not an object.\<close>

definition model_score :: "jv \<Rightarrow> jv option" where
  "model_score body =
     (let d = get_or body ''drivers'' VNull in
      if \<not> jtruthy d then Some VNull else if is_object d then Some (get_or d ''model_score'' VNull) else None)"

definition score_result :: "jv \<Rightarrow> jv option" where
  "score_result resp =
     (if \<not> is_object resp then None
      else map_option (\<lambda>codes. VObj
        [(''status'', VStr ''recorded''), (''outcome'', get_or resp ''outcome'' VNull), (''score'', get_or resp ''score'' VNull),
         (''policy_band'', get_or resp ''policy_band'' VNull), (''reason_codes'', VList codes)])
        (codes_of (get_or resp ''principal_reasons'' VNull)))"

text \<open>The score tool: the payload is looked up, the identity gate passed, the decision posted.\<close>

definition score_application_tool ::
  "assistant_env \<Rightarrow> int \<Rightarrow> string \<Rightarrow> run_state \<Rightarrow> (assistant_error + jv) \<times> run_state" where
  "score_application_tool env app_id request_id s0 =
     (let s1 = elapse env s0 in
      case decision_request_payload (st_db s1) app_id of
        Inl e \<Rightarrow> (Inl (Http_refusal (http_status e) (http_detail e)), s1)
      | Inr None \<Rightarrow> (Inl Application_not_found, s1)
      | Inr (Some p) \<Rightarrow>
          (let s2 = elapse env s1 in
           case require_kyc_passed (st_db s2) app_id of
             Inl e \<Rightarrow> (Inl (Http_refusal (http_status e) (http_detail e)), s2)
           | Inr _ \<Rightarrow>
               (let s3 = elapse env s2; q = p\<lparr>dp_request_id := Some request_id\<rparr>;
                    (r, db) = ae_post env request_id q (st_db s3);
                    s4 = s3\<lparr>st_db := db, st_posts := st_posts s3 @ [(request_id, q)]\<rparr>
                in case r of
                     Answer resp \<Rightarrow> (case score_result resp of None \<Rightarrow> Inl Malformed | Some v \<Rightarrow> Inr v, s4)
                   | _ \<Rightarrow> (Inl (Client_failed r), s4))))"

definition record_result :: "jv \<Rightarrow> jv option" where
  "record_result body =
     (if \<not> is_object body then None
      else bind_option (model_score body) (\<lambda>sc. map_option (\<lambda>codes. VObj
        [(''status'', get_or body ''status'' VNull), (''outcome'', get_or body ''outcome'' VNull),
         (''policy_band'', get_or body ''policy_band'' VNull), (''score'', sc), (''reason_codes'', VList codes)])
        (codes_of (get_or body ''principal_reasons'' VNull))))"

definition get_decision_record_tool ::
  "assistant_env \<Rightarrow> int \<Rightarrow> run_state \<Rightarrow> (assistant_error + jv) \<times> run_state" where
  "get_decision_record_tool env app_id s0 =
     (let s = elapse env s0 in
      (case ae_record env app_id None (st_db s) of
         Not_found \<Rightarrow> Inr (VObj [(''status'', VStr ''not_found'')])
       | Error_status c \<Rightarrow> Inl (Assistant_error ''reading the decision record'' False)
       | Unreachable \<Rightarrow> Inl Client_down
       | Record body \<Rightarrow> (case record_result body of None \<Rightarrow> Inl Malformed | Some v \<Rightarrow> Inr v), s))"

text \<open>The three closures the agent is given; they take no application from the model.\<close>

datatype tool_request = Ask_score | Ask_record | Ask_policy string

definition score_tool ::
  "assistant_env \<Rightarrow> int \<Rightarrow> string \<Rightarrow> string \<Rightarrow> run_state \<Rightarrow> (assistant_error + jv) \<times> run_state" where
  "score_tool env app_id request_id task s =
     (if task = ''explain'' then get_decision_record_tool env app_id s
      else case st_score s of
        Some v \<Rightarrow> (Inr v, s)
      | None \<Rightarrow>
          (case score_application_tool env app_id request_id s of
             (Inl e, s') \<Rightarrow> (Inl e, s')
           | (Inr v, s') \<Rightarrow> (Inr v, s'\<lparr>st_score := Some v\<rparr>)))"

definition policy_result :: "string option \<Rightarrow> policy_answer \<Rightarrow> jv" where
  "policy_result topic a =
     VObj (tool_result a @ (case topic of None \<Rightarrow> [] | Some t \<Rightarrow> [(''policy_topic'', VStr t)]))"

definition policy_tool ::
  "assistant_env \<Rightarrow> string \<Rightarrow> string option \<Rightarrow> string \<Rightarrow> run_state \<Rightarrow> jv \<times> run_state" where
  "policy_tool env task topic query s =
     (if st_searches s \<noteq> [] then (policy_result topic (last (st_searches s)), s)
      else (let a = search_policy (ae_index env) query task; s1 = s\<lparr>st_searches := st_searches s @ [a]\<rparr>;
                s2 = (if is_hit a \<and> list_all (\<lambda>c. pa_chunk_id c \<noteq> pa_chunk_id a) (st_citations s1)
                      then s1\<lparr>st_citations := st_citations s1 @ [a]\<rparr> else s1)
            in (policy_result topic a, s2)))"

definition call_tool ::
  "assistant_env \<Rightarrow> int \<Rightarrow> string \<Rightarrow> string \<Rightarrow> string option \<Rightarrow> tool_request \<Rightarrow> run_state \<Rightarrow>
   (assistant_error + jv) \<times> run_state" where
  "call_tool env app_id request_id task topic c s =
     (case c of
        Ask_score \<Rightarrow> score_tool env app_id request_id task s
      | Ask_record \<Rightarrow> get_decision_record_tool env app_id s
      | Ask_policy query \<Rightarrow> (case policy_tool env task topic query s of (v, s') \<Rightarrow> (Inr v, s')))"

section \<open>The loop\<close>

definition max_steps :: nat where
  "max_steps = 6"

text \<open>
  The agent's next move: call a tool, end on a message (the decoded final action, or none), or fail in the
  model client. A run makes at most \<open>max_steps\<close> model calls; running out is the hard stop.
\<close>

datatype move = Call tool_request | End "jv option" | Fail llm_error

type_synonym agent = "jv list \<Rightarrow> move"

datatype loop_end = Ended "jv option" | Exhausted | Raised assistant_error

primrec run_agent ::
  "assistant_env \<Rightarrow> int \<Rightarrow> string \<Rightarrow> string \<Rightarrow> string option \<Rightarrow> agent \<Rightarrow> nat \<Rightarrow> jv list \<Rightarrow> run_state \<Rightarrow>
   loop_end \<times> run_state" where
  "run_agent env app_id request_id task topic agent 0 seen s = (Exhausted, s)"
| "run_agent env app_id request_id task topic agent (Suc n) seen s =
     (case agent seen of
        End a \<Rightarrow> (Ended a, s)
      | Fail e \<Rightarrow> (Raised (Model_failed e), s)
      | Call c \<Rightarrow>
          (case call_tool env app_id request_id task topic c s of
             (Inl e, s') \<Rightarrow> (Raised e, s')
           | (Inr v, s') \<Rightarrow> run_agent env app_id request_id task topic agent n (seen @ [v]) s'))"

section \<open>The answer\<close>

definition em_dash :: string where
  "em_dash = [CHR 0x97]"

definition blank_line :: string where
  "blank_line = [CHR 0x0A, CHR 0x0A]"

definition join :: "string \<Rightarrow> string list \<Rightarrow> string" where
  "join glue xs = (case xs of [] \<Rightarrow> [] | x # ys \<Rightarrow> x @ concat (map (\<lambda>y. glue @ y) ys))"

text \<open>\<open>show_value\<close> is Python's \<^verbatim>\<open>str\<close> of a value that is not a string.\<close>

definition recorded_reasons :: "jv \<Rightarrow> jv list option" where
  "recorded_reasons rec =
     (let v = get_or rec ''principal_reasons'' VNull in
      if \<not> is_object rec then None
      else if \<not> jtruthy v then Some []
      else (case v of VList rs \<Rightarrow> if list_all (\<lambda>r. jfield r ''code'' \<noteq> None) rs then Some rs else None | _ \<Rightarrow> None))"

definition constructed_summary :: "(jv \<Rightarrow> string) \<Rightarrow> jv \<Rightarrow> jv list \<Rightarrow> string option" where
  "constructed_summary show_value rec rs =
     (let field = (\<lambda>v k. shown show_value (get_or v k VNull)) in
      if jfield rec ''status'' = Some (VStr ''no_record_legacy'')
      then Some (''Recorded outcome: '' @ field rec ''outcome'' @ ''. This decision predates the decision-record system; '' @
                 ''its reasons were never recorded and cannot be recovered.'')
      else if \<not> list_all (\<lambda>r. jfield r ''reason'' \<noteq> None) rs then None
      else (let reason_text = join ''; '' (map (\<lambda>r. field r ''code'' @ '': '' @ field r ''reason'') rs)
            in Some (''Recorded decision: '' @ field rec ''outcome'' @ '' (policy band '' @ field rec ''policy_band'' @ ''). '' @
                     (if reason_text = [] then ''no adverse-action reasons (approval)'' else reason_text) @ ''.'')))"

definition abstain_officer_text :: "(string \<times> string) list" where
  "abstain_officer_text =
    [(''threshold_unset'', ''Policy search is not configured.''),
     (''corpus_unavailable'', ''Policy search found no usable policy corpus.''),
     (''empty_query'', ''Policy search ran but returned no match.''),
     (''below_threshold'', ''Policy search ran; no passage matched above the required threshold.''),
     (''harness_unavailable'', ''Policy search is unavailable in this environment.''),
     (''refused_on_decision_task'', ''Policy search is not available on decision runs.'')]"

definition no_match_line :: "policy_answer list \<Rightarrow> string" where
  "no_match_line searches =
     ''Policy search '' @ em_dash @ '' '' @
     (case map_of abstain_officer_text (pa_reason (last searches)) of
        Some t \<Rightarrow> t | None \<Rightarrow> ''Policy search ran; no policy match.'')"

definition policy_section :: "policy_answer list \<Rightarrow> string" where
  "policy_section citations =
     join blank_line (map (\<lambda>a. ''Policy '' @ em_dash @ '' '' @ pa_chunk_id a @ '' (quoted verbatim from the policy corpus):'' @
       [CHR 0x0A] @ pa_text a) citations)"

definition officer_summary :: "string \<Rightarrow> policy_answer list \<Rightarrow> policy_answer list \<Rightarrow> string" where
  "officer_summary summary citations searches =
     (if citations \<noteq> [] then summary @ blank_line @ policy_section citations
      else if searches \<noteq> [] then summary @ blank_line @ no_match_line searches
      else summary)"

record officer_answer =
  oa_application_id :: int
  oa_record_status :: jv
  oa_outcome :: jv
  oa_score :: jv
  oa_policy_band :: jv
  oa_principal_reasons :: "jv list"
  oa_decided_by :: jv
  oa_decided_at :: jv
  oa_summary :: string
  oa_narration_validated :: bool
  oa_policy_citations :: "(string \<times> rat \<times> string) list"
  oa_policy_searches :: "(string \<times> rat \<times> string) list"

definition narration_valid :: "jv \<Rightarrow> jv \<Rightarrow> jv list \<Rightarrow> bool" where
  "narration_valid action rec rs \<longleftrightarrow>
     get_or action ''outcome'' VNull = get_or rec ''outcome'' VNull \<and>
     set (case get_or action ''reason_codes'' VNull of VList cs \<Rightarrow> cs | _ \<Rightarrow> []) =
     set (map (\<lambda>r. the (jfield r ''code'')) rs)"

definition answer_of_record ::
  "(jv \<Rightarrow> string) \<Rightarrow> int \<Rightarrow> jv \<Rightarrow> bool \<Rightarrow> policy_answer list \<Rightarrow> policy_answer list \<Rightarrow> officer_answer option" where
  "answer_of_record show_value app_id rec valid citations searches =
     bind_option (recorded_reasons rec) (\<lambda>rs.
     bind_option (constructed_summary show_value rec rs) (\<lambda>summary.
     map_option (\<lambda>sc.
       \<lparr>oa_application_id = app_id, oa_record_status = get_or rec ''status'' VNull, oa_outcome = get_or rec ''outcome'' VNull,
        oa_score = sc, oa_policy_band = get_or rec ''policy_band'' VNull,
        oa_principal_reasons = rs, oa_decided_by = get_or rec ''decided_by'' VNull,
        oa_decided_at = get_or rec ''decided_at'' VNull, oa_summary = officer_summary summary citations searches,
        oa_narration_validated = valid,
        oa_policy_citations = map (\<lambda>a. (pa_chunk_id a, round4 (pa_score a), pa_text a)) citations,
        oa_policy_searches = map (\<lambda>a. (pa_status a, round4 (pa_score a), pa_reason a)) searches\<rparr>)
       (model_score rec)))"

text \<open>The check of the final action: the record decides, the action only sets the audit flag.\<close>

definition validated_final ::
  "assistant_env \<Rightarrow> (jv \<Rightarrow> string) \<Rightarrow> jv \<Rightarrow> int \<Rightarrow> string \<Rightarrow> string \<Rightarrow> run_state \<Rightarrow> assistant_error + officer_answer" where
  "validated_final env show_value action app_id task request_id s =
     (case ae_record env app_id (if request_id \<noteq> [] \<and> task = ''decision'' then Some request_id else None) (st_db s) of
        Not_found \<Rightarrow>
          if task = ''explain'' then Inl Never_decisioned else Inl (Assistant_error ''no decision record'' False)
      | Error_status c \<Rightarrow> Inl (Assistant_error ''validating the decision record'' False)
      | Unreachable \<Rightarrow> Inl Client_down
      | Record rec \<Rightarrow>
          if \<not> is_object rec then Inl Malformed
          else if jfield rec ''status'' \<noteq> Some (VStr ''recorded'') \<and> task = ''decision''
          then Inl (Assistant_error ''no recorded decision event'' False)
          else (case answer_of_record show_value app_id rec
                       (narration_valid action rec (case recorded_reasons rec of Some rs \<Rightarrow> rs | None \<Rightarrow> []))
                       (st_citations s) (st_searches s) of
              None \<Rightarrow> Inl Malformed | Some a \<Rightarrow> Inr a))"

definition is_final :: "jv option \<Rightarrow> bool" where
  "is_final a \<longleftrightarrow> (case a of Some v \<Rightarrow> is_object v \<and> jfield v ''action'' = Some (VStr ''final'') | None \<Rightarrow> False)"

definition no_final_answer :: "run_state \<Rightarrow> assistant_error" where
  "no_final_answer s = Assistant_error ''no final answer'' (st_score s \<noteq> None)"

definition start :: "los_db \<Rightarrow> run_state" where
  "start db = \<lparr>st_db = db, st_stmt = 0, st_score = None, st_citations = [], st_searches = [], st_posts = []\<rparr>"

definition finish_run ::
  "assistant_env \<Rightarrow> (jv \<Rightarrow> string) \<Rightarrow> int \<Rightarrow> string \<Rightarrow> string \<Rightarrow> string option \<Rightarrow> loop_end \<Rightarrow> run_state \<Rightarrow>
   (assistant_error + officer_answer) \<times> run_state" where
  "finish_run env show_value app_id task request_id topic e s =
     (case e of
        Raised err \<Rightarrow> (Inl err, s)
      | Exhausted \<Rightarrow> (Inl (no_final_answer s), s)
      | Ended a \<Rightarrow>
          if \<not> is_final a then (Inl (no_final_answer s), s)
          else if topic \<noteq> None \<and> task = ''explain'' \<and> st_searches s = []
          then (Inl (Assistant_error ''unsearched policy answer'' False), s)
          else (let s' = elapse env s in (validated_final env show_value (the a) app_id task request_id s', s')))"

text \<open>\<open>fresh\<close> is the generated request id of a run whose caller gave none.\<close>

definition run_id :: "string option \<Rightarrow> string \<Rightarrow> string" where
  "run_id request_id fresh = (if present request_id then the request_id else fresh)"

definition assistant_run ::
  "assistant_env \<Rightarrow> (jv \<Rightarrow> string) \<Rightarrow> string \<Rightarrow> agent \<Rightarrow> int \<Rightarrow> string \<Rightarrow> string option \<Rightarrow> string option \<Rightarrow> los_db \<Rightarrow>
   (assistant_error + officer_answer) \<times> run_state" where
  "assistant_run env show_value fresh agent app_id task request_id topic db =
     (if topic \<noteq> None \<and> the topic \<notin> set policy_topics
      then (Inl (Assistant_error ''unknown policy topic'' False), start db)
      else (case run_agent env app_id (run_id request_id fresh) task topic agent max_steps [] (start db) of
          (e, s) \<Rightarrow> finish_run env show_value app_id task (run_id request_id fresh) topic e s))"

end
