(* ===== verification/AssistantProps.thy ===== *)
theory AssistantProps
  imports Assistant LosProps
begin

text \<open>
  What holds of an assistant run whatever the agent does: the regulated decision is made at most once and
  behind the identity gate, the officer reads the record and not the model, and policy text is quoted
  from the corpus. The lemmas follow the run: one per tool, then an invariant of the loop.
\<close>

section \<open>Invariants of a run\<close>

text \<open>A property of run states every tool keeps is kept by the loop.\<close>

lemma run_agent_keeps:
  assumes tool: "\<And>c t r t'. I t \<Longrightarrow> call_tool env app rid task topic c t = (r, t') \<Longrightarrow> (\<exists>v. r = Inr v) \<Longrightarrow> I t'"
    and stop: "\<And>c t e t'. I t \<Longrightarrow> call_tool env app rid task topic c t = (Inl e, t') \<Longrightarrow> J t'"
    and weak: "\<And>t. I t \<Longrightarrow> J t"
  shows "I s \<Longrightarrow> J (snd (run_agent env app rid task topic agent n seen s))"
proof (induction n arbitrary: seen s)
  case (Suc n)
  show ?case
  proof (cases "agent seen")
    case (Call c)
    obtain r t where t: "call_tool env app rid task topic c s = (r, t)" by fastforce
    show ?thesis
    proof (cases r)
      case (Inl e)
      then show ?thesis using Call t stop Suc.prems by simp
    next
      case (Inr v)
      then have "I t" using tool Suc.prems t by blast
      then show ?thesis using Call t Inr Suc.IH by simp
    qed
  qed (use weak Suc.prems in simp_all)
qed (use weak in simp)

lemma run_agent_invariant:
  assumes "\<And>c t r t'. I t \<Longrightarrow> call_tool env app rid task topic c t = (r, t') \<Longrightarrow> I t'"
    and "I s"
  shows "I (snd (run_agent env app rid task topic agent n seen s))"
  using run_agent_keeps[of I env app rid task topic I s agent n seen] assms by blast

lemma st_elapse [simp]:
  "st_posts (elapse env s) = st_posts s" "st_score (elapse env s) = st_score s"
  "st_citations (elapse env s) = st_citations s" "st_searches (elapse env s) = st_searches s"
  "st_db (elapse env s) = ae_world env (st_stmt s) (st_db s)"
  by (simp_all add: elapse_def)

lemma st_start [simp]:
  "st_posts (start db) = []" "st_score (start db) = None" "st_citations (start db) = []"
  "st_searches (start db) = []" "st_db (start db) = db"
  by (simp_all add: start_def)

text \<open>What the run leaves is what its loop leaves, or the start; validation only lets time pass.\<close>

lemma assistant_run_state:
  assumes "assistant_run env sv fresh agent app task request_id topic db = (r, s)"
    and "J (start db)"
    and "J (snd (run_agent env app (run_id request_id fresh) task topic agent max_steps [] (start db)))"
    and "\<And>t. J t \<Longrightarrow> J (elapse env t)"
  shows "J s"
  using assms by (auto simp: assistant_run_def finish_run_def Let_def split: if_splits prod.splits loop_end.splits)

text \<open>A read of the record and a search leave the calls to decision-service alone.\<close>

lemma record_tool_state:
  "get_decision_record_tool env app s = (r, s') \<Longrightarrow> s' = elapse env s"
  by (simp add: get_decision_record_tool_def Let_def split: prod.splits)

lemma policy_tool_frame:
  assumes "policy_tool env task topic query s = (v, s')"
  shows "st_posts s' = st_posts s" "st_score s' = st_score s" "st_db s' = st_db s" "st_stmt s' = st_stmt s"
  using assms by (auto simp: policy_tool_def Let_def split: if_splits)

text \<open>The score tool either leaves the calls alone or makes one, of the officer's application.\<close>

lemma score_application_posts:
  assumes "score_application_tool env app rid s = (r, s')"
  shows "st_score s' = st_score s \<and>
    (st_posts s' = st_posts s \<and> (\<exists>e. r = Inl e) \<or>
     (\<exists>q. st_posts s' = st_posts s @ [(rid, q)] \<and> dp_application_id q = app \<and> dp_request_id q = Some rid))"
  using assms
  by (auto simp: score_application_tool_def decision_request_payload_def raise_http_def Let_def
      split: sum.splits option.splits prod.splits client_result.splits if_splits)

definition posted :: "int \<Rightarrow> string \<Rightarrow> string \<Rightarrow> run_state \<Rightarrow> bool" where
  "posted app rid task s \<longleftrightarrow>
     st_posts s = [] \<or>
     task \<noteq> ''explain'' \<and> (\<exists>q. st_posts s = [(rid, q)] \<and> dp_application_id q = app \<and> dp_request_id q = Some rid)"

definition settled :: "int \<Rightarrow> string \<Rightarrow> string \<Rightarrow> run_state \<Rightarrow> bool" where
  "settled app rid task s \<longleftrightarrow> posted app rid task s \<and> (st_posts s \<noteq> [] \<longrightarrow> st_score s \<noteq> None)"

lemma score_tool_posted:
  assumes "settled app rid task s" "score_tool env app rid task s = (r, s')"
  shows "posted app rid task s' \<and> ((\<exists>v. r = Inr v) \<longrightarrow> settled app rid task s')"
proof (cases "task = ''explain''")
  case True
  then show ?thesis using assms by (auto simp: score_tool_def settled_def posted_def dest: record_tool_state)
next
  case False
  show ?thesis
  proof (cases "st_score s")
    case None
    then have fresh: "st_posts s = []" using assms(1) by (auto simp: settled_def)
    obtain r' t where t: "score_application_tool env app rid s = (r', t)" by fastforce
    have one: "posted app rid task t" using score_application_posts[OF t] fresh False by (auto simp: posted_def)
    show ?thesis
    proof (cases r')
      case (Inl e)
      then show ?thesis using assms(2) False None t one by (auto simp: score_tool_def)
    next
      case (Inr v)
      then have "s' = t\<lparr>st_score := Some v\<rparr>" using assms(2) False None t by (auto simp: score_tool_def)
      then show ?thesis using one by (simp add: settled_def posted_def)
    qed
  qed (use assms False in \<open>simp add: score_tool_def settled_def\<close>)
qed

lemma call_tool_posted:
  assumes "settled app rid task s" "call_tool env app rid task topic c s = (r, s')"
  shows "posted app rid task s' \<and> ((\<exists>v. r = Inr v) \<longrightarrow> settled app rid task s')"
proof (cases c)
  case Ask_score
  then show ?thesis using assms score_tool_posted by (simp add: call_tool_def)
next
  case Ask_record
  then show ?thesis using assms by (auto simp: call_tool_def settled_def posted_def dest: record_tool_state)
next
  case (Ask_policy query)
  then show ?thesis
    using assms by (auto simp: call_tool_def settled_def posted_def split: prod.splits dest: policy_tool_frame)
qed

text \<open>C36. 
  Whatever the agent asks for and however often, a run asks decision-service for a decision
  (\<^verbatim>\<open>POST /decisions\<close>) at most once, for the officer's application and under the run's request id; a
  run that only explains never does. Reads of the decision record are not counted.
\<close>

theorem assistant_scores_at_most_once:
  "let s = snd (assistant_run env sv fresh agent app task request_id topic db) in
   length (st_posts s) \<le> (if task = ''explain'' then 0 else 1) \<and>
   set (map (\<lambda>(r, q). (r, dp_application_id q, dp_request_id q)) (st_posts s)) \<subseteq>
   {(run_id request_id fresh, app, Some (run_id request_id fresh))}"
proof -
  let ?rid = "run_id request_id fresh"
  obtain r s where s: "assistant_run env sv fresh agent app task request_id topic db = (r, s)"
    by (rule prod.exhaust)
  have start: "settled app ?rid task (start db)" by (simp add: settled_def posted_def)
  have "posted app ?rid task (snd (run_agent env app ?rid task topic agent max_steps [] (start db)))"
  proof (rule run_agent_keeps[where I = "settled app ?rid task" and J = "posted app ?rid task", OF _ _ _ start])
    fix c t v t'
    assume "settled app ?rid task t" "call_tool env app ?rid task topic c t = (v, t')" "\<exists>w. v = Inr w"
    then show "settled app ?rid task t'" using call_tool_posted by blast
  next
    fix c t e t'
    assume "settled app ?rid task t" "call_tool env app ?rid task topic c t = (Inl e, t')"
    then show "posted app ?rid task t'" using call_tool_posted by blast
  next
    fix t
    assume "settled app ?rid task t"
    then show "posted app ?rid task t" by (simp add: settled_def)
  qed
  then have "posted app ?rid task s"
    by (intro assistant_run_state[OF s, of "posted app ?rid task"]) (simp_all add: posted_def)
  then show ?thesis using s by (auto simp: posted_def Let_def)
qed

section \<open>The identity gate\<close>

lemma score_application_gated:
  assumes "\<not> kyc_passed (st_db s) app" and "\<And>n d. \<not> kyc_passed d app \<Longrightarrow> \<not> kyc_passed (ae_world env n d) app"
    and "score_application_tool env app rid s = (r, s')"
  shows "\<not> kyc_passed (st_db s') app \<and> st_posts s' = st_posts s \<and> (\<exists>e. r = Inl e)"
  using assms
  by (auto simp: score_application_tool_def require_kyc_passed_def raise_http_def Let_def split: sum.splits option.splits)

definition ungated :: "int \<Rightarrow> run_state \<Rightarrow> bool" where
  "ungated app s \<longleftrightarrow> \<not> kyc_passed (st_db s) app \<and> st_posts s = [] \<and> st_score s = None"

lemma call_tool_ungated:
  assumes world: "\<And>n d. \<not> kyc_passed d app \<Longrightarrow> \<not> kyc_passed (ae_world env n d) app"
    and s: "ungated app s" and step: "call_tool env app rid task topic c s = (r, s')"
  shows "ungated app s'"
proof (cases c)
  case Ask_score
  obtain r' t where t: "score_application_tool env app rid s = (r', t)" by (rule prod.exhaust)
  have "ungated app t"
    using score_application_gated[OF _ world t] score_application_posts[OF t] s by (auto simp: ungated_def)
  moreover have "\<exists>e. r' = Inl e" using score_application_gated[OF _ world t] s by (auto simp: ungated_def)
  ultimately show ?thesis
    using s step t world Ask_score
    by (auto simp: call_tool_def score_tool_def ungated_def split: if_splits dest!: record_tool_state)
next
  case Ask_record
  then show ?thesis using s step world by (auto simp: call_tool_def ungated_def dest!: record_tool_state)
next
  case (Ask_policy query)
  then show ?thesis
    using s step by (auto simp: call_tool_def ungated_def split: prod.splits dest: policy_tool_frame)
qed

text \<open>C37. 
  The assistant is no way around the identity check: where the application's applicant has
  not passed it, and no other session records a passed check, no run of any agent asks decision-service
  for a decision. Reads of the decision record are not gated.
\<close>

theorem assistant_respects_the_identity_gate:
  assumes "\<not> kyc_passed db app" and "\<And>n d. \<not> kyc_passed d app \<Longrightarrow> \<not> kyc_passed (ae_world env n d) app"
  shows "st_posts (snd (assistant_run env sv fresh agent app task request_id topic db)) = []"
proof -
  obtain r s where s: "assistant_run env sv fresh agent app task request_id topic db = (r, s)"
    by (rule prod.exhaust)
  have start: "ungated app (start db)" using assms(1) by (simp add: ungated_def)
  have "ungated app (snd (run_agent env app (run_id request_id fresh) task topic agent max_steps [] (start db)))"
    using call_tool_ungated[OF assms(2)] by (intro run_agent_invariant[of "ungated app"] start) blast
  then have "ungated app s"
    by (intro assistant_run_state[OF s, of "ungated app"] start) (use assms(2) in \<open>auto simp: ungated_def\<close>)
  then show ?thesis using s by (simp add: ungated_def)
qed

section \<open>The officer's answer\<close>

lemma assistant_run_answer:
  assumes "assistant_run env sv fresh agent app task request_id topic db = (Inr a, s)"
  shows "\<exists>action. validated_final env sv action app task (run_id request_id fresh) s = Inr a \<and>
    (topic \<noteq> None \<and> task = ''explain'' \<longrightarrow> st_searches s \<noteq> [])"
  using assms by (auto simp: assistant_run_def finish_run_def Let_def split: if_splits prod.splits loop_end.splits)

text \<open>C38. 
  An answer is built from one decision record, read when the run ends: on a decision run the record
  of the run's own request, which must be a recorded event. Outcome, band, reasons, deciders and the summary the
  officer reads are that record's; the model contributes nothing but the audit flag.
\<close>

theorem answers_come_from_the_record:
  assumes "assistant_run env sv fresh agent app task request_id topic db = (Inr a, s)" and "fresh \<noteq> []"
  shows "\<exists>rec rs prose.
    ae_record env app (if task = ''decision'' then Some (run_id request_id fresh) else None) (st_db s) = Record rec \<and>
    (task = ''decision'' \<longrightarrow> jfield rec ''status'' = Some (VStr ''recorded'')) \<and>
    recorded_reasons rec = Some rs \<and> constructed_summary sv rec rs = Some prose \<and>
    oa_application_id a = app \<and> oa_outcome a = get_or rec ''outcome'' VNull \<and>
    oa_policy_band a = get_or rec ''policy_band'' VNull \<and> oa_principal_reasons a = rs \<and>
    oa_decided_by a = get_or rec ''decided_by'' VNull \<and> oa_decided_at a = get_or rec ''decided_at'' VNull \<and>
    oa_summary a = officer_summary prose (st_citations s) (st_searches s)"
proof -
  have id: "run_id request_id fresh \<noteq> []" using assms(2) by (auto simp: run_id_def present_def split: option.splits)
  from assistant_run_answer[OF assms(1)] obtain action
    where v: "validated_final env sv action app task (run_id request_id fresh) s = Inr a" by blast
  then show ?thesis
    using id
    by (auto simp: validated_final_def answer_of_record_def bind_option_def Let_def
        split: record_reply.splits if_splits option.splits)
qed

section \<open>What the model says does not matter\<close>

text \<open>The agent \<open>retold g\<close> makes the same calls and ends with other words.\<close>

definition retold :: "(jv \<Rightarrow> jv) \<Rightarrow> agent \<Rightarrow> agent" where
  "retold g agent seen = (case agent seen of End (Some v) \<Rightarrow> End (Some (g v)) | m \<Rightarrow> m)"

definition retold_end :: "(jv \<Rightarrow> jv) \<Rightarrow> loop_end \<Rightarrow> loop_end" where
  "retold_end g e = (case e of Ended (Some v) \<Rightarrow> Ended (Some (g v)) | _ \<Rightarrow> e)"

lemma run_retold:
  "run_agent env app rid task topic (retold g agent) n seen s =
   (case run_agent env app rid task topic agent n seen s of (e, t) \<Rightarrow> (retold_end g e, t))"
  by (induction n arbitrary: seen s)
    (auto simp: retold_def retold_end_def split: move.splits option.splits prod.splits sum.splits)

definition unflagged :: "assistant_error + officer_answer \<Rightarrow> assistant_error + officer_answer" where
  "unflagged r = map_sum id (\<lambda>a. a\<lparr>oa_narration_validated := False\<rparr>) r"

lemma answer_flag:
  "map_option (\<lambda>a. a\<lparr>oa_narration_validated := False\<rparr>) (answer_of_record sv app rec valid cs ss) =
   map_option (\<lambda>a. a\<lparr>oa_narration_validated := False\<rparr>) (answer_of_record sv app rec valid' cs ss)"
  by (cases "model_score rec") (auto simp: answer_of_record_def bind_option_def split: option.splits)

lemma validated_flag:
  "unflagged (validated_final env sv action app task rid s) = unflagged (validated_final env sv action' app task rid s)"
proof -
  have flag: "unflagged (case answer_of_record sv app rec v cs ss of None \<Rightarrow> Inl Malformed | Some a \<Rightarrow> Inr a) =
      unflagged (case answer_of_record sv app rec v' cs ss of None \<Rightarrow> Inl Malformed | Some a \<Rightarrow> Inr a)"
    for rec v v' cs ss
    using answer_flag[of sv app rec v cs ss v']
    by (cases "answer_of_record sv app rec v cs ss"; cases "answer_of_record sv app rec v' cs ss") (simp_all add: unflagged_def)
  show ?thesis
    unfolding validated_final_def by (auto split: record_reply.split intro: flag)
qed

lemma finish_retold:
  assumes "\<And>v. is_final (Some (g v)) = is_final (Some v)"
  shows "apfst unflagged (finish_run env sv app task rid topic (retold_end g e) s) =
    apfst unflagged (finish_run env sv app task rid topic e s)"
proof (cases e)
  case (Ended a)
  then show ?thesis
    using assms validated_flag
    by (cases a) (auto simp: finish_run_def retold_end_def Let_def)
qed (simp_all add: finish_run_def retold_end_def)

text \<open>C39. 
  Two runs that differ only in the final message of the model leave the same state and give
  the officer the same answer, up to the flag that says whether the message agreed with the record.
\<close>

theorem narration_only_sets_the_flag:
  assumes "\<And>v. is_final (Some (g v)) = is_final (Some v)"
  shows "apfst unflagged (assistant_run env sv fresh (retold g agent) app task request_id topic db) =
      apfst unflagged (assistant_run env sv fresh agent app task request_id topic db)"
  using finish_retold[OF assms] by (simp add: assistant_run_def run_retold split: prod.split)

section \<open>Policy quotations\<close>

text \<open>A run searches once at most; its citation is that search, when it hit.\<close>

definition searched_once :: "policy_index \<Rightarrow> string \<Rightarrow> run_state \<Rightarrow> bool" where
  "searched_once ix task s \<longleftrightarrow>
     st_searches s = [] \<and> st_citations s = [] \<or>
     (\<exists>query. let a = search_policy ix query task in
        st_searches s = [a] \<and> st_citations s = (if is_hit a then [a] else []))"

lemma score_application_searches:
  assumes "score_application_tool env app rid s = (r, s')"
  shows "st_searches s' = st_searches s \<and> st_citations s' = st_citations s"
  using assms by (auto simp: score_application_tool_def Let_def split: sum.splits option.splits prod.splits client_result.splits)

lemma score_tool_searches:
  assumes "score_tool env app rid task s = (r, s')"
  shows "st_searches s' = st_searches s \<and> st_citations s' = st_citations s"
  using assms
  by (auto simp: score_tool_def dest!: record_tool_state score_application_searches
      split: if_splits option.splits sum.splits prod.splits)

lemma call_tool_searches:
  assumes "searched_once (ae_index env) task s" and "call_tool env app rid task topic c s = (r, s')"
  shows "searched_once (ae_index env) task s'"
proof (cases c)
  case Ask_score
  then show ?thesis using assms score_tool_searches[of env app rid task s] by (simp add: call_tool_def searched_once_def)
next
  case Ask_record
  then have "s' = elapse env s" using assms(2) by (auto simp: call_tool_def dest: record_tool_state)
  then show ?thesis using assms(1) by (simp add: searched_once_def)
next
  case (Ask_policy query)
  then show ?thesis
    using assms by (auto simp: call_tool_def searched_once_def policy_tool_def Let_def split: if_splits)
qed

lemma hit_is_quoted:
  assumes "is_hit (search_policy ix query task)"
  shows "task \<noteq> ''decision'' \<and> (\<exists>chunk sc th. search_policy ix query task =
      \<lparr>pa_status = ''policy_hit'', pa_score = sc, pa_chunk_id = chunk, pa_text = pi_text ix chunk, pa_reason = []\<rparr> \<and>
    pi_best ix query = Some (chunk, sc) \<and> pi_threshold ix = Some th \<and> th \<le> sc)"
  using assms by (auto simp: search_policy_def search_def is_hit_def abstain_def split: if_splits option.splits)

text \<open>C40. 
  A policy question is answered only after a search, with at most one quotation: the corpus
  text of a passage that scored at least the threshold, word for word, and none on a decision run.
\<close>

theorem policy_is_quoted_from_the_corpus:
  assumes "assistant_run env sv fresh agent app task request_id topic db = (Inr a, s)"
  shows "(topic \<noteq> None \<and> task = ''explain'' \<longrightarrow> oa_policy_searches a \<noteq> []) \<and> length (oa_policy_citations a) \<le> 1 \<and>
    (\<forall>(chunk, sc, txt) \<in> set (oa_policy_citations a).
       task \<noteq> ''decision'' \<and> txt = pi_text (ae_index env) chunk \<and>
       (\<exists>query raw th. pi_best (ae_index env) query = Some (chunk, raw) \<and> sc = round4 raw \<and>
          pi_threshold (ae_index env) = Some th \<and> th \<le> raw))"
proof -
  let ?ix = "ae_index env"
  have start: "searched_once ?ix task (start db)" by (simp add: searched_once_def)
  have "searched_once ?ix task (snd (run_agent env app (run_id request_id fresh) task topic agent max_steps [] (start db)))"
    using call_tool_searches by (intro run_agent_invariant[of "searched_once ?ix task"] start) blast
  then have once: "searched_once ?ix task s"
    by (intro assistant_run_state[OF assms, of "searched_once ?ix task"] start) (simp_all add: searched_once_def)
  from assistant_run_answer[OF assms] obtain action
    where v: "validated_final env sv action app task (run_id request_id fresh) s = Inr a"
      and asked: "topic \<noteq> None \<and> task = ''explain'' \<longrightarrow> st_searches s \<noteq> []" by blast
  have parts: "oa_policy_citations a = map (\<lambda>a. (pa_chunk_id a, round4 (pa_score a), pa_text a)) (st_citations s) \<and>
      oa_policy_searches a = map (\<lambda>a. (pa_status a, round4 (pa_score a), pa_reason a)) (st_searches s)"
    using v by (auto simp: validated_final_def answer_of_record_def bind_option_def Let_def
        split: record_reply.splits if_splits option.splits)
  show ?thesis
    using once asked parts hit_is_quoted[of ?ix _ task]
    by (fastforce simp: searched_once_def Let_def split: if_splits)
qed

section \<open>A run that explains\<close>

definition explained_record :: jv where
  "explained_record = VObj [(''status'', VStr ''recorded''), (''outcome'', VStr ''deny''), (''policy_band'', VStr ''deny''),
     (''principal_reasons'', VList [VObj [(''code'', VStr ''R02''), (''reason'', VStr ''Debt'')]])]"

definition sample_index :: policy_index where
  "sample_index = \<lparr>pi_threshold = Some (1 / 2), pi_harness = True, pi_ready = True,
     pi_best = (\<lambda>_. Some (''fees#late'', 3 / 4)), pi_text = (\<lambda>_. ''Late fee.'')\<rparr>"

definition sample_assist :: assistant_env where
  "sample_assist = \<lparr>ae_post = (\<lambda>_ _ db. (No_answer, db)), ae_record = (\<lambda>_ _ _. Record explained_record),
     ae_index = sample_index, ae_world = (\<lambda>_ db. db)\<rparr>"

definition sample_final :: jv where
  "sample_final = VObj [(''action'', VStr ''final''), (''outcome'', VStr ''approve'')]"

text \<open>It asks for a score, searches twice and narrates an approval of a denied application.\<close>

definition sample_agent :: agent where
  "sample_agent seen =
     (if seen = [] then Call Ask_score else if length seen < 3 then Call (Ask_policy ''late fees'') else End (Some sample_final))"

abbreviation sample_explains :: "(assistant_error + officer_answer) \<times> run_state" where
  "sample_explains \<equiv>
     assistant_run sample_assist (\<lambda>_. []) ''f'' sample_agent 10 ''explain'' None (Some ''fee_schedule'') (sample_los [] [])"

lemma sample_explained:
  "case fst sample_explains of
     Inr a \<Rightarrow> oa_outcome a = VStr ''deny'' \<and> \<not> oa_narration_validated a \<and> oa_policy_citations a = [(''fees#late'', 3 / 4, ''Late fee.'')]
   | Inl _ \<Rightarrow> False"
  by code_simp

lemma explained:
  obtains a s where "sample_explains = (Inr a, s)" "oa_outcome a = VStr ''deny''" "\<not> oa_narration_validated a"
    "oa_policy_citations a = [(''fees#late'', 3 / 4, ''Late fee.'')]"
  using sample_explained by (cases sample_explains) (auto split: sum.splits)

theorem answers_come_from_the_record_witness:
  "\<exists>a s rec. sample_explains = (Inr a, s) \<and> oa_outcome a = VStr ''deny'' \<and>
     ae_record sample_assist 10 None (st_db s) = Record rec \<and> oa_outcome a = get_or rec ''outcome'' VNull"
proof -
  obtain a s where a: "sample_explains = (Inr a, s)" "oa_outcome a = VStr ''deny''" by (rule explained)
  from answers_come_from_the_record[OF a(1)] show ?thesis using a by fastforce
qed

theorem policy_is_quoted_from_the_corpus_witness:
  "\<exists>a s. sample_explains = (Inr a, s) \<and> oa_policy_searches a \<noteq> [] \<and> length (oa_policy_citations a) = 1 \<and>
     (\<forall>(chunk, sc, txt) \<in> set (oa_policy_citations a). txt = pi_text sample_index chunk)"
proof -
  obtain a s where a: "sample_explains = (Inr a, s)" "oa_policy_citations a = [(''fees#late'', 3 / 4, ''Late fee.'')]"
    by (rule explained)
  from policy_is_quoted_from_the_corpus[OF a(1)] show ?thesis using a by (auto simp: sample_assist_def)
qed

theorem narration_only_sets_the_flag_witness:
  "\<exists>a s. assistant_run sample_assist (\<lambda>_. []) ''f'' (retold (\<lambda>v. if is_final (Some v) then VObj [(''action'', VStr ''final''),
       (''outcome'', VStr ''deny''), (''reason_codes'', VList [VStr ''R02''])] else v) sample_agent)
     10 ''explain'' None (Some ''fee_schedule'') (sample_los [] []) = (Inr a, s) \<and>
     s = snd sample_explains \<and> oa_outcome a = VStr ''deny''"
proof -
  let ?g = "\<lambda>v. if is_final (Some v) then VObj [(''action'', VStr ''final''),
       (''outcome'', VStr ''deny''), (''reason_codes'', VList [VStr ''R02''])] else v"
  have g: "is_final (Some (?g v)) = is_final (Some v)" for v
    by (simp add: is_final_def)
  obtain a s where a: "sample_explains = (Inr a, s)" "oa_outcome a = VStr ''deny''" by (rule explained)
  obtain r s' where r: "assistant_run sample_assist (\<lambda>_. []) ''f'' (retold ?g sample_agent)
     10 ''explain'' None (Some ''fee_schedule'') (sample_los [] []) = (r, s')" by (rule prod.exhaust)
  have "s' = s \<and> unflagged r = unflagged (Inr a)"
    using narration_only_sets_the_flag[of ?g, OF g, of sample_assist "\<lambda>_. []" "''f''" sample_agent 10 "''explain''" None
        "Some ''fee_schedule''" "sample_los [] []"] a r by simp
  moreover from this obtain b where "r = Inr b" by (cases r) (auto simp: unflagged_def)
  ultimately have "r = Inr b" "s' = s" "oa_outcome b = oa_outcome a" by (auto simp: unflagged_def dest: arg_cong[of _ _ oa_outcome])
  then show ?thesis using a r by auto
qed

theorem assistant_respects_the_identity_gate_witness:
  "st_posts (snd (assistant_run sample_assist (\<lambda>_. []) ''f'' (\<lambda>_. Call Ask_score) 11 ''decision'' None None
     (sample_los [] []))) = []"
proof (rule assistant_respects_the_identity_gate)
  show "\<not> kyc_passed (sample_los [] []) 11"
    by (simp add: kyc_passed_def app_by_id_def sample_los_def sample_app_def bind_option_def)
qed (simp add: sample_assist_def)

end
