(* ===== verification/Spec2Isabelle.thy ===== *)
theory Spec2Isabelle
  imports MoneyRoutes PaymentRoutes Reconciliation FeeRules Apr Schedule DisclosureProps Offers
    DecisionRoutes Coordinator LosRouteProps Journey Probes RateLimit RedactorProps RequestProps LlmProps
    AssistantProps
begin

text \<open>
  Meridian Lending Platform: a development beside the Python services under \<^verbatim>\<open>src/services\<close>.

  \<^bold>\<open>The program.\<close> Seven services share one Postgres database. A browser talks to the \<^emph>\<open>gateway\<close>,
  which holds sessions in Redis and forwards requests with trusted headers. \<^emph>\<open>origination-service\<close> takes
  applications, checks identities through \<^emph>\<open>kyc-service\<close>, decides them through \<^emph>\<open>decision-service\<close>, prices
  and discloses them through \<^emph>\<open>disclosure-service\<close> and boards accepted loans for \<^emph>\<open>servicing-service\<close>;
  \<^emph>\<open>payment-service\<close> captures payments and asks servicing to credit them; servicing reconciles the
  payments table with the processor's settlement file. Assistants in origination call a hosted language
  model behind a redaction and validation layer.

  \<^bold>\<open>Shared vocabulary.\<close> Prelude: results with HTTP errors (\<open>'a response\<close>), the ASCII string operations
  of the code, list lemmas. Rounding: the arithmetic money is computed with, as roundings of rationals:
  \<open>dec28\<close> is \<^verbatim>\<open>decimal\<close> at 28 digits, \<open>fl\<close> a double's 53 bits (no overflow, no infinities). Json,
  JsonValues: the serialized and the decoded form of JSON. Dates, DecimalText: calendar dates and decimal
  numbers as text. Regex: \<^verbatim>\<open>re\<close>, a backtracking matcher and \<^verbatim>\<open>re.sub\<close>.

  \<^bold>\<open>How state is modelled.\<close> Tables are records of lists of row records. A handler is a function of the
  tables; one SQL statement is one atomic function of them. Where several sessions share a table a handler
  takes an argument \<open>w\<close>, and \<open>w n\<close> is what all other sessions do before its statement number \<open>n\<close>. A
  step relation with one rule per statement any service issues (PaymentSteps, DisclosureSteps, LosSteps) says
  what \<open>w\<close> may be; the simulation lemmas there show that every run of a handler is a path of that relation,
  so invariants proved by rule induction hold for every handler under every interleaving. Clocks, random
  identifiers, digests (SHA-256, HMAC, PBKDF2), the credit bureau, the payment processor and the model
  provider are parameters. Errors are values: \<^verbatim>\<open>raise HTTPException\<close> is \<open>raise_http\<close>, an exception class a
  constructor of an error datatype.

  \<^bold>\<open>Money.\<close>
  \<^item> Balance (servicing \<^verbatim>\<open>balance.py\<close>, \<^verbatim>\<open>delinquency.py\<close>) with Authz (\<^verbatim>\<open>authz.py\<close> of servicing and payment)
    and MoneyRoutes (\<^verbatim>\<open>main.py\<close>): applying a payment, adjustments, fees; the concrete tables refine an abstract
    ledger (\<open>applies_refine_ledger\<close>).
  \<^item> RequestIds, Payments, PaymentSteps, PaymentRoutes (\<^verbatim>\<open>payment-service/app/payments.py\<close> and its two front
    doors): span ids, idempotency keys, \<^verbatim>\<open>claim_or_branch\<close> and \<^verbatim>\<open>charge\<close> under interleaving; at most one
    capture per key, retries replay.
  \<^item> Settlement, Matching, Reconciliation (\<^verbatim>\<open>reconciliation.py\<close>, \<^verbatim>\<open>reconcile.py\<close>): reading, two-pass matching,
    duplicate scan, report and exit code; exit 0 means every row is paired.

  \<^bold>\<open>Pricing and disclosure.\<close>
  \<^item> FeeRules, Apr, Schedule (\<^verbatim>\<open>disclosure-service/app/rules.py\<close>, \<^verbatim>\<open>fees.py\<close>, \<^verbatim>\<open>apr.py\<close>, \<^verbatim>\<open>schedule.py\<close>,
    \<^verbatim>\<open>offer.py\<close>): fail-closed fee schedule, finance charges and APR, amortization. The APR search makes 200
    bisection steps, which brings the bracket below the last of the 28 digits; a schedule has at most 60 rows.
  \<^item> DisclosureData, Disclosures, DisclosureSteps, DisclosureProps, Offers (\<^verbatim>\<open>routers/disclosures.py\<close>,
    \<^verbatim>\<open>routers/offers.py\<close>, \<^verbatim>\<open>fingerprint.py\<close>, \<^verbatim>\<open>models.py\<close>): records, documents, provenance, lifecycle.
  \<^item> Coordinator (origination \<^verbatim>\<open>disclosure_coordinator.py\<close>): the staged pipeline; its graph enters at most
    eight nodes and its fuel is 25, the recursion limit of the graph library.

  \<^bold>\<open>Decisions.\<close> Scoring, Decision, DecisionRoutes (\<^verbatim>\<open>decision-service/app\<close>): score in floating point,
  reasons, append-only log with replay. Breaker (origination \<^verbatim>\<open>clients.py\<close>): the circuit breaker, five
  failures, 30 seconds.

  \<^bold>\<open>Applications.\<close> LosData, LosAuthz, Kyc, Intake, Boarding, LosSteps, LosProps, IntakeProps (origination
  \<^verbatim>\<open>authz.py\<close>, \<^verbatim>\<open>intake.py\<close>, \<^verbatim>\<open>kyc_gate.py\<close>, \<^verbatim>\<open>routers/applications.py\<close>, \<^verbatim>\<open>main.py\<close>; \<^verbatim>\<open>kyc-service/app\<close>):
  submit, identity checks, resume tokens, acceptance and boarding. LosRoutes, LosRouteProps: deciding and
  pricing an application through the other services. Gateway, GatewayProps, Journey (\<^verbatim>\<open>gateway/app\<close>):
  passwords, sessions, header filter, and the submit and resume journeys with origination behind the proxy;
  a resume session is stored with at most three attempts. Probes (the cached single-flight health probes) and
  RateLimit (10 model calls in 60 seconds per user).

  \<^bold>\<open>What leaves the system.\<close>
  \<^item> Redactor, RedactorProps, RedactorFrame (\<^verbatim>\<open>app/redactor.py\<close>, the same file in seven services): every
    pattern and pass of the log redactor; what is masked and what is left alone.
  \<^item> RequestRedaction, RedactionProps, RequestBuilder, RequestProps (origination
    \<^verbatim>\<open>llm/request_builder.py\<close>, \<^verbatim>\<open>prompts/__init__.py\<close>): structural redaction of documents, history and tool
    blocks, the token budget (four characters a token), trimming; the request does not depend on who the
    applicant is, and the one way found by which a bare name escapes.
  \<^item> LlmClient, LlmProps (\<^verbatim>\<open>llm/client.py\<close>, \<^verbatim>\<open>llm/adapter.py\<close>, \<^verbatim>\<open>llm/transport.py\<close>, \<^verbatim>\<open>llm/validator.py\<close>): one
    model call with its retries, guards and schema check; only checked output is returned, retries are bounded.
  \<^item> Assistant, AssistantProps (\<^verbatim>\<open>app/assistant.py\<close>, the search of \<^verbatim>\<open>app/policy_retrieval.py\<close>): the officer's
    assistant over an arbitrary agent, at most \<open>max_steps\<close> = 6 model calls as in the code, so the loop is
    structural in that number and needs no other fuel. Whatever the agent does it asks for one
    decision at most, behind the identity gate, and the answer is the decision record's; corpus text is quoted word for word.

  \<^bold>\<open>Interfaces.\<close> \<open>owner_gate\<close> (three gates admit a role or the owner), \<open>internal_gate\<close> (the secret of the
  internal callers, in five services), \<open>step_invariant\<close> and \<open>row_guarantee\<close> (what every statement keeps, so
  every path does), \<open>rounded_bisection\<close> (a bisection whose midpoint is rounded) are locales, each interpreted
  on the model's own definitions; the properties rest on the interpretations.

  \<^bold>\<open>Not modelled.\<close> The HTTP, SQL, Redis, logging and tracing libraries; what the schema in \<^verbatim>\<open>db/init\<close> does
  beyond the constraints the statements rely on; start-up configuration other than the settings the modelled
  code reads; the provider SDK and the graph library; the corpus index of \<^verbatim>\<open>policy_retrieval.py\<close> (a parameter)
  and its offline evaluation (\<^verbatim>\<open>rag_eval\<close>); \<^verbatim>\<open>llm/chat_model.py\<close>, the run telemetry; the prompt texts;
  the officer's list screens of servicing; the SSN purge job; the scripts and the front end. Texts are Latin-1, in most components ASCII.
\<close>

end
